(* ===== verification/Prelude.thy ===== *)
theory Prelude
  imports Main "HOL-Library.Word"
begin

text \<open>
  Shared ground of the development: the machine types of the C and C++ sources, the conversions
  between them, the flat byte memory in which buffers and slices live, and the few functions of
  the C library the modelled code calls.  The collections declared here carry the proofs of the
  component theories: \<open>mem_simps\<close> (reads and writes of memory), \<open>c_conv\<close>
  (integer conversions that are exact in range) and \<open>word_nat\<close> (machine words read as
  natural numbers).
\<close>

unbundle bit_operations_syntax

named_theorems mem_simps \<open>reads and writes of the byte memory\<close>
named_theorems c_conv \<open>C integer conversions that are exact in range\<close>
named_theorems word_nat \<open>machine words read as natural numbers\<close>

text \<open>A guarded update, for the many statements of the form \<^verbatim>\<open>if (c) x = f(x);\<close>\<close>

definition upd_if :: "bool \<Rightarrow> ('a \<Rightarrow> 'a) \<Rightarrow> 'a \<Rightarrow> 'a" where
  "upd_if c f a = (if c then f a else a)"

lemma upd_if_simps [simp]: "upd_if True f a = f a" "upd_if False f a = a"
  by (simp_all add: upd_if_def)

section \<open>Machine integers\<close>

type_synonym u8 = "8 word"
type_synonym u16 = "16 word"
type_synonym u32 = "32 word"
type_synonym u64 = "64 word"

text \<open>
  Sizes and addresses are natural numbers: an object never exceeds the address space.  Where the
  code converts a size to \<^verbatim>\<open>int\<close>, or an \<^verbatim>\<open>int\<close> back to \<^verbatim>\<open>size_t\<close>, the conversion is
  written out: \<open>c_int\<close> keeps the low 32 bits and reads them as two's complement,
  \<open>c_size\<close> keeps the low 64 bits.
\<close>

definition c_int :: "int \<Rightarrow> int" where
  "c_int x = signed_take_bit 31 x"

definition c_size :: "int \<Rightarrow> nat" where
  "c_size x = nat (take_bit 64 x)"

lemma c_int_id [c_conv]: "- (2 ^ 31) \<le> x \<Longrightarrow> x < 2 ^ 31 \<Longrightarrow> c_int x = x"
  by (simp add: c_int_def signed_take_bit_int_eq_self_iff)

lemma c_size_id [c_conv]: "0 \<le> x \<Longrightarrow> x < 2 ^ 64 \<Longrightarrow> c_size x = nat x"
  by (simp add: c_size_def take_bit_int_eq_self)

lemma c_size_neg: "- (2 ^ 64) \<le> x \<Longrightarrow> x < 0 \<Longrightarrow> c_size x = nat (x + 2 ^ 64)"
proof -
  assume a: "- (2 ^ 64) \<le> x" "x < 0"
  have "x mod 2 ^ 64 = (x + 2 ^ 64) mod 2 ^ 64" by simp
  also have "\<dots> = x + 2 ^ 64" using a by (intro mod_pos_pos_trivial) auto
  finally show ?thesis by (simp add: c_size_def take_bit_eq_mod)
qed

lemma unat_u64: "unat (a :: u64) < 2 ^ 64"
  using unsigned_less [of a, where ?'a = nat] by simp

lemma unat_add_fits [word_nat]: "unat a + unat b < 2 ^ 64 \<Longrightarrow> unat (a + b :: u64) = unat a + unat b"
  by (simp add: unat_word_ariths)

lemma unat_sub_fits [word_nat]: "unat b \<le> unat a \<Longrightarrow> unat (a - b :: u64) = unat a - unat b"
  by (simp add: unat_sub word_le_nat_alt)

section \<open>Memory\<close>

type_synonym mem = "char list"

abbreviation NUL :: char where "NUL \<equiv> CHR 0x00"
abbreviation SLASH :: char where "SLASH \<equiv> CHR ''/''"

text \<open>The null pointer: address 0 of the memory is never handed out.\<close>

abbreviation (input) NULL :: nat where "NULL \<equiv> 0"

text \<open>The \<open>n\<close> bytes that start at address \<open>p\<close>.\<close>

definition bytes :: "mem \<Rightarrow> nat \<Rightarrow> nat \<Rightarrow> string" where
  "bytes m p n = take n (drop p m)"

definition memmove :: "mem \<Rightarrow> nat \<Rightarrow> nat \<Rightarrow> nat \<Rightarrow> mem" where
  "memmove m dst src n =
     map (\<lambda>i. if dst \<le> i \<and> i < dst + n then m ! (src + (i - dst)) else m ! i) [0..<length m]"

definition strlen :: "mem \<Rightarrow> nat \<Rightarrow> nat" where
  "strlen m p = length (takeWhile (\<lambda>c. c \<noteq> NUL) (drop p m))"

definition strnlen :: "mem \<Rightarrow> nat \<Rightarrow> nat \<Rightarrow> nat" where
  "strnlen m p n = length (takeWhile (\<lambda>c. c \<noteq> NUL) (bytes m p n))"

text \<open>The memory \<open>m\<close> holds the NUL-terminated string \<open>s\<close> at address \<open>p\<close>.\<close>

definition cstring_at :: "mem \<Rightarrow> nat \<Rightarrow> string \<Rightarrow> bool" where
  "cstring_at m p s \<longleftrightarrow> NUL \<notin> set s \<and> p + length s < length m \<and> bytes m p (Suc (length s)) = s @ [NUL]"

lemma length_memmove [simp, mem_simps]: "length (memmove m d s n) = length m"
  by (simp add: memmove_def)

lemma nth_memmove [mem_simps]:
  "i < length m \<Longrightarrow>
   memmove m d s n ! i = (if d \<le> i \<and> i < d + n then m ! (s + (i - d)) else m ! i)"
  by (simp add: memmove_def)

lemma length_bytes [mem_simps]: "p + n \<le> length m \<Longrightarrow> length (bytes m p n) = n"
  by (simp add: bytes_def)

lemma length_bytes_le: "length (bytes m p n) \<le> n"
  by (simp add: bytes_def)

lemma nth_bytes [mem_simps]: "i < n \<Longrightarrow> p + n \<le> length m \<Longrightarrow> bytes m p n ! i = m ! (p + i)"
  by (simp add: bytes_def)

lemma bytes_0 [simp]: "bytes m p 0 = []"
  by (simp add: bytes_def)

lemma bytes_cong:
  "(\<And>i. p \<le> i \<Longrightarrow> i < p + n \<Longrightarrow> m ! i = m' ! i) \<Longrightarrow> p + n \<le> length m \<Longrightarrow> length m' = length m \<Longrightarrow>
   bytes m p n = bytes m' p n"
  by (rule nth_equalityI) (auto simp: mem_simps)

lemma bytes_append: "p + a + b \<le> length m \<Longrightarrow> bytes m p (a + b) = bytes m p a @ bytes m (p + a) b"
  by (simp add: bytes_def take_add add.commute)

lemma bytes_Suc: "p + n < length m \<Longrightarrow> bytes m p (Suc n) = bytes m p n @ [m ! (p + n)]"
  by (simp add: bytes_def take_Suc_conv_app_nth add.commute)

lemma bytes_memmove:
  "d + n \<le> length m \<Longrightarrow> s + n \<le> length m \<Longrightarrow> bytes (memmove m d s n) d n = bytes m s n"
  by (rule nth_equalityI) (auto simp: mem_simps)

lemma bytes_memmove_before:
  "p + k \<le> d \<Longrightarrow> p + k \<le> length m \<Longrightarrow> bytes (memmove m d s n) p k = bytes m p k"
  by (rule bytes_cong) (auto simp: mem_simps)

lemma bytes_memmove_after:
  "d + n \<le> p \<Longrightarrow> p + k \<le> length m \<Longrightarrow> bytes (memmove m d s n) p k = bytes m p k"
  by (rule bytes_cong) (auto simp: mem_simps)

lemma bytes_update_out:
  "i < p \<or> p + n \<le> i \<Longrightarrow> bytes (m[i := c]) p n = bytes m p n"
  by (auto simp: bytes_def drop_update_swap take_update_swap list_update_beyond)

lemma bytes_bytes: "p + n \<le> length m \<Longrightarrow> i + k \<le> n \<Longrightarrow> take k (drop i (bytes m p n)) = bytes m (p + i) k"
  by (rule nth_equalityI) (auto simp: mem_simps add.assoc)

text \<open>Only bytes of \<open>[lo, hi)\<close> differ.\<close>

definition writes_only :: "mem \<Rightarrow> mem \<Rightarrow> nat \<Rightarrow> nat \<Rightarrow> bool" where
  "writes_only m m' lo hi \<longleftrightarrow> length m' = length m \<and> (\<forall>i < length m. i < lo \<or> hi \<le> i \<longrightarrow> m' ! i = m ! i)"

lemma writes_only_refl [simp]: "writes_only m m lo hi"
  by (simp add: writes_only_def)

lemma writes_only_trans: "writes_only m m' lo hi \<Longrightarrow> writes_only m' m'' lo hi \<Longrightarrow> writes_only m m'' lo hi"
  by (simp add: writes_only_def)

lemma writes_only_mono: "writes_only m m' lo hi \<Longrightarrow> lo' \<le> lo \<Longrightarrow> hi \<le> hi' \<Longrightarrow> writes_only m m' lo' hi'"
  by (auto simp: writes_only_def)

lemma writes_only_length: "writes_only m m' lo hi \<Longrightarrow> length m' = length m"
  by (simp add: writes_only_def)

lemma bytes_writes_only:
  "writes_only m m' lo hi \<Longrightarrow> p + n \<le> length m \<Longrightarrow> p + n \<le> lo \<or> hi \<le> p \<Longrightarrow> bytes m' p n = bytes m p n"
  by (rule bytes_cong) (auto simp: writes_only_def)

lemma writes_only_update: "writes_only m (m[i := c]) i (Suc i)"
  by (auto simp: writes_only_def nth_list_update)

lemma writes_only_memmove: "writes_only m (memmove m d s n) d (d + n)"
  by (auto simp: writes_only_def nth_memmove)

lemma cstring_at_overwrite:
  assumes "cstring_at m p s" "p + length s \<le> q"
  shows "cstring_at (m[q := NUL]) p s"
proof (cases "q = p + length s")
  case True
  have "bytes m p (Suc (length s)) = bytes m p (length s) @ [m ! q]" "m ! q = NUL"
    using assms bytes_Suc [of p "length s" m] True by (auto simp: cstring_at_def)
  then have "m[q := NUL] = m" by (metis list_update_id)
  then show ?thesis using assms(1) by simp
next
  case False
  then show ?thesis using assms by (auto simp: cstring_at_def bytes_update_out)
qed

lemma strlen_cstring: "cstring_at m p s \<Longrightarrow> strlen m p = length s"
proof -
  assume a: "cstring_at m p s"
  then have "take (Suc (length s)) (drop p m) = s @ [NUL]" by (simp add: cstring_at_def bytes_def)
  then obtain r where "drop p m = s @ NUL # r"
    by (metis append.assoc append_Cons append_Nil append_take_drop_id)
  moreover have "\<forall>c \<in> set s. c \<noteq> NUL" using a by (auto simp: cstring_at_def)
  ultimately show ?thesis by (simp add: strlen_def)
qed

lemma strnlen_cstring: "cstring_at m p s \<Longrightarrow> strnlen m p n = min n (length s)"
proof -
  assume a: "cstring_at m p s"
  then have "take (Suc (length s)) (drop p m) = s @ [NUL]" by (simp add: cstring_at_def bytes_def)
  then obtain r where d: "drop p m = s @ NUL # r"
    by (metis append.assoc append_Cons append_Nil append_take_drop_id)
  show ?thesis
  proof (cases "n \<le> length s")
    case True
    have "takeWhile (\<lambda>c. c \<noteq> NUL) (take n s) = take n s"
      using a by (auto simp: cstring_at_def takeWhile_eq_all_conv dest: in_set_takeD)
    then have "length (takeWhile (\<lambda>c. c \<noteq> NUL) (take n s)) = n" using True by (simp only: length_take)
    with True show ?thesis by (simp add: strnlen_def bytes_def d)
  next
    case False
    then obtain k where "n = length s + Suc k" by (metis add_Suc_right less_iff_Suc_add not_le)
    moreover have "\<forall>c \<in> set s. c \<noteq> NUL" using a by (auto simp: cstring_at_def)
    ultimately show ?thesis by (simp add: strnlen_def bytes_def d)
  qed
qed

lemma bytes_cstring: "cstring_at m p s \<Longrightarrow> bytes m p (length s) = s"
proof -
  assume a: "cstring_at m p s"
  then have "take (length s) (bytes m p (Suc (length s))) = s" by (simp add: cstring_at_def)
  then show ?thesis by (simp add: bytes_def)
qed

section \<open>Lists\<close>

text \<open>How many leading elements two lists share: the loop that the path routines use.\<close>

fun common_len :: "'a list \<Rightarrow> 'a list \<Rightarrow> nat" where
  "common_len (x # xs) (y # ys) = (if x = y then Suc (common_len xs ys) else 0)"
| "common_len _ _ = 0"

lemma common_len_le: "common_len xs ys \<le> length xs" "common_len xs ys \<le> length ys"
  by (induction xs ys rule: common_len.induct) auto

lemma common_len_sym: "common_len xs ys = common_len ys xs"
  by (induction xs ys rule: common_len.induct) auto

lemma common_len_self [simp]: "common_len xs xs = length xs"
  by (induction xs) auto

lemma common_len_take: "take (common_len xs ys) xs = take (common_len xs ys) ys"
  by (induction xs ys rule: common_len.induct) auto

lemma common_len_full: "common_len xs ys = length xs \<Longrightarrow> common_len xs ys = length ys \<Longrightarrow> xs = ys"
  using common_len_take [of xs ys] by simp

lemma common_len_tri: "min (common_len xs ys) (common_len ys zs) \<le> common_len xs zs"
proof (induction xs ys arbitrary: zs rule: common_len.induct)
  case (1 x xs y ys)
  show ?case
  proof (cases zs)
    case (Cons z zs')
    then show ?thesis using "1.IH" [of zs'] by auto
  qed simp
qed auto

end
