(* ===== verification/Common_Types.thy ===== *)
theory Common_Types
  imports Prelude
begin

text \<open>
  The small value types of \<^verbatim>\<open>include/common_types.h\<close>, on which the path routines, the compound
  builder and the session slot table rest: slices (an address and a length), append-only buffers
  (a region of memory, its capacity and its fill) and bit sets (an array of bytes).  Slices and
  buffers refer to the flat memory of theory \<open>Prelude\<close>, so that a slice may point into the
  buffer it is appended to, as it does in the in-place path normalisation.  Assertions of the
  source are proof obligations here: the lemmas show that they hold wherever the invariant does.
\<close>

section \<open>Slices\<close>

record slice_t =
  sl_size :: nat
  sl_data :: nat

definition slice_str :: "mem \<Rightarrow> slice_t \<Rightarrow> string" where
  "slice_str m s = bytes m (sl_data s) (sl_size s)"

definition slice_ok :: "mem \<Rightarrow> slice_t \<Rightarrow> bool" where
  "slice_ok m s \<longleftrightarrow> sl_data s + sl_size s \<le> length m"

definition mkslice :: "nat \<Rightarrow> nat \<Rightarrow> slice_t" where
  "mkslice d s = \<lparr>sl_size = s, sl_data = d\<rparr>"

definition toslice :: "mem \<Rightarrow> nat \<Rightarrow> slice_t" where
  "toslice m d = \<lparr>sl_size = (if d \<noteq> NULL then strlen m d else 0), sl_data = d\<rparr>"

text \<open>\<open>fillslice\<close> writes through a pointer that may be NULL: the target is an option.\<close>

definition fillslice :: "slice_t option \<Rightarrow> nat \<Rightarrow> nat \<Rightarrow> slice_t option" where
  "fillslice sl d s = map_option (\<lambda>x. x\<lparr>sl_data := d, sl_size := s\<rparr>) sl"

fun lstrip_count :: "mem \<Rightarrow> slice_t \<Rightarrow> char \<Rightarrow> nat \<Rightarrow> nat \<Rightarrow> nat" where
  "lstrip_count m sl c i 0 = i"
| "lstrip_count m sl c i (Suc k) =
     (if i < sl_size sl \<and> m ! (sl_data sl + i) = c then lstrip_count m sl c (Suc i) k else i)"

definition slice_lstrip :: "mem \<Rightarrow> slice_t \<Rightarrow> char \<Rightarrow> slice_t" where
  "slice_lstrip m sl c =
     (let i = lstrip_count m sl c 0 (sl_size sl)
      in \<lparr>sl_size = sl_size sl - i, sl_data = sl_data sl + i\<rparr>)"

fun rstrip_size :: "mem \<Rightarrow> nat \<Rightarrow> char \<Rightarrow> nat \<Rightarrow> nat" where
  "rstrip_size m d c 0 = 0"
| "rstrip_size m d c (Suc n) = (if m ! (d + n) = c then rstrip_size m d c n else Suc n)"

definition slice_rstrip :: "mem \<Rightarrow> slice_t \<Rightarrow> char \<Rightarrow> slice_t" where
  "slice_rstrip m sl c = sl\<lparr>sl_size := rstrip_size m (sl_data sl) c (sl_size sl)\<rparr>"

fun lindex_from :: "mem \<Rightarrow> slice_t \<Rightarrow> char \<Rightarrow> nat \<Rightarrow> nat \<Rightarrow> nat" where
  "lindex_from m sl c i 0 = i"
| "lindex_from m sl c i (Suc k) =
     (if i < sl_size sl \<and> m ! (sl_data sl + i) \<noteq> c then lindex_from m sl c (Suc i) k else i)"

text \<open>
  The result of \<open>slice_lindex\<close> is a conditional expression over an \<^verbatim>\<open>int\<close> and an
  \<^verbatim>\<open>unsigned int\<close>: the language converts the \<open>-1\<close> to \<^verbatim>\<open>unsigned int\<close> before it is
  widened, so a miss is reported as \<open>2\<^sup>3\<^sup>2 - 1\<close>.
\<close>

definition slice_lindex :: "mem \<Rightarrow> slice_t \<Rightarrow> char \<Rightarrow> int" where
  "slice_lindex m sl c =
     (let i = lindex_from m sl c 0 (sl_size sl) in if i = sl_size sl then 2 ^ 32 - 1 else int i)"

text \<open>The scan of \<open>slice_rindex\<close> runs downwards; \<open>n\<close> is the index under test plus one.\<close>

fun rindex_from :: "mem \<Rightarrow> nat \<Rightarrow> char \<Rightarrow> nat \<Rightarrow> int" where
  "rindex_from m d c 0 = -1"
| "rindex_from m d c (Suc n) = (if m ! (d + n) \<noteq> c then rindex_from m d c n else int n)"

definition slice_rindex :: "mem \<Rightarrow> slice_t \<Rightarrow> char \<Rightarrow> int" where
  "slice_rindex m sl c = rindex_from m (sl_data sl) c (sl_size sl)"

text \<open>
  \<open>cmpslice\<close> returns the difference of the first differing characters (plain \<^verbatim>\<open>char\<close> is
  signed on the supported platforms) or the order of the lengths.
\<close>

definition char_val :: "char \<Rightarrow> int" where
  "char_val c = signed_take_bit 7 (of_char c)"

fun cmpslice_from :: "mem \<Rightarrow> slice_t \<Rightarrow> slice_t \<Rightarrow> nat \<Rightarrow> nat \<Rightarrow> int" where
  "cmpslice_from m sa sb i 0 =
     (if sl_size sa = sl_size sb then 0 else if sl_size sa < sl_size sb then -1 else 1)"
| "cmpslice_from m sa sb i (Suc k) =
     (if i < sl_size sa \<and> i < sl_size sb
      then if m ! (sl_data sa + i) \<noteq> m ! (sl_data sb + i)
           then char_val (m ! (sl_data sa + i)) - char_val (m ! (sl_data sb + i))
           else cmpslice_from m sa sb (Suc i) k
      else if sl_size sa = sl_size sb then 0 else if sl_size sa < sl_size sb then -1 else 1)"

definition cmpslice :: "mem \<Rightarrow> slice_t \<Rightarrow> slice_t \<Rightarrow> int" where
  "cmpslice m sa sb = cmpslice_from m sa sb 0 (min (sl_size sa) (sl_size sb))"

section \<open>Buffers\<close>

record buf_t =
  bf_capacity :: nat
  bf_size :: nat
  bf_data :: nat

definition mkbuf :: "nat \<Rightarrow> nat \<Rightarrow> buf_t" where
  "mkbuf b c = \<lparr>bf_capacity = c, bf_size = 0, bf_data = b\<rparr>"

definition asslice :: "buf_t \<Rightarrow> slice_t" where
  "asslice b = mkslice (bf_data b) (bf_size b)"

definition buf_append_slice :: "mem \<Rightarrow> buf_t \<Rightarrow> slice_t \<Rightarrow> int \<times> mem \<times> buf_t" where
  "buf_append_slice m b sl =
     (if bf_size b + sl_size sl > bf_capacity b then (-1, m, b)
      else
        let m' = (if bf_data b + bf_size b \<noteq> sl_data sl
                  then memmove m (bf_data b + bf_size b) (sl_data sl) (sl_size sl) else m)
        in (c_int (int (sl_size sl)), m', b\<lparr>bf_size := bf_size b + sl_size sl\<rparr>))"

definition buf_append_str :: "mem \<Rightarrow> buf_t \<Rightarrow> nat \<Rightarrow> int \<times> mem \<times> buf_t" where
  "buf_append_str m b s = buf_append_slice m b (toslice m s)"

definition buf_append_buf :: "mem \<Rightarrow> buf_t \<Rightarrow> buf_t \<Rightarrow> int \<times> mem \<times> buf_t" where
  "buf_append_buf m dst src = buf_append_slice m dst (asslice src)"

definition buf_append_char :: "mem \<Rightarrow> buf_t \<Rightarrow> char \<Rightarrow> int \<times> mem \<times> buf_t" where
  "buf_append_char m b c =
     (if bf_capacity b \<le> bf_size b then (-1, m, b)
      else (1, m[bf_data b + bf_size b := c], b\<lparr>bf_size := bf_size b + 1\<rparr>))"

text \<open>The terminating NUL is written but not counted.\<close>

definition buf_append_null :: "mem \<Rightarrow> buf_t \<Rightarrow> bool \<times> mem \<times> buf_t" where
  "buf_append_null m b =
     (let (res, m', b') = buf_append_char m b NUL;
          (res', b'') = (if res > 0 then (res - 1, b'\<lparr>bf_size := bf_size b' - 1\<rparr>) else (res, b'))
      in (res' \<ge> 0, m', b''))"

definition asstr :: "mem \<Rightarrow> buf_t \<Rightarrow> nat \<times> mem \<times> buf_t" where
  "asstr m b = (let (ok, m', b') = buf_append_null m b in (if ok then bf_data b' else NULL, m', b'))"

definition buf_end :: "buf_t \<Rightarrow> nat" where
  "buf_end b = bf_data b + bf_size b"

definition buf_remaining :: "buf_t \<Rightarrow> int" where
  "buf_remaining b = c_int (int (bf_capacity b) - int (bf_size b))"

text \<open>
  \<open>buf_appendf\<close> formats at the end of the buffer.  The formatted text is the parameter
  \<open>s\<close>; \<open>vsnprintf\<close> stores as much of it as fits with its terminating NUL and returns the
  length of the whole text.
\<close>

definition vsnprintf :: "mem \<Rightarrow> nat \<Rightarrow> nat \<Rightarrow> string \<Rightarrow> int \<times> mem" where
  "vsnprintf m p n s =
     (int (length s),
      if n = 0 then m
      else let t = take (n - 1) s @ [NUL] in take p m @ t @ drop (p + length t) m)"

definition ENOMEM :: int where "ENOMEM = 12"

definition buf_appendf :: "mem \<Rightarrow> buf_t \<Rightarrow> string \<Rightarrow> int \<times> mem \<times> buf_t" where
  "buf_appendf m b s =
     (let (n, m') = vsnprintf m (buf_end b) (c_size (buf_remaining b)) s
      in if n < 0 then (n, m', b)
         else if n > buf_remaining b then (- ENOMEM, m', b)
         else (n, m', b\<lparr>bf_size := bf_size b + nat n\<rparr>))"

definition buf_reset :: "buf_t \<Rightarrow> buf_t" where
  "buf_reset b = b\<lparr>bf_size := 0\<rparr>"

text \<open>The buffer lies inside the memory and is not overfull.\<close>

definition buf_ok :: "mem \<Rightarrow> buf_t \<Rightarrow> bool" where
  "buf_ok m b \<longleftrightarrow> bf_data b + bf_capacity b \<le> length m \<and> bf_size b \<le> bf_capacity b"

definition buf_str :: "mem \<Rightarrow> buf_t \<Rightarrow> string" where
  "buf_str m b = bytes m (bf_data b) (bf_size b)"

text \<open>Memory outside the buffer's region is untouched.\<close>

definition same_outside :: "buf_t \<Rightarrow> mem \<Rightarrow> mem \<Rightarrow> bool" where
  "same_outside b m m' \<longleftrightarrow> writes_only m m' (bf_data b) (bf_data b + bf_capacity b)"

section \<open>Bit sets\<close>

record bitset_t =
  bs_size :: nat
  bs_bits :: "u8 list"

definition new_bitset :: "nat \<Rightarrow> bitset_t" where
  "new_bitset s = \<lparr>bs_size = s, bs_bits = replicate ((s + 7) div 8) 0\<rparr>"

definition bs_set :: "bitset_t \<Rightarrow> nat \<Rightarrow> bitset_t" where
  "bs_set bs pos =
     (if pos < bs_size bs
      then bs\<lparr>bs_bits := (bs_bits bs)[pos div 8 := (bs_bits bs ! (pos div 8)) OR push_bit (pos mod 8) 1]\<rparr>
      else bs)"

definition bs_reset :: "bitset_t \<Rightarrow> nat \<Rightarrow> bitset_t" where
  "bs_reset bs pos =
     (if pos < bs_size bs
      then bs\<lparr>bs_bits := (bs_bits bs)[pos div 8 := (bs_bits bs ! (pos div 8)) AND NOT (push_bit (pos mod 8) 1)]\<rparr>
      else bs)"

definition bs_get :: "bitset_t \<Rightarrow> nat \<Rightarrow> bool" where
  "bs_get bs pos =
     (if pos < bs_size bs then (bs_bits bs ! (pos div 8)) AND push_bit (pos mod 8) 1 \<noteq> 0 else False)"

definition bs_set_all :: "bitset_t \<Rightarrow> bitset_t" where
  "bs_set_all bs = bs\<lparr>bs_bits := replicate ((bs_size bs + 7) div 8) 255\<rparr>"

definition bs_reset_all :: "bitset_t \<Rightarrow> bitset_t" where
  "bs_reset_all bs = bs\<lparr>bs_bits := replicate ((bs_size bs + 7) div 8) 0\<rparr>"

text \<open>The C library's \<open>ffs\<close> on a byte: the least set bit, counted from one; 0 if there is none.\<close>

definition ffs :: "u8 \<Rightarrow> nat" where
  "ffs w = (case List.find (bit w) [0..<8] of None \<Rightarrow> 0 | Some i \<Rightarrow> Suc i)"

fun bs_ffs_from :: "nat \<Rightarrow> u8 list \<Rightarrow> nat \<Rightarrow> int" where
  "bs_ffs_from sz [] i = -1"
| "bs_ffs_from sz (w # ws) i =
     (if ffs w > 0
      then let res = ffs w + i * 8 - 1 in if res < sz then int res else -1
      else bs_ffs_from sz ws (Suc i))"

definition bs_ffs :: "bitset_t \<Rightarrow> int" where
  "bs_ffs bs = bs_ffs_from (bs_size bs) (take ((bs_size bs + 7) div 8) (bs_bits bs)) 0"

definition bs_ok :: "bitset_t \<Rightarrow> bool" where
  "bs_ok bs \<longleftrightarrow> length (bs_bits bs) = (bs_size bs + 7) div 8"

section \<open>Facts on slices\<close>

lemma lstrip_count_bounds: "i \<le> sl_size sl \<Longrightarrow> i \<le> lstrip_count m sl c i k \<and> lstrip_count m sl c i k \<le> sl_size sl"
proof (induction k arbitrary: i)
  case (Suc k)
  show ?case using Suc.prems Suc.IH [of "Suc i"] by auto
qed simp

lemma lstrip_count_stop:
  "sl_size sl \<le> i + k \<Longrightarrow> lstrip_count m sl c i k < sl_size sl \<Longrightarrow>
   m ! (sl_data sl + lstrip_count m sl c i k) \<noteq> c"
proof (induction k arbitrary: i)
  case (Suc k)
  show ?case using Suc.prems Suc.IH [of "Suc i"] by (auto split: if_splits)
qed simp

lemma lstrip_count_skipped:
  "i \<le> j \<Longrightarrow> j < lstrip_count m sl c i k \<Longrightarrow> m ! (sl_data sl + j) = c"
proof (induction k arbitrary: i)
  case (Suc k)
  show ?case using Suc.prems Suc.IH [of "Suc i"] by (cases "j = i") (auto split: if_splits)
qed simp

lemma rstrip_size_le: "rstrip_size m d c n \<le> n"
  by (induction n) auto

lemma rstrip_size_stop: "0 < rstrip_size m d c n \<Longrightarrow> m ! (d + (rstrip_size m d c n - 1)) \<noteq> c"
  by (induction n) auto

lemma rstrip_size_skipped: "rstrip_size m d c n \<le> j \<Longrightarrow> j < n \<Longrightarrow> m ! (d + j) = c"
  by (induction n) (auto simp: less_Suc_eq split: if_splits)

lemma rindex_from_hit:
  "rindex_from m d c n = int i \<Longrightarrow> i < n \<and> m ! (d + i) = c \<and> (\<forall>j. i < j \<and> j < n \<longrightarrow> m ! (d + j) \<noteq> c)"
  by (induction n) (auto simp: less_Suc_eq split: if_splits)

lemma rindex_from_miss: "rindex_from m d c n < 0 \<Longrightarrow> j < n \<Longrightarrow> m ! (d + j) \<noteq> c"
  by (induction n) (auto simp: less_Suc_eq split: if_splits)

lemma rindex_from_cases: "rindex_from m d c n = -1 \<or> (\<exists>i < n. rindex_from m d c n = int i)"
  by (induction n) (auto intro: less_SucI)

section \<open>Facts on buffers\<close>

lemma same_outside_refl [simp]: "same_outside b m m"
  by (simp add: same_outside_def)

lemma same_outside_trans:
  "same_outside b m m' \<Longrightarrow> same_outside b' m' m'' \<Longrightarrow> bf_data b' = bf_data b \<Longrightarrow>
   bf_capacity b' = bf_capacity b \<Longrightarrow> same_outside b m m''"
  by (auto simp: same_outside_def intro: writes_only_trans)

lemma same_outside_length: "same_outside b m m' \<Longrightarrow> length m' = length m"
  by (simp add: same_outside_def writes_only_length)

lemma slice_str_writes_only:
  "slice_ok m s \<Longrightarrow> writes_only m m' lo hi \<Longrightarrow> sl_data s + sl_size s \<le> lo \<or> hi \<le> sl_data s \<Longrightarrow>
   slice_str m' s = slice_str m s"
  by (simp add: slice_str_def slice_ok_def bytes_writes_only)

lemma slice_ok_writes_only: "writes_only m m' lo hi \<Longrightarrow> slice_ok m' s = slice_ok m s"
  by (simp add: slice_ok_def writes_only_length)

text \<open>
  One contract serves both append operations: on success the text grows by what is appended, on
  failure nothing changes, and no byte outside the region changes in either case.
\<close>

definition appends :: "mem \<Rightarrow> buf_t \<Rightarrow> string \<Rightarrow> int \<Rightarrow> mem \<Rightarrow> buf_t \<Rightarrow> bool" where
  "appends m b t r m' b' \<longleftrightarrow>
     bf_data b' = bf_data b \<and> bf_capacity b' = bf_capacity b \<and>
     writes_only m m' (buf_end b) (buf_end b + length t) \<and>
     (if bf_size b + length t \<le> bf_capacity b
      then r = c_int (int (length t)) \<and> buf_str m' b' = buf_str m b @ t \<and> bf_size b' = bf_size b + length t
      else r = -1 \<and> m' = m \<and> b' = b)"

lemma appends_ok: "appends m b t r m' b' \<Longrightarrow> buf_ok m b \<Longrightarrow> buf_ok m' b'"
  by (auto simp: appends_def buf_ok_def writes_only_def split: if_splits)

lemma appends_outside: "appends m b t r m' b' \<Longrightarrow> same_outside b m m'"
  by (auto simp: appends_def same_outside_def buf_end_def split: if_splits intro: writes_only_mono)

lemma appends_frame: "appends m b t r m' b' \<Longrightarrow> bf_data b' = bf_data b \<and> bf_capacity b' = bf_capacity b"
  by (simp add: appends_def)

lemma buf_append_slice_appends:
  assumes ok: "buf_ok m b" and sl: "slice_ok m sl" and r: "buf_append_slice m b sl = (r, m', b')"
  shows "appends m b (slice_str m sl) r m' b'"
proof (cases "bf_size b + sl_size sl \<le> bf_capacity b")
  case fits: True
  have len: "length (slice_str m sl) = sl_size sl"
    using sl by (simp add: slice_str_def slice_ok_def length_bytes)
  let ?p = "bf_data b + bf_size b"
  have p: "?p + sl_size sl \<le> length m" using ok fits by (simp add: buf_ok_def)
  have m': "m' = (if ?p \<noteq> sl_data sl then memmove m ?p (sl_data sl) (sl_size sl) else m)"
    and b': "b' = b\<lparr>bf_size := bf_size b + sl_size sl\<rparr>" and r': "r = c_int (int (sl_size sl))"
    using r fits by (auto simp: buf_append_slice_def Let_def split: if_splits)
  have lm: "length m' = length m" using m' by simp
  have "bytes m' ?p (sl_size sl) = slice_str m sl"
    using m' p sl by (auto simp: slice_str_def slice_ok_def bytes_memmove)
  moreover have "bytes m' (bf_data b) (bf_size b) = buf_str m b"
    using m' p by (auto simp: buf_str_def bytes_memmove_before)
  moreover have "bytes m' (bf_data b) (bf_size b + sl_size sl) =
      bytes m' (bf_data b) (bf_size b) @ bytes m' ?p (sl_size sl)"
    using p lm by (intro bytes_append) simp
  moreover have "writes_only m m' (buf_end b) (buf_end b + sl_size sl)"
    using m' by (auto simp: writes_only_memmove buf_end_def)
  ultimately show ?thesis
    using fits by (simp add: appends_def b' r' len buf_str_def)
next
  case False
  moreover have "length (slice_str m sl) = sl_size sl"
    using sl by (simp add: slice_str_def slice_ok_def length_bytes)
  ultimately show ?thesis using r by (simp add: appends_def buf_append_slice_def)
qed

lemma buf_append_char_appends:
  assumes ok: "buf_ok m b" and r: "buf_append_char m b c = (r, m', b')"
  shows "appends m b [c] r m' b'"
proof (cases "bf_capacity b \<le> bf_size b")
  case True
  then show ?thesis using r by (simp add: appends_def buf_append_char_def)
next
  case False
  then have "bf_data b + bf_size b < length m" using ok by (simp add: buf_ok_def)
  then show ?thesis using False r
    by (auto simp: appends_def buf_append_char_def buf_str_def buf_end_def bytes_Suc
        bytes_update_out c_int_id writes_only_update)
qed

lemma buf_append_null_spec:
  assumes "buf_ok m b" and "buf_append_null m b = (ok, m', b')"
  shows "b' = b" "ok \<longleftrightarrow> bf_size b < bf_capacity b" "same_outside b m m'"
    "m' = (if ok then m[bf_data b + bf_size b := NUL] else m)"
  using assms by (auto simp: buf_append_null_def buf_append_char_def same_outside_def buf_ok_def
      split: if_splits intro: writes_only_mono [OF writes_only_update])

lemma asstr_cstring:
  assumes ok: "buf_ok m b" and room: "bf_size b < bf_capacity b" and r: "asstr m b = (p, m', b')"
    and nn: "NUL \<notin> set (buf_str m b)"
  shows "p = bf_data b" "b' = b" "cstring_at m' p (buf_str m b)" "same_outside b m m'"
proof -
  obtain k m1 b1 where a: "buf_append_null m b = (k, m1, b1)" by (cases "buf_append_null m b")
  note spec = buf_append_null_spec [OF ok a]
  have eq: "p = bf_data b" "m' = m1" "b' = b" using r a spec room by (auto simp: asstr_def)
  show "p = bf_data b" "b' = b" "same_outside b m m'" using eq spec by auto
  have lt: "bf_data b + bf_size b < length m" using ok room by (simp add: buf_ok_def)
  have len: "length (buf_str m b) = bf_size b" using lt by (simp add: buf_str_def length_bytes)
  have m': "m' = m[bf_data b + bf_size b := NUL]" using eq(2) spec(2,4) room by simp
  have "bytes m' (bf_data b) (Suc (bf_size b)) = buf_str m b @ [NUL]"
    using lt by (simp add: m' bytes_Suc bytes_update_out buf_str_def)
  then show "cstring_at m' p (buf_str m b)" using nn lt by (simp add: cstring_at_def eq(1) m' len)
qed

section \<open>Facts on bit sets\<close>

lemma bs_get_bit: "bs_get bs i \<longleftrightarrow> i < bs_size bs \<and> bit (bs_bits bs ! (i div 8)) (i mod 8)"
  by (simp add: bs_get_def bit_iff_and_push_bit_not_eq_0)

lemma bs_get_cap: "bs_get bs i \<Longrightarrow> i < bs_size bs"
  by (simp add: bs_get_bit)

lemma bs_byte_index: "bs_ok bs \<Longrightarrow> i < bs_size bs \<Longrightarrow> i div 8 < length (bs_bits bs)"
  by (simp add: bs_ok_def)

lemma bs_set_ok [simp]: "bs_ok bs \<Longrightarrow> bs_ok (bs_set bs i)"
  and bs_reset_ok [simp]: "bs_ok bs \<Longrightarrow> bs_ok (bs_reset bs i)"
  and bs_set_size [simp]: "bs_size (bs_set bs i) = bs_size bs"
  and bs_reset_size [simp]: "bs_size (bs_reset bs i) = bs_size bs"
  by (simp_all add: bs_ok_def bs_set_def bs_reset_def)

lemma same_byte: "(j :: nat) div 8 = i div 8 \<Longrightarrow> j mod 8 = i mod 8 \<longleftrightarrow> j = i"
  by (metis div_mult_mod_eq)

lemma bit_push_1: "k < 8 \<Longrightarrow> bit (push_bit n (1 :: u8)) k \<longleftrightarrow> k = n"
  by (auto simp: bit_exp_iff)

lemma bs_get_set:
  assumes "bs_ok bs" "i < bs_size bs"
  shows "bs_get (bs_set bs i) j \<longleftrightarrow> j = i \<or> bs_get bs j"
proof (cases "j div 8 = i div 8")
  case True
  note e = same_byte [OF True]
  have "bs_bits (bs_set bs i) ! (j div 8) = bs_bits bs ! (j div 8) OR push_bit (i mod 8) 1"
    using bs_byte_index [OF assms] assms(2) by (simp only: True) (simp add: bs_set_def)
  then have "bs_get (bs_set bs i) j \<longleftrightarrow> j < bs_size bs \<and> (bit (bs_bits bs ! (j div 8)) (j mod 8) \<or> j = i)"
    by (simp only: bs_get_bit bit_or_iff bit_push_1 mod_less_divisor e) simp
  then show ?thesis using assms(2) by (auto simp only: bs_get_bit)
next
  case False
  then have "bs_bits (bs_set bs i) ! (j div 8) = bs_bits bs ! (j div 8)" "j \<noteq> i"
    by (auto simp: bs_set_def)
  then show ?thesis by (simp only: bs_get_bit bs_set_size) simp
qed

lemma bs_get_reset:
  assumes "bs_ok bs" "i < bs_size bs"
  shows "bs_get (bs_reset bs i) j \<longleftrightarrow> j \<noteq> i \<and> bs_get bs j"
proof (cases "j div 8 = i div 8")
  case True
  note e = same_byte [OF True]
  have "bs_bits (bs_reset bs i) ! (j div 8) = bs_bits bs ! (j div 8) AND NOT (push_bit (i mod 8) 1)"
    using bs_byte_index [OF assms] assms(2) by (simp only: True) (simp add: bs_reset_def)
  then have "bs_get (bs_reset bs i) j \<longleftrightarrow> j < bs_size bs \<and> bit (bs_bits bs ! (j div 8)) (j mod 8) \<and> j \<noteq> i"
    by (simp only: bs_get_bit bit_and_iff bit_not_iff bit_push_1 mod_less_divisor e) auto
  then show ?thesis by (auto simp only: bs_get_bit)
next
  case False
  then have "bs_bits (bs_reset bs i) ! (j div 8) = bs_bits bs ! (j div 8)" "j \<noteq> i"
    by (auto simp: bs_reset_def)
  then show ?thesis by (simp only: bs_get_bit bs_reset_size) simp
qed

lemma bs_get_set_all: "bs_get (bs_set_all bs) i \<longleftrightarrow> i < bs_size bs"
proof -
  have "(255 :: u8) = mask 8" by (simp add: mask_eq_exp_minus_1)
  then have "bit (255 :: u8) k" if "k < 8" for k
    using that by (simp only: bit_mask_iff) simp
  then show ?thesis by (auto simp: bs_get_bit bs_set_all_def)
qed

lemma bs_set_all_ok [simp]: "bs_ok (bs_set_all bs)" "bs_size (bs_set_all bs) = bs_size bs"
  by (simp_all add: bs_ok_def bs_set_all_def)

lemma ffs_zero: "ffs w = 0 \<longleftrightarrow> (\<forall>i < 8. \<not> bit w i)"
  by (auto simp: ffs_def find_None_iff find_Some_iff split: option.splits)

lemma ffs_least: "ffs w = Suc i \<Longrightarrow> i < 8 \<and> bit w i \<and> (\<forall>j < i. \<not> bit w j)"
  by (auto simp: ffs_def find_Some_iff split: option.splits)

lemma next_byte: "Suc i * 8 \<le> k \<Longrightarrow> k div 8 - i = Suc (k div 8 - Suc i)"
  using div_le_mono [of "Suc i * 8" k 8] by simp

lemma later_byte: "i * 8 \<le> j \<Longrightarrow> j div 8 \<noteq> i \<Longrightarrow> Suc i * 8 \<le> (j :: nat)"
proof -
  assume a: "i * 8 \<le> j" "j div 8 \<noteq> i"
  then have "Suc i \<le> j div 8" using div_le_mono [of "i * 8" j 8] by simp
  then have "Suc i * 8 \<le> j div 8 * 8" by (rule mult_le_mono1)
  then show ?thesis using div_mult_mod_eq [of j 8] by linarith
qed

lemma in_byte: "i * 8 \<le> j \<Longrightarrow> j < i * 8 + b \<Longrightarrow> b \<le> 8 \<Longrightarrow> j div 8 = i \<and> j mod 8 < (b :: nat)"
proof -
  assume a: "i * 8 \<le> j" "j < i * 8 + b" "b \<le> 8"
  then obtain r where "j = r + i * 8" "r < b" by (metis add.commute le_Suc_ex nat_add_left_cancel_less)
  then show ?thesis using a(3) by simp
qed

lemma bs_ffs_from_hit:
  "bs_ffs_from sz ws i = int k \<Longrightarrow>
   k < sz \<and> i * 8 \<le> k \<and> k div 8 - i < length ws \<and> bit (ws ! (k div 8 - i)) (k mod 8) \<and>
   (\<forall>j. i * 8 \<le> j \<and> j < k \<longrightarrow> \<not> bit (ws ! (j div 8 - i)) (j mod 8))"
proof (induction ws arbitrary: i)
  case (Cons w ws)
  show ?case
  proof (cases "ffs w")
    case 0
    then have IH: "k < sz" "Suc i * 8 \<le> k" "k div 8 - Suc i < length ws" "bit (ws ! (k div 8 - Suc i)) (k mod 8)"
      and none: "\<And>j. Suc i * 8 \<le> j \<Longrightarrow> j < k \<Longrightarrow> \<not> bit (ws ! (j div 8 - Suc i)) (j mod 8)"
      using Cons.IH [of "Suc i"] Cons.prems by auto
    have k: "k div 8 - i = Suc (k div 8 - Suc i)" using IH(2) by (rule next_byte)
    have "\<not> bit ((w # ws) ! (j div 8 - i)) (j mod 8)" if "i * 8 \<le> j" "j < k" for j
    proof (cases "j div 8 = i")
      case True
      then show ?thesis using 0 by (simp add: ffs_zero)
    next
      case False
      then have "Suc i * 8 \<le> j" using that(1) by (intro later_byte)
      moreover from this have "j div 8 - i = Suc (j div 8 - Suc i)" by (rule next_byte)
      ultimately show ?thesis using none that(2) by simp
    qed
    then show ?thesis using IH k by simp
  next
    case (Suc b)
    then have b: "b < 8" "bit w b" "\<forall>j < b. \<not> bit w j" using ffs_least [OF Suc] by auto
    have k: "k = i * 8 + b" "k < sz" using Cons.prems Suc by (auto simp: Let_def split: if_splits)
    have "j div 8 = i \<and> j mod 8 < b" if "i * 8 \<le> j" "j < k" for j
      using in_byte [of i j b] that k(1) b(1) by simp
    then show ?thesis using k b by auto
  qed
qed simp

lemma bs_ffs_from_miss:
  "bs_ffs_from sz ws i = -1 \<Longrightarrow> i * 8 \<le> j \<Longrightarrow> j < sz \<Longrightarrow> j div 8 - i < length ws \<Longrightarrow>
   \<not> bit (ws ! (j div 8 - i)) (j mod 8)"
proof (induction ws arbitrary: i)
  case (Cons w ws)
  show ?case
  proof (cases "ffs w")
    case 0
    show ?thesis
    proof (cases "j div 8 = i")
      case True
      then show ?thesis using 0 by (simp add: ffs_zero)
    next
      case False
      then have "Suc i * 8 \<le> j" using Cons.prems(2) by (intro later_byte)
      moreover from this have "j div 8 - i = Suc (j div 8 - Suc i)" by (rule next_byte)
      ultimately show ?thesis using Cons.IH [of "Suc i"] Cons.prems 0 by simp
    qed
  next
    case (Suc b)
    then have b: "b < 8" "\<forall>j < b. \<not> bit w j" using ffs_least [OF Suc] by auto
    have "sz \<le> i * 8 + b" using Cons.prems(1) Suc by (auto simp: Let_def split: if_splits)
    then have "j div 8 = i" "j mod 8 < b" using in_byte [of i j b] Cons.prems(2,3) b(1) by auto
    then show ?thesis using b(2) by simp
  qed
qed simp

lemma bs_ffs_from_range: "bs_ffs_from sz ws i = -1 \<or> (\<exists>k. bs_ffs_from sz ws i = int k)"
  by (induction ws arbitrary: i) (auto simp: Let_def simp del: of_nat_diff)

text \<open>
  The contract of a set of small numbers with a least-element query, as the session slot table
  uses it.
\<close>

locale bit_set =
  fixes put :: "'b \<Rightarrow> nat \<Rightarrow> 'b" and del :: "'b \<Rightarrow> nat \<Rightarrow> 'b" and has :: "'b \<Rightarrow> nat \<Rightarrow> bool"
    and least :: "'b \<Rightarrow> int" and cap :: "'b \<Rightarrow> nat" and ok :: "'b \<Rightarrow> bool"
  assumes ok_put: "ok b \<Longrightarrow> ok (put b i)" and ok_del: "ok b \<Longrightarrow> ok (del b i)"
    and cap_put: "cap (put b i) = cap b" and cap_del: "cap (del b i) = cap b"
    and has_put: "ok b \<Longrightarrow> i < cap b \<Longrightarrow> has (put b i) j \<longleftrightarrow> j = i \<or> has b j"
    and has_del: "ok b \<Longrightarrow> i < cap b \<Longrightarrow> has (del b i) j \<longleftrightarrow> j \<noteq> i \<and> has b j"
    and has_cap: "has b i \<Longrightarrow> i < cap b"
    and least_hit: "ok b \<Longrightarrow> least b = int i \<Longrightarrow> has b i \<and> (\<forall>j < i. \<not> has b j)"
    and least_miss: "ok b \<Longrightarrow> least b = -1 \<Longrightarrow> \<not> has b i"
    and least_range: "least b = -1 \<or> (\<exists>i. least b = int i)"
begin

text \<open>The complement: the members that have been taken out.\<close>

lemma out_del: "ok b \<Longrightarrow> has b i \<Longrightarrow> {j. j < cap (del b i) \<and> \<not> has (del b i) j} = insert i {j. j < cap b \<and> \<not> has b j}"
  using has_cap by (auto simp: cap_del has_del)

lemma out_put: "ok b \<Longrightarrow> i < cap b \<Longrightarrow> {j. j < cap (put b i) \<and> \<not> has (put b i) j} = {j. j < cap b \<and> \<not> has b j} - {i}"
  by (auto simp: cap_put has_put)

lemma least_bound: "ok b \<Longrightarrow> least b = int i \<Longrightarrow> i < cap b"
  using least_hit has_cap by blast

lemma least_exists: "ok b \<Longrightarrow> has b i \<Longrightarrow> \<exists>j \<le> i. least b = int j \<and> has b j"
  using least_range [of b] least_miss [of b i] least_hit [of b] by (metis not_le)

lemma del_put_id: "ok b \<Longrightarrow> has b i \<Longrightarrow> has (put (del b i) i) j = has b j"
  using has_cap [of b i] by (auto simp: has_put has_del ok_del cap_del)

end

interpretation bs: bit_set bs_set bs_reset bs_get bs_ffs bs_size bs_ok
proof unfold_locales
  fix b :: bitset_t and i :: nat
  assume ok: "bs_ok b" and l: "bs_ffs b = int i"
  let ?ws = "take ((bs_size b + 7) div 8) (bs_bits b)"
  have h: "i < bs_size b" "i div 8 < length ?ws" "bit (?ws ! (i div 8)) (i mod 8)"
    "\<And>j. j < i \<Longrightarrow> \<not> bit (?ws ! (j div 8)) (j mod 8)"
    using bs_ffs_from_hit [of "bs_size b" ?ws 0 i] l unfolding bs_ffs_def by auto
  have ws: "?ws = bs_bits b" using ok by (simp add: bs_ok_def)
  show "bs_get b i \<and> (\<forall>j < i. \<not> bs_get b j)" using h unfolding ws by (simp add: bs_get_bit)
next
  fix b :: bitset_t and i :: nat
  assume ok: "bs_ok b" and l: "bs_ffs b = -1"
  have "take ((bs_size b + 7) div 8) (bs_bits b) = bs_bits b" using ok by (simp add: bs_ok_def)
  then show "\<not> bs_get b i"
    using bs_ffs_from_miss [of "bs_size b" "bs_bits b" 0 i] l ok
    by (auto simp: bs_ffs_def bs_get_bit bs_byte_index)
next
  fix b :: bitset_t
  show "bs_ffs b = -1 \<or> (\<exists>i. bs_ffs b = int i)" by (simp add: bs_ffs_def bs_ffs_from_range)
qed (auto simp: bs_get_set bs_get_reset dest: bs_get_cap)

end
