(* ===== verification/Path_Spec.thy ===== *)
theory Path_Spec
  imports Prelude
begin

text \<open>
  What a path means, on strings: the reference against which the pointer-level routines of
  \<^verbatim>\<open>util/path_utils.cpp\<close> are proved.  A path is split at its slashes; empty and \<open>.\<close> components
  are dropped; \<open>..\<close> removes the component before it, is ignored at the root of an absolute path
  and is kept at the front of a relative one.  Absolute paths keep their slash in the first
  component, as the tokeniser of the source does.
\<close>

fun split_slash :: "string \<Rightarrow> string list" where
  "split_slash [] = [[]]"
| "split_slash (c # cs) =
     (if c = SLASH then [] # split_slash cs
      else (case split_slash cs of w # ws \<Rightarrow> (c # w) # ws | [] \<Rightarrow> [[c]]))"

definition push_str :: "bool \<Rightarrow> string list \<Rightarrow> string \<Rightarrow> string list" where
  "push_str is_abs comps w =
     (if w = ''..'' then
        (if comps = [] then (if is_abs then comps else comps @ [w])
         else if last comps \<noteq> ''..'' then butlast comps else comps @ [w])
      else if w \<noteq> [] \<and> w \<noteq> ''.'' then comps @ [w] else comps)"

definition is_abs :: "string \<Rightarrow> bool" where
  "is_abs p \<longleftrightarrow> p \<noteq> [] \<and> hd p = SLASH"

definition names :: "string \<Rightarrow> string list" where
  "names p = foldl (push_str (is_abs p)) [] (split_slash p)"

fun root_comps :: "string list \<Rightarrow> string list" where
  "root_comps [] = [[SLASH]]"
| "root_comps (w # ws) = (SLASH # w) # ws"

definition path_comps :: "string \<Rightarrow> string list" where
  "path_comps p = (if is_abs p then root_comps (names p) else names p)"

fun join_slash :: "string list \<Rightarrow> string" where
  "join_slash [] = []"
| "join_slash [w] = w"
| "join_slash (w # ws) = w @ SLASH # join_slash ws"

definition norm_path :: "string \<Rightarrow> string" where
  "norm_path p = (if path_comps p = [] then ''.'' else join_slash (path_comps p))"

section \<open>Splitting and joining\<close>

lemma split_slash_nonempty [simp]: "split_slash p \<noteq> []"
  by (induction p) (auto split: list.splits)

lemma split_slash_no_slash: "SLASH \<notin> set p \<Longrightarrow> split_slash p = [p]"
  by (induction p) auto

lemma split_slash_append: "split_slash (p @ SLASH # q) = split_slash p @ split_slash q"
proof (induction p)
  case (Cons c p)
  show ?case
  proof (cases "c = SLASH")
    case False
    obtain w ws where "split_slash p = w # ws" by (cases "split_slash p") auto
    with Cons False show ?thesis by simp
  qed (use Cons in simp)
qed simp

lemma split_slash_words: "w \<in> set (split_slash p) \<Longrightarrow> SLASH \<notin> set w"
proof (induction p arbitrary: w)
  case (Cons c p)
  obtain v vs where v: "split_slash p = v # vs" by (cases "split_slash p") auto
  show ?case using Cons.prems Cons.IH v by (auto split: if_splits)
qed simp

lemma split_slash_total: "length (join_slash (split_slash p)) = length p"
proof (induction p)
  case (Cons c p)
  obtain v vs where v: "split_slash p = v # vs" by (cases "split_slash p") auto
  show ?case using Cons v by (cases vs) auto
qed simp

lemma join_slash_Cons: "ws \<noteq> [] \<Longrightarrow> join_slash (w # ws) = w @ SLASH # join_slash ws"
  by (cases ws) auto

lemma join_slash_append: "us \<noteq> [] \<Longrightarrow> vs \<noteq> [] \<Longrightarrow> join_slash (us @ vs) = join_slash us @ SLASH # join_slash vs"
  by (induction us rule: join_slash.induct) (auto simp: join_slash_Cons)

lemma length_join_slash: "ws \<noteq> [] \<Longrightarrow> length (join_slash ws) = sum_list (map length ws) + length ws - 1"
  by (induction ws rule: join_slash.induct) auto

lemma split_join:
  "ws \<noteq> [] \<Longrightarrow> \<forall>w \<in> set ws. SLASH \<notin> set w \<Longrightarrow> split_slash (join_slash ws) = ws"
  by (induction ws rule: join_slash.induct) (auto simp: split_slash_no_slash split_slash_append)

section \<open>The component stack\<close>

definition normal :: "string \<Rightarrow> bool" where
  "normal w \<longleftrightarrow> w \<noteq> [] \<and> w \<noteq> ''.'' \<and> w \<noteq> ''..'' \<and> SLASH \<notin> set w"

text \<open>
  The shape of a component stack: \<open>..\<close> only at the front of a relative path, everything else a
  proper name.
\<close>

definition canonical :: "bool \<Rightarrow> string list \<Rightarrow> bool" where
  "canonical a ws \<longleftrightarrow> (\<exists>n us. ws = replicate n ''..'' @ us \<and> (a \<longrightarrow> n = 0) \<and> (\<forall>u \<in> set us. normal u))"

lemma push_str_skip [simp]: "push_str a ws [] = ws" "push_str a ws ''.'' = ws"
  by (simp_all add: push_str_def)

lemma push_str_normal: "normal w \<Longrightarrow> push_str a ws w = ws @ [w]"
  by (simp add: push_str_def normal_def)

lemma foldl_push_normal: "\<forall>u \<in> set us. normal u \<Longrightarrow> foldl (push_str a) ws us = ws @ us"
  by (induction us arbitrary: ws) (auto simp: push_str_normal)

lemma foldl_push_dotdots: "foldl (push_str False) (replicate k ''..'') (replicate n ''..'') = replicate (k + n) ''..''"
proof (induction n arbitrary: k)
  case (Suc n)
  have "push_str False (replicate k ''..'') ''..'' = replicate (Suc k) ''..''"
    by (cases k) (auto simp: push_str_def replicate_append_same)
  then show ?case using Suc [of "Suc k"] by simp
qed simp

lemma canonical_push:
  assumes c: "canonical a ws" and w: "SLASH \<notin> set w"
  shows "canonical a (push_str a ws w)"
proof -
  obtain n us where ws: "ws = replicate n ''..'' @ us" and a: "a \<longrightarrow> n = 0" and us: "\<forall>u \<in> set us. normal u"
    using c by (auto simp: canonical_def)
  consider "w = ''..'' \<and> us = []" | "w = ''..'' \<and> us \<noteq> []" | "w = [] \<or> w = ''.''" | "normal w"
    using w by (auto simp: normal_def)
  then show ?thesis
  proof cases
    case 1
    then have "push_str a ws w = (if a then [] else replicate (Suc n) ''..'')"
      using ws a by (cases n) (auto simp: push_str_def replicate_append_same)
    then show ?thesis unfolding canonical_def by (intro exI [of _ "if a then 0 else Suc n"] exI [of _ "[]"]) auto
  next
    case 2
    then have "last us \<noteq> ''..''" using us by (auto simp: normal_def)
    then have "push_str a ws w = replicate n ''..'' @ butlast us"
      using 2 ws by (auto simp: push_str_def butlast_append)
    then show ?thesis using a us unfolding canonical_def
      by (intro exI [of _ n] exI [of _ "butlast us"]) (auto dest: in_set_butlastD)
  next
    case 3
    then show ?thesis using c by auto
  next
    case 4
    then show ?thesis using ws a us unfolding canonical_def
      by (intro exI [of _ n] exI [of _ "us @ [w]"]) (auto simp: push_str_normal)
  qed
qed

lemma canonical_foldl:
  "canonical a ws \<Longrightarrow> \<forall>v \<in> set vs. SLASH \<notin> set v \<Longrightarrow> canonical a (foldl (push_str a) ws vs)"
  by (induction vs arbitrary: ws) (auto simp: canonical_push)

lemma canonical_Nil [simp]: "canonical a []"
  by (auto simp: canonical_def)

lemma canonical_names: "canonical (is_abs p) (names p)"
  unfolding names_def using split_slash_words by (intro canonical_foldl) auto

lemma foldl_push_canonical: "canonical a ws \<Longrightarrow> foldl (push_str a) [] ws = ws"
proof -
  assume "canonical a ws"
  then obtain n us where ws: "ws = replicate n ''..'' @ us" and a: "a \<longrightarrow> n = 0" and us: "\<forall>u \<in> set us. normal u"
    by (auto simp: canonical_def)
  have "foldl (push_str a) [] (replicate n ''..'') = replicate n ''..''"
    using a foldl_push_dotdots [of 0 n] by (cases a) auto
  then show ?thesis by (simp add: ws foldl_push_normal [OF us])
qed

lemma canonical_words:
  assumes "canonical a ws" "w \<in> set ws"
  shows "w \<noteq> [] \<and> w \<noteq> ''.'' \<and> SLASH \<notin> set w"
proof -
  obtain n us where "ws = replicate n ''..'' @ us" and us: "\<forall>u \<in> set us. normal u"
    using assms(1) by (auto simp: canonical_def)
  then have "w = ''..'' \<or> w \<in> set us" using assms(2) by (auto simp: set_replicate_conv_if split: if_splits)
  then have "w = ''..'' \<or> normal w" using us by blast
  then show ?thesis by (rule disjE) (simp_all add: normal_def)
qed

lemma canonical_abs: "canonical True ws \<longleftrightarrow> (\<forall>w \<in> set ws. normal w)"
  by (auto simp: canonical_def)

section \<open>Normalisation is idempotent\<close>

lemma norm_path_abs: "is_abs p \<Longrightarrow> norm_path p = SLASH # join_slash (names p)"
  by (cases "names p" rule: join_slash.cases) (auto simp: norm_path_def path_comps_def)

lemma norm_path_rel: "\<not> is_abs p \<Longrightarrow> norm_path p = (if names p = [] then ''.'' else join_slash (names p))"
  by (simp add: norm_path_def path_comps_def)

lemma names_join:
  assumes "canonical a ws" "ws \<noteq> []"
  shows "foldl (push_str a) [] (split_slash (join_slash ws)) = ws"
  using assms canonical_words foldl_push_canonical by (subst split_join) auto

lemma join_slash_first: "ws \<noteq> [] \<Longrightarrow> hd ws \<noteq> [] \<Longrightarrow> hd (join_slash ws) = hd (hd ws) \<and> join_slash ws \<noteq> []"
  by (induction ws rule: join_slash.induct) auto

lemma is_abs_norm: "is_abs (norm_path p) = is_abs p"
proof (cases "is_abs p")
  case True
  then show ?thesis by (simp add: norm_path_abs is_abs_def [of "_ # _"])
next
  case False
  have "hd (names p) \<noteq> [] \<and> hd (hd (names p)) \<noteq> SLASH" if "names p \<noteq> []"
    using canonical_words [OF canonical_names, of "hd (names p)" p] that
    by (metis hd_in_set)
  then show ?thesis using False join_slash_first [of "names p"]
    by (auto simp: norm_path_rel is_abs_def [of "''.''"] is_abs_def [of "join_slash _"])
qed

lemma names_norm: "names (norm_path p) = names p"
proof (cases "is_abs p")
  case True
  show ?thesis
  proof (cases "names p = []")
    case True
    then show ?thesis using \<open>is_abs p\<close> by (simp add: norm_path_abs names_def [of "[SLASH]"])
  next
    case False
    have "names (norm_path p) = foldl (push_str True) [] (split_slash (join_slash (names p)))"
      using True is_abs_norm [of p] by (simp add: norm_path_abs names_def [of "_ # _"])
    then show ?thesis using names_join [OF canonical_names False] True by simp
  qed
next
  case False
  show ?thesis
  proof (cases "names p = []")
    case True
    then show ?thesis using False by (simp add: norm_path_rel names_def [of "''.''"])
  next
    case ne: False
    have "names (norm_path p) = foldl (push_str False) [] (split_slash (join_slash (names p)))"
      using False ne is_abs_norm [of p] by (simp add: norm_path_rel names_def [of "join_slash _"])
    then show ?thesis using names_join [OF canonical_names ne] False by simp
  qed
qed

lemma path_comps_norm: "path_comps (norm_path p) = path_comps p"
  by (simp add: path_comps_def names_norm is_abs_norm)

lemma norm_path_idem: "norm_path (norm_path p) = norm_path p"
  by (simp add: norm_path_def [of "norm_path p"] path_comps_norm) (simp add: norm_path_def)

section \<open>Length\<close>

lemma push_str_total: "sum_list (map (\<lambda>w. Suc (length w)) (push_str a ws w)) \<le>
    sum_list (map (\<lambda>w. Suc (length w)) ws) + Suc (length w)"
proof -
  have "sum_list (map (\<lambda>w. Suc (length w)) (butlast ws)) \<le> sum_list (map (\<lambda>w. Suc (length w)) ws)"
    by (cases ws rule: rev_cases) auto
  then show ?thesis by (auto simp: push_str_def)
qed

lemma foldl_push_total: "sum_list (map (\<lambda>w. Suc (length w)) (foldl (push_str a) ws vs)) \<le>
    sum_list (map (\<lambda>w. Suc (length w)) ws) + sum_list (map (\<lambda>w. Suc (length w)) vs)"
proof (induction vs arbitrary: ws)
  case (Cons v vs)
  show ?case using Cons [of "push_str a ws v"] push_str_total [of a ws v] by simp
qed simp

lemma join_slash_sum: "ws \<noteq> [] \<Longrightarrow> Suc (length (join_slash ws)) = sum_list (map (\<lambda>w. Suc (length w)) ws)"
  by (induction ws rule: join_slash.induct) auto

text \<open>Normalisation never makes a non-empty path longer.\<close>

lemma norm_path_length: "p \<noteq> [] \<Longrightarrow> length (norm_path p) \<le> length p"
proof -
  assume ne: "p \<noteq> []"
  have s: "sum_list (map (\<lambda>w. Suc (length w)) (split_slash p)) = Suc (length p)"
    using join_slash_sum [of "split_slash p"] split_slash_total [of p] by simp
  show ?thesis
  proof (cases "is_abs p")
    case True
    then obtain q where q: "p = SLASH # q" by (cases p) (auto simp: is_abs_def)
    have "names p = foldl (push_str True) [] (split_slash q)" using True by (simp add: names_def q)
    then have "sum_list (map (\<lambda>w. Suc (length w)) (names p)) \<le> Suc (length q)"
      using foldl_push_total [of True "[]" "split_slash q"] join_slash_sum [of "split_slash q"]
        split_slash_total [of q] by simp
    then show ?thesis using True q join_slash_sum [of "names p"]
      by (cases "names p = []") (auto simp: norm_path_abs)
  next
    case False
    have "sum_list (map (\<lambda>w. Suc (length w)) (names p)) \<le> Suc (length p)"
      using foldl_push_total [of "is_abs p" "[]" "split_slash p"] s by (simp add: names_def)
    then show ?thesis using False ne join_slash_sum [of "names p"]
      by (cases p) (auto simp: norm_path_rel)
  qed
qed

lemma push_str_chars: "\<Union> (set ` set (push_str a ws w)) \<subseteq> \<Union> (set ` set ws) \<union> set w"
  by (auto simp: push_str_def dest: in_set_butlastD split: if_splits)

lemma foldl_push_chars: "\<Union> (set ` set (foldl (push_str a) ws vs)) \<subseteq> \<Union> (set ` set ws) \<union> \<Union> (set ` set vs)"
proof (induction vs arbitrary: ws)
  case (Cons v vs)
  show ?case using Cons [of "push_str a ws v"] push_str_chars [of a ws v] by auto
qed simp

lemma split_slash_chars: "\<Union> (set ` set (split_slash p)) \<subseteq> set p"
proof (induction p)
  case (Cons c p)
  obtain v vs where v: "split_slash p = v # vs" by (cases "split_slash p") auto
  show ?case using Cons v by auto
qed simp

lemma join_slash_chars: "set (join_slash ws) \<subseteq> \<Union> (set ` set ws) \<union> {SLASH}"
  by (induction ws rule: join_slash.induct) auto

lemma norm_path_chars: "set (norm_path p) \<subseteq> set p \<union> {SLASH, CHR ''.''}"
proof -
  have n: "\<Union> (set ` set (names p)) \<subseteq> set p"
    using foldl_push_chars [of "is_abs p" "[]" "split_slash p"] split_slash_chars [of p] by (auto simp: names_def)
  then have "set (join_slash (names p)) \<subseteq> set p \<union> {SLASH}"
    using join_slash_chars [of "names p"] by blast
  then show ?thesis
    by (cases "is_abs p") (auto simp: norm_path_abs norm_path_rel)
qed

text \<open>Empty words do not matter, so neither do repeated or trailing slashes.\<close>

lemma foldl_push_filter: "foldl (push_str a) ws (filter (\<lambda>w. w \<noteq> []) vs) = foldl (push_str a) ws vs"
  by (induction vs arbitrary: ws) auto

lemma names_cong:
  assumes "is_abs p = is_abs q" "filter (\<lambda>w. w \<noteq> []) (split_slash p) = filter (\<lambda>w. w \<noteq> []) (split_slash q)"
  shows "names p = names q"
proof -
  have "names x = foldl (push_str (is_abs x)) [] (filter (\<lambda>w. w \<noteq> []) (split_slash x))" for x
    by (simp only: names_def foldl_push_filter)
  then show ?thesis by (simp only: assms)
qed

lemma split_slashes: "filter (\<lambda>w. w \<noteq> []) (split_slash (replicate k SLASH)) = []"
  by (induction k) auto

lemma split_trailing:
  "filter (\<lambda>w. w \<noteq> []) (split_slash (q @ replicate k SLASH)) = filter (\<lambda>w. w \<noteq> []) (split_slash q)"
  by (cases k) (auto simp: split_slash_append split_slashes)

lemma norm_path_trailing: "q \<noteq> [] \<Longrightarrow> norm_path (q @ replicate k SLASH) = norm_path q"
  using names_cong [OF _ split_trailing [of q k]] by (simp add: norm_path_def path_comps_def is_abs_def)

lemma norm_path_slashes: "norm_path (replicate (Suc k) SLASH) = norm_path [SLASH]"
  using names_cong [of "replicate (Suc k) SLASH" "[SLASH]"] split_slashes [of k]
  by (simp add: norm_path_def path_comps_def is_abs_def)

lemma norm_path_double: "norm_path (SLASH # SLASH # q) = norm_path (SLASH # q)"
  using names_cong [of "SLASH # SLASH # q" "SLASH # q"] by (simp add: norm_path_def path_comps_def is_abs_def)

lemma names_length: "length (names p) \<le> Suc (length p)"
proof -
  have le: "length ws \<le> sum_list (map (\<lambda>w. Suc (length w)) ws)" for ws :: "string list" by (induction ws) auto
  have "length (names p) \<le> sum_list (map (\<lambda>w. Suc (length w)) (split_slash p))"
    using le [of "names p"] foldl_push_total [of "is_abs p" "[]" "split_slash p"] by (simp add: names_def)
  then show ?thesis using join_slash_sum [of "split_slash p"] split_slash_total [of p] by simp
qed

section \<open>Rebasing\<close>

definition rebase_comps :: "string list \<Rightarrow> string list \<Rightarrow> string list" where
  "rebase_comps b p = replicate (length b - common_len b p) ''..'' @ drop (common_len b p) p"

lemma split_join_concat: "ws \<noteq> [] \<Longrightarrow> split_slash (join_slash ws) = concat (map split_slash ws)"
  by (induction ws rule: join_slash.induct) (auto simp: split_slash_append)

lemma is_abs_append [simp]: "is_abs p \<Longrightarrow> is_abs (p @ q)"
  by (cases p) (auto simp: is_abs_def)

lemma names_join_abs: "is_abs p \<Longrightarrow> names (p @ SLASH # q) = foldl (push_str True) (names p) (split_slash q)"
  by (simp add: names_def split_slash_append)

lemma foldl_pop:
  "\<forall>w \<in> set ws. normal w \<Longrightarrow> foldl (push_str True) ws (replicate k ''..'') = take (length ws - k) ws"
proof (induction k arbitrary: ws)
  case (Suc k)
  show ?case
  proof (cases ws rule: rev_cases)
    case (snoc us u)
    then have "push_str True ws ''..'' = us" using Suc.prems by (auto simp: push_str_def normal_def)
    then show ?thesis using Suc.IH [of us] Suc.prems snoc by simp
  qed (use Suc.IH [of "[]"] in \<open>simp add: push_str_def\<close>)
qed simp

lemma concat_split_names: "\<forall>w \<in> set ws. normal w \<Longrightarrow> concat (map split_slash ws) = ws"
  by (induction ws) (auto simp: split_slash_no_slash normal_def)

lemma concat_split_root:
  "\<forall>w \<in> set ws. normal w \<Longrightarrow> foldl (push_str True) vs (concat (map split_slash (root_comps ws))) = vs @ ws"
  by (cases ws) (auto simp: concat_split_names split_slash_no_slash normal_def foldl_push_normal push_str_def)

lemma common_len_root:
  assumes "\<forall>w \<in> set b. normal w" "\<forall>w \<in> set p. normal w"
  shows "common_len (root_comps b) (root_comps p) = (if b = [] \<and> p = [] then 1 else common_len b p)"
  using assms by (cases b; cases p) (auto simp: normal_def)

lemma root_comps_inj:
  "\<forall>w \<in> set b. normal w \<Longrightarrow> \<forall>w \<in> set p. normal w \<Longrightarrow> root_comps b = root_comps p \<longleftrightarrow> b = p"
  by (cases b; cases p) (auto simp: normal_def)

lemma path_comps_nonempty: "w \<in> set (path_comps p) \<Longrightarrow> w \<noteq> []"
  using canonical_words [OF canonical_names [of p]]
  by (cases "names p") (auto simp: path_comps_def split: if_splits)

lemma rebase_comps_nonempty: "w \<in> set (rebase_comps (path_comps b) (path_comps p)) \<Longrightarrow> w \<noteq> []"
  using path_comps_nonempty [of w p] by (auto simp: rebase_comps_def dest: in_set_dropD)

text \<open>Following the rebased path from the base leads to the path.\<close>

lemma rebase_names:
  assumes b: "is_abs b" and p: "is_abs p"
  shows "names (b @ SLASH # join_slash (rebase_comps (path_comps b) (path_comps p))) = names p"
proof -
  have nb: "\<forall>w \<in> set (names b). normal w" and np: "\<forall>w \<in> set (names p). normal w"
    using canonical_names [of b] canonical_names [of p] b p by (auto simp: canonical_abs)
  let ?B = "path_comps b" and ?P = "path_comps p" and ?l = "common_len (path_comps b) (path_comps p)"
  have B: "?B = root_comps (names b)" and P: "?P = root_comps (names p)" using b p by (auto simp: path_comps_def)
  have pops: "foldl (push_str True) (names b) (concat (map split_slash (replicate k ''..''))) =
      take (length (names b) - k) (names b)" for k
    using foldl_pop [OF nb, of k] by (simp add: split_slash_no_slash concat_replicate_trivial)
  have l: "?l = (if names b = [] \<and> names p = [] then 1 else common_len (names b) (names p))"
    using common_len_root [OF nb np] B P by simp
  show ?thesis
  proof (cases "rebase_comps ?B ?P = []")
    case True
    then have "length ?B - ?l = 0" "length ?P \<le> ?l" by (simp_all add: rebase_comps_def)
    then have "?l = length ?B" "?l = length ?P" using common_len_le [of ?B ?P] by linarith+
    then have "?B = ?P" by (rule common_len_full)
    then have "names b = names p" using root_comps_inj [OF nb np] B P by simp
    then show ?thesis using True b by (simp add: names_join_abs)
  next
    case False
    have "names (b @ SLASH # join_slash (rebase_comps ?B ?P)) =
        foldl (push_str True) (take (length (names b) - (length ?B - ?l)) (names b))
          (concat (map split_slash (drop ?l ?P)))"
      using b False pops by (simp add: names_join_abs split_join_concat rebase_comps_def)
    also have "\<dots> = names p"
    proof (cases "?l = 0")
      case True
      then have c: "common_len (names b) (names p) = 0" using l by (auto split: if_splits)
      have "length (names b) - length ?B = 0" using B by (cases "names b") auto
      then show ?thesis using True concat_split_root [OF np, of "[]"] by (simp add: P)
    next
      case l1: False
      then have drop: "drop ?l ?P = drop ?l (names p)" using P by (cases "names p"; cases ?l) auto
      have n: "\<forall>w \<in> set (drop ?l (names p)). normal w" using np by (auto dest: in_set_dropD)
      have "take (length (names b) - (length ?B - ?l)) (names b) = take ?l (names p)"
      proof (cases "names b = []")
        case True
        then show ?thesis using l l1 by (auto split: if_splits)
      next
        case False
        then have "length ?B = length (names b)" using B by (cases "names b") auto
        moreover have "?l = common_len (names b) (names p)" using False l by simp
        ultimately show ?thesis using common_len_le [of "names b" "names p"] common_len_take [of "names b" "names p"]
          by simp
      qed
      then show ?thesis unfolding drop using foldl_push_normal [OF n] concat_split_names [OF n] by simp
    qed
    finally show ?thesis .
  qed
qed

section \<open>Distance\<close>

definition tree_dist :: "'a list \<Rightarrow> 'a list \<Rightarrow> nat" where
  "tree_dist xs ys = (length xs - common_len xs ys) + (length ys - common_len xs ys)"

lemma tree_dist_sym: "tree_dist xs ys = tree_dist ys xs"
  by (simp add: tree_dist_def common_len_sym)

lemma tree_dist_zero: "tree_dist xs ys = 0 \<longleftrightarrow> xs = ys"
proof
  assume "tree_dist xs ys = 0"
  then have "common_len xs ys = length xs" "common_len xs ys = length ys"
    using common_len_le [of xs ys] by (auto simp: tree_dist_def)
  then show "xs = ys" by (rule common_len_full)
qed (simp add: tree_dist_def)

lemma tree_dist_triangle: "tree_dist xs zs \<le> tree_dist xs ys + tree_dist ys zs"
  using common_len_tri [of xs ys zs] common_len_le [of xs ys] common_len_le [of ys zs]
    common_len_le [of xs zs]
  by (auto simp: tree_dist_def)

end
