(* ===== verification/Path_Utils.thy ===== *)
theory Path_Utils
  imports Common_Types Path_Spec
begin

text \<open>
  The path routines of \<^verbatim>\<open>util/path_utils.cpp\<close> and the \<open>Slice\<close> class of
  \<^verbatim>\<open>util/slice.h\<close> they are written with.  Components are slices of the caller's string, so the
  model works on addresses; the refinement lemmas relate every routine to its meaning on
  strings (theory \<open>Path_Spec\<close>), and the normalisation is proved correct also when source and
  destination are the same memory.
\<close>

section \<open>Slices of the C++ side\<close>

definition Slice_rtrim :: "mem \<Rightarrow> slice_t \<Rightarrow> char \<Rightarrow> slice_t" where
  "Slice_rtrim m s c = s\<lparr>sl_size := rstrip_size m (sl_data s) c (sl_size s)\<rparr>"

definition Slice_remove_prefix :: "slice_t \<Rightarrow> nat \<Rightarrow> slice_t" where
  "Slice_remove_prefix s n = \<lparr>sl_size = sl_size s - n, sl_data = sl_data s + n\<rparr>"

definition Slice_ltrim :: "mem \<Rightarrow> slice_t \<Rightarrow> char \<Rightarrow> slice_t" where
  "Slice_ltrim m s c = Slice_remove_prefix s (lstrip_count m s c 0 (sl_size s))"

definition Slice_trim :: "mem \<Rightarrow> slice_t \<Rightarrow> char \<Rightarrow> slice_t" where
  "Slice_trim m s c = Slice_ltrim m (Slice_rtrim m s c) c"

definition Slice_eq :: "mem \<Rightarrow> slice_t \<Rightarrow> slice_t \<Rightarrow> bool" where
  "Slice_eq m x y \<longleftrightarrow> sl_size x = sl_size y \<and> slice_str m x = slice_str m y"

section \<open>Splitting a path into components\<close>

definition TC_PATH_MAX :: nat where "TC_PATH_MAX = 4096"

function scan_slash :: "mem \<Rightarrow> slice_t \<Rightarrow> nat \<Rightarrow> nat" where
  "scan_slash m path e =
     (if e < sl_size path \<and> m ! (sl_data path + e) \<noteq> SLASH then scan_slash m path (Suc e) else e)"
  by pat_completeness auto
termination by (relation "measure (\<lambda>(m, path, e). sl_size path - e)") auto

declare scan_slash.simps [simp del]

text \<open>The body of the loop: what one component does to the vector of components.\<close>

definition push_component :: "mem \<Rightarrow> bool \<Rightarrow> slice_t list \<Rightarrow> slice_t \<Rightarrow> slice_t list" where
  "push_component m is_absolute components cp =
     (let w = slice_str m cp
      in if w = ''..'' then
           (if components = [] then (if \<not> is_absolute then components @ [cp] else components)
            else if slice_str m (last components) \<noteq> ''..'' then butlast components
            else components @ [cp])
         else if w \<noteq> [] \<and> w \<noteq> ''/'' \<and> w \<noteq> ''.'' then components @ [cp]
         else components)"

lemma scan_slash_ge: "e \<le> scan_slash m path e"
proof (induction m path e rule: scan_slash.induct)
  case (1 m path e)
  then show ?case by (subst scan_slash.simps) force
qed

text \<open>
  At the head of the loop \<open>beg\<close> and \<open>end\<close> are equal, so one variable stands for both.  They are an \<open>int\<close> and an
  \<open>unsigned int\<close>; as naturals they agree with the source for paths of fewer than \<open>2 ^ 31\<close> bytes.
\<close>

function components_loop :: "mem \<Rightarrow> slice_t \<Rightarrow> bool \<Rightarrow> nat \<Rightarrow> slice_t list \<Rightarrow> slice_t list" where
  "components_loop m path is_absolute beg components =
     (if beg < sl_size path then
        let e = scan_slash m path beg;
            cp = mkslice (sl_data path + beg) (e - beg)
        in components_loop m path is_absolute (Suc e) (push_component m is_absolute components cp)
      else components)"
  by pat_completeness auto
termination
  by (relation "measure (\<lambda>(m, path, a, beg, comps). sl_size path - beg)")
    (use scan_slash_ge in \<open>auto simp: less_Suc_eq_le intro!: diff_less_mono2 intro: le_less_trans\<close>)

declare components_loop.simps [simp del]

definition tc_get_path_components :: "mem \<Rightarrow> slice_t \<Rightarrow> slice_t list" where
  "tc_get_path_components m path =
     (if sl_size path = 0 then []
      else
        let is_absolute = (m ! sl_data path = SLASH);
            start = sl_data path;
            components = components_loop m (Slice_trim m path SLASH) is_absolute 0 []
        in if is_absolute then
             (case components of
                c # cs \<Rightarrow> mkslice (sl_data c - 1) (sl_size c + 1) # cs
              | [] \<Rightarrow> [mkslice start 1])
           else components)"

text \<open>
  The tokeniser.  The second component of the result is what is stored through the caller's
  pointer: \<open>None\<close> if nothing is stored (no pointer was given, or the call fails).
\<close>

definition tc_path_tokenize_s :: "mem \<Rightarrow> slice_t \<Rightarrow> bool \<Rightarrow> bool \<Rightarrow> int \<times> slice_t list option" where
  "tc_path_tokenize_s m path has_components malloc_ok =
     (let comps = tc_get_path_components m path
      in if \<not> has_components then (c_int (int (length comps)), None)
         else if comps = [] then (0, Some [])
         else if \<not> malloc_ok then (-1, None)
         else (c_int (int (length comps)), Some comps))"

definition tc_path_tokenize :: "mem \<Rightarrow> nat \<Rightarrow> bool \<Rightarrow> bool \<Rightarrow> int \<times> slice_t list option" where
  "tc_path_tokenize m path has_components malloc_ok =
     (if path = NULL \<or> strnlen m path TC_PATH_MAX \<ge> TC_PATH_MAX then (-1, None)
      else tc_path_tokenize_s m (mkslice path (strnlen m path TC_PATH_MAX)) has_components malloc_ok)"

definition is_root_comps :: "mem \<Rightarrow> slice_t list \<Rightarrow> bool" where
  "is_root_comps m comps \<longleftrightarrow> length comps = 1 \<and> slice_str m (comps ! 0) = ''/''"

definition tc_path_depth_s :: "mem \<Rightarrow> slice_t \<Rightarrow> int" where
  "tc_path_depth_s m path =
     (let comps = tc_get_path_components m path
      in if is_root_comps m comps then 0 else c_int (int (length comps)))"

definition tc_path_depth :: "mem \<Rightarrow> nat \<Rightarrow> int" where
  "tc_path_depth m path = tc_path_depth_s m (toslice m path)"

fun match_len :: "mem \<Rightarrow> slice_t list \<Rightarrow> slice_t list \<Rightarrow> nat" where
  "match_len m (x # xs) (y # ys) = (if Slice_eq m x y then Suc (match_len m xs ys) else 0)"
| "match_len m _ _ = 0"

definition tc_path_distance_s :: "mem \<Rightarrow> slice_t \<Rightarrow> slice_t \<Rightarrow> int" where
  "tc_path_distance_s m src dst =
     (if m ! sl_data dst \<noteq> SLASH then c_int (int (length (tc_get_path_components m dst)))
      else
        let src_comps = tc_get_path_components m src;
            dst_comps = tc_get_path_components m dst;
            src_len = c_int (int (length src_comps));
            dst_len = c_int (int (length dst_comps))
        in if is_root_comps m src_comps then (if is_root_comps m dst_comps then 0 else dst_len)
           else if is_root_comps m dst_comps then src_len
           else let l = int (match_len m src_comps dst_comps) in src_len - l + dst_len - l)"

definition tc_path_distance :: "mem \<Rightarrow> nat \<Rightarrow> nat \<Rightarrow> int" where
  "tc_path_distance m src dst = tc_path_distance_s m (toslice m src) (toslice m dst)"

section \<open>Writing paths\<close>

definition tc_path_append_impl :: "mem \<Rightarrow> buf_t \<Rightarrow> slice_t \<Rightarrow> int \<times> mem \<times> buf_t" where
  "tc_path_append_impl m pbuf cp =
     (if sl_size cp = 0 then (0, m, pbuf)
      else if sl_size cp > c_size (buf_remaining pbuf) then (-1, m, pbuf)
      else
        let (m1, b1) = (if bf_size pbuf \<noteq> 0 then snd (buf_append_char m pbuf SLASH) else (m, pbuf));
            (r2, m2, b2) = buf_append_slice m1 b1 cp
        in (0, m2, b2))"

text \<open>The loop of \<open>tc_path_normalize_s\<close>; \<open>first\<close> says that no component has been written yet.\<close>

fun append_components :: "mem \<Rightarrow> buf_t \<Rightarrow> bool \<Rightarrow> slice_t list \<Rightarrow> mem \<times> buf_t" where
  "append_components m b first [] = (m, b)"
| "append_components m b first (c # cs) =
     (let (m1, b1) = (if \<not> first then snd (buf_append_char m b SLASH) else (m, b));
          (r2, m2, b2) = buf_append_slice m1 b1 c
      in append_components m2 b2 False cs)"

definition tc_path_normalize_s :: "mem \<Rightarrow> slice_t \<Rightarrow> buf_t \<Rightarrow> int \<times> mem \<times> buf_t" where
  "tc_path_normalize_s m path pbuf =
     (let components = tc_get_path_components m path
      in if components = [] then
           (case buf_append_char m pbuf CHR ''.'' of (r, m', b') \<Rightarrow> (1, m', b'))
         else
           (case append_components m pbuf True components of
              (m', b') \<Rightarrow> (c_int (int (bf_size b') - int (bf_size pbuf)), m', b')))"

definition tc_path_normalize :: "mem \<Rightarrow> nat \<Rightarrow> nat \<Rightarrow> nat \<Rightarrow> int \<times> mem" where
  "tc_path_normalize m path buf buf_size =
     (if path = NULL \<or> strnlen m path TC_PATH_MAX \<ge> TC_PATH_MAX \<or> buf_size \<le> 1 then (-1, m)
      else
        let (n, m1, b1) = tc_path_normalize_s m (mkslice path (strnlen m path TC_PATH_MAX)) (mkbuf buf buf_size);
            (ok, m2, b2) = buf_append_null m1 b1
        in (n, m2))"

definition tc_path_join_s :: "mem \<Rightarrow> slice_t \<Rightarrow> slice_t \<Rightarrow> buf_t \<Rightarrow> int \<times> mem \<times> buf_t" where
  "tc_path_join_s m path1 path2 pbuf =
     (let (r1, m1, b1) = tc_path_append_impl m pbuf path1;
          (r2, m2, b2) = tc_path_append_impl m1 b1 path2;
          (s, m3, b3) = asstr m2 b2;
          (n, m4) = tc_path_normalize m3 s (bf_data b3) (bf_capacity b3)
      in (n, m4, b3))"

definition tc_path_join :: "mem \<Rightarrow> nat \<Rightarrow> nat \<Rightarrow> nat \<Rightarrow> nat \<Rightarrow> int \<times> mem" where
  "tc_path_join m path1 path2 buf buf_size =
     (let len1 = strnlen m path1 TC_PATH_MAX; len2 = strnlen m path2 TC_PATH_MAX
      in if len1 \<ge> TC_PATH_MAX \<or> len2 \<ge> TC_PATH_MAX then (-1, m)
         else
           let (n, m1, b1) = tc_path_join_s m (mkslice path1 len1) (mkslice path2 len2) (mkbuf buf buf_size);
               (ok, m2, b2) = buf_append_null m1 b1
           in (n, m2))"

definition ENOBUFS :: int where "ENOBUFS = 105"

text \<open>The variadic \<open>_tc_path_joinall_impl\<close>: its paths as a list of string addresses.\<close>

fun joinall_loop :: "mem \<Rightarrow> buf_t \<Rightarrow> nat list \<Rightarrow> int \<times> mem \<times> buf_t" where
  "joinall_loop m b [] = (0, m, b)"
| "joinall_loop m b (p # ps) =
     (case tc_path_append_impl m b (toslice m p) of
        (ret, m', b') \<Rightarrow> if ret < 0 then (ret, m', b') else joinall_loop m' b' ps)"

definition tc_path_joinall_impl :: "mem \<Rightarrow> nat \<Rightarrow> nat \<Rightarrow> nat list \<Rightarrow> int \<times> mem" where
  "tc_path_joinall_impl m buf buf_size paths =
     (case joinall_loop m (mkbuf buf buf_size) paths of
        (ret, m1, b1) \<Rightarrow>
          if ret < 0 then (ret, m1)
          else (case buf_append_null m1 b1 of
                  (ok, m2, b2) \<Rightarrow> if \<not> ok then (- ENOBUFS, m2) else tc_path_normalize m2 buf buf buf_size))"

definition tc_path_append :: "mem \<Rightarrow> buf_t \<Rightarrow> slice_t \<Rightarrow> int \<times> mem \<times> buf_t" where
  "tc_path_append m pbuf cp =
     (let (r1, m1, b1) = tc_path_append_impl m pbuf cp;
          (s, m2, b2) = asstr m1 b1;
          (n, m3) = tc_path_normalize m2 s (bf_data b2) (bf_capacity b2)
      in (n, m3, b2))"

text \<open>
  The string literal \<open>..\<close> of the source lives at the address \<open>dotdot\<close>.  The running size
  is an \<^verbatim>\<open>int\<close>; the accumulated result of the appends is unsigned.
\<close>

fun append_relative :: "mem \<Rightarrow> buf_t \<Rightarrow> bool \<Rightarrow> int \<Rightarrow> slice_t list \<Rightarrow> int \<times> mem \<times> buf_t" where
  "append_relative m b first sz [] = (sz, m, b)"
| "append_relative m b first sz (c # cs) =
     (let (s1, m1, b1) = (if \<not> first then buf_append_char m b SLASH else (0, m, b));
          (s2, m2, b2) = buf_append_slice m1 b1 c
      in append_relative m2 b2 False (sz + s1 + s2) cs)"

definition tc_path_rebase_s :: "nat \<Rightarrow> mem \<Rightarrow> slice_t \<Rightarrow> slice_t \<Rightarrow> buf_t \<Rightarrow> int \<times> mem \<times> buf_t" where
  "tc_path_rebase_s dotdot m base path pbuf =
     (let b_comps = tc_get_path_components m base;
          p_comps = tc_get_path_components m path;
          l = match_len m b_comps p_comps;
          relative_comps = replicate (length b_comps - l) (mkslice dotdot 2) @ drop l p_comps;
          result_size = c_int (int (sum_list (map sl_size relative_comps)) + int (length relative_comps) - 1)
      in if result_size > buf_remaining pbuf then (-1, m, pbuf)
         else
           let (sz, m1, b1) = append_relative m pbuf True 0 relative_comps
           in if sz = 0
              then (case buf_append_char m1 b1 CHR ''.'' of (r, m2, b2) \<Rightarrow> (c_int (sz + r), m2, b2))
              else (c_int sz, m1, b1))"

definition tc_path_rebase :: "nat \<Rightarrow> mem \<Rightarrow> nat \<Rightarrow> nat \<Rightarrow> nat \<Rightarrow> nat \<Rightarrow> int \<times> mem" where
  "tc_path_rebase dotdot m base path buf buf_size =
     (let (n, m1, b1) = tc_path_rebase_s dotdot m (toslice m base) (toslice m path) (mkbuf buf buf_size);
          (ok, m2, b2) = buf_append_null m1 b1
      in (n, m2))"

section \<open>Directory and base name\<close>

text \<open>The two slices are what \<open>fillslice\<close> stores through the pointers \<open>dir\<close> and \<open>base\<close>.\<close>

definition tc_path_dir_base_s :: "mem \<Rightarrow> slice_t \<Rightarrow> bool \<times> slice_t \<times> slice_t" where
  "tc_path_dir_base_s m path0 =
     (if sl_size path0 = 0 then (False, mkslice NULL 0, mkslice NULL 0)
      else
        let path = slice_rstrip m path0 SLASH
        in if sl_size path = 0 \<and> m ! sl_data path = SLASH
           then (True, mkslice (sl_data path) 1, mkslice NULL 0)
           else
             let i = slice_rindex m path SLASH
             in if i < 0 then (False, mkslice NULL 0, mkslice (sl_data path) (sl_size path))
                else (True, mkslice (sl_data path) (if i = 0 then 1 else nat i),
                      mkslice (sl_data path + nat i + 1) (sl_size path - nat i - 1)))"

definition tc_path_dirname_s :: "mem \<Rightarrow> slice_t \<Rightarrow> slice_t" where
  "tc_path_dirname_s m path = (case tc_path_dir_base_s m path of (r, dir, base) \<Rightarrow> dir)"

definition tc_path_basename_s :: "mem \<Rightarrow> slice_t \<Rightarrow> slice_t" where
  "tc_path_basename_s m path = (case tc_path_dir_base_s m path of (r, dir, base) \<Rightarrow> base)"

section \<open>The component loop refines the specification\<close>

lemma scan_slash_spec:
  assumes "e \<le> sl_size path"
  shows "scan_slash m path e \<le> sl_size path"
    "\<And>i. e \<le> i \<Longrightarrow> i < scan_slash m path e \<Longrightarrow> m ! (sl_data path + i) \<noteq> SLASH"
    "scan_slash m path e < sl_size path \<Longrightarrow> m ! (sl_data path + scan_slash m path e) = SLASH"
proof -
  have "scan_slash m path e \<le> sl_size path \<and>
    (\<forall>i. e \<le> i \<and> i < scan_slash m path e \<longrightarrow> m ! (sl_data path + i) \<noteq> SLASH) \<and>
    (scan_slash m path e < sl_size path \<longrightarrow> m ! (sl_data path + scan_slash m path e) = SLASH)"
    using assms
  proof (induction m path e rule: scan_slash.induct)
    case (1 m path e)
    show ?case
    proof (cases "e < sl_size path \<and> m ! (sl_data path + e) \<noteq> SLASH")
      case True
      then have st: "scan_slash m path e = scan_slash m path (Suc e)" by (simp add: scan_slash.simps [of m path e])
      have IH: "scan_slash m path (Suc e) \<le> sl_size path"
        "\<And>i. Suc e \<le> i \<Longrightarrow> i < scan_slash m path (Suc e) \<Longrightarrow> m ! (sl_data path + i) \<noteq> SLASH"
        "scan_slash m path (Suc e) < sl_size path \<Longrightarrow> m ! (sl_data path + scan_slash m path (Suc e)) = SLASH"
        using "1.IH" [OF True] True by auto
      have "m ! (sl_data path + i) \<noteq> SLASH" if "e \<le> i" "i < scan_slash m path (Suc e)" for i
        using IH(2) [of i] True that by (cases "i = e") auto
      then show ?thesis using IH(1,3) unfolding st by blast
    next
      case False
      then have "scan_slash m path e = e" by (subst scan_slash.simps) (rule if_not_P)
      then show ?thesis using False "1.prems" by auto
    qed
  qed
  then show "scan_slash m path e \<le> sl_size path"
    "\<And>i. e \<le> i \<Longrightarrow> i < scan_slash m path e \<Longrightarrow> m ! (sl_data path + i) \<noteq> SLASH"
    "scan_slash m path e < sl_size path \<Longrightarrow> m ! (sl_data path + scan_slash m path e) = SLASH"
    by blast+
qed

lemma slice_str_drop: "slice_ok m path \<Longrightarrow> drop e (slice_str m path) = bytes m (sl_data path + e) (sl_size path - e)"
  by (simp add: slice_str_def bytes_def drop_take add.commute)

text \<open>One round of the loop consumes one word of the split path.\<close>

lemma scan_slash_split:
  assumes ok: "slice_ok m path" and e: "e < sl_size path"
  defines "r \<equiv> scan_slash m path e"
  defines "w \<equiv> slice_str m (mkslice (sl_data path + e) (r - e))"
  shows "SLASH \<notin> set w"
    "split_slash (drop e (slice_str m path)) =
       (if r < sl_size path then w # split_slash (drop (Suc r) (slice_str m path)) else [w])"
proof -
  have r: "e \<le> r" "r \<le> sl_size path"
    "\<And>i. e \<le> i \<Longrightarrow> i < r \<Longrightarrow> m ! (sl_data path + i) \<noteq> SLASH"
    "r < sl_size path \<Longrightarrow> m ! (sl_data path + r) = SLASH"
    using scan_slash_ge scan_slash_spec [OF less_imp_le [OF e]] by (auto simp: r_def)
  have w: "w = bytes m (sl_data path + e) (r - e)" by (simp add: w_def slice_str_def mkslice_def)
  have len: "sl_data path + e + (r - e) \<le> length m" using ok r by (simp add: slice_ok_def)
  show ns: "SLASH \<notin> set w"
  proof
    assume "SLASH \<in> set w"
    then obtain i where i: "i < r - e" "w ! i = SLASH" using len w by (auto simp: in_set_conv_nth length_bytes)
    then have "m ! (sl_data path + (e + i)) = SLASH" using len w by (simp add: nth_bytes add.assoc)
    then show False using r(3) [of "e + i"] i(1) by simp
  qed
  show "split_slash (drop e (slice_str m path)) =
       (if r < sl_size path then w # split_slash (drop (Suc r) (slice_str m path)) else [w])"
  proof (cases "r < sl_size path")
    case True
    have le: "sl_data path + sl_size path \<le> length m" using ok by (simp add: slice_ok_def)
    have "sl_size path - e = (r - e) + (1 + (sl_size path - Suc r))" using r(1) True by simp
    then have "drop e (slice_str m path) =
        w @ bytes m (sl_data path + r) 1 @ bytes m (sl_data path + Suc r) (sl_size path - Suc r)"
      using bytes_append [of "sl_data path + e" "r - e" "1 + (sl_size path - Suc r)" m]
        bytes_append [of "sl_data path + r" 1 "sl_size path - Suc r" m] ok r(1) True le
      by (simp add: slice_str_drop w)
    moreover have "bytes m (sl_data path + r) 1 = [SLASH]"
      using bytes_Suc [of "sl_data path + r" 0 m] r(4) True le by simp
    ultimately have "drop e (slice_str m path) = w @ SLASH # drop (Suc r) (slice_str m path)"
      using ok by (simp add: slice_str_drop)
    then show ?thesis using True ns by (simp add: split_slash_append split_slash_no_slash)
  next
    case False
    then have "r = sl_size path" using r(2) by simp
    then show ?thesis using ok ns w by (simp add: slice_str_drop split_slash_no_slash)
  qed
qed

lemma push_component_str:
  "SLASH \<notin> set (slice_str m c) \<Longrightarrow>
   map (slice_str m) (push_component m a cs c) = push_str a (map (slice_str m) cs) (slice_str m c)"
  by (auto simp: push_component_def push_str_def Let_def last_map map_butlast)

lemma components_loop_str:
  assumes "slice_ok m path"
  shows "map (slice_str m) (components_loop m path a beg cs) =
    foldl (push_str a) (map (slice_str m) cs) (split_slash (drop beg (slice_str m path)))"
  using assms
proof (induction m path a beg cs rule: components_loop.induct)
  case (1 m path a beg cs)
  have len: "length (slice_str m path) = sl_size path"
    using "1.prems" by (simp add: slice_str_def slice_ok_def length_bytes)
  show ?case
  proof (cases "beg < sl_size path")
    case True
    let ?r = "scan_slash m path beg"
    let ?c = "mkslice (sl_data path + beg) (?r - beg)"
    note sp = scan_slash_split [OF "1.prems" True]
    have step: "components_loop m path a beg cs = components_loop m path a (Suc ?r) (push_component m a cs ?c)"
      using True by (simp add: components_loop.simps [of m path a beg cs] Let_def)
    have rest: "map (slice_str m) (components_loop m path a (Suc ?r) (push_component m a cs ?c)) =
        foldl (push_str a) (map (slice_str m) (push_component m a cs ?c))
          (split_slash (drop (Suc ?r) (slice_str m path)))"
      using "1.IH" [OF True refl refl] "1.prems" by blast
    show ?thesis unfolding step rest push_component_str [OF sp(1)] sp(2)
      by (auto simp: len)
  next
    case False
    then show ?thesis by (simp add: components_loop.simps [of m path a beg cs] len)
  qed
qed

section \<open>Trimming does not change the meaning\<close>

lemma foldl_push_slashes: "foldl (push_str a) ws (split_slash (replicate k SLASH)) = ws"
  by (induction k) auto

lemma foldl_push_lead: "foldl (push_str a) ws (split_slash (replicate k SLASH @ q)) = foldl (push_str a) ws (split_slash q)"
  by (induction k) auto

lemma foldl_push_trail: "foldl (push_str a) ws (split_slash (q @ replicate k SLASH)) = foldl (push_str a) ws (split_slash q)"
  by (cases k) (simp_all add: split_slash_append foldl_push_slashes)

lemma Slice_rtrim_str:
  assumes "slice_ok m s"
  shows "slice_str m s = slice_str m (Slice_rtrim m s c) @ replicate (sl_size s - sl_size (Slice_rtrim m s c)) c"
    "slice_ok m (Slice_rtrim m s c)" "sl_data (Slice_rtrim m s c) = sl_data s"
proof -
  let ?k = "rstrip_size m (sl_data s) c (sl_size s)"
  have k: "?k \<le> sl_size s" by (rule rstrip_size_le)
  then show "slice_ok m (Slice_rtrim m s c)" "sl_data (Slice_rtrim m s c) = sl_data s"
    using assms by (simp_all add: slice_ok_def Slice_rtrim_def)
  have len: "sl_data s + sl_size s \<le> length m" using assms by (simp add: slice_ok_def)
  have "bytes m (sl_data s + ?k) (sl_size s - ?k) = replicate (sl_size s - ?k) c"
  proof (rule nth_equalityI)
    fix i assume "i < length (bytes m (sl_data s + ?k) (sl_size s - ?k))"
    then have i: "i < sl_size s - ?k" using len k by (simp add: length_bytes)
    then show "bytes m (sl_data s + ?k) (sl_size s - ?k) ! i = replicate (sl_size s - ?k) c ! i"
      using rstrip_size_skipped [of m "sl_data s" c "sl_size s" "?k + i"] len k
      by (simp add: nth_bytes add.assoc)
  qed (use len k in \<open>simp add: length_bytes\<close>)
  then show "slice_str m s = slice_str m (Slice_rtrim m s c) @ replicate (sl_size s - sl_size (Slice_rtrim m s c)) c"
    using bytes_append [of "sl_data s" ?k "sl_size s - ?k" m] len k by (simp add: slice_str_def Slice_rtrim_def)
qed

lemma Slice_ltrim_str:
  assumes "slice_ok m s"
  shows "slice_str m s = replicate (sl_data (Slice_ltrim m s c) - sl_data s) c @ slice_str m (Slice_ltrim m s c)"
    "slice_ok m (Slice_ltrim m s c)" "sl_data s \<le> sl_data (Slice_ltrim m s c)"
    "sl_data (Slice_ltrim m s c) + sl_size (Slice_ltrim m s c) = sl_data s + sl_size s"
proof -
  let ?k = "lstrip_count m s c 0 (sl_size s)"
  have k: "?k \<le> sl_size s" using lstrip_count_bounds by blast
  then show "slice_ok m (Slice_ltrim m s c)" "sl_data s \<le> sl_data (Slice_ltrim m s c)"
    "sl_data (Slice_ltrim m s c) + sl_size (Slice_ltrim m s c) = sl_data s + sl_size s"
    using assms by (simp_all add: slice_ok_def Slice_ltrim_def Slice_remove_prefix_def)
  have len: "sl_data s + sl_size s \<le> length m" using assms by (simp add: slice_ok_def)
  have "bytes m (sl_data s) ?k = replicate ?k c"
  proof (rule nth_equalityI)
    fix i assume "i < length (bytes m (sl_data s) ?k)"
    then have "i < ?k" using len k by (simp add: length_bytes)
    then show "bytes m (sl_data s) ?k ! i = replicate ?k c ! i"
      using lstrip_count_skipped [of 0 i m s c "sl_size s"] len k by (simp add: nth_bytes)
  qed (use len k in \<open>simp add: length_bytes\<close>)
  then show "slice_str m s = replicate (sl_data (Slice_ltrim m s c) - sl_data s) c @ slice_str m (Slice_ltrim m s c)"
    using bytes_append [of "sl_data s" ?k "sl_size s - ?k" m] len k
    by (simp add: slice_str_def Slice_ltrim_def Slice_remove_prefix_def)
qed

lemma Slice_trim_meaning:
  assumes "slice_ok m s"
  shows "foldl (push_str a) ws (split_slash (slice_str m (Slice_trim m s SLASH))) =
    foldl (push_str a) ws (split_slash (slice_str m s))" "slice_ok m (Slice_trim m s SLASH)"
  using Slice_rtrim_str [OF assms, of SLASH] Slice_ltrim_str [of m "Slice_rtrim m s SLASH" SLASH]
  by (metis Slice_trim_def foldl_push_lead foldl_push_trail)+

section \<open>Where the components lie\<close>

text \<open>
  Components are disjoint slices in increasing order with at least one byte between them; in an
  absolute path each is preceded by a slash, which is what makes the step back by one byte in
  \<open>tc_get_path_components\<close> sound (the source asserts it).
\<close>

definition apart :: "slice_t list \<Rightarrow> bool" where
  "apart cs \<longleftrightarrow> sorted_wrt (\<lambda>c d. sl_data c + sl_size c < sl_data d) cs"

definition comp_inv :: "mem \<Rightarrow> bool \<Rightarrow> nat \<Rightarrow> nat \<Rightarrow> slice_t list \<Rightarrow> bool" where
  "comp_inv m a lo hi cs \<longleftrightarrow> apart cs \<and>
     (\<forall>c \<in> set cs. lo \<le> sl_data c \<and> sl_data c + sl_size c < hi \<and>
        (a \<longrightarrow> 0 < sl_data c \<and> m ! (sl_data c - 1) = SLASH))"

lemma push_component_cases:
  "push_component m a cs c = cs \<or> push_component m a cs c = cs @ [c] \<or> push_component m a cs c = butlast cs"
  by (auto simp: push_component_def Let_def)

lemma comp_inv_butlast: "comp_inv m a lo hi cs \<Longrightarrow> comp_inv m a lo hi (butlast cs)"
  by (cases cs rule: rev_cases) (auto simp: comp_inv_def apart_def sorted_wrt_append)

lemma comp_inv_mono: "comp_inv m a lo hi cs \<Longrightarrow> hi \<le> hi' \<Longrightarrow> comp_inv m a lo hi' cs"
  by (fastforce simp: comp_inv_def)

lemma comp_inv_snoc:
  assumes "comp_inv m a lo hi cs" "hi \<le> sl_data c" "lo \<le> sl_data c" "sl_data c + sl_size c < hi'"
    "a \<longrightarrow> 0 < sl_data c \<and> m ! (sl_data c - 1) = SLASH"
  shows "comp_inv m a lo hi' (cs @ [c])"
  using assms by (fastforce simp: comp_inv_def apart_def sorted_wrt_append)

lemma comp_inv_push:
  assumes inv: "comp_inv m a lo hi cs" and c: "hi \<le> sl_data c" "lo \<le> sl_data c" "sl_data c + sl_size c < hi'"
    "a \<longrightarrow> 0 < sl_data c \<and> m ! (sl_data c - 1) = SLASH"
  shows "comp_inv m a lo hi' (push_component m a cs c)"
proof -
  have "hi \<le> hi'" using c by simp
  then show ?thesis
    using push_component_cases [of m a cs c] comp_inv_snoc [OF inv c] comp_inv_mono [OF inv]
      comp_inv_mono [OF comp_inv_butlast [OF inv]] by metis
qed

lemma components_loop_inv:
  assumes "slice_ok m path" "comp_inv m a (sl_data path) (sl_data path + beg) cs"
    "a \<longrightarrow> beg < sl_size path \<longrightarrow> 0 < sl_data path + beg \<and> m ! (sl_data path + beg - 1) = SLASH"
    "beg \<le> Suc (sl_size path)"
  shows "comp_inv m a (sl_data path) (Suc (sl_data path + sl_size path)) (components_loop m path a beg cs)"
  using assms
proof (induction m path a beg cs rule: components_loop.induct)
  case (1 m path a beg cs)
  show ?case
  proof (cases "beg < sl_size path")
    case True
    let ?r = "scan_slash m path beg"
    let ?c = "mkslice (sl_data path + beg) (?r - beg)"
    note sp = scan_slash_spec [OF less_imp_le [OF True], where m = m]
    have ge: "beg \<le> ?r" by (rule scan_slash_ge)
    have inv: "comp_inv m a (sl_data path) (sl_data path + Suc ?r) (push_component m a cs ?c)"
      using "1.prems"(2,3) True ge by (intro comp_inv_push) (auto simp: mkslice_def)
    have "comp_inv m a (sl_data path) (Suc (sl_data path + sl_size path))
        (components_loop m path a (Suc ?r) (push_component m a cs ?c))"
      using sp(1) sp(3) by (intro "1.IH" [OF True refl refl "1.prems"(1) inv]) auto
    then show ?thesis using True by (simp add: components_loop.simps [of m path a beg cs] Let_def)
  next
    case False
    have "components_loop m path a beg cs = cs" using False by (subst components_loop.simps) (rule if_not_P)
    moreover have "sl_data path + beg \<le> Suc (sl_data path + sl_size path)" using "1.prems"(4) by simp
    ultimately show ?thesis using comp_inv_mono "1.prems"(2) by simp
  qed
qed

lemma slice_str_first: "slice_ok m s \<Longrightarrow> sl_size s \<noteq> 0 \<Longrightarrow> is_abs (slice_str m s) \<longleftrightarrow> m ! sl_data s = SLASH"
proof -
  assume a: "slice_ok m s" "sl_size s \<noteq> 0"
  then have "slice_str m s \<noteq> []" "slice_str m s ! 0 = m ! sl_data s"
    using nth_bytes [of 0 "sl_size s" "sl_data s" m] length_bytes [of "sl_data s" "sl_size s" m]
    by (auto simp: slice_str_def slice_ok_def)
  then show ?thesis by (simp add: is_abs_def hd_conv_nth)
qed

text \<open>The trimmed path of an absolute path starts right behind a slash.\<close>

lemma Slice_trim_abs:
  assumes ok: "slice_ok m s" and sz: "sl_size s \<noteq> 0" and ab: "m ! sl_data s = SLASH"
    and t: "sl_size (Slice_trim m s SLASH) \<noteq> 0"
  shows "sl_data s < sl_data (Slice_trim m s SLASH)" "m ! (sl_data (Slice_trim m s SLASH) - 1) = SLASH"
proof -
  let ?r = "Slice_rtrim m s SLASH" and ?k = "lstrip_count m (Slice_rtrim m s SLASH) SLASH 0 (sl_size (Slice_rtrim m s SLASH))"
  have t': "Slice_trim m s SLASH = \<lparr>sl_size = sl_size ?r - ?k, sl_data = sl_data s + ?k\<rparr>"
    by (simp add: Slice_trim_def Slice_ltrim_def Slice_remove_prefix_def Slice_rtrim_def)
  have "?k < sl_size ?r" using t t' by simp
  then have "m ! (sl_data s + ?k) \<noteq> SLASH"
    using lstrip_count_stop [of ?r 0 "sl_size ?r" m SLASH] by (simp add: Slice_rtrim_def)
  then have k: "?k \<noteq> 0" using ab by (metis add.right_neutral)
  then have "m ! (sl_data s + (?k - 1)) = SLASH"
    using lstrip_count_skipped [of 0 "?k - 1" m ?r SLASH "sl_size ?r"] by (simp add: Slice_rtrim_def)
  then show "m ! (sl_data (Slice_trim m s SLASH) - 1) = SLASH" using k t' by simp
  show "sl_data s < sl_data (Slice_trim m s SLASH)" using k t' by simp
qed

lemma Slice_trim_bounds:
  "slice_ok m s \<Longrightarrow> sl_data s \<le> sl_data (Slice_trim m s c) \<and>
   sl_data (Slice_trim m s c) + sl_size (Slice_trim m s c) \<le> sl_data s + sl_size s"
  using Slice_rtrim_str [of m s c] Slice_ltrim_str [of m "Slice_rtrim m s c" c]
    rstrip_size_le [of m "sl_data s" c "sl_size s"]
  by (simp add: Slice_trim_def Slice_rtrim_def)

lemma components_loop_trimmed:
  assumes ok: "slice_ok m s" and sz: "sl_size s \<noteq> 0"
  defines "a \<equiv> (m ! sl_data s = SLASH)"
  defines "cs \<equiv> components_loop m (Slice_trim m s SLASH) a 0 []"
  shows "comp_inv m a (sl_data (Slice_trim m s SLASH)) (Suc (sl_data s + sl_size s)) cs"
    "map (slice_str m) cs = names (slice_str m s)"
proof -
  let ?t = "Slice_trim m s SLASH"
  have okt: "slice_ok m ?t" using Slice_trim_meaning [OF ok] by blast
  have "comp_inv m a (sl_data ?t) (Suc (sl_data ?t + sl_size ?t)) cs"
    unfolding cs_def using okt Slice_trim_abs [OF ok sz]
    by (intro components_loop_inv) (auto simp: comp_inv_def apart_def a_def)
  then show "comp_inv m a (sl_data ?t) (Suc (sl_data s + sl_size s)) cs"
    using Slice_trim_bounds [OF ok, of SLASH] by (rule_tac comp_inv_mono) auto
  show "map (slice_str m) cs = names (slice_str m s)"
    using components_loop_str [OF okt, of a 0 "[]"] Slice_trim_meaning(1) [OF ok, of a "[]"]
      slice_str_first [OF ok sz] by (simp add: cs_def names_def a_def)
qed

lemma slice_str_back:
  assumes "slice_ok m c" "0 < sl_data c" "m ! (sl_data c - 1) = SLASH"
  shows "slice_str m (mkslice (sl_data c - 1) (sl_size c + 1)) = SLASH # slice_str m c"
proof -
  have "bytes m (sl_data c - 1) (1 + sl_size c) = bytes m (sl_data c - 1) 1 @ bytes m (sl_data c - 1 + 1) (sl_size c)"
    using assms by (intro bytes_append) (simp add: slice_ok_def)
  moreover have "bytes m (sl_data c - 1) 1 = [SLASH]"
    using bytes_Suc [of "sl_data c - 1" 0 m] assms by (cases "sl_data c - 1 < length m") (auto simp: slice_ok_def)
  ultimately show ?thesis using assms(2) by (simp add: slice_str_def mkslice_def add.commute)
qed

lemma comp_inv_ok: "comp_inv m a lo (Suc hi) cs \<Longrightarrow> hi \<le> length m \<Longrightarrow> c \<in> set cs \<Longrightarrow> slice_ok m c"
  by (fastforce simp: comp_inv_def slice_ok_def)

text \<open>
  The tokeniser computes exactly the components the specification assigns to the path, and they
  lie in order inside it.
\<close>

lemma tc_get_path_components_refines:
  assumes ok: "slice_ok m s"
  shows "map (slice_str m) (tc_get_path_components m s) = path_comps (slice_str m s)"
    "apart (tc_get_path_components m s)"
    "\<And>c. c \<in> set (tc_get_path_components m s) \<Longrightarrow>
       sl_data s \<le> sl_data c \<and> sl_data c + sl_size c \<le> sl_data s + sl_size s"
proof -
  have "map (slice_str m) (tc_get_path_components m s) = path_comps (slice_str m s) \<and>
    apart (tc_get_path_components m s) \<and>
    (\<forall>c \<in> set (tc_get_path_components m s).
       sl_data s \<le> sl_data c \<and> sl_data c + sl_size c \<le> sl_data s + sl_size s)"
  proof (cases "sl_size s = 0")
    case True
    then show ?thesis
      by (simp add: tc_get_path_components_def slice_str_def path_comps_def is_abs_def names_def apart_def)
  next
    case sz: False
    define a where "a = (m ! sl_data s = SLASH)"
    define cs where "cs = components_loop m (Slice_trim m s SLASH) a 0 []"
    have le: "sl_data s + sl_size s \<le> length m" using ok by (simp add: slice_ok_def)
    have inv: "comp_inv m a (sl_data (Slice_trim m s SLASH)) (Suc (sl_data s + sl_size s)) cs"
      and nm: "map (slice_str m) cs = names (slice_str m s)"
      using components_loop_trimmed [OF ok sz] by (simp_all add: cs_def a_def)
    have lo: "sl_data s \<le> sl_data (Slice_trim m s SLASH)" using Slice_trim_bounds [OF ok] by blast
    have ab: "is_abs (slice_str m s) = a" using slice_str_first [OF ok sz] by (simp add: a_def)
    show ?thesis
    proof (cases a)
      case False
      then have "tc_get_path_components m s = cs"
        using sz by (simp add: tc_get_path_components_def Let_def a_def cs_def)
      then show ?thesis using False inv nm lo ab by (force simp: comp_inv_def path_comps_def)
    next
      case a: True
      show ?thesis
      proof (cases cs)
        case Nil
        then have r: "tc_get_path_components m s = [mkslice (sl_data s) 1]"
          using sz a by (simp add: tc_get_path_components_def Let_def a_def cs_def)
        have "slice_str m (mkslice (sl_data s) 1) = [SLASH]"
          using bytes_Suc [of "sl_data s" 0 m] sz le a by (simp add: slice_str_def mkslice_def a_def)
        then show ?thesis using r Nil nm ab a sz
          by (simp add: path_comps_def apart_def) (simp add: mkslice_def)
      next
        case (Cons c cs')
        let ?c = "mkslice (sl_data c - 1) (sl_size c + 1)"
        have r: "tc_get_path_components m s = ?c # cs'"
          using sz a Cons by (simp add: tc_get_path_components_def Let_def a_def cs_def)
        have c: "0 < sl_data c" "m ! (sl_data c - 1) = SLASH" "slice_ok m c"
          using inv Cons a comp_inv_ok [OF inv le, of c] by (auto simp: comp_inv_def)
        have "sl_size (Slice_trim m s SLASH) \<noteq> 0"
        proof
          assume "sl_size (Slice_trim m s SLASH) = 0"
          then have "cs = []" unfolding cs_def by (subst components_loop.simps) simp
          then show False using Cons by simp
        qed
        then have "sl_data s < sl_data (Slice_trim m s SLASH)" using Slice_trim_abs [OF ok sz] a by (simp add: a_def)
        then have pos: "sl_data s \<le> sl_data c - 1" using inv Cons by (auto simp: comp_inv_def)
        have "path_comps (slice_str m s) = (SLASH # slice_str m c) # map (slice_str m) cs'"
          using nm ab a Cons by (simp add: path_comps_def flip: nm)
        then have 1: "map (slice_str m) (tc_get_path_components m s) = path_comps (slice_str m s)"
          using r slice_str_back [OF c(3,1,2)] by simp
        have ap: "apart (?c # cs')" using inv Cons c(1) by (auto simp: comp_inv_def apart_def mkslice_def)
        have "\<forall>d \<in> set (?c # cs'). sl_data s \<le> sl_data d \<and> sl_data d + sl_size d \<le> sl_data s + sl_size s"
          using inv Cons c(1) pos lo by (force simp: comp_inv_def mkslice_def)
        then show ?thesis using 1 ap r by simp
      qed
    qed
  qed
  then show "map (slice_str m) (tc_get_path_components m s) = path_comps (slice_str m s)"
    "apart (tc_get_path_components m s)"
    "\<And>c. c \<in> set (tc_get_path_components m s) \<Longrightarrow>
       sl_data s \<le> sl_data c \<and> sl_data c + sl_size c \<le> sl_data s + sl_size s"
    by blast+
qed

section \<open>Normalisation, in place or not\<close>

text \<open>
  A list of slices that can still be read while a text is written from address \<open>w\<close> on: each
  lies outside the buffer, or starts no earlier than the place where it will be written.
\<close>

fun clear_of :: "buf_t \<Rightarrow> nat \<Rightarrow> slice_t list \<Rightarrow> bool" where
  "clear_of b w [] = True"
| "clear_of b w (c # cs) =
     ((w \<le> sl_data c \<or> sl_data c + sl_size c \<le> bf_data b \<or> bf_data b + bf_capacity b \<le> sl_data c) \<and>
      clear_of b (w + sl_size c + 1) cs)"

lemma clear_of_cong: "bf_data b' = bf_data b \<Longrightarrow> bf_capacity b' = bf_capacity b \<Longrightarrow> clear_of b' w cs = clear_of b w cs"
  by (induction cs arbitrary: w) auto

lemma apart_clear: "apart cs \<Longrightarrow> \<forall>c \<in> set cs. w \<le> sl_data c \<Longrightarrow> clear_of b w cs"
proof (induction cs arbitrary: w)
  case (Cons c cs)
  have "\<forall>d \<in> set cs. w + sl_size c + 1 \<le> sl_data d" using Cons.prems by (fastforce simp: apart_def)
  then show ?case using Cons by (simp add: apart_def)
qed simp

lemma disjoint_clear:
  "\<forall>c \<in> set cs. sl_data c + sl_size c \<le> bf_data b \<or> bf_data b + bf_capacity b \<le> sl_data c \<Longrightarrow> clear_of b w cs"
  by (induction cs arbitrary: w) auto

definition sep_text :: "bool \<Rightarrow> string list \<Rightarrow> string" where
  "sep_text first ws = (if first then join_slash ws else concat (map ((#) SLASH) ws))"

lemma join_slash_concat: "join_slash (w # ws) = w @ concat (map ((#) SLASH) ws)"
  by (induction ws arbitrary: w) auto

lemma sep_text_Cons: "sep_text first (w # ws) = (if first then [] else [SLASH]) @ w @ sep_text False ws"
  by (simp add: sep_text_def join_slash_concat)

lemma clear_of_unchanged:
  assumes "writes_only m m' lo hi" "bf_data b \<le> lo" "hi \<le> bf_data b + bf_capacity b"
    "\<forall>c \<in> set cs. slice_ok m c" "clear_of b w cs" "hi \<le> w"
  shows "map (slice_str m') cs = map (slice_str m) cs"
  using assms(4-6)
proof (induction cs arbitrary: w)
  case (Cons c cs)
  have "slice_str m' c = slice_str m c"
    using Cons.prems assms(1-3) by (intro slice_str_writes_only [of m c m' lo hi]) auto
  moreover have "map (slice_str m') cs = map (slice_str m) cs"
    using Cons.prems by (intro Cons.IH [of "w + sl_size c + 1"]) auto
  ultimately show ?case by simp
qed simp

lemma append_components_spec:
  assumes "buf_ok m b" "\<forall>c \<in> set cs. slice_ok m c"
    "bf_size b + length (sep_text first (map (slice_str m) cs)) \<le> bf_capacity b"
    "clear_of b (buf_end b + (if first then 0 else 1)) cs"
    "append_components m b first cs = (m', b')"
  shows "buf_ok m' b' \<and> bf_data b' = bf_data b \<and> bf_capacity b' = bf_capacity b \<and> same_outside b m m' \<and>
    buf_str m' b' = buf_str m b @ sep_text first (map (slice_str m) cs) \<and>
    bf_size b' = bf_size b + length (sep_text first (map (slice_str m) cs))"
  using assms
proof (induction cs arbitrary: m b first)
  case Nil
  then show ?case by (simp add: sep_text_def)
next
  case (Cons c cs)
  define s where "s = (if first then [] else [SLASH])"
  obtain m1 b1 where 1: "(if \<not> first then snd (buf_append_char m b SLASH) else (m, b)) = (m1, b1)"
    by (cases "if \<not> first then snd (buf_append_char m b SLASH) else (m, b)")
  obtain r2 m2 b2 where 2: "buf_append_slice m1 b1 c = (r2, m2, b2)" by (cases "buf_append_slice m1 b1 c")
  have rest: "append_components m2 b2 False cs = (m', b')" using Cons.prems(5) 1 2 by simp
  have okc: "slice_ok m c" using Cons.prems(2) by simp
  have lc: "length (slice_str m c) = sl_size c" using okc by (simp add: slice_str_def slice_ok_def length_bytes)
  have tot: "bf_size b + length s + sl_size c + length (sep_text False (map (slice_str m) cs)) \<le> bf_capacity b"
    using Cons.prems(3) lc by (simp add: sep_text_Cons s_def)
  have a1: "bf_data b1 = bf_data b" "bf_capacity b1 = bf_capacity b" "bf_size b1 = bf_size b + length s"
    "buf_str m1 b1 = buf_str m b @ s" "writes_only m m1 (buf_end b) (buf_end b + length s)" "buf_ok m1 b1"
  proof -
    have "\<exists>r. appends m b [SLASH] r m1 b1" if "\<not> first"
      using 1 that buf_append_char_appends [OF Cons.prems(1), of SLASH] by (cases "buf_append_char m b SLASH") auto
    moreover from this show "buf_ok m1 b1"
      using 1 appends_ok [OF _ Cons.prems(1)] Cons.prems(1) by (cases first) auto
    ultimately show "bf_data b1 = bf_data b" "bf_capacity b1 = bf_capacity b" "bf_size b1 = bf_size b + length s"
      "buf_str m1 b1 = buf_str m b @ s" "writes_only m m1 (buf_end b) (buf_end b + length s)"
      using 1 tot Cons.prems(1) by (auto simp: s_def appends_def split: if_splits)
  qed
  have w: "buf_end b + length s = buf_end b + (if first then 0 else 1)" by (simp add: s_def)
  have clr0: "clear_of b (buf_end b + length s) (c # cs)" unfolding w using Cons.prems(4) .
  have "map (slice_str m1) (c # cs) = map (slice_str m) (c # cs)"
    by (rule clear_of_unchanged [OF a1(5) _ _ Cons.prems(2) clr0]) (use tot in \<open>auto simp: buf_end_def\<close>)
  then have same1: "slice_str m1 c = slice_str m c" "map (slice_str m1) cs = map (slice_str m) cs" by auto
  have ap2: "appends m1 b1 (slice_str m c) r2 m2 b2"
    using buf_append_slice_appends [OF a1(6) _ 2] okc same1(1) slice_ok_writes_only [OF a1(5)] by simp
  then have a2: "bf_data b2 = bf_data b" "bf_capacity b2 = bf_capacity b"
    "bf_size b2 = bf_size b + length s + sl_size c" "buf_str m2 b2 = buf_str m b @ s @ slice_str m c"
    "writes_only m1 m2 (buf_end b1) (buf_end b1 + sl_size c)"
    using a1 tot lc by (auto simp: appends_def)
  have ok2: "buf_ok m2 b2" using appends_ok [OF ap2 a1(6)] .
  have sliceok: "\<forall>d \<in> set cs. slice_ok m1 d" "\<forall>d \<in> set cs. slice_ok m2 d"
    using Cons.prems(2) slice_ok_writes_only [OF a1(5)] slice_ok_writes_only [OF a2(5)] by auto
  have clr: "clear_of b (buf_end b + length s + sl_size c + 1) cs" using clr0 by simp
  have same2: "map (slice_str m2) cs = map (slice_str m) cs"
    unfolding same1(2) [symmetric]
    by (intro clear_of_unchanged [OF a2(5) _ _ sliceok(1) clr]) (use a1 tot in \<open>auto simp: buf_end_def\<close>)
  have "clear_of b2 (buf_end b2 + 1) cs"
    using clr clear_of_cong [OF a2(1,2)] a2(1,3) by (simp add: buf_end_def add.assoc)
  then have IH: "buf_ok m' b' \<and> bf_data b' = bf_data b2 \<and> bf_capacity b' = bf_capacity b2 \<and> same_outside b2 m2 m' \<and>
      buf_str m' b' = buf_str m2 b2 @ sep_text False (map (slice_str m) cs) \<and>
      bf_size b' = bf_size b2 + length (sep_text False (map (slice_str m) cs))"
    using Cons.IH [OF ok2 sliceok(2) _ _ rest] same2 tot a2(2,3) by simp
  have "same_outside b m m1" using a1(5) tot by (auto simp: same_outside_def buf_end_def intro: writes_only_mono)
  moreover have "same_outside b1 m1 m2" using appends_outside [OF ap2] .
  ultimately have "same_outside b m m'"
    using IH a1(1,2) a2(1,2) by (meson same_outside_trans)
  then show ?case using IH a2 lc by (simp add: sep_text_Cons s_def)
qed

lemma clear_within:
  assumes "apart cs" "\<And>c. c \<in> set cs \<Longrightarrow> lo \<le> sl_data c \<and> sl_data c + sl_size c \<le> hi"
    "w \<le> lo \<or> hi \<le> bf_data b \<or> bf_data b + bf_capacity b \<le> lo"
  shows "clear_of b w cs"
  using assms(3)
proof (elim disjE)
  assume "w \<le> lo" then show ?thesis using assms(1,2) by (intro apart_clear) (auto intro: le_trans)
next
  assume "hi \<le> bf_data b" then show ?thesis using assms(2) by (intro disjoint_clear) fastforce
next
  assume "bf_data b + bf_capacity b \<le> lo" then show ?thesis using assms(2) by (intro disjoint_clear) fastforce
qed

lemma tc_path_normalize_s_spec:
  assumes ok: "buf_ok m b" "slice_ok m s"
    and room: "bf_size b + length (norm_path (slice_str m s)) \<le> bf_capacity b" "bf_capacity b < 2 ^ 31"
    and clear: "buf_end b \<le> sl_data s \<or> sl_data s + sl_size s \<le> bf_data b \<or> bf_data b + bf_capacity b \<le> sl_data s"
    and r: "tc_path_normalize_s m s b = (n, m', b')"
  shows "n = int (length (norm_path (slice_str m s)))" "buf_ok m' b'" "bf_data b' = bf_data b"
    "bf_capacity b' = bf_capacity b" "same_outside b m m'" "buf_str m' b' = buf_str m b @ norm_path (slice_str m s)"
    "bf_size b' = bf_size b + length (norm_path (slice_str m s))"
proof -
  define cs where "cs = tc_get_path_components m s"
  note ref = tc_get_path_components_refines [OF ok(2), folded cs_def]
  have "n = int (length (norm_path (slice_str m s))) \<and> buf_ok m' b' \<and> bf_data b' = bf_data b \<and>
    bf_capacity b' = bf_capacity b \<and> same_outside b m m' \<and> buf_str m' b' = buf_str m b @ norm_path (slice_str m s) \<and>
    bf_size b' = bf_size b + length (norm_path (slice_str m s))"
  proof (cases "cs = []")
    case True
    then have dot: "norm_path (slice_str m s) = ''.''" using ref(1) by (simp add: norm_path_def)
    obtain k where k: "buf_append_char m b CHR ''.'' = (k, m', b')" "n = 1"
      using r True by (auto simp: tc_path_normalize_s_def cs_def split: prod.splits)
    have ap: "appends m b ''.'' k m' b'" by (rule buf_append_char_appends [OF ok(1) k(1)])
    show ?thesis using ap room k appends_ok [OF ap ok(1)] appends_outside [OF ap] by (auto simp: dot appends_def)
  next
    case False
    then have np: "norm_path (slice_str m s) = sep_text True (map (slice_str m) cs)"
      using ref(1) by (simp add: norm_path_def sep_text_def flip: ref(1))
    have k: "append_components m b True cs = (m', b')" "n = c_int (int (bf_size b') - int (bf_size b))"
      using r False by (auto simp: tc_path_normalize_s_def cs_def split: prod.splits)
    have sl: "\<forall>c \<in> set cs. slice_ok m c" using ref(3) ok(2) by (fastforce simp: slice_ok_def)
    have cl: "clear_of b (buf_end b + (if True then 0 else 1)) cs"
      by (rule clear_within [OF ref(2,3)]) (use clear in auto)
    show ?thesis
      using append_components_spec [OF ok(1) sl _ cl k(1)] room k(2) unfolding np by (auto simp: c_int_id)
  qed
  then show "n = int (length (norm_path (slice_str m s)))" "buf_ok m' b'" "bf_data b' = bf_data b"
    "bf_capacity b' = bf_capacity b" "same_outside b m m'" "buf_str m' b' = buf_str m b @ norm_path (slice_str m s)"
    "bf_size b' = bf_size b + length (norm_path (slice_str m s))"
    by blast+
qed

lemma slice_of_cstring:
  assumes "cstring_at m p s"
  shows "slice_str m (mkslice p (length s)) = s" "slice_ok m (mkslice p (length s))"
  using bytes_cstring [OF assms] assms by (auto simp: slice_str_def slice_ok_def mkslice_def cstring_at_def)

lemma tc_path_normalize_correct:
  assumes p: "cstring_at m path p" "path \<noteq> NULL" "length p < TC_PATH_MAX"
    and room: "buf + buf_size \<le> length m" "1 < buf_size" "length (norm_path p) < buf_size" "buf_size < 2 ^ 31"
    and place: "buf \<le> path \<or> path + length p \<le> buf"
    and r: "tc_path_normalize m path buf buf_size = (n, m')"
  shows "n = int (length (norm_path p)) \<and> cstring_at m' buf (norm_path p) \<and> writes_only m m' buf (buf + buf_size)"
proof -
  define s where "s = mkslice path (length p)"
  have len: "strnlen m path TC_PATH_MAX = length p" using strnlen_cstring [OF p(1)] p(3) by simp
  note sl = slice_of_cstring [OF p(1), folded s_def]
  obtain m1 b1 where n: "tc_path_normalize_s m s (mkbuf buf buf_size) = (n, m1, b1)"
      "m' = fst (snd (buf_append_null m1 b1))"
    using r p(2,3) room(2) by (auto simp: tc_path_normalize_def len s_def split: prod.splits)
  have okb: "buf_ok m (mkbuf buf buf_size)" using room(1) by (simp add: buf_ok_def mkbuf_def)
  have b0: "buf_str m (mkbuf buf buf_size) = []" by (simp add: buf_str_def mkbuf_def bytes_def)
  note sp = tc_path_normalize_s_spec [OF okb sl(2) _ _ _ n(1), unfolded sl(1) b0, simplified]
  have cl: "buf \<le> sl_data s \<or> sl_data s + sl_size s \<le> buf"
    using place by (auto simp: s_def mkslice_def)
  have 1: "n = int (length (norm_path p))" "buf_ok m1 b1" "bf_data b1 = buf" "bf_capacity b1 = buf_size"
    "same_outside (mkbuf buf buf_size) m m1" "buf_str m1 b1 = norm_path p" "bf_size b1 = length (norm_path p)"
    using sp room(3,4) cl by (auto simp: mkbuf_def buf_end_def)
  obtain k b2 where k: "buf_append_null m1 b1 = (k, m', b2)"
    using n(2) by (cases "buf_append_null m1 b1") auto
  have as: "asstr m1 b1 = (buf, m', b1)"
    using k buf_append_null_spec [OF 1(2) k] room(3) 1(3,4,7) by (auto simp: asstr_def)
  have nn: "NUL \<notin> set (buf_str m1 b1)"
    using norm_path_chars [of p] p(1) 1(6) by (auto simp: cstring_at_def)
  have "cstring_at m' buf (norm_path p)" "same_outside b1 m1 m'"
    using asstr_cstring [OF 1(2) _ as nn] room(3) 1(4,6,7) by auto
  then show ?thesis
    using 1 by (auto simp: same_outside_def mkbuf_def intro: writes_only_trans)
qed

section \<open>Joining\<close>

definition slash_cat :: "string \<Rightarrow> string \<Rightarrow> string" where
  "slash_cat a t = (if t = [] then a else if a = [] then t else a @ SLASH # t)"

lemma slash_cat_Nil [simp]: "slash_cat [] t = t" "slash_cat a [] = a"
  by (auto simp: slash_cat_def)

lemma length_slash_cat: "length (slash_cat a t) \<le> length a + length t + 1" "length a \<le> length (slash_cat a t)"
  by (auto simp: slash_cat_def)

lemma set_slash_cat: "set (slash_cat a t) \<subseteq> set a \<union> set t \<union> {SLASH}"
  by (auto simp: slash_cat_def)

lemma slash_cat_empty [simp]: "slash_cat a t = [] \<longleftrightarrow> a = [] \<and> t = []"
  by (auto simp: slash_cat_def)

definition outside :: "buf_t \<Rightarrow> slice_t \<Rightarrow> bool" where
  "outside b s \<longleftrightarrow> sl_data s + sl_size s \<le> bf_data b \<or> bf_data b + bf_capacity b \<le> sl_data s"

lemma tc_path_append_impl_spec:
  assumes ok: "buf_ok m b" "slice_ok m c"
    and room: "bf_size b + 1 + sl_size c \<le> bf_capacity b" "bf_capacity b < 2 ^ 31"
    and out: "outside b c" and r: "tc_path_append_impl m b c = (n, m', b')"
  shows "n = 0 \<and> buf_ok m' b' \<and> bf_data b' = bf_data b \<and> bf_capacity b' = bf_capacity b \<and> same_outside b m m' \<and>
    buf_str m' b' = slash_cat (buf_str m b) (slice_str m c) \<and> bf_size b' = length (buf_str m' b')"
proof -
  have len: "length (buf_str m b) = bf_size b" "length (slice_str m c) = sl_size c"
    using ok by (auto simp: buf_str_def buf_ok_def slice_str_def slice_ok_def length_bytes)
  show ?thesis
  proof (cases "sl_size c = 0")
    case True
    then have "slice_str m c = []" using len by simp
    then show ?thesis using r ok True len by (simp add: tc_path_append_impl_def same_outside_refl)
  next
    case False
    have rem: "c_size (buf_remaining b) = bf_capacity b - bf_size b"
      using room by (simp add: buf_remaining_def c_int_id c_size_id nat_diff_distrib)
    have ap: "append_components m b (bf_size b = 0) [c] = (m', b')" "n = 0"
      using r False room rem by (auto simp: tc_path_append_impl_def split: prod.splits if_splits)
    have cl: "clear_of b (buf_end b + (if bf_size b = 0 then 0 else 1)) [c]"
      using out by (auto simp: outside_def)
    have e: "sep_text (bf_size b = 0) (map (slice_str m) [c]) = (if bf_size b = 0 then [] else [SLASH]) @ slice_str m c"
      by (simp add: sep_text_Cons) (simp add: sep_text_def)
    have "buf_str m b = [] \<longleftrightarrow> bf_size b = 0" "slice_str m c \<noteq> []" using len False by (metis length_0_conv)+
    then show ?thesis
      using append_components_spec [OF ok(1) _ _ cl ap(1)] ok(2) room(1) ap(2) len
      unfolding e by (auto simp: slash_cat_def)
  qed
qed

lemma outside_untouched:
  assumes "same_outside b m m'" "outside b c" "slice_ok m c"
  shows "slice_str m' c = slice_str m c" "slice_ok m' c"
  using assms slice_str_writes_only [of m c m' "bf_data b" "bf_data b + bf_capacity b"]
    slice_ok_writes_only [of m m' "bf_data b" "bf_data b + bf_capacity b" c]
  by (auto simp: same_outside_def outside_def)

lemma tc_path_join_s_spec:
  assumes ok: "buf_ok m b" "bf_size b = 0" "slice_ok m s1" "slice_ok m s2"
    and out: "outside b s1" "outside b s2"
    and nn: "NUL \<notin> set (slice_str m s1)" "NUL \<notin> set (slice_str m s2)"
    and ne: "slash_cat (slice_str m s1) (slice_str m s2) \<noteq> []"
    and room: "sl_size s1 + sl_size s2 + 2 < bf_capacity b" "bf_capacity b < 2 ^ 31"
    and total: "sl_size s1 + sl_size s2 + 1 < TC_PATH_MAX" and nb: "bf_data b \<noteq> NULL"
    and r: "tc_path_join_s m s1 s2 b = (n, m', b')"
  defines "q \<equiv> slash_cat (slice_str m s1) (slice_str m s2)"
  shows "n = int (length (norm_path q))" "cstring_at m' (bf_data b) (norm_path q)" "same_outside b m m'"
    "buf_ok m' b'" "bf_data b' = bf_data b" "bf_capacity b' = bf_capacity b" "bf_size b' = length q"
proof -
  have len: "length (slice_str m s1) = sl_size s1" "length (slice_str m s2) = sl_size s2"
    using ok(3,4) by (auto simp: slice_str_def slice_ok_def length_bytes)
  have b0: "buf_str m b = []" using ok(2) by (simp add: buf_str_def bytes_def)
  obtain r1 m1 b1 where a1: "tc_path_append_impl m b s1 = (r1, m1, b1)" by (cases "tc_path_append_impl m b s1")
  obtain r2 m2 b2 where a2: "tc_path_append_impl m1 b1 s2 = (r2, m2, b2)" by (cases "tc_path_append_impl m1 b1 s2")
  have 1: "buf_ok m1 b1" "bf_data b1 = bf_data b" "bf_capacity b1 = bf_capacity b" "same_outside b m m1"
      "buf_str m1 b1 = slice_str m s1" "bf_size b1 = sl_size s1"
    using tc_path_append_impl_spec [OF ok(1,3) _ _ out(1) a1] room ok(2) b0 len by auto
  have out': "outside b1 s2" using out(2) 1(2,3) by (simp add: outside_def)
  note un = outside_untouched [OF 1(4) out(2) ok(4)]
  have 2: "buf_ok m2 b2" "bf_data b2 = bf_data b" "bf_capacity b2 = bf_capacity b" "same_outside b1 m1 m2"
      "buf_str m2 b2 = q" "bf_size b2 = length q"
    using tc_path_append_impl_spec [OF 1(1) un(2) _ _ out' a2] room 1 un(1) by (auto simp: q_def)
  obtain x m3 b3 where a3: "asstr m2 b2 = (x, m3, b3)" by (cases "asstr m2 b2")
  have small: "length q < bf_capacity b" "length q < TC_PATH_MAX"
    using length_slash_cat(1) [of "slice_str m s1" "slice_str m s2"] room(1) total len unfolding q_def by linarith+
  have nn': "NUL \<notin> set (buf_str m2 b2)" using nn set_slash_cat [of "slice_str m s1" "slice_str m s2"] 2(5) by (auto simp: q_def)
  have 3: "x = bf_data b" "b3 = b2" "cstring_at m3 (bf_data b) q" "same_outside b2 m2 m3"
    using asstr_cstring [OF 2(1) _ a3 nn'] small 2 by auto
  obtain n4 m4 where a4: "tc_path_normalize m3 (bf_data b) (bf_data b) (bf_capacity b) = (n4, m4)"
    by (cases "tc_path_normalize m3 (bf_data b) (bf_data b) (bf_capacity b)")
  have short: "length (norm_path q) \<le> length q" using ne by (intro norm_path_length) (simp add: q_def)
  have w3: "same_outside b m m3"
    using 1(4) same_outside_trans [OF 2(4) 3(4)] 1(2,3) 2(2,3) by (auto intro: same_outside_trans)
  then have l3: "length m3 = length m" by (rule same_outside_length)
  have 4: "n4 = int (length (norm_path q))" "cstring_at m4 (bf_data b) (norm_path q)"
    "writes_only m3 m4 (bf_data b) (bf_data b + bf_capacity b)"
    using tc_path_normalize_correct [OF 3(3) nb small(2) _ _ _ room(2) _ a4] ok(1) room short small(1) l3
    by (auto simp: buf_ok_def)
  have eq: "n = n4" "m' = m4" "b' = b2"
    using r a1 a2 a3 a4 3(1,2) 2(2,3) by (auto simp: tc_path_join_s_def)
  have w4: "same_outside b m m4" using w3 4(3) by (auto simp: same_outside_def intro: writes_only_trans)
  then show "same_outside b m m'" by (simp add: eq)
  show "buf_ok m' b'" using ok(1) 2(1-3) w4 by (simp add: eq buf_ok_def same_outside_length)
  show "n = int (length (norm_path q))" "cstring_at m' (bf_data b) (norm_path q)" "bf_data b' = bf_data b"
    "bf_capacity b' = bf_capacity b" "bf_size b' = length q"
    using 4(1,2) 2(2,3,6) by (simp_all add: eq)
qed

lemma tc_path_join_correct:
  assumes p: "cstring_at m path1 p1" "cstring_at m path2 p2" "length p1 < TC_PATH_MAX" "length p2 < TC_PATH_MAX"
    and ne: "p1 \<noteq> [] \<or> p2 \<noteq> []"
    and room: "buf + buf_size \<le> length m" "length p1 + length p2 + 2 < buf_size" "buf_size < 2 ^ 31"
    and total: "length p1 + length p2 + 1 < TC_PATH_MAX" and nb: "buf \<noteq> NULL"
    and place: "path1 + length p1 \<le> buf \<or> buf + buf_size \<le> path1" "path2 + length p2 \<le> buf \<or> buf + buf_size \<le> path2"
    and r: "tc_path_join m path1 path2 buf buf_size = (n, m')"
  shows "n = int (length (norm_path (slash_cat p1 p2))) \<and> cstring_at m' buf (norm_path (slash_cat p1 p2)) \<and>
    writes_only m m' buf (buf + buf_size)"
proof -
  define b where "b = mkbuf buf buf_size"
  define s1 where "s1 = mkslice path1 (length p1)"
  define s2 where "s2 = mkslice path2 (length p2)"
  have len: "strnlen m path1 TC_PATH_MAX = length p1" "strnlen m path2 TC_PATH_MAX = length p2"
    using strnlen_cstring [OF p(1)] strnlen_cstring [OF p(2)] p(3,4) by auto
  note sl1 = slice_of_cstring [OF p(1), folded s1_def]
  note sl2 = slice_of_cstring [OF p(2), folded s2_def]
  have sz: "sl_size s1 = length p1" "sl_size s2 = length p2" by (simp_all add: s1_def s2_def mkslice_def)
  have b: "bf_data b = buf" "bf_capacity b = buf_size" "bf_size b = 0" by (simp_all add: b_def mkbuf_def)
  have okb: "buf_ok m b" using room(1) b by (simp add: buf_ok_def)
  have out: "outside b s1" "outside b s2" using place b by (auto simp: outside_def s1_def s2_def mkslice_def)
  have nn: "NUL \<notin> set p1" "NUL \<notin> set p2" using p(1,2) by (auto simp: cstring_at_def)
  obtain k m4 b4 where j: "tc_path_join_s m s1 s2 b = (k, m4, b4)" by (cases "tc_path_join_s m s1 s2 b")
  note spec = tc_path_join_s_spec [OF okb b(3) sl1(2) sl2(2) out _ _ _ _ _ _ _ j, unfolded sl1(1) sl2(1) b sz]
  have S: "k = int (length (norm_path (slash_cat p1 p2)))" "cstring_at m4 buf (norm_path (slash_cat p1 p2))"
      "same_outside b m m4" "buf_ok m4 b4" "bf_data b4 = buf" "bf_capacity b4 = buf_size"
      "bf_size b4 = length (slash_cat p1 p2)"
    using spec nn ne room(2,3) total nb by auto
  have eq: "n = k" "m' = fst (snd (buf_append_null m4 b4))"
    using r p(3,4) j by (auto simp: tc_path_join_def len s1_def s2_def b_def split: prod.splits)
  have small: "length (slash_cat p1 p2) < buf_size" using length_slash_cat(1) [of p1 p2] room(2) by linarith
  have short: "length (norm_path (slash_cat p1 p2)) \<le> length (slash_cat p1 p2)"
    using ne by (intro norm_path_length) auto
  have m': "m' = m4[buf + length (slash_cat p1 p2) := NUL]"
    using eq(2) small S(5,6,7) by (auto simp: buf_append_null_def buf_append_char_def)
  have c: "cstring_at m' buf (norm_path (slash_cat p1 p2))"
    unfolding m' by (rule cstring_at_overwrite [OF S(2)]) (use short in auto)
  have "writes_only m4 m' buf (buf + buf_size)"
    unfolding m' by (rule writes_only_mono [OF writes_only_update]) (use small in auto)
  then show ?thesis using c eq(1) S(1,3) b by (auto simp: same_outside_def intro: writes_only_trans)
qed

text \<open>Two empty paths are the exception: the final terminator erases the \<open>.\<close> just written.\<close>

section \<open>Rebasing and distance\<close>

lemma Slice_eq_str: "slice_ok m x \<Longrightarrow> slice_ok m y \<Longrightarrow> Slice_eq m x y \<longleftrightarrow> slice_str m x = slice_str m y"
  using length_bytes [of "sl_data x" "sl_size x" m] length_bytes [of "sl_data y" "sl_size y" m]
  by (auto simp: Slice_eq_def slice_str_def slice_ok_def)

lemma match_len_common:
  "\<forall>x \<in> set xs. slice_ok m x \<Longrightarrow> \<forall>y \<in> set ys. slice_ok m y \<Longrightarrow>
   match_len m xs ys = common_len (map (slice_str m) xs) (map (slice_str m) ys)"
  by (induction m xs ys rule: match_len.induct) (auto simp: Slice_eq_str)

lemma components_slice_ok:
  assumes "slice_ok m s"
  shows "\<forall>c \<in> set (tc_get_path_components m s). slice_ok m c"
  using tc_get_path_components_refines(3) [OF assms] assms by (fastforce simp: slice_ok_def)

lemma append_relative_components: "snd (append_relative m b first sz cs) = append_components m b first cs"
  by (induction cs arbitrary: m b first sz) (auto split: prod.splits)

lemma append_relative_size:
  assumes "bf_size b + sum_list (map sl_size cs) + length cs \<le> bf_capacity b + (if first then 1 else 0)"
    "bf_capacity b < 2 ^ 31" "append_relative m b first sz cs = (sz', m', b')"
  shows "sz' = sz + int (bf_size b') - int (bf_size b)"
  using assms
proof (induction cs arbitrary: m b first sz)
  case (Cons c cs)
  define k where "k = (if first then 0 else 1 :: nat)"
  obtain s1 m1 b1 where 1: "(if \<not> first then buf_append_char m b SLASH else (0, m, b)) = (s1, m1, b1)"
    by (cases "if \<not> first then buf_append_char m b SLASH else (0, m, b)")
  obtain s2 m2 b2 where 2: "buf_append_slice m1 b1 c = (s2, m2, b2)" by (cases "buf_append_slice m1 b1 c")
  have fit: "bf_size b + k + sl_size c + sum_list (map sl_size cs) + length cs \<le> bf_capacity b"
    using Cons.prems(1) by (simp add: k_def split: if_splits)
  have s1: "s1 = int k" "bf_size b1 = bf_size b + k" "bf_capacity b1 = bf_capacity b"
    using 1 fit by (auto simp: k_def buf_append_char_def split: if_splits)
  have s2: "s2 = int (sl_size c)" "bf_size b2 = bf_size b1 + sl_size c" "bf_capacity b2 = bf_capacity b1"
    using 2 fit s1 Cons.prems(2) by (auto simp: buf_append_slice_def c_int_id)
  have "append_relative m2 b2 False (sz + s1 + s2) cs = (sz', m', b')" using Cons.prems(3) 1 2 by simp
  then show ?case
    using Cons.IH [of b2 False m2 "sz + s1 + s2"] fit Cons.prems(2) s1 s2 by simp
qed simp

definition rebase_text :: "string \<Rightarrow> string \<Rightarrow> string" where
  "rebase_text b p =
     (if rebase_comps (path_comps b) (path_comps p) = [] then ''.''
      else join_slash (rebase_comps (path_comps b) (path_comps p)))"

lemma names_chars: "\<Union> (set ` set (names p)) \<subseteq> set p"
  using foldl_push_chars [of "is_abs p" "[]" "split_slash p"] split_slash_chars [of p] by (auto simp: names_def)

lemma path_comps_chars: "\<Union> (set ` set (path_comps p)) \<subseteq> set p \<union> {SLASH}"
  using names_chars [of p] by (cases "names p") (auto simp: path_comps_def)

lemma rebase_text_chars: "set (rebase_text b p) \<subseteq> set p \<union> {SLASH, CHR ''.''}"
proof -
  have "\<Union> (set ` set (rebase_comps (path_comps b) (path_comps p))) \<subseteq> set p \<union> {SLASH, CHR ''.''}"
    using path_comps_chars [of p] by (auto simp: rebase_comps_def dest: in_set_dropD split: if_splits)
  then have "set (join_slash (rebase_comps (path_comps b) (path_comps p))) \<subseteq> set p \<union> {SLASH, CHR ''.''}"
    using join_slash_chars [of "rebase_comps (path_comps b) (path_comps p)"] by blast
  then show ?thesis by (auto simp: rebase_text_def)
qed

lemma rebase_text_leads: "is_abs b \<Longrightarrow> is_abs p \<Longrightarrow> names (b @ SLASH # rebase_text b p) = names p"
proof (cases "rebase_comps (path_comps b) (path_comps p) = []")
  case True
  moreover assume "is_abs b" "is_abs p"
  ultimately show ?thesis
    using rebase_names [of b p] names_join_abs [of b "[]"] names_join_abs [of b "''.''"] by (simp add: rebase_text_def)
qed (simp add: rebase_text_def rebase_names)

lemma sep_text_total:
  assumes "\<forall>c \<in> set cs. slice_ok m c" "cs \<noteq> []"
  shows "Suc (length (sep_text True (map (slice_str m) cs))) = sum_list (map sl_size cs) + length cs"
proof -
  have "map length (map (slice_str m) cs) = map sl_size cs"
    using assms(1) by (auto simp: slice_str_def slice_ok_def length_bytes)
  moreover have "length cs > 0" using assms(2) by simp
  ultimately show ?thesis using length_join_slash [of "map (slice_str m) cs"] assms(2)
    by (simp only: sep_text_def if_True length_map map_is_Nil_conv) simp
qed

lemma tc_path_rebase_s_spec:
  assumes ok: "buf_ok m b" "slice_ok m s" "slice_ok m t"
    and dd: "slice_str m (mkslice dotdot 2) = ''..''" "slice_ok m (mkslice dotdot 2)"
    and out: "outside b t" "outside b (mkslice dotdot 2)"
    and room: "bf_size b + length (rebase_text (slice_str m s) (slice_str m t)) \<le> bf_capacity b" "bf_capacity b < 2 ^ 31"
    and r: "tc_path_rebase_s dotdot m s t b = (n, m', b')"
  defines "x \<equiv> rebase_text (slice_str m s) (slice_str m t)"
  shows "n = int (length x) \<and> buf_ok m' b' \<and> bf_data b' = bf_data b \<and> bf_capacity b' = bf_capacity b \<and>
    same_outside b m m' \<and> buf_str m' b' = buf_str m b @ x \<and> bf_size b' = bf_size b + length x"
proof -
  let ?B = "tc_get_path_components m s" and ?P = "tc_get_path_components m t"
  define l where "l = match_len m ?B ?P"
  define rel where "rel = replicate (length ?B - l) (mkslice dotdot 2) @ drop l ?P"
  note B = tc_get_path_components_refines [OF ok(2)] and P = tc_get_path_components_refines [OF ok(3)]
  have oks: "\<forall>c \<in> set rel. slice_ok m c"
    using dd(2) components_slice_ok [OF ok(3)] by (auto simp: rel_def dest: in_set_dropD)
  have strs: "map (slice_str m) rel = rebase_comps (path_comps (slice_str m s)) (path_comps (slice_str m t))"
    using match_len_common [OF components_slice_ok [OF ok(2)] components_slice_ok [OF ok(3)]] dd(1)
    by (simp only: rel_def rebase_comps_def l_def map_append map_replicate drop_map length_map flip: B(1) P(1))
  have outs: "outside b c" if "c \<in> set rel" for c
  proof (cases "c \<in> set ?P")
    case True
    then show ?thesis using out(1) P(3) [OF True] by (auto simp: outside_def)
  next
    case False
    then show ?thesis using that out(2) by (auto simp: rel_def dest: in_set_dropD)
  qed
  then have cl: "clear_of b w rel" for w by (intro disjoint_clear) (auto simp: outside_def)
  have rest: "(if sz = 0 then (case buf_append_char m1 b1 CHR ''.'' of (r, m2, b2) \<Rightarrow> (c_int (sz + r), m2, b2))
        else (c_int sz, m1, b1)) = (n, m', b')"
    if "append_relative m b True 0 rel = (sz, m1, b1)"
      "int (sum_list (map sl_size rel)) + int (length rel) - 1 \<le> int (bf_capacity b) - int (bf_size b)" for sz m1 b1
  proof -
    have "c_int (int (sum_list (map sl_size rel)) + int (length rel) - 1) \<le> buf_remaining b"
      using that(2) room(2) ok(1) by (simp add: c_int_id buf_remaining_def buf_ok_def)
    then show ?thesis
      using r [unfolded tc_path_rebase_s_def Let_def, folded l_def, folded rel_def] that(1) by simp
  qed
  show ?thesis
  proof (cases "rel = []")
    case True
    then have x: "x = ''.''" using strs by (simp add: x_def rebase_text_def)
    obtain k where k: "buf_append_char m b CHR ''.'' = (k, m', b')" "n = c_int k"
      using rest [of 0 m b] True ok(1) by (auto simp: buf_ok_def split: prod.splits)
    have ap: "appends m b ''.'' k m' b'" by (rule buf_append_char_appends [OF ok(1) k(1)])
    show ?thesis using ap room k appends_ok [OF ap ok(1)] appends_outside [OF ap]
      by (auto simp: x appends_def c_int_id x_def [symmetric])
  next
    case False
    then have x: "x = sep_text True (map (slice_str m) rel)" using strs by (auto simp: x_def rebase_text_def sep_text_def)
    note tot = sep_text_total [OF oks False, folded x]
    obtain sz m1 b1 where ar: "append_relative m b True 0 rel = (sz, m1, b1)" by (cases "append_relative m b True 0 rel")
    have ac: "append_components m b True rel = (m1, b1)"
      using append_relative_components [of m b True 0 rel] ar by simp
    have spec: "buf_ok m1 b1 \<and> bf_data b1 = bf_data b \<and> bf_capacity b1 = bf_capacity b \<and> same_outside b m m1 \<and>
        buf_str m1 b1 = buf_str m b @ x \<and> bf_size b1 = bf_size b + length x"
      using append_components_spec [OF ok(1) oks _ cl ac] room(1) by (simp add: x x_def [symmetric])
    have sz: "sz = int (length x)"
      using append_relative_size [OF _ room(2) ar] tot room(1) spec by (simp add: x_def [symmetric])
    have "hd (map (slice_str m) rel) \<noteq> []"
      using False rebase_comps_nonempty [of "hd (map (slice_str m) rel)" "slice_str m s" "slice_str m t"]
      by (simp add: hd_map flip: strs)
    then have "x \<noteq> []" using join_slash_first [of "map (slice_str m) rel"] False by (simp add: x sep_text_def)
    then show ?thesis using rest [OF ar] tot room spec sz by (auto simp: c_int_id x_def [symmetric])
  qed
qed

lemma path_comps_abs: "is_abs p \<Longrightarrow> path_comps p = root_comps (names p)"
  by (simp add: path_comps_def)

lemma names_abs_normal: "is_abs p \<Longrightarrow> \<forall>w \<in> set (names p). normal w"
  using canonical_names [of p] by (simp add: canonical_abs)

lemma is_root_comps_abs:
  assumes ok: "slice_ok m s" and a: "is_abs (slice_str m s)"
  shows "is_root_comps m (tc_get_path_components m s) \<longleftrightarrow> names (slice_str m s) = []"
    "length (tc_get_path_components m s) = max 1 (length (names (slice_str m s)))"
proof -
  let ?c = "tc_get_path_components m s" and ?n = "names (slice_str m s)"
  have c: "map (slice_str m) ?c = root_comps ?n"
    using tc_get_path_components_refines(1) [OF ok] path_comps_abs [OF a] by simp
  have l: "length ?c = length (root_comps ?n)" using arg_cong [OF c, of length] by simp
  then show "length ?c = max 1 (length ?n)" by (cases ?n) auto
  have "slice_str m (?c ! 0) = root_comps ?n ! 0"
    using arg_cong [OF c, of "\<lambda>l. l ! 0"] l by (cases ?n) auto
  moreover have "\<forall>w \<in> set ?n. w \<noteq> []" using names_abs_normal [OF a] by (auto simp: normal_def)
  ultimately show "is_root_comps m ?c \<longleftrightarrow> ?n = []" using l by (cases ?n) (auto simp: is_root_comps_def)
qed

lemma slice_abs:
  assumes "slice_ok m s" "is_abs (slice_str m s)"
  shows "m ! sl_data s = SLASH" "0 < sl_size s"
proof -
  show pos: "0 < sl_size s" using assms(2) by (auto simp: is_abs_def slice_str_def intro: gr0I)
  show "m ! sl_data s = SLASH"
    using assms nth_bytes [OF pos, of "sl_data s" m]
    by (auto simp: is_abs_def slice_str_def slice_ok_def hd_conv_nth)
qed

text \<open>Between absolute paths the distance is the length of the way through the tree of names.\<close>

lemma tc_path_distance_tree:
  assumes s: "slice_ok m s" "is_abs (slice_str m s)" "sl_size s < 2 ^ 30"
    and t: "slice_ok m t" "is_abs (slice_str m t)" "sl_size t < 2 ^ 30"
  shows "tc_path_distance_s m s t = int (tree_dist (names (slice_str m s)) (names (slice_str m t)))"
proof -
  let ?S = "names (slice_str m s)" and ?T = "names (slice_str m t)"
  let ?cs = "tc_get_path_components m s" and ?ct = "tc_get_path_components m t"
  have len: "length (slice_str m s) = sl_size s" "length (slice_str m t) = sl_size t"
    using s t by (auto simp: slice_str_def slice_ok_def length_bytes)
  then have small: "length ?S < 2 ^ 31" "length ?T < 2 ^ 31"
    using names_length [of "slice_str m s"] names_length [of "slice_str m t"] s(3) t(3) by auto
  note cs = is_root_comps_abs [OF s(1,2)] and ct = is_root_comps_abs [OF t(1,2)]
  have ci: "c_int (int (length ?cs)) = int (length ?cs)" "c_int (int (length ?ct)) = int (length ?ct)"
    using small cs(2) ct(2) by (auto intro!: c_int_id)
  have l: "match_len m ?cs ?ct = (if ?S = [] \<and> ?T = [] then 1 else common_len ?S ?T)"
    using match_len_common [OF components_slice_ok [OF s(1)] components_slice_ok [OF t(1)]]
      tc_get_path_components_refines(1) [OF s(1)] tc_get_path_components_refines(1) [OF t(1)]
      path_comps_abs [OF s(2)] path_comps_abs [OF t(2)]
      common_len_root [OF names_abs_normal [OF s(2)] names_abs_normal [OF t(2)]] by simp
  have le: "common_len ?S ?T \<le> length ?S" "common_len ?S ?T \<le> length ?T" using common_len_le [of ?S ?T] by auto
  show ?thesis
  proof (cases "?S = [] \<or> ?T = []")
    case True
    then show ?thesis using slice_abs(1) [OF t(1,2)] cs ct ci le
      by (auto simp: tc_path_distance_s_def Let_def tree_dist_def max_def Suc_le_eq)
  next
    case False
    then have "length ?cs = length ?S" "length ?ct = length ?T" using cs(2) ct(2) by (auto simp: max_def Suc_le_eq)
    then show ?thesis using False slice_abs(1) [OF t(1,2)] cs(1) ct(1) ci le l
      by (simp add: tc_path_distance_s_def Let_def tree_dist_def)
  qed
qed

section \<open>Taking a path apart\<close>

lemma bytes_replicate:
  "p + n \<le> length m \<Longrightarrow> \<forall>j < n. m ! (p + j) = c \<Longrightarrow> bytes m p n = replicate n c"
  by (rule nth_equalityI) (auto simp: length_bytes nth_bytes)

lemma slice_rstrip_str:
  assumes "slice_ok m s"
  shows "slice_str m s = slice_str m (slice_rstrip m s c) @ replicate (sl_size s - sl_size (slice_rstrip m s c)) c"
    "sl_data (slice_rstrip m s c) = sl_data s" "sl_size (slice_rstrip m s c) \<le> sl_size s"
proof -
  let ?k = "rstrip_size m (sl_data s) c (sl_size s)"
  have k: "?k \<le> sl_size s" by (rule rstrip_size_le)
  have "bytes m (sl_data s + ?k) (sl_size s - ?k) = replicate (sl_size s - ?k) c"
    by (rule bytes_replicate) (use assms k rstrip_size_skipped [of m "sl_data s" c "sl_size s"] in \<open>auto simp: slice_ok_def add.assoc\<close>)
  then show "slice_str m s = slice_str m (slice_rstrip m s c) @ replicate (sl_size s - sl_size (slice_rstrip m s c)) c"
    using bytes_append [of "sl_data s" ?k "sl_size s - ?k" m] k assms by (simp add: slice_str_def slice_rstrip_def slice_ok_def)
qed (simp_all add: slice_rstrip_def rstrip_size_le)

lemma slice_rindex_str:
  assumes ok: "slice_ok m s" and r: "slice_rindex m s c = i"
  shows "i < 0 \<longleftrightarrow> c \<notin> set (slice_str m s)"
    "0 \<le> i \<Longrightarrow> nat i < sl_size s \<and> m ! (sl_data s + nat i) = c \<and>
      c \<notin> set (bytes m (sl_data s + nat i + 1) (sl_size s - nat i - 1)) \<and>
      slice_str m s = bytes m (sl_data s) (nat i) @ c # bytes m (sl_data s + nat i + 1) (sl_size s - nat i - 1)"
proof -
  have r': "rindex_from m (sl_data s) c (sl_size s) = i" using r by (simp add: slice_rindex_def)
  have str: "slice_str m s = bytes m (sl_data s) (sl_size s)" by (simp add: slice_str_def)
  show *: "nat i < sl_size s \<and> m ! (sl_data s + nat i) = c \<and>
      c \<notin> set (bytes m (sl_data s + nat i + 1) (sl_size s - nat i - 1)) \<and>
      slice_str m s = bytes m (sl_data s) (nat i) @ c # bytes m (sl_data s + nat i + 1) (sl_size s - nat i - 1)"
    if "0 \<le> i"
  proof -
    have hit: "nat i < sl_size s" "m ! (sl_data s + nat i) = c" "\<And>j. nat i < j \<Longrightarrow> j < sl_size s \<Longrightarrow> m ! (sl_data s + j) \<noteq> c"
      using rindex_from_hit [of m "sl_data s" c "sl_size s" "nat i"] r' that by auto
    have "c \<notin> set (bytes m (sl_data s + nat i + 1) (sl_size s - nat i - 1))"
    proof
      assume "c \<in> set (bytes m (sl_data s + nat i + 1) (sl_size s - nat i - 1))"
      then obtain k where "k < sl_size s - nat i - 1" "m ! (sl_data s + (nat i + 1 + k)) = c"
        using ok hit(1) by (auto simp: in_set_conv_nth length_bytes nth_bytes slice_ok_def add.assoc)
      then show False using hit(3) [of "nat i + 1 + k"] by force
    qed
    moreover have "slice_str m s = bytes m (sl_data s) (nat i) @ c # bytes m (sl_data s + nat i + 1) (sl_size s - nat i - 1)"
      using bytes_append [of "sl_data s" "Suc (nat i)" "sl_size s - nat i - 1" m] bytes_Suc [of "sl_data s" "nat i" m] hit ok str
      by (simp add: slice_ok_def)
    ultimately show ?thesis using hit by blast
  qed
  show "i < 0 \<longleftrightarrow> c \<notin> set (slice_str m s)"
  proof
    assume "i < 0"
    then have "m ! (sl_data s + j) \<noteq> c" if "j < sl_size s" for j using rindex_from_miss that r' by blast
    then show "c \<notin> set (slice_str m s)" using ok str by (auto simp: in_set_conv_nth length_bytes nth_bytes slice_ok_def)
  next
    assume "c \<notin> set (slice_str m s)"
    then show "i < 0" using * by (metis in_set_conv_decomp not_less)
  qed
qed

lemma tc_path_dir_base_cases:
  assumes ok: "slice_ok m s" and ne: "0 < sl_size s" and r: "tc_path_dir_base_s m s = (b, dir, base)"
  shows "norm_path (slash_cat (slice_str m dir) (slice_str m base)) = norm_path (slice_str m s) \<and>
    SLASH \<notin> set (slice_str m base) \<and> (b \<longleftrightarrow> slice_str m dir \<noteq> [])"
proof -
  define t where "t = slice_rstrip m s SLASH"
  note t = slice_rstrip_str [OF ok, of SLASH, folded t_def]
  have okt: "slice_ok m t" using ok t(2,3) by (simp add: slice_ok_def)
  define i where "i = slice_rindex m t SLASH"
  note ri = slice_rindex_str [OF okt i_def [symmetric]]
  have lt: "length (slice_str m t) = sl_size t" using okt by (simp add: slice_str_def slice_ok_def length_bytes)
  show ?thesis
  proof (cases "sl_size t = 0")
    case True
    then have all: "slice_str m s = replicate (Suc (sl_size s - 1)) SLASH" using t(1) lt ne by simp
    then have first: "m ! sl_data t = SLASH"
      using nth_bytes [OF ne, of "sl_data s" m] ok t(2) by (simp add: slice_str_def slice_ok_def)
    have "b" "dir = mkslice (sl_data t) 1" "base = mkslice NULL 0"
      using r ne True first by (auto simp: tc_path_dir_base_s_def t_def [symmetric] Let_def)
    moreover have "bytes m (sl_data t) 1 = [SLASH]"
      using bytes_Suc [of "sl_data t" 0 m] first ok ne t(2) by (simp add: slice_ok_def)
    ultimately show ?thesis unfolding all norm_path_slashes by (simp add: slice_str_def mkslice_def)
  next
    case False
    then have ts: "slice_str m t \<noteq> []" using lt by auto
    then have norm: "norm_path (slice_str m s) = norm_path (slice_str m t)" unfolding t(1) by (rule norm_path_trailing)
    show ?thesis
    proof (cases "i < 0")
      case True
      then have "\<not> b" "dir = mkslice NULL 0" "base = mkslice (sl_data t) (sl_size t)"
        using r ne False by (auto simp: tc_path_dir_base_s_def t_def [symmetric] i_def [symmetric] Let_def)
      then show ?thesis using norm ri(1) True by (simp add: slice_str_def mkslice_def)
    next
      case pos: False
      then have d: "b" "dir = mkslice (sl_data t) (if i = 0 then 1 else nat i)"
          "base = mkslice (sl_data t + nat i + 1) (sl_size t - nat i - 1)"
        using r ne False by (auto simp: tc_path_dir_base_s_def t_def [symmetric] i_def [symmetric] Let_def)
      note hit = ri(2) [OF leI [OF pos]]
      have bs: "slice_str m base = bytes m (sl_data t + nat i + 1) (sl_size t - nat i - 1)"
        using d(3) by (simp add: slice_str_def mkslice_def)
      have ds: "slice_str m dir = (if i = 0 then [SLASH] else bytes m (sl_data t) (nat i))"
        using d(2) hit bytes_Suc [of "sl_data t" 0 m] okt by (auto simp: slice_str_def mkslice_def slice_ok_def)
      have "length (bytes m (sl_data t) (nat i)) = nat i" using hit okt by (simp add: length_bytes slice_ok_def)
      then have dne: "slice_str m dir \<noteq> []" using ds pos by (auto simp: bytes_0)
      have "nat i \<noteq> sl_size t - 1"
        using hit rstrip_size_stop [of m "sl_data s" SLASH "sl_size s"] by (auto simp: t_def slice_rstrip_def)
      then have "length (slice_str m base) > 0" using hit okt by (simp add: bs length_bytes slice_ok_def) linarith
      then have bne: "slice_str m base \<noteq> []" by auto
      have "norm_path (slash_cat (slice_str m dir) (slice_str m base)) = norm_path (slice_str m t)"
        using hit bs ds dne bne norm_path_double by (auto simp: slash_cat_def)
      then show ?thesis using norm dne hit bs d(1) by simp
    qed
  qed
qed

section \<open>Memory safety without any size assumption\<close>

lemma append_components_outside:
  assumes "buf_ok m b" "\<forall>c \<in> set cs. slice_ok m c" "append_components m b first cs = (m', b')"
  shows "same_outside b m m' \<and> bf_data b' = bf_data b \<and> bf_capacity b' = bf_capacity b \<and> buf_ok m' b'"
  using assms
proof (induction cs arbitrary: m b first)
  case (Cons c cs)
  obtain m1 b1 where 1: "(if \<not> first then snd (buf_append_char m b SLASH) else (m, b)) = (m1, b1)"
    by (cases "if \<not> first then snd (buf_append_char m b SLASH) else (m, b)")
  obtain r2 m2 b2 where 2: "buf_append_slice m1 b1 c = (r2, m2, b2)" by (cases "buf_append_slice m1 b1 c")
  have a1: "(first \<and> m1 = m \<and> b1 = b) \<or> (\<exists>r. appends m b [SLASH] r m1 b1)"
    using 1 buf_append_char_appends [OF Cons.prems(1), of SLASH] by (cases "buf_append_char m b SLASH") (auto split: if_splits)
  then have b1: "same_outside b m m1" "buf_ok m1 b1" "bf_data b1 = bf_data b" "bf_capacity b1 = bf_capacity b"
    using Cons.prems(1) by (auto dest: appends_ok appends_outside appends_frame)
  have ok1: "slice_ok m1 d" if "slice_ok m d" for d
    using that same_outside_length [OF b1(1)] by (simp add: slice_ok_def)
  have a2: "appends m1 b1 (slice_str m1 c) r2 m2 b2"
    using buf_append_slice_appends [OF b1(2) ok1 2] Cons.prems(2) by simp
  note b2 = appends_outside [OF a2] appends_ok [OF a2 b1(2)]
  have "\<forall>d \<in> set cs. slice_ok m2 d"
    using Cons.prems(2) ok1 same_outside_length [OF b2(1)] by (auto simp: slice_ok_def)
  then have "same_outside b2 m2 m' \<and> bf_data b' = bf_data b2 \<and> bf_capacity b' = bf_capacity b2 \<and> buf_ok m' b'"
    using Cons.IH [OF b2(2), of False] Cons.prems(3) 1 2 by simp
  moreover note appends_frame [OF a2]
  ultimately show ?case using b1 b2(1) by (metis same_outside_trans)
qed simp

lemma tc_path_normalize_outside:
  assumes p: "cstring_at m path p" and room: "buf + buf_size \<le> length m"
    and r: "tc_path_normalize m path buf buf_size = (n, m')"
  shows "writes_only m m' buf (buf + buf_size)"
proof (cases "path = NULL \<or> strnlen m path TC_PATH_MAX \<ge> TC_PATH_MAX \<or> buf_size \<le> 1")
  case True
  then show ?thesis using r by (auto simp: tc_path_normalize_def)
next
  case False
  define s where "s = mkslice path (strnlen m path TC_PATH_MAX)"
  define b where "b = mkbuf buf buf_size"
  obtain m1 b1 where 1: "tc_path_normalize_s m s b = (n, m1, b1)" "m' = fst (snd (buf_append_null m1 b1))"
    using r False by (auto simp: tc_path_normalize_def s_def b_def split: prod.splits)
  have oks: "slice_ok m s" using p strnlen_cstring [OF p, of TC_PATH_MAX]
    by (auto simp: s_def slice_ok_def mkslice_def cstring_at_def min_def)
  have okb: "buf_ok m b" using room by (simp add: buf_ok_def b_def mkbuf_def)
  have "same_outside b m m1 \<and> bf_data b1 = bf_data b \<and> bf_capacity b1 = bf_capacity b \<and> buf_ok m1 b1"
  proof (cases "tc_get_path_components m s = []")
    case True
    then obtain k where "buf_append_char m b CHR ''.'' = (k, m1, b1)"
      using 1(1) by (auto simp: tc_path_normalize_s_def split: prod.splits)
    then have ap: "appends m b ''.'' k m1 b1" by (rule buf_append_char_appends [OF okb])
    then show ?thesis using appends_outside [OF ap] appends_ok [OF ap okb] by (auto simp: appends_def)
  next
    case False
    then show ?thesis using 1(1) append_components_outside [OF okb components_slice_ok [OF oks]]
      by (auto simp: tc_path_normalize_s_def split: prod.splits)
  qed
  moreover obtain k b2 where "buf_append_null m1 b1 = (k, m', b2)" using 1(2) by (cases "buf_append_null m1 b1") auto
  ultimately show ?thesis using buf_append_null_spec(3) [of m1 b1 k m' b2]
    by (auto simp: same_outside_def b_def mkbuf_def intro: writes_only_trans)
qed

lemma toslice_of_cstring:
  assumes "cstring_at m p s" "p \<noteq> NULL"
  shows "toslice m p = mkslice p (length s)"
  using strlen_cstring [OF assms(1)] assms(2) by (simp add: toslice_def mkslice_def)

lemma tc_path_rebase_correct:
  assumes b: "cstring_at m base b" "base \<noteq> NULL" and p: "cstring_at m path p" "path \<noteq> NULL"
    and dd: "cstring_at m dotdot ''..''"
    and room: "buf + buf_size \<le> length m" "length (rebase_text b p) < buf_size" "buf_size < 2 ^ 31"
    and place: "path + length p \<le> buf \<or> buf + buf_size \<le> path" "dotdot + 2 \<le> buf \<or> buf + buf_size \<le> dotdot"
    and r: "tc_path_rebase dotdot m base path buf buf_size = (n, m')"
  shows "n = int (length (rebase_text b p)) \<and> cstring_at m' buf (rebase_text b p) \<and> writes_only m m' buf (buf + buf_size)"
proof -
  define bf where "bf = mkbuf buf buf_size"
  note sb = slice_of_cstring [OF b(1)] and sp = slice_of_cstring [OF p(1)] and sd = slice_of_cstring [OF dd, simplified]
  have f: "bf_data bf = buf" "bf_capacity bf = buf_size" "bf_size bf = 0" "buf_ok m bf" "buf_str m bf = []"
    using room(1) by (simp_all add: bf_def mkbuf_def buf_ok_def buf_str_def)
  have out: "outside bf (mkslice path (length p))" "outside bf (mkslice dotdot 2)"
    using place f by (auto simp: outside_def mkslice_def)
  obtain m1 b1 where 1: "tc_path_rebase_s dotdot m (mkslice base (length b)) (mkslice path (length p)) bf = (n, m1, b1)"
      "m' = fst (snd (buf_append_null m1 b1))"
    using r by (auto simp: tc_path_rebase_def bf_def toslice_of_cstring [OF b] toslice_of_cstring [OF p] split: prod.splits)
  have sd': "slice_str m (mkslice dotdot 2) = ''..''" "slice_ok m (mkslice dotdot 2)" using sd by (simp_all add: numeral_2_eq_2)
  have 2: "n = int (length (rebase_text b p))" "buf_ok m1 b1" "bf_data b1 = buf" "bf_capacity b1 = buf_size"
      "same_outside bf m m1" "buf_str m1 b1 = rebase_text b p" "bf_size b1 = length (rebase_text b p)"
    using tc_path_rebase_s_spec [OF f(4) sb(2) sp(2) sd' out _ _ 1(1)] room f unfolding sb(1) sp(1) by auto
  obtain k b2 where k: "buf_append_null m1 b1 = (k, m', b2)" using 1(2) by (cases "buf_append_null m1 b1") auto
  have as: "asstr m1 b1 = (buf, m', b1)"
    using k buf_append_null_spec [OF 2(2) k] room(2) 2(3,4,7) by (auto simp: asstr_def)
  have nn: "NUL \<notin> set (buf_str m1 b1)" using rebase_text_chars [of b p] p(1) 2(6) by (auto simp: cstring_at_def)
  have "cstring_at m' buf (rebase_text b p)" "same_outside b1 m1 m'"
    using asstr_cstring [OF 2(2) _ as nn] room(2) 2(4,6,7) by auto
  then show ?thesis using 2 f by (auto simp: same_outside_def intro: writes_only_trans)
qed

section \<open>Properties\<close>

text \<open>
  C5: \<open>tc_path_normalize\<close> writes the normal form of the path, terminated, and returns its length,
  also when it rewrites a path in place (or to any address below it); the result has the same
  components as the input, normalising it again changes nothing, and no byte outside the buffer
  is touched.
\<close>

theorem tc_path_normalize_in_place:
  assumes "cstring_at m path p" "path \<noteq> NULL" "length p < TC_PATH_MAX"
    and "buf + buf_size \<le> length m" "1 < buf_size" "length (norm_path p) < buf_size" "buf_size < 2 ^ 31"
    and "buf \<le> path \<or> path + length p \<le> buf"
    and "tc_path_normalize m path buf buf_size = (n, m')"
  shows "n = int (length (norm_path p)) \<and> cstring_at m' buf (norm_path p) \<and>
    path_comps (norm_path p) = path_comps p \<and> norm_path (norm_path p) = norm_path p \<and>
    writes_only m m' buf (buf + buf_size)"
  using tc_path_normalize_correct [OF assms] path_comps_norm norm_path_idem by blast

lemma tc_path_normalize_in_place_witness:
  "cstring_at (snd (tc_path_normalize (''x/a/./../b//'' @ [NUL, NUL]) 1 1 13)) 1 ''/b''"
proof -
  let ?m = "''x/a/./../b//'' @ [NUL, NUL]"
  have n: "norm_path ''/a/./../b//'' = ''/b''" by code_simp
  have "cstring_at ?m 1 ''/a/./../b//''" by code_simp
  then show ?thesis
    using tc_path_normalize_in_place [of ?m 1 "''/a/./../b//''" 1 13 "fst (tc_path_normalize ?m 1 1 13)"
        "snd (tc_path_normalize ?m 1 1 13)"]
    by (simp add: n TC_PATH_MAX_def)
qed

text \<open>
  whatever the path and however small the buffer, \<open>tc_path_normalize\<close> writes only inside the
  buffer it is given.
\<close>

theorem tc_path_normalize_safe:
  assumes "cstring_at m path p" "buf + buf_size \<le> length m" "tc_path_normalize m path buf buf_size = (n, m')"
  shows "writes_only m m' buf (buf + buf_size)"
  using assms by (rule tc_path_normalize_outside)

lemma tc_path_normalize_safe_witness:
  "writes_only (''x/abc'' @ [NUL]) (snd (tc_path_normalize (''x/abc'' @ [NUL]) 1 2 2)) 2 4"
proof -
  let ?m = "''x/abc'' @ [NUL]"
  have "cstring_at ?m 1 ''/abc''" by code_simp
  then show ?thesis
    using tc_path_normalize_safe [of ?m 1 "''/abc''" 2 2 "fst (tc_path_normalize ?m 1 2 2)" "snd (tc_path_normalize ?m 1 2 2)"]
    by simp
qed

text \<open>
  C27: \<open>tc_path_join\<close> of two paths outside the buffer, not both empty, leaves in the buffer the
  normal form of \<open>path1/path2\<close> and returns its length.
\<close>

theorem tc_path_join_normal:
  assumes "cstring_at m path1 p1" "cstring_at m path2 p2" "length p1 < TC_PATH_MAX" "length p2 < TC_PATH_MAX"
    and "p1 \<noteq> [] \<or> p2 \<noteq> []"
    and "buf + buf_size \<le> length m" "length p1 + length p2 + 2 < buf_size" "buf_size < 2 ^ 31"
    and "length p1 + length p2 + 1 < TC_PATH_MAX" "buf \<noteq> NULL"
    and "path1 + length p1 \<le> buf \<or> buf + buf_size \<le> path1" "path2 + length p2 \<le> buf \<or> buf + buf_size \<le> path2"
    and "tc_path_join m path1 path2 buf buf_size = (n, m')"
  shows "n = int (length (norm_path (slash_cat p1 p2))) \<and> cstring_at m' buf (norm_path (slash_cat p1 p2)) \<and>
    writes_only m m' buf (buf + buf_size)"
  using assms by (rule tc_path_join_correct)

lemma tc_path_join_normal_witness:
  "cstring_at (snd (tc_path_join (''x/a'' @ NUL # ''..b'' @ NUL # ''..........'') 1 4 8 10)) 8 ''/a/..b''"
proof -
  let ?m = "''x/a'' @ NUL # ''..b'' @ NUL # ''..........''"
  have n: "norm_path (slash_cat ''/a'' ''..b'') = ''/a/..b''" by code_simp
  have "cstring_at ?m 1 ''/a''" "cstring_at ?m 4 ''..b''" by code_simp+
  then show ?thesis
    using tc_path_join_normal [of ?m 1 "''/a''" 4 "''..b''" 8 10 "fst (tc_path_join ?m 1 4 8 10)" "snd (tc_path_join ?m 1 4 8 10)"]
    by (simp add: n TC_PATH_MAX_def)
qed

text \<open>
  the exception: joining two empty paths returns 1, the length of \<open>.\<close>, but leaves the empty
  string, because the final terminator is written at the size the buffer had before normalisation.
\<close>

theorem tc_path_join_empty:
  "tc_path_join (''x'' @ [NUL] @ ''....'') 1 1 2 4 = (1, ''x'' @ [NUL, NUL, NUL] @ ''..'')"
  by code_simp

text \<open>
  C23: \<open>tc_path_rebase\<close> of two absolute paths writes a path that, followed from the base, names
  the same file as the path it was given.
\<close>

theorem tc_path_rebase_leads_back:
  assumes "cstring_at m base b" "base \<noteq> NULL" "cstring_at m path p" "path \<noteq> NULL" "cstring_at m dotdot ''..''"
    and "is_abs b" "is_abs p"
    and "buf + buf_size \<le> length m" "length (rebase_text b p) < buf_size" "buf_size < 2 ^ 31"
    and "path + length p \<le> buf \<or> buf + buf_size \<le> path" "dotdot + 2 \<le> buf \<or> buf + buf_size \<le> dotdot"
    and "tc_path_rebase dotdot m base path buf buf_size = (n, m')"
  shows "\<exists>q. n = int (length q) \<and> cstring_at m' buf q \<and> norm_path (b @ SLASH # q) = norm_path p \<and>
    writes_only m m' buf (buf + buf_size)"
  using tc_path_rebase_correct [OF assms(1-5,8-13)] rebase_text_leads [OF assms(6,7)] assms(6,7)
  by (intro exI [of _ "rebase_text b p"]) (simp add: norm_path_def path_comps_def)

lemma tc_path_rebase_leads_back_witness:
  "cstring_at (snd (tc_path_rebase 1 (''x..'' @ NUL # ''/a/b'' @ NUL # ''/a/c'' @ NUL # ''........'') 4 9 14 8)) 14 ''../c''"
proof -
  let ?m = "''x..'' @ NUL # ''/a/b'' @ NUL # ''/a/c'' @ NUL # ''........''"
  let ?r = "tc_path_rebase 1 ?m 4 9 14 8"
  have v: "rebase_text ''/a/b'' ''/a/c'' = ''../c''" by code_simp
  have c: "cstring_at ?m 1 ''..''" "cstring_at ?m 4 ''/a/b''" "cstring_at ?m 9 ''/a/c''" by code_simp+
  have ev: "?r = (4, ''x..'' @ NUL # ''/a/b'' @ NUL # ''/a/c'' @ NUL # ''../c'' @ NUL # ''...'')" by code_simp
  obtain q where q: "fst ?r = int (length q)" "cstring_at (snd ?r) 14 q"
    using tc_path_rebase_leads_back [of ?m 4 "''/a/b''" 9 "''/a/c''" 1 14 8 "fst ?r" "snd ?r"] c
    by (auto simp: v is_abs_def)
  have "length q = 4" using q(1) unfolding ev by simp
  moreover have "bytes (snd ?r) 14 (length q) = q" by (rule bytes_cstring [OF q(2)])
  ultimately have "q = ''../c''" unfolding ev by (simp add: bytes_def)
  then show ?thesis using q(2) by simp
qed

text \<open>
  C26: on absolute paths \<open>tc_path_distance_s\<close> is a metric: it is zero exactly between paths with
  the same normal form, it is symmetric, and no detour is shorter.
\<close>

theorem tc_path_distance_metric:
  assumes "\<forall>s \<in> {a, b, c}. slice_ok m s \<and> is_abs (slice_str m s) \<and> sl_size s < 2 ^ 30"
  shows "(tc_path_distance_s m a b = 0 \<longleftrightarrow> norm_path (slice_str m a) = norm_path (slice_str m b)) \<and>
    tc_path_distance_s m a b = tc_path_distance_s m b a \<and>
    tc_path_distance_s m a c \<le> tc_path_distance_s m a b + tc_path_distance_s m b c"
proof -
  have n: "norm_path (slice_str m a) = norm_path (slice_str m b) \<longleftrightarrow> names (slice_str m a) = names (slice_str m b)"
  proof
    assume "norm_path (slice_str m a) = norm_path (slice_str m b)"
    from arg_cong [OF this, of names] show "names (slice_str m a) = names (slice_str m b)" by (simp only: names_norm)
  next
    assume "names (slice_str m a) = names (slice_str m b)"
    then show "norm_path (slice_str m a) = norm_path (slice_str m b)" using assms by (simp add: norm_path_abs)
  qed
  show ?thesis
    using assms tree_dist_triangle [of "names (slice_str m a)" "names (slice_str m c)" "names (slice_str m b)"]
    by (simp add: tc_path_distance_tree n tree_dist_zero tree_dist_sym [of "names (slice_str m b)" "names (slice_str m a)"])
qed

lemma tc_path_distance_metric_witness:
  "tc_path_distance_s ''/a/b/c'' (mkslice 0 6) (mkslice 0 2) = tc_path_distance_s ''/a/b/c'' (mkslice 0 2) (mkslice 0 6)"
proof -
  have "\<forall>s \<in> {mkslice 0 6, mkslice 0 2, mkslice 0 6}.
      slice_ok ''/a/b/c'' s \<and> is_abs (slice_str ''/a/b/c'' s) \<and> sl_size s < 2 ^ 30"
    by (simp add: mkslice_def slice_ok_def slice_str_def bytes_def is_abs_def)
  from tc_path_distance_metric [OF this] show ?thesis by blast
qed

text \<open>
  \<open>tc_path_dir_base_s\<close> takes a non-empty path apart so that joining the two parts gives a path
  with the same normal form; the base has no slash; and it returns true exactly if there is a
  directory part.
\<close>

theorem tc_path_dir_base_rejoin:
  assumes "slice_ok m s" "0 < sl_size s" "tc_path_dir_base_s m s = (b, dir, base)"
  shows "norm_path (slash_cat (slice_str m dir) (slice_str m base)) = norm_path (slice_str m s) \<and>
    SLASH \<notin> set (slice_str m base) \<and> (b \<longleftrightarrow> slice_str m dir \<noteq> [])"
  using assms by (rule tc_path_dir_base_cases)

lemma tc_path_dir_base_rejoin_witness:
  "norm_path (slash_cat ''/a'' ''b'') = norm_path ''/a/b//''"
proof -
  have e: "tc_path_dir_base_s ''/a/b//'' (mkslice 0 6) = (True, mkslice 0 2, mkslice 3 1)" by code_simp
  have o: "slice_ok ''/a/b//'' (mkslice 0 6)" "0 < sl_size (mkslice 0 6)" by code_simp+
  show ?thesis using tc_path_dir_base_rejoin [OF o e] by (simp add: slice_str_def mkslice_def bytes_def)
qed

end
