(* ===== verification/Session_Slots.thy ===== *)
theory Session_Slots
  imports Common_Types
begin

text \<open>
  The NFSv4.1 client's session slot table (\<^verbatim>\<open>nfs4/session_slots.c\<close>): which slots of the
  session are in use, the sequence number each slot sends next, and the slot limits the server
  announces.  Every operation runs under the table's mutex, so each is one atomic step;
  a caller of \<open>alloc_session_slot\<close> that finds no slot waits on the condition variable, which
  the model shows as the result \<open>None\<close>; a failed assertion of \<open>free_session_slot\<close> is \<open>None\<close>, too.  The last section lets any number of threads
  allocate and free slots in any order and proves that slots are exclusive and that the sequence
  numbers count the requests sent.
\<close>

section \<open>The slot table\<close>

definition SESSION_SLOT_TABLE_CAPACITY :: nat where
  "SESSION_SLOT_TABLE_CAPACITY = 128"

record session_slot_table =
  slots :: "u32 list"
  highest_used_slotid_plus1 :: u32
  server_highest_slotid :: u32
  target_highest_slotid :: u32
  free_slots :: bitset_t

text \<open>The argument says whether \<open>malloc\<close> returned memory for the table.\<close>

definition new_session_slot_table :: "bool \<Rightarrow> session_slot_table option" where
  "new_session_slot_table malloc_ok =
     (if \<not> malloc_ok then None
      else Some \<lparr>slots = replicate SESSION_SLOT_TABLE_CAPACITY 1,
                 highest_used_slotid_plus1 = 0,
                 server_highest_slotid = of_nat (SESSION_SLOT_TABLE_CAPACITY - 1),
                 target_highest_slotid = of_nat (SESSION_SLOT_TABLE_CAPACITY - 1),
                 free_slots = bs_set_all (new_bitset SESSION_SLOT_TABLE_CAPACITY)\<rparr>)"

text \<open>
  The result is the slot, the sequence number to send and the highest slot in use; \<open>None\<close>
  says that the caller has to wait.
\<close>

definition alloc_session_slot ::
  "session_slot_table \<Rightarrow> (int \<times> u32 \<times> u32 \<times> session_slot_table) option" where
  "alloc_session_slot sst =
     (let slotid = bs_ffs (free_slots sst)
      in if slotid = -1 \<or> word_of_int slotid > target_highest_slotid sst then None
         else
           let fs = bs_reset (free_slots sst) (nat slotid);
               hi = (if word_of_int slotid \<ge> highest_used_slotid_plus1 sst
                     then word_of_int (slotid + 1) else highest_used_slotid_plus1 sst)
           in Some (slotid, slots sst ! nat slotid, hi - 1,
                    sst\<lparr>free_slots := fs, highest_used_slotid_plus1 := hi\<rparr>))"

text \<open>
  The downward scan of \<open>free_session_slot\<close>: the argument is the index under test plus one,
  and so is the result.
\<close>

fun highest_used_below :: "bitset_t \<Rightarrow> nat \<Rightarrow> nat" where
  "highest_used_below fs 0 = 0"
| "highest_used_below fs (Suc s) = (if bs_get fs s then highest_used_below fs s else Suc s)"

text \<open>
  The result says whether a waiting thread is signalled; \<open>None\<close> is a failed assertion, that the slot is in
  use or that the server accepts the highest slot in use, or a sequence number outside the array.
\<close>

definition free_session_slot ::
  "session_slot_table \<Rightarrow> nat \<Rightarrow> u32 \<Rightarrow> u32 \<Rightarrow> bool \<Rightarrow> (bool \<times> session_slot_table) option" where
  "free_session_slot sst slotid server_highest target_highest sent =
     (if bs_get (free_slots sst) slotid then None
      else
        let fs = bs_set (free_slots sst) slotid;
            hi = (if of_nat slotid + 1 = highest_used_slotid_plus1 sst
                  then of_nat (highest_used_below fs slotid) else highest_used_slotid_plus1 sst);
            sst1 = sst\<lparr>free_slots := fs, highest_used_slotid_plus1 := hi\<rparr>;
            signal = (of_nat slotid \<le> target_highest)
        in if \<not> sent then Some (signal, sst1)
           else if server_highest + 1 < hi \<or> length (slots sst) \<le> slotid then None
           else Some (signal, sst1\<lparr>server_highest_slotid := server_highest,
                                   target_highest_slotid := target_highest,
                                   slots := (slots sst1)[slotid := slots sst1 ! slotid + 1]\<rparr>))"

definition get_slot_sequence :: "session_slot_table \<Rightarrow> nat \<Rightarrow> u32" where
  "get_slot_sequence sst slotid = slots sst ! slotid"

text \<open>
  Destroying the table asserts that no slot is in use: the outer \<open>None\<close> is the failed assertion, the
  inner one the pointer reset to NULL.
\<close>

definition del_session_slot_table :: "session_slot_table option \<Rightarrow> session_slot_table option option" where
  "del_session_slot_table sst =
     (case sst of None \<Rightarrow> Some None
      | Some t \<Rightarrow> if highest_used_slotid_plus1 t = 0 then Some None else None)"

section \<open>The invariant\<close>

definition used :: "session_slot_table \<Rightarrow> nat \<Rightarrow> bool" where
  "used sst i \<longleftrightarrow> i < SESSION_SLOT_TABLE_CAPACITY \<and> \<not> bs_get (free_slots sst) i"

definition highest_ok :: "session_slot_table \<Rightarrow> bool" where
  "highest_ok sst \<longleftrightarrow>
     (\<forall>i. used sst i \<longrightarrow> i < unat (highest_used_slotid_plus1 sst)) \<and>
     (highest_used_slotid_plus1 sst \<noteq> 0 \<longrightarrow> used sst (unat (highest_used_slotid_plus1 sst) - 1))"

definition slots_inv :: "session_slot_table \<Rightarrow> bool" where
  "slots_inv sst \<longleftrightarrow> bs_ok (free_slots sst) \<and> bs_size (free_slots sst) = SESSION_SLOT_TABLE_CAPACITY \<and>
     length (slots sst) = SESSION_SLOT_TABLE_CAPACITY \<and> highest_ok sst"

lemma unat_slot [word_nat]: "i \<le> SESSION_SLOT_TABLE_CAPACITY \<Longrightarrow> unat (of_nat i :: u32) = i"
  by (simp add: SESSION_SLOT_TABLE_CAPACITY_def unat_of_nat)

lemma new_session_slot_table_inv:
  "new_session_slot_table ok = Some sst \<Longrightarrow> slots_inv sst \<and> (\<forall>i. \<not> used sst i)"
  by (auto simp: new_session_slot_table_def slots_inv_def highest_ok_def used_def bs_get_set_all
      new_bitset_def split: if_splits)

lemma slots_inv_cap: "slots_inv sst \<Longrightarrow> used sst i \<Longrightarrow> i < SESSION_SLOT_TABLE_CAPACITY"
  by (simp add: used_def)

text \<open>What an allocation that does not wait does.\<close>

lemma alloc_session_slot_SomeE:
  assumes inv: "slots_inv sst" and a: "alloc_session_slot sst = Some (slotid, seq, hi, sst')"
  obtains i where "slotid = int i" "i < SESSION_SLOT_TABLE_CAPACITY" "bs_get (free_slots sst) i"
    "\<forall>j < i. \<not> bs_get (free_slots sst) j" "of_nat i \<le> target_highest_slotid sst"
    "seq = slots sst ! i" "slots sst' = slots sst" "free_slots sst' = bs_reset (free_slots sst) i"
    "target_highest_slotid sst' = target_highest_slotid sst"
    "server_highest_slotid sst' = server_highest_slotid sst"
    "highest_used_slotid_plus1 sst' =
       (if of_nat i \<ge> highest_used_slotid_plus1 sst then of_nat (Suc i) else highest_used_slotid_plus1 sst)"
    "hi = highest_used_slotid_plus1 sst' - 1"
proof -
  have ok: "bs_ok (free_slots sst)" and sz: "bs_size (free_slots sst) = SESSION_SLOT_TABLE_CAPACITY"
    using inv by (auto simp: slots_inv_def)
  from a have nm: "bs_ffs (free_slots sst) \<noteq> -1" by (auto simp: alloc_session_slot_def Let_def)
  then obtain i where i: "bs_ffs (free_slots sst) = int i" using bs.least_range by blast
  have h: "bs_get (free_slots sst) i" "\<forall>j < i. \<not> bs_get (free_slots sst) j"
    using bs.least_hit [OF ok i] by auto
  have "i < SESSION_SLOT_TABLE_CAPACITY" using bs.has_cap [OF h(1)] sz by simp
  with a i h show ?thesis
    by (intro that [of i]) (auto simp: alloc_session_slot_def Let_def not_less add.commute split: if_splits)
qed

lemma used_alloc:
  assumes "slots_inv sst" "alloc_session_slot sst = Some (int i, seq, hi, sst')"
  shows "used sst' j \<longleftrightarrow> j = i \<or> used sst j"
  by (rule alloc_session_slot_SomeE [OF assms])
    (use assms(1) in \<open>auto simp: used_def slots_inv_def bs.has_del\<close>)

lemma alloc_highest:
  assumes inv: "slots_inv sst" and a: "alloc_session_slot sst = Some (int i, seq, hi, sst')"
  shows "highest_ok sst'"
proof -
  have u: "\<And>j. used sst' j \<longleftrightarrow> j = i \<or> used sst j" using used_alloc [OF inv a] .
  from inv a show ?thesis
  proof (rule alloc_session_slot_SomeE)
    fix k
    assume k: "int i = int k" "k < SESSION_SLOT_TABLE_CAPACITY"
      and hi: "highest_used_slotid_plus1 sst' =
        (if of_nat k \<ge> highest_used_slotid_plus1 sst then of_nat (Suc k) else highest_used_slotid_plus1 sst)"
    have w: "unat (of_nat k :: u32) = k" "unat (of_nat (Suc k) :: u32) = Suc k"
      using k(2) unat_slot [of k] unat_slot [of "Suc k"] by simp_all
    have old: "highest_ok sst" using inv by (simp add: slots_inv_def)
    show ?thesis
    proof (cases "of_nat k \<ge> highest_used_slotid_plus1 sst")
      case True
      then have "unat (highest_used_slotid_plus1 sst) \<le> k" by (simp add: word_le_nat_alt w)
      then show ?thesis using old True u k(1) w by (auto simp: highest_ok_def hi)
    next
      case False
      then have "k < unat (highest_used_slotid_plus1 sst)" by (simp add: word_le_nat_alt w not_le)
      then show ?thesis using old False u k(1) by (auto simp: highest_ok_def hi)
    qed
  qed
qed

lemma alloc_session_slot_inv:
  assumes inv: "slots_inv sst" and a: "alloc_session_slot sst = Some (slotid, seq, hi, sst')"
  shows "slots_inv sst'"
proof -
  from inv a obtain i where i: "slotid = int i" by (rule alloc_session_slot_SomeE)
  have "highest_ok sst'" using alloc_highest [OF inv] a i by blast
  then show ?thesis
    by (rule_tac alloc_session_slot_SomeE [OF inv a]) (use inv in \<open>simp add: slots_inv_def\<close>)
qed

lemma highest_used_below_spec:
  "(\<forall>j. highest_used_below fs n \<le> j \<and> j < n \<longrightarrow> bs_get fs j) \<and> highest_used_below fs n \<le> n \<and>
   (highest_used_below fs n \<noteq> 0 \<longrightarrow> \<not> bs_get fs (highest_used_below fs n - 1))"
  by (induction n) (auto simp: less_Suc_eq)

lemma used_free:
  assumes "slots_inv sst" "used sst i" "free_session_slot sst i sh th sent = Some (sig, sst')"
  shows "used sst' j \<longleftrightarrow> j \<noteq> i \<and> used sst j"
  using assms by (auto simp: free_session_slot_def Let_def used_def slots_inv_def bs.has_put split: if_splits)

lemma free_highest:
  assumes inv: "slots_inv sst" and us: "used sst i"
    and f: "free_session_slot sst i sh th sent = Some (sig, sst')"
  shows "highest_ok sst'"
proof -
  let ?h = "highest_used_slotid_plus1 sst"
  let ?n = "highest_used_below (bs_set (free_slots sst) i) i"
  have u: "\<And>j. used sst' j \<longleftrightarrow> j \<noteq> i \<and> used sst j" using used_free [OF inv us f] .
  have old: "highest_ok sst" using inv by (simp add: slots_inv_def)
  have i: "i < SESSION_SLOT_TABLE_CAPACITY" using us by (simp add: used_def)
  have wi: "unat (of_nat i + 1 :: u32) = Suc i" using unat_slot [of "Suc i"] i by (simp add: add.commute)
  have h': "highest_used_slotid_plus1 sst' = (if of_nat i + 1 = ?h then of_nat ?n else ?h)"
    using f by (auto simp: free_session_slot_def Let_def split: if_splits)
  show ?thesis
  proof (cases "of_nat i + 1 = ?h")
    case True
    have spec: "\<And>j. ?n \<le> j \<Longrightarrow> j < i \<Longrightarrow> bs_get (free_slots sst) j" "?n \<le> i"
      "?n \<noteq> 0 \<Longrightarrow> \<not> bs_get (free_slots sst) (?n - 1)"
      using highest_used_below_spec [of "bs_set (free_slots sst) i" i] inv i
      by (auto simp: slots_inv_def bs.has_put)
    have wn: "unat (of_nat ?n :: u32) = ?n" using spec(2) i by (intro unat_slot) simp
    have below: "\<And>j. used sst j \<Longrightarrow> j \<le> i" using old True wi by (auto simp: highest_ok_def)
    have "j < ?n" if "used sst' j" for j
    proof (rule ccontr)
      assume "\<not> j < ?n"
      moreover have "j \<noteq> i" "used sst j" using that u by auto
      ultimately show False using below [of j] spec(1) [of j] by (simp add: used_def)
    qed
    moreover have "used sst' (?n - 1)" if "?n \<noteq> 0"
    proof -
      have "?n - 1 \<noteq> i" "?n - 1 < SESSION_SLOT_TABLE_CAPACITY" using that spec(2) i by linarith+
      then show ?thesis unfolding u using spec(3) [OF that] by (simp add: used_def)
    qed
    moreover have "?n \<noteq> 0" if "(of_nat ?n :: u32) \<noteq> 0" using that by (intro notI) simp
    ultimately show ?thesis using True h' wn by (auto simp: highest_ok_def)
  next
    case False
    have "used sst' (unat ?h - 1)" if "?h \<noteq> 0"
    proof -
      have "used sst (unat ?h - 1)" using old that by (simp add: highest_ok_def)
      moreover have "unat ?h - 1 \<noteq> i"
        using False that wi by (metis Suc_diff_1 unat_gt_0 word_unat_eq_iff)
      ultimately show ?thesis using u by simp
    qed
    then show ?thesis using old False h' u by (auto simp: highest_ok_def)
  qed
qed

lemma free_session_slot_inv:
  assumes inv: "slots_inv sst" and us: "used sst i"
    and f: "free_session_slot sst i sh th sent = Some (sig, sst')"
  shows "slots_inv sst'"
  using free_highest [OF assms] inv f
  by (auto simp: slots_inv_def free_session_slot_def Let_def split: if_splits)

text \<open>Freeing aborts exactly if the server's limit is below a slot that is still in use.\<close>

lemma free_session_slot_aborts:
  assumes inv: "slots_inv sst" and us: "used sst i"
  shows "free_session_slot sst i sh th sent = None \<longleftrightarrow> sent \<and> (\<exists>j. used sst j \<and> j \<noteq> i \<and> unat (sh + 1) \<le> j)"
proof -
  have get: "\<not> bs_get (free_slots sst) i" and len: "i < length (slots sst)"
    using inv us by (auto simp: used_def slots_inv_def)
  obtain sig t where f: "free_session_slot sst i sh th False = Some (sig, t)"
    using get by (simp add: free_session_slot_def Let_def)
  let ?h = "highest_used_slotid_plus1 t"
  have u: "\<And>j. used t j \<longleftrightarrow> j \<noteq> i \<and> used sst j" by (rule used_free [OF inv us f])
  have hi: "\<And>j. used t j \<Longrightarrow> j < unat ?h" "?h \<noteq> 0 \<Longrightarrow> used t (unat ?h - 1)"
    using free_highest [OF inv us f] by (auto simp: highest_ok_def)
  have "free_session_slot sst i sh th sent = None \<longleftrightarrow> sent \<and> unat (sh + 1) < unat ?h"
    using f get len by (auto simp: free_session_slot_def Let_def word_less_nat_alt split: if_splits)
  also have "\<dots> \<longleftrightarrow> sent \<and> (\<exists>j. used t j \<and> unat (sh + 1) \<le> j)"
  proof (intro conj_cong refl iffI)
    assume "unat (sh + 1) < unat ?h"
    moreover from this have "?h \<noteq> 0" by auto
    ultimately show "\<exists>j. used t j \<and> unat (sh + 1) \<le> j" using hi(2) by (intro exI [of _ "unat ?h - 1"]) simp
  next
    assume "\<exists>j. used t j \<and> unat (sh + 1) \<le> j"
    then show "unat (sh + 1) < unat ?h" using hi(1) by fastforce
  qed
  finally show ?thesis using u by auto
qed

lemma alloc_session_slot_blocks:
  assumes inv: "slots_inv sst"
  shows "alloc_session_slot sst = None \<longleftrightarrow>
    \<not> (\<exists>i < SESSION_SLOT_TABLE_CAPACITY. \<not> used sst i \<and> of_nat i \<le> target_highest_slotid sst)"
proof -
  have ok: "bs_ok (free_slots sst)" and sz: "bs_size (free_slots sst) = SESSION_SLOT_TABLE_CAPACITY"
    using inv by (auto simp: slots_inv_def)
  have free: "i < SESSION_SLOT_TABLE_CAPACITY \<and> \<not> used sst i \<longleftrightarrow> bs_get (free_slots sst) i" for i
    using bs.has_cap [of "free_slots sst" i] sz by (auto simp: used_def)
  consider "bs_ffs (free_slots sst) = -1" | k where "bs_ffs (free_slots sst) = int k"
    using bs.least_range [of "free_slots sst"] by blast
  then show ?thesis
  proof cases
    case 1
    then show ?thesis using bs.least_miss [OF ok 1] free by (auto simp: alloc_session_slot_def)
  next
    case (2 k)
    have k: "bs_get (free_slots sst) k" "\<forall>j < k. \<not> bs_get (free_slots sst) j"
      using bs.least_hit [OF ok 2] by auto
    have le: "(of_nat k :: u32) \<le> of_nat i" if "bs_get (free_slots sst) i" for i
    proof -
      have "k \<le> i" using that k(2) not_le by blast
      moreover have "i < SESSION_SLOT_TABLE_CAPACITY" using bs.has_cap [OF that] sz by simp
      ultimately show ?thesis using unat_slot [of k] unat_slot [of i] by (simp add: word_le_nat_alt)
    qed
    have "alloc_session_slot sst = None \<longleftrightarrow> target_highest_slotid sst < of_nat k"
      using 2 by (simp add: alloc_session_slot_def Let_def)
    moreover have "(\<exists>i < SESSION_SLOT_TABLE_CAPACITY. \<not> used sst i \<and> of_nat i \<le> target_highest_slotid sst) \<longleftrightarrow>
      of_nat k \<le> target_highest_slotid sst" (is "?E \<longleftrightarrow> ?K")
    proof
      assume ?E
      then obtain i where "bs_get (free_slots sst) i" "of_nat i \<le> target_highest_slotid sst"
        using free by blast
      then show ?K using le [of i] by (rule_tac order_trans)
    next
      assume ?K
      then show ?E using k(1) free [of k] by blast
    qed
    ultimately show ?thesis by (simp only: not_le)
  qed
qed

section \<open>Many threads\<close>

text \<open>
  The table with the threads that hold slots (\<open>vreset_compound\<close> of \<^verbatim>\<open>nfs4/handle.c\<close>
  allocates, \<open>tc_update_sequence\<close> frees) and, per slot, the number of requests that were sent
  and answered.  A thread that holds a slot remembers the sequence number it was given.
\<close>

record slot_sys =
  sys_tbl :: session_slot_table
  sys_holds :: "nat \<Rightarrow> (nat \<times> u32) option"
  sys_sent :: "nat \<Rightarrow> nat"

text \<open>
  A request that was not sent gives back the slot it asked for, one that was answered the slot that the
  answer names; by the protocol that is the slot of the request.
\<close>

inductive slot_step :: "slot_sys \<Rightarrow> slot_sys \<Rightarrow> bool" where
  acquire: "sys_holds s t = None \<Longrightarrow> alloc_session_slot (sys_tbl s) = Some (int i, q, hi, tbl) \<Longrightarrow>
    slot_step s (s\<lparr>sys_tbl := tbl, sys_holds := (sys_holds s)(t \<mapsto> (i, q))\<rparr>)"
| unsent: "sys_holds s t = Some (i, q) \<Longrightarrow> free_session_slot (sys_tbl s) i hi hi False = Some (sig, tbl) \<Longrightarrow>
    slot_step s (s\<lparr>sys_tbl := tbl, sys_holds := (sys_holds s)(t := None)\<rparr>)"
| answered: "sys_holds s t = Some (i, q) \<Longrightarrow> sr_slotid = of_nat i \<Longrightarrow>
    free_session_slot (sys_tbl s) (unat (sr_slotid :: u32)) sh th True = Some (sig, tbl) \<Longrightarrow>
    slot_step s (s\<lparr>sys_tbl := tbl, sys_holds := (sys_holds s)(t := None),
                   sys_sent := (sys_sent s)(i := Suc (sys_sent s i))\<rparr>)"

inductive slot_reachable :: "slot_sys \<Rightarrow> bool" where
  start: "new_session_slot_table True = Some tbl \<Longrightarrow>
    slot_reachable \<lparr>sys_tbl = tbl, sys_holds = Map.empty, sys_sent = (\<lambda>_. 0)\<rparr>"
| step: "slot_reachable s \<Longrightarrow> slot_step s s' \<Longrightarrow> slot_reachable s'"

definition sys_inv :: "slot_sys \<Rightarrow> bool" where
  "sys_inv s \<longleftrightarrow> slots_inv (sys_tbl s) \<and>
     (\<forall>t i q. sys_holds s t = Some (i, q) \<longrightarrow> used (sys_tbl s) i \<and> q = slots (sys_tbl s) ! i) \<and>
     (\<forall>t t' i q q'. sys_holds s t = Some (i, q) \<longrightarrow> sys_holds s t' = Some (i, q') \<longrightarrow> t = t') \<and>
     (\<forall>i < SESSION_SLOT_TABLE_CAPACITY. slots (sys_tbl s) ! i = of_nat (Suc (sys_sent s i)))"

lemma sys_inv_acquire:
  assumes inv: "sys_inv s" and a: "alloc_session_slot (sys_tbl s) = Some (int i, q, hi, tbl)"
  shows "sys_inv (s\<lparr>sys_tbl := tbl, sys_holds := (sys_holds s)(t \<mapsto> (i, q))\<rparr>)"
proof -
  have si: "slots_inv (sys_tbl s)" using inv by (simp add: sys_inv_def)
  have u: "\<And>j. used tbl j \<longleftrightarrow> j = i \<or> used (sys_tbl s) j" using used_alloc [OF si a] .
  have new: "\<not> used (sys_tbl s) i" and sl: "slots tbl = slots (sys_tbl s)" and q: "q = slots (sys_tbl s) ! i"
    by (rule alloc_session_slot_SomeE [OF si a], simp add: used_def)+
  have "i \<noteq> j" if "sys_holds s t' = Some (j, q')" for t' j q'
    using that inv new by (auto simp: sys_inv_def)
  then show ?thesis using inv alloc_session_slot_inv [OF si a] u sl q by (auto simp: sys_inv_def)
qed

lemma sys_inv_release:
  assumes inv: "sys_inv s" and h: "sys_holds s t = Some (i, q)"
    and f: "free_session_slot (sys_tbl s) i sh th sent = Some (sig, tbl)"
  shows "sys_inv (s\<lparr>sys_tbl := tbl, sys_holds := (sys_holds s)(t := None),
                   sys_sent := (if sent then (sys_sent s)(i := Suc (sys_sent s i)) else sys_sent s)\<rparr>)"
proof -
  have si: "slots_inv (sys_tbl s)" and us: "used (sys_tbl s) i" using inv h by (auto simp: sys_inv_def)
  have u: "\<And>j. used tbl j \<longleftrightarrow> j \<noteq> i \<and> used (sys_tbl s) j" using used_free [OF si us f] .
  have sl: "slots tbl = (if sent then (slots (sys_tbl s))[i := slots (sys_tbl s) ! i + 1] else slots (sys_tbl s))"
    using f by (auto simp: free_session_slot_def Let_def split: if_splits)
  have other: "j \<noteq> i" if "sys_holds s t' = Some (j, q')" "t' \<noteq> t" for t' j q'
    using that h inv by (auto simp: sys_inv_def)
  have "i < length (slots (sys_tbl s))" using si us by (simp add: slots_inv_def used_def)
  then show ?thesis using inv free_session_slot_inv [OF si us f] u sl other
    by (auto simp: sys_inv_def nth_list_update add.commute)
qed

lemma sys_inv_step:
  assumes inv: "sys_inv s" and "slot_step s s'"
  shows "sys_inv s'"
  using assms(2)
proof cases
  case (acquire t i q hi tbl)
  then show ?thesis using sys_inv_acquire [OF inv] by blast
next
  case (unsent t i q hi sig tbl)
  then show ?thesis using sys_inv_release [OF inv, of t i q hi hi False sig tbl] by simp
next
  case (answered t i q slot sh th sig tbl)
  have "used (sys_tbl s) i" using inv answered(2) by (auto simp: sys_inv_def)
  then have "unat slot = i" using answered(3) by (simp add: used_def unat_slot)
  then show ?thesis using sys_inv_release [OF inv answered(2), of sh th True sig tbl] answered(1,4) by simp
qed

lemma slot_reachable_inv: "slot_reachable s \<Longrightarrow> sys_inv s"
proof (induction rule: slot_reachable.induct)
  case (start tbl)
  then have "slots_inv tbl" using new_session_slot_table_inv by blast
  moreover have "\<forall>i < SESSION_SLOT_TABLE_CAPACITY. slots tbl ! i = 1"
    using start by (auto simp: new_session_slot_table_def)
  ultimately show ?case by (simp add: sys_inv_def)
next
  case (step s s')
  show ?case by (rule sys_inv_step [OF step.IH step.hyps(2)])
qed

lemma del_session_slot_table_iff:
  assumes inv: "slots_inv sst"
  shows "del_session_slot_table (Some sst) = Some None \<longleftrightarrow> (\<forall>i. \<not> used sst i)"
proof -
  have "highest_used_slotid_plus1 sst = 0 \<longleftrightarrow> (\<forall>i. \<not> used sst i)"
    using inv by (auto simp: slots_inv_def highest_ok_def)
  then show ?thesis by (simp add: del_session_slot_table_def)
qed

lemma alloc_fresh:
  assumes t: "new_session_slot_table True = Some sst"
  shows "\<exists>hi sst'. alloc_session_slot sst = Some (int 0, 1, hi, sst')"
proof -
  note n = new_session_slot_table_inv [OF t]
  have sl: "slots sst ! 0 = 1" using t by (auto simp: new_session_slot_table_def SESSION_SLOT_TABLE_CAPACITY_def)
  have "alloc_session_slot sst \<noteq> None"
    using n by (auto simp: alloc_session_slot_blocks SESSION_SLOT_TABLE_CAPACITY_def intro!: exI [of _ 0])
  then obtain slotid seq hi sst' where a: "alloc_session_slot sst = Some (slotid, seq, hi, sst')" by auto
  with n obtain i where i: "slotid = int i" "i < SESSION_SLOT_TABLE_CAPACITY" "\<forall>j < i. \<not> bs_get (free_slots sst) j"
    "seq = slots sst ! i" by (auto elim: alloc_session_slot_SomeE)
  have "i = 0" using n i(2,3) by (auto simp: used_def intro!: gr0I elim: allE [of _ 0])
  then show ?thesis using a i sl by simp
qed

section \<open>Properties\<close>

text \<open>
  C6: in every state that threads allocating and freeing slots can reach, given a server whose answers name the
  slot of the request, no two threads hold the same slot, and the sequence number a thread holds is one more than the number of requests sent
  and answered on that slot before (modulo \<open>2 ^ 32\<close>).
\<close>

theorem slot_exclusive:
  assumes "slot_reachable s" "sys_holds s t = Some (i, q)"
  shows "q = of_nat (Suc (sys_sent s i)) \<and> (\<forall>t' q'. sys_holds s t' = Some (i, q') \<longrightarrow> t' = t)"
proof -
  note inv = slot_reachable_inv [OF assms(1), unfolded sys_inv_def]
  have "used (sys_tbl s) i" "q = slots (sys_tbl s) ! i" using inv assms(2) by blast+
  moreover have "\<forall>t' q'. sys_holds s t' = Some (i, q') \<longrightarrow> t' = t" using inv assms(2) by blast
  ultimately show ?thesis using inv by (simp add: used_def)
qed

lemma slot_exclusive_witness:
  "\<exists>s. slot_reachable s \<and> sys_holds s 7 = Some (0, 1) \<and> sys_holds s 8 = None"
proof -
  obtain tbl where t: "new_session_slot_table True = Some tbl" by (simp add: new_session_slot_table_def)
  let ?init = "\<lparr>sys_tbl = tbl, sys_holds = Map.empty, sys_sent = (\<lambda>_. 0)\<rparr>"
  have r0: "slot_reachable ?init" using t by (rule slot_reachable.start)
  obtain hi tbl' where a: "alloc_session_slot tbl = Some (int 0, 1, hi, tbl')" using alloc_fresh [OF t] by blast
  let ?next = "?init\<lparr>sys_tbl := tbl', sys_holds := (sys_holds ?init)(7 \<mapsto> (0, 1))\<rparr>"
  have r: "slot_reachable ?next" using slot_reachable.step [OF r0 slot_step.acquire [of ?init 7 0 1 hi tbl']] a by simp
  have "1 = (of_nat (Suc (sys_sent ?next 0)) :: u32) \<and> (\<forall>t' q'. sys_holds ?next t' = Some (0, q') \<longrightarrow> t' = 7)"
    by (rule slot_exclusive [OF r]) simp
  then have "sys_holds ?next 8 = None" by simp
  then show ?thesis using r by (intro exI [of _ ?next]) simp
qed

text \<open>
  C24: on a table that satisfies the invariant, \<open>alloc_session_slot\<close> makes its caller wait exactly if
  every slot up to the server's target is in use; otherwise it hands out the lowest free slot,
  marks only that slot used, keeps the invariant, and reports the highest slot in use.
\<close>

theorem alloc_session_slot_correct:
  assumes "slots_inv sst"
  shows "case alloc_session_slot sst of
      None \<Rightarrow> \<forall>i < SESSION_SLOT_TABLE_CAPACITY. of_nat i \<le> target_highest_slotid sst \<longrightarrow> used sst i
    | Some (slotid, seq, hi, sst') \<Rightarrow>
        0 \<le> slotid \<and> nat slotid < SESSION_SLOT_TABLE_CAPACITY \<and> \<not> used sst (nat slotid) \<and>
        (\<forall>j < nat slotid. used sst j) \<and> of_nat (nat slotid) \<le> target_highest_slotid sst \<and>
        seq = get_slot_sequence sst (nat slotid) \<and> (\<forall>j. used sst' j \<longleftrightarrow> j = nat slotid \<or> used sst j) \<and>
        used sst' (unat hi) \<and> (\<forall>j. used sst' j \<longrightarrow> j \<le> unat hi) \<and> slots_inv sst'"
proof (cases "alloc_session_slot sst")
  case None
  then show ?thesis using alloc_session_slot_blocks [OF assms] by auto
next
  case (Some r)
  obtain slotid seq hi sst' where r: "r = (slotid, seq, hi, sst')" by (cases r)
  note a = Some [unfolded r]
  from assms a obtain i where i: "slotid = int i" "i < SESSION_SLOT_TABLE_CAPACITY" "bs_get (free_slots sst) i"
    "\<forall>j < i. \<not> bs_get (free_slots sst) j" "of_nat i \<le> target_highest_slotid sst" "seq = slots sst ! i"
    "hi = highest_used_slotid_plus1 sst' - 1"
    by (rule alloc_session_slot_SomeE)
  have u: "\<And>j. used sst' j \<longleftrightarrow> j = i \<or> used sst j" using used_alloc [OF assms] a i(1) by blast
  have inv: "slots_inv sst'" by (rule alloc_session_slot_inv [OF assms a])
  then have h: "\<And>j. used sst' j \<Longrightarrow> j < unat (highest_used_slotid_plus1 sst')"
    "highest_used_slotid_plus1 sst' \<noteq> 0 \<Longrightarrow> used sst' (unat (highest_used_slotid_plus1 sst') - 1)"
    by (auto simp: slots_inv_def highest_ok_def)
  have "i < unat (highest_used_slotid_plus1 sst')" using h(1) u by blast
  then have nz: "highest_used_slotid_plus1 sst' \<noteq> 0" by auto
  then have hi: "unat hi = unat (highest_used_slotid_plus1 sst') - 1" using i(7) by (simp add: unat_minus_one)
  have "\<forall>j. used sst' j \<longrightarrow> j \<le> unat hi" using h(1) hi by fastforce
  then show ?thesis using a r i u inv h(2) [OF nz] hi by (auto simp: used_def get_slot_sequence_def)
qed

lemma alloc_session_slot_correct_witness:
  "\<exists>sst. slots_inv sst \<and> (\<forall>i. \<not> used sst i) \<and> map_option fst (alloc_session_slot sst) = Some 0"
proof -
  obtain sst where t: "new_session_slot_table True = Some sst" by (simp add: new_session_slot_table_def)
  note n = new_session_slot_table_inv [OF t]
  obtain q hi sst' where a: "alloc_session_slot sst = Some (int 0, q, hi, sst')" using alloc_fresh [OF t] by blast
  then have "used sst' (unat hi)" using alloc_session_slot_correct [of sst] n by auto
  then show ?thesis using n a by (intro exI [of _ sst]) simp
qed

text \<open>
  C25: freeing a slot that is in use.  The call aborts exactly if the request was sent and the server no
  longer accepts a slot that is still in use; otherwise it frees exactly that slot, keeps the invariant, moves
  the slot's sequence number and the server's limits exactly if the request was sent, and signals a
  waiting thread exactly if the slot is within the target.  The table can then be destroyed without a
  failed assertion exactly if the slot was the only one in use.
\<close>

theorem free_session_slot_correct:
  assumes "slots_inv sst" "used sst i"
  shows "case free_session_slot sst i sh th sent of
      None \<Rightarrow> sent \<and> (\<exists>j. used sst j \<and> j \<noteq> i \<and> unat (sh + 1) \<le> j)
    | Some (sig, sst') \<Rightarrow>
        (sent \<longrightarrow> (\<forall>j. used sst j \<and> j \<noteq> i \<longrightarrow> j < unat (sh + 1))) \<and>
        slots_inv sst' \<and> (\<forall>j. used sst' j \<longleftrightarrow> j \<noteq> i \<and> used sst j) \<and>
        (\<forall>j < SESSION_SLOT_TABLE_CAPACITY.
           get_slot_sequence sst' j = (if sent \<and> j = i then get_slot_sequence sst j + 1 else get_slot_sequence sst j)) \<and>
        server_highest_slotid sst' = (if sent then sh else server_highest_slotid sst) \<and>
        target_highest_slotid sst' = (if sent then th else target_highest_slotid sst) \<and>
        sig = (of_nat i \<le> th) \<and>
        (del_session_slot_table (Some sst') = Some None \<longleftrightarrow> (\<forall>j. used sst j \<longrightarrow> j = i))"
proof (cases "free_session_slot sst i sh th sent")
  case None
  then show ?thesis using free_session_slot_aborts [OF assms, of sh th sent] by simp
next
  case (Some r)
  obtain sig sst' where r: "r = (sig, sst')" by (cases r)
  note f = Some [unfolded r]
  have inv: "slots_inv sst'" by (rule free_session_slot_inv [OF assms f])
  have u: "\<And>j. used sst' j \<longleftrightarrow> j \<noteq> i \<and> used sst j" by (rule used_free [OF assms f])
  have "i < length (slots sst)" using assms by (simp add: slots_inv_def used_def)
  then have "slots sst' ! j = (if sent \<and> j = i then slots sst ! j + 1 else slots sst ! j)" for j
    using f by (auto simp: free_session_slot_def Let_def nth_list_update split: if_splits)
  moreover have "target_highest_slotid sst' = (if sent then th else target_highest_slotid sst)"
    "server_highest_slotid sst' = (if sent then sh else server_highest_slotid sst)" "sig = (of_nat i \<le> th)"
    using f by (auto simp: free_session_slot_def Let_def split: if_splits)
  moreover have "sent \<longrightarrow> (\<forall>j. used sst j \<and> j \<noteq> i \<longrightarrow> j < unat (sh + 1))"
    using free_session_slot_aborts [OF assms, of sh th sent] f by (auto simp: not_le)
  ultimately show ?thesis
    using inv u del_session_slot_table_iff [OF inv] f by (auto simp: get_slot_sequence_def)
qed

text \<open>
  Two threads, of which the second takes its slot after the first has sent its request: an answer to the first one
  that accepts every slot of its request aborts the client.
\<close>

lemma legal_answer_aborts:
  "\<exists>t0 t1 t2. new_session_slot_table True = Some t0 \<and> alloc_session_slot t0 = Some (0, 1, 0, t1) \<and>
     alloc_session_slot t1 = Some (1, 1, 1, t2) \<and> free_session_slot t2 0 0 0 True = None"
proof -
  define t0 where "t0 = the (new_session_slot_table True)"
  define t1 where "t1 = snd (snd (snd (the (alloc_session_slot t0))))"
  define t2 where "t2 = snd (snd (snd (the (alloc_session_slot t1))))"
  have "new_session_slot_table True = Some t0" by (simp add: t0_def new_session_slot_table_def)
  moreover have "alloc_session_slot t0 = Some (0, 1, 0, t1)" unfolding t1_def t0_def by code_simp
  moreover have "alloc_session_slot t1 = Some (1, 1, 1, t2)" unfolding t2_def t1_def t0_def by code_simp
  moreover have "free_session_slot t2 0 0 0 True = None" unfolding t2_def t1_def t0_def by code_simp
  ultimately show ?thesis by blast
qed

lemma free_session_slot_correct_witness:
  "\<exists>sst. slots_inv sst \<and> used sst 0 \<and> (case free_session_slot sst 0 127 127 True of
      None \<Rightarrow> False | Some (sig, sst') \<Rightarrow> sig \<and> (\<forall>j. \<not> used sst' j) \<and> get_slot_sequence sst' 0 = get_slot_sequence sst 0 + 1)"
proof -
  obtain t0 where t: "new_session_slot_table True = Some t0" by (simp add: new_session_slot_table_def)
  note n = new_session_slot_table_inv [OF t]
  obtain q hi sst where a: "alloc_session_slot t0 = Some (int 0, q, hi, sst)" using alloc_fresh [OF t] by blast
  have inv: "slots_inv sst" and u: "\<And>j. used sst j \<longleftrightarrow> j = 0"
    using alloc_session_slot_inv [OF _ a] used_alloc [OF _ a] n by auto
  note c = free_session_slot_correct [where sst = sst and i = 0 and sh = 127 and th = 127 and sent = True, OF inv]
  obtain sig sst' where f: "free_session_slot sst 0 127 127 True = Some (sig, sst')"
    using free_session_slot_aborts [OF inv, of 0 127 127 True] u by fastforce
  then have "sig" "\<forall>j. \<not> used sst' j" "get_slot_sequence sst' 0 = get_slot_sequence sst 0 + 1"
    using c u by (auto simp: SESSION_SLOT_TABLE_CAPACITY_def)
  then show ?thesis using inv u f by (intro exI [of _ sst]) simp
qed

end
