(* ===== verification/Tc_Api.thy ===== *)
theory Tc_Api
  imports Path_Utils
begin

text \<open>
  The types and inline functions of the client interface (\<^verbatim>\<open>include/tc_api.h\<close>) and the
  helpers of \<^verbatim>\<open>support/tc_helper.c\<close>: files named by descriptor, path or handle, I/O vectors,
  results, and file attributes with their presence masks.  Strings are values here, and a NULL
  path is \<open>None\<close>; reading through a NULL pointer or past the end of an object is the outer
  \<open>None\<close> of a result.
\<close>

section \<open>Files\<close>

datatype VFILETYPE = VFILE_NULL | VFILE_DESCRIPTOR | VFILE_PATH | VFILE_HANDLE | VFILE_CURRENT | VFILE_SAVED

definition VFD_CWD :: int where "VFD_CWD = -2"
definition VFD_ABS :: int where "VFD_ABS = -3"

definition FILEID_NFS_FH_TYPE :: int where "FILEID_NFS_FH_TYPE = 0x1001"

record file_handle =
  handle_bytes :: u32
  handle_type :: int
  f_handle :: "char list"

text \<open>The union of \<open>vfile\<close>: a private data pointer, a path or a handle.\<close>

datatype path_or_handle = NullRef | FdData nat | PathRef string | HandleRef file_handle

record vfile =
  vf_type :: VFILETYPE
  vf_fd :: int
  vf_ref :: path_or_handle

definition vf_path :: "vfile \<Rightarrow> string option" where
  "vf_path f = (case vf_ref f of PathRef p \<Rightarrow> Some p | _ \<Rightarrow> None)"

definition vf_handle :: "vfile \<Rightarrow> file_handle option" where
  "vf_handle f = (case vf_ref f of HandleRef h \<Rightarrow> Some h | _ \<Rightarrow> None)"

definition vfile_from_path :: "string \<Rightarrow> vfile" where
  "vfile_from_path pathname =
     \<lparr>vf_type = VFILE_PATH, vf_fd = (if is_abs pathname then VFD_ABS else VFD_CWD), vf_ref = PathRef pathname\<rparr>"

definition vfile_from_fd :: "int \<Rightarrow> vfile" where
  "vfile_from_fd fd = \<lparr>vf_type = VFILE_DESCRIPTOR, vf_fd = fd, vf_ref = NullRef\<rparr>"

definition vfile_current :: vfile where
  "vfile_current = \<lparr>vf_type = VFILE_CURRENT, vf_fd = -1, vf_ref = NullRef\<rparr>"

definition vfile_from_cfh :: "string option \<Rightarrow> vfile" where
  "vfile_from_cfh relpath =
     (case relpath of
        None \<Rightarrow> \<lparr>vf_type = VFILE_CURRENT, vf_fd = -1, vf_ref = NullRef\<rparr>
      | Some p \<Rightarrow> if is_abs p then vfile_from_path p
                  else \<lparr>vf_type = VFILE_CURRENT, vf_fd = -1, vf_ref = PathRef p\<rparr>)"

text \<open>The argument says whether \<open>malloc\<close> returned memory.\<close>

definition new_file_handle :: "bool \<Rightarrow> nat \<Rightarrow> char list \<Rightarrow> file_handle option" where
  "new_file_handle malloc_ok fh_len fh_val =
     (if malloc_ok
      then Some \<lparr>handle_bytes = of_nat fh_len, handle_type = FILEID_NFS_FH_TYPE, f_handle = take fh_len fh_val\<rparr>
      else None)"

definition handle_ok :: "file_handle \<Rightarrow> bool" where
  "handle_ok h \<longleftrightarrow> length (f_handle h) = unat (handle_bytes h)"

text \<open>
  \<open>tc_cmp_file\<close>.  The comparison of handles returns the value of \<open>memcmp\<close>, converted to
  \<^verbatim>\<open>bool\<close>; \<open>strcmp\<close> with a NULL argument and a missing handle are undefined.
\<close>

definition memcmp_differs :: "char list \<Rightarrow> char list \<Rightarrow> nat \<Rightarrow> bool" where
  "memcmp_differs x y n \<longleftrightarrow> take n x \<noteq> take n y"

definition tc_cmp_file :: "vfile \<Rightarrow> vfile \<Rightarrow> bool option" where
  "tc_cmp_file tcf1 tcf2 =
     (if vf_type tcf1 \<noteq> vf_type tcf2 then Some False
      else case vf_type tcf1 of
        VFILE_DESCRIPTOR \<Rightarrow> Some (vf_fd tcf1 = vf_fd tcf2)
      | VFILE_PATH \<Rightarrow>
          (case (vf_path tcf1, vf_path tcf2) of
             (None, None) \<Rightarrow> Some True | (Some p, Some q) \<Rightarrow> Some (p = q) | _ \<Rightarrow> None)
      | VFILE_CURRENT \<Rightarrow>
          (case (vf_path tcf1, vf_path tcf2) of
             (None, None) \<Rightarrow> Some True | (Some p, Some q) \<Rightarrow> Some (p = q) | _ \<Rightarrow> None)
      | VFILE_HANDLE \<Rightarrow>
          (case (vf_handle tcf1, vf_handle tcf2) of
             (Some g, Some h) \<Rightarrow>
               if handle_bytes g \<noteq> handle_bytes h then Some False
               else if handle_type g \<noteq> handle_type h then Some False
               else Some (memcmp_differs (f_handle g) (f_handle h) (unat (handle_bytes g)))
           | _ \<Rightarrow> None)
      | _ \<Rightarrow> Some True)"

section \<open>I/O vectors\<close>

record viovec =
  vi_file :: vfile
  vi_offset :: u64
  vi_length :: u64
  vi_data :: u64
  vi_type :: int
  vi_is_creation :: bool
  vi_is_direct_io :: bool
  vi_is_failure :: bool
  vi_is_eof :: bool
  vi_is_write_stable :: bool
  vi_is_last_of_multiparts :: bool

definition viov2file :: "viovec \<Rightarrow> vfile \<Rightarrow> u64 \<Rightarrow> u64 \<Rightarrow> u64 \<Rightarrow> viovec" where
  "viov2file iov tcf off len buf =
     iov\<lparr>vi_file := tcf, vi_offset := off, vi_length := len, vi_data := buf, vi_is_creation := False,
         vi_is_direct_io := False, vi_is_failure := False, vi_is_eof := False, vi_is_write_stable := False,
         vi_is_last_of_multiparts := False\<rparr>"

definition viov2current :: "viovec \<Rightarrow> u64 \<Rightarrow> u64 \<Rightarrow> u64 \<Rightarrow> viovec" where
  "viov2current iov off len buf = viov2file iov vfile_current off len buf"

definition viov2path :: "viovec \<Rightarrow> string \<Rightarrow> u64 \<Rightarrow> u64 \<Rightarrow> u64 \<Rightarrow> viovec" where
  "viov2path iov path off len buf =
     iov\<lparr>vi_file := vfile_from_path path, vi_offset := off, vi_length := len, vi_data := buf,
         vi_is_creation := False, vi_is_direct_io := False, vi_is_failure := False, vi_is_eof := False,
         vi_is_write_stable := False, vi_is_last_of_multiparts := False\<rparr>"

definition viov2fd :: "viovec \<Rightarrow> int \<Rightarrow> u64 \<Rightarrow> u64 \<Rightarrow> u64 \<Rightarrow> viovec" where
  "viov2fd iov fd off len buf =
     iov\<lparr>vi_file := vfile_from_fd fd, vi_offset := off, vi_length := len, vi_data := buf,
         vi_is_creation := False, vi_is_direct_io := False, vi_is_failure := False, vi_is_eof := False,
         vi_is_write_stable := False, vi_is_last_of_multiparts := False\<rparr>"

definition viov4creation :: "viovec \<Rightarrow> string \<Rightarrow> u64 \<Rightarrow> u64 \<Rightarrow> viovec" where
  "viov4creation iov path len buf =
     iov\<lparr>vi_file := vfile_from_path path, vi_offset := 0, vi_length := len, vi_data := buf,
         vi_is_creation := True, vi_is_direct_io := False, vi_is_failure := False, vi_is_eof := False,
         vi_is_write_stable := False, vi_is_last_of_multiparts := False\<rparr>"

text \<open>
  \<open>compare_content\<close> on two arrays of \<open>count\<close> vectors, with the memory their data pointers
  point into.
\<close>

fun compare_content :: "mem \<Rightarrow> viovec list \<Rightarrow> viovec list \<Rightarrow> nat \<Rightarrow> bool" where
  "compare_content m xs ys 0 = True"
| "compare_content m (x # xs) (y # ys) (Suc count) =
     (if vi_length x \<noteq> vi_length y \<or>
         bytes m (unat (vi_data x)) (unat (vi_length x)) \<noteq> bytes m (unat (vi_data y)) (unat (vi_length x))
      then False else compare_content m xs ys count)"
| "compare_content m _ _ (Suc count) = False"

section \<open>Results\<close>

record vres =
  vr_index :: int
  vr_err_no :: int

definition vokay :: "vres \<Rightarrow> bool" where
  "vokay tcres \<longleftrightarrow> vr_err_no tcres = 0"

definition vfailure :: "int \<Rightarrow> int \<Rightarrow> vres" where
  "vfailure i err = \<lparr>vr_index = i, vr_err_no = err\<rparr>"

section \<open>Attributes\<close>

record vattrs_masks =
  has_mode :: bool
  has_size :: bool
  has_nlink :: bool
  has_fileid :: bool
  has_blocks :: bool
  has_uid :: bool
  has_gid :: bool
  has_rdev :: bool
  has_atime :: bool
  has_mtime :: bool
  has_ctime :: bool

definition VMASK_INIT_ALL :: vattrs_masks where
  "VMASK_INIT_ALL = \<lparr>has_mode = True, has_size = True, has_nlink = True, has_fileid = True, has_blocks = True,
     has_uid = True, has_gid = True, has_rdev = True, has_atime = True, has_mtime = True, has_ctime = True\<rparr>"

definition VMASK_INIT_NONE :: vattrs_masks where
  "VMASK_INIT_NONE = \<lparr>has_mode = False, has_size = False, has_nlink = False, has_fileid = False, has_blocks = False,
     has_uid = False, has_gid = False, has_rdev = False, has_atime = False, has_mtime = False, has_ctime = False\<rparr>"

record timespec =
  tv_sec :: int
  tv_nsec :: int

record vattrs =
  va_file :: vfile
  va_masks :: vattrs_masks
  va_mode :: u32
  va_size :: u64
  va_nlink :: u64
  va_fileid :: u64
  va_blocks :: u64
  va_uid :: u32
  va_gid :: u32
  va_rdev :: u64
  va_atime :: timespec
  va_mtime :: timespec
  va_ctime :: timespec

text \<open>The fields of \<open>struct stat\<close> that are converted; signed and unsigned fields of one width share their bits.\<close>

record stat =
  st_mode :: u32
  st_size :: u64
  st_nlink :: u64
  st_ino :: u64
  st_blocks :: u64
  st_uid :: u32
  st_gid :: u32
  st_rdev :: u64
  st_atim :: timespec
  st_mtim :: timespec
  st_ctim :: timespec

definition vattrs_set_mode :: "vattrs \<Rightarrow> u32 \<Rightarrow> vattrs" where
  "vattrs_set_mode a mode = a\<lparr>va_mode := mode, va_masks := (va_masks a)\<lparr>has_mode := True\<rparr>\<rparr>"

definition vattrs_set_size :: "vattrs \<Rightarrow> u64 \<Rightarrow> vattrs" where
  "vattrs_set_size a sz = a\<lparr>va_size := sz, va_masks := (va_masks a)\<lparr>has_size := True\<rparr>\<rparr>"

definition vattrs_set_fileid :: "vattrs \<Rightarrow> u64 \<Rightarrow> vattrs" where
  "vattrs_set_fileid a fileid = a\<lparr>va_fileid := fileid, va_masks := (va_masks a)\<lparr>has_fileid := True\<rparr>\<rparr>"

definition vattrs_set_uid :: "vattrs \<Rightarrow> u64 \<Rightarrow> vattrs" where
  "vattrs_set_uid a uid = a\<lparr>va_uid := ucast uid, va_masks := (va_masks a)\<lparr>has_uid := True\<rparr>\<rparr>"

definition vattrs_set_gid :: "vattrs \<Rightarrow> u64 \<Rightarrow> vattrs" where
  "vattrs_set_gid a gid = a\<lparr>va_gid := ucast gid, va_masks := (va_masks a)\<lparr>has_gid := True\<rparr>\<rparr>"

definition vattrs_set_nlink :: "vattrs \<Rightarrow> u64 \<Rightarrow> vattrs" where
  "vattrs_set_nlink a nlink = a\<lparr>va_nlink := nlink, va_masks := (va_masks a)\<lparr>has_nlink := True\<rparr>\<rparr>"

definition vattrs_set_atime :: "vattrs \<Rightarrow> timespec \<Rightarrow> vattrs" where
  "vattrs_set_atime a atime = a\<lparr>va_atime := atime, va_masks := (va_masks a)\<lparr>has_atime := True\<rparr>\<rparr>"

definition vattrs_set_mtime :: "vattrs \<Rightarrow> timespec \<Rightarrow> vattrs" where
  "vattrs_set_mtime a mtime = a\<lparr>va_mtime := mtime, va_masks := (va_masks a)\<lparr>has_mtime := True\<rparr>\<rparr>"

definition vattrs_set_ctime :: "vattrs \<Rightarrow> timespec \<Rightarrow> vattrs" where
  "vattrs_set_ctime a ctime = a\<lparr>va_ctime := ctime, va_masks := (va_masks a)\<lparr>has_ctime := True\<rparr>\<rparr>"

definition vattrs_set_rdev :: "vattrs \<Rightarrow> u64 \<Rightarrow> vattrs" where
  "vattrs_set_rdev a rdev = a\<lparr>va_rdev := rdev, va_masks := (va_masks a)\<lparr>has_rdev := True\<rparr>\<rparr>"

definition vset_up_creation :: "u32 \<Rightarrow> u32 \<Rightarrow> vattrs \<Rightarrow> string \<Rightarrow> u32 \<Rightarrow> vattrs" where
  "vset_up_creation euid egid newobj name mode =
     newobj\<lparr>va_file := vfile_from_path name,
            va_masks := VMASK_INIT_NONE\<lparr>has_mode := True, has_uid := True, has_gid := True\<rparr>,
            va_mode := mode, va_uid := euid, va_gid := egid\<rparr>"

text \<open>
  The three conversions assign each field that the mask selects; every statement writes a field
  of its own, so they are one simultaneous update.
\<close>

definition vstat2attrs :: "stat \<Rightarrow> vattrs \<Rightarrow> vattrs" where
  "vstat2attrs st a =
     (let k = va_masks a
      in a\<lparr>va_mode := (if has_mode k then st_mode st else va_mode a),
           va_size := (if has_size k then st_size st else va_size a),
           va_nlink := (if has_nlink k then st_nlink st else va_nlink a),
           va_fileid := (if has_fileid k then st_ino st else va_fileid a),
           va_uid := (if has_uid k then st_uid st else va_uid a),
           va_gid := (if has_gid k then st_gid st else va_gid a),
           va_rdev := (if has_rdev k then st_rdev st else va_rdev a),
           va_blocks := (if has_blocks k then st_blocks st else va_blocks a),
           va_atime := (if has_atime k then st_atim st else va_atime a),
           va_mtime := (if has_mtime k then st_mtim st else va_mtime a),
           va_ctime := (if has_ctime k then st_ctim st else va_ctime a)\<rparr>)"

definition tc_attrs2attrs :: "vattrs \<Rightarrow> vattrs \<Rightarrow> vattrs" where
  "tc_attrs2attrs dst src =
     (let k = va_masks dst
      in dst\<lparr>va_file := va_file src,
             va_mode := (if has_mode k then va_mode src else va_mode dst),
             va_size := (if has_size k then va_size src else va_size dst),
             va_nlink := (if has_nlink k then va_nlink src else va_nlink dst),
             va_fileid := (if has_fileid k then va_fileid src else va_fileid dst),
             va_uid := (if has_uid k then va_uid src else va_uid dst),
             va_gid := (if has_gid k then va_gid src else va_gid dst),
             va_rdev := (if has_rdev k then va_rdev src else va_rdev dst),
             va_blocks := (if has_blocks k then va_blocks src else va_blocks dst),
             va_atime := (if has_atime k then va_atime src else va_atime dst),
             va_mtime := (if has_mtime k then va_mtime src else va_mtime dst),
             va_ctime := (if has_ctime k then va_ctime src else va_ctime dst)\<rparr>)"

definition vattrs2stat :: "vattrs \<Rightarrow> stat \<Rightarrow> stat" where
  "vattrs2stat a st =
     (let k = va_masks a
      in st\<lparr>st_mode := (if has_mode k then va_mode a else st_mode st),
            st_size := (if has_size k then va_size a else st_size st),
            st_nlink := (if has_nlink k then va_nlink a else st_nlink st),
            st_ino := (if has_fileid k then va_fileid a else st_ino st),
            st_uid := (if has_uid k then va_uid a else st_uid st),
            st_gid := (if has_gid k then va_gid a else st_gid st),
            st_rdev := (if has_rdev k then va_rdev a else st_rdev st),
            st_blocks := (if has_blocks k then va_blocks a else st_blocks st),
            st_atim := (if has_atime k then va_atime a else st_atim st),
            st_mtim := (if has_mtime k then va_mtime a else st_mtim st),
            st_ctim := (if has_ctime k then va_ctime a else st_ctim st)\<rparr>)"

definition tc_copy_attrs :: "vattrs \<Rightarrow> vattrs \<Rightarrow> vattrs" where
  "tc_copy_attrs src dst =
     (let k = va_masks src;
          d = upd_if (has_mode k) (\<lambda>x. vattrs_set_mode x (va_mode src)) dst;
          d = upd_if (has_size k) (\<lambda>x. vattrs_set_size x (va_size src)) d;
          d = upd_if (has_nlink k) (\<lambda>x. vattrs_set_nlink x (va_nlink src)) d;
          d = upd_if (has_fileid k) (\<lambda>x. vattrs_set_fileid x (va_fileid src)) d;
          d = upd_if (has_uid k) (\<lambda>x. vattrs_set_uid x (ucast (va_uid src))) d;
          d = upd_if (has_gid k) (\<lambda>x. vattrs_set_gid x (ucast (va_gid src))) d;
          d = upd_if (has_rdev k) (\<lambda>x. vattrs_set_rdev x (va_rdev src)) d;
          d = upd_if (has_atime k) (\<lambda>x. vattrs_set_atime x (va_atime src)) d;
          d = upd_if (has_mtime k) (\<lambda>x. vattrs_set_mtime x (va_mtime src)) d
      in upd_if (has_ctime k) (\<lambda>x. vattrs_set_ctime x (va_ctime src)) d)"

section \<open>Attributes as partial functions\<close>

text \<open>
  What a caller may read from a \<open>vattrs\<close>: a value for each attribute whose mask bit is set.
\<close>

datatype attr = AMode | ASize | ANlink | AFileid | ABlocks | AUid | AGid | ARdev | AAtime | AMtime | ACtime

datatype attr_value = W32 u32 | W64 u64 | Time timespec

fun attr_has :: "vattrs_masks \<Rightarrow> attr \<Rightarrow> bool" where
  "attr_has k AMode = has_mode k"
| "attr_has k ASize = has_size k"
| "attr_has k ANlink = has_nlink k"
| "attr_has k AFileid = has_fileid k"
| "attr_has k ABlocks = has_blocks k"
| "attr_has k AUid = has_uid k"
| "attr_has k AGid = has_gid k"
| "attr_has k ARdev = has_rdev k"
| "attr_has k AAtime = has_atime k"
| "attr_has k AMtime = has_mtime k"
| "attr_has k ACtime = has_ctime k"

fun attr_val :: "vattrs \<Rightarrow> attr \<Rightarrow> attr_value" where
  "attr_val a AMode = W32 (va_mode a)"
| "attr_val a ASize = W64 (va_size a)"
| "attr_val a ANlink = W64 (va_nlink a)"
| "attr_val a AFileid = W64 (va_fileid a)"
| "attr_val a ABlocks = W64 (va_blocks a)"
| "attr_val a AUid = W32 (va_uid a)"
| "attr_val a AGid = W32 (va_gid a)"
| "attr_val a ARdev = W64 (va_rdev a)"
| "attr_val a AAtime = Time (va_atime a)"
| "attr_val a AMtime = Time (va_mtime a)"
| "attr_val a ACtime = Time (va_ctime a)"

definition attr_get :: "vattrs \<Rightarrow> attr \<Rightarrow> attr_value option" where
  "attr_get a x = (if attr_has (va_masks a) x then Some (attr_val a x) else None)"

lemma ucast_down_up: "(ucast (ucast (v :: u32) :: u64) :: u32) = v"
  by (rule bit_word_eqI) (simp add: bit_ucast_iff)

text \<open>A guarded setter changes the attribute it names and no other.\<close>

lemma attr_get_set [simp]:
  "attr_get (upd_if c (\<lambda>d. vattrs_set_mode d v) a) x = (if c \<and> x = AMode then Some (W32 v) else attr_get a x)"
  "attr_get (upd_if c (\<lambda>d. vattrs_set_size d w) a) x = (if c \<and> x = ASize then Some (W64 w) else attr_get a x)"
  "attr_get (upd_if c (\<lambda>d. vattrs_set_nlink d w) a) x = (if c \<and> x = ANlink then Some (W64 w) else attr_get a x)"
  "attr_get (upd_if c (\<lambda>d. vattrs_set_fileid d w) a) x = (if c \<and> x = AFileid then Some (W64 w) else attr_get a x)"
  "attr_get (upd_if c (\<lambda>d. vattrs_set_uid d (ucast v)) a) x = (if c \<and> x = AUid then Some (W32 v) else attr_get a x)"
  "attr_get (upd_if c (\<lambda>d. vattrs_set_gid d (ucast v)) a) x = (if c \<and> x = AGid then Some (W32 v) else attr_get a x)"
  "attr_get (upd_if c (\<lambda>d. vattrs_set_rdev d w) a) x = (if c \<and> x = ARdev then Some (W64 w) else attr_get a x)"
  "attr_get (upd_if c (\<lambda>d. vattrs_set_atime d t) a) x = (if c \<and> x = AAtime then Some (Time t) else attr_get a x)"
  "attr_get (upd_if c (\<lambda>d. vattrs_set_mtime d t) a) x = (if c \<and> x = AMtime then Some (Time t) else attr_get a x)"
  "attr_get (upd_if c (\<lambda>d. vattrs_set_ctime d t) a) x = (if c \<and> x = ACtime then Some (Time t) else attr_get a x)"
  by (cases x; simp add: upd_if_def attr_get_def vattrs_set_mode_def vattrs_set_size_def vattrs_set_nlink_def
      vattrs_set_fileid_def vattrs_set_uid_def vattrs_set_gid_def vattrs_set_rdev_def
      vattrs_set_atime_def vattrs_set_mtime_def vattrs_set_ctime_def ucast_down_up)+

lemma tc_copy_attrs_get:
  "attr_get (tc_copy_attrs src dst) x =
     (if x \<noteq> ABlocks \<and> attr_has (va_masks src) x then attr_get src x else attr_get dst x)"
  by (cases x) (simp_all add: tc_copy_attrs_def Let_def, simp_all add: attr_get_def)

section \<open>Properties\<close>

text \<open>
  \<open>tc_copy_attrs\<close> copies every attribute present in the source, except the block count, and
  leaves every other attribute of the destination as it was.
\<close>

theorem tc_copy_attrs_correct:
  "attr_get (tc_copy_attrs src dst) x =
     (if x \<noteq> ABlocks \<and> attr_has (va_masks src) x then attr_get src x else attr_get dst x)"
  by (rule tc_copy_attrs_get)

text \<open>
  The conversions between \<open>vattrs\<close> and \<open>struct stat\<close> are inverse to each other on the attributes the
  mask selects and leave the others alone, whatever the mask.
\<close>

lemma vattrs_stat_roundtrip:
  "vstat2attrs (vattrs2stat a st) a = a \<and> vattrs2stat (vstat2attrs st a) st = st \<and>
   va_masks (vstat2attrs st a) = va_masks a"
  by (simp add: vstat2attrs_def vattrs2stat_def Let_def cong: if_cong)

text \<open>
  \<open>tc_cmp_file\<close> decides whether two files are the same for descriptors and paths; for two handles
  of the same size and type it answers the opposite: true exactly if their bytes differ.
\<close>

theorem tc_cmp_file_cases:
  "tc_cmp_file (vfile_from_fd a) (vfile_from_fd b) = Some (a = b) \<and>
   tc_cmp_file (vfile_from_path p) (vfile_from_path q) = Some (p = q) \<and>
   tc_cmp_file (vfile_from_fd a) (vfile_from_path p) = Some False \<and>
   (handle_ok g \<longrightarrow> handle_ok h \<longrightarrow> handle_bytes g = handle_bytes h \<longrightarrow> handle_type g = handle_type h \<longrightarrow>
      tc_cmp_file \<lparr>vf_type = VFILE_HANDLE, vf_fd = a, vf_ref = HandleRef g\<rparr>
        \<lparr>vf_type = VFILE_HANDLE, vf_fd = b, vf_ref = HandleRef h\<rparr> = Some (g \<noteq> h))"
  by (auto simp: tc_cmp_file_def vfile_from_fd_def vfile_from_path_def vf_path_def vf_handle_def memcmp_differs_def
      handle_ok_def)

lemma tc_cmp_file_cases_witness:
  "tc_cmp_file \<lparr>vf_type = VFILE_HANDLE, vf_fd = 3, vf_ref = HandleRef \<lparr>handle_bytes = 2, handle_type = 1, f_handle = ''ab''\<rparr>\<rparr>
     \<lparr>vf_type = VFILE_HANDLE, vf_fd = 3, vf_ref = HandleRef \<lparr>handle_bytes = 2, handle_type = 1, f_handle = ''ab''\<rparr>\<rparr> =
   Some False"
  using tc_cmp_file_cases [of 3 3 "[]" "[]" "\<lparr>handle_bytes = 2, handle_type = 1, f_handle = ''ab''\<rparr>"
      "\<lparr>handle_bytes = 2, handle_type = 1, f_handle = ''ab''\<rparr>"]
  by (simp add: handle_ok_def)

end
