(* ===== verification/Iovec_Utils.thy ===== *)
theory Iovec_Utils
  imports Tc_Api
begin

text \<open>
  Splitting an array of I/O vectors into compounds that fit a size limit, and putting the results
  back together (\<^verbatim>\<open>util/iovec_utils.cpp\<close>).  All sizes are 64-bit words, so the places where
  the source subtracts past zero are visible.  The splitting loop need not end, so it runs on fuel:
  \<open>None\<close> is a loop that has not finished yet, or a failed assertion on the file of a vector.
\<close>

section \<open>The overhead of one vector\<close>

definition OPSIZE :: u64 where "OPSIZE = 4"
definition PUTFH4SZ :: u64 where "PUTFH4SZ = 16"
definition LOOKUP4SZ :: u64 where "LOOKUP4SZ = 16"
definition OPEN4SZ :: u64 where "OPEN4SZ = 136"
definition CLOSE4SZ :: u64 where "CLOSE4SZ = 20"
definition COMPOUND4SZ :: u64 where "COMPOUND4SZ = 40"
definition NFS4_FHSIZE :: u64 where "NFS4_FHSIZE = 128"
definition CPDSIZE :: u64 where "CPDSIZE = 192 + 256 + COMPOUND4SZ"
definition RDWRSIZE :: u64 where "RDWRSIZE = 48"
definition TC_SPLIT_THRESHOLD :: u64 where "TC_SPLIT_THRESHOLD = 4096"

text \<open>
  What \<open>tc_path_tokenize(path, NULL)\<close> returns on a path given as a string: the number of its
  components (the lemma \<open>tokenize_count_correct\<close> below).
\<close>

definition tokenize_count :: "string \<Rightarrow> int" where
  "tokenize_count p = (if length p \<ge> TC_PATH_MAX then -1 else c_int (int (length (path_comps p))))"

definition lookup_cost :: "string \<Rightarrow> u64" where
  "lookup_cost p = of_nat (length p) + (OPSIZE + LOOKUP4SZ) * of_int (tokenize_count p - 1)"

text \<open>\<open>None\<close> is a failed assertion: no file, no path or handle, or an absolute path below the current file.\<close>

definition tc_get_iov_overhead :: "viovec \<Rightarrow> u64 option" where
  "tc_get_iov_overhead iov =
     (let rdwr_bytes = OPSIZE + RDWRSIZE
      in case vf_type (vi_file iov) of
           VFILE_DESCRIPTOR \<Rightarrow> Some (OPSIZE + NFS4_FHSIZE + rdwr_bytes)
         | VFILE_PATH \<Rightarrow>
             (case vf_path (vi_file iov) of
                None \<Rightarrow> None
              | Some p \<Rightarrow> Some ((if is_abs p then OPSIZE else PUTFH4SZ + NFS4_FHSIZE) + lookup_cost p +
                  (OPEN4SZ + CLOSE4SZ + OPSIZE * 3) + rdwr_bytes))
         | VFILE_HANDLE \<Rightarrow>
             (case vf_handle (vi_file iov) of
                None \<Rightarrow> None
              | Some _ \<Rightarrow> Some (PUTFH4SZ + NFS4_FHSIZE + (OPEN4SZ + CLOSE4SZ + OPSIZE * 2) + rdwr_bytes))
         | VFILE_CURRENT \<Rightarrow>
             (case vf_path (vi_file iov) of
                None \<Rightarrow> Some rdwr_bytes
              | Some p \<Rightarrow> if is_abs p then None else Some (lookup_cost p + (OPEN4SZ + CLOSE4SZ + OPSIZE * 3) + rdwr_bytes))
         | VFILE_SAVED \<Rightarrow> Some (OPSIZE + rdwr_bytes)
         | VFILE_NULL \<Rightarrow> None)"

section \<open>Splitting\<close>

text \<open>The vector that \<open>add_iov_to_cpd\<close> pushes: \<open>len\<close> bytes of \<open>iov\<close> from offset \<open>i_off\<close> on.\<close>

definition split_piece :: "viovec \<Rightarrow> u64 \<Rightarrow> u64 \<Rightarrow> viovec" where
  "split_piece iov i_off len =
     iov\<lparr>vi_offset := vi_offset iov + i_off, vi_data := vi_data iov + i_off, vi_length := len,
         vi_is_creation := (vi_is_creation iov \<and> i_off = 0),
         vi_is_last_of_multiparts := (i_off + len = vi_length iov)\<rparr>"

text \<open>
  The loop: the vectors not yet finished, the offset in the first of them, the vectors and the size
  of the current compound, and the compounds finished.  A piece names the file of its vector, so its
  overhead is that of the vector.
\<close>

fun split_loop :: "nat \<Rightarrow> u64 \<Rightarrow> viovec list \<Rightarrow> u64 \<Rightarrow> viovec list \<Rightarrow> u64 \<Rightarrow> viovec list list \<Rightarrow> viovec list list option" where
  "split_loop 0 size_limit iovs i_off cur_cpd cpd_size parts = None"
| "split_loop (Suc fuel) size_limit [] i_off cur_cpd cpd_size parts =
     Some (if cur_cpd \<noteq> [] then parts @ [cur_cpd] else parts)"
| "split_loop (Suc fuel) size_limit (i_iov # iovs) i_off cur_cpd cpd_size parts =
     (case tc_get_iov_overhead i_iov of None \<Rightarrow> None | Some overhead \<Rightarrow>
      let space_left = size_limit - cpd_size;
          data_remain = overhead + vi_length i_iov - i_off
      in if data_remain \<le> space_left then
           let len = vi_length i_iov - i_off; iov = split_piece i_iov i_off len
           in split_loop fuel size_limit iovs 0 (cur_cpd @ [iov]) (cpd_size + (overhead + len)) parts
         else
           let tiny_head = (space_left \<le> TC_SPLIT_THRESHOLD);
               tiny_tail = (data_remain + CPDSIZE \<le> size_limit \<and> data_remain - space_left \<le> TC_SPLIT_THRESHOLD)
           in if tiny_head \<or> tiny_tail
              then split_loop fuel size_limit (i_iov # iovs) i_off [] CPDSIZE (parts @ [cur_cpd])
              else
                let len = size_limit - cpd_size; iov = split_piece i_iov i_off len
                in split_loop fuel size_limit (i_iov # iovs) (i_off + len) [] CPDSIZE (parts @ [cur_cpd @ [iov]]))"

definition tc_split_iov_array :: "nat \<Rightarrow> viovec list \<Rightarrow> u64 \<Rightarrow> viovec list list option" where
  "tc_split_iov_array fuel iova size_limit = split_loop fuel size_limit iova 0 [] CPDSIZE []"

section \<open>Restoring\<close>

text \<open>
  The state of \<open>vrestore_iov_array\<close>: the vectors already updated, the vectors from the current one
  on and the offset in the current one.  \<open>None\<close> is a read of a vector beyond the array.
\<close>

type_synonym restore_state = "viovec list \<times> viovec list \<times> u64"

fun restore_advance :: "bool \<Rightarrow> restore_state \<Rightarrow> restore_state option" where
  "restore_advance eof (finished, i_iov # iovs, i_off) =
     Some (finished @ [i_iov\<lparr>vi_length := i_off, vi_is_eof := eof\<rparr>], iovs, 0)"
| "restore_advance eof (finished, [], i_off) = None"

fun restore_match :: "viovec \<Rightarrow> restore_state \<Rightarrow> bool option" where
  "restore_match iov (finished, i_iov # iovs, i_off) =
     map_option (\<lambda>same. same \<and> vi_offset iov = vi_offset i_iov + i_off) (tc_cmp_file (vi_file iov) (vi_file i_iov))"
| "restore_match iov (finished, [], i_off) = None"

text \<open>One round of the inner loop; the flag is \<open>res\<close>.\<close>

definition restore_piece :: "viovec \<Rightarrow> restore_state \<Rightarrow> (bool \<times> restore_state) option" where
  "restore_piece iov st =
     Option.bind (restore_match iov st) (\<lambda>ok.
     Option.bind (if ok then Some st else restore_advance False st) (\<lambda>st1.
     Option.bind (restore_match iov st1) (\<lambda>ok1.
       if \<not> ok1 then Some (False, st1)
       else case st1 of (finished, iovs, i_off) \<Rightarrow>
         let st2 = (finished, iovs, i_off + vi_length iov)
         in if vi_is_eof iov \<or> i_off + vi_length iov = vi_length (hd iovs)
            then map_option (Pair True) (restore_advance (vi_is_eof iov) st2)
            else Some (True, st2))))"

fun restore_loop :: "viovec list \<Rightarrow> restore_state \<Rightarrow> (bool \<times> restore_state) option" where
  "restore_loop [] st = Some (True, st)"
| "restore_loop (iov # iovs) st =
     Option.bind (restore_piece iov st) (\<lambda>(res, st1). if res then restore_loop iovs st1 else Some (False, st1))"

definition vrestore_iov_array :: "viovec list \<Rightarrow> viovec list list \<Rightarrow> (bool \<times> viovec list) option" where
  "vrestore_iov_array iova parts =
     Option.bind (restore_loop (concat parts) ([], iova, 0)) (\<lambda>(res, st).
     Option.bind (if snd (snd st) \<noteq> 0 then restore_advance False st else Some st) (\<lambda>(finished, iovs, i_off).
       Some (res, finished @ iovs)))"

definition tc_merge_iov_array :: "viovec list \<Rightarrow> bool" where
  "tc_merge_iov_array iova = False"

section \<open>Facts\<close>

lemma tokenize_count_correct:
  assumes "cstring_at m path p" "path \<noteq> NULL"
  shows "tc_path_tokenize m path False ok = (tokenize_count p, None)"
proof -
  have len: "strnlen m path TC_PATH_MAX = min TC_PATH_MAX (length p)" by (rule strnlen_cstring [OF assms(1)])
  have "length (tc_get_path_components m (mkslice path (length p))) = length (path_comps p)"
    using tc_get_path_components_refines(1) [OF slice_of_cstring(2) [OF assms(1)]] slice_of_cstring(1) [OF assms(1)]
    by (metis length_map)
  then show ?thesis using assms(2)
    by (auto simp: tc_path_tokenize_def tc_path_tokenize_s_def tokenize_count_def len min_def Let_def)
qed

lemma overhead_file: "vi_file a = vi_file b \<Longrightarrow> tc_get_iov_overhead a = tc_get_iov_overhead b"
  by (simp only: tc_get_iov_overhead_def)

lemma split_piece_simps [simp]:
  "vi_length (split_piece iov off len) = len" "vi_offset (split_piece iov off len) = vi_offset iov + off"
  "vi_file (split_piece iov off len) = vi_file iov" "vi_is_eof (split_piece iov off len) = vi_is_eof iov"
  "vi_is_last_of_multiparts (split_piece iov off len) = (off + len = vi_length iov)"
  by (simp_all add: split_piece_def)

lemma split_piece_overhead [simp]: "tc_get_iov_overhead (split_piece iov off len) = tc_get_iov_overhead iov"
  by (rule overhead_file) simp

text \<open>The specification: the pieces of one vector follow each other without gap or overlap and end where it ends.\<close>

fun tiles :: "viovec \<Rightarrow> u64 \<Rightarrow> viovec list \<Rightarrow> bool" where
  "tiles iov off [] = False"
| "tiles iov off [p] = (p = split_piece iov off (vi_length iov - off) \<and> off \<le> vi_length iov)"
| "tiles iov off (p # ps) =
     (unat off + unat (vi_length p) < unat (vi_length iov) \<and> p = split_piece iov off (vi_length p) \<and>
      tiles iov (off + vi_length p) ps)"

text \<open>The overhead of a vector as a number, what the code reckons for a vector, and the size of a compound.\<close>

definition overhead :: "viovec \<Rightarrow> nat" where
  "overhead iov = unat (the (tc_get_iov_overhead iov))"

definition iov_cost :: "viovec \<Rightarrow> nat" where
  "iov_cost iov = unat (the (tc_get_iov_overhead iov) + vi_length iov)"

definition cpd_cost :: "viovec list \<Rightarrow> nat" where
  "cpd_cost iovs = unat CPDSIZE + sum_list (map iov_cost iovs)"

definition part_ok :: "u64 \<Rightarrow> viovec list \<Rightarrow> bool" where
  "part_ok size_limit part \<longleftrightarrow> part \<noteq> [] \<and> cpd_cost part \<le> unat size_limit + overhead (last part)"

text \<open>
  How a split goes wrong: of a vector with \<open>n\<close> bytes left, which fit a compound of their own but not with
  the overhead, a piece of at least \<open>n\<close> bytes is cut, and the last piece has what is then left, which is
  nothing or less.
\<close>

fun past_end :: "u64 \<Rightarrow> viovec \<Rightarrow> u64 \<Rightarrow> viovec list \<Rightarrow> bool" where
  "past_end L iov off [p, q] =
     (p = split_piece iov off (vi_length p) \<and> q = split_piece iov (off + vi_length p) (vi_length iov - (off + vi_length p)) \<and>
      off \<le> vi_length iov \<and>
      (let n = unat (vi_length iov) - unat off
       in n \<le> unat (vi_length p) \<and> unat CPDSIZE + unat (vi_length p) \<le> unat L \<and> unat L < unat CPDSIZE + overhead iov + n))"
| "past_end L iov off (p # q # r # ps) =
     (unat off + unat (vi_length p) < unat (vi_length iov) \<and> p = split_piece iov off (vi_length p) \<and>
      past_end L iov (off + vi_length p) (q # r # ps))"
| "past_end L iov off ps = False"

definition covers :: "u64 \<Rightarrow> viovec \<Rightarrow> u64 \<Rightarrow> viovec list \<Rightarrow> bool" where
  "covers L iov off ps \<longleftrightarrow> tiles iov off ps \<or> past_end L iov off ps"

lemma covers_Cons:
  assumes "covers L iov (off + n) ps" "unat off + unat n < unat (vi_length iov)"
  shows "covers L iov off (split_piece iov off n # ps)"
proof (cases "tiles iov (off + n) ps")
  case True
  then show ?thesis using assms(2) by (cases ps) (auto simp: covers_def)
next
  case False
  then have "past_end L iov (off + n) ps" using assms(1) by (simp add: covers_def)
  moreover from this obtain q r rs where "ps = q # r # rs" by (cases ps rule: remdups_adj.cases) auto
  ultimately show ?thesis using assms(2) by (auto simp: covers_def)
qed

text \<open>
  What splitting needs: every assertion on the file holds, the overhead is at most a page, the limit leaves room for
  more than a page, and no length is near the end of the number range.
\<close>

definition splittable :: "u64 \<Rightarrow> viovec \<Rightarrow> bool" where
  "splittable L iov \<longleftrightarrow> tc_get_iov_overhead iov \<noteq> None \<and> overhead iov \<le> unat TC_SPLIT_THRESHOLD \<and>
     unat CPDSIZE + unat TC_SPLIT_THRESHOLD < unat L \<and> unat (vi_length iov) < 2 ^ 63"

text \<open>A vector that fits a compound of its own is never cut past its end.\<close>

definition fits :: "u64 \<Rightarrow> viovec \<Rightarrow> bool" where
  "fits L iov \<longleftrightarrow> splittable L iov \<and> unat CPDSIZE + overhead iov + unat (vi_length iov) \<le> unat L"

lemma past_end_long: "past_end L iov off ps \<Longrightarrow> unat L < unat CPDSIZE + overhead iov + unat (vi_length iov)"
  by (induction L iov off ps rule: past_end.induct) (auto simp: Let_def)

lemma fits_covers: "fits L iov \<Longrightarrow> covers L iov off ps = tiles iov off ps"
  using past_end_long [of L iov off ps] by (auto simp: covers_def fits_def)

definition cpd_inv :: "u64 \<Rightarrow> viovec list \<Rightarrow> u64 \<Rightarrow> bool" where
  "cpd_inv size_limit cur_cpd cpd_size \<longleftrightarrow> unat cpd_size = cpd_cost cur_cpd \<and> cpd_size \<le> size_limit"

lemma CPDSIZE_nat: "unat CPDSIZE = 488"
  by (simp add: CPDSIZE_def COMPOUND4SZ_def)

lemma THRESHOLD_nat: "unat TC_SPLIT_THRESHOLD = 4096"
  by (simp add: TC_SPLIT_THRESHOLD_def)

lemma cpd_cost_append: "cpd_cost (xs @ ys) = cpd_cost xs + sum_list (map iov_cost ys)"
  by (simp add: cpd_cost_def)

lemma cpd_inv_fresh: "unat CPDSIZE \<le> unat L \<Longrightarrow> cpd_inv L [] CPDSIZE"
  by (simp add: cpd_inv_def cpd_cost_def word_le_nat_alt)

lemma splittable_room:
  assumes "splittable L iov"
  shows "unat (L - CPDSIZE) = unat L - 488" "4096 < unat L - 488" "overhead iov \<le> 4096" "cpd_inv L [] CPDSIZE"
    "unat (vi_length iov) < 2 ^ 63" "tc_get_iov_overhead iov = Some (of_nat (overhead iov))"
  using assms by (auto simp: splittable_def CPDSIZE_nat THRESHOLD_nat unat_sub_fits cpd_inv_fresh overhead_def)

text \<open>What is left of a vector, with the overhead; the offset may be past the end by less than the overhead.\<close>

lemma data_remain:
  assumes "splittable L iov" "unat off \<le> overhead iov + unat (vi_length iov)"
  shows "unat (the (tc_get_iov_overhead iov) + vi_length iov - off) = overhead iov + unat (vi_length iov) - unat off"
proof -
  have "unat (the (tc_get_iov_overhead iov) + vi_length iov) = overhead iov + unat (vi_length iov)"
    using splittable_room(3,5) [OF assms(1)] by (simp add: unat_add_fits overhead_def)
  then show ?thesis using assms(2) by (simp add: unat_sub_fits)
qed

section \<open>The rounds of the loop\<close>

text \<open>What is left fits the room left: it is added and the loop goes on to the next vector.\<close>

lemma split_loop_fit:
  assumes iov: "splittable L iov" and cpd: "cpd_inv L cur cpd" and off: "unat off \<le> overhead iov + unat (vi_length iov)"
    and room: "overhead iov + unat (vi_length iov) - unat off \<le> unat L - unat cpd"
  defines "p \<equiv> split_piece iov off (vi_length iov - off)"
  shows "\<exists>cpd'. split_loop (Suc f) L (iov # iovs) off cur cpd parts = split_loop f L iovs 0 (cur @ [p]) cpd' parts \<and>
    cpd_inv L (cur @ [p]) cpd'"
proof -
  obtain ov where some [simp]: "tc_get_iov_overhead iov = Some ov" using splittable_room(6) [OF iov] by simp
  have cl: "unat cpd \<le> unat L" using cpd by (simp add: cpd_inv_def word_le_nat_alt)
  have dr0: "unat (ov + vi_length iov - off) = overhead iov + unat (vi_length iov) - unat off" using data_remain [OF iov off] by simp
  then have dr: "unat (ov + (vi_length iov - off)) = overhead iov + unat (vi_length iov) - unat off" by (simp add: add_diff_eq)
  have c: "ov + vi_length iov - off \<le> L - cpd" using room cl by (simp add: word_le_nat_alt dr0 unat_sub_fits)
  have "unat (cpd + (ov + (vi_length iov - off))) = unat cpd + unat (ov + (vi_length iov - off))"
    using room cl dr unat_u64 [of L] by (intro unat_add_fits) simp
  then have "cpd_inv L (cur @ [p]) (cpd + (ov + (vi_length iov - off)))"
    using cpd room cl dr by (simp add: cpd_inv_def cpd_cost_append iov_cost_def p_def word_le_nat_alt)
  then show ?thesis using c by (intro exI [of _ "cpd + (ov + (vi_length iov - off))"]) (simp add: p_def Let_def)
qed

definition tiny_split :: "u64 \<Rightarrow> viovec \<Rightarrow> u64 \<Rightarrow> u64 \<Rightarrow> bool" where
  "tiny_split L iov off cpd \<longleftrightarrow> L - cpd \<le> TC_SPLIT_THRESHOLD \<or>
     (the (tc_get_iov_overhead iov) + vi_length iov - off + CPDSIZE \<le> L \<and>
      the (tc_get_iov_overhead iov) + vi_length iov - off - (L - cpd) \<le> TC_SPLIT_THRESHOLD)"

lemma split_loop_new_part:
  "tc_get_iov_overhead iov = Some ov \<Longrightarrow> \<not> ov + vi_length iov - off \<le> L - cpd \<Longrightarrow> tiny_split L iov off cpd \<Longrightarrow>
   split_loop (Suc f) L (iov # iovs) off cur cpd parts = split_loop f L (iov # iovs) off [] CPDSIZE (parts @ [cur])"
  by (simp add: Let_def tiny_split_def)

lemma split_loop_split:
  "tc_get_iov_overhead iov = Some ov \<Longrightarrow> \<not> ov + vi_length iov - off \<le> L - cpd \<Longrightarrow> \<not> tiny_split L iov off cpd \<Longrightarrow>
   split_loop (Suc f) L (iov # iovs) off cur cpd parts =
     split_loop f L (iov # iovs) (off + (L - cpd)) [] CPDSIZE (parts @ [cur @ [split_piece iov off (L - cpd)]])"
  by (auto simp: Let_def tiny_split_def)

declare split_loop.simps(3) [simp del]

lemma cut_part_ok:
  assumes "cpd_inv L cur cpd"
  shows "part_ok L (cur @ [split_piece iov off (L - cpd)])"
proof -
  have cl: "unat cpd \<le> unat L" using assms by (simp add: cpd_inv_def word_le_nat_alt)
  have "unat (the (tc_get_iov_overhead iov) + (L - cpd)) \<le> overhead iov + unat (L - cpd)"
    by (simp add: overhead_def unat_word_ariths)
  then show ?thesis using assms cl by (simp add: part_ok_def cpd_cost_append iov_cost_def cpd_inv_def unat_sub_fits overhead_def)
qed

text \<open>One vector is finished, and its pieces cover it.\<close>

definition consumed :: "nat \<Rightarrow> u64 \<Rightarrow> viovec \<Rightarrow> u64 \<Rightarrow> viovec list \<Rightarrow> viovec list \<Rightarrow> viovec list list \<Rightarrow>
    viovec list list option \<Rightarrow> bool" where
  "consumed f L iov off iovs cur parts r \<longleftrightarrow> (\<exists>f' cur' cpd' parts' ps.
     r = split_loop f' L iovs 0 cur' cpd' parts' \<and> f \<le> f' \<and> covers L iov off ps \<and>
     concat parts' @ cur' = concat parts @ cur @ ps \<and> cpd_inv L cur' cpd' \<and> (\<forall>p \<in> set parts'. part_ok L p))"

lemma consumed_cut:
  assumes "consumed f L iov (off + n) iovs [] (parts @ [cur @ [split_piece iov off n]]) r" "unat off + unat n < unat (vi_length iov)"
  shows "consumed f L iov off iovs cur parts r"
proof -
  from assms(1) obtain f' cur' cpd' parts' ps where c: "r = split_loop f' L iovs 0 cur' cpd' parts'" "f \<le> f'" "covers L iov (off + n) ps"
    "concat parts' @ cur' = concat parts @ cur @ split_piece iov off n # ps" "cpd_inv L cur' cpd'" "\<forall>p \<in> set parts'. part_ok L p"
    by (auto simp: consumed_def)
  then show ?thesis using covers_Cons [OF c(3) assms(2)] unfolding consumed_def
    by (intro exI [of _ f'] exI [of _ cur'] exI [of _ cpd'] exI [of _ parts'] exI [of _ "split_piece iov off n # ps"]) simp
qed

lemma consumed_fit:
  assumes iov: "splittable L iov" and cpd: "cpd_inv L cur cpd" and off: "off \<le> vi_length iov"
    and room: "overhead iov + unat (vi_length iov) - unat off \<le> unat L - unat cpd" and ok: "\<forall>p \<in> set parts. part_ok L p" and f: "f \<le> g"
  shows "consumed f L iov off iovs cur parts (split_loop (Suc g) L (iov # iovs) off cur cpd parts)"
proof -
  have "unat off \<le> overhead iov + unat (vi_length iov)" using off by (simp add: word_le_nat_alt)
  from split_loop_fit [OF iov cpd this room, of g iovs parts] obtain cpd'
    where "split_loop (Suc g) L (iov # iovs) off cur cpd parts = split_loop g L iovs 0 (cur @ [split_piece iov off (vi_length iov - off)]) cpd' parts"
      "cpd_inv L (cur @ [split_piece iov off (vi_length iov - off)]) cpd'" by blast
  then show ?thesis using off ok f unfolding consumed_def
    by (intro exI [of _ g] exI [of _ "cur @ [split_piece iov off (vi_length iov - off)]"] exI [of _ cpd'] exI [of _ parts]
        exI [of _ "[split_piece iov off (vi_length iov - off)]"]) (simp add: covers_def)
qed

text \<open>After a cut past the end the next compound takes the rest.\<close>

lemma consumed_past_end:
  assumes iov: "splittable L iov" and cpd: "cpd_inv L cur cpd" and off: "off \<le> vi_length iov"
    and n: "unat (vi_length iov) - unat off \<le> unat (L - cpd)" "unat (L - cpd) < overhead iov + unat (vi_length iov) - unat off"
      "unat L < 488 + overhead iov + (unat (vi_length iov) - unat off)"
    and ok: "\<forall>p \<in> set parts. part_ok L p" and f: "f \<le> g"
  shows "consumed f L iov off iovs cur parts
    (split_loop (Suc g) L (iov # iovs) (off + (L - cpd)) [] CPDSIZE (parts @ [cur @ [split_piece iov off (L - cpd)]]))"
proof -
  let ?S = "L - cpd" and ?parts = "parts @ [cur @ [split_piece iov off (L - cpd)]]"
  let ?p = "split_piece iov off ?S" and ?q = "split_piece iov (off + ?S) (vi_length iov - (off + ?S))"
  note room = splittable_room [OF iov]
  have off': "unat off \<le> unat (vi_length iov)" using off by (simp add: word_le_nat_alt)
  have cl: "unat cpd \<le> unat L" "488 \<le> unat cpd" using cpd by (auto simp: cpd_inv_def cpd_cost_def CPDSIZE_nat word_le_nat_alt)
  have sum: "unat (off + ?S) = unat off + unat ?S" using n(2) off' room(3,5) by (intro unat_add_fits) simp
  have fit: "unat (off + ?S) \<le> overhead iov + unat (vi_length iov)"
    "overhead iov + unat (vi_length iov) - unat (off + ?S) \<le> unat L - unat CPDSIZE"
    using sum n off' room(2,3) by (auto simp: CPDSIZE_nat)
  from split_loop_fit [OF iov room(4) fit, of g iovs ?parts] obtain cpd'
    where q: "split_loop (Suc g) L (iov # iovs) (off + ?S) [] CPDSIZE ?parts = split_loop g L iovs 0 ([] @ [?q]) cpd' ?parts" "cpd_inv L ([] @ [?q]) cpd'"
    by blast
  have "past_end L iov off [?p, ?q]" using off n(1,3) cl by (simp add: Let_def CPDSIZE_nat unat_sub_fits)
  then show ?thesis using q ok f cut_part_ok [OF cpd, of iov off] unfolding consumed_def
    by (intro exI [of _ g] exI [of _ "[?q]"] exI [of _ cpd'] exI [of _ ?parts] exI [of _ "[?p, ?q]"]) (simp add: covers_def)
qed

text \<open>From the beginning of a compound, every round but the last two takes a whole compound of data.\<close>

lemma split_loop_fresh:
  assumes iov: "splittable L iov" and "off \<le> vi_length iov" "\<forall>p \<in> set parts. part_ok L p"
    and "(unat (vi_length iov) - unat off) div (unat L - 488) + 2 + f \<le> g"
  shows "consumed f L iov off iovs [] parts (split_loop g L (iov # iovs) off [] CPDSIZE parts)"
  using assms(2-)
proof (induction "unat (vi_length iov) - unat off" arbitrary: off parts g rule: less_induct)
  case less
  let ?F = "L - CPDSIZE" and ?ov = "the (tc_get_iov_overhead iov)" and ?r = "unat (vi_length iov) - unat off"
  note room = splittable_room [OF iov]
  have some: "tc_get_iov_overhead iov = Some ?ov" using room(6) by simp
  have off: "unat off \<le> unat (vi_length iov)" using less.prems(1) by (simp add: word_le_nat_alt)
  obtain g' where g: "g = Suc g'" using less.prems(3) by (cases g) auto
  obtain g'' where g2: "g' = Suc g''" using less.prems(3) g by (cases g') auto
  show ?case
  proof (cases "overhead iov + unat (vi_length iov) - unat off \<le> unat L - unat CPDSIZE")
    case True
    then show ?thesis unfolding g using less.prems g
      by (intro consumed_fit [OF iov room(4)]) (auto simp: CPDSIZE_nat)
  next
    case False
    have dr: "unat (?ov + vi_length iov - off) = overhead iov + ?r" using data_remain [OF iov, of off] off by simp
    have nofit: "\<not> ?ov + vi_length iov - off \<le> ?F" using False off by (simp add: word_le_nat_alt dr room(1) CPDSIZE_nat)
    have "unat (?ov + vi_length iov - off + CPDSIZE) = overhead iov + ?r + 488"
      using dr room(3,5) by (subst unat_add_fits) (simp_all add: CPDSIZE_nat)
    moreover have "unat L < overhead iov + ?r + 488" using False off room(2) by (simp add: CPDSIZE_nat)
    ultimately have nt: "\<not> tiny_split L iov off CPDSIZE"
      using room(1,2) by (simp add: tiny_split_def word_le_nat_alt THRESHOLD_nat)
    note step = split_loop_split [OF some nofit nt, of g' iovs "[]" parts, folded g]
    show ?thesis
    proof (cases "?r \<le> unat L - 488")
      case True
      show ?thesis unfolding step g2 using True False off room(1) less.prems g g2
        by (intro consumed_past_end [OF iov room(4)]) (auto simp: CPDSIZE_nat)
    next
      case big: False
      define F where "F = unat L - 488"
      have F: "unat ?F = F" "0 < F" "F < ?r" using room(1,2) big by (simp_all add: F_def)
      have sum: "unat (off + ?F) = unat off + F" using F room(5) by (subst unat_add_fits) simp_all
      have r': "unat (vi_length iov) - unat (off + ?F) = ?r - F" unfolding sum by simp
      have div: "?r div F = Suc ((?r - F) div F)" using F by (simp add: div_if)
      have "consumed f L iov (off + ?F) iovs [] (parts @ [[] @ [split_piece iov off ?F]])
          (split_loop g' L (iov # iovs) (off + ?F) [] CPDSIZE (parts @ [[] @ [split_piece iov off ?F]]))"
      proof (rule less.hyps)
        show "unat (vi_length iov) - unat (off + ?F) < ?r" unfolding r' using F by simp
        show "off + ?F \<le> vi_length iov" using F(3) by (simp add: word_le_nat_alt sum)
        show "\<forall>p \<in> set (parts @ [[] @ [split_piece iov off ?F]]). part_ok L p"
          using less.prems(2) cut_part_ok [OF room(4), of iov off] by simp
        show "(unat (vi_length iov) - unat (off + ?F)) div (unat L - 488) + 2 + f \<le> g'"
          using less.prems(3) div g unfolding r' F_def [symmetric] by simp
      qed
      from consumed_cut [OF this] show ?thesis unfolding step using F by simp
    qed
  qed
qed

text \<open>One vector takes at most three rounds more than the compounds its data fills.\<close>

definition rounds :: "u64 \<Rightarrow> viovec \<Rightarrow> nat" where
  "rounds L iov = unat (vi_length iov) div (unat L - 488) + 3"

lemma split_loop_consume:
  assumes iov: "splittable L iov" and cpd: "cpd_inv L cur cpd" and ok: "\<forall>p \<in> set parts. part_ok L p" and g: "rounds L iov + f \<le> g"
  shows "consumed f L iov 0 iovs cur parts (split_loop g L (iov # iovs) 0 cur cpd parts)"
proof (cases "cur = []")
  case True
  then have "cpd = CPDSIZE" using cpd by (simp add: cpd_inv_def cpd_cost_def word_unat_eq_iff)
  then show ?thesis using split_loop_fresh [OF iov _ ok, of 0 f g iovs] g True by (simp add: rounds_def)
next
  case False
  let ?ov = "the (tc_get_iov_overhead iov)" and ?len = "unat (vi_length iov)" and ?S = "L - cpd"
  note room = splittable_room [OF iov]
  have some: "tc_get_iov_overhead iov = Some ?ov" using room(6) by simp
  have cl: "unat cpd \<le> unat L" using cpd by (simp add: cpd_inv_def word_le_nat_alt)
  have S: "unat ?S = unat L - unat cpd" using cl by (simp add: unat_sub_fits)
  obtain g' where g': "g = Suc g'" "?len div (unat L - 488) + 2 + f \<le> g'" using g by (cases g) (auto simp: rounds_def)
  obtain g'' where g2: "g' = Suc g''" "f \<le> g''" using g'(2) by (cases g') auto
  show ?thesis
  proof (cases "overhead iov + ?len \<le> unat L - unat cpd")
    case True
    then show ?thesis unfolding g'(1) using ok g'(2) by (intro consumed_fit [OF iov cpd]) auto
  next
    case nofit: False
    have dr: "unat (?ov + vi_length iov - 0) = overhead iov + ?len" using data_remain [OF iov, of 0] by simp
    then have nf: "\<not> ?ov + vi_length iov - 0 \<le> ?S" using nofit by (simp add: word_le_nat_alt S)
    show ?thesis
    proof (cases "tiny_split L iov 0 cpd")
      case True
      have "part_ok L cur" using False cpd by (simp add: part_ok_def cpd_inv_def word_le_nat_alt)
      then have "consumed f L iov 0 iovs [] (parts @ [cur]) (split_loop g' L (iov # iovs) 0 [] CPDSIZE (parts @ [cur]))"
        using split_loop_fresh [OF iov _ _, of 0 "parts @ [cur]" f g' iovs] g'(2) ok by simp
      then show ?thesis unfolding g'(1) split_loop_new_part [OF some nf True] by (simp add: consumed_def)
    next
      case nt: False
      note step = split_loop_split [OF some nf nt, of g' iovs cur parts, folded g'(1)]
      show ?thesis
      proof (cases "unat ?S < ?len")
        case True
        have "(?len - unat ?S) div (unat L - 488) \<le> ?len div (unat L - 488)" by (intro div_le_mono) simp
        then have "consumed f L iov (0 + ?S) iovs [] (parts @ [cur @ [split_piece iov 0 ?S]])
            (split_loop g' L (iov # iovs) (0 + ?S) [] CPDSIZE (parts @ [cur @ [split_piece iov 0 ?S]]))"
          using True g'(2) ok cut_part_ok [OF cpd, of iov 0] by (intro split_loop_fresh [OF iov]) (auto simp: word_le_nat_alt)
        from consumed_cut [OF this] show ?thesis unfolding step using True by simp
      next
        case past: False
        have "unat (?ov + vi_length iov + CPDSIZE) = overhead iov + ?len + 488"
          using dr room(3,5) by (subst unat_add_fits) (simp_all add: CPDSIZE_nat)
        moreover have "unat (?ov + vi_length iov - ?S) = overhead iov + ?len - unat ?S"
          using dr nofit S by (simp add: unat_sub_fits)
        ultimately have "unat L < 488 + overhead iov + ?len"
          using nt past room(3) by (auto simp: tiny_split_def word_le_nat_alt THRESHOLD_nat)
        then show ?thesis unfolding step g2(1) using past nofit S ok g2(2)
          by (intro consumed_past_end [OF iov cpd]) auto
      qed
    qed
  qed
qed

lemma split_loop_correct:
  assumes "\<forall>iov \<in> set iovs. splittable L iov" "cpd_inv L cur cpd" "\<forall>p \<in> set parts. part_ok L p"
    "sum_list (map (rounds L) iovs) < f"
  shows "\<exists>res pss. split_loop f L iovs 0 cur cpd parts = Some res \<and> list_all2 (\<lambda>iov ps. covers L iov 0 ps) iovs pss \<and>
    concat res = concat parts @ cur @ concat pss \<and> (\<forall>p \<in> set res. part_ok L p)"
  using assms
proof (induction iovs arbitrary: f cur cpd parts)
  case Nil
  then obtain g where "f = Suc g" by (cases f) auto
  then show ?case using Nil by (auto simp: part_ok_def cpd_inv_def word_le_nat_alt)
next
  case (Cons iov iovs)
  define g where "g = f - rounds L iov"
  have f: "rounds L iov + g \<le> f" "sum_list (map (rounds L) iovs) < g" using Cons.prems(4) by (auto simp: g_def)
  have iov: "splittable L iov" using Cons.prems(1) by simp
  from split_loop_consume [OF iov Cons.prems(2,3) f(1), of iovs, unfolded consumed_def]
  obtain f' cur' cpd' parts' ps where st: "split_loop f L (iov # iovs) 0 cur cpd parts = split_loop f' L iovs 0 cur' cpd' parts'"
    and r: "g \<le> f'" "covers L iov 0 ps" "concat parts' @ cur' = concat parts @ cur @ ps" "cpd_inv L cur' cpd'"
      "\<forall>p \<in> set parts'. part_ok L p"
    by blast
  have "sum_list (map (rounds L) iovs) < f'" using f(2) r(1) by linarith
  then obtain res pss where "split_loop f' L iovs 0 cur' cpd' parts' = Some res"
      "list_all2 (\<lambda>iov ps. covers L iov 0 ps) iovs pss" "concat res = concat parts' @ cur' @ concat pss" "\<forall>p \<in> set res. part_ok L p"
    using Cons.IH [OF _ r(4,5), of f'] Cons.prems(1) by auto
  then show ?case using r(2,3) unfolding st
    by (intro exI [of _ res] exI [of _ "ps # pss"]) (simp flip: append_assoc)
qed

lemma split_covers:
  assumes "\<forall>iov \<in> set iovs. splittable L iov" "unat CPDSIZE \<le> unat L" "sum_list (map (rounds L) iovs) < fuel"
  shows "\<exists>parts pss. tc_split_iov_array fuel iovs L = Some parts \<and> concat parts = concat pss \<and>
    list_all2 (\<lambda>iov ps. covers L iov 0 ps) iovs pss \<and> (\<forall>part \<in> set parts. part_ok L part)"
  using split_loop_correct [OF assms(1) cpd_inv_fresh [OF assms(2)] _ assms(3), of "[]"] by (auto simp: tc_split_iov_array_def)

section \<open>Restoring the results\<close>

text \<open>
  The result of a piece: its file and offset are kept, and it is short only at the end of the file, which
  only the last piece of a vector reaches.
\<close>

definition replied :: "viovec \<Rightarrow> viovec \<Rightarrow> bool" where
  "replied p q \<longleftrightarrow> vi_file q = vi_file p \<and> vi_offset q = vi_offset p \<and>
     (if vi_is_eof q then vi_is_last_of_multiparts p else vi_length q = vi_length p)"

text \<open>What a vector shall hold in the end: the bytes of all its pieces, and whether the last one met the end of the file.\<close>

definition total :: "viovec \<Rightarrow> viovec list \<Rightarrow> viovec" where
  "total iov qs = iov\<lparr>vi_length := sum_list (map vi_length qs), vi_is_eof := vi_is_eof (last qs)\<rparr>"

lemma restore_piece_last:
  assumes "tc_cmp_file (vi_file iov) (vi_file iov) = Some True" "replied (split_piece iov off (vi_length iov - off)) q"
  shows "restore_piece q (fin, iov # iovs, off) =
    Some (True, fin @ [iov\<lparr>vi_length := off + vi_length q, vi_is_eof := vi_is_eof q\<rparr>], iovs, 0)"
  using assms by (auto simp: restore_piece_def replied_def Let_def split: if_splits)

lemma restore_piece_more:
  assumes "tc_cmp_file (vi_file iov) (vi_file iov) = Some True" "replied (split_piece iov off len) q"
    "unat off + unat len < unat (vi_length iov)"
  shows "restore_piece q (fin, iov # iovs, off) = Some (True, fin, iov # iovs, off + vi_length q) \<and> vi_length q = len"
proof -
  have "unat (off + len) < unat (vi_length iov)"
    using assms(3) unat_u64 [of "vi_length iov"] by (simp add: unat_add_fits)
  then have "off + len \<noteq> vi_length iov" by auto
  then show ?thesis using assms(1,2) by (auto simp: restore_piece_def replied_def Let_def split: if_splits)
qed

lemma restore_tiles:
  assumes same: "tc_cmp_file (vi_file iov) (vi_file iov) = Some True" and "tiles iov off ps" "list_all2 replied ps qs"
  shows "restore_loop (qs @ rest) (fin, iov # iovs, off) =
    restore_loop rest (fin @ [iov\<lparr>vi_length := off + sum_list (map vi_length qs), vi_is_eof := vi_is_eof (last qs)\<rparr>], iovs, 0)"
  using assms(3,2)
proof (induction arbitrary: off rule: list_all2_induct)
  case (Cons p ps q qs)
  show ?case
  proof (cases ps)
    case Nil
    then have "p = split_piece iov off (vi_length iov - off)" "qs = []" using Cons.prems Cons.hyps(2) by auto
    then show ?thesis using restore_piece_last [OF same, of off q fin iovs] Cons.hyps(1) by simp
  next
    case (Cons p' ps')
    then have p: "unat off + unat (vi_length p) < unat (vi_length iov)" "p = split_piece iov off (vi_length p)"
      "tiles iov (off + vi_length p) ps" "qs \<noteq> []"
      using \<open>tiles iov off (p # ps)\<close> \<open>list_all2 replied ps qs\<close> by auto
    have "restore_piece q (fin, iov # iovs, off) = Some (True, fin, iov # iovs, off + vi_length q)" "vi_length q = vi_length p"
      using restore_piece_more [OF same _ p(1), of q fin iovs] \<open>replied p q\<close> p(2) by auto
    then show ?thesis using Cons.IH [OF p(3)] p(4) by (simp add: add.assoc)
  qed
qed simp

lemma restore_loop_tiles:
  assumes "list_all2 (\<lambda>iov ps. tiles iov 0 ps) iovs pss" "list_all2 (list_all2 replied) pss qss"
    "\<forall>iov \<in> set iovs. tc_cmp_file (vi_file iov) (vi_file iov) = Some True"
  shows "restore_loop (concat qss) (fin, iovs, 0) = Some (True, fin @ map2 total iovs qss, [], 0)"
  using assms
proof (induction iovs pss arbitrary: fin qss rule: list_all2_induct)
  case (Cons iov iovs ps pss)
  then obtain qs qss' where q: "qss = qs # qss'" "list_all2 replied ps qs" "list_all2 (list_all2 replied) pss qss'"
    by (auto simp: list_all2_Cons1)
  then show ?case using Cons restore_tiles [of iov 0 ps qs "concat qss'" fin iovs] by (simp add: total_def)
qed simp

lemma vrestore_tiles:
  assumes "list_all2 (\<lambda>iov ps. tiles iov 0 ps) iovs pss" "list_all2 (list_all2 replied) pss qss"
    "\<forall>iov \<in> set iovs. tc_cmp_file (vi_file iov) (vi_file iov) = Some True" "concat results = concat qss"
  shows "vrestore_iov_array iovs results = Some (True, map2 total iovs qss)"
  using restore_loop_tiles [OF assms(1-3), of "[]"] assms(4) by (simp add: vrestore_iov_array_def)

section \<open>Where splitting goes wrong\<close>

lemma split_loop_endless:
  assumes "tc_get_iov_overhead iov = Some ov" "L - CPDSIZE \<le> TC_SPLIT_THRESHOLD" "\<not> ov + vi_length iov \<le> L - CPDSIZE"
  shows "split_loop f L (iov # iovs) 0 [] CPDSIZE parts = None"
proof (induction f arbitrary: parts)
  case (Suc f)
  have "split_loop (Suc f) L (iov # iovs) 0 [] CPDSIZE parts = split_loop f L (iov # iovs) 0 [] CPDSIZE (parts @ [[]])"
    using assms by (intro split_loop_new_part) (simp_all add: tiny_split_def)
  then show ?case using Suc [of "parts @ [[]]"] by simp
qed simp

section \<open>Properties\<close>

text \<open>
  C29: splitting vectors of any length, where each has an overhead of at most a page and fewer than \<open>2 ^ 63\<close> bytes and the
  limit leaves room for more than a page.  The loop ends within three rounds per vector and one for each
  compound its data fills; no compound exceeds the limit by more than the overhead of its last vector; and the
  pieces of each vector follow each other, in order, without gap or overlap, and end where the vector
  ends, unless at some point what was left of it fitted an empty compound but not together with the overhead: then
  the last but one piece goes past the end.  A vector that fits a compound together with its overhead is always cut well.
\<close>

theorem tc_split_iov_array_tiles:
  assumes "\<forall>iov \<in> set iovs. splittable L iov" "unat CPDSIZE \<le> unat L" "sum_list (map (rounds L) iovs) < fuel"
  shows "\<exists>parts pss. tc_split_iov_array fuel iovs L = Some parts \<and> concat parts = concat pss \<and>
    list_all2 (\<lambda>iov ps. tiles iov 0 ps \<or> past_end L iov 0 ps) iovs pss \<and>
    list_all2 (\<lambda>iov ps. fits L iov \<longrightarrow> tiles iov 0 ps) iovs pss \<and> (\<forall>part \<in> set parts. part_ok L part)"
proof -
  from split_covers [OF assms] obtain parts pss where p: "tc_split_iov_array fuel iovs L = Some parts" "concat parts = concat pss"
    "list_all2 (\<lambda>iov ps. covers L iov 0 ps) iovs pss" "\<forall>part \<in> set parts. part_ok L part" by blast
  have "list_all2 (\<lambda>iov ps. fits L iov \<longrightarrow> tiles iov 0 ps) iovs pss"
    using p(3) by (rule list_all2_mono) (use fits_covers in blast)
  then show ?thesis using p unfolding covers_def by blast
qed

definition example_iov :: "u64 \<Rightarrow> viovec" where
  "example_iov len = \<lparr>vi_file = vfile_from_fd 3, vi_offset = 0, vi_length = len, vi_data = 4096, vi_type = 1,
     vi_is_creation = False, vi_is_direct_io = False, vi_is_failure = False, vi_is_eof = False,
     vi_is_write_stable = False, vi_is_last_of_multiparts = False\<rparr>"

lemma example_iov_simps [simp]:
  "tc_get_iov_overhead (example_iov len) = Some 184" "overhead (example_iov len) = 184" "vi_length (example_iov len) = len"
  "vi_file (example_iov len) = vfile_from_fd 3" "\<not> vi_is_eof (example_iov len)"
  by (simp_all add: example_iov_def overhead_def tc_get_iov_overhead_def vfile_from_fd_def OPSIZE_def NFS4_FHSIZE_def RDWRSIZE_def)

lemma example_splittable: "unat len < 2 ^ 63 \<Longrightarrow> splittable (2 ^ 20) (example_iov len)"
  by (simp add: splittable_def CPDSIZE_nat THRESHOLD_nat)

text \<open>A vector of two and a half million bytes and a small one, in compounds of a mebibyte.\<close>

definition example_parts :: "viovec list list" where
  "example_parts =
     [[split_piece (example_iov 2500000) 0 1048088], [split_piece (example_iov 2500000) 1048088 1048088],
      [split_piece (example_iov 2500000) 2096176 403824, split_piece (example_iov 5000) 0 5000]]"

lemma example_split: "tc_split_iov_array 9 [example_iov 2500000, example_iov 5000] (2 ^ 20) = Some example_parts"
proof -
  have nine: "(9 :: nat) = Suc (Suc (Suc (Suc (Suc (Suc (Suc (Suc (Suc 0))))))))" by simp
  show ?thesis unfolding tc_split_iov_array_def nine
    by (simp add: split_loop.simps(3) Let_def CPDSIZE_def COMPOUND4SZ_def TC_SPLIT_THRESHOLD_def example_parts_def)
qed

lemma example_ok:
  "\<forall>iov \<in> set [example_iov 2500000, example_iov 5000]. splittable (2 ^ 20) iov" "unat CPDSIZE \<le> unat (2 ^ 20 :: u64)"
  "sum_list (map (rounds (2 ^ 20)) [example_iov 2500000, example_iov 5000]) < 9"
  using example_splittable [of 2500000] example_splittable [of 5000] by (simp_all add: CPDSIZE_nat rounds_def)

lemma tc_split_iov_array_tiles_witness:
  "\<exists>pss. tc_split_iov_array 9 [example_iov 2500000, example_iov 5000] (2 ^ 20) = Some example_parts \<and> concat example_parts = concat pss \<and>
     list_all2 (\<lambda>iov ps. tiles iov 0 ps \<or> past_end (2 ^ 20) iov 0 ps) [example_iov 2500000, example_iov 5000] pss \<and>
     (\<forall>part \<in> set example_parts. part_ok (2 ^ 20) part)"
proof -
  from tc_split_iov_array_tiles [OF example_ok] obtain parts pss
    where p: "tc_split_iov_array 9 [example_iov 2500000, example_iov 5000] (2 ^ 20) = Some parts" "concat parts = concat pss"
      "list_all2 (\<lambda>iov ps. tiles iov 0 ps \<or> past_end (2 ^ 20) iov 0 ps) [example_iov 2500000, example_iov 5000] pss"
      "\<forall>part \<in> set parts. part_ok (2 ^ 20) part" by blast
  have "parts = example_parts" using p(1) unfolding example_split by (rule option.inject [THEN iffD1, symmetric])
  then show ?thesis using p by blast
qed

text \<open>
  C3: splitting and restoring.  For vectors as above on files that compare equal to themselves (every file but one named
  by handle), split so that no vector is cut past its end, as is so if each fits a compound with its overhead: if every piece comes back with its file and offset and is
  short only at the end of the file, which only the last piece of a vector meets, then restoring succeeds and gives
  each vector the bytes of all its pieces and the mark of the end of the file of its last one; all else in
  the vectors is as it was.
\<close>

theorem split_restore_roundtrip:
  assumes "\<forall>iov \<in> set iovs. splittable L iov \<and> tc_cmp_file (vi_file iov) (vi_file iov) = Some True"
    "unat CPDSIZE \<le> unat L" "sum_list (map (rounds L) iovs) < fuel"
  shows "\<exists>parts pss. tc_split_iov_array fuel iovs L = Some parts \<and> concat parts = concat pss \<and>
    list_all2 (\<lambda>iov ps. tiles iov 0 ps \<or> past_end L iov 0 ps) iovs pss \<and>
    list_all2 (\<lambda>iov ps. fits L iov \<longrightarrow> tiles iov 0 ps) iovs pss \<and>
    (\<forall>qss results. list_all2 (\<lambda>iov ps. tiles iov 0 ps) iovs pss \<longrightarrow> list_all2 (list_all2 replied) pss qss \<longrightarrow>
       concat results = concat qss \<longrightarrow> vrestore_iov_array iovs results = Some (True, map2 total iovs qss))"
proof -
  have s: "\<forall>iov \<in> set iovs. splittable L iov" "\<forall>iov \<in> set iovs. tc_cmp_file (vi_file iov) (vi_file iov) = Some True"
    using assms(1) by simp_all
  from split_covers [OF s(1) assms(2,3)] obtain parts pss where p: "tc_split_iov_array fuel iovs L = Some parts" "concat parts = concat pss"
    "list_all2 (\<lambda>iov ps. covers L iov 0 ps) iovs pss" by blast
  have "list_all2 (\<lambda>iov ps. fits L iov \<longrightarrow> tiles iov 0 ps) iovs pss" using p(3) by (rule list_all2_mono) (use fits_covers in blast)
  then show ?thesis using p vrestore_tiles [OF _ _ s(2)] unfolding covers_def by blast
qed

text \<open>The pieces of the two vectors can only be the first three and the last one.\<close>

lemma covers_file_offset:
  assumes "covers L iov off (p # ps)"
  shows "vi_offset p = vi_offset iov + off"
proof -
  from assms have "\<exists>n. p = split_piece iov off n"
    by (cases ps; cases "tl ps") (simp_all add: covers_def, blast+)
  then show ?thesis by auto
qed

lemma split_restore_roundtrip_witness:
  "tc_split_iov_array 9 [example_iov 2500000, example_iov 5000] (2 ^ 20) = Some example_parts \<and>
   vrestore_iov_array [example_iov 2500000, example_iov 5000]
     [[split_piece (example_iov 2500000) 0 1048088], [split_piece (example_iov 2500000) 1048088 1048088],
      [(split_piece (example_iov 2500000) 2096176 403824)\<lparr>vi_length := 100, vi_is_eof := True\<rparr>, split_piece (example_iov 5000) 0 5000]] =
     Some (True, [(example_iov 2500000)\<lparr>vi_length := 2096276, vi_is_eof := True\<rparr>, example_iov 5000])"
proof -
  let ?v = "[example_iov 2500000, example_iov 5000]"
  let ?p = "\<lambda>off len. split_piece (example_iov 2500000) off len" and ?q = "split_piece (example_iov 5000) 0 5000"
  have ok: "\<forall>iov \<in> set ?v. splittable (2 ^ 20) iov \<and> tc_cmp_file (vi_file iov) (vi_file iov) = Some True"
    using example_ok(1) by (simp add: tc_cmp_file_def vfile_from_fd_def)
  from split_restore_roundtrip [OF ok example_ok(2,3)] obtain parts pss
    where p: "tc_split_iov_array 9 ?v (2 ^ 20) = Some parts" "concat parts = concat pss"
      "list_all2 (\<lambda>iov ps. tiles iov 0 ps \<or> past_end (2 ^ 20) iov 0 ps) ?v pss"
      and r: "\<forall>qss results. list_all2 (\<lambda>iov ps. tiles iov 0 ps) ?v pss \<longrightarrow> list_all2 (list_all2 replied) pss qss \<longrightarrow>
         concat results = concat qss \<longrightarrow> vrestore_iov_array ?v results = Some (True, map2 total ?v qss)" by blast
  have parts: "parts = example_parts" using p(1) unfolding example_split by (rule option.inject [THEN iffD1, symmetric])
  obtain xs ys where xy: "pss = [xs, ys]" "covers (2 ^ 20) (example_iov 2500000) 0 xs" "covers (2 ^ 20) (example_iov 5000) 0 ys"
    using p(3) by (auto simp: list_all2_Cons1 covers_def)
  obtain y ys' where y: "ys = y # ys'" using xy(3) by (cases ys) (auto simp: covers_def)
  have "vi_offset y = 0" using covers_file_offset xy(3) unfolding y by (fastforce simp: example_iov_def)
  moreover have cat: "xs @ ys = [?p 0 1048088, ?p 1048088 1048088, ?p 2096176 403824, ?q]"
    using p(2) xy(1) parts by (simp add: example_parts_def)
  moreover have "xs \<noteq> []" using xy(2) by (auto simp: covers_def)
  ultimately have pss: "pss = [[?p 0 1048088, ?p 1048088 1048088, ?p 2096176 403824], [?q]]"
    using xy(1) y by (auto simp: append_eq_Cons_conv Cons_eq_append_conv example_iov_def)
  let ?qss = "[[?p 0 1048088, ?p 1048088 1048088, (?p 2096176 403824)\<lparr>vi_length := 100, vi_is_eof := True\<rparr>], [?q]]"
  let ?res = "[[?p 0 1048088], [?p 1048088 1048088], [(?p 2096176 403824)\<lparr>vi_length := 100, vi_is_eof := True\<rparr>, ?q]]"
  have "list_all2 (\<lambda>iov ps. tiles iov 0 ps) ?v pss" by (simp add: pss)
  moreover have "list_all2 (list_all2 replied) pss ?qss" by (simp add: pss replied_def)
  moreover have "concat ?res = concat ?qss" by simp
  ultimately have "vrestore_iov_array ?v ?res = Some (True, map2 total ?v ?qss)"
    using r [THEN spec [of _ ?qss], THEN spec [of _ ?res]] by (simp only: simp_thms)
  moreover have "map2 total ?v ?qss = [(example_iov 2500000)\<lparr>vi_length := 2096276, vi_is_eof := True\<rparr>, example_iov 5000]"
    by (simp add: total_def example_iov_def)
  ultimately show ?thesis using example_split by simp
qed

text \<open>
  C36: a single vector whose data fits the limit but whose data and overhead together do not is cut
  past its end: the first piece is longer than the data by up to the overhead, and the length of
  the second one is the (negative, hence wrapped) rest.
\<close>

theorem tc_split_iov_array_overrun:
  assumes "tc_get_iov_overhead iov = Some ov" "unat CPDSIZE + unat (vi_length iov) \<le> unat L"
    "unat L < unat CPDSIZE + unat ov + unat (vi_length iov)"
    "ov \<le> TC_SPLIT_THRESHOLD" "unat CPDSIZE + unat TC_SPLIT_THRESHOLD < unat L"
    "unat L < 2 ^ 63"
  shows "tc_split_iov_array 3 [iov] L =
      Some [[split_piece iov 0 (L - CPDSIZE)], [split_piece iov (L - CPDSIZE) (vi_length iov - (L - CPDSIZE))]] \<and>
    vi_length iov \<le> vi_length (split_piece iov 0 (L - CPDSIZE))"
proof -
  let ?F = "L - CPDSIZE"
  have ov: "unat ov \<le> 4096" using assms(4) by (simp add: word_le_nat_alt TC_SPLIT_THRESHOLD_def)
  have F: "unat ?F = unat L - 488" using assms(2) by (simp add: unat_sub_fits CPDSIZE_nat)
  have D: "unat (ov + vi_length iov) = unat ov + unat (vi_length iov)"
    using assms(2,6) ov by (simp add: unat_add_fits)
  have nofit: "\<not> ov + vi_length iov - 0 \<le> ?F"
    using assms(2,3) unfolding word_le_nat_alt CPDSIZE_nat diff_zero D F by linarith
  have big: "unat (ov + vi_length iov + CPDSIZE) = unat ov + unat (vi_length iov) + 488"
    using assms(2,6) ov D by (simp add: unat_add_fits CPDSIZE_nat)
  have nt: "\<not> tiny_split L iov 0 CPDSIZE"
    using assms(1,3,5) by (simp add: tiny_split_def word_le_nat_alt big F CPDSIZE_nat)
  have D': "unat (ov + vi_length iov - ?F) = unat ov + unat (vi_length iov) - (unat L - 488)"
    using nofit by (simp add: unat_sub_fits D F word_le_nat_alt)
  have rest: "ov + vi_length iov - ?F \<le> ?F"
    using assms(2,5) ov by (simp add: word_le_nat_alt D' F CPDSIZE_nat TC_SPLIT_THRESHOLD_def)
  have "tc_split_iov_array 3 [iov] L = split_loop (Suc (Suc 0)) L [iov] (0 + ?F) [] CPDSIZE ([] @ [[] @ [split_piece iov 0 ?F]])"
    using split_loop_split [OF assms(1) nofit nt, of "Suc (Suc 0)" "[]" "[]" "[]"] by (simp add: tc_split_iov_array_def numeral_3_eq_3)
  moreover have "vi_length iov \<le> ?F" using assms(2) by (simp add: word_le_nat_alt F CPDSIZE_nat)
  ultimately show ?thesis using rest assms(1) by (simp add: split_loop.simps(3) Let_def)
qed

lemma tc_split_iov_array_overrun_witness:
  "tc_split_iov_array 3 [example_iov 1048000] (2 ^ 20) =
     Some [[split_piece (example_iov 1048000) 0 1048088], [split_piece (example_iov 1048000) 1048088 (- 88)]]"
  using tc_split_iov_array_overrun [of "example_iov 1048000" 184 "2 ^ 20"]
  by (simp add: CPDSIZE_def COMPOUND4SZ_def TC_SPLIT_THRESHOLD_def)

text \<open>
  with a limit that leaves a page or less for data, the loop never ends on a vector that does not
  fit: no amount of fuel suffices.
\<close>

theorem tc_split_iov_array_endless:
  assumes "tc_get_iov_overhead iov = Some ov" "L - CPDSIZE \<le> TC_SPLIT_THRESHOLD" "\<not> ov + vi_length iov \<le> L - CPDSIZE"
  shows "tc_split_iov_array fuel (iov # iovs) L = None"
  using split_loop_endless [OF assms] by (simp add: tc_split_iov_array_def)

lemma tc_split_iov_array_endless_witness: "tc_split_iov_array 1000000 [example_iov 5000] 4096 = None"
  using tc_split_iov_array_endless [of "example_iov 5000" 184 4096 1000000 "[]"]
  by (simp add: CPDSIZE_def COMPOUND4SZ_def TC_SPLIT_THRESHOLD_def)

text \<open>
  \<open>vrestore_iov_array\<close> cannot restore a vector of a file named by handle: comparing the handle with
  itself fails, so it steps past the only vector and reads beyond the array.
\<close>

theorem vrestore_handle_fails:
  assumes "vf_type (vi_file iov) = VFILE_HANDLE" "vf_ref (vi_file iov) = HandleRef h"
  shows "vrestore_iov_array [iov] [[iov]] = None"
proof -
  have "tc_cmp_file (vi_file iov) (vi_file iov) = Some False"
    using assms by (simp add: tc_cmp_file_def vf_handle_def memcmp_differs_def)
  then show ?thesis by (simp add: vrestore_iov_array_def restore_piece_def)
qed

lemma vrestore_handle_fails_witness:
  "vrestore_iov_array [(example_iov 10)\<lparr>vi_file := \<lparr>vf_type = VFILE_HANDLE, vf_fd = 1,
       vf_ref = HandleRef \<lparr>handle_bytes = 1, handle_type = 1, f_handle = ''a''\<rparr>\<rparr>\<rparr>]
     [[(example_iov 10)\<lparr>vi_file := \<lparr>vf_type = VFILE_HANDLE, vf_fd = 1,
       vf_ref = HandleRef \<lparr>handle_bytes = 1, handle_type = 1, f_handle = ''a''\<rparr>\<rparr>\<rparr>]] = None"
  by (rule vrestore_handle_fails) simp_all

text \<open>
  A piece that meets the end of the file before the last piece of its vector makes the rest fail: the piece
  after it no longer belongs to the vector in turn, the next vector gets the length 0, and the pieces are not
  restored.
\<close>

lemma vrestore_early_eof:
  "vrestore_iov_array [example_iov 20, (example_iov 5)\<lparr>vi_file := vfile_from_fd 4\<rparr>, (example_iov 5)\<lparr>vi_file := vfile_from_fd 5\<rparr>]
     [[(example_iov 10)\<lparr>vi_is_eof := True\<rparr>], [(example_iov 10)\<lparr>vi_offset := 10, vi_length := 0, vi_is_eof := True\<rparr>]] =
   Some (False, [(example_iov 10)\<lparr>vi_is_eof := True\<rparr>, (example_iov 0)\<lparr>vi_file := vfile_from_fd 4\<rparr>, (example_iov 5)\<lparr>vi_file := vfile_from_fd 5\<rparr>])"
  by (simp add: vrestore_iov_array_def restore_piece_def tc_cmp_file_def vfile_from_fd_def example_iov_def)

end
