(* ===== verification/Error_Codes.thy ===== *)
theory Error_Codes
  imports Main
begin

text \<open>
  The status codes of the layers and how they turn into each other: the errors of the file system
  layer (\<^verbatim>\<open>include/fsal_types.h\<close>), of the inode cache (\<^verbatim>\<open>include/cache_inode.h\<close>) and of the state layer
  (\<^verbatim>\<open>include/sal_data.h\<close>), the NFSv3 and NFSv4 status codes, and the conversion tables of
  \<^verbatim>\<open>SAL/state_misc.c\<close>, \<^verbatim>\<open>cache_inode/cache_inode_misc.c\<close>, \<^verbatim>\<open>support/nfs_convert.c\<close>, \<^verbatim>\<open>FSAL/commonlib.c\<close>
  and \<^verbatim>\<open>nfs4/handle.c\<close>.  A code that the source declares as an \<open>enum\<close> with up to fifty members is a
  datatype; NFSv4 has more than a hundred, and the client computes with their numbers, so these are
  integers with names.  What the tables log is left out.
\<close>

section \<open>The codes\<close>

datatype (plugins only: code) state_status =
  STATE_SUCCESS | STATE_MALLOC_ERROR | STATE_POOL_MUTEX_INIT_ERROR | STATE_GET_NEW_LRU_ENTRY
  | STATE_INIT_ENTRY_FAILED | STATE_FSAL_ERROR | STATE_LRU_ERROR | STATE_HASH_SET_ERROR
  | STATE_NOT_A_DIRECTORY | STATE_INCONSISTENT_ENTRY | STATE_BAD_TYPE | STATE_ENTRY_EXISTS
  | STATE_DIR_NOT_EMPTY | STATE_NOT_FOUND | STATE_INVALID_ARGUMENT | STATE_INSERT_ERROR
  | STATE_HASH_TABLE_ERROR | STATE_FSAL_EACCESS | STATE_IS_A_DIRECTORY | STATE_FSAL_EPERM
  | STATE_NO_SPACE_LEFT | STATE_READ_ONLY_FS | STATE_IO_ERROR | STATE_FSAL_ESTALE | STATE_FSAL_ERR_SEC
  | STATE_STATE_CONFLICT | STATE_QUOTA_EXCEEDED | STATE_DEAD_ENTRY | STATE_ASYNC_POST_ERROR
  | STATE_NOT_SUPPORTED | STATE_STATE_ERROR | STATE_FSAL_DELAY | STATE_NAME_TOO_LONG | STATE_LOCK_CONFLICT
  | STATE_LOCK_BLOCKED | STATE_LOCK_DEADLOCK | STATE_BAD_COOKIE | STATE_FILE_BIG | STATE_GRACE_PERIOD
  | STATE_CACHE_INODE_ERR | STATE_SIGNAL_ERROR | STATE_KILLED | STATE_FILE_OPEN | STATE_MLINK
  | STATE_SERVERFAULT | STATE_TOOSMALL | STATE_XDEV | STATE_FSAL_SHARE_DENIED | STATE_IN_GRACE
  | STATE_BADHANDLE

datatype (plugins only: code) cache_inode_status =
  CACHE_INODE_SUCCESS | CACHE_INODE_MALLOC_ERROR | CACHE_INODE_POOL_MUTEX_INIT_ERROR
  | CACHE_INODE_GET_NEW_LRU_ENTRY | CACHE_INODE_INIT_ENTRY_FAILED | CACHE_INODE_FSAL_ERROR
  | CACHE_INODE_LRU_ERROR | CACHE_INODE_HASH_SET_ERROR | CACHE_INODE_NOT_A_DIRECTORY
  | CACHE_INODE_INCONSISTENT_ENTRY | CACHE_INODE_BAD_TYPE | CACHE_INODE_ENTRY_EXISTS
  | CACHE_INODE_DIR_NOT_EMPTY | CACHE_INODE_NOT_FOUND | CACHE_INODE_INVALID_ARGUMENT
  | CACHE_INODE_INSERT_ERROR | CACHE_INODE_HASH_TABLE_ERROR | CACHE_INODE_FSAL_EACCESS
  | CACHE_INODE_IS_A_DIRECTORY | CACHE_INODE_FSAL_EPERM | CACHE_INODE_NO_SPACE_LEFT | CACHE_INODE_READ_ONLY_FS
  | CACHE_INODE_IO_ERROR | CACHE_INODE_FSAL_ESTALE | CACHE_INODE_FSAL_ERR_SEC | CACHE_INODE_STATE_CONFLICT
  | CACHE_INODE_QUOTA_EXCEEDED | CACHE_INODE_DEAD_ENTRY | CACHE_INODE_ASYNC_POST_ERROR
  | CACHE_INODE_NOT_SUPPORTED | CACHE_INODE_STATE_ERROR | CACHE_INODE_DELAY | CACHE_INODE_NAME_TOO_LONG
  | CACHE_INODE_BAD_COOKIE | CACHE_INODE_FILE_BIG | CACHE_INODE_KILLED | CACHE_INODE_FILE_OPEN
  | CACHE_INODE_FSAL_XDEV | CACHE_INODE_FSAL_MLINK | CACHE_INODE_SERVERFAULT | CACHE_INODE_TOOSMALL
  | CACHE_INODE_FSAL_SHARE_DENIED | CACHE_INODE_BADNAME | CACHE_INODE_UNION_NOTSUPP
  | CACHE_INODE_CROSS_JUNCTION | CACHE_INODE_IN_GRACE | CACHE_INODE_BADHANDLE

datatype (plugins only: code) fsal_errors =
  ERR_FSAL_NO_ERROR | ERR_FSAL_PERM | ERR_FSAL_NOENT | ERR_FSAL_IO | ERR_FSAL_NXIO | ERR_FSAL_NOMEM
  | ERR_FSAL_ACCESS | ERR_FSAL_FAULT | ERR_FSAL_EXIST | ERR_FSAL_XDEV | ERR_FSAL_NOTDIR | ERR_FSAL_ISDIR
  | ERR_FSAL_INVAL | ERR_FSAL_FBIG | ERR_FSAL_NOSPC | ERR_FSAL_ROFS | ERR_FSAL_MLINK | ERR_FSAL_DQUOT
  | ERR_FSAL_NAMETOOLONG | ERR_FSAL_NOTEMPTY | ERR_FSAL_STALE | ERR_FSAL_BADHANDLE | ERR_FSAL_BADCOOKIE
  | ERR_FSAL_NOTSUPP | ERR_FSAL_TOOSMALL | ERR_FSAL_SERVERFAULT | ERR_FSAL_BADTYPE | ERR_FSAL_DELAY
  | ERR_FSAL_FHEXPIRED | ERR_FSAL_SHARE_DENIED | ERR_FSAL_SYMLINK | ERR_FSAL_ATTRNOTSUPP | ERR_FSAL_NOT_INIT
  | ERR_FSAL_ALREADY_INIT | ERR_FSAL_BAD_INIT | ERR_FSAL_SEC | ERR_FSAL_NO_QUOTA | ERR_FSAL_NOT_OPENED
  | ERR_FSAL_DEADLOCK | ERR_FSAL_OVERFLOW | ERR_FSAL_INTERRUPT | ERR_FSAL_BLOCKED | ERR_FSAL_TIMEOUT
  | ERR_FSAL_FILE_OPEN | ERR_FSAL_UNION_NOTSUPP | ERR_FSAL_IN_GRACE

text \<open>The minor code is the original error, as a rule a POSIX one.\<close>

record fsal_status =
  major :: fsal_errors
  minor :: int

definition fsalstat :: "fsal_errors \<Rightarrow> int \<Rightarrow> fsal_status" where
  "fsalstat maj mnr = \<lparr>major = maj, minor = mnr\<rparr>"

datatype (plugins only: code) nfsstat3 =
  NFS3_OK | NFS3ERR_PERM | NFS3ERR_NOENT | NFS3ERR_IO | NFS3ERR_NXIO | NFS3ERR_ACCES | NFS3ERR_EXIST
  | NFS3ERR_XDEV | NFS3ERR_NODEV | NFS3ERR_NOTDIR | NFS3ERR_ISDIR | NFS3ERR_INVAL | NFS3ERR_FBIG
  | NFS3ERR_NOSPC | NFS3ERR_ROFS | NFS3ERR_MLINK | NFS3ERR_NAMETOOLONG | NFS3ERR_NOTEMPTY | NFS3ERR_DQUOT
  | NFS3ERR_STALE | NFS3ERR_REMOTE | NFS3ERR_BADHANDLE | NFS3ERR_NOT_SYNC | NFS3ERR_BAD_COOKIE
  | NFS3ERR_NOTSUPP | NFS3ERR_TOOSMALL | NFS3ERR_SERVERFAULT | NFS3ERR_BADTYPE | NFS3ERR_JUKEBOX

type_synonym nfsstat4 = int

abbreviation (input) NFS4_OK :: nfsstat4 where "NFS4_OK \<equiv> 0"
abbreviation (input) NFS4ERR_PERM :: nfsstat4 where "NFS4ERR_PERM \<equiv> 1"
abbreviation (input) NFS4ERR_NOENT :: nfsstat4 where "NFS4ERR_NOENT \<equiv> 2"
abbreviation (input) NFS4ERR_IO :: nfsstat4 where "NFS4ERR_IO \<equiv> 5"
abbreviation (input) NFS4ERR_NXIO :: nfsstat4 where "NFS4ERR_NXIO \<equiv> 6"
abbreviation (input) NFS4ERR_ACCESS :: nfsstat4 where "NFS4ERR_ACCESS \<equiv> 13"
abbreviation (input) NFS4ERR_EXIST :: nfsstat4 where "NFS4ERR_EXIST \<equiv> 17"
abbreviation (input) NFS4ERR_XDEV :: nfsstat4 where "NFS4ERR_XDEV \<equiv> 18"
abbreviation (input) NFS4ERR_NOTDIR :: nfsstat4 where "NFS4ERR_NOTDIR \<equiv> 20"
abbreviation (input) NFS4ERR_ISDIR :: nfsstat4 where "NFS4ERR_ISDIR \<equiv> 21"
abbreviation (input) NFS4ERR_INVAL :: nfsstat4 where "NFS4ERR_INVAL \<equiv> 22"
abbreviation (input) NFS4ERR_FBIG :: nfsstat4 where "NFS4ERR_FBIG \<equiv> 27"
abbreviation (input) NFS4ERR_NOSPC :: nfsstat4 where "NFS4ERR_NOSPC \<equiv> 28"
abbreviation (input) NFS4ERR_ROFS :: nfsstat4 where "NFS4ERR_ROFS \<equiv> 30"
abbreviation (input) NFS4ERR_MLINK :: nfsstat4 where "NFS4ERR_MLINK \<equiv> 31"
abbreviation (input) NFS4ERR_NAMETOOLONG :: nfsstat4 where "NFS4ERR_NAMETOOLONG \<equiv> 63"
abbreviation (input) NFS4ERR_NOTEMPTY :: nfsstat4 where "NFS4ERR_NOTEMPTY \<equiv> 66"
abbreviation (input) NFS4ERR_DQUOT :: nfsstat4 where "NFS4ERR_DQUOT \<equiv> 69"
abbreviation (input) NFS4ERR_STALE :: nfsstat4 where "NFS4ERR_STALE \<equiv> 70"
abbreviation (input) NFS4ERR_BADHANDLE :: nfsstat4 where "NFS4ERR_BADHANDLE \<equiv> 10001"
abbreviation (input) NFS4ERR_BAD_COOKIE :: nfsstat4 where "NFS4ERR_BAD_COOKIE \<equiv> 10003"
abbreviation (input) NFS4ERR_NOTSUPP :: nfsstat4 where "NFS4ERR_NOTSUPP \<equiv> 10004"
abbreviation (input) NFS4ERR_TOOSMALL :: nfsstat4 where "NFS4ERR_TOOSMALL \<equiv> 10005"
abbreviation (input) NFS4ERR_SERVERFAULT :: nfsstat4 where "NFS4ERR_SERVERFAULT \<equiv> 10006"
abbreviation (input) NFS4ERR_BADTYPE :: nfsstat4 where "NFS4ERR_BADTYPE \<equiv> 10007"
abbreviation (input) NFS4ERR_DELAY :: nfsstat4 where "NFS4ERR_DELAY \<equiv> 10008"
abbreviation (input) NFS4ERR_SAME :: nfsstat4 where "NFS4ERR_SAME \<equiv> 10009"
abbreviation (input) NFS4ERR_DENIED :: nfsstat4 where "NFS4ERR_DENIED \<equiv> 10010"
abbreviation (input) NFS4ERR_EXPIRED :: nfsstat4 where "NFS4ERR_EXPIRED \<equiv> 10011"
abbreviation (input) NFS4ERR_LOCKED :: nfsstat4 where "NFS4ERR_LOCKED \<equiv> 10012"
abbreviation (input) NFS4ERR_GRACE :: nfsstat4 where "NFS4ERR_GRACE \<equiv> 10013"
abbreviation (input) NFS4ERR_FHEXPIRED :: nfsstat4 where "NFS4ERR_FHEXPIRED \<equiv> 10014"
abbreviation (input) NFS4ERR_SHARE_DENIED :: nfsstat4 where "NFS4ERR_SHARE_DENIED \<equiv> 10015"
abbreviation (input) NFS4ERR_WRONGSEC :: nfsstat4 where "NFS4ERR_WRONGSEC \<equiv> 10016"
abbreviation (input) NFS4ERR_CLID_INUSE :: nfsstat4 where "NFS4ERR_CLID_INUSE \<equiv> 10017"
abbreviation (input) NFS4ERR_RESOURCE :: nfsstat4 where "NFS4ERR_RESOURCE \<equiv> 10018"
abbreviation (input) NFS4ERR_MOVED :: nfsstat4 where "NFS4ERR_MOVED \<equiv> 10019"
abbreviation (input) NFS4ERR_NOFILEHANDLE :: nfsstat4 where "NFS4ERR_NOFILEHANDLE \<equiv> 10020"
abbreviation (input) NFS4ERR_MINOR_VERS_MISMATCH :: nfsstat4 where "NFS4ERR_MINOR_VERS_MISMATCH \<equiv> 10021"
abbreviation (input) NFS4ERR_STALE_CLIENTID :: nfsstat4 where "NFS4ERR_STALE_CLIENTID \<equiv> 10022"
abbreviation (input) NFS4ERR_STALE_STATEID :: nfsstat4 where "NFS4ERR_STALE_STATEID \<equiv> 10023"
abbreviation (input) NFS4ERR_OLD_STATEID :: nfsstat4 where "NFS4ERR_OLD_STATEID \<equiv> 10024"
abbreviation (input) NFS4ERR_BAD_STATEID :: nfsstat4 where "NFS4ERR_BAD_STATEID \<equiv> 10025"
abbreviation (input) NFS4ERR_BAD_SEQID :: nfsstat4 where "NFS4ERR_BAD_SEQID \<equiv> 10026"
abbreviation (input) NFS4ERR_NOT_SAME :: nfsstat4 where "NFS4ERR_NOT_SAME \<equiv> 10027"
abbreviation (input) NFS4ERR_LOCK_RANGE :: nfsstat4 where "NFS4ERR_LOCK_RANGE \<equiv> 10028"
abbreviation (input) NFS4ERR_SYMLINK :: nfsstat4 where "NFS4ERR_SYMLINK \<equiv> 10029"
abbreviation (input) NFS4ERR_RESTOREFH :: nfsstat4 where "NFS4ERR_RESTOREFH \<equiv> 10030"
abbreviation (input) NFS4ERR_LEASE_MOVED :: nfsstat4 where "NFS4ERR_LEASE_MOVED \<equiv> 10031"
abbreviation (input) NFS4ERR_ATTRNOTSUPP :: nfsstat4 where "NFS4ERR_ATTRNOTSUPP \<equiv> 10032"
abbreviation (input) NFS4ERR_NO_GRACE :: nfsstat4 where "NFS4ERR_NO_GRACE \<equiv> 10033"
abbreviation (input) NFS4ERR_RECLAIM_BAD :: nfsstat4 where "NFS4ERR_RECLAIM_BAD \<equiv> 10034"
abbreviation (input) NFS4ERR_RECLAIM_CONFLICT :: nfsstat4 where "NFS4ERR_RECLAIM_CONFLICT \<equiv> 10035"
abbreviation (input) NFS4ERR_BADXDR :: nfsstat4 where "NFS4ERR_BADXDR \<equiv> 10036"
abbreviation (input) NFS4ERR_LOCKS_HELD :: nfsstat4 where "NFS4ERR_LOCKS_HELD \<equiv> 10037"
abbreviation (input) NFS4ERR_OPENMODE :: nfsstat4 where "NFS4ERR_OPENMODE \<equiv> 10038"
abbreviation (input) NFS4ERR_BADOWNER :: nfsstat4 where "NFS4ERR_BADOWNER \<equiv> 10039"
abbreviation (input) NFS4ERR_BADCHAR :: nfsstat4 where "NFS4ERR_BADCHAR \<equiv> 10040"
abbreviation (input) NFS4ERR_BADNAME :: nfsstat4 where "NFS4ERR_BADNAME \<equiv> 10041"
abbreviation (input) NFS4ERR_BAD_RANGE :: nfsstat4 where "NFS4ERR_BAD_RANGE \<equiv> 10042"
abbreviation (input) NFS4ERR_LOCK_NOTSUPP :: nfsstat4 where "NFS4ERR_LOCK_NOTSUPP \<equiv> 10043"
abbreviation (input) NFS4ERR_OP_ILLEGAL :: nfsstat4 where "NFS4ERR_OP_ILLEGAL \<equiv> 10044"
abbreviation (input) NFS4ERR_DEADLOCK :: nfsstat4 where "NFS4ERR_DEADLOCK \<equiv> 10045"
abbreviation (input) NFS4ERR_FILE_OPEN :: nfsstat4 where "NFS4ERR_FILE_OPEN \<equiv> 10046"
abbreviation (input) NFS4ERR_ADMIN_REVOKED :: nfsstat4 where "NFS4ERR_ADMIN_REVOKED \<equiv> 10047"
abbreviation (input) NFS4ERR_CB_PATH_DOWN :: nfsstat4 where "NFS4ERR_CB_PATH_DOWN \<equiv> 10048"
abbreviation (input) NFS4ERR_BADIOMODE :: nfsstat4 where "NFS4ERR_BADIOMODE \<equiv> 10049"
abbreviation (input) NFS4ERR_BADLAYOUT :: nfsstat4 where "NFS4ERR_BADLAYOUT \<equiv> 10050"
abbreviation (input) NFS4ERR_BAD_SESSION_DIGEST :: nfsstat4 where "NFS4ERR_BAD_SESSION_DIGEST \<equiv> 10051"
abbreviation (input) NFS4ERR_BADSESSION :: nfsstat4 where "NFS4ERR_BADSESSION \<equiv> 10052"
abbreviation (input) NFS4ERR_BADSLOT :: nfsstat4 where "NFS4ERR_BADSLOT \<equiv> 10053"
abbreviation (input) NFS4ERR_COMPLETE_ALREADY :: nfsstat4 where "NFS4ERR_COMPLETE_ALREADY \<equiv> 10054"
abbreviation (input) NFS4ERR_CONN_NOT_BOUND_TO_SESSION :: nfsstat4 where "NFS4ERR_CONN_NOT_BOUND_TO_SESSION \<equiv> 10055"
abbreviation (input) NFS4ERR_DELEG_ALREADY_WANTED :: nfsstat4 where "NFS4ERR_DELEG_ALREADY_WANTED \<equiv> 10056"
abbreviation (input) NFS4ERR_BACK_CHAN_BUSY :: nfsstat4 where "NFS4ERR_BACK_CHAN_BUSY \<equiv> 10057"
abbreviation (input) NFS4ERR_LAYOUTTRYLATER :: nfsstat4 where "NFS4ERR_LAYOUTTRYLATER \<equiv> 10058"
abbreviation (input) NFS4ERR_LAYOUTUNAVAILABLE :: nfsstat4 where "NFS4ERR_LAYOUTUNAVAILABLE \<equiv> 10059"
abbreviation (input) NFS4ERR_NOMATCHING_LAYOUT :: nfsstat4 where "NFS4ERR_NOMATCHING_LAYOUT \<equiv> 10060"
abbreviation (input) NFS4ERR_RECALLCONFLICT :: nfsstat4 where "NFS4ERR_RECALLCONFLICT \<equiv> 10061"
abbreviation (input) NFS4ERR_UNKNOWN_LAYOUTTYPE :: nfsstat4 where "NFS4ERR_UNKNOWN_LAYOUTTYPE \<equiv> 10062"
abbreviation (input) NFS4ERR_SEQ_MISORDERED :: nfsstat4 where "NFS4ERR_SEQ_MISORDERED \<equiv> 10063"
abbreviation (input) NFS4ERR_SEQUENCE_POS :: nfsstat4 where "NFS4ERR_SEQUENCE_POS \<equiv> 10064"
abbreviation (input) NFS4ERR_REQ_TOO_BIG :: nfsstat4 where "NFS4ERR_REQ_TOO_BIG \<equiv> 10065"
abbreviation (input) NFS4ERR_REP_TOO_BIG :: nfsstat4 where "NFS4ERR_REP_TOO_BIG \<equiv> 10066"
abbreviation (input) NFS4ERR_REP_TOO_BIG_TO_CACHE :: nfsstat4 where "NFS4ERR_REP_TOO_BIG_TO_CACHE \<equiv> 10067"
abbreviation (input) NFS4ERR_RETRY_UNCACHED_REP :: nfsstat4 where "NFS4ERR_RETRY_UNCACHED_REP \<equiv> 10068"
abbreviation (input) NFS4ERR_UNSAFE_COMPOUND :: nfsstat4 where "NFS4ERR_UNSAFE_COMPOUND \<equiv> 10069"
abbreviation (input) NFS4ERR_TOO_MANY_OPS :: nfsstat4 where "NFS4ERR_TOO_MANY_OPS \<equiv> 10070"
abbreviation (input) NFS4ERR_OP_NOT_IN_SESSION :: nfsstat4 where "NFS4ERR_OP_NOT_IN_SESSION \<equiv> 10071"
abbreviation (input) NFS4ERR_HASH_ALG_UNSUPP :: nfsstat4 where "NFS4ERR_HASH_ALG_UNSUPP \<equiv> 10072"
abbreviation (input) NFS4ERR_CLIENTID_BUSY :: nfsstat4 where "NFS4ERR_CLIENTID_BUSY \<equiv> 10074"
abbreviation (input) NFS4ERR_PNFS_IO_HOLE :: nfsstat4 where "NFS4ERR_PNFS_IO_HOLE \<equiv> 10075"
abbreviation (input) NFS4ERR_SEQ_FALSE_RETRY :: nfsstat4 where "NFS4ERR_SEQ_FALSE_RETRY \<equiv> 10076"
abbreviation (input) NFS4ERR_BAD_HIGH_SLOT :: nfsstat4 where "NFS4ERR_BAD_HIGH_SLOT \<equiv> 10077"
abbreviation (input) NFS4ERR_DEADSESSION :: nfsstat4 where "NFS4ERR_DEADSESSION \<equiv> 10078"
abbreviation (input) NFS4ERR_ENCR_ALG_UNSUPP :: nfsstat4 where "NFS4ERR_ENCR_ALG_UNSUPP \<equiv> 10079"
abbreviation (input) NFS4ERR_PNFS_NO_LAYOUT :: nfsstat4 where "NFS4ERR_PNFS_NO_LAYOUT \<equiv> 10080"
abbreviation (input) NFS4ERR_NOT_ONLY_OP :: nfsstat4 where "NFS4ERR_NOT_ONLY_OP \<equiv> 10081"
abbreviation (input) NFS4ERR_WRONG_CRED :: nfsstat4 where "NFS4ERR_WRONG_CRED \<equiv> 10082"
abbreviation (input) NFS4ERR_WRONG_TYPE :: nfsstat4 where "NFS4ERR_WRONG_TYPE \<equiv> 10083"
abbreviation (input) NFS4ERR_DIRDELEG_UNAVAIL :: nfsstat4 where "NFS4ERR_DIRDELEG_UNAVAIL \<equiv> 10084"
abbreviation (input) NFS4ERR_REJECT_DELEG :: nfsstat4 where "NFS4ERR_REJECT_DELEG \<equiv> 10085"
abbreviation (input) NFS4ERR_RETURNCONFLICT :: nfsstat4 where "NFS4ERR_RETURNCONFLICT \<equiv> 10086"
abbreviation (input) NFS4ERR_DELEG_REVOKED :: nfsstat4 where "NFS4ERR_DELEG_REVOKED \<equiv> 10087"
abbreviation (input) NFS4ERR_PARTNER_NOTSUPP :: nfsstat4 where "NFS4ERR_PARTNER_NOTSUPP \<equiv> 10088"
abbreviation (input) NFS4ERR_PARTNER_NO_AUTH :: nfsstat4 where "NFS4ERR_PARTNER_NO_AUTH \<equiv> 10089"
abbreviation (input) NFS4ERR_UNION_NOTSUPP :: nfsstat4 where "NFS4ERR_UNION_NOTSUPP \<equiv> 10090"
abbreviation (input) NFS4ERR_OFFLOAD_DENIED :: nfsstat4 where "NFS4ERR_OFFLOAD_DENIED \<equiv> 10091"
abbreviation (input) NFS4ERR_WRONG_LFS :: nfsstat4 where "NFS4ERR_WRONG_LFS \<equiv> 10092"
abbreviation (input) NFS4ERR_BADLABEL :: nfsstat4 where "NFS4ERR_BADLABEL \<equiv> 10093"
abbreviation (input) NFS4ERR_PROT_NOTSUPP :: nfsstat4 where "NFS4ERR_PROT_NOTSUPP \<equiv> 10200"
abbreviation (input) NFS4ERR_PROT_INVAL :: nfsstat4 where "NFS4ERR_PROT_INVAL \<equiv> 10201"
abbreviation (input) NFS4ERR_PROT_FAIL :: nfsstat4 where "NFS4ERR_PROT_FAIL \<equiv> 10202"
abbreviation (input) NFS4ERR_PROT_LATFAIL :: nfsstat4 where "NFS4ERR_PROT_LATFAIL \<equiv> 10203"
abbreviation (input) NFS4ERR_REPLAY :: nfsstat4 where "NFS4ERR_REPLAY \<equiv> 11001"

definition nfsstat4_enum :: "(string \<times> nfsstat4) list" where
  "nfsstat4_enum =
     [(''NFS4_OK'', NFS4_OK), (''NFS4ERR_PERM'', NFS4ERR_PERM), (''NFS4ERR_NOENT'', NFS4ERR_NOENT)
      , (''NFS4ERR_IO'', NFS4ERR_IO), (''NFS4ERR_NXIO'', NFS4ERR_NXIO), (''NFS4ERR_ACCESS'', NFS4ERR_ACCESS)
      , (''NFS4ERR_EXIST'', NFS4ERR_EXIST), (''NFS4ERR_XDEV'', NFS4ERR_XDEV)
      , (''NFS4ERR_NOTDIR'', NFS4ERR_NOTDIR), (''NFS4ERR_ISDIR'', NFS4ERR_ISDIR)
      , (''NFS4ERR_INVAL'', NFS4ERR_INVAL), (''NFS4ERR_FBIG'', NFS4ERR_FBIG)
      , (''NFS4ERR_NOSPC'', NFS4ERR_NOSPC), (''NFS4ERR_ROFS'', NFS4ERR_ROFS)
      , (''NFS4ERR_MLINK'', NFS4ERR_MLINK), (''NFS4ERR_NAMETOOLONG'', NFS4ERR_NAMETOOLONG)
      , (''NFS4ERR_NOTEMPTY'', NFS4ERR_NOTEMPTY), (''NFS4ERR_DQUOT'', NFS4ERR_DQUOT)
      , (''NFS4ERR_STALE'', NFS4ERR_STALE), (''NFS4ERR_BADHANDLE'', NFS4ERR_BADHANDLE)
      , (''NFS4ERR_BAD_COOKIE'', NFS4ERR_BAD_COOKIE), (''NFS4ERR_NOTSUPP'', NFS4ERR_NOTSUPP)
      , (''NFS4ERR_TOOSMALL'', NFS4ERR_TOOSMALL), (''NFS4ERR_SERVERFAULT'', NFS4ERR_SERVERFAULT)
      , (''NFS4ERR_BADTYPE'', NFS4ERR_BADTYPE), (''NFS4ERR_DELAY'', NFS4ERR_DELAY)
      , (''NFS4ERR_SAME'', NFS4ERR_SAME), (''NFS4ERR_DENIED'', NFS4ERR_DENIED)
      , (''NFS4ERR_EXPIRED'', NFS4ERR_EXPIRED), (''NFS4ERR_LOCKED'', NFS4ERR_LOCKED)
      , (''NFS4ERR_GRACE'', NFS4ERR_GRACE), (''NFS4ERR_FHEXPIRED'', NFS4ERR_FHEXPIRED)
      , (''NFS4ERR_SHARE_DENIED'', NFS4ERR_SHARE_DENIED), (''NFS4ERR_WRONGSEC'', NFS4ERR_WRONGSEC)
      , (''NFS4ERR_CLID_INUSE'', NFS4ERR_CLID_INUSE), (''NFS4ERR_RESOURCE'', NFS4ERR_RESOURCE)
      , (''NFS4ERR_MOVED'', NFS4ERR_MOVED), (''NFS4ERR_NOFILEHANDLE'', NFS4ERR_NOFILEHANDLE)
      , (''NFS4ERR_MINOR_VERS_MISMATCH'', NFS4ERR_MINOR_VERS_MISMATCH)
      , (''NFS4ERR_STALE_CLIENTID'', NFS4ERR_STALE_CLIENTID)
      , (''NFS4ERR_STALE_STATEID'', NFS4ERR_STALE_STATEID), (''NFS4ERR_OLD_STATEID'', NFS4ERR_OLD_STATEID)
      , (''NFS4ERR_BAD_STATEID'', NFS4ERR_BAD_STATEID), (''NFS4ERR_BAD_SEQID'', NFS4ERR_BAD_SEQID)
      , (''NFS4ERR_NOT_SAME'', NFS4ERR_NOT_SAME), (''NFS4ERR_LOCK_RANGE'', NFS4ERR_LOCK_RANGE)
      , (''NFS4ERR_SYMLINK'', NFS4ERR_SYMLINK), (''NFS4ERR_RESTOREFH'', NFS4ERR_RESTOREFH)
      , (''NFS4ERR_LEASE_MOVED'', NFS4ERR_LEASE_MOVED), (''NFS4ERR_ATTRNOTSUPP'', NFS4ERR_ATTRNOTSUPP)
      , (''NFS4ERR_NO_GRACE'', NFS4ERR_NO_GRACE), (''NFS4ERR_RECLAIM_BAD'', NFS4ERR_RECLAIM_BAD)
      , (''NFS4ERR_RECLAIM_CONFLICT'', NFS4ERR_RECLAIM_CONFLICT), (''NFS4ERR_BADXDR'', NFS4ERR_BADXDR)
      , (''NFS4ERR_LOCKS_HELD'', NFS4ERR_LOCKS_HELD), (''NFS4ERR_OPENMODE'', NFS4ERR_OPENMODE)
      , (''NFS4ERR_BADOWNER'', NFS4ERR_BADOWNER), (''NFS4ERR_BADCHAR'', NFS4ERR_BADCHAR)
      , (''NFS4ERR_BADNAME'', NFS4ERR_BADNAME), (''NFS4ERR_BAD_RANGE'', NFS4ERR_BAD_RANGE)
      , (''NFS4ERR_LOCK_NOTSUPP'', NFS4ERR_LOCK_NOTSUPP), (''NFS4ERR_OP_ILLEGAL'', NFS4ERR_OP_ILLEGAL)
      , (''NFS4ERR_DEADLOCK'', NFS4ERR_DEADLOCK), (''NFS4ERR_FILE_OPEN'', NFS4ERR_FILE_OPEN)
      , (''NFS4ERR_ADMIN_REVOKED'', NFS4ERR_ADMIN_REVOKED), (''NFS4ERR_CB_PATH_DOWN'', NFS4ERR_CB_PATH_DOWN)
      , (''NFS4ERR_BADIOMODE'', NFS4ERR_BADIOMODE), (''NFS4ERR_BADLAYOUT'', NFS4ERR_BADLAYOUT)
      , (''NFS4ERR_BAD_SESSION_DIGEST'', NFS4ERR_BAD_SESSION_DIGEST)
      , (''NFS4ERR_BADSESSION'', NFS4ERR_BADSESSION), (''NFS4ERR_BADSLOT'', NFS4ERR_BADSLOT)
      , (''NFS4ERR_COMPLETE_ALREADY'', NFS4ERR_COMPLETE_ALREADY)
      , (''NFS4ERR_CONN_NOT_BOUND_TO_SESSION'', NFS4ERR_CONN_NOT_BOUND_TO_SESSION)
      , (''NFS4ERR_DELEG_ALREADY_WANTED'', NFS4ERR_DELEG_ALREADY_WANTED)
      , (''NFS4ERR_BACK_CHAN_BUSY'', NFS4ERR_BACK_CHAN_BUSY)
      , (''NFS4ERR_LAYOUTTRYLATER'', NFS4ERR_LAYOUTTRYLATER)
      , (''NFS4ERR_LAYOUTUNAVAILABLE'', NFS4ERR_LAYOUTUNAVAILABLE)
      , (''NFS4ERR_NOMATCHING_LAYOUT'', NFS4ERR_NOMATCHING_LAYOUT)
      , (''NFS4ERR_RECALLCONFLICT'', NFS4ERR_RECALLCONFLICT)
      , (''NFS4ERR_UNKNOWN_LAYOUTTYPE'', NFS4ERR_UNKNOWN_LAYOUTTYPE)
      , (''NFS4ERR_SEQ_MISORDERED'', NFS4ERR_SEQ_MISORDERED), (''NFS4ERR_SEQUENCE_POS'', NFS4ERR_SEQUENCE_POS)
      , (''NFS4ERR_REQ_TOO_BIG'', NFS4ERR_REQ_TOO_BIG), (''NFS4ERR_REP_TOO_BIG'', NFS4ERR_REP_TOO_BIG)
      , (''NFS4ERR_REP_TOO_BIG_TO_CACHE'', NFS4ERR_REP_TOO_BIG_TO_CACHE)
      , (''NFS4ERR_RETRY_UNCACHED_REP'', NFS4ERR_RETRY_UNCACHED_REP)
      , (''NFS4ERR_UNSAFE_COMPOUND'', NFS4ERR_UNSAFE_COMPOUND)
      , (''NFS4ERR_TOO_MANY_OPS'', NFS4ERR_TOO_MANY_OPS)
      , (''NFS4ERR_OP_NOT_IN_SESSION'', NFS4ERR_OP_NOT_IN_SESSION)
      , (''NFS4ERR_HASH_ALG_UNSUPP'', NFS4ERR_HASH_ALG_UNSUPP)
      , (''NFS4ERR_CLIENTID_BUSY'', NFS4ERR_CLIENTID_BUSY), (''NFS4ERR_PNFS_IO_HOLE'', NFS4ERR_PNFS_IO_HOLE)
      , (''NFS4ERR_SEQ_FALSE_RETRY'', NFS4ERR_SEQ_FALSE_RETRY)
      , (''NFS4ERR_BAD_HIGH_SLOT'', NFS4ERR_BAD_HIGH_SLOT), (''NFS4ERR_DEADSESSION'', NFS4ERR_DEADSESSION)
      , (''NFS4ERR_ENCR_ALG_UNSUPP'', NFS4ERR_ENCR_ALG_UNSUPP)
      , (''NFS4ERR_PNFS_NO_LAYOUT'', NFS4ERR_PNFS_NO_LAYOUT), (''NFS4ERR_NOT_ONLY_OP'', NFS4ERR_NOT_ONLY_OP)
      , (''NFS4ERR_WRONG_CRED'', NFS4ERR_WRONG_CRED), (''NFS4ERR_WRONG_TYPE'', NFS4ERR_WRONG_TYPE)
      , (''NFS4ERR_DIRDELEG_UNAVAIL'', NFS4ERR_DIRDELEG_UNAVAIL)
      , (''NFS4ERR_REJECT_DELEG'', NFS4ERR_REJECT_DELEG), (''NFS4ERR_RETURNCONFLICT'', NFS4ERR_RETURNCONFLICT)
      , (''NFS4ERR_DELEG_REVOKED'', NFS4ERR_DELEG_REVOKED)
      , (''NFS4ERR_PARTNER_NOTSUPP'', NFS4ERR_PARTNER_NOTSUPP)
      , (''NFS4ERR_PARTNER_NO_AUTH'', NFS4ERR_PARTNER_NO_AUTH)
      , (''NFS4ERR_UNION_NOTSUPP'', NFS4ERR_UNION_NOTSUPP)
      , (''NFS4ERR_OFFLOAD_DENIED'', NFS4ERR_OFFLOAD_DENIED), (''NFS4ERR_WRONG_LFS'', NFS4ERR_WRONG_LFS)
      , (''NFS4ERR_BADLABEL'', NFS4ERR_BADLABEL), (''NFS4ERR_PROT_NOTSUPP'', NFS4ERR_PROT_NOTSUPP)
      , (''NFS4ERR_PROT_INVAL'', NFS4ERR_PROT_INVAL), (''NFS4ERR_PROT_FAIL'', NFS4ERR_PROT_FAIL)
      , (''NFS4ERR_PROT_LATFAIL'', NFS4ERR_PROT_LATFAIL), (''NFS4ERR_REPLAY'', NFS4ERR_REPLAY)]"

section \<open>Names\<close>

definition state_err_str :: "state_status \<Rightarrow> string" where
  "state_err_str err =
     (case err of
        STATE_SUCCESS \<Rightarrow> ''STATE_SUCCESS''
        | STATE_MALLOC_ERROR \<Rightarrow> ''STATE_MALLOC_ERROR''
        | STATE_POOL_MUTEX_INIT_ERROR \<Rightarrow> ''STATE_POOL_MUTEX_INIT_ERROR''
        | STATE_GET_NEW_LRU_ENTRY \<Rightarrow> ''STATE_GET_NEW_LRU_ENTRY''
        | STATE_INIT_ENTRY_FAILED \<Rightarrow> ''STATE_INIT_ENTRY_FAILED''
        | STATE_FSAL_ERROR \<Rightarrow> ''STATE_FSAL_ERROR''
        | STATE_LRU_ERROR \<Rightarrow> ''STATE_LRU_ERROR''
        | STATE_HASH_SET_ERROR \<Rightarrow> ''STATE_HASH_SET_ERROR''
        | STATE_NOT_A_DIRECTORY \<Rightarrow> ''STATE_NOT_A_DIRECTORY''
        | STATE_INCONSISTENT_ENTRY \<Rightarrow> ''STATE_INCONSISTENT_ENTRY''
        | STATE_BAD_TYPE \<Rightarrow> ''STATE_BAD_TYPE''
        | STATE_ENTRY_EXISTS \<Rightarrow> ''STATE_ENTRY_EXISTS''
        | STATE_DIR_NOT_EMPTY \<Rightarrow> ''STATE_DIR_NOT_EMPTY''
        | STATE_NOT_FOUND \<Rightarrow> ''STATE_NOT_FOUND''
        | STATE_INVALID_ARGUMENT \<Rightarrow> ''STATE_INVALID_ARGUMENT''
        | STATE_INSERT_ERROR \<Rightarrow> ''STATE_INSERT_ERROR''
        | STATE_HASH_TABLE_ERROR \<Rightarrow> ''STATE_HASH_TABLE_ERROR''
        | STATE_FSAL_EACCESS \<Rightarrow> ''STATE_FSAL_EACCESS''
        | STATE_IS_A_DIRECTORY \<Rightarrow> ''STATE_IS_A_DIRECTORY''
        | STATE_FSAL_EPERM \<Rightarrow> ''STATE_FSAL_EPERM''
        | STATE_NO_SPACE_LEFT \<Rightarrow> ''STATE_NO_SPACE_LEFT''
        | STATE_READ_ONLY_FS \<Rightarrow> ''STATE_READ_ONLY_FS''
        | STATE_IO_ERROR \<Rightarrow> ''STATE_IO_ERROR''
        | STATE_FSAL_ESTALE \<Rightarrow> ''STATE_FSAL_ESTALE''
        | STATE_FSAL_ERR_SEC \<Rightarrow> ''STATE_FSAL_ERR_SEC''
        | STATE_STATE_CONFLICT \<Rightarrow> ''STATE_STATE_CONFLICT''
        | STATE_QUOTA_EXCEEDED \<Rightarrow> ''STATE_QUOTA_EXCEEDED''
        | STATE_DEAD_ENTRY \<Rightarrow> ''STATE_DEAD_ENTRY''
        | STATE_ASYNC_POST_ERROR \<Rightarrow> ''STATE_ASYNC_POST_ERROR''
        | STATE_NOT_SUPPORTED \<Rightarrow> ''STATE_NOT_SUPPORTED''
        | STATE_STATE_ERROR \<Rightarrow> ''STATE_STATE_ERROR''
        | STATE_FSAL_DELAY \<Rightarrow> ''STATE_FSAL_DELAY''
        | STATE_NAME_TOO_LONG \<Rightarrow> ''STATE_NAME_TOO_LONG''
        | STATE_LOCK_CONFLICT \<Rightarrow> ''STATE_LOCK_CONFLICT''
        | STATE_LOCK_BLOCKED \<Rightarrow> ''STATE_LOCK_BLOCKED''
        | STATE_LOCK_DEADLOCK \<Rightarrow> ''STATE_LOCK_DEADLOCK''
        | STATE_BAD_COOKIE \<Rightarrow> ''STATE_BAD_COOKIE''
        | STATE_FILE_BIG \<Rightarrow> ''STATE_FILE_BIG''
        | STATE_GRACE_PERIOD \<Rightarrow> ''STATE_GRACE_PERIOD''
        | STATE_CACHE_INODE_ERR \<Rightarrow> ''STATE_CACHE_INODE_ERR''
        | STATE_SIGNAL_ERROR \<Rightarrow> ''STATE_SIGNAL_ERROR''
        | STATE_KILLED \<Rightarrow> ''STATE_KILLED'' | STATE_FILE_OPEN \<Rightarrow> ''STATE_FILE_OPEN''
        | STATE_MLINK \<Rightarrow> ''STATE_MLINK'' | STATE_SERVERFAULT \<Rightarrow> ''STATE_SERVERFAULT''
        | STATE_TOOSMALL \<Rightarrow> ''STATE_TOOSMALL'' | STATE_XDEV \<Rightarrow> ''STATE_XDEV''
        | STATE_FSAL_SHARE_DENIED \<Rightarrow> ''STATE_FSAL_SHARE_DENIED''
        | STATE_IN_GRACE \<Rightarrow> ''STATE_IN_GRACE'' | STATE_BADHANDLE \<Rightarrow> ''STATE_BADHANDLE'')"

definition cache_inode_err_str :: "cache_inode_status \<Rightarrow> string" where
  "cache_inode_err_str err =
     (case err of
        CACHE_INODE_SUCCESS \<Rightarrow> ''CACHE_INODE_SUCCESS''
        | CACHE_INODE_MALLOC_ERROR \<Rightarrow> ''CACHE_INODE_MALLOC_ERROR''
        | CACHE_INODE_POOL_MUTEX_INIT_ERROR \<Rightarrow> ''CACHE_INODE_POOL_MUTEX_INIT_ERROR''
        | CACHE_INODE_GET_NEW_LRU_ENTRY \<Rightarrow> ''CACHE_INODE_GET_NEW_LRU_ENTRY''
        | CACHE_INODE_INIT_ENTRY_FAILED \<Rightarrow> ''CACHE_INODE_INIT_ENTRY_FAILED''
        | CACHE_INODE_FSAL_ERROR \<Rightarrow> ''CACHE_INODE_FSAL_ERROR''
        | CACHE_INODE_LRU_ERROR \<Rightarrow> ''CACHE_INODE_LRU_ERROR''
        | CACHE_INODE_HASH_SET_ERROR \<Rightarrow> ''CACHE_INODE_HASH_SET_ERROR''
        | CACHE_INODE_NOT_A_DIRECTORY \<Rightarrow> ''CACHE_INODE_NOT_A_DIRECTORY''
        | CACHE_INODE_INCONSISTENT_ENTRY \<Rightarrow> ''CACHE_INODE_INCONSISTENT_ENTRY''
        | CACHE_INODE_BAD_TYPE \<Rightarrow> ''CACHE_INODE_BAD_TYPE''
        | CACHE_INODE_ENTRY_EXISTS \<Rightarrow> ''CACHE_INODE_ENTRY_EXISTS''
        | CACHE_INODE_DIR_NOT_EMPTY \<Rightarrow> ''CACHE_INODE_DIR_NOT_EMPTY''
        | CACHE_INODE_NOT_FOUND \<Rightarrow> ''CACHE_INODE_NOT_FOUND''
        | CACHE_INODE_INVALID_ARGUMENT \<Rightarrow> ''CACHE_INODE_INVALID_ARGUMENT''
        | CACHE_INODE_INSERT_ERROR \<Rightarrow> ''CACHE_INODE_INSERT_ERROR''
        | CACHE_INODE_HASH_TABLE_ERROR \<Rightarrow> ''CACHE_INODE_HASH_TABLE_ERROR''
        | CACHE_INODE_FSAL_EACCESS \<Rightarrow> ''CACHE_INODE_FSAL_EACCESS''
        | CACHE_INODE_IS_A_DIRECTORY \<Rightarrow> ''CACHE_INODE_IS_A_DIRECTORY''
        | CACHE_INODE_FSAL_EPERM \<Rightarrow> ''CACHE_INODE_FSAL_EPERM''
        | CACHE_INODE_NO_SPACE_LEFT \<Rightarrow> ''CACHE_INODE_NO_SPACE_LEFT''
        | CACHE_INODE_READ_ONLY_FS \<Rightarrow> ''CACHE_INODE_READ_ONLY_FS''
        | CACHE_INODE_IO_ERROR \<Rightarrow> ''CACHE_INODE_IO_ERROR''
        | CACHE_INODE_FSAL_ESTALE \<Rightarrow> ''CACHE_INODE_FSAL_ESTALE''
        | CACHE_INODE_FSAL_ERR_SEC \<Rightarrow> ''CACHE_INODE_FSAL_ERR_SEC''
        | CACHE_INODE_STATE_CONFLICT \<Rightarrow> ''CACHE_INODE_STATE_CONFLICT''
        | CACHE_INODE_QUOTA_EXCEEDED \<Rightarrow> ''CACHE_INODE_QUOTA_EXCEEDED''
        | CACHE_INODE_DEAD_ENTRY \<Rightarrow> ''CACHE_INODE_DEAD_ENTRY''
        | CACHE_INODE_ASYNC_POST_ERROR \<Rightarrow> ''CACHE_INODE_ASYNC_POST_ERROR''
        | CACHE_INODE_NOT_SUPPORTED \<Rightarrow> ''CACHE_INODE_NOT_SUPPORTED''
        | CACHE_INODE_STATE_ERROR \<Rightarrow> ''CACHE_INODE_STATE_ERROR''
        | CACHE_INODE_DELAY \<Rightarrow> ''CACHE_INODE_FSAL_DELAY''
        | CACHE_INODE_NAME_TOO_LONG \<Rightarrow> ''CACHE_INODE_NAME_TOO_LONG''
        | CACHE_INODE_BAD_COOKIE \<Rightarrow> ''CACHE_INODE_BAD_COOKIE''
        | CACHE_INODE_FILE_BIG \<Rightarrow> ''CACHE_INODE_FILE_BIG''
        | CACHE_INODE_KILLED \<Rightarrow> ''CACHE_INODE_KILLED''
        | CACHE_INODE_FILE_OPEN \<Rightarrow> ''CACHE_INODE_FILE_OPEN''
        | CACHE_INODE_FSAL_XDEV \<Rightarrow> ''CACHE_INOE_FSAL_XDEV''
        | CACHE_INODE_FSAL_MLINK \<Rightarrow> ''CACHE_INOE_FSAL_MLINK''
        | CACHE_INODE_SERVERFAULT \<Rightarrow> ''CACHE_INODE_SERVERFAULT''
        | CACHE_INODE_TOOSMALL \<Rightarrow> ''CACHE_INODE_TOOSMALL''
        | CACHE_INODE_FSAL_SHARE_DENIED \<Rightarrow> ''CACHE_INODE_FSAL_SHARE_DENIED''
        | CACHE_INODE_BADNAME \<Rightarrow> ''CACHE_INODE_BADNAME''
        | CACHE_INODE_UNION_NOTSUPP \<Rightarrow> ''CACHE_INODE_UNION_NOTSUPP''
        | CACHE_INODE_CROSS_JUNCTION \<Rightarrow> ''CACHE_INODE_CROSS_JUNCTION''
        | CACHE_INODE_IN_GRACE \<Rightarrow> ''CACHE_INODE_IN_GRACE''
        | CACHE_INODE_BADHANDLE \<Rightarrow> ''CACHE_INODE_BADHANDLE'')"

definition msg_fsal_err :: "fsal_errors \<Rightarrow> string" where
  "msg_fsal_err fsal_err =
     (case fsal_err of
        ERR_FSAL_NO_ERROR \<Rightarrow> ''No error'' | ERR_FSAL_PERM \<Rightarrow> ''Forbidden action''
        | ERR_FSAL_NOENT \<Rightarrow> ''No such file or directory'' | ERR_FSAL_IO \<Rightarrow> ''I/O error''
        | ERR_FSAL_NXIO \<Rightarrow> ''No such device or address''
        | ERR_FSAL_NOMEM \<Rightarrow> ''Not enough memory''
        | ERR_FSAL_ACCESS \<Rightarrow> ''Permission denied'' | ERR_FSAL_FAULT \<Rightarrow> ''Bad address''
        | ERR_FSAL_EXIST \<Rightarrow> ''This object already exists''
        | ERR_FSAL_XDEV \<Rightarrow> ''This operation can't cross filesystems''
        | ERR_FSAL_NOTDIR \<Rightarrow> ''This object is not a directory''
        | ERR_FSAL_ISDIR \<Rightarrow> ''Directory used in a nondirectory operation''
        | ERR_FSAL_INVAL \<Rightarrow> ''Invalid object type''
        | ERR_FSAL_FBIG \<Rightarrow> ''File exceeds max file size''
        | ERR_FSAL_NOSPC \<Rightarrow> ''No space left on filesystem''
        | ERR_FSAL_ROFS \<Rightarrow> ''Read-only filesystem''
        | ERR_FSAL_MLINK \<Rightarrow> ''Too many hard links''
        | ERR_FSAL_DQUOT \<Rightarrow> ''Quota exceeded''
        | ERR_FSAL_NAMETOOLONG \<Rightarrow> ''Max name length exceeded''
        | ERR_FSAL_NOTEMPTY \<Rightarrow> ''The directory is not empty''
        | ERR_FSAL_STALE \<Rightarrow> ''The file no longer exists''
        | ERR_FSAL_BADHANDLE \<Rightarrow> ''Illegal filehandle''
        | ERR_FSAL_BADCOOKIE \<Rightarrow> ''Invalid cookie''
        | ERR_FSAL_NOTSUPP \<Rightarrow> ''Operation not supported''
        | ERR_FSAL_TOOSMALL \<Rightarrow> ''Output buffer too small''
        | ERR_FSAL_SERVERFAULT \<Rightarrow> ''Undefined server error''
        | ERR_FSAL_BADTYPE \<Rightarrow> ''Invalid type for create operation''
        | ERR_FSAL_DELAY \<Rightarrow> ''File busy, retry''
        | ERR_FSAL_FHEXPIRED \<Rightarrow> ''Filehandle expired''
        | ERR_FSAL_SHARE_DENIED \<Rightarrow> ''Share Denied''
        | ERR_FSAL_SYMLINK \<Rightarrow> ''This is a symbolic link, should be file/directory''
        | ERR_FSAL_ATTRNOTSUPP \<Rightarrow> ''Attribute not supported''
        | ERR_FSAL_NOT_INIT \<Rightarrow> ''Filesystem not initialized''
        | ERR_FSAL_ALREADY_INIT \<Rightarrow> ''Filesystem already initialised''
        | ERR_FSAL_BAD_INIT \<Rightarrow> ''Filesystem initialisation error''
        | ERR_FSAL_SEC \<Rightarrow> ''Security context error''
        | ERR_FSAL_NO_QUOTA \<Rightarrow> ''No Quota available''
        | ERR_FSAL_NOT_OPENED \<Rightarrow> ''File/directory not opened''
        | ERR_FSAL_DEADLOCK \<Rightarrow> ''Deadlock'' | ERR_FSAL_OVERFLOW \<Rightarrow> ''Overflow''
        | ERR_FSAL_INTERRUPT \<Rightarrow> ''Operation Interrupted''
        | ERR_FSAL_BLOCKED \<Rightarrow> ''Lock Blocked'' | ERR_FSAL_TIMEOUT \<Rightarrow> ''Timeout''
        | ERR_FSAL_FILE_OPEN \<Rightarrow> ''File Open''
        | ERR_FSAL_UNION_NOTSUPP \<Rightarrow> ''Union Not Supported''
        | ERR_FSAL_IN_GRACE \<Rightarrow> ''Server in Grace'')"

definition nfsstat3_to_str :: "nfsstat3 \<Rightarrow> string" where
  "nfsstat3_to_str code =
     (case code of
        NFS3_OK \<Rightarrow> ''NFS3_OK'' | NFS3ERR_PERM \<Rightarrow> ''NFS3ERR_PERM''
        | NFS3ERR_NOENT \<Rightarrow> ''NFS3ERR_NOENT'' | NFS3ERR_IO \<Rightarrow> ''NFS3ERR_IO''
        | NFS3ERR_NXIO \<Rightarrow> ''NFS3ERR_NXIO'' | NFS3ERR_ACCES \<Rightarrow> ''NFS3ERR_ACCES''
        | NFS3ERR_EXIST \<Rightarrow> ''NFS3ERR_EXIST'' | NFS3ERR_XDEV \<Rightarrow> ''NFS3ERR_XDEV''
        | NFS3ERR_NODEV \<Rightarrow> ''NFS3ERR_NODEV'' | NFS3ERR_NOTDIR \<Rightarrow> ''NFS3ERR_NOTDIR''
        | NFS3ERR_ISDIR \<Rightarrow> ''NFS3ERR_ISDIR'' | NFS3ERR_INVAL \<Rightarrow> ''NFS3ERR_INVAL''
        | NFS3ERR_FBIG \<Rightarrow> ''NFS3ERR_FBIG'' | NFS3ERR_NOSPC \<Rightarrow> ''NFS3ERR_NOSPC''
        | NFS3ERR_ROFS \<Rightarrow> ''NFS3ERR_ROFS'' | NFS3ERR_MLINK \<Rightarrow> ''NFS3ERR_MLINK''
        | NFS3ERR_NAMETOOLONG \<Rightarrow> ''NFS3ERR_NAMETOOLONG''
        | NFS3ERR_NOTEMPTY \<Rightarrow> ''NFS3ERR_NOTEMPTY'' | NFS3ERR_DQUOT \<Rightarrow> ''NFS3ERR_DQUOT''
        | NFS3ERR_STALE \<Rightarrow> ''NFS3ERR_STALE'' | NFS3ERR_REMOTE \<Rightarrow> ''NFS3ERR_REMOTE''
        | NFS3ERR_BADHANDLE \<Rightarrow> ''NFS3ERR_BADHANDLE''
        | NFS3ERR_NOT_SYNC \<Rightarrow> ''NFS3ERR_NOT_SYNC''
        | NFS3ERR_BAD_COOKIE \<Rightarrow> ''NFS3ERR_BAD_COOKIE''
        | NFS3ERR_NOTSUPP \<Rightarrow> ''NFS3ERR_NOTSUPP''
        | NFS3ERR_TOOSMALL \<Rightarrow> ''NFS3ERR_TOOSMALL''
        | NFS3ERR_SERVERFAULT \<Rightarrow> ''NFS3ERR_SERVERFAULT''
        | NFS3ERR_BADTYPE \<Rightarrow> ''NFS3ERR_BADTYPE''
        | NFS3ERR_JUKEBOX \<Rightarrow> ''NFS3ERR_JUKEBOX'')"

definition nfsstat4_to_str :: "nfsstat4 \<Rightarrow> string" where
  "nfsstat4_to_str code =
     (case map_of
       [(NFS4_OK, ''NFS4_OK''), (NFS4ERR_PERM, ''NFS4ERR_PERM''), (NFS4ERR_NOENT, ''NFS4ERR_NOENT'')
        , (NFS4ERR_IO, ''NFS4ERR_IO''), (NFS4ERR_NXIO, ''NFS4ERR_NXIO''), (NFS4ERR_ACCESS, ''NFS4ERR_ACCESS'')
        , (NFS4ERR_EXIST, ''NFS4ERR_EXIST''), (NFS4ERR_XDEV, ''NFS4ERR_XDEV'')
        , (NFS4ERR_NOTDIR, ''NFS4ERR_NOTDIR''), (NFS4ERR_ISDIR, ''NFS4ERR_ISDIR'')
        , (NFS4ERR_INVAL, ''NFS4ERR_INVAL''), (NFS4ERR_FBIG, ''NFS4ERR_FBIG'')
        , (NFS4ERR_NOSPC, ''NFS4ERR_NOSPC''), (NFS4ERR_ROFS, ''NFS4ERR_ROFS'')
        , (NFS4ERR_MLINK, ''NFS4ERR_MLINK''), (NFS4ERR_NAMETOOLONG, ''NFS4ERR_NAMETOOLONG'')
        , (NFS4ERR_NOTEMPTY, ''NFS4ERR_NOTEMPTY''), (NFS4ERR_DQUOT, ''NFS4ERR_DQUOT'')
        , (NFS4ERR_STALE, ''NFS4ERR_STALE''), (NFS4ERR_BADHANDLE, ''NFS4ERR_BADHANDLE'')
        , (NFS4ERR_BAD_COOKIE, ''NFS4ERR_BAD_COOKIE''), (NFS4ERR_NOTSUPP, ''NFS4ERR_NOTSUPP'')
        , (NFS4ERR_TOOSMALL, ''NFS4ERR_TOOSMALL''), (NFS4ERR_SERVERFAULT, ''NFS4ERR_SERVERFAULT'')
        , (NFS4ERR_BADTYPE, ''NFS4ERR_BADTYPE''), (NFS4ERR_DELAY, ''NFS4ERR_DELAY'')
        , (NFS4ERR_SAME, ''NFS4ERR_SAME''), (NFS4ERR_DENIED, ''NFS4ERR_DENIED'')
        , (NFS4ERR_EXPIRED, ''NFS4ERR_EXPIRED''), (NFS4ERR_LOCKED, ''NFS4ERR_LOCKED'')
        , (NFS4ERR_GRACE, ''NFS4ERR_GRACE''), (NFS4ERR_FHEXPIRED, ''NFS4ERR_FHEXPIRED'')
        , (NFS4ERR_SHARE_DENIED, ''NFS4ERR_SHARE_DENIED''), (NFS4ERR_WRONGSEC, ''NFS4ERR_WRONGSEC'')
        , (NFS4ERR_CLID_INUSE, ''NFS4ERR_CLID_INUSE''), (NFS4ERR_RESOURCE, ''NFS4ERR_RESOURCE'')
        , (NFS4ERR_MOVED, ''NFS4ERR_MOVED''), (NFS4ERR_NOFILEHANDLE, ''NFS4ERR_NOFILEHANDLE'')
        , (NFS4ERR_MINOR_VERS_MISMATCH, ''NFS4ERR_MINOR_VERS_MISMATCH'')
        , (NFS4ERR_STALE_CLIENTID, ''NFS4ERR_STALE_CLIENTID'')
        , (NFS4ERR_STALE_STATEID, ''NFS4ERR_STALE_STATEID''), (NFS4ERR_OLD_STATEID, ''NFS4ERR_OLD_STATEID'')
        , (NFS4ERR_BAD_STATEID, ''NFS4ERR_BAD_STATEID''), (NFS4ERR_BAD_SEQID, ''NFS4ERR_BAD_SEQID'')
        , (NFS4ERR_NOT_SAME, ''NFS4ERR_NOT_SAME''), (NFS4ERR_LOCK_RANGE, ''NFS4ERR_LOCK_RANGE'')
        , (NFS4ERR_SYMLINK, ''NFS4ERR_SYMLINK''), (NFS4ERR_RESTOREFH, ''NFS4ERR_RESTOREFH'')
        , (NFS4ERR_LEASE_MOVED, ''NFS4ERR_LEASE_MOVED''), (NFS4ERR_ATTRNOTSUPP, ''NFS4ERR_ATTRNOTSUPP'')
        , (NFS4ERR_NO_GRACE, ''NFS4ERR_NO_GRACE''), (NFS4ERR_RECLAIM_BAD, ''NFS4ERR_RECLAIM_BAD'')
        , (NFS4ERR_RECLAIM_CONFLICT, ''NFS4ERR_RECLAIM_CONFLICT''), (NFS4ERR_BADXDR, ''NFS4ERR_BADXDR'')
        , (NFS4ERR_LOCKS_HELD, ''NFS4ERR_LOCKS_HELD''), (NFS4ERR_OPENMODE, ''NFS4ERR_OPENMODE'')
        , (NFS4ERR_BADOWNER, ''NFS4ERR_BADOWNER''), (NFS4ERR_BADCHAR, ''NFS4ERR_BADCHAR'')
        , (NFS4ERR_BADNAME, ''NFS4ERR_BADNAME''), (NFS4ERR_BAD_RANGE, ''NFS4ERR_BAD_RANGE'')
        , (NFS4ERR_LOCK_NOTSUPP, ''NFS4ERR_LOCK_NOTSUPP''), (NFS4ERR_OP_ILLEGAL, ''NFS4ERR_OP_ILLEGAL'')
        , (NFS4ERR_DEADLOCK, ''NFS4ERR_DEADLOCK''), (NFS4ERR_FILE_OPEN, ''NFS4ERR_FILE_OPEN'')
        , (NFS4ERR_ADMIN_REVOKED, ''NFS4ERR_ADMIN_REVOKED''), (NFS4ERR_CB_PATH_DOWN, ''NFS4ERR_CB_PATH_DOWN'')
        , (NFS4ERR_BADIOMODE, ''NFS4ERR_BADIOMODE''), (NFS4ERR_BADLAYOUT, ''NFS4ERR_BADLAYOUT'')
        , (NFS4ERR_BAD_SESSION_DIGEST, ''NFS4ERR_BAD_SESSION_DIGEST'')
        , (NFS4ERR_BADSESSION, ''NFS4ERR_BADSESSION''), (NFS4ERR_BADSLOT, ''NFS4ERR_BADSLOT'')
        , (NFS4ERR_COMPLETE_ALREADY, ''NFS4ERR_COMPLETE_ALREADY'')
        , (NFS4ERR_CONN_NOT_BOUND_TO_SESSION, ''NFS4ERR_CONN_NOT_BOUND_TO_SESSION'')
        , (NFS4ERR_DELEG_ALREADY_WANTED, ''NFS4ERR_DELEG_ALREADY_WANTED'')
        , (NFS4ERR_BACK_CHAN_BUSY, ''NFS4ERR_BACK_CHAN_BUSY'')
        , (NFS4ERR_LAYOUTTRYLATER, ''NFS4ERR_LAYOUTTRYLATER'')
        , (NFS4ERR_LAYOUTUNAVAILABLE, ''NFS4ERR_LAYOUTUNAVAILABLE'')
        , (NFS4ERR_NOMATCHING_LAYOUT, ''NFS4ERR_NOMATCHING_LAYOUT'')
        , (NFS4ERR_RECALLCONFLICT, ''NFS4ERR_RECALLCONFLICT'')
        , (NFS4ERR_UNKNOWN_LAYOUTTYPE, ''NFS4ERR_UNKNOWN_LAYOUTTYPE'')
        , (NFS4ERR_SEQ_MISORDERED, ''NFS4ERR_SEQ_MISORDERED'')
        , (NFS4ERR_SEQUENCE_POS, ''NFS4ERR_SEQUENCE_POS''), (NFS4ERR_REQ_TOO_BIG, ''NFS4ERR_REQ_TOO_BIG'')
        , (NFS4ERR_REP_TOO_BIG, ''NFS4ERR_REP_TOO_BIG'')
        , (NFS4ERR_REP_TOO_BIG_TO_CACHE, ''NFS4ERR_REP_TOO_BIG_TO_CACHE'')
        , (NFS4ERR_RETRY_UNCACHED_REP, ''NFS4ERR_RETRY_UNCACHED_REP'')
        , (NFS4ERR_UNSAFE_COMPOUND, ''NFS4ERR_UNSAFE_COMPOUND'')
        , (NFS4ERR_TOO_MANY_OPS, ''NFS4ERR_TOO_MANY_OPS'')
        , (NFS4ERR_OP_NOT_IN_SESSION, ''NFS4ERR_OP_NOT_IN_SESSION'')
        , (NFS4ERR_HASH_ALG_UNSUPP, ''NFS4ERR_HASH_ALG_UNSUPP'')
        , (NFS4ERR_CLIENTID_BUSY, ''NFS4ERR_CLIENTID_BUSY''), (NFS4ERR_PNFS_IO_HOLE, ''NFS4ERR_PNFS_IO_HOLE'')
        , (NFS4ERR_SEQ_FALSE_RETRY, ''NFS4ERR_SEQ_FALSE_RETRY'')
        , (NFS4ERR_BAD_HIGH_SLOT, ''NFS4ERR_BAD_HIGH_SLOT''), (NFS4ERR_DEADSESSION, ''NFS4ERR_DEADSESSION'')
        , (NFS4ERR_ENCR_ALG_UNSUPP, ''NFS4ERR_ENCR_ALG_UNSUPP'')
        , (NFS4ERR_PNFS_NO_LAYOUT, ''NFS4ERR_PNFS_NO_LAYOUT''), (NFS4ERR_NOT_ONLY_OP, ''NFS4ERR_NOT_ONLY_OP'')
        , (NFS4ERR_WRONG_CRED, ''NFS4ERR_WRONG_CRED''), (NFS4ERR_WRONG_TYPE, ''NFS4ERR_WRONG_TYPE'')
        , (NFS4ERR_DIRDELEG_UNAVAIL, ''NFS4ERR_DIRDELEG_UNAVAIL'')
        , (NFS4ERR_REJECT_DELEG, ''NFS4ERR_REJECT_DELEG'')
        , (NFS4ERR_RETURNCONFLICT, ''NFS4ERR_RETURNCONFLICT'')
        , (NFS4ERR_DELEG_REVOKED, ''NFS4ERR_DELEG_REVOKED'')
        , (NFS4ERR_PARTNER_NOTSUPP, ''NFS4ERR_PARTNER_NOTSUPP'')
        , (NFS4ERR_PARTNER_NO_AUTH, ''NFS4ERR_PARTNER_NO_AUTH'')
        , (NFS4ERR_OFFLOAD_DENIED, ''NFS4ERR_OFFLOAD_DENIED''), (NFS4ERR_WRONG_LFS, ''NFS4ERR_WRONG_LFS'')
        , (NFS4ERR_BADLABEL, ''NFS4ERR_BADLABEL''), (NFS4ERR_UNION_NOTSUPP, ''NFS4ERR_UNION_NOTSUPP'')
        , (NFS4ERR_PROT_NOTSUPP, ''NFS4ERR_PROT_NOTSUPP''), (NFS4ERR_PROT_INVAL, ''NFS4ERR_PROT_INVAL'')
        , (NFS4ERR_PROT_FAIL, ''NFS4ERR_PROT_FAIL''), (NFS4ERR_PROT_LATFAIL, ''NFS4ERR_PROT_LATFAIL'')
        , (NFS4ERR_REPLAY, ''NFS4ERR_REPLAY'')] code of
        Some v \<Rightarrow> v
      | None \<Rightarrow> ''UNKNOWN NFSv4 ERROR CODE'')"

section \<open>Conversions\<close>

definition cache_inode_status_to_state_status :: "cache_inode_status \<Rightarrow> state_status" where
  "cache_inode_status_to_state_status status =
     (case status of
        CACHE_INODE_SUCCESS \<Rightarrow> STATE_SUCCESS
        | CACHE_INODE_MALLOC_ERROR \<Rightarrow> STATE_MALLOC_ERROR
        | CACHE_INODE_POOL_MUTEX_INIT_ERROR \<Rightarrow> STATE_POOL_MUTEX_INIT_ERROR
        | CACHE_INODE_GET_NEW_LRU_ENTRY \<Rightarrow> STATE_GET_NEW_LRU_ENTRY
        | CACHE_INODE_INIT_ENTRY_FAILED \<Rightarrow> STATE_INIT_ENTRY_FAILED
        | CACHE_INODE_FSAL_ERROR \<Rightarrow> STATE_FSAL_ERROR
        | CACHE_INODE_LRU_ERROR \<Rightarrow> STATE_LRU_ERROR
        | CACHE_INODE_HASH_SET_ERROR \<Rightarrow> STATE_HASH_SET_ERROR
        | CACHE_INODE_NOT_A_DIRECTORY \<Rightarrow> STATE_NOT_A_DIRECTORY
        | CACHE_INODE_INCONSISTENT_ENTRY \<Rightarrow> STATE_INCONSISTENT_ENTRY
        | CACHE_INODE_BAD_TYPE \<Rightarrow> STATE_BAD_TYPE
        | CACHE_INODE_ENTRY_EXISTS \<Rightarrow> STATE_ENTRY_EXISTS
        | CACHE_INODE_DIR_NOT_EMPTY \<Rightarrow> STATE_DIR_NOT_EMPTY
        | CACHE_INODE_NOT_FOUND \<Rightarrow> STATE_NOT_FOUND
        | CACHE_INODE_INVALID_ARGUMENT \<Rightarrow> STATE_INVALID_ARGUMENT
        | CACHE_INODE_INSERT_ERROR \<Rightarrow> STATE_INSERT_ERROR
        | CACHE_INODE_HASH_TABLE_ERROR \<Rightarrow> STATE_HASH_TABLE_ERROR
        | CACHE_INODE_FSAL_EACCESS \<Rightarrow> STATE_FSAL_EACCESS
        | CACHE_INODE_IS_A_DIRECTORY \<Rightarrow> STATE_IS_A_DIRECTORY
        | CACHE_INODE_FSAL_EPERM \<Rightarrow> STATE_FSAL_EPERM
        | CACHE_INODE_NO_SPACE_LEFT \<Rightarrow> STATE_NO_SPACE_LEFT
        | CACHE_INODE_READ_ONLY_FS \<Rightarrow> STATE_READ_ONLY_FS
        | CACHE_INODE_IO_ERROR \<Rightarrow> STATE_IO_ERROR
        | CACHE_INODE_FSAL_ESTALE \<Rightarrow> STATE_FSAL_ESTALE
        | CACHE_INODE_FSAL_ERR_SEC \<Rightarrow> STATE_FSAL_ERR_SEC
        | CACHE_INODE_STATE_CONFLICT \<Rightarrow> STATE_STATE_CONFLICT
        | CACHE_INODE_QUOTA_EXCEEDED \<Rightarrow> STATE_QUOTA_EXCEEDED
        | CACHE_INODE_DEAD_ENTRY \<Rightarrow> STATE_DEAD_ENTRY
        | CACHE_INODE_ASYNC_POST_ERROR \<Rightarrow> STATE_ASYNC_POST_ERROR
        | CACHE_INODE_NOT_SUPPORTED \<Rightarrow> STATE_NOT_SUPPORTED
        | CACHE_INODE_STATE_ERROR \<Rightarrow> STATE_STATE_ERROR
        | CACHE_INODE_DELAY \<Rightarrow> STATE_FSAL_DELAY
        | CACHE_INODE_NAME_TOO_LONG \<Rightarrow> STATE_NAME_TOO_LONG
        | CACHE_INODE_BAD_COOKIE \<Rightarrow> STATE_BAD_COOKIE
        | CACHE_INODE_FILE_BIG \<Rightarrow> STATE_FILE_BIG | CACHE_INODE_KILLED \<Rightarrow> STATE_KILLED
        | CACHE_INODE_FILE_OPEN \<Rightarrow> STATE_FILE_OPEN | CACHE_INODE_FSAL_XDEV \<Rightarrow> STATE_XDEV
        | CACHE_INODE_FSAL_MLINK \<Rightarrow> STATE_MLINK
        | CACHE_INODE_SERVERFAULT \<Rightarrow> STATE_SERVERFAULT
        | CACHE_INODE_TOOSMALL \<Rightarrow> STATE_TOOSMALL
        | CACHE_INODE_FSAL_SHARE_DENIED \<Rightarrow> STATE_FSAL_SHARE_DENIED
        | CACHE_INODE_BADNAME \<Rightarrow> STATE_INVALID_ARGUMENT
        | CACHE_INODE_UNION_NOTSUPP \<Rightarrow> STATE_NOT_SUPPORTED
        | CACHE_INODE_CROSS_JUNCTION \<Rightarrow> STATE_INVALID_ARGUMENT
        | CACHE_INODE_IN_GRACE \<Rightarrow> STATE_IN_GRACE
        | CACHE_INODE_BADHANDLE \<Rightarrow> STATE_BADHANDLE)"

definition state_error_convert :: "fsal_status \<Rightarrow> state_status" where
  "state_error_convert fsal_status =
     (case major fsal_status of
        ERR_FSAL_NO_ERROR \<Rightarrow> STATE_SUCCESS | ERR_FSAL_PERM \<Rightarrow> STATE_FSAL_EPERM
        | ERR_FSAL_NOENT \<Rightarrow> STATE_NOT_FOUND | ERR_FSAL_IO \<Rightarrow> STATE_IO_ERROR
        | ERR_FSAL_NXIO \<Rightarrow> STATE_IO_ERROR | ERR_FSAL_NOMEM \<Rightarrow> STATE_MALLOC_ERROR
        | ERR_FSAL_ACCESS \<Rightarrow> STATE_LOCK_CONFLICT | ERR_FSAL_FAULT \<Rightarrow> STATE_FSAL_ERROR
        | ERR_FSAL_EXIST \<Rightarrow> STATE_FSAL_ERROR | ERR_FSAL_XDEV \<Rightarrow> STATE_FSAL_ERROR
        | ERR_FSAL_NOTDIR \<Rightarrow> STATE_FSAL_ERROR | ERR_FSAL_ISDIR \<Rightarrow> STATE_IS_A_DIRECTORY
        | ERR_FSAL_INVAL \<Rightarrow> STATE_INVALID_ARGUMENT | ERR_FSAL_FBIG \<Rightarrow> STATE_FILE_BIG
        | ERR_FSAL_NOSPC \<Rightarrow> STATE_NO_SPACE_LEFT | ERR_FSAL_ROFS \<Rightarrow> STATE_READ_ONLY_FS
        | ERR_FSAL_MLINK \<Rightarrow> STATE_FSAL_ERROR | ERR_FSAL_DQUOT \<Rightarrow> STATE_FSAL_ERROR
        | ERR_FSAL_NAMETOOLONG \<Rightarrow> STATE_FSAL_ERROR
        | ERR_FSAL_NOTEMPTY \<Rightarrow> STATE_FSAL_ERROR | ERR_FSAL_STALE \<Rightarrow> STATE_FSAL_ESTALE
        | ERR_FSAL_BADHANDLE \<Rightarrow> STATE_BADHANDLE | ERR_FSAL_BADCOOKIE \<Rightarrow> STATE_BAD_COOKIE
        | ERR_FSAL_NOTSUPP \<Rightarrow> STATE_NOT_SUPPORTED
        | ERR_FSAL_TOOSMALL \<Rightarrow> STATE_FSAL_ERROR
        | ERR_FSAL_SERVERFAULT \<Rightarrow> STATE_FSAL_ERROR | ERR_FSAL_BADTYPE \<Rightarrow> STATE_BAD_TYPE
        | ERR_FSAL_DELAY \<Rightarrow> STATE_LOCK_CONFLICT
        | ERR_FSAL_FHEXPIRED \<Rightarrow> STATE_FSAL_ESTALE
        | ERR_FSAL_SHARE_DENIED \<Rightarrow> STATE_FSAL_SHARE_DENIED
        | ERR_FSAL_SYMLINK \<Rightarrow> STATE_BAD_TYPE
        | ERR_FSAL_ATTRNOTSUPP \<Rightarrow> STATE_NOT_SUPPORTED
        | ERR_FSAL_NOT_INIT \<Rightarrow> STATE_FSAL_ERROR
        | ERR_FSAL_ALREADY_INIT \<Rightarrow> STATE_FSAL_ERROR
        | ERR_FSAL_BAD_INIT \<Rightarrow> STATE_FSAL_ERROR | ERR_FSAL_SEC \<Rightarrow> STATE_FSAL_ERR_SEC
        | ERR_FSAL_NO_QUOTA \<Rightarrow> STATE_FSAL_ERROR
        | ERR_FSAL_NOT_OPENED \<Rightarrow> STATE_FSAL_ERROR
        | ERR_FSAL_DEADLOCK \<Rightarrow> STATE_LOCK_DEADLOCK
        | ERR_FSAL_OVERFLOW \<Rightarrow> STATE_INVALID_ARGUMENT
        | ERR_FSAL_INTERRUPT \<Rightarrow> STATE_FSAL_ERROR
        | ERR_FSAL_BLOCKED \<Rightarrow> STATE_LOCK_BLOCKED | ERR_FSAL_TIMEOUT \<Rightarrow> STATE_FSAL_ERROR
        | ERR_FSAL_FILE_OPEN \<Rightarrow> STATE_FILE_OPEN
        | ERR_FSAL_UNION_NOTSUPP \<Rightarrow> STATE_NOT_SUPPORTED
        | ERR_FSAL_IN_GRACE \<Rightarrow> STATE_IN_GRACE)"

definition cache_inode_error_convert :: "fsal_status \<Rightarrow> cache_inode_status" where
  "cache_inode_error_convert fsal_status =
     (case major fsal_status of
        ERR_FSAL_NO_ERROR \<Rightarrow> CACHE_INODE_SUCCESS
        | ERR_FSAL_PERM \<Rightarrow> CACHE_INODE_FSAL_EPERM
        | ERR_FSAL_NOENT \<Rightarrow> CACHE_INODE_NOT_FOUND | ERR_FSAL_IO \<Rightarrow> CACHE_INODE_IO_ERROR
        | ERR_FSAL_NXIO \<Rightarrow> CACHE_INODE_IO_ERROR
        | ERR_FSAL_NOMEM \<Rightarrow> CACHE_INODE_MALLOC_ERROR
        | ERR_FSAL_ACCESS \<Rightarrow> CACHE_INODE_FSAL_EACCESS
        | ERR_FSAL_FAULT \<Rightarrow> CACHE_INODE_SERVERFAULT
        | ERR_FSAL_EXIST \<Rightarrow> CACHE_INODE_ENTRY_EXISTS
        | ERR_FSAL_XDEV \<Rightarrow> CACHE_INODE_FSAL_XDEV
        | ERR_FSAL_NOTDIR \<Rightarrow> CACHE_INODE_NOT_A_DIRECTORY
        | ERR_FSAL_ISDIR \<Rightarrow> CACHE_INODE_IS_A_DIRECTORY
        | ERR_FSAL_INVAL \<Rightarrow> CACHE_INODE_INVALID_ARGUMENT
        | ERR_FSAL_FBIG \<Rightarrow> CACHE_INODE_FILE_BIG
        | ERR_FSAL_NOSPC \<Rightarrow> CACHE_INODE_NO_SPACE_LEFT
        | ERR_FSAL_ROFS \<Rightarrow> CACHE_INODE_READ_ONLY_FS
        | ERR_FSAL_MLINK \<Rightarrow> CACHE_INODE_FSAL_MLINK
        | ERR_FSAL_DQUOT \<Rightarrow> CACHE_INODE_QUOTA_EXCEEDED
        | ERR_FSAL_NAMETOOLONG \<Rightarrow> CACHE_INODE_NAME_TOO_LONG
        | ERR_FSAL_NOTEMPTY \<Rightarrow> CACHE_INODE_DIR_NOT_EMPTY
        | ERR_FSAL_STALE \<Rightarrow> CACHE_INODE_FSAL_ESTALE
        | ERR_FSAL_BADHANDLE \<Rightarrow> CACHE_INODE_BADHANDLE
        | ERR_FSAL_BADCOOKIE \<Rightarrow> CACHE_INODE_BAD_COOKIE
        | ERR_FSAL_NOTSUPP \<Rightarrow> CACHE_INODE_NOT_SUPPORTED
        | ERR_FSAL_TOOSMALL \<Rightarrow> CACHE_INODE_TOOSMALL
        | ERR_FSAL_SERVERFAULT \<Rightarrow> CACHE_INODE_SERVERFAULT
        | ERR_FSAL_BADTYPE \<Rightarrow> CACHE_INODE_BAD_TYPE | ERR_FSAL_DELAY \<Rightarrow> CACHE_INODE_DELAY
        | ERR_FSAL_FHEXPIRED \<Rightarrow> CACHE_INODE_FSAL_ESTALE
        | ERR_FSAL_SHARE_DENIED \<Rightarrow> CACHE_INODE_FSAL_SHARE_DENIED
        | ERR_FSAL_SYMLINK \<Rightarrow> CACHE_INODE_BAD_TYPE
        | ERR_FSAL_ATTRNOTSUPP \<Rightarrow> CACHE_INODE_NOT_SUPPORTED
        | ERR_FSAL_NOT_INIT \<Rightarrow> CACHE_INODE_FSAL_ERROR
        | ERR_FSAL_ALREADY_INIT \<Rightarrow> CACHE_INODE_FSAL_ERROR
        | ERR_FSAL_BAD_INIT \<Rightarrow> CACHE_INODE_FSAL_ERROR
        | ERR_FSAL_SEC \<Rightarrow> CACHE_INODE_FSAL_ERR_SEC
        | ERR_FSAL_NO_QUOTA \<Rightarrow> CACHE_INODE_QUOTA_EXCEEDED
        | ERR_FSAL_NOT_OPENED \<Rightarrow> CACHE_INODE_FSAL_ERROR
        | ERR_FSAL_DEADLOCK \<Rightarrow> CACHE_INODE_SERVERFAULT
        | ERR_FSAL_OVERFLOW \<Rightarrow> CACHE_INODE_INVALID_ARGUMENT
        | ERR_FSAL_INTERRUPT \<Rightarrow> CACHE_INODE_FSAL_ERROR
        | ERR_FSAL_BLOCKED \<Rightarrow> CACHE_INODE_FSAL_ERROR
        | ERR_FSAL_TIMEOUT \<Rightarrow> CACHE_INODE_FSAL_ERROR
        | ERR_FSAL_FILE_OPEN \<Rightarrow> CACHE_INODE_FILE_OPEN
        | ERR_FSAL_UNION_NOTSUPP \<Rightarrow> CACHE_INODE_UNION_NOTSUPP
        | ERR_FSAL_IN_GRACE \<Rightarrow> CACHE_INODE_IN_GRACE)"

definition nfs4_Errno_state :: "state_status \<Rightarrow> nfsstat4" where
  "nfs4_Errno_state error =
     (case error of
        STATE_SUCCESS \<Rightarrow> NFS4_OK | STATE_MALLOC_ERROR \<Rightarrow> NFS4ERR_RESOURCE
        | STATE_POOL_MUTEX_INIT_ERROR \<Rightarrow> NFS4ERR_SERVERFAULT
        | STATE_GET_NEW_LRU_ENTRY \<Rightarrow> NFS4ERR_SERVERFAULT
        | STATE_INIT_ENTRY_FAILED \<Rightarrow> NFS4ERR_SERVERFAULT
        | STATE_FSAL_ERROR \<Rightarrow> NFS4ERR_IO | STATE_LRU_ERROR \<Rightarrow> NFS4ERR_IO
        | STATE_HASH_SET_ERROR \<Rightarrow> NFS4ERR_IO | STATE_NOT_A_DIRECTORY \<Rightarrow> NFS4ERR_NOTDIR
        | STATE_INCONSISTENT_ENTRY \<Rightarrow> NFS4ERR_INVAL | STATE_BAD_TYPE \<Rightarrow> NFS4ERR_INVAL
        | STATE_ENTRY_EXISTS \<Rightarrow> NFS4ERR_EXIST | STATE_DIR_NOT_EMPTY \<Rightarrow> NFS4ERR_NOTEMPTY
        | STATE_NOT_FOUND \<Rightarrow> NFS4ERR_NOENT | STATE_INVALID_ARGUMENT \<Rightarrow> NFS4ERR_INVAL
        | STATE_INSERT_ERROR \<Rightarrow> NFS4ERR_IO | STATE_HASH_TABLE_ERROR \<Rightarrow> NFS4ERR_INVAL
        | STATE_FSAL_EACCESS \<Rightarrow> NFS4ERR_ACCESS | STATE_IS_A_DIRECTORY \<Rightarrow> NFS4ERR_ISDIR
        | STATE_FSAL_EPERM \<Rightarrow> NFS4ERR_PERM | STATE_NO_SPACE_LEFT \<Rightarrow> NFS4ERR_NOSPC
        | STATE_READ_ONLY_FS \<Rightarrow> NFS4ERR_ROFS | STATE_IO_ERROR \<Rightarrow> NFS4ERR_IO
        | STATE_FSAL_ESTALE \<Rightarrow> NFS4ERR_STALE | STATE_FSAL_ERR_SEC \<Rightarrow> NFS4ERR_PERM
        | STATE_STATE_CONFLICT \<Rightarrow> NFS4ERR_SHARE_DENIED
        | STATE_QUOTA_EXCEEDED \<Rightarrow> NFS4ERR_DQUOT | STATE_DEAD_ENTRY \<Rightarrow> NFS4ERR_STALE
        | STATE_ASYNC_POST_ERROR \<Rightarrow> NFS4ERR_INVAL
        | STATE_NOT_SUPPORTED \<Rightarrow> NFS4ERR_NOTSUPP
        | STATE_STATE_ERROR \<Rightarrow> NFS4ERR_BAD_STATEID | STATE_FSAL_DELAY \<Rightarrow> NFS4ERR_DELAY
        | STATE_NAME_TOO_LONG \<Rightarrow> NFS4ERR_NAMETOOLONG
        | STATE_LOCK_CONFLICT \<Rightarrow> NFS4ERR_DENIED | STATE_LOCK_BLOCKED \<Rightarrow> NFS4ERR_DENIED
        | STATE_LOCK_DEADLOCK \<Rightarrow> NFS4ERR_DEADLOCK
        | STATE_BAD_COOKIE \<Rightarrow> NFS4ERR_BAD_COOKIE | STATE_FILE_BIG \<Rightarrow> NFS4ERR_FBIG
        | STATE_GRACE_PERIOD \<Rightarrow> NFS4ERR_GRACE | STATE_CACHE_INODE_ERR \<Rightarrow> NFS4ERR_INVAL
        | STATE_SIGNAL_ERROR \<Rightarrow> NFS4ERR_INVAL | STATE_KILLED \<Rightarrow> NFS4ERR_STALE
        | STATE_FILE_OPEN \<Rightarrow> NFS4ERR_FILE_OPEN | STATE_MLINK \<Rightarrow> NFS4ERR_MLINK
        | STATE_SERVERFAULT \<Rightarrow> NFS4ERR_SERVERFAULT | STATE_TOOSMALL \<Rightarrow> NFS4ERR_TOOSMALL
        | STATE_XDEV \<Rightarrow> NFS4ERR_XDEV | STATE_FSAL_SHARE_DENIED \<Rightarrow> NFS4ERR_SHARE_DENIED
        | STATE_IN_GRACE \<Rightarrow> NFS4ERR_GRACE | STATE_BADHANDLE \<Rightarrow> NFS4ERR_BADHANDLE)"

definition nfs3_Errno_state :: "state_status \<Rightarrow> nfsstat3" where
  "nfs3_Errno_state error =
     (case error of
        STATE_SUCCESS \<Rightarrow> NFS3_OK | STATE_MALLOC_ERROR \<Rightarrow> NFS3ERR_IO
        | STATE_POOL_MUTEX_INIT_ERROR \<Rightarrow> NFS3ERR_IO
        | STATE_GET_NEW_LRU_ENTRY \<Rightarrow> NFS3ERR_IO | STATE_INIT_ENTRY_FAILED \<Rightarrow> NFS3ERR_IO
        | STATE_FSAL_ERROR \<Rightarrow> NFS3ERR_IO | STATE_LRU_ERROR \<Rightarrow> NFS3ERR_IO
        | STATE_HASH_SET_ERROR \<Rightarrow> NFS3ERR_IO | STATE_NOT_A_DIRECTORY \<Rightarrow> NFS3ERR_NOTDIR
        | STATE_INCONSISTENT_ENTRY \<Rightarrow> NFS3ERR_INVAL | STATE_BAD_TYPE \<Rightarrow> NFS3ERR_BADTYPE
        | STATE_ENTRY_EXISTS \<Rightarrow> NFS3ERR_EXIST | STATE_DIR_NOT_EMPTY \<Rightarrow> NFS3ERR_NOTEMPTY
        | STATE_NOT_FOUND \<Rightarrow> NFS3ERR_NOENT | STATE_INVALID_ARGUMENT \<Rightarrow> NFS3ERR_INVAL
        | STATE_INSERT_ERROR \<Rightarrow> NFS3ERR_IO | STATE_HASH_TABLE_ERROR \<Rightarrow> NFS3ERR_INVAL
        | STATE_FSAL_EACCESS \<Rightarrow> NFS3ERR_ACCES | STATE_IS_A_DIRECTORY \<Rightarrow> NFS3ERR_ISDIR
        | STATE_FSAL_EPERM \<Rightarrow> NFS3ERR_PERM | STATE_NO_SPACE_LEFT \<Rightarrow> NFS3ERR_NOSPC
        | STATE_READ_ONLY_FS \<Rightarrow> NFS3ERR_ROFS | STATE_IO_ERROR \<Rightarrow> NFS3ERR_IO
        | STATE_FSAL_ESTALE \<Rightarrow> NFS3ERR_STALE | STATE_FSAL_ERR_SEC \<Rightarrow> NFS3ERR_PERM
        | STATE_STATE_CONFLICT \<Rightarrow> NFS3ERR_INVAL | STATE_QUOTA_EXCEEDED \<Rightarrow> NFS3ERR_DQUOT
        | STATE_DEAD_ENTRY \<Rightarrow> NFS3ERR_STALE | STATE_ASYNC_POST_ERROR \<Rightarrow> NFS3ERR_INVAL
        | STATE_NOT_SUPPORTED \<Rightarrow> NFS3ERR_NOTSUPP | STATE_STATE_ERROR \<Rightarrow> NFS3ERR_INVAL
        | STATE_FSAL_DELAY \<Rightarrow> NFS3ERR_JUKEBOX
        | STATE_NAME_TOO_LONG \<Rightarrow> NFS3ERR_NAMETOOLONG
        | STATE_LOCK_CONFLICT \<Rightarrow> NFS3ERR_INVAL | STATE_LOCK_BLOCKED \<Rightarrow> NFS3ERR_INVAL
        | STATE_LOCK_DEADLOCK \<Rightarrow> NFS3ERR_INVAL | STATE_BAD_COOKIE \<Rightarrow> NFS3ERR_BAD_COOKIE
        | STATE_FILE_BIG \<Rightarrow> NFS3ERR_FBIG | STATE_GRACE_PERIOD \<Rightarrow> NFS3ERR_INVAL
        | STATE_CACHE_INODE_ERR \<Rightarrow> NFS3ERR_INVAL | STATE_SIGNAL_ERROR \<Rightarrow> NFS3ERR_INVAL
        | STATE_KILLED \<Rightarrow> NFS3ERR_STALE | STATE_FILE_OPEN \<Rightarrow> NFS3ERR_IO
        | STATE_MLINK \<Rightarrow> NFS3ERR_MLINK | STATE_SERVERFAULT \<Rightarrow> NFS3ERR_SERVERFAULT
        | STATE_TOOSMALL \<Rightarrow> NFS3ERR_TOOSMALL | STATE_XDEV \<Rightarrow> NFS3ERR_XDEV
        | STATE_FSAL_SHARE_DENIED \<Rightarrow> NFS3ERR_JUKEBOX | STATE_IN_GRACE \<Rightarrow> NFS3ERR_JUKEBOX
        | STATE_BADHANDLE \<Rightarrow> NFS3ERR_BADHANDLE)"

definition nfs4_Errno_verbose :: "cache_inode_status \<Rightarrow> nfsstat4" where
  "nfs4_Errno_verbose error =
     (case error of
        CACHE_INODE_SUCCESS \<Rightarrow> NFS4_OK | CACHE_INODE_MALLOC_ERROR \<Rightarrow> NFS4ERR_SERVERFAULT
        | CACHE_INODE_POOL_MUTEX_INIT_ERROR \<Rightarrow> NFS4ERR_SERVERFAULT
        | CACHE_INODE_GET_NEW_LRU_ENTRY \<Rightarrow> NFS4ERR_SERVERFAULT
        | CACHE_INODE_INIT_ENTRY_FAILED \<Rightarrow> NFS4ERR_SERVERFAULT
        | CACHE_INODE_FSAL_ERROR \<Rightarrow> NFS4ERR_IO | CACHE_INODE_LRU_ERROR \<Rightarrow> NFS4ERR_IO
        | CACHE_INODE_HASH_SET_ERROR \<Rightarrow> NFS4ERR_IO
        | CACHE_INODE_NOT_A_DIRECTORY \<Rightarrow> NFS4ERR_NOTDIR
        | CACHE_INODE_INCONSISTENT_ENTRY \<Rightarrow> NFS4ERR_INVAL
        | CACHE_INODE_BAD_TYPE \<Rightarrow> NFS4ERR_INVAL
        | CACHE_INODE_ENTRY_EXISTS \<Rightarrow> NFS4ERR_EXIST
        | CACHE_INODE_DIR_NOT_EMPTY \<Rightarrow> NFS4ERR_NOTEMPTY
        | CACHE_INODE_NOT_FOUND \<Rightarrow> NFS4ERR_NOENT
        | CACHE_INODE_INVALID_ARGUMENT \<Rightarrow> NFS4ERR_INVAL
        | CACHE_INODE_INSERT_ERROR \<Rightarrow> NFS4ERR_IO
        | CACHE_INODE_HASH_TABLE_ERROR \<Rightarrow> NFS4ERR_INVAL
        | CACHE_INODE_FSAL_EACCESS \<Rightarrow> NFS4ERR_ACCESS
        | CACHE_INODE_IS_A_DIRECTORY \<Rightarrow> NFS4ERR_ISDIR
        | CACHE_INODE_FSAL_EPERM \<Rightarrow> NFS4ERR_PERM
        | CACHE_INODE_NO_SPACE_LEFT \<Rightarrow> NFS4ERR_NOSPC
        | CACHE_INODE_READ_ONLY_FS \<Rightarrow> NFS4ERR_ROFS | CACHE_INODE_IO_ERROR \<Rightarrow> NFS4ERR_IO
        | CACHE_INODE_FSAL_ESTALE \<Rightarrow> NFS4ERR_STALE
        | CACHE_INODE_FSAL_ERR_SEC \<Rightarrow> NFS4ERR_PERM
        | CACHE_INODE_STATE_CONFLICT \<Rightarrow> NFS4ERR_PERM
        | CACHE_INODE_QUOTA_EXCEEDED \<Rightarrow> NFS4ERR_DQUOT
        | CACHE_INODE_DEAD_ENTRY \<Rightarrow> NFS4ERR_STALE
        | CACHE_INODE_ASYNC_POST_ERROR \<Rightarrow> NFS4ERR_INVAL
        | CACHE_INODE_NOT_SUPPORTED \<Rightarrow> NFS4ERR_NOTSUPP
        | CACHE_INODE_STATE_ERROR \<Rightarrow> NFS4ERR_BAD_STATEID
        | CACHE_INODE_DELAY \<Rightarrow> NFS4ERR_DELAY
        | CACHE_INODE_NAME_TOO_LONG \<Rightarrow> NFS4ERR_NAMETOOLONG
        | CACHE_INODE_BAD_COOKIE \<Rightarrow> NFS4ERR_BAD_COOKIE
        | CACHE_INODE_FILE_BIG \<Rightarrow> NFS4ERR_FBIG | CACHE_INODE_KILLED \<Rightarrow> NFS4ERR_STALE
        | CACHE_INODE_FILE_OPEN \<Rightarrow> NFS4ERR_FILE_OPEN
        | CACHE_INODE_FSAL_XDEV \<Rightarrow> NFS4ERR_XDEV
        | CACHE_INODE_FSAL_MLINK \<Rightarrow> NFS4ERR_MLINK
        | CACHE_INODE_SERVERFAULT \<Rightarrow> NFS4ERR_SERVERFAULT
        | CACHE_INODE_TOOSMALL \<Rightarrow> NFS4ERR_TOOSMALL
        | CACHE_INODE_FSAL_SHARE_DENIED \<Rightarrow> NFS4ERR_SHARE_DENIED
        | CACHE_INODE_BADNAME \<Rightarrow> NFS4ERR_BADNAME
        | CACHE_INODE_UNION_NOTSUPP \<Rightarrow> NFS4ERR_UNION_NOTSUPP
        | CACHE_INODE_CROSS_JUNCTION \<Rightarrow> NFS4ERR_INVAL
        | CACHE_INODE_IN_GRACE \<Rightarrow> NFS4ERR_GRACE
        | CACHE_INODE_BADHANDLE \<Rightarrow> NFS4ERR_BADHANDLE)"

definition nfs3_Errno_verbose :: "cache_inode_status \<Rightarrow> nfsstat3" where
  "nfs3_Errno_verbose error =
     (case error of
        CACHE_INODE_SUCCESS \<Rightarrow> NFS3_OK | CACHE_INODE_MALLOC_ERROR \<Rightarrow> NFS3ERR_IO
        | CACHE_INODE_POOL_MUTEX_INIT_ERROR \<Rightarrow> NFS3ERR_IO
        | CACHE_INODE_GET_NEW_LRU_ENTRY \<Rightarrow> NFS3ERR_IO
        | CACHE_INODE_INIT_ENTRY_FAILED \<Rightarrow> NFS3ERR_IO
        | CACHE_INODE_FSAL_ERROR \<Rightarrow> NFS3ERR_IO | CACHE_INODE_LRU_ERROR \<Rightarrow> NFS3ERR_IO
        | CACHE_INODE_HASH_SET_ERROR \<Rightarrow> NFS3ERR_IO
        | CACHE_INODE_NOT_A_DIRECTORY \<Rightarrow> NFS3ERR_NOTDIR
        | CACHE_INODE_INCONSISTENT_ENTRY \<Rightarrow> NFS3ERR_INVAL
        | CACHE_INODE_BAD_TYPE \<Rightarrow> NFS3ERR_BADTYPE
        | CACHE_INODE_ENTRY_EXISTS \<Rightarrow> NFS3ERR_EXIST
        | CACHE_INODE_DIR_NOT_EMPTY \<Rightarrow> NFS3ERR_NOTEMPTY
        | CACHE_INODE_NOT_FOUND \<Rightarrow> NFS3ERR_NOENT
        | CACHE_INODE_INVALID_ARGUMENT \<Rightarrow> NFS3ERR_INVAL
        | CACHE_INODE_INSERT_ERROR \<Rightarrow> NFS3ERR_IO
        | CACHE_INODE_HASH_TABLE_ERROR \<Rightarrow> NFS3ERR_INVAL
        | CACHE_INODE_FSAL_EACCESS \<Rightarrow> NFS3ERR_ACCES
        | CACHE_INODE_IS_A_DIRECTORY \<Rightarrow> NFS3ERR_ISDIR
        | CACHE_INODE_FSAL_EPERM \<Rightarrow> NFS3ERR_PERM
        | CACHE_INODE_NO_SPACE_LEFT \<Rightarrow> NFS3ERR_NOSPC
        | CACHE_INODE_READ_ONLY_FS \<Rightarrow> NFS3ERR_ROFS | CACHE_INODE_IO_ERROR \<Rightarrow> NFS3ERR_IO
        | CACHE_INODE_FSAL_ESTALE \<Rightarrow> NFS3ERR_STALE
        | CACHE_INODE_FSAL_ERR_SEC \<Rightarrow> NFS3ERR_PERM
        | CACHE_INODE_STATE_CONFLICT \<Rightarrow> NFS3ERR_INVAL
        | CACHE_INODE_QUOTA_EXCEEDED \<Rightarrow> NFS3ERR_DQUOT
        | CACHE_INODE_DEAD_ENTRY \<Rightarrow> NFS3ERR_STALE
        | CACHE_INODE_ASYNC_POST_ERROR \<Rightarrow> NFS3ERR_INVAL
        | CACHE_INODE_NOT_SUPPORTED \<Rightarrow> NFS3ERR_NOTSUPP
        | CACHE_INODE_STATE_ERROR \<Rightarrow> NFS3ERR_INVAL
        | CACHE_INODE_DELAY \<Rightarrow> NFS3ERR_JUKEBOX
        | CACHE_INODE_NAME_TOO_LONG \<Rightarrow> NFS3ERR_NAMETOOLONG
        | CACHE_INODE_BAD_COOKIE \<Rightarrow> NFS3ERR_BAD_COOKIE
        | CACHE_INODE_FILE_BIG \<Rightarrow> NFS3ERR_FBIG | CACHE_INODE_KILLED \<Rightarrow> NFS3ERR_STALE
        | CACHE_INODE_FILE_OPEN \<Rightarrow> NFS3ERR_IO | CACHE_INODE_FSAL_XDEV \<Rightarrow> NFS3ERR_XDEV
        | CACHE_INODE_FSAL_MLINK \<Rightarrow> NFS3ERR_MLINK
        | CACHE_INODE_SERVERFAULT \<Rightarrow> NFS3ERR_SERVERFAULT
        | CACHE_INODE_TOOSMALL \<Rightarrow> NFS3ERR_TOOSMALL
        | CACHE_INODE_FSAL_SHARE_DENIED \<Rightarrow> NFS3ERR_JUKEBOX
        | CACHE_INODE_BADNAME \<Rightarrow> NFS3ERR_INVAL
        | CACHE_INODE_UNION_NOTSUPP \<Rightarrow> NFS3ERR_NOTSUPP
        | CACHE_INODE_CROSS_JUNCTION \<Rightarrow> NFS3ERR_INVAL
        | CACHE_INODE_IN_GRACE \<Rightarrow> NFS3ERR_JUKEBOX
        | CACHE_INODE_BADHANDLE \<Rightarrow> NFS3ERR_BADHANDLE)"

definition state_unlock_err_ok :: "state_status \<Rightarrow> bool" where
  "state_unlock_err_ok status \<longleftrightarrow> status = STATE_SUCCESS \<or> status = STATE_FSAL_ESTALE \<or> status = STATE_DEAD_ENTRY"

text \<open>The client's side: what an NFSv4 status of the server becomes.\<close>

definition nfsstat4_to_fsal :: "nfsstat4 \<Rightarrow> fsal_status" where
  "nfsstat4_to_fsal nfsstatus =
     (if nfsstatus \<in> {NFS4ERR_SAME, NFS4ERR_NOT_SAME, NFS4_OK} then fsalstat ERR_FSAL_NO_ERROR nfsstatus
      else if nfsstatus \<in> {NFS4ERR_PERM} then fsalstat ERR_FSAL_PERM nfsstatus
      else if nfsstatus \<in> {NFS4ERR_NOENT} then fsalstat ERR_FSAL_NOENT nfsstatus
      else if nfsstatus \<in> {NFS4ERR_IO} then fsalstat ERR_FSAL_IO nfsstatus
      else if nfsstatus \<in> {NFS4ERR_NXIO} then fsalstat ERR_FSAL_NXIO nfsstatus
      else if nfsstatus \<in> {NFS4ERR_EXPIRED, NFS4ERR_LOCKED, NFS4ERR_SHARE_DENIED, NFS4ERR_LOCK_RANGE, NFS4ERR_OPENMODE, NFS4ERR_FILE_OPEN, NFS4ERR_ACCESS, NFS4ERR_DENIED} then fsalstat ERR_FSAL_ACCESS nfsstatus
      else if nfsstatus \<in> {NFS4ERR_EXIST} then fsalstat ERR_FSAL_EXIST nfsstatus
      else if nfsstatus \<in> {NFS4ERR_XDEV} then fsalstat ERR_FSAL_XDEV nfsstatus
      else if nfsstatus \<in> {NFS4ERR_NOTDIR} then fsalstat ERR_FSAL_NOTDIR nfsstatus
      else if nfsstatus \<in> {NFS4ERR_ISDIR} then fsalstat ERR_FSAL_ISDIR nfsstatus
      else if nfsstatus \<in> {NFS4ERR_FBIG} then fsalstat ERR_FSAL_FBIG 0
      else if nfsstatus \<in> {NFS4ERR_NOSPC} then fsalstat ERR_FSAL_NOSPC nfsstatus
      else if nfsstatus \<in> {NFS4ERR_ROFS} then fsalstat ERR_FSAL_ROFS nfsstatus
      else if nfsstatus \<in> {NFS4ERR_MLINK} then fsalstat ERR_FSAL_MLINK nfsstatus
      else if nfsstatus \<in> {NFS4ERR_NAMETOOLONG} then fsalstat ERR_FSAL_NAMETOOLONG nfsstatus
      else if nfsstatus \<in> {NFS4ERR_NOTEMPTY} then fsalstat ERR_FSAL_NOTEMPTY nfsstatus
      else if nfsstatus \<in> {NFS4ERR_DQUOT} then fsalstat ERR_FSAL_DQUOT nfsstatus
      else if nfsstatus \<in> {NFS4ERR_STALE} then fsalstat ERR_FSAL_STALE nfsstatus
      else if nfsstatus \<in> {NFS4ERR_NOFILEHANDLE, NFS4ERR_BADHANDLE} then fsalstat ERR_FSAL_BADHANDLE nfsstatus
      else if nfsstatus \<in> {NFS4ERR_BAD_COOKIE} then fsalstat ERR_FSAL_BADCOOKIE nfsstatus
      else if nfsstatus \<in> {NFS4ERR_NOTSUPP} then fsalstat ERR_FSAL_NOTSUPP nfsstatus
      else if nfsstatus \<in> {NFS4ERR_TOOSMALL} then fsalstat ERR_FSAL_TOOSMALL nfsstatus
      else if nfsstatus \<in> {NFS4ERR_SERVERFAULT} then fsalstat ERR_FSAL_SERVERFAULT nfsstatus
      else if nfsstatus \<in> {NFS4ERR_BADTYPE} then fsalstat ERR_FSAL_BADTYPE nfsstatus
      else if nfsstatus \<in> {NFS4ERR_GRACE, NFS4ERR_DELAY} then fsalstat ERR_FSAL_DELAY nfsstatus
      else if nfsstatus \<in> {NFS4ERR_FHEXPIRED} then fsalstat ERR_FSAL_FHEXPIRED nfsstatus
      else if nfsstatus \<in> {NFS4ERR_WRONGSEC} then fsalstat ERR_FSAL_SEC nfsstatus
      else if nfsstatus \<in> {NFS4ERR_SYMLINK} then fsalstat ERR_FSAL_SYMLINK nfsstatus
      else if nfsstatus \<in> {NFS4ERR_ATTRNOTSUPP} then fsalstat ERR_FSAL_ATTRNOTSUPP nfsstatus
      else fsalstat ERR_FSAL_INVAL nfsstatus)"

abbreviation (input) ENAMETOOLONG :: int where "ENAMETOOLONG \<equiv> 36"
abbreviation (input) ENOTEMPTY :: int where "ENOTEMPTY \<equiv> 39"
abbreviation (input) ESTALE :: int where "ESTALE \<equiv> 116"
abbreviation (input) EREMOTEIO :: int where "EREMOTEIO \<equiv> 121"
abbreviation (input) EDQUOT :: int where "EDQUOT \<equiv> 122"

text \<open>\<open>None\<close> where the assertion fails.\<close>

definition nfsstat4_to_errno :: "nfsstat4 \<Rightarrow> int option" where
  "nfsstat4_to_errno nfsstat =
     (if nfsstat \<le> NFS4ERR_MLINK then Some nfsstat
      else if nfsstat = NFS4ERR_NAMETOOLONG then Some ENAMETOOLONG
      else if nfsstat = NFS4ERR_NOTEMPTY then Some ENOTEMPTY
      else if nfsstat = NFS4ERR_DQUOT then Some EDQUOT
      else if nfsstat = NFS4ERR_STALE then Some ESTALE
      else if nfsstat \<ge> NFS4ERR_BADHANDLE then Some EREMOTEIO
      else None)"

section \<open>Properties\<close>

lemmas from_cache_defs = cache_inode_status_to_state_status_def nfs4_Errno_verbose_def nfs3_Errno_verbose_def

lemma from_cache_ok:
  "cache_inode_status_to_state_status c = STATE_SUCCESS \<longleftrightarrow> c = CACHE_INODE_SUCCESS"
  "nfs4_Errno_verbose c = NFS4_OK \<longleftrightarrow> c = CACHE_INODE_SUCCESS"
  "nfs3_Errno_verbose c = NFS3_OK \<longleftrightarrow> c = CACHE_INODE_SUCCESS"
proof -
  show "cache_inode_status_to_state_status c = STATE_SUCCESS \<longleftrightarrow> c = CACHE_INODE_SUCCESS" by (cases c) (simp_all add: from_cache_defs)
  show "nfs4_Errno_verbose c = NFS4_OK \<longleftrightarrow> c = CACHE_INODE_SUCCESS" by (cases c) (simp_all add: from_cache_defs)
  show "nfs3_Errno_verbose c = NFS3_OK \<longleftrightarrow> c = CACHE_INODE_SUCCESS" by (cases c) (simp_all add: from_cache_defs)
qed

lemma from_state_ok:
  "nfs4_Errno_state s = NFS4_OK \<longleftrightarrow> s = STATE_SUCCESS"
  "nfs3_Errno_state s = NFS3_OK \<longleftrightarrow> s = STATE_SUCCESS"
proof -
  show "nfs4_Errno_state s = NFS4_OK \<longleftrightarrow> s = STATE_SUCCESS" by (cases s) (simp_all add: nfs4_Errno_state_def)
  show "nfs3_Errno_state s = NFS3_OK \<longleftrightarrow> s = STATE_SUCCESS" by (cases s) (simp_all add: nfs3_Errno_state_def)
qed

lemma from_fsal_ok:
  "state_error_convert f = STATE_SUCCESS \<longleftrightarrow> major f = ERR_FSAL_NO_ERROR"
  "cache_inode_error_convert f = CACHE_INODE_SUCCESS \<longleftrightarrow> major f = ERR_FSAL_NO_ERROR"
proof -
  show "state_error_convert f = STATE_SUCCESS \<longleftrightarrow> major f = ERR_FSAL_NO_ERROR"
    by (cases "major f") (simp_all add: state_error_convert_def)
  show "cache_inode_error_convert f = CACHE_INODE_SUCCESS \<longleftrightarrow> major f = ERR_FSAL_NO_ERROR"
    by (cases "major f") (simp_all add: cache_inode_error_convert_def)
qed

lemma nfsstat4_to_fsal_ok:
  "major (nfsstat4_to_fsal n) = ERR_FSAL_NO_ERROR \<longleftrightarrow> n \<in> {NFS4_OK, NFS4ERR_SAME, NFS4ERR_NOT_SAME}"
  by (simp add: nfsstat4_to_fsal_def fsalstat_def)

text \<open>
  C21: which status codes are success.  On the way from the file system to the reply, both the state layer and the inode cache
  tell an NFSv4 or NFSv3 client OK exactly if the file system reported no error.  On the client's side a status becomes the
  error number 0 exactly if it is OK; the conversion of a status into a file system error, however, makes no error out of the
  outcomes SAME and NOT_SAME of a comparison as well as of OK.
\<close>

theorem status_ok_exactly:
  "(nfs4_Errno_state (state_error_convert f) = NFS4_OK \<longleftrightarrow> major f = ERR_FSAL_NO_ERROR) \<and>
   (nfs3_Errno_state (state_error_convert f) = NFS3_OK \<longleftrightarrow> major f = ERR_FSAL_NO_ERROR) \<and>
   (nfs4_Errno_verbose (cache_inode_error_convert f) = NFS4_OK \<longleftrightarrow> major f = ERR_FSAL_NO_ERROR) \<and>
   (nfs3_Errno_verbose (cache_inode_error_convert f) = NFS3_OK \<longleftrightarrow> major f = ERR_FSAL_NO_ERROR) \<and>
   (nfs4_Errno_state (cache_inode_status_to_state_status c) = NFS4_OK \<longleftrightarrow> c = CACHE_INODE_SUCCESS) \<and>
   (nfsstat4_to_errno n = Some 0 \<longleftrightarrow> n = NFS4_OK) \<and>
   (major (nfsstat4_to_fsal n) = ERR_FSAL_NO_ERROR \<longleftrightarrow> n \<in> {NFS4_OK, NFS4ERR_SAME, NFS4ERR_NOT_SAME})"
  using from_state_ok from_fsal_ok from_cache_ok nfsstat4_to_fsal_ok by (simp add: nfsstat4_to_errno_def)

text \<open>
  C31: an inode cache error becomes the same NFSv4 status whether it is converted directly or through the
  state layer, except for a failed allocation, a state conflict, a bad name and an unsupported union
  mount; for NFSv3 there is no exception.
\<close>

theorem nfs_status_routes_agree:
  "(nfs4_Errno_state (cache_inode_status_to_state_status c) = nfs4_Errno_verbose c \<longleftrightarrow>
      c \<notin> {CACHE_INODE_MALLOC_ERROR, CACHE_INODE_STATE_CONFLICT, CACHE_INODE_BADNAME, CACHE_INODE_UNION_NOTSUPP}) \<and>
   nfs3_Errno_state (cache_inode_status_to_state_status c) = nfs3_Errno_verbose c"
  by (cases c) (simp_all add: from_cache_defs nfs4_Errno_state_def nfs3_Errno_state_def)

text \<open>
  of all NFSv4 status codes, exactly these twenty-four are passed on unchanged when a status received
  from a server is turned into a file system error and back into a status through the inode cache.
\<close>

theorem nfsstat4_passed_on:
  "filter (\<lambda>n. nfs4_Errno_verbose (cache_inode_error_convert (nfsstat4_to_fsal n)) = n) (map snd nfsstat4_enum) =
     [NFS4_OK, NFS4ERR_PERM, NFS4ERR_NOENT, NFS4ERR_IO, NFS4ERR_ACCESS, NFS4ERR_EXIST, NFS4ERR_XDEV, NFS4ERR_NOTDIR,
      NFS4ERR_ISDIR, NFS4ERR_INVAL, NFS4ERR_FBIG, NFS4ERR_NOSPC, NFS4ERR_ROFS, NFS4ERR_MLINK, NFS4ERR_NAMETOOLONG,
      NFS4ERR_NOTEMPTY, NFS4ERR_DQUOT, NFS4ERR_STALE, NFS4ERR_BADHANDLE, NFS4ERR_BAD_COOKIE, NFS4ERR_NOTSUPP,
      NFS4ERR_TOOSMALL, NFS4ERR_SERVERFAULT, NFS4ERR_DELAY]"
  by code_simp

end
