(* ===== verification/Lock_List.thy ===== *)
theory Lock_List
  imports Prelude Error_Codes "HOL-Library.Multiset"
begin

text \<open>
  The byte-range lock list of a file (\<^verbatim>\<open>SAL/state_lock.c\<close>): owners and when two of them differ,
  lock descriptions with 64-bit ranges in which length 0 means to the end of the file, and the list
  operations: finding a conflict, merging a new lock into the list, subtracting a range.

  An entry carries its address \<open>sle_id\<close>, because the source compares entries by address and changes
  them through the list.  The lists of an owner, a state and an export hold the same entries again
  and are not modelled, nor are reference counts: an entry leaves the model when it leaves the list.
  A copy of an entry does not copy its block data.
  Allocation can fail: \<open>dup_ok\<close> says for a copy to be made whether \<open>malloc\<close> grants it.
\<close>

section \<open>Owners\<close>

datatype state_owner_type =
  STATE_LOCK_OWNER_UNKNOWN | STATE_LOCK_OWNER_NLM | STATE_OPEN_OWNER_NFSV4 | STATE_LOCK_OWNER_NFSV4
| STATE_CLIENTID_OWNER_NFSV4

datatype state_owner =
  Owner (so_addr: nat) (so_type: state_owner_type) (so_clientid: u64) (so_owner_val: "char list")
    (so_related_owner: "state_owner option")

text \<open>\<open>True\<close> where the C function returns a non-zero number, that is, where the owners differ.\<close>

function compare_nfs4_owner :: "state_owner option \<Rightarrow> state_owner option \<Rightarrow> bool" where
  "compare_nfs4_owner o1 o2 =
     (case (o1, o2) of
        (Some a, Some b) \<Rightarrow>
          if a = b then False
          else if so_type a = STATE_LOCK_OWNER_NFSV4 \<and> so_type b = STATE_OPEN_OWNER_NFSV4
          then compare_nfs4_owner (so_related_owner a) (Some b)
          else if so_type b = STATE_LOCK_OWNER_NFSV4 \<and> so_type a = STATE_OPEN_OWNER_NFSV4
          then compare_nfs4_owner (so_related_owner b) (Some a)
          else if so_type a \<noteq> so_type b then True
          else if so_clientid a \<noteq> so_clientid b then True
          else if length (so_owner_val a) \<noteq> length (so_owner_val b) then True
          else so_owner_val a \<noteq> so_owner_val b
      | _ \<Rightarrow> True)"
  by pat_completeness auto
termination
proof (relation "measure (\<lambda>(o1, o2). size_option size o1 + size_option size o2)", goal_cases)
  case (2 o1 o2 x y a b)
  then show ?case by (cases a) auto
next
  case (3 o1 o2 x y a b)
  then show ?case by (cases b) auto
qed simp

declare compare_nfs4_owner.simps [simp del]

definition different_owners :: "state_owner option \<Rightarrow> state_owner option \<Rightarrow> bool" where
  "different_owners owner1 owner2 =
     (case (owner1, owner2) of
        (Some a, Some b) \<Rightarrow>
          if a = b then False
          else if so_type a \<noteq> so_type b then True
          else if so_type a = STATE_LOCK_OWNER_UNKNOWN then True
          else compare_nfs4_owner (Some a) (Some b)
      | _ \<Rightarrow> True)"

section \<open>Locks\<close>

datatype fsal_lock_t = FSAL_LOCK_R | FSAL_LOCK_W | FSAL_NO_LOCK

datatype lock_type_t = POSIX_LOCK | LEASE_LOCK

datatype state_blocking_t =
  STATE_NON_BLOCKING | STATE_NLM_BLOCKING | STATE_NFSV4_BLOCKING | STATE_GRANTING | STATE_CANCELED

record fsal_lock_param =
  lock_sle_type :: lock_type_t
  lock_type :: fsal_lock_t
  lock_start :: u64
  lock_length :: u64
  lock_reclaim :: bool

datatype state_grant_type_t = STATE_GRANT_NONE | STATE_GRANT_INTERNAL | STATE_GRANT_FSAL | STATE_GRANT_FSAL_AVAILABLE

text \<open>What a waiting lock carries: how it is to be granted, and the cookie of a grant on its way.\<close>

record state_block_data =
  sbd_grant_type :: state_grant_type_t
  sbd_blocked_cookie :: "char list option"

record state_lock_entry =
  sle_id :: nat
  sle_export :: nat
  sle_owner :: "state_owner option"
  sle_state :: "nat option"
  sle_blocked :: state_blocking_t
  sle_lock :: fsal_lock_param
  sle_type :: lock_type_t
  sle_block_data :: "state_block_data option"

definition lock_end :: "fsal_lock_param \<Rightarrow> u64" where
  "lock_end lock = (if lock_length lock = 0 then - 1 else lock_start lock + lock_length lock - 1)"

definition str_lockt :: "fsal_lock_t \<Rightarrow> string" where
  "str_lockt ltype = (case ltype of FSAL_LOCK_R \<Rightarrow> ''READ '' | FSAL_LOCK_W \<Rightarrow> ''WRITE'' | FSAL_NO_LOCK \<Rightarrow> ''NO LOCK'')"

definition str_blocking :: "state_blocking_t \<Rightarrow> string" where
  "str_blocking b =
     (case b of STATE_NON_BLOCKING \<Rightarrow> ''NON_BLOCKING  '' | STATE_NLM_BLOCKING \<Rightarrow> ''NLM_BLOCKING  ''
      | STATE_NFSV4_BLOCKING \<Rightarrow> ''NFSV4_BLOCKING'' | STATE_GRANTING \<Rightarrow> ''GRANTING      ''
      | STATE_CANCELED \<Rightarrow> ''CANCELED      '')"

definition str_blocked :: "state_blocking_t \<Rightarrow> string" where
  "str_blocked b =
     (case b of STATE_NON_BLOCKING \<Rightarrow> ''GRANTED       '' | STATE_NLM_BLOCKING \<Rightarrow> ''NLM_BLOCKING  ''
      | STATE_NFSV4_BLOCKING \<Rightarrow> ''NFSV4_BLOCKING'' | STATE_GRANTING \<Rightarrow> ''GRANTING      ''
      | STATE_CANCELED \<Rightarrow> ''CANCELED      '')"

definition different_lock :: "fsal_lock_param \<Rightarrow> fsal_lock_param \<Rightarrow> bool" where
  "different_lock lock1 lock2 \<longleftrightarrow> lock_type lock1 \<noteq> lock_type lock2 \<or> lock_start lock1 \<noteq> lock_start lock2 \<or>
     lock_length lock1 \<noteq> lock_length lock2"

section \<open>Finding a conflict\<close>

definition overlaps :: "fsal_lock_param \<Rightarrow> fsal_lock_param \<Rightarrow> bool" where
  "overlaps found lock \<longleftrightarrow> lock_end found \<ge> lock_start lock \<and> lock_start found \<le> lock_end lock"

fun get_overlapping_entry ::
  "state_lock_entry list \<Rightarrow> state_owner option \<Rightarrow> fsal_lock_param \<Rightarrow> state_lock_entry option" where
  "get_overlapping_entry [] owner lock = None"
| "get_overlapping_entry (found_entry # rest) owner lock =
     (if sle_blocked found_entry = STATE_NFSV4_BLOCKING \<or> sle_blocked found_entry = STATE_CANCELED
      then get_overlapping_entry rest owner lock
      else if overlaps (sle_lock found_entry) lock \<and>
              (lock_type (sle_lock found_entry) = FSAL_LOCK_W \<or> lock_type lock = FSAL_LOCK_W) \<and>
              different_owners (sle_owner found_entry) owner
      then Some found_entry
      else get_overlapping_entry rest owner lock)"

section \<open>Merging\<close>

text \<open>A copy of an entry is a new object: it gets an address that no entry of the list has.\<close>

definition fresh_id :: "state_lock_entry list \<Rightarrow> nat" where
  "fresh_id entries = Suc (foldr max (map sle_id entries) 0)"

definition state_lock_entry_t_dup :: "nat \<Rightarrow> state_lock_entry \<Rightarrow> state_lock_entry" where
  "state_lock_entry_t_dup i orig_entry = orig_entry\<lparr>sle_id := i, sle_block_data := None\<rparr>"

definition set_range :: "state_lock_entry \<Rightarrow> u64 \<Rightarrow> u64 \<Rightarrow> state_lock_entry" where
  "set_range e start len = e\<lparr>sle_lock := (sle_lock e)\<lparr>lock_start := start, lock_length := len\<rparr>\<rparr>"

text \<open>
  The loop of \<open>merge_lock_entry\<close>: \<open>kept\<close> are the entries already passed, \<open>todo\<close> those to visit.  A
  fragment added at the tail of the list is still visited, unless the entry it comes from was the
  last one.  An entry with the address of \<open>le\<close> is the entry being merged itself.
\<close>

definition skip_merge :: "state_lock_entry \<Rightarrow> state_lock_entry \<Rightarrow> bool" where
  "skip_merge check le \<longleftrightarrow> sle_id check = sle_id le \<or> different_owners (sle_owner check) (sle_owner le) \<or>
     sle_blocked check \<noteq> STATE_NON_BLOCKING \<or>
     lock_end (sle_lock check) + 1 < lock_start (sle_lock le) \<or>
     lock_end (sle_lock le) + 1 < lock_start (sle_lock check)"

definition needs_trim :: "state_lock_entry \<Rightarrow> state_lock_entry \<Rightarrow> bool" where
  "needs_trim check le \<longleftrightarrow> lock_type (sle_lock check) \<noteq> lock_type (sle_lock le) \<and>
     (lock_end (sle_lock le) < lock_end (sle_lock check) \<or> lock_start (sle_lock check) < lock_start (sle_lock le))"

definition shrink_right :: "state_lock_entry \<Rightarrow> state_lock_entry \<Rightarrow> state_lock_entry" where
  "shrink_right check le =
     set_range check (lock_end (sle_lock le) + 1) (lock_end (sle_lock check) - lock_end (sle_lock le))"

definition shrink_left :: "state_lock_entry \<Rightarrow> state_lock_entry \<Rightarrow> state_lock_entry" where
  "shrink_left check le =
     set_range check (lock_start (sle_lock check)) (lock_start (sle_lock le) - lock_start (sle_lock check))"

definition expand_over :: "state_lock_entry \<Rightarrow> state_lock_entry \<Rightarrow> state_lock_entry" where
  "expand_over check le =
     (let e = (if lock_end (sle_lock le) < lock_end (sle_lock check) then lock_end (sle_lock check)
               else lock_end (sle_lock le));
          s = (if lock_start (sle_lock check) < lock_start (sle_lock le) then lock_start (sle_lock check)
               else lock_start (sle_lock le))
      in set_range le s (e - s + 1))"

text \<open>
  On a range that wraps around the end of the 64-bit numbers the loop would split its own fragments
  forever, so it runs on fuel; a range that does not wrap needs two rounds per entry at most (lemma
  \<open>merge_lock_entry_total\<close>).
\<close>

fun merge_loop ::
  "nat \<Rightarrow> (state_lock_entry \<Rightarrow> bool) \<Rightarrow> state_lock_entry list \<Rightarrow> state_lock_entry list \<Rightarrow> state_lock_entry \<Rightarrow>
   (state_lock_entry list \<times> state_lock_entry) option" where
  "merge_loop fuel dup_ok kept [] le = Some (kept, le)"
| "merge_loop 0 dup_ok kept (check # todo) le = None"
| "merge_loop (Suc fuel) dup_ok kept (check # todo) le =
     (if skip_merge check le then merge_loop fuel dup_ok (kept @ [check]) todo le
      else if needs_trim check le then
        if lock_end (sle_lock le) < lock_end (sle_lock check) \<and> lock_start (sle_lock check) < lock_start (sle_lock le)
        then
          let right = shrink_right (state_lock_entry_t_dup (fresh_id (le # kept @ check # todo)) check) le
          in if \<not> dup_ok right then merge_loop fuel dup_ok (kept @ [check]) todo le
             else if todo = [] then Some (kept @ [shrink_left check le, right], le)
             else merge_loop fuel dup_ok (kept @ [shrink_left check le]) (todo @ [right]) le
        else if lock_end (sle_lock le) < lock_end (sle_lock check)
        then merge_loop fuel dup_ok (kept @ [shrink_right check le]) todo le
        else merge_loop fuel dup_ok (kept @ [shrink_left check le]) todo le
      else merge_loop fuel dup_ok kept todo (expand_over check le))"

text \<open>The entry may be in the list already; it is changed there too.\<close>

definition merge_lock_entry ::
  "(state_lock_entry \<Rightarrow> bool) \<Rightarrow> state_lock_entry list \<Rightarrow> state_lock_entry \<Rightarrow>
   (state_lock_entry list \<times> state_lock_entry) option" where
  "merge_lock_entry dup_ok lock_list le =
     (case merge_loop (2 * length lock_list) dup_ok [] lock_list le of
        None \<Rightarrow> None
      | Some (kept, le') \<Rightarrow> Some (map (\<lambda>e. if sle_id e = sle_id le then le' else e) kept, le'))"

section \<open>Subtracting\<close>

text \<open>
  The fragments of an entry that remain after the range of \<open>lock\<close> is taken out: \<open>None\<close> if the entry is
  not touched, and an error if a fragment cannot be allocated.
\<close>

definition subtract_lock_from_entry ::
  "(state_lock_entry \<Rightarrow> bool) \<Rightarrow> state_lock_entry list \<Rightarrow> state_lock_entry \<Rightarrow> fsal_lock_param \<Rightarrow>
   (state_status + state_lock_entry list option)" where
  "subtract_lock_from_entry dup_ok others found_entry lock =
     (let found_entry_end = lock_end (sle_lock found_entry); range_end = lock_end lock;
          found_start = lock_start (sle_lock found_entry)
      in if range_end < found_start then Inr None
         else if found_entry_end < lock_start lock then Inr None
         else if lock_start lock \<le> found_start \<and> range_end \<ge> found_entry_end then Inr (Some [])
         else
           let id = fresh_id (found_entry # others);
               left = set_range (state_lock_entry_t_dup id found_entry) found_start (lock_start lock - found_start);
               right = set_range (state_lock_entry_t_dup (Suc id) found_entry) (range_end + 1) (found_entry_end - range_end);
               lefts = (if lock_start lock > found_start then [left] else []);
               rights = (if range_end < found_entry_end then [right] else [])
           in if \<not> list_all dup_ok lefts then Inl STATE_MALLOC_ERROR
              else if \<not> list_all dup_ok rights then Inl STATE_MALLOC_ERROR
              else Inr (Some (lefts @ rights)))"

definition subtract_skips :: "state_owner option \<Rightarrow> nat option \<Rightarrow> state_lock_entry \<Rightarrow> bool" where
  "subtract_skips owner state found_entry \<longleftrightarrow>
     owner \<noteq> None \<and> different_owners (sle_owner found_entry) owner \<or>
     sle_blocked found_entry \<noteq> STATE_NON_BLOCKING \<or>
     state \<noteq> None \<and> sle_state found_entry = state"

text \<open>
  The loop keeps what is left of the list, the fragments and the removed entries; after a failed
  allocation the entries not yet visited stay where they are.
\<close>

fun subtract_loop ::
  "(state_lock_entry \<Rightarrow> bool) \<Rightarrow> state_owner option \<Rightarrow> nat option \<Rightarrow> fsal_lock_param \<Rightarrow> state_lock_entry list \<Rightarrow>
   state_lock_entry list \<Rightarrow> state_lock_entry list \<Rightarrow> state_lock_entry list \<Rightarrow>
   state_status \<times> state_lock_entry list \<times> state_lock_entry list \<times> state_lock_entry list" where
  "subtract_loop dup_ok owner state lock kept split removed [] = (STATE_SUCCESS, kept, split, removed)"
| "subtract_loop dup_ok owner state lock kept split removed (found_entry # rest) =
     (if subtract_skips owner state found_entry
      then subtract_loop dup_ok owner state lock (kept @ [found_entry]) split removed rest
      else case subtract_lock_from_entry dup_ok (kept @ split @ removed @ rest) found_entry lock of
             Inl err \<Rightarrow> (err, kept @ found_entry # rest, [], removed)
           | Inr None \<Rightarrow> subtract_loop dup_ok owner state lock (kept @ [found_entry]) split removed rest
           | Inr (Some frags) \<Rightarrow>
               subtract_loop dup_ok owner state lock kept (split @ frags) (removed @ [found_entry]) rest)"

text \<open>The result is the status, whether an entry was removed, and the new list.\<close>

definition subtract_lock_from_list ::
  "(state_lock_entry \<Rightarrow> bool) \<Rightarrow> state_owner option \<Rightarrow> nat option \<Rightarrow> fsal_lock_param \<Rightarrow> state_lock_entry list \<Rightarrow>
   state_status \<times> bool \<times> state_lock_entry list" where
  "subtract_lock_from_list dup_ok owner state lock entries =
     (case subtract_loop dup_ok owner state lock [] [] [] entries of
        (status, kept, split, removed) \<Rightarrow>
          if status \<noteq> STATE_SUCCESS then (status, removed \<noteq> [], kept @ removed)
          else (status, removed \<noteq> [], kept @ split))"

text \<open>Delegations of an owner are dropped from the list whatever range they cover.\<close>

definition subtract_deleg_from_list ::
  "state_owner option \<Rightarrow> state_lock_entry list \<Rightarrow> bool \<times> state_lock_entry list" where
  "subtract_deleg_from_list owner entries =
     (let drops = (\<lambda>e. \<not> (owner \<noteq> None \<and> different_owners (sle_owner e) owner) \<and> sle_type e = LEASE_LOCK)
      in (list_ex drops entries, filter (\<lambda>e. \<not> drops e) entries))"

fun subtract_list_from_list ::
  "(state_lock_entry \<Rightarrow> bool) \<Rightarrow> state_lock_entry list \<Rightarrow> state_lock_entry list \<Rightarrow> state_status \<times> state_lock_entry list" where
  "subtract_list_from_list dup_ok target [] = (STATE_SUCCESS, target)"
| "subtract_list_from_list dup_ok target (found_entry # source) =
     (case subtract_lock_from_list dup_ok None None (sle_lock found_entry) target of
        (status, removed, target') \<Rightarrow>
          if status \<noteq> STATE_SUCCESS then (status, target') else subtract_list_from_list dup_ok target' source)"

section \<open>Owners as equivalence classes\<close>

definition owner_key :: "state_owner \<Rightarrow> state_owner + state_owner_type \<times> u64 \<times> char list" where
  "owner_key a = (if so_type a = STATE_LOCK_OWNER_UNKNOWN then Inl a
                  else Inr (so_type a, so_clientid a, so_owner_val a))"

lemma different_owners_key: "different_owners (Some a) (Some b) \<longleftrightarrow> owner_key a \<noteq> owner_key b"
  by (auto simp: different_owners_def owner_key_def compare_nfs4_owner.simps)

lemma different_owners_None [simp]: "different_owners None b" "different_owners a None"
  by (auto simp: different_owners_def split: option.splits)

lemma different_owners_sym: "different_owners a b \<longleftrightarrow> different_owners b a"
  by (cases a; cases b) (auto simp: different_owners_key)

lemma different_owners_refl [simp]: "\<not> different_owners (Some a) (Some a)"
  by (simp add: different_owners_key)

lemma different_owners_trans: "\<not> different_owners a b \<Longrightarrow> different_owners a c \<longleftrightarrow> different_owners b c"
  by (cases a; cases b; cases c) (auto simp: different_owners_key)

section \<open>Ranges as sets of bytes\<close>

definition valid_lock :: "fsal_lock_param \<Rightarrow> bool" where
  "valid_lock l \<longleftrightarrow> unat (lock_start l) + unat (lock_length l) \<le> 2 ^ 64"

definition span :: "fsal_lock_param \<Rightarrow> nat set" where
  "span l = {unat (lock_start l)..unat (lock_end l)}"

lemma unat_max: "unat (- 1 :: u64) = 2 ^ 64 - 1"
  by (simp add: unsigned_minus_1_eq_mask mask_eq_exp_minus_1)

lemma lock_end_nat:
  assumes "valid_lock l"
  shows "unat (lock_end l) =
    (if lock_length l = 0 then 2 ^ 64 - 1 else unat (lock_start l) + unat (lock_length l) - 1)"
proof (cases "lock_length l = 0")
  case True
  then show ?thesis by (simp add: lock_end_def unat_max)
next
  case False
  then have pos: "0 < unat (lock_length l)" by (simp add: unat_gt_0)
  have one: "unat (lock_length l - 1) = unat (lock_length l) - 1" using pos by (simp add: unat_sub_fits)
  have "unat (lock_start l + (lock_length l - 1)) = unat (lock_start l) + (unat (lock_length l) - 1)"
    using assms pos by (simp add: unat_add_fits one valid_lock_def)
  then show ?thesis using False pos by (simp add: lock_end_def add_diff_eq)
qed

lemma lock_start_end: "valid_lock l \<Longrightarrow> lock_start l \<le> lock_end l"
  using unat_u64 [of "lock_start l"] unat_gt_0 [of "lock_length l"]
  by (cases "lock_length l = 0") (simp_all add: word_le_nat_alt lock_end_nat)

lemma span_nonempty: "valid_lock l \<Longrightarrow> unat (lock_start l) \<in> span l \<and> unat (lock_end l) \<in> span l"
  using lock_start_end by (simp add: span_def word_le_nat_alt)

lemma overlaps_span: "overlaps k l \<longleftrightarrow> lock_start l \<le> lock_end k \<and> lock_start k \<le> lock_end l"
  by (auto simp: overlaps_def)

lemma overlaps_iff:
  assumes "valid_lock k" "valid_lock l"
  shows "overlaps k l \<longleftrightarrow> span k \<inter> span l \<noteq> {}"
  using lock_start_end [OF assms(1)] lock_start_end [OF assms(2)]
  by (auto simp: overlaps_span span_def word_le_nat_alt intro: exI [of _ "max (unat (lock_start k)) (unat (lock_start l))"])

text \<open>The ranges the code computes are all of the form \<open>[s, t]\<close> with length \<open>t - s + 1\<close>.\<close>

lemma range_to:
  fixes l :: fsal_lock_param
  assumes "s \<le> t"
  defines "l' \<equiv> l\<lparr>lock_start := s, lock_length := t - s + 1\<rparr>"
  shows "valid_lock l'" "lock_end l' = t" "span l' = {unat s..unat t}"
proof -
  have st: "unat (t - s) = unat t - unat s" using assms(1) by (simp add: unat_sub_fits word_le_nat_alt)
  have "valid_lock l' \<and> lock_end l' = t"
  proof (cases "t - s + 1 = 0")
    case True
    then have "t - s = - 1" by (simp add: eq_neg_iff_add_eq_0)
    then have "unat t - unat s = 2 ^ 64 - 1" using st unat_max by simp
    then have "unat t = 2 ^ 64 - 1" "unat s = 0" using unat_u64 [of t] by auto
    then have "t = - 1" "s = 0" using unat_max by (simp_all add: word_unat_eq_iff)
    then show ?thesis by (simp add: l'_def valid_lock_def lock_end_def)
  next
    case False
    have "unat (t - s) \<noteq> 2 ^ 64 - 1"
      using False unat_max by (metis add.left_inverse word_unat_eq_iff)
    then have "unat (t - s + 1) = unat t - unat s + 1"
      using unat_u64 [of "t - s"] st by (simp add: unat_add_fits)
    then show ?thesis using False assms(1) unat_u64 [of t] st
      by (auto simp: l'_def valid_lock_def lock_end_def word_le_nat_alt)
  qed
  then show "valid_lock l'" "lock_end l' = t" "span l' = {unat s..unat t}"
    by (simp_all add: span_def l'_def)
qed

section \<open>What a lock list means\<close>

text \<open>
  Everything of an entry but its address and its range, and the bytes that the entries with a given
  such tag cover.
\<close>

definition tag :: "state_lock_entry \<Rightarrow> state_lock_entry" where
  "tag e = set_range (state_lock_entry_t_dup 0 e) 0 0"

definition bytes_of :: "state_lock_entry list \<Rightarrow> state_lock_entry \<Rightarrow> nat set" where
  "bytes_of es g = (\<Union>e \<in> {e \<in> set es. tag e = g}. span (sle_lock e))"

lemma bytes_of_simps [simp]:
  "bytes_of [] g = {}"
  "bytes_of (e # es) g = (if tag e = g then span (sle_lock e) else {}) \<union> bytes_of es g"
  "bytes_of (es @ fs) g = bytes_of es g \<union> bytes_of fs g"
  by (auto simp: bytes_of_def)

lemma tag_simps [simp]:
  "sle_owner (tag e) = sle_owner e" "sle_state (tag e) = sle_state e" "sle_blocked (tag e) = sle_blocked e"
  "sle_export (tag e) = sle_export e" "sle_type (tag e) = sle_type e" "lock_type (sle_lock (tag e)) = lock_type (sle_lock e)"
  "tag (set_range e s n) = tag e" "tag (state_lock_entry_t_dup i e) = tag e" "tag (e\<lparr>sle_block_data := d\<rparr>) = tag e"
  by (simp_all add: tag_def set_range_def state_lock_entry_t_dup_def)

lemma dup_simps [simp]:
  "sle_id (state_lock_entry_t_dup i e) = i" "sle_lock (state_lock_entry_t_dup i e) = sle_lock e"
  "sle_owner (state_lock_entry_t_dup i e) = sle_owner e" "sle_blocked (state_lock_entry_t_dup i e) = sle_blocked e"
  "sle_state (state_lock_entry_t_dup i e) = sle_state e"
  by (simp_all add: state_lock_entry_t_dup_def)

lemma set_range_simps [simp]:
  "sle_id (set_range e s n) = sle_id e" "sle_owner (set_range e s n) = sle_owner e"
  "sle_blocked (set_range e s n) = sle_blocked e" "lock_type (sle_lock (set_range e s n)) = lock_type (sle_lock e)"
  "lock_start (sle_lock (set_range e s n)) = s"
  by (simp_all add: set_range_def)

lemma subtract_skips_tag [simp]: "subtract_skips owner state (tag e) = subtract_skips owner state e"
  by (simp add: subtract_skips_def)

definition valid_entry :: "state_lock_entry \<Rightarrow> bool" where
  "valid_entry e \<longleftrightarrow> valid_lock (sle_lock e)"

lemma set_range_to:
  assumes "s \<le> t"
  shows "valid_entry (set_range e s (t - s + 1))" "span (sle_lock (set_range e s (t - s + 1))) = {unat s..unat t}"
    "lock_end (sle_lock (set_range e s (t - s + 1))) = t"
  using range_to [OF assms, of "sle_lock e"] by (simp_all add: set_range_def valid_entry_def)

text \<open>The part before a start and the part after an end.\<close>

lemma set_range_before:
  assumes "s < t"
  shows "valid_entry (set_range e s (t - s))" "span (sle_lock (set_range e s (t - s))) = {unat s..<unat t}"
    "lock_end (sle_lock (set_range e s (t - s))) = t - 1"
proof -
  have u: "s \<le> t - 1" "unat (t - 1) = unat t - 1" "0 < unat t"
    using assms by (auto simp: word_le_nat_alt word_less_nat_alt unat_sub_fits)
  then have sp: "{unat s..unat (t - 1)} = {unat s..<unat t}" by auto
  have "t - 1 - s + 1 = t - s" by simp
  note set_range_to [OF u(1), of e, unfolded this sp]
  then show "valid_entry (set_range e s (t - s))" "span (sle_lock (set_range e s (t - s))) = {unat s..<unat t}"
    "lock_end (sle_lock (set_range e s (t - s))) = t - 1"
    by simp_all
qed

lemma set_range_after:
  assumes "s < t"
  shows "valid_entry (set_range e (s + 1) (t - s))" "span (sle_lock (set_range e (s + 1) (t - s))) = {unat s<..unat t}"
    "lock_end (sle_lock (set_range e (s + 1) (t - s))) = t" "unat (s + 1) = Suc (unat s)"
proof -
  have u: "unat (s + 1) = Suc (unat s)" using assms unat_u64 [of t] by (simp add: word_less_nat_alt unat_add_fits)
  then have le: "s + 1 \<le> t" using assms by (simp add: word_le_nat_alt word_less_nat_alt)
  have sp: "{unat (s + 1)..unat t} = {unat s<..unat t}" using u by auto
  have "t - (s + 1) + 1 = t - s" by simp
  note set_range_to [OF le, of e, unfolded this sp]
  then show "valid_entry (set_range e (s + 1) (t - s))" "span (sle_lock (set_range e (s + 1) (t - s))) = {unat s<..unat t}"
    "lock_end (sle_lock (set_range e (s + 1) (t - s))) = t"
    by simp_all
  show "unat (s + 1) = Suc (unat s)" by (rule u)
qed

section \<open>Subtraction removes exactly the range\<close>

lemma subtract_entry_spec:
  assumes v: "valid_entry e" "valid_lock lock"
    and r: "subtract_lock_from_entry dup_ok others e lock = res"
  shows "(res = Inl STATE_MALLOC_ERROR \<and> \<not> (\<forall>e. dup_ok e)) \<or>
    (res = Inr None \<and> span (sle_lock e) \<inter> span lock = {}) \<or>
    (\<exists>frags. res = Inr (Some frags) \<and> (\<forall>f \<in> set frags. valid_entry f \<and> tag f = tag e) \<and>
       (\<Union>f \<in> set frags. span (sle_lock f)) = span (sle_lock e) - span lock)"
proof -
  let ?s = "lock_start (sle_lock e)" and ?t = "lock_end (sle_lock e)" and ?a = "lock_start lock" and ?b = "lock_end lock"
  have ve: "?s \<le> ?t" "?a \<le> ?b" using v lock_start_end by (auto simp: valid_entry_def)
  have spans: "span (sle_lock e) = {unat ?s..unat ?t}" "span lock = {unat ?a..unat ?b}" by (simp_all add: span_def)
  show ?thesis
  proof (cases "?b < ?s \<or> ?t < ?a")
    case True
    then have "res = Inr None" using r by (auto simp: subtract_lock_from_entry_def Let_def)
    then show ?thesis using True by (auto simp: spans word_less_nat_alt)
  next
    case False
    define lefts where "lefts = (if ?a > ?s then [set_range (state_lock_entry_t_dup (fresh_id (e # others)) e) ?s (?a - ?s)] else [])"
    define rights where
      "rights = (if ?b < ?t then [set_range (state_lock_entry_t_dup (Suc (fresh_id (e # others))) e) (?b + 1) (?t - ?b)] else [])"
    have res: "res = (if list_all dup_ok (lefts @ rights) then Inr (Some (lefts @ rights)) else Inl STATE_MALLOC_ERROR)"
      using r False by (auto simp: subtract_lock_from_entry_def Let_def lefts_def rights_def)
    have l: "(\<forall>f \<in> set lefts. valid_entry f \<and> tag f = tag e) \<and> (\<Union>f \<in> set lefts. span (sle_lock f)) = {unat ?s..<unat ?a}"
      using set_range_before [of ?s ?a] by (auto simp: lefts_def word_less_nat_alt)
    have rr: "(\<forall>f \<in> set rights. valid_entry f \<and> tag f = tag e) \<and> (\<Union>f \<in> set rights. span (sle_lock f)) = {unat ?b<..unat ?t}"
      using set_range_after [of ?b ?t] by (auto simp: rights_def word_less_nat_alt)
    have "{unat ?s..<unat ?a} \<union> {unat ?b<..unat ?t} = span (sle_lock e) - span lock"
      using False ve by (auto simp: spans word_less_nat_alt word_le_nat_alt not_less)
    then have un: "(\<Union>f \<in> set (lefts @ rights). span (sle_lock f)) = span (sle_lock e) - span lock"
      using l rr by (simp add: UN_Un)
    have "\<not> (\<forall>e. dup_ok e)" if "\<not> list_all dup_ok (lefts @ rights)" using that by (auto simp: list_all_iff)
    then show ?thesis using res l rr un by (cases "list_all dup_ok (lefts @ rights)") (auto simp del: list_all_append)
  qed
qed

lemma bytes_of_same_tag: "\<forall>f \<in> set fs. tag f = h \<Longrightarrow> bytes_of fs g = (if h = g then \<Union>f \<in> set fs. span (sle_lock f) else {})"
  by (auto simp: bytes_of_def)

lemma subtract_loop_spec:
  assumes "\<forall>e \<in> set (kept @ split @ todo). valid_entry e" "valid_lock lock" "status = STATE_SUCCESS"
    "subtract_loop dup_ok owner state lock kept split removed todo = (status, kept', split', removed')"
  shows "(\<forall>e \<in> set (kept' @ split'). valid_entry e) \<and>
    (\<forall>g. bytes_of (kept' @ split') g = bytes_of (kept @ split) g \<union>
       (if subtract_skips owner state g then bytes_of todo g else bytes_of todo g - span lock))"
  using assms(1,4)
proof (induction todo arbitrary: kept split removed)
  case (Cons e todo)
  show ?case
  proof (cases "subtract_skips owner state e")
    case True
    then have r: "subtract_loop dup_ok owner state lock (kept @ [e]) split removed todo = (status, kept', split', removed')"
      using Cons.prems(2) by simp
    show ?thesis using Cons.IH [OF _ r] Cons.prems(1) True by auto
  next
    case False
    from subtract_entry_spec [OF _ assms(2) refl, where e = e and others = "kept @ split @ removed @ todo" and dup_ok = dup_ok]
      Cons.prems(1)
    consider (fail) "subtract_lock_from_entry dup_ok (kept @ split @ removed @ todo) e lock = Inl STATE_MALLOC_ERROR"
      | (none) "subtract_lock_from_entry dup_ok (kept @ split @ removed @ todo) e lock = Inr None" "span (sle_lock e) \<inter> span lock = {}"
      | (frags) fs where "subtract_lock_from_entry dup_ok (kept @ split @ removed @ todo) e lock = Inr (Some fs)"
        "\<forall>f \<in> set fs. valid_entry f \<and> tag f = tag e" "(\<Union>f \<in> set fs. span (sle_lock f)) = span (sle_lock e) - span lock"
      by auto
    then show ?thesis
    proof cases
      case fail
      then show ?thesis using Cons.prems(2) False assms(3) by simp
    next
      case none
      then have r: "subtract_loop dup_ok owner state lock (kept @ [e]) split removed todo = (status, kept', split', removed')"
        using Cons.prems(2) False by simp
      have "\<forall>e \<in> set ((kept @ [e]) @ split @ todo). valid_entry e" using Cons.prems(1) by auto
      note IH = Cons.IH [OF this r]
      have "bytes_of (kept' @ split') g = bytes_of (kept @ split) g \<union>
          (if subtract_skips owner state g then bytes_of (e # todo) g else bytes_of (e # todo) g - span lock)" for g
        using spec [OF conjunct2 [OF IH], of g] False none(2) by (cases "tag e = g") auto
      then show ?thesis using IH by blast
    next
      case frags
      then have r: "subtract_loop dup_ok owner state lock kept (split @ fs) (removed @ [e]) todo = (status, kept', split', removed')"
        using Cons.prems(2) False by simp
      have fs: "bytes_of fs g = (if tag e = g then span (sle_lock e) - span lock else {})" for g
        using bytes_of_same_tag [of fs "tag e" g] frags(2,3) by auto
      have "\<forall>e \<in> set (kept @ (split @ fs) @ todo). valid_entry e" using Cons.prems(1) frags(2) by auto
      note IH = Cons.IH [OF this r]
      have "bytes_of (kept' @ split') g = bytes_of (kept @ split) g \<union>
          (if subtract_skips owner state g then bytes_of (e # todo) g else bytes_of (e # todo) g - span lock)" for g
        using spec [OF conjunct2 [OF IH], of g] False fs [of g] by (cases "tag e = g") auto
      then show ?thesis using IH by blast
    qed
  qed
qed auto

lemma subtract_loop_succeeds:
  assumes "\<forall>e. dup_ok e"
  shows "fst (subtract_loop dup_ok owner state lock kept split removed todo) = STATE_SUCCESS"
proof (induction todo arbitrary: kept split removed)
  case (Cons e todo)
  have all: "list_all dup_ok xs" for xs using assms by (simp add: list_all_iff)
  have "\<exists>r. subtract_lock_from_entry dup_ok (kept @ split @ removed @ todo) e lock = Inr r"
    using all by (auto simp: subtract_lock_from_entry_def Let_def)
  then show ?case using Cons.IH by (auto split: option.splits)
qed simp

lemma subtract_lock_from_list_spec:
  assumes "\<forall>e \<in> set es. valid_entry e" "valid_lock lock" "status = STATE_SUCCESS"
    "subtract_lock_from_list dup_ok owner state lock es = (status, removed, es')"
  shows "\<forall>e \<in> set es'. valid_entry e"
    "bytes_of es' g = (if subtract_skips owner state g then bytes_of es g else bytes_of es g - span lock)"
proof -
  obtain st kept split rem where l: "subtract_loop dup_ok owner state lock [] [] [] es = (st, kept, split, rem)"
    by (cases "subtract_loop dup_ok owner state lock [] [] [] es")
  have st: "st = STATE_SUCCESS" "es' = kept @ split"
    using assms(3,4) l by (auto simp: subtract_lock_from_list_def split: if_splits)
  from subtract_loop_spec [OF _ assms(2) st(1) l] assms(1)
  have "\<forall>e \<in> set (kept @ split). valid_entry e"
    "bytes_of (kept @ split) g = (if subtract_skips owner state g then bytes_of es g else bytes_of es g - span lock)"
    by auto
  then show "\<forall>e \<in> set es'. valid_entry e"
    "bytes_of es' g = (if subtract_skips owner state g then bytes_of es g else bytes_of es g - span lock)"
    unfolding st(2) by simp_all
qed

lemma subtract_lock_from_list_succeeds:
  assumes "\<forall>e. dup_ok e" "subtract_lock_from_list dup_ok owner state lock es = (status, removed, es')"
  shows "status = STATE_SUCCESS"
  using subtract_loop_succeeds [OF assms(1), of owner state lock "[]" "[]" "[]" es] assms(2)
  by (auto simp: subtract_lock_from_list_def split: prod.splits if_splits)

text \<open>If memory runs out, every entry is still in the list.\<close>

lemma subtract_loop_fails:
  assumes "subtract_loop dup_ok owner state lock kept split removed todo = (status, kept', split', removed')" "status \<noteq> STATE_SUCCESS"
  shows "mset (kept' @ removed') = mset (kept @ removed @ todo)"
  using assms
  by (induction dup_ok owner state lock kept split removed todo rule: subtract_loop.induct)
    (auto split: if_splits sum.splits option.splits)

lemma subtract_lock_from_list_fails:
  assumes "subtract_lock_from_list dup_ok owner state lock es = (status, removed, es')" "status \<noteq> STATE_SUCCESS"
  shows "mset es' = mset es"
  using assms subtract_loop_fails [of dup_ok owner state lock "[]" "[]" "[]" es]
  by (auto simp: subtract_lock_from_list_def split: prod.splits if_splits)

section \<open>Merging replaces exactly the range\<close>

text \<open>
  The entries that \<open>merge_lock_entry\<close> looks at when it merges the entry at address \<open>i\<close> of owner \<open>own\<close>,
  the bytes they cover by lock type, and that they do not overlap each other.
\<close>

definition rel :: "nat \<Rightarrow> state_owner option \<Rightarrow> state_lock_entry \<Rightarrow> bool" where
  "rel i own e \<longleftrightarrow> sle_id e \<noteq> i \<and> \<not> different_owners (sle_owner e) own \<and> sle_blocked e = STATE_NON_BLOCKING"

definition cov :: "nat \<Rightarrow> state_owner option \<Rightarrow> fsal_lock_t \<Rightarrow> state_lock_entry list \<Rightarrow> nat set" where
  "cov i own t es = (\<Union>e \<in> {e \<in> set es. rel i own e \<and> lock_type (sle_lock e) = t}. span (sle_lock e))"

definition clash :: "state_lock_entry \<Rightarrow> state_lock_entry \<Rightarrow> bool" where
  "clash e f \<longleftrightarrow> span (sle_lock e) \<inter> span (sle_lock f) \<noteq> {}"

fun sep :: "nat \<Rightarrow> state_owner option \<Rightarrow> state_lock_entry list \<Rightarrow> bool" where
  "sep i own [] = True"
| "sep i own (e # es) =
     ((rel i own e \<longrightarrow> (\<forall>f \<in> set es. rel i own f \<longrightarrow> \<not> clash e f)) \<and> sep i own es)"

text \<open>A range that does not reach the last byte of the 64-bit numbers.\<close>

definition bounded :: "state_lock_entry \<Rightarrow> bool" where
  "bounded e \<longleftrightarrow> valid_entry e \<and> lock_end (sle_lock e) \<noteq> - 1"

lemma cov_simps [simp]:
  "cov i own t [] = {}"
  "cov i own t (e # es) = (if rel i own e \<and> lock_type (sle_lock e) = t then span (sle_lock e) else {}) \<union> cov i own t es"
  "cov i own t (es @ fs) = cov i own t es \<union> cov i own t fs"
  by (auto simp: cov_def)

lemma sep_append [simp]:
  "sep i own (xs @ ys) \<longleftrightarrow> sep i own xs \<and> sep i own ys \<and>
     (\<forall>x \<in> set xs. \<forall>y \<in> set ys. rel i own x \<longrightarrow> rel i own y \<longrightarrow> \<not> clash x y)"
  by (induction xs) auto

lemma clash_sym: "clash e f \<longleftrightarrow> clash f e"
  by (auto simp: clash_def)

lemma clash_mono: "clash e f \<Longrightarrow> span (sle_lock f) \<subseteq> span (sle_lock g) \<Longrightarrow> clash e g"
  by (auto simp: clash_def)

lemma fresh_id_above: "e \<in> set es \<Longrightarrow> sle_id e < fresh_id es"
  by (induction es) (auto simp: fresh_id_def)

lemma bounded_nat:
  assumes "bounded e"
  shows "unat (lock_end (sle_lock e) + 1) = Suc (unat (lock_end (sle_lock e)))"
    "unat (lock_start (sle_lock e)) \<le> unat (lock_end (sle_lock e))"
proof -
  have "unat (lock_end (sle_lock e)) \<noteq> 2 ^ 64 - 1"
    using assms unat_max by (metis bounded_def word_unat_eq_iff)
  then show "unat (lock_end (sle_lock e) + 1) = Suc (unat (lock_end (sle_lock e)))"
    using unat_u64 [of "lock_end (sle_lock e)"] by (simp add: unat_add_fits)
  show "unat (lock_start (sle_lock e)) \<le> unat (lock_end (sle_lock e))"
    using assms lock_start_end by (simp add: bounded_def valid_entry_def word_le_nat_alt)
qed

lemma bounded_less: "lock_end (sle_lock f) \<le> lock_end (sle_lock e) \<Longrightarrow> bounded e \<Longrightarrow> valid_entry f \<Longrightarrow> bounded f"
  unfolding bounded_def by (metis order_antisym word_order.extremum)

text \<open>The four cases of one round: no contact, trimming on one or both sides, absorbing.\<close>

lemma skip_disjoint:
  assumes "bounded check" "bounded le" "rel (sle_id le) (sle_owner le) check" "skip_merge check le"
  shows "\<not> clash check le"
  using assms(3,4) bounded_nat [OF assms(1)] bounded_nat [OF assms(2)]
  by (auto simp: clash_def skip_merge_def rel_def span_def word_less_nat_alt)

lemma shrink_left_spec:
  assumes "bounded check" "lock_start (sle_lock check) < lock_start (sle_lock le)"
    "lock_start (sle_lock le) \<le> lock_end (sle_lock check) + 1"
  shows "bounded (shrink_left check le)" "tag (shrink_left check le) = tag check" "sle_id (shrink_left check le) = sle_id check"
    "span (sle_lock (shrink_left check le)) = {unat (lock_start (sle_lock check))..<unat (lock_start (sle_lock le))}"
proof -
  note sb = set_range_before [OF assms(2), of check]
  have "unat (lock_start (sle_lock le) - 1) = unat (lock_start (sle_lock le)) - 1"
    using assms(2) by (simp add: unat_sub_fits word_less_nat_alt)
  then have "lock_end (sle_lock (shrink_left check le)) \<le> lock_end (sle_lock check)"
    using assms(3) bounded_nat(1) [OF assms(1)] sb(3) by (simp add: shrink_left_def word_le_nat_alt)
  then show "bounded (shrink_left check le)" using sb(1) by (intro bounded_less [OF _ assms(1)]) (simp_all add: shrink_left_def)
qed (simp_all add: shrink_left_def set_range_before [OF assms(2)])

lemma shrink_right_spec:
  assumes "bounded check" "lock_end (sle_lock le) < lock_end (sle_lock check)"
  shows "bounded (shrink_right check le)" "tag (shrink_right check le) = tag check" "sle_id (shrink_right check le) = sle_id check"
    "span (sle_lock (shrink_right check le)) = {unat (lock_end (sle_lock le))<..unat (lock_end (sle_lock check))}"
    "lock_start (sle_lock (shrink_right check le)) = lock_end (sle_lock le) + 1"
  using set_range_after(1-3) [OF assms(2), of check] assms(1)
  by (simp_all add: shrink_right_def bounded_def)

lemma unat_Suc_le: "unat (x + 1 :: u64) \<le> Suc (unat x)"
  by (simp add: unat_word_ariths)

lemma touching:
  assumes "rel (sle_id le) (sle_owner le) check" "\<not> skip_merge check le"
  shows "unat (lock_start (sle_lock le)) \<le> Suc (unat (lock_end (sle_lock check)))"
    "unat (lock_start (sle_lock check)) \<le> Suc (unat (lock_end (sle_lock le)))"
  using assms unat_Suc_le [of "lock_end (sle_lock check)"] unat_Suc_le [of "lock_end (sle_lock le)"]
  by (auto simp: rel_def skip_merge_def not_less word_le_nat_alt)

lemma expand_over_valid:
  assumes v: "valid_entry check" "valid_entry le" and r: "rel (sle_id le) (sle_owner le) check" and n: "\<not> skip_merge check le"
  shows "valid_entry (expand_over check le)" "tag (expand_over check le) = tag le" "sle_id (expand_over check le) = sle_id le"
    "span (sle_lock (expand_over check le)) = span (sle_lock check) \<union> span (sle_lock le)"
    "lock_start (sle_lock (expand_over check le)) \<le> lock_start (sle_lock le)"
    "lock_end (sle_lock (expand_over check le)) \<in> {lock_end (sle_lock check), lock_end (sle_lock le)}"
proof -
  let ?s = "lock_start (sle_lock check)" and ?t = "lock_end (sle_lock check)"
    and ?a = "lock_start (sle_lock le)" and ?b = "lock_end (sle_lock le)"
  define e where "e = (if ?b < ?t then ?t else ?b)"
  define s where "s = (if ?s < ?a then ?s else ?a)"
  have eq: "expand_over check le = set_range le s (e - s + 1)" by (simp add: expand_over_def Let_def e_def s_def)
  have o: "unat ?s \<le> unat ?t" "unat ?a \<le> unat ?b" using v lock_start_end by (simp_all add: valid_entry_def word_le_nat_alt)
  have se: "s \<le> e" using o by (auto simp: s_def e_def word_le_nat_alt word_less_nat_alt)
  note rt = set_range_to [OF se, of le]
  show "span (sle_lock (expand_over check le)) = span (sle_lock check) \<union> span (sle_lock le)"
    using rt(2) touching [OF r n] o unfolding eq by (auto simp: span_def s_def e_def word_less_nat_alt split: if_splits)
  show "valid_entry (expand_over check le)" using rt(1) by (simp add: eq)
  show "lock_start (sle_lock (expand_over check le)) \<le> ?a" by (simp add: eq s_def less_imp_le)
  show "lock_end (sle_lock (expand_over check le)) \<in> {?t, ?b}" using rt(3) by (simp add: eq e_def)
qed (simp_all add: expand_over_def Let_def)

lemma expand_over_spec:
  assumes b: "bounded check" "bounded le" and r: "rel (sle_id le) (sle_owner le) check" and n: "\<not> skip_merge check le"
  shows "bounded (expand_over check le)" "tag (expand_over check le) = tag le" "sle_id (expand_over check le) = sle_id le"
    "span (sle_lock (expand_over check le)) = span (sle_lock check) \<union> span (sle_lock le)"
    "lock_start (sle_lock (expand_over check le)) \<le> lock_start (sle_lock le)"
  using b expand_over_valid [OF _ _ r n] by (auto simp: bounded_def)

text \<open>One invariant and one result for the whole loop.\<close>

definition merge_pre :: "nat set \<Rightarrow> state_lock_entry list \<Rightarrow> state_lock_entry list \<Rightarrow> state_lock_entry \<Rightarrow> bool" where
  "merge_pre R kept todo le \<longleftrightarrow>
     (let r = rel (sle_id le) (sle_owner le)
      in (\<forall>e \<in> set (kept @ todo). r e \<longrightarrow> bounded e) \<and> sep (sle_id le) (sle_owner le) (kept @ todo) \<and>
         bounded le \<and> R \<subseteq> span (sle_lock le) \<and>
         (\<forall>e \<in> set todo. r e \<longrightarrow> span (sle_lock e) \<inter> span (sle_lock le) \<subseteq> R) \<and>
         (\<forall>e \<in> set kept. r e \<longrightarrow> \<not> clash e le))"

definition merge_post ::
  "nat set \<Rightarrow> state_lock_entry list \<Rightarrow> state_lock_entry list \<Rightarrow> state_lock_entry \<Rightarrow>
   state_lock_entry list \<Rightarrow> state_lock_entry \<Rightarrow> bool" where
  "merge_post R kept todo le kept' le' \<longleftrightarrow>
     (let i = sle_id le; own = sle_owner le; T = lock_type (sle_lock le)
      in tag le' = tag le \<and> sle_id le' = i \<and> merge_pre R kept' [] le' \<and>
         span (sle_lock le') \<union> cov i own T kept' = span (sle_lock le) \<union> cov i own T kept \<union> cov i own T todo \<and>
         (\<forall>t. t \<noteq> T \<longrightarrow> cov i own t kept' = cov i own t kept \<union> (cov i own t todo - R)) \<and>
         filter (\<lambda>e. \<not> rel i own e) kept' = filter (\<lambda>e. \<not> rel i own e) (kept @ todo))"

lemma tag_eqD: "tag e = tag f \<Longrightarrow> sle_owner e = sle_owner f \<and> sle_blocked e = sle_blocked f \<and>
    lock_type (sle_lock e) = lock_type (sle_lock f)"
  by (metis tag_simps(1,3,6))

lemma merge_step_other:
  assumes "\<not> rel (sle_id le) (sle_owner le) check" "merge_pre R kept (check # todo) le"
  shows "merge_pre R (kept @ [check]) todo le"
    "merge_post R (kept @ [check]) todo le kept' le' \<Longrightarrow> merge_post R kept (check # todo) le kept' le'"
  using assms by (auto simp: merge_pre_def merge_post_def Let_def)

text \<open>An entry is replaced by fragments, some kept and some added at the end of the list.\<close>

lemma merge_step_replace:
  assumes pre: "merge_pre R kept (check # todo) le" and r: "rel (sle_id le) (sle_owner le) check"
    and fs: "\<forall>f \<in> set (ls @ rs). rel (sle_id le) (sle_owner le) f \<and> bounded f \<and> lock_type (sle_lock f) = lock_type (sle_lock check)"
    and sep: "sep (sle_id le) (sle_owner le) (ls @ rs)"
    and un: "(\<Union>f \<in> set (ls @ rs). span (sle_lock f)) = span (sle_lock check) - span (sle_lock le)"
    and T: "lock_type (sle_lock check) = lock_type (sle_lock le) \<Longrightarrow> \<not> clash check le"
  shows "merge_pre R (kept @ ls) (todo @ rs) le"
    "merge_post R (kept @ ls) (todo @ rs) le kept' le' \<Longrightarrow> merge_post R kept (check # todo) le kept' le'"
proof -
  let ?i = "sle_id le" and ?o = "sle_owner le" and ?c = "span (sle_lock check)" and ?l = "span (sle_lock le)"
  have part: "span (sle_lock f) \<subseteq> ?c" "\<not> clash f le" if "f \<in> set (ls @ rs)" for f
    using un that by (auto simp: clash_def)
  have p: "sep ?i ?o (kept @ check # todo)" "R \<subseteq> ?l" "?c \<inter> ?l \<subseteq> R"
    using pre r by (auto simp: merge_pre_def Let_def)
  have far: "\<not> clash e f \<and> \<not> clash f e" if "e \<in> set kept \<union> set todo" "rel ?i ?o e" "f \<in> set (ls @ rs)" for e f
  proof -
    have "\<not> clash e check" using p(1) r that(1,2) by (auto simp: clash_sym [of check])
    then show ?thesis using part(1) [OF that(3)] clash_mono [of e f check] clash_sym [of e f] by blast
  qed
  have "sep ?i ?o ((kept @ ls) @ todo @ rs)" using p(1) sep far by auto
  then show "merge_pre R (kept @ ls) (todo @ rs) le"
    using pre fs part(2) unfolding merge_pre_def Let_def by (auto simp: clash_def)
  have cov: "cov ?i ?o t xs = (if t = lock_type (sle_lock check) then \<Union>f \<in> set xs. span (sle_lock f) else {})"
    if "set xs \<subseteq> set (ls @ rs)" for t xs
    using fs that by (auto simp: cov_def)
  have U: "(\<Union>f \<in> set ls. span (sle_lock f)) \<union> ((\<Union>f \<in> set rs. span (sle_lock f)) - R) = ?c - R"
    using un p(2,3) by auto
  have UT: "(\<Union>f \<in> set ls. span (sle_lock f)) \<union> (\<Union>f \<in> set rs. span (sle_lock f)) = ?c"
    if "lock_type (sle_lock check) = lock_type (sle_lock le)"
    using un T [OF that] by (auto simp: clash_def)
  have nil: "filter (\<lambda>e. \<not> rel ?i ?o e) ls = []" "filter (\<lambda>e. \<not> rel ?i ?o e) rs = []" using fs by (auto simp: filter_empty_conv)
  have covT: "cov ?i ?o (lock_type (sle_lock le)) (kept @ ls) \<union> cov ?i ?o (lock_type (sle_lock le)) (todo @ rs) =
      cov ?i ?o (lock_type (sle_lock le)) kept \<union> cov ?i ?o (lock_type (sle_lock le)) (check # todo)"
    using r UT cov [of ls] cov [of rs] by (cases "lock_type (sle_lock check) = lock_type (sle_lock le)") auto
  have covt: "cov ?i ?o t (kept @ ls) \<union> (cov ?i ?o t (todo @ rs) - R) = cov ?i ?o t kept \<union> (cov ?i ?o t (check # todo) - R)" for t
    using r U cov [of ls] cov [of rs] by (cases "lock_type (sle_lock check) = t") auto
  show "merge_post R kept (check # todo) le kept' le'" if "merge_post R (kept @ ls) (todo @ rs) le kept' le'"
    using that covT covt r nil unfolding merge_post_def Let_def by (simp add: Un_assoc)
qed

lemma merge_step_absorb:
  assumes pre: "merge_pre R kept (check # todo) le" and r: "rel (sle_id le) (sle_owner le) check"
    and le1: "bounded le1" "tag le1 = tag le" "sle_id le1 = sle_id le"
      "span (sle_lock le1) = span (sle_lock check) \<union> span (sle_lock le)"
    and T: "lock_type (sle_lock check) \<noteq> lock_type (sle_lock le) \<Longrightarrow> span (sle_lock check) \<subseteq> span (sle_lock le)"
  shows "merge_pre R kept todo le1"
    "merge_post R kept todo le1 kept' le' \<Longrightarrow> merge_post R kept (check # todo) le kept' le'"
proof -
  let ?i = "sle_id le" and ?o = "sle_owner le" and ?T = "lock_type (sle_lock le)"
  have o: "sle_owner le1 = sle_owner le" "lock_type (sle_lock le1) = lock_type (sle_lock le)"
    using tag_eqD [OF le1(2)] by auto
  have far: "span (sle_lock e) \<inter> span (sle_lock check) = {}" if "e \<in> set kept \<union> set todo" "rel ?i ?o e" for e
  proof -
    have "\<not> clash e check" using pre r that by (auto simp: merge_pre_def Let_def clash_sym [of check])
    then show ?thesis by (simp add: clash_def)
  qed
  have 1: "span (sle_lock e) \<inter> span (sle_lock le1) = span (sle_lock e) \<inter> span (sle_lock le)"
    if "e \<in> set kept \<union> set todo" "rel ?i ?o e" for e
    using far [OF that] le1(4) by auto
  show "merge_pre R kept todo le1"
    using pre le1(1,4) 1 unfolding merge_pre_def Let_def o le1(3) by (auto simp: clash_def)
  have sub: "span (sle_lock check) \<inter> span (sle_lock le) \<subseteq> R" using pre r unfolding merge_pre_def Let_def by auto
  have covT: "span (sle_lock le1) \<union> cov ?i ?o ?T kept \<union> cov ?i ?o ?T todo =
      span (sle_lock le) \<union> cov ?i ?o ?T kept \<union> cov ?i ?o ?T (check # todo)"
    using r T le1(4) by (cases "lock_type (sle_lock check) = ?T") auto
  have covt: "cov ?i ?o t todo - R = cov ?i ?o t (check # todo) - R" if "t \<noteq> ?T" for t
    using r T sub that by auto
  show "merge_post R kept (check # todo) le kept' le'" if "merge_post R kept todo le1 kept' le'"
    using that r covT covt unfolding merge_post_def Let_def o le1(2,3) by (simp del: cov_simps)
qed

text \<open>The number of rounds: one per entry and one more per entry that may be split.\<close>

definition rounds :: "state_lock_entry list \<Rightarrow> state_lock_entry \<Rightarrow> nat" where
  "rounds todo le = length todo +
     length (filter (\<lambda>e. rel (sle_id le) (sle_owner le) e \<and> lock_start (sle_lock e) < lock_start (sle_lock le)) todo)"

lemma rounds_mono:
  "sle_id le1 = sle_id le \<Longrightarrow> sle_owner le1 = sle_owner le \<Longrightarrow> lock_start (sle_lock le1) \<le> lock_start (sle_lock le) \<Longrightarrow>
   rounds todo le1 \<le> rounds todo le"
  by (induction todo) (auto simp: rounds_def)

definition merge_next :: "(state_lock_entry \<Rightarrow> bool) \<Rightarrow> nat set \<Rightarrow> state_lock_entry list \<Rightarrow> state_lock_entry list \<Rightarrow> state_lock_entry \<Rightarrow> bool" where
  "merge_next dup_ok R kept todo le \<longleftrightarrow> (\<exists>kept1 todo1 le1.
     (\<forall>fuel. merge_loop (Suc fuel) dup_ok kept todo le = merge_loop fuel dup_ok kept1 todo1 le1) \<and>
     merge_pre R kept1 todo1 le1 \<and> rounds todo1 le1 < rounds todo le \<and>
     (\<forall>k l. merge_post R kept1 todo1 le1 k l \<longrightarrow> merge_post R kept todo le k l))"

lemma merge_next_replace:
  assumes eq: "\<And>fuel. merge_loop (Suc fuel) dup_ok kept (check # todo) le = merge_loop fuel dup_ok (kept @ ls) (todo @ rs) le"
    and n: "rounds (todo @ rs) le < rounds (check # todo) le"
    and step: "merge_pre R kept (check # todo) le" "rel (sle_id le) (sle_owner le) check"
      "\<forall>f \<in> set (ls @ rs). rel (sle_id le) (sle_owner le) f \<and> bounded f \<and> lock_type (sle_lock f) = lock_type (sle_lock check)"
      "sep (sle_id le) (sle_owner le) (ls @ rs)"
      "(\<Union>f \<in> set (ls @ rs). span (sle_lock f)) = span (sle_lock check) - span (sle_lock le)"
      "lock_type (sle_lock check) = lock_type (sle_lock le) \<Longrightarrow> \<not> clash check le"
  shows "merge_next dup_ok R kept (check # todo) le"
  unfolding merge_next_def using eq n merge_step_replace [OF step] by blast

lemma merge_next_split:
  assumes pre: "merge_pre R kept (check # rest) le" and r: "rel (sle_id le) (sle_owner le) check" and ok: "\<forall>e. dup_ok e"
    and skip: "\<not> skip_merge check le" and trim: "needs_trim check le"
    and R: "lock_end (sle_lock le) < lock_end (sle_lock check)" and L: "lock_start (sle_lock check) < lock_start (sle_lock le)"
  shows "merge_next dup_ok R kept (check # rest) le"
proof -
  let ?r = "rel (sle_id le) (sle_owner le)" and ?c = "sle_lock check" and ?l = "sle_lock le"
  define left where "left = shrink_left check le"
  define check' where "check' = state_lock_entry_t_dup (fresh_id (le # kept @ check # rest)) check"
  define right where "right = shrink_right check' le"
  have b: "bounded check" "bounded le" using pre r by (auto simp: merge_pre_def Let_def)
  have b': "bounded check'" "sle_lock check' = ?c" "tag check' = tag check" "sle_id check' \<noteq> sle_id le"
    using b fresh_id_above [of le "le # kept @ check # rest"] by (simp_all add: bounded_def valid_entry_def check'_def)
  have touch: "lock_start ?l \<le> lock_end ?c + 1" using skip r by (auto simp: skip_merge_def rel_def not_less)
  have R': "lock_end ?l < lock_end (sle_lock check')" using R by (simp add: b')
  note sl = shrink_left_spec [OF b(1) L touch, folded left_def]
  note sr = shrink_right_spec [OF b'(1) R', folded right_def, unfolded b'(2,3)]
  have lr: "?r left" "?r right" using r sl(3) sr(3) b'(4) tag_eqD [OF sl(2)] tag_eqD [OF sr(2)] by (auto simp: rel_def)
  have ty: "lock_type (sle_lock left) = lock_type ?c" "lock_type (sle_lock right) = lock_type ?c"
    using tag_eqD [OF sl(2)] tag_eqD [OF sr(2)] by auto
  have le: "unat (lock_start ?l) \<le> unat (lock_end ?l)" by (rule bounded_nat(2) [OF b(2)])
  have nt: "lock_type ?c \<noteq> lock_type ?l" using trim by (simp add: needs_trim_def)
  have sep: "sep (sle_id le) (sle_owner le) [left, right]"
    using sl(4) sr(4) le by (auto simp: clash_def)
  have un: "span (sle_lock left) \<union> span (sle_lock right) = span ?c - span ?l"
    using sl(4) sr(4) le R L by (auto simp: span_def word_less_nat_alt)
  have fine: "\<forall>f \<in> set [left, right]. ?r f \<and> bounded f \<and> lock_type (sle_lock f) = lock_type ?c"
    using lr ty sl(1) sr(1) by simp
  have nb: "\<not> lock_start (sle_lock right) < lock_start ?l"
    using sr(5) le bounded_nat(1) [OF b(2)] by (simp add: word_less_nat_alt)
  have eq: "merge_loop (Suc fuel) dup_ok kept (check # rest) le =
      (if rest = [] then Some (kept @ [left, right], le) else merge_loop fuel dup_ok (kept @ [left]) (rest @ [right]) le)" for fuel
    using ok skip trim R L by (simp add: left_def check'_def right_def)
  show ?thesis
  proof (cases "rest = []")
    case True
    have e: "merge_loop (Suc fuel) dup_ok kept (check # rest) le = merge_loop fuel dup_ok (kept @ [left, right]) (rest @ []) le" for fuel
      unfolding eq using True by simp
    show ?thesis
      by (rule merge_next_replace [OF e _ pre r]) (use True fine sep un nt in \<open>simp_all add: rounds_def\<close>)
  next
    case False
    have e: "merge_loop (Suc fuel) dup_ok kept (check # rest) le = merge_loop fuel dup_ok (kept @ [left]) (rest @ [right]) le" for fuel
      unfolding eq using False by simp
    show ?thesis
      by (rule merge_next_replace [OF e _ pre r]) (use fine sep un nt nb r L in \<open>simp_all add: rounds_def\<close>)
  qed
qed

lemma interval_minus:
  fixes a b c d :: nat
  shows "c \<le> a \<Longrightarrow> a \<le> Suc d \<Longrightarrow> d < b \<Longrightarrow> {d<..b} = {a..b} - {c..d}"
    "a < c \<Longrightarrow> b \<le> d \<Longrightarrow> c \<le> Suc b \<Longrightarrow> {a..<c} = {a..b} - {c..d}"
  by auto

lemma merge_next_rel:
  assumes pre: "merge_pre R kept (check # rest) le" and r: "rel (sle_id le) (sle_owner le) check" and ok: "\<forall>e. dup_ok e"
  shows "merge_next dup_ok R kept (check # rest) le"
proof -
  let ?r = "rel (sle_id le) (sle_owner le)" and ?c = "sle_lock check" and ?l = "sle_lock le"
  have b: "bounded check" "bounded le" using pre r by (auto simp: merge_pre_def Let_def)
  have rel_same: "?r f" if "tag f = tag check" "sle_id f \<noteq> sle_id le" for f
    using r that tag_eqD [OF that(1)] by (auto simp: rel_def)
  have id: "sle_id check \<noteq> sle_id le" using r by (simp add: rel_def)
  have short: "rounds (rest @ []) le < rounds (check # rest) le" by (simp add: rounds_def)
  have spans: "span ?c = {unat (lock_start ?c)..unat (lock_end ?c)}" "span ?l = {unat (lock_start ?l)..unat (lock_end ?l)}"
    by (simp_all add: span_def)
  show ?thesis
  proof (cases "skip_merge check le")
    case True
    have nc: "\<not> clash check le" by (rule skip_disjoint [OF b r True])
    show ?thesis
      by (rule merge_next_replace [of _ _ _ _ _ "[check]" "[]", OF _ short pre r])
        (use True nc r b in \<open>auto simp: clash_def\<close>)
  next
    case skip: False
    have touch: "lock_start ?l \<le> lock_end ?c + 1" "lock_start ?c \<le> lock_end ?l + 1"
      using skip r by (auto simp: skip_merge_def rel_def not_less)
    show ?thesis
    proof (cases "needs_trim check le")
      case trim: True
      have nt: "lock_type ?c \<noteq> lock_type ?l" using trim by (simp add: needs_trim_def)
      let ?left = "shrink_left check le"
      show ?thesis
      proof (cases "lock_end ?l < lock_end ?c"; cases "lock_start ?c < lock_start ?l")
        assume R: "lock_end ?l < lock_end ?c" and L: "lock_start ?c < lock_start ?l"
        show ?thesis by (rule merge_next_split [OF pre r ok skip trim R L])
      next
        assume R: "lock_end ?l < lock_end ?c" and L: "\<not> lock_start ?c < lock_start ?l"
        note sr = shrink_right_spec [OF b(1) R]
        have "span (sle_lock (shrink_right check le)) = span ?c - span ?l"
          unfolding sr(4) spans using L R touch(2) bounded_nat(1) [OF b(2)]
          by (intro interval_minus) (simp_all only: word_less_nat_alt word_le_nat_alt not_less)
        then show ?thesis
          by (intro merge_next_replace [of _ _ _ _ _ "[shrink_right check le]" "[]", OF _ short pre r])
            (use skip trim R L sr id nt rel_same [of "shrink_right check le"] tag_eqD [OF sr(2)] in auto)
      next
        assume R: "\<not> lock_end ?l < lock_end ?c" and L: "lock_start ?c < lock_start ?l"
        note sl = shrink_left_spec [OF b(1) L touch(1)]
        have "span (sle_lock ?left) = span ?c - span ?l"
          unfolding sl(4) spans using L R touch(1) bounded_nat(1) [OF b(1)]
          by (intro interval_minus) (simp_all only: word_less_nat_alt word_le_nat_alt not_less)
        then show ?thesis
          by (intro merge_next_replace [of _ _ _ _ _ "[?left]" "[]", OF _ short pre r])
            (use skip trim R L sl id nt rel_same [of ?left] tag_eqD [OF sl(2)] in auto)
      next
        assume "\<not> lock_end ?l < lock_end ?c" "\<not> lock_start ?c < lock_start ?l"
        then show ?thesis using trim by (simp add: needs_trim_def)
      qed
    next
      case False
      note ex = expand_over_spec [OF b r skip]
      have T: "span ?c \<subseteq> span ?l" if "lock_type ?c \<noteq> lock_type ?l"
        using False that by (auto simp: needs_trim_def spans word_less_nat_alt word_le_nat_alt not_less)
      have own: "sle_owner (expand_over check le) = sle_owner le" using tag_eqD [OF ex(2)] by simp
      have "rounds rest (expand_over check le) < rounds (check # rest) le"
        using rounds_mono [OF ex(3) own ex(5), of rest] by (simp add: rounds_def)
      then show ?thesis unfolding merge_next_def
        using skip False merge_step_absorb [OF pre r ex(1-4) T]
        by (intro exI [of _ kept] exI [of _ rest] exI [of _ "expand_over check le"]) auto
    qed
  qed
qed

lemma merge_loop_spec:
  assumes "merge_pre R kept todo le" "\<forall>e. dup_ok e" "rounds todo le \<le> fuel"
  shows "\<exists>kept' le'. merge_loop fuel dup_ok kept todo le = Some (kept', le') \<and> merge_post R kept todo le kept' le'"
  using assms(1,3)
proof (induction fuel arbitrary: kept todo le)
  case 0
  then have "todo = []" by (simp add: rounds_def)
  then show ?case using 0 by (simp add: merge_post_def Let_def)
next
  case (Suc fuel)
  show ?case
  proof (cases todo)
    case Nil
    then show ?thesis using Suc.prems by (simp add: merge_post_def Let_def)
  next
    case (Cons check rest)
    note pre = Suc.prems(1) [unfolded Cons]
    have fuel: "rounds rest le \<le> fuel" using Suc.prems(2) by (simp add: Cons rounds_def split: if_splits)
    let ?r = "rel (sle_id le) (sle_owner le)"
    show ?thesis
    proof (cases "?r check")
      case False
      then have "skip_merge check le" by (auto simp: skip_merge_def rel_def)
      then show ?thesis using Suc.IH [OF merge_step_other(1) [OF False pre] fuel] merge_step_other(2) [OF False pre]
        by (auto simp: Cons)
    next
      case r: True
      from merge_next_rel [OF pre r assms(2)] obtain kept1 todo1 le1
        where eq: "\<forall>f. merge_loop (Suc f) dup_ok kept (check # rest) le = merge_loop f dup_ok kept1 todo1 le1"
          and pre1: "merge_pre R kept1 todo1 le1" and n: "rounds todo1 le1 < rounds (check # rest) le"
          and post: "\<forall>k l. merge_post R kept1 todo1 le1 k l \<longrightarrow> merge_post R kept (check # rest) le k l"
        unfolding merge_next_def by blast
      have "rounds todo1 le1 \<le> fuel" using n Suc.prems(2) Cons by simp
      then show ?thesis using Suc.IH [OF pre1] eq post unfolding Cons by auto
    qed
  qed
qed

section \<open>Merging never claims a byte too many\<close>

text \<open>
  With locks to the end of the file, and with a failing \<open>malloc\<close>, merging may leave entries of one owner
  that overlap.  What still holds: of every type the owner has at most the bytes it had and the new
  range, of both types together exactly these, and nothing of another owner changes.
\<close>

definition reach :: "nat \<Rightarrow> state_owner option \<Rightarrow> state_lock_entry list \<Rightarrow> nat set" where
  "reach i own es = (\<Union>e \<in> {e \<in> set es. rel i own e}. span (sle_lock e))"

lemma reach_simps [simp]:
  "reach i own [] = {}"
  "reach i own (e # es) = (if rel i own e then span (sle_lock e) else {}) \<union> reach i own es"
  "reach i own (es @ fs) = reach i own es \<union> reach i own fs"
  by (auto simp: reach_def)

definition merge_safe ::
  "state_lock_entry list \<Rightarrow> state_lock_entry \<Rightarrow> state_lock_entry list \<Rightarrow> state_lock_entry \<Rightarrow> bool" where
  "merge_safe es le es' le' \<longleftrightarrow>
     (let i = sle_id le; own = sle_owner le; T = lock_type (sle_lock le)
      in tag le' = tag le \<and> sle_id le' = i \<and> valid_entry le' \<and> (\<forall>e \<in> set es'. rel i own e \<longrightarrow> valid_entry e) \<and>
         span (sle_lock le) \<subseteq> span (sle_lock le') \<and>
         (\<forall>t. cov i own t es' \<union> (if t = T then span (sle_lock le') else {}) \<subseteq>
              cov i own t es \<union> (if t = T then span (sle_lock le) else {})) \<and>
         reach i own es' \<union> span (sle_lock le') = reach i own es \<union> span (sle_lock le) \<and>
         filter (\<lambda>e. \<not> rel i own e) es' = filter (\<lambda>e. \<not> rel i own e) es)"

lemma merge_safe_refl:
  "valid_entry le \<Longrightarrow> \<forall>e \<in> set es. rel (sle_id le) (sle_owner le) e \<longrightarrow> valid_entry e \<Longrightarrow> merge_safe es le es le"
  by (simp add: merge_safe_def Let_def)

lemma merge_safe_trans:
  assumes "merge_safe es le es1 le1" "merge_safe es1 le1 es2 le2"
  shows "merge_safe es le es2 le2"
proof -
  have same: "sle_id le1 = sle_id le" "sle_owner le1 = sle_owner le" "lock_type (sle_lock le1) = lock_type (sle_lock le)" "tag le1 = tag le"
    using assms(1) tag_eqD [of le1 le] by (auto simp: merge_safe_def Let_def)
  note a = assms(1) [unfolded merge_safe_def Let_def] and b = assms(2) [unfolded merge_safe_def Let_def same]
  have t: "\<forall>t. cov (sle_id le) (sle_owner le) t es2 \<union> (if t = lock_type (sle_lock le) then span (sle_lock le2) else {}) \<subseteq>
      cov (sle_id le) (sle_owner le) t es \<union> (if t = lock_type (sle_lock le) then span (sle_lock le) else {})"
    using a b by (intro allI) (rule subset_trans, blast+)
  have s: "span (sle_lock le) \<subseteq> span (sle_lock le2)" using a b by (meson subset_trans)
  show ?thesis using a b t s unfolding merge_safe_def Let_def by simp
qed

lemma merge_safe_replace:
  assumes r: "rel (sle_id le) (sle_owner le) check" and v: "valid_entry le"
    "\<forall>e \<in> set (kept @ check # todo). rel (sle_id le) (sle_owner le) e \<longrightarrow> valid_entry e"
    and fs: "\<forall>f \<in> set (ls @ rs). rel (sle_id le) (sle_owner le) f \<and> valid_entry f \<and> lock_type (sle_lock f) = lock_type (sle_lock check)"
    and sub: "(\<Union>f \<in> set (ls @ rs). span (sle_lock f)) \<subseteq> span (sle_lock check)"
      "span (sle_lock check) \<subseteq> (\<Union>f \<in> set (ls @ rs). span (sle_lock f)) \<union> span (sle_lock le)"
  shows "merge_safe (kept @ check # todo) le ((kept @ ls) @ (todo @ rs)) le"
proof -
  let ?i = "sle_id le" and ?o = "sle_owner le"
  have c: "cov ?i ?o t (ls @ rs) \<subseteq> cov ?i ?o t [check]" for t
  proof -
    have "cov ?i ?o t (ls @ rs) \<subseteq> (if t = lock_type (sle_lock check) then \<Union>f \<in> set (ls @ rs). span (sle_lock f) else {})"
      using fs unfolding cov_def by auto
    also have "\<dots> \<subseteq> cov ?i ?o t [check]" using sub(1) r by (simp del: set_append)
    finally show ?thesis .
  qed
  have re: "reach ?i ?o (ls @ rs) = (\<Union>f \<in> set (ls @ rs). span (sle_lock f))"
    using fs unfolding reach_def by auto
  have re': "reach ?i ?o ((kept @ ls) @ (todo @ rs)) \<union> span (sle_lock le) = reach ?i ?o (kept @ check # todo) \<union> span (sle_lock le)"
    using sub [folded re] r by (simp only: reach_simps if_True) blast
  have f: "filter (\<lambda>e. \<not> rel ?i ?o e) ls = []" "filter (\<lambda>e. \<not> rel ?i ?o e) rs = []" using fs by (auto simp: filter_empty_conv)
  have cc: "cov ?i ?o t ((kept @ ls) @ (todo @ rs)) \<subseteq> cov ?i ?o t (kept @ check # todo)" for t
    using c [of t] by (simp only: cov_simps) blast
  have "\<forall>e \<in> set ((kept @ ls) @ (todo @ rs)). rel ?i ?o e \<longrightarrow> valid_entry e" using v(2) fs by auto
  then show ?thesis unfolding merge_safe_def Let_def
    using le_supI1 [OF cc] re' f r v(1) by (simp del: cov_simps reach_simps set_append)
qed

lemma merge_safe_absorb:
  assumes r: "rel (sle_id le) (sle_owner le) check" and v: "\<forall>e \<in> set (kept @ check # todo). rel (sle_id le) (sle_owner le) e \<longrightarrow> valid_entry e"
    and le1: "valid_entry le1" "tag le1 = tag le" "sle_id le1 = sle_id le" "span (sle_lock le1) = span (sle_lock check) \<union> span (sle_lock le)"
    and T: "lock_type (sle_lock check) \<noteq> lock_type (sle_lock le) \<Longrightarrow> span (sle_lock check) \<subseteq> span (sle_lock le)"
  shows "merge_safe (kept @ check # todo) le (kept @ todo) le1"
  using v r le1 T by (auto simp: merge_safe_def Let_def)

definition safe_next :: "(state_lock_entry \<Rightarrow> bool) \<Rightarrow> state_lock_entry list \<Rightarrow> state_lock_entry list \<Rightarrow> state_lock_entry \<Rightarrow> bool" where
  "safe_next dup_ok kept todo le \<longleftrightarrow> (\<exists>kept1 todo1 le1.
     (\<forall>fuel. merge_loop (Suc fuel) dup_ok kept todo le = merge_loop fuel dup_ok kept1 todo1 le1) \<and>
     rounds todo1 le1 < rounds todo le \<and> merge_safe (kept @ todo) le (kept1 @ todo1) le1)"

lemma safe_next_replace:
  assumes eq: "\<And>fuel. merge_loop (Suc fuel) dup_ok kept (check # todo) le = merge_loop fuel dup_ok (kept @ ls) (todo @ rs) le"
    and n: "rounds (todo @ rs) le < rounds (check # todo) le"
    and step: "rel (sle_id le) (sle_owner le) check" "valid_entry le"
      "\<forall>e \<in> set (kept @ check # todo). rel (sle_id le) (sle_owner le) e \<longrightarrow> valid_entry e"
      "\<forall>f \<in> set (ls @ rs). rel (sle_id le) (sle_owner le) f \<and> valid_entry f \<and> lock_type (sle_lock f) = lock_type (sle_lock check)"
      "(\<Union>f \<in> set (ls @ rs). span (sle_lock f)) \<subseteq> span (sle_lock check)"
      "span (sle_lock check) \<subseteq> (\<Union>f \<in> set (ls @ rs). span (sle_lock f)) \<union> span (sle_lock le)"
  shows "safe_next dup_ok kept (check # todo) le"
  unfolding safe_next_def using eq n merge_safe_replace [OF step] by blast

text \<open>What the two ways of trimming leave of an entry.\<close>

lemma trimmed_left:
  assumes "rel (sle_id le) (sle_owner le) check" "\<not> skip_merge check le" "lock_start (sle_lock check) < lock_start (sle_lock le)"
  shows "valid_entry (shrink_left check le)"
    "span (sle_lock (shrink_left check le)) = {x \<in> span (sle_lock check). x < unat (lock_start (sle_lock le))}"
proof -
  have "{unat (lock_start (sle_lock check))..<unat (lock_start (sle_lock le))} =
      {x \<in> span (sle_lock check). x < unat (lock_start (sle_lock le))}"
    using touching(1) [OF assms(1,2)] unfolding span_def by auto
  then show "valid_entry (shrink_left check le)"
    "span (sle_lock (shrink_left check le)) = {x \<in> span (sle_lock check). x < unat (lock_start (sle_lock le))}"
    using set_range_before(1,2) [OF assms(3), of check] unfolding shrink_left_def by simp_all
qed

lemma trimmed_right:
  assumes "rel (sle_id le) (sle_owner le) check" "\<not> skip_merge check le" "lock_end (sle_lock le) < lock_end (sle_lock check)"
  shows "valid_entry (shrink_right check le)"
    "span (sle_lock (shrink_right check le)) = {x \<in> span (sle_lock check). unat (lock_end (sle_lock le)) < x}"
proof -
  have "{unat (lock_end (sle_lock le))<..unat (lock_end (sle_lock check))} =
      {x \<in> span (sle_lock check). unat (lock_end (sle_lock le)) < x}"
    using touching(2) [OF assms(1,2)] unfolding span_def by auto
  then show "valid_entry (shrink_right check le)"
    "span (sle_lock (shrink_right check le)) = {x \<in> span (sle_lock check). unat (lock_end (sle_lock le)) < x}"
    using set_range_after(1,2) [OF assms(3), of check] unfolding shrink_right_def by simp_all
qed

lemma trimmed_simps [simp]:
  "tag (shrink_left check le) = tag check" "tag (shrink_right check le) = tag check"
  "sle_id (shrink_left check le) = sle_id check" "sle_id (shrink_right check le) = sle_id check"
  by (simp_all add: shrink_left_def shrink_right_def)

lemma safe_next_split:
  assumes r: "rel (sle_id le) (sle_owner le) check" and v: "valid_entry check" "valid_entry le"
    "\<forall>e \<in> set (kept @ check # rest). rel (sle_id le) (sle_owner le) e \<longrightarrow> valid_entry e"
    and skip: "\<not> skip_merge check le" and trim: "needs_trim check le"
    and R: "lock_end (sle_lock le) < lock_end (sle_lock check)" and L: "lock_start (sle_lock check) < lock_start (sle_lock le)"
  shows "safe_next dup_ok kept (check # rest) le"
proof -
  let ?r = "rel (sle_id le) (sle_owner le)"
  define left where "left = shrink_left check le"
  define check' where "check' = state_lock_entry_t_dup (fresh_id (le # kept @ check # rest)) check"
  define right where "right = shrink_right check' le"
  have id: "sle_id check' \<noteq> sle_id le" using fresh_id_above [of le "le # kept @ check # rest"] by (simp add: check'_def)
  have c': "valid_entry check'" "?r check'" "\<not> skip_merge check' le" "tag check' = tag check" "sle_lock check' = sle_lock check"
    using v(1) r skip id by (simp_all add: valid_entry_def rel_def skip_merge_def check'_def)
  note l = trimmed_left [OF r skip L, folded left_def] and rt = trimmed_right [OF c'(2,3), unfolded c'(5), OF R, folded right_def]
  have fine: "\<forall>f \<in> set [left, right]. ?r f \<and> valid_entry f \<and> lock_type (sle_lock f) = lock_type (sle_lock check)"
    using r c'(2,4) l rt tag_eqD [of left check] tag_eqD [of right check] by (auto simp: rel_def left_def right_def)
  have un: "span (sle_lock left) \<union> span (sle_lock right) \<subseteq> span (sle_lock check)"
    "span (sle_lock check) \<subseteq> span (sle_lock left) \<union> span (sle_lock right) \<union> span (sle_lock le)"
    unfolding l(2) rt(2) by (auto simp: span_def)
  have nb: "\<not> lock_start (sle_lock right) < lock_start (sle_lock le)"
    using R lock_start_end [of "sle_lock le"] v(2) set_range_after(4) [OF R]
    by (simp add: right_def shrink_right_def valid_entry_def word_less_nat_alt word_le_nat_alt)
  consider (fail) "\<not> dup_ok right" | (last) "dup_ok right" "rest = []" | (more) "dup_ok right" "rest \<noteq> []" by blast
  then show ?thesis
  proof cases
    case fail
    have e: "merge_loop (Suc fuel) dup_ok kept (check # rest) le = merge_loop fuel dup_ok (kept @ [check]) (rest @ []) le" for fuel
      using skip trim R L fail by (simp add: check'_def right_def)
    show ?thesis by (rule safe_next_replace [OF e _ r v(2,3)]) (use r v(1) in \<open>auto simp: rounds_def\<close>)
  next
    case last
    have e: "merge_loop (Suc fuel) dup_ok kept (check # rest) le = merge_loop fuel dup_ok (kept @ [left, right]) (rest @ []) le" for fuel
      using skip trim R L last by (simp add: check'_def right_def left_def)
    show ?thesis by (rule safe_next_replace [OF e _ r v(2,3)]) (use fine un in \<open>simp_all add: rounds_def\<close>)
  next
    case more
    have e: "merge_loop (Suc fuel) dup_ok kept (check # rest) le = merge_loop fuel dup_ok (kept @ [left]) (rest @ [right]) le" for fuel
      using skip trim R L more by (simp add: check'_def right_def left_def)
    show ?thesis by (rule safe_next_replace [OF e _ r v(2,3)]) (use fine un nb r L in \<open>simp_all add: rounds_def\<close>)
  qed
qed

lemma safe_next_rel:
  assumes r: "rel (sle_id le) (sle_owner le) check" and v: "valid_entry check" "valid_entry le"
    "\<forall>e \<in> set (kept @ check # rest). rel (sle_id le) (sle_owner le) e \<longrightarrow> valid_entry e"
  shows "safe_next dup_ok kept (check # rest) le"
proof -
  let ?c = "sle_lock check" and ?l = "sle_lock le"
  have short: "rounds (rest @ []) le < rounds (check # rest) le" by (simp add: rounds_def)
  have spans: "span ?c = {unat (lock_start ?c)..unat (lock_end ?c)}" "span ?l = {unat (lock_start ?l)..unat (lock_end ?l)}"
    by (simp_all add: span_def)
  consider (skip) "skip_merge check le"
    | (both) "\<not> skip_merge check le" "needs_trim check le" "lock_end ?l < lock_end ?c" "lock_start ?c < lock_start ?l"
    | (right) "\<not> skip_merge check le" "needs_trim check le" "lock_end ?l < lock_end ?c" "\<not> lock_start ?c < lock_start ?l"
    | (left) "\<not> skip_merge check le" "needs_trim check le" "\<not> lock_end ?l < lock_end ?c" "lock_start ?c < lock_start ?l"
    | (absorb) "\<not> skip_merge check le" "\<not> needs_trim check le"
    by (auto simp: needs_trim_def)
  then show ?thesis
  proof cases
    case skip
    show ?thesis by (rule safe_next_replace [of _ _ _ _ _ "[check]" "[]", OF _ short r v(2,3)]) (use skip r v(1) in auto)
  next
    case both
    then show ?thesis by (rule safe_next_split [OF r v])
  next
    case right
    note t = trimmed_right [OF r right(1,3)]
    have "span ?c \<subseteq> span (sle_lock (shrink_right check le)) \<union> span ?l"
      using right(4) unfolding t(2) spans word_less_nat_alt by auto
    then show ?thesis
      by (intro safe_next_replace [of _ _ _ _ _ "[shrink_right check le]" "[]", OF _ short r v(2,3)])
        (use right t r tag_eqD [of "shrink_right check le" check] in \<open>auto simp: rel_def\<close>)
  next
    case left
    note t = trimmed_left [OF r left(1,4)]
    have "span ?c \<subseteq> span (sle_lock (shrink_left check le)) \<union> span ?l"
      using left(3) unfolding t(2) spans word_less_nat_alt by auto
    then show ?thesis
      by (intro safe_next_replace [of _ _ _ _ _ "[shrink_left check le]" "[]", OF _ short r v(2,3)])
        (use left t r tag_eqD [of "shrink_left check le" check] in \<open>auto simp: rel_def\<close>)
  next
    case absorb
    note ex = expand_over_valid [OF v(1,2) r absorb(1)]
    have T: "span ?c \<subseteq> span ?l" if "lock_type ?c \<noteq> lock_type ?l"
      using absorb(2) that by (auto simp: needs_trim_def spans word_less_nat_alt not_less)
    have own: "sle_owner (expand_over check le) = sle_owner le" using tag_eqD [OF ex(2)] by simp
    have "rounds rest (expand_over check le) < rounds (check # rest) le"
      using rounds_mono [OF ex(3) own ex(5), of rest] by (simp add: rounds_def)
    then show ?thesis unfolding safe_next_def
      using absorb merge_safe_absorb [OF r v(3) ex(1-4) T]
      by (intro exI [of _ kept] exI [of _ rest] exI [of _ "expand_over check le"]) auto
  qed
qed

lemma merge_loop_safe:
  assumes "rounds todo le \<le> fuel" "valid_entry le" "\<forall>e \<in> set (kept @ todo). rel (sle_id le) (sle_owner le) e \<longrightarrow> valid_entry e"
  shows "\<exists>kept' le'. merge_loop fuel dup_ok kept todo le = Some (kept', le') \<and> merge_safe (kept @ todo) le kept' le'"
  using assms
proof (induction fuel arbitrary: kept todo le)
  case 0
  then have "todo = []" by (simp add: rounds_def)
  then show ?case using merge_safe_refl [OF 0(2,3)] by simp
next
  case (Suc fuel)
  show ?case
  proof (cases todo)
    case Nil
    then show ?thesis using merge_safe_refl [OF Suc.prems(2,3)] by simp
  next
    case (Cons check rest)
    show ?thesis
    proof (cases "rel (sle_id le) (sle_owner le) check")
      case False
      then have skip: "skip_merge check le" by (auto simp: skip_merge_def rel_def)
      have "rounds rest le \<le> fuel" using Suc.prems(1) by (simp add: Cons rounds_def split: if_splits)
      then show ?thesis using Suc.IH [of rest le "kept @ [check]"] Suc.prems(2,3) skip by (simp add: Cons)
    next
      case r: True
      note v = Suc.prems(3) [unfolded Cons]
      have "valid_entry check" using v r by simp
      from safe_next_rel [OF r this Suc.prems(2) v] obtain kept1 todo1 le1
        where eq: "\<forall>f. merge_loop (Suc f) dup_ok kept (check # rest) le = merge_loop f dup_ok kept1 todo1 le1"
          and n: "rounds todo1 le1 < rounds (check # rest) le" and st: "merge_safe (kept @ check # rest) le (kept1 @ todo1) le1"
        unfolding safe_next_def by blast
      have same: "sle_id le1 = sle_id le" "sle_owner le1 = sle_owner le"
        using st tag_eqD [of le1 le] by (auto simp: merge_safe_def Let_def)
      have "rounds todo1 le1 \<le> fuel" using n Suc.prems(1) Cons by simp
      moreover have "valid_entry le1" "\<forall>e \<in> set (kept1 @ todo1). rel (sle_id le1) (sle_owner le1) e \<longrightarrow> valid_entry e"
        using st unfolding same by (simp_all add: merge_safe_def Let_def)
      ultimately obtain kept' le'
        where "merge_loop fuel dup_ok kept1 todo1 le1 = Some (kept', le')" "merge_safe (kept1 @ todo1) le1 kept' le'"
        using Suc.IH by blast
      then show ?thesis using eq merge_safe_trans [OF st] Cons by auto
    qed
  qed
qed

section \<open>What an owner holds\<close>

text \<open>
  The locks granted to an owner, the bytes it holds by type and in all, and that no two of its granted
  locks share a byte.
\<close>

definition granted :: "state_owner option \<Rightarrow> state_lock_entry \<Rightarrow> bool" where
  "granted own e \<longleftrightarrow> \<not> different_owners (sle_owner e) own \<and> sle_blocked e = STATE_NON_BLOCKING"

definition held :: "state_owner option \<Rightarrow> fsal_lock_t \<Rightarrow> state_lock_entry list \<Rightarrow> nat set" where
  "held own t es = (\<Union>e \<in> {e \<in> set es. granted own e \<and> lock_type (sle_lock e) = t}. span (sle_lock e))"

definition held_any :: "state_owner option \<Rightarrow> state_lock_entry list \<Rightarrow> nat set" where
  "held_any own es = (\<Union>e \<in> {e \<in> set es. granted own e}. span (sle_lock e))"

fun apart :: "state_owner option \<Rightarrow> state_lock_entry list \<Rightarrow> bool" where
  "apart own [] = True"
| "apart own (e # es) =
     ((granted own e \<longrightarrow> (\<forall>f \<in> set es. granted own f \<longrightarrow> span (sle_lock e) \<inter> span (sle_lock f) = {})) \<and> apart own es)"

lemma held_simps [simp]:
  "held own t [] = {}"
  "held own t (e # es) = (if granted own e \<and> lock_type (sle_lock e) = t then span (sle_lock e) else {}) \<union> held own t es"
  "held own t (es @ fs) = held own t es \<union> held own t fs"
  by (auto simp: held_def)

lemma held_any_simps [simp]:
  "held_any own [] = {}"
  "held_any own (e # es) = (if granted own e then span (sle_lock e) else {}) \<union> held_any own es"
  "held_any own (es @ fs) = held_any own es \<union> held_any own fs"
  by (auto simp: held_any_def)

lemma fresh_views:
  assumes "\<forall>e \<in> set es. sle_id e \<noteq> i"
  shows "cov i own t es = held own t es" "reach i own es = held_any own es" "sep i own es = apart own es"
    "filter (rel i own) es = filter (granted own) es"
  using assms by (induction es) (auto simp: rel_def granted_def clash_def)

lemma rel_ids:
  assumes "filter (\<lambda>e. \<not> rel i own e) es' = filter (\<lambda>e. \<not> rel i own e) es" "\<forall>e \<in> set es. sle_id e \<noteq> i"
  shows "\<forall>e \<in> set es'. sle_id e \<noteq> i"
proof
  fix e assume e: "e \<in> set es'"
  show "sle_id e \<noteq> i"
  proof (cases "rel i own e")
    case False
    then have "e \<in> set (filter (\<lambda>e. \<not> rel i own e) es')" using e by simp
    then show ?thesis using assms by (metis (no_types, lifting) filter_is_subset subsetD)
  qed (simp add: rel_def)
qed

lemma rounds_length: "rounds todo le \<le> 2 * length todo"
proof -
  have "length (filter P todo) \<le> length todo" for P :: "state_lock_entry \<Rightarrow> bool" by simp
  from this [of "\<lambda>e. rel (sle_id le) (sle_owner le) e \<and> lock_start (sle_lock e) < lock_start (sle_lock le)"]
  show ?thesis unfolding rounds_def by linarith
qed

lemma others_filter:
  assumes "filter (\<lambda>e. \<not> rel i own e) es' = filter (\<lambda>e. \<not> rel i own e) es" "\<forall>e \<in> set es. sle_id e \<noteq> i" "\<forall>e \<in> set es'. sle_id e \<noteq> i"
  shows "filter (\<lambda>e. \<not> granted own e) es' = filter (\<lambda>e. \<not> granted own e) es"
proof -
  have "filter (\<lambda>e. \<not> rel i own e) xs = filter (\<lambda>e. \<not> granted own e) xs" if "\<forall>e \<in> set xs. sle_id e \<noteq> i" for xs
    using that by (auto simp: rel_def granted_def intro: filter_cong)
  then show ?thesis using assms by metis
qed

lemma merge_lock_entry_total:
  assumes "valid_entry le" "\<forall>e \<in> set es. rel (sle_id le) (sle_owner le) e \<longrightarrow> valid_entry e"
  shows "\<exists>kept le'. merge_lock_entry dup_ok es le = Some (map (\<lambda>e. if sle_id e = sle_id le then le' else e) kept, le') \<and>
    merge_safe es le kept le'"
  using merge_loop_safe [where kept = "[]", OF rounds_length assms(1), of es dup_ok] assms(2) by (auto simp: merge_lock_entry_def)

lemma merge_fresh_safe:
  assumes ids: "\<forall>e \<in> set es. sle_id e \<noteq> sle_id le" and g: "granted (sle_owner le) le"
    and v: "valid_entry le" "\<forall>e \<in> set es. granted (sle_owner le) e \<longrightarrow> valid_entry e"
  shows "\<exists>es' le'. merge_lock_entry dup_ok es le = Some (es', le') \<and> merge_safe es le es' le' \<and>
    held_any (sle_owner le) (le' # es') = held_any (sle_owner le) es \<union> span (sle_lock le) \<and>
    (\<forall>t. held (sle_owner le) t (le' # es') \<subseteq>
       held (sle_owner le) t es \<union> (if t = lock_type (sle_lock le) then span (sle_lock le) else {})) \<and>
    (\<forall>e \<in> set (le' # es'). granted (sle_owner le) e \<longrightarrow> valid_entry e) \<and>
    filter (\<lambda>e. \<not> granted (sle_owner le) e) es' = filter (\<lambda>e. \<not> granted (sle_owner le) e) es"
proof -
  let ?i = "sle_id le" and ?o = "sle_owner le"
  have "\<forall>e \<in> set es. rel ?i ?o e \<longrightarrow> valid_entry e" using v(2) by (simp add: rel_def granted_def)
  from merge_lock_entry_total [OF v(1) this, of dup_ok] obtain es' le'
    where eq: "merge_lock_entry dup_ok es le = Some (map (\<lambda>e. if sle_id e = ?i then le' else e) es', le')"
      and safe: "merge_safe es le es' le'" by blast
  have f: "filter (\<lambda>e. \<not> rel ?i ?o e) es' = filter (\<lambda>e. \<not> rel ?i ?o e) es" using safe by (simp add: merge_safe_def Let_def)
  note ids' = rel_ids [OF f ids]
  note w = fresh_views [OF ids, of ?o] and w' = fresh_views [OF ids', of ?o]
  have tag: "sle_owner le' = ?o" "lock_type (sle_lock le') = lock_type (sle_lock le)" "granted ?o le'" "valid_entry le'"
    using safe tag_eqD [of le' le] g by (auto simp: merge_safe_def Let_def granted_def)
  have eq': "merge_lock_entry dup_ok es le = Some (es', le')" using eq ids' by (simp add: map_idI)
  have h: "held ?o t (le' # es') \<subseteq> held ?o t es \<union> (if t = lock_type (sle_lock le) then span (sle_lock le) else {})" for t
  proof -
    have "cov ?i ?o t es' \<union> (if t = lock_type (sle_lock le) then span (sle_lock le') else {}) \<subseteq>
        cov ?i ?o t es \<union> (if t = lock_type (sle_lock le) then span (sle_lock le) else {})"
      using safe by (simp add: merge_safe_def Let_def)
    then show ?thesis using w(1) w'(1) tag by (auto split: if_splits)
  qed
  have a: "held_any ?o (le' # es') = held_any ?o es \<union> span (sle_lock le)"
    using safe w(2) w'(2) tag by (auto simp: merge_safe_def Let_def)
  have "\<forall>e \<in> set (le' # es'). granted ?o e \<longrightarrow> valid_entry e"
    using safe ids' tag by (auto simp: merge_safe_def Let_def rel_def granted_def)
  then show ?thesis using eq' safe h a others_filter [OF f ids ids'] by blast
qed

text \<open>Subtraction, seen from the owners.\<close>

lemma granted_tag [simp]: "granted own (tag e) = granted own e"
  by (simp add: granted_def)

lemma held_bytes_of: "held own t es = (\<Union>g \<in> {g. granted own g \<and> lock_type (sle_lock g) = t}. bytes_of es g)"
proof
  show "held own t es \<subseteq> (\<Union>g \<in> {g. granted own g \<and> lock_type (sle_lock g) = t}. bytes_of es g)"
  proof
    fix x assume "x \<in> held own t es"
    then obtain e where "e \<in> set es" "granted own e" "lock_type (sle_lock e) = t" "x \<in> span (sle_lock e)" by (auto simp: held_def)
    then show "x \<in> (\<Union>g \<in> {g. granted own g \<and> lock_type (sle_lock g) = t}. bytes_of es g)"
      by (intro UN_I [of "tag e"]) (auto simp: bytes_of_def)
  qed
  show "(\<Union>g \<in> {g. granted own g \<and> lock_type (sle_lock g) = t}. bytes_of es g) \<subseteq> held own t es"
    by (auto simp: held_def bytes_of_def)
qed

lemma subtract_held:
  assumes v: "\<forall>e \<in> set es. valid_entry e" "valid_lock lock" "status = STATE_SUCCESS"
    and r: "subtract_lock_from_list dup_ok (Some own) None lock es = (status, removed, es')"
  shows "held who t es' = (if different_owners who (Some own) then held who t es else held who t es - span lock)"
proof -
  have s: "subtract_skips (Some own) None g \<longleftrightarrow> different_owners who (Some own)" if "granted who g" for g
    using that different_owners_trans [of "sle_owner g" who "Some own"] by (simp add: subtract_skips_def granted_def)
  have "bytes_of es' g = (if different_owners who (Some own) then bytes_of es g else bytes_of es g - span lock)" if "granted who g" for g
    using subtract_lock_from_list_spec(2) [OF v r, of g] s [OF that] by simp
  then show ?thesis unfolding held_bytes_of by auto
qed

lemma subtract_loop_skips:
  "\<forall>e \<in> set todo. subtract_skips owner state e \<Longrightarrow>
   subtract_loop dup_ok owner state lock kept split removed todo = (STATE_SUCCESS, kept @ todo, split, removed)"
  by (induction todo arbitrary: kept) auto

lemma subtract_own_state_keeps:
  assumes "\<forall>e \<in> set es. sle_state e = Some st"
  shows "subtract_lock_from_list dup_ok owner (Some st) lock es = (STATE_SUCCESS, False, es)"
  using assms by (simp add: subtract_lock_from_list_def subtract_loop_skips subtract_skips_def)

definition conflicts :: "state_owner option \<Rightarrow> fsal_lock_param \<Rightarrow> state_lock_entry \<Rightarrow> bool" where
  "conflicts owner lock e \<longleftrightarrow> sle_blocked e \<notin> {STATE_NFSV4_BLOCKING, STATE_CANCELED} \<and>
     different_owners (sle_owner e) owner \<and> (lock_type (sle_lock e) = FSAL_LOCK_W \<or> lock_type lock = FSAL_LOCK_W) \<and>
     span (sle_lock e) \<inter> span lock \<noteq> {}"

lemma get_overlapping_find:
  assumes "valid_lock lock" "\<forall>e \<in> set es. valid_entry e"
  shows "get_overlapping_entry es owner lock = find (conflicts owner lock) es"
  using assms(2)
proof (induction es)
  case (Cons e es)
  have "overlaps (sle_lock e) lock \<longleftrightarrow> span (sle_lock e) \<inter> span lock \<noteq> {}"
    using Cons.prems overlaps_iff [OF _ assms(1)] by (simp add: valid_entry_def)
  then show ?case using Cons by (auto simp: conflicts_def)
qed simp

text \<open>Two owners and a lock of the first, for the instances of the properties below.\<close>

definition alice :: state_owner where
  "alice = Owner 1 STATE_LOCK_OWNER_NFSV4 7 ''alice'' None"

definition bob :: state_owner where
  "bob = Owner 2 STATE_LOCK_OWNER_NFSV4 7 ''bob'' None"

definition some_lock :: "nat \<Rightarrow> state_owner \<Rightarrow> fsal_lock_t \<Rightarrow> u64 \<Rightarrow> u64 \<Rightarrow> state_lock_entry" where
  "some_lock i own t start len =
     \<lparr>sle_id = i, sle_export = 1, sle_owner = Some own, sle_state = Some 5, sle_blocked = STATE_NON_BLOCKING,
      sle_lock = \<lparr>lock_sle_type = POSIX_LOCK, lock_type = t, lock_start = start, lock_length = len, lock_reclaim = False\<rparr>,
      sle_type = POSIX_LOCK, sle_block_data = None\<rparr>"

lemma alice_bob [simp]: "different_owners (Some alice) (Some bob)" "different_owners (Some bob) (Some alice)"
  by (simp_all add: different_owners_key owner_key_def alice_def bob_def)

lemma some_lock_simps [simp]:
  "sle_id (some_lock i own t a n) = i" "sle_owner (some_lock i own t a n) = Some own" "sle_state (some_lock i own t a n) = Some 5"
  "sle_blocked (some_lock i own t a n) = STATE_NON_BLOCKING" "lock_type (sle_lock (some_lock i own t a n)) = t"
  "lock_start (sle_lock (some_lock i own t a n)) = a" "lock_length (sle_lock (some_lock i own t a n)) = n"
  "lock_end (sle_lock (some_lock i own t a n)) = (if n = 0 then - 1 else a + n - 1)"
  "span (sle_lock (some_lock i own t a n)) = {unat a..unat (if n = 0 then - 1 else a + n - 1)}"
  "granted who (some_lock i own t a n) \<longleftrightarrow> \<not> different_owners (Some own) who"
  "valid_entry (some_lock i own t a n) \<longleftrightarrow> unat a + unat n \<le> 2 ^ 64"
  by (simp_all add: some_lock_def lock_end_def span_def granted_def valid_entry_def valid_lock_def)

section \<open>Properties\<close>



text \<open>
  C28: whatever the list looks like and whichever allocations fail, merging ends, and it never claims a
  byte too many: if no range wraps around, the owner holds of every type at most what it held and the
  new range, in all exactly that, and the locks of others are unchanged.  So merging cannot create a
  conflict that was not in the list before.
\<close>

theorem merge_lock_entry_safe:
  assumes "\<forall>e \<in> set es. sle_id e \<noteq> sle_id le" "granted (sle_owner le) le" "valid_entry le"
    "\<forall>e \<in> set es. granted (sle_owner le) e \<longrightarrow> valid_entry e"
  shows "\<exists>es' le'. merge_lock_entry dup_ok es le = Some (es', le') \<and>
    held_any (sle_owner le) (le' # es') = held_any (sle_owner le) es \<union> span (sle_lock le) \<and>
    (\<forall>t. held (sle_owner le) t (le' # es') \<subseteq>
       held (sle_owner le) t es \<union> (if t = lock_type (sle_lock le) then span (sle_lock le) else {})) \<and>
    (\<forall>e \<in> set (le' # es'). granted (sle_owner le) e \<longrightarrow> valid_entry e) \<and>
    filter (\<lambda>e. \<not> granted (sle_owner le) e) es' = filter (\<lambda>e. \<not> granted (sle_owner le) e) es"
  using merge_fresh_safe [OF assms, of dup_ok] by blast

theorem merge_lock_entry_safe_witness:
  "\<exists>es' le'. merge_lock_entry (\<lambda>_. False) [some_lock 1 alice FSAL_LOCK_W 0 10] (some_lock 3 alice FSAL_LOCK_R 3 0) = Some (es', le') \<and>
    held_any (Some alice) (le' # es') = {0..2 ^ 64 - 1}"
proof -
  let ?es = "[some_lock 1 alice FSAL_LOCK_W 0 10]" and ?le = "some_lock 3 alice FSAL_LOCK_R 3 0"
  have "\<exists>es' le'. merge_lock_entry (\<lambda>_. False) ?es ?le = Some (es', le') \<and>
    held_any (sle_owner ?le) (le' # es') = held_any (sle_owner ?le) ?es \<union> span (sle_lock ?le) \<and>
    (\<forall>t. held (sle_owner ?le) t (le' # es') \<subseteq>
       held (sle_owner ?le) t ?es \<union> (if t = lock_type (sle_lock ?le) then span (sle_lock ?le) else {})) \<and>
    (\<forall>e \<in> set (le' # es'). granted (sle_owner ?le) e \<longrightarrow> valid_entry e) \<and>
    filter (\<lambda>e. \<not> granted (sle_owner ?le) e) es' = filter (\<lambda>e. \<not> granted (sle_owner ?le) e) ?es"
    by (rule merge_lock_entry_safe) simp_all
  then obtain es' le' where r: "merge_lock_entry (\<lambda>_. False) ?es ?le = Some (es', le')"
    and h: "held_any (Some alice) (le' # es') = held_any (Some alice) ?es \<union> span (sle_lock ?le)" by auto
  have "held_any (Some alice) ?es \<union> span (sle_lock ?le) = {0..2 ^ 64 - 1}" by (auto simp: unat_max)
  then show ?thesis using r h by metis
qed



text \<open>
  a conflict is found exactly when there is one: the search returns the first entry that is not
  waiting or cancelled, belongs to another owner, shares a byte with the request and is for writing, or
  is asked for writing; it returns nothing exactly if there is no such entry.
\<close>

theorem get_overlapping_entry_finds:
  assumes "valid_lock lock" "\<forall>e \<in> set es. valid_entry e"
  shows "(get_overlapping_entry es owner lock = None \<longleftrightarrow> (\<forall>e \<in> set es. \<not> conflicts owner lock e)) \<and>
    (\<forall>e. get_overlapping_entry es owner lock = Some e \<longrightarrow> e \<in> set es \<and> conflicts owner lock e)"
  unfolding get_overlapping_find [OF assms] by (auto simp: find_None_iff find_Some_iff)

theorem get_overlapping_entry_finds_witness:
  "get_overlapping_entry [some_lock 1 alice FSAL_LOCK_R 0 10, some_lock 2 alice FSAL_LOCK_W 20 5] (Some bob)
     (sle_lock (some_lock 9 bob FSAL_LOCK_R 3 4)) = None"
proof -
  let ?l = "sle_lock (some_lock 9 bob FSAL_LOCK_R 3 4)" and ?es = "[some_lock 1 alice FSAL_LOCK_R 0 10, some_lock 2 alice FSAL_LOCK_W 20 5]"
  have "(get_overlapping_entry ?es (Some bob) ?l = None \<longleftrightarrow> (\<forall>e \<in> set ?es. \<not> conflicts (Some bob) ?l e)) \<and>
    (\<forall>e. get_overlapping_entry ?es (Some bob) ?l = Some e \<longrightarrow> e \<in> set ?es \<and> conflicts (Some bob) ?l e)"
    by (rule get_overlapping_entry_finds) (simp_all add: valid_lock_def)
  then show ?thesis by (auto simp: conflicts_def)
qed

text \<open>
  a lock that reaches the end of the file is not looked at when a later lock of its owner is merged,
  because the end plus one is zero in 64 bits: an owner that downgrades part of such a lock still holds
  all of it.
\<close>

theorem merge_after_eof_lock:
  assumes "lock_length (sle_lock e) = 0" "0 < lock_start (sle_lock le)" "sle_id e \<noteq> sle_id le"
  shows "merge_lock_entry dup_ok [e] le = Some ([e], le)"
proof -
  have "skip_merge e le" using assms by (simp add: skip_merge_def lock_end_def)
  then show ?thesis using assms(3) by (simp add: merge_lock_entry_def numeral_2_eq_2)
qed

theorem merge_after_eof_lock_witness:
  "merge_lock_entry (\<lambda>_. True) [some_lock 1 alice FSAL_LOCK_W 10 0] (some_lock 2 alice FSAL_LOCK_R 20 5) =
     Some ([some_lock 1 alice FSAL_LOCK_W 10 0], some_lock 2 alice FSAL_LOCK_R 20 5)"
  by (rule merge_after_eof_lock) simp_all

end
