(* ===== verification/Lock_Manager.thy ===== *)
theory Lock_Manager
  imports Lock_List
begin

text \<open>
  The lock operations on a file (\<^verbatim>\<open>SAL/state_lock.c\<close>): testing, taking, releasing and cancelling locks, the
  grant of waiting locks with its cookies, and the calls to the file system below.

  A \<open>file_locks\<close> is what the code keeps for one file: the lock list, the delegation list, the count of pin
  references on the cache entry, the table of grant cookies, and the state of the file system.  The
  operations run under the state lock of the entry, so each is one step.  What they call outside the
  file is a parameter (\<open>lock_env\<close>): the lock operation of the file system with its error conversion,
  the outcome of pinning and opening the file, the allocator, the call-back of a waiting lock.  \<open>None\<close> as
  the result of an operation means that it dereferences a null pointer or does not end.

  Two effects outside the file are left out: \<open>do_lock_op\<close> writes the type of the lock into the description that its caller
  passed, where no operation of the file reads it again, and an unlock on a stale file
  drops the file from the inode cache.  The owners are those of a build without 9P, in which \<open>LOCK_OWNER_9P\<close> is 0.
\<close>

section \<open>State and environment\<close>

datatype fsal_lock_op_t = FSAL_OP_LOCKT | FSAL_OP_LOCK | FSAL_OP_LOCKB | FSAL_OP_UNLOCK | FSAL_OP_CANCEL

definition fsal_lock_op_str :: "fsal_lock_op_t \<Rightarrow> string" where
  "fsal_lock_op_str lop =
     (case lop of FSAL_OP_LOCKT \<Rightarrow> ''FSAL_OP_LOCKT '' | FSAL_OP_LOCK \<Rightarrow> ''FSAL_OP_LOCK  '' | FSAL_OP_LOCKB \<Rightarrow> ''FSAL_OP_LOCKB ''
      | FSAL_OP_UNLOCK \<Rightarrow> ''FSAL_OP_UNLOCK'' | FSAL_OP_CANCEL \<Rightarrow> ''FSAL_OP_CANCEL'')"

text \<open>
  The cookie table maps the bytes of a cookie to the address of its lock entry.  \<open>freed_cookies\<close> collects
  the cookies whose memory was given back.
\<close>

record 'f file_locks =
  regular_file :: bool
  lock_list :: "state_lock_entry list"
  deleg_list :: "state_lock_entry list"
  pin_ref :: int
  fsal_state :: 'f
  lock_cookies :: "(char list \<times> nat) list"
  freed_cookies :: "char list list"

record 'f lock_env =
  lock_support :: bool
  lock_support_owner :: bool
  lock_support_async_block :: bool
  reopen_method :: bool
  lock_op :: "'f \<Rightarrow> state_owner option \<Rightarrow> fsal_lock_op_t \<Rightarrow> fsal_lock_param \<Rightarrow> fsal_status \<times> fsal_lock_param \<times> 'f"
  granted_callback :: "'f file_locks \<Rightarrow> nat \<Rightarrow> state_status \<times> 'f file_locks"
  alloc_ok :: "state_lock_entry \<Rightarrow> bool"
  cookie_alloc_ok :: bool
  inc_pin_result :: cache_inode_status
  open_result :: "bool \<Rightarrow> bool \<Rightarrow> cache_inode_status"
  op_export :: nat

definition pin :: "int \<Rightarrow> 'f file_locks \<Rightarrow> 'f file_locks" where
  "pin d fl = fl\<lparr>pin_ref := pin_ref fl + d\<rparr>"

definition unpin_if_empty :: "'f file_locks \<Rightarrow> 'f file_locks" where
  "unpin_if_empty fl = (if lock_list fl = [] then pin (- 1) fl else fl)"

definition find_entry :: "nat \<Rightarrow> 'f file_locks \<Rightarrow> state_lock_entry option" where
  "find_entry i fl = find (\<lambda>e. sle_id e = i) (lock_list fl)"

definition change_entry :: "nat \<Rightarrow> (state_lock_entry \<Rightarrow> state_lock_entry) \<Rightarrow> 'f file_locks \<Rightarrow> 'f file_locks" where
  "change_entry i f fl = fl\<lparr>lock_list := map (\<lambda>e. if sle_id e = i then f e else e) (lock_list fl)\<rparr>"

definition remove_from_locklist :: "nat \<Rightarrow> 'f file_locks \<Rightarrow> 'f file_locks" where
  "remove_from_locklist i fl = fl\<lparr>lock_list := filter (\<lambda>e. sle_id e \<noteq> i) (lock_list fl)\<rparr>"

text \<open>A new entry gets an address that no entry has and no cookie refers to.\<close>

definition new_address :: "'f file_locks \<Rightarrow> nat" where
  "new_address fl = Suc (foldr max (map sle_id (lock_list fl @ deleg_list fl) @ map snd (lock_cookies fl)) 0)"

definition create_state_lock_entry ::
  "nat \<Rightarrow> nat \<Rightarrow> state_blocking_t \<Rightarrow> state_owner \<Rightarrow> nat option \<Rightarrow> fsal_lock_param \<Rightarrow> lock_type_t \<Rightarrow> state_lock_entry" where
  "create_state_lock_entry i export blocked owner state lock sle_t =
     \<lparr>sle_id = i, sle_export = export, sle_owner = Some owner, sle_state = state, sle_blocked = blocked,
      sle_lock = lock, sle_type = sle_t, sle_block_data = None\<rparr>"

definition unknown_owner :: state_owner where
  "unknown_owner = Owner 0 STATE_LOCK_OWNER_UNKNOWN 0 [] None"

definition free_list :: "'f file_locks \<Rightarrow> 'f file_locks" where
  "free_list fl = fl\<lparr>lock_list := []\<rparr>"

section \<open>Cookies of grants\<close>

text \<open>\<open>True\<close> where the C function returns a non-zero number, that is, where the keys differ.\<close>

definition compare_lock_cookie_key :: "nat \<times> char list \<Rightarrow> nat \<times> char list \<Rightarrow> bool" where
  "compare_lock_cookie_key buff1 buff2 =
     (case (buff1, buff2) of ((addr1, b1), (addr2, b2)) \<Rightarrow>
        if addr1 = addr2 then False
        else if length b1 \<noteq> length b2 then True
        else if addr1 = 0 \<or> addr2 = 0 then True
        else b1 \<noteq> b2)"

definition cookie_sum :: "char list \<Rightarrow> u32" where
  "cookie_sum key = fold (\<lambda>c sum. sum + of_nat (of_char c)) key 0"

definition lock_cookie_rbt_hash_func :: "char list \<Rightarrow> u64" where
  "lock_cookie_rbt_hash_func key = ucast (cookie_sum key) + of_nat (length key)"

definition lock_cookie_value_hash_func :: "u32 \<Rightarrow> char list \<Rightarrow> u32" where
  "lock_cookie_value_hash_func index_size key = ucast ((ucast (cookie_sum key) + of_nat (length key)) mod ucast index_size :: u64)"

definition set_cookie :: "char list option \<Rightarrow> state_lock_entry \<Rightarrow> state_lock_entry" where
  "set_cookie c e = e\<lparr>sle_block_data := map_option (\<lambda>d. d\<lparr>sbd_blocked_cookie := c\<rparr>) (sle_block_data e)\<rparr>"

definition free_cookie :: "char list \<times> nat \<Rightarrow> bool \<Rightarrow> 'f file_locks \<Rightarrow> 'f file_locks" where
  "free_cookie cookie_entry unblock fl =
     (case cookie_entry of (cookie, i) \<Rightarrow>
        (if unblock then change_entry i (set_cookie None) fl else fl)\<lparr>freed_cookies := cookie # freed_cookies fl\<rparr>)"

definition state_find_grant :: "char list \<Rightarrow> 'f file_locks \<Rightarrow> (state_status + nat) \<times> 'f file_locks" where
  "state_find_grant cookie fl =
     (case map_of (lock_cookies fl) cookie of
        None \<Rightarrow> (Inl STATE_BAD_COOKIE, fl)
      | Some i \<Rightarrow> (Inr i, fl\<lparr>lock_cookies := filter (\<lambda>(k, _). k \<noteq> cookie) (lock_cookies fl)\<rparr>))"

section \<open>Calls to the file system\<close>

text \<open>
  The entries of the unlock list are unlocked one after the other; an error is remembered and does not
  stop the loop.
\<close>

fun unlock_each :: "'f lock_env \<Rightarrow> state_lock_entry list \<Rightarrow> state_status \<Rightarrow> 'f \<Rightarrow> state_status \<times> 'f" where
  "unlock_each env [] status fs = (status, fs)"
| "unlock_each env (found_entry # rest) status fs =
     (case lock_op env fs None FSAL_OP_UNLOCK (sle_lock found_entry) of
        (fsal_status, _, fs') \<Rightarrow>
          let t_status = state_error_convert fsal_status
          in unlock_each env rest (if t_status \<noteq> STATE_SUCCESS then t_status else status) fs')"

definition do_unlock_no_owner ::
  "'f lock_env \<Rightarrow> 'f file_locks \<Rightarrow> fsal_lock_param \<Rightarrow> lock_type_t \<Rightarrow> state_status \<times> 'f file_locks" where
  "do_unlock_no_owner env fl lock sle_t =
     (let unlock_entry = create_state_lock_entry (new_address fl) (op_export env) STATE_NON_BLOCKING unknown_owner None lock sle_t
      in if \<not> alloc_ok env unlock_entry then (STATE_MALLOC_ERROR, fl)
         else case subtract_list_from_list (alloc_ok env) [unlock_entry] (lock_list fl) of
                (status, fsal_unlock_list) \<Rightarrow>
                  (case unlock_each env fsal_unlock_list status (fsal_state fl) of
                     (status', fs) \<Rightarrow> (status', fl\<lparr>fsal_state := fs\<rparr>)))"

definition zero_lock :: fsal_lock_param where
  "zero_lock = \<lparr>lock_sle_type = POSIX_LOCK, lock_type = FSAL_LOCK_R, lock_start = 0, lock_length = 0, lock_reclaim = False\<rparr>"

text \<open>The second component is the conflict the file system reports, if any.\<close>

definition do_lock_op ::
  "'f lock_env \<Rightarrow> 'f file_locks \<Rightarrow> fsal_lock_op_t \<Rightarrow> state_owner option \<Rightarrow> fsal_lock_param \<Rightarrow> bool \<Rightarrow> lock_type_t \<Rightarrow>
   state_status \<times> (state_owner option \<times> fsal_lock_param) option \<times> 'f file_locks" where
  "do_lock_op env fl lop owner lock0 overlap sle_t =
     (let lock = lock0\<lparr>lock_sle_type := sle_t\<rparr>
      in if \<not> lock_support env \<or> (\<not> lock_support_async_block env \<and> lop = FSAL_OP_CANCEL) \<or>
            (\<not> lock_support_async_block env \<and> overlap) \<or> (\<not> lock_support_owner env \<and> overlap)
         then (STATE_SUCCESS, None, fl)
         else if lock_support_owner env \<or> lop \<noteq> FSAL_OP_UNLOCK then
           let lop1 = (if lop = FSAL_OP_LOCKB \<and> \<not> lock_support_async_block env then FSAL_OP_LOCK else lop)
           in case lock_op env (fsal_state fl) (if lock_support_owner env then owner else None) lop1 lock of
                (fsal_status, conflicting_lock, fs) \<Rightarrow>
                  let st = state_error_convert fsal_status;
                      status = (if st = STATE_LOCK_BLOCKED \<and> lop1 \<noteq> FSAL_OP_LOCKB then STATE_FSAL_ERROR else st)
                  in (status, if status = STATE_LOCK_CONFLICT then Some (Some unknown_owner, conflicting_lock) else None,
                      fl\<lparr>fsal_state := fs\<rparr>)
         else case do_unlock_no_owner env fl lock sle_t of
                (status, fl') \<Rightarrow>
                  (status, if status = STATE_LOCK_CONFLICT then Some (Some unknown_owner, zero_lock) else None, fl'))"

section \<open>Granting\<close>

definition state_add_grant_cookie ::
  "'f lock_env \<Rightarrow> 'f file_locks \<Rightarrow> char list \<Rightarrow> nat \<Rightarrow> (state_status + char list \<times> nat) \<times> 'f file_locks" where
  "state_add_grant_cookie env fl cookie i =
     (case find_entry i fl of
        None \<Rightarrow> (Inl STATE_INCONSISTENT_ENTRY, fl)
      | Some lock_entry \<Rightarrow>
          (case sle_block_data lock_entry of
             None \<Rightarrow> (Inl STATE_INCONSISTENT_ENTRY, fl)
           | Some bd \<Rightarrow>
               if cookie = [] then (Inl STATE_INCONSISTENT_ENTRY, fl)
               else if \<not> cookie_alloc_ok env then (Inl STATE_MALLOC_ERROR, fl)
               else if map_of (lock_cookies fl) cookie \<noteq> None then (Inl STATE_HASH_TABLE_ERROR, fl)
               else
                 let fl1 = change_entry i (set_cookie (Some cookie)) (fl\<lparr>lock_cookies := (cookie, i) # lock_cookies fl\<rparr>);
                     (status, fl2) =
                       (case sbd_grant_type bd of
                          STATE_GRANT_NONE \<Rightarrow> (STATE_INCONSISTENT_ENTRY, fl1)
                        | STATE_GRANT_FSAL_AVAILABLE \<Rightarrow>
                            (case do_lock_op env fl1 FSAL_OP_LOCKB (sle_owner lock_entry) (sle_lock lock_entry) False POSIX_LOCK of
                               (st, _, fl') \<Rightarrow> (st, fl'))
                        | STATE_GRANT_INTERNAL \<Rightarrow>
                            (case do_lock_op env fl1 FSAL_OP_LOCK (sle_owner lock_entry) (sle_lock lock_entry) False POSIX_LOCK of
                               (st, _, fl') \<Rightarrow> (st, fl'))
                        | STATE_GRANT_FSAL \<Rightarrow> (STATE_SUCCESS, fl1))
                 in if status \<noteq> STATE_SUCCESS then (Inl status, free_cookie (cookie, i) False fl2)
                    else (Inr (cookie, i), fl2)))"

definition state_cancel_grant :: "'f lock_env \<Rightarrow> 'f file_locks \<Rightarrow> char list \<times> nat \<Rightarrow> state_status \<times> 'f file_locks" where
  "state_cancel_grant env fl cookie_entry =
     (case find_entry (snd cookie_entry) fl of
        None \<Rightarrow> (STATE_SUCCESS, free_cookie cookie_entry True fl)
      | Some lock_entry \<Rightarrow>
          (case do_lock_op env fl FSAL_OP_UNLOCK (sle_owner lock_entry) (sle_lock lock_entry) False POSIX_LOCK of
             (status, _, fl') \<Rightarrow> (status, free_cookie cookie_entry True fl')))"

definition try_to_grant_lock :: "'f lock_env \<Rightarrow> 'f file_locks \<Rightarrow> nat \<Rightarrow> 'f file_locks" where
  "try_to_grant_lock env fl i =
     (case find_entry i fl of
        None \<Rightarrow> fl
      | Some lock_entry \<Rightarrow>
          (case sle_block_data lock_entry of
             None \<Rightarrow> remove_from_locklist i fl
           | Some bd \<Rightarrow>
               if sle_blocked lock_entry = STATE_CANCELED then remove_from_locklist i fl
               else
                 let bd' = (if sbd_grant_type bd = STATE_GRANT_NONE then bd\<lparr>sbd_grant_type := STATE_GRANT_INTERNAL\<rparr> else bd);
                     fl1 = change_entry i (\<lambda>e. e\<lparr>sle_blocked := STATE_GRANTING, sle_block_data := Some bd'\<rparr>) fl
                 in case granted_callback env fl1 i of
                      (status, fl2) \<Rightarrow>
                        if status = STATE_LOCK_BLOCKED then change_entry i (\<lambda>e. e\<lparr>sle_blocked := sle_blocked lock_entry\<rparr>) fl2
                        else if status = STATE_SUCCESS then fl2
                        else remove_from_locklist i fl2))"

definition process_blocked_lock_upcall :: "'f lock_env \<Rightarrow> 'f file_locks \<Rightarrow> nat \<Rightarrow> 'f file_locks" where
  "process_blocked_lock_upcall env fl i = unpin_if_empty (try_to_grant_lock env fl i)"

text \<open>The loop goes over the entries that were in the list when it began.\<close>

fun grant_loop :: "'f lock_env \<Rightarrow> nat list \<Rightarrow> 'f file_locks \<Rightarrow> 'f file_locks" where
  "grant_loop env [] fl = fl"
| "grant_loop env (i # ids) fl =
     (case find_entry i fl of
        None \<Rightarrow> grant_loop env ids fl
      | Some found_entry \<Rightarrow>
          if sle_blocked found_entry \<noteq> STATE_NFSV4_BLOCKING then grant_loop env ids fl
          else if get_overlapping_entry (lock_list fl) (sle_owner found_entry) (sle_lock found_entry) \<noteq> None
          then grant_loop env ids fl
          else grant_loop env ids (try_to_grant_lock env fl i))"

definition grant_blocked_locks :: "'f lock_env \<Rightarrow> 'f file_locks \<Rightarrow> 'f file_locks" where
  "grant_blocked_locks env fl =
     (if lock_support_async_block env then fl else grant_loop env (map sle_id (lock_list fl)) fl)"

definition grant_merged :: "'f lock_env \<Rightarrow> 'f file_locks \<Rightarrow> nat \<Rightarrow> 'f file_locks option" where
  "grant_merged env fl i =
     (let fl1 = change_entry i (\<lambda>e. e\<lparr>sle_blocked := STATE_NON_BLOCKING\<rparr>) fl
      in case find_entry i fl1 of
           None \<Rightarrow> Some fl1
         | Some lock_entry \<Rightarrow>
             (case merge_lock_entry (alloc_ok env) (lock_list fl1) lock_entry of
                None \<Rightarrow> None
              | Some (es, _) \<Rightarrow> Some (grant_blocked_locks env (fl1\<lparr>lock_list := es\<rparr>))))"

definition grant_blocked_lock_immediate :: "'f lock_env \<Rightarrow> 'f file_locks \<Rightarrow> nat \<Rightarrow> 'f file_locks option" where
  "grant_blocked_lock_immediate env fl i =
     (case find_entry i fl of
        None \<Rightarrow> Some fl
      | Some lock_entry \<Rightarrow>
          (case sle_block_data lock_entry of
             None \<Rightarrow> grant_merged env fl i
           | Some bd \<Rightarrow>
               (case sbd_blocked_cookie bd of
                  Some c \<Rightarrow>
                    (case state_find_grant c fl of
                       (Inr j, fl1) \<Rightarrow> grant_merged env (free_cookie (c, j) True fl1) i
                     | (Inl _, fl1) \<Rightarrow> Some fl1)
                | None \<Rightarrow> grant_merged env (change_entry i (\<lambda>e. e\<lparr>sle_block_data := None\<rparr>) fl) i)))"

definition state_complete_grant :: "'f lock_env \<Rightarrow> 'f file_locks \<Rightarrow> char list \<times> nat \<Rightarrow> 'f file_locks option" where
  "state_complete_grant env fl cookie_entry =
     (let granted_fl = (case find_entry (snd cookie_entry) fl of
                        None \<Rightarrow> Some fl
                      | Some lock_entry \<Rightarrow>
                          if sle_blocked lock_entry = STATE_GRANTING then grant_merged env fl (snd cookie_entry) else Some fl)
      in map_option (\<lambda>fl1. unpin_if_empty (free_cookie cookie_entry True fl1)) granted_fl)"

section \<open>Cancelling\<close>

definition cancel_blocked_lock :: "'f lock_env \<Rightarrow> 'f file_locks \<Rightarrow> nat \<Rightarrow> 'f file_locks" where
  "cancel_blocked_lock env fl i =
     (case find_entry i fl of
        None \<Rightarrow> fl
      | Some lock_entry \<Rightarrow>
          let fl1 = change_entry i (\<lambda>e. e\<lparr>sle_blocked := STATE_CANCELED\<rparr>) fl
          in case Option.bind (sle_block_data lock_entry) sbd_blocked_cookie of
               Some c \<Rightarrow>
                 (case state_find_grant c fl1 of
                    (Inr j, fl2) \<Rightarrow> remove_from_locklist i (free_cookie (c, j) True fl2)
                  | (Inl _, fl2) \<Rightarrow> remove_from_locklist i fl2)
             | None \<Rightarrow>
                 (case do_lock_op env fl1 FSAL_OP_CANCEL (sle_owner lock_entry) (sle_lock lock_entry) False POSIX_LOCK of
                    (status, _, fl2) \<Rightarrow> if status \<noteq> STATE_SUCCESS then fl2 else remove_from_locklist i fl2))"

fun cancel_range_loop ::
  "'f lock_env \<Rightarrow> state_owner option \<Rightarrow> nat option \<Rightarrow> fsal_lock_param \<Rightarrow> nat list \<Rightarrow> 'f file_locks \<Rightarrow> 'f file_locks" where
  "cancel_range_loop env owner state lock [] fl = fl"
| "cancel_range_loop env owner state lock (i # ids) fl =
     (case find_entry i fl of
        None \<Rightarrow> cancel_range_loop env owner state lock ids fl
      | Some found_entry \<Rightarrow>
          if owner \<noteq> None \<and> different_owners (sle_owner found_entry) owner \<or>
             state \<noteq> None \<and> sle_state found_entry = state \<or>
             sle_blocked found_entry = STATE_NON_BLOCKING
          then cancel_range_loop env owner state lock ids fl
          else if overlaps (sle_lock found_entry) lock
          then cancel_range_loop env owner state lock ids (cancel_blocked_lock env fl i)
          else cancel_range_loop env owner state lock ids fl)"

definition cancel_blocked_locks_range ::
  "'f lock_env \<Rightarrow> 'f file_locks \<Rightarrow> state_owner option \<Rightarrow> nat option \<Rightarrow> fsal_lock_param \<Rightarrow> 'f file_locks" where
  "cancel_blocked_locks_range env fl owner state lock =
     cancel_range_loop env owner state lock (map sle_id (lock_list fl)) fl"

definition state_release_grant :: "'f lock_env \<Rightarrow> 'f file_locks \<Rightarrow> char list \<times> nat \<Rightarrow> state_status \<times> 'f file_locks" where
  "state_release_grant env fl cookie_entry =
     (let i = snd cookie_entry;
          (status, fl1) =
            (case find_entry i fl of
               None \<Rightarrow> (STATE_SUCCESS, fl)
             | Some lock_entry \<Rightarrow>
                 if sle_blocked lock_entry \<noteq> STATE_GRANTING then (STATE_SUCCESS, fl)
                 else case do_lock_op env (change_entry i (\<lambda>e. e\<lparr>sle_blocked := STATE_CANCELED\<rparr>) fl) FSAL_OP_UNLOCK
                             (sle_owner lock_entry) (sle_lock lock_entry) False POSIX_LOCK of
                        (status, _, fl') \<Rightarrow> (status, if status \<noteq> STATE_SUCCESS then fl' else remove_from_locklist i fl'))
      in (status, unpin_if_empty (grant_blocked_locks env (free_cookie cookie_entry True fl1))))"

section \<open>Testing\<close>

definition copy_conflict :: "state_lock_entry option \<Rightarrow> (state_owner option \<times> fsal_lock_param) option" where
  "copy_conflict found_entry = map_option (\<lambda>e. (sle_owner e, sle_lock e)) found_entry"

text \<open>The file is opened for reading (first argument of \<open>open_result\<close> false), and not to reclaim a lock.\<close>

definition state_test ::
  "'f lock_env \<Rightarrow> 'f file_locks \<Rightarrow> state_owner \<Rightarrow> fsal_lock_param \<Rightarrow>
   state_status \<times> (state_owner option \<times> fsal_lock_param) option \<times> 'f file_locks" where
  "state_test env fl owner lock =
     (if inc_pin_result env \<noteq> CACHE_INODE_SUCCESS
      then (cache_inode_status_to_state_status (inc_pin_result env), None, fl)
      else
        let fl1 = pin 1 fl
        in if open_result env False False \<noteq> CACHE_INODE_SUCCESS
           then (cache_inode_status_to_state_status (open_result env False False), None, pin (- 1) fl1)
           else case get_overlapping_entry (lock_list fl1) (Some owner) lock of
                  Some e \<Rightarrow> (STATE_LOCK_CONFLICT, copy_conflict (Some e), pin (- 1) fl1)
                | None \<Rightarrow>
                    (case do_lock_op env fl1 FSAL_OP_LOCKT (Some owner) lock False POSIX_LOCK of
                       (status, conflict, fl2) \<Rightarrow> (status, conflict, pin (- 1) fl2)))"

section \<open>Locking\<close>

text \<open>The search for an identical request that already waits; \<open>Some\<close> is an early return.\<close>

fun find_blocked ::
  "nat \<Rightarrow> state_owner \<Rightarrow> state_blocking_t \<Rightarrow> fsal_lock_param \<Rightarrow> state_lock_entry list \<Rightarrow> state_status option" where
  "find_blocked export owner blocking lock [] = None"
| "find_blocked export owner blocking lock (found_entry # rest) =
     (if different_owners (sle_owner found_entry) (Some owner) then find_blocked export owner blocking lock rest
      else if sle_export found_entry \<noteq> export then Some STATE_INVALID_ARGUMENT
      else if sle_blocked found_entry \<noteq> blocking then find_blocked export owner blocking lock rest
      else if different_lock (sle_lock found_entry) lock then find_blocked export owner blocking lock rest
      else Some STATE_LOCK_BLOCKED)"

text \<open>
  The scan of the list: an early return, a lock of the owner that covers the request, or whether the
  lock is allowed, the overlap hint and the conflict found.
\<close>

datatype scan_result =
  Scan_Return state_status
| Scan_Existing state_lock_entry
| Scan_Done bool bool "state_lock_entry option"

fun scan_locks :: "nat \<Rightarrow> state_owner \<Rightarrow> fsal_lock_param \<Rightarrow> bool \<Rightarrow> state_lock_entry list \<Rightarrow> scan_result" where
  "scan_locks export owner lock overlap [] = Scan_Done True overlap None"
| "scan_locks export owner lock overlap (found_entry # rest) =
     (if sle_type found_entry = LEASE_LOCK \<and> lock_sle_type lock = LEASE_LOCK \<and>
         map_option so_clientid (sle_owner found_entry) = Some (so_clientid owner)
      then scan_locks export owner lock overlap rest
      else if sle_export found_entry \<noteq> export \<and> \<not> different_owners (sle_owner found_entry) (Some owner)
      then Scan_Return STATE_INVALID_ARGUMENT
      else if overlaps (sle_lock found_entry) lock \<and>
              (lock_type (sle_lock found_entry) = FSAL_LOCK_W \<or> lock_type lock = FSAL_LOCK_W) \<and>
              different_owners (sle_owner found_entry) (Some owner)
      then Scan_Done False True (Some found_entry)
      else if lock_end (sle_lock found_entry) \<ge> lock_end lock \<and> lock_start (sle_lock found_entry) \<le> lock_start lock \<and>
              lock_type (sle_lock found_entry) = lock_type lock \<and>
              (sle_blocked found_entry = STATE_NON_BLOCKING \<or> sle_blocked found_entry = STATE_GRANTING)
      then if \<not> different_owners (sle_owner found_entry) (Some owner) then Scan_Existing found_entry
           else scan_locks export owner lock True rest
      else scan_locks export owner lock overlap rest)"

text \<open>
  What follows the scan: the request goes to the file system, and the new entry is merged into the
  list, put on the delegation list, discarded or left waiting.
\<close>

definition place_lock ::
  "'f lock_env \<Rightarrow> 'f file_locks \<Rightarrow> state_owner \<Rightarrow> nat option \<Rightarrow> state_blocking_t \<Rightarrow> state_block_data option \<Rightarrow>
   fsal_lock_param \<Rightarrow> lock_type_t \<Rightarrow> bool \<Rightarrow> bool \<Rightarrow> (state_owner option \<times> fsal_lock_param) option \<Rightarrow>
   (state_status \<times> (state_owner option \<times> fsal_lock_param) option \<times> 'f file_locks) option" where
  "place_lock env fl owner state blocking block_data lock sle_t allow overlap known =
     (if \<not> lock_support_async_block env \<and> \<not> allow then Some (STATE_LOCK_CONFLICT, known, fl)
      else
        let lop = (if lock_support_async_block env then FSAL_OP_LOCKB else FSAL_OP_LOCK);
            found_entry = create_state_lock_entry (new_address fl) (op_export env) STATE_NON_BLOCKING owner state lock sle_t
        in if \<not> alloc_ok env found_entry then Some (STATE_MALLOC_ERROR, known, fl)
           else
             case do_lock_op env fl lop (Some owner) lock overlap sle_t of
               (status, reported, fl1) \<Rightarrow>
                 let conflict = (if allow then reported else known)
                 in if status = STATE_SUCCESS \<and> sle_t = LEASE_LOCK
                    then Some (status, conflict, fl1\<lparr>deleg_list := deleg_list fl1 @ [found_entry]\<rparr>)
                    else if status = STATE_SUCCESS then
                      (case merge_lock_entry (alloc_ok env) (lock_list fl1) found_entry of
                         None \<Rightarrow> None
                       | Some (es, found_entry') \<Rightarrow>
                           let fl2 = fl1\<lparr>lock_list := es\<rparr>;
                               fl3 = (if es = [] then pin 1 fl2 else fl2)
                           in Some (status, conflict, grant_blocked_locks env (fl3\<lparr>lock_list := es @ [found_entry']\<rparr>)))
                    else if status = STATE_LOCK_BLOCKED then
                      (case block_data of
                         None \<Rightarrow> None
                       | Some bd \<Rightarrow>
                           let fl2 = (if lock_list fl1 = [] then pin 1 fl1 else fl1)
                           in Some (status, conflict,
                                fl2\<lparr>lock_list := lock_list fl1 @ [found_entry\<lparr>sle_block_data := Some bd, sle_blocked := blocking\<rparr>]\<rparr>))
                    else Some (status, conflict, fl1))"

definition state_lock ::
  "'f lock_env \<Rightarrow> 'f file_locks \<Rightarrow> state_owner \<Rightarrow> nat option \<Rightarrow> state_blocking_t \<Rightarrow> state_block_data option \<Rightarrow>
   fsal_lock_param \<Rightarrow> lock_type_t \<Rightarrow>
   (state_status \<times> (state_owner option \<times> fsal_lock_param) option \<times> 'f file_locks) option" where
  "state_lock env fl owner state blocking block_data lock sle_t =
     (if inc_pin_result env \<noteq> CACHE_INODE_SUCCESS
      then Some (cache_inode_status_to_state_status (inc_pin_result env), None, fl)
      else
        let fl1 = pin 1 fl;
            opened = open_result env (\<not> (lock_type lock = FSAL_LOCK_R \<and> reopen_method env)) (lock_reclaim lock)
        in if opened \<noteq> CACHE_INODE_SUCCESS then Some (cache_inode_status_to_state_status opened, None, pin (- 1) fl1)
           else case (if blocking \<noteq> STATE_NON_BLOCKING
                      then find_blocked (op_export env) owner blocking lock (lock_list fl1) else None) of
                  Some status \<Rightarrow> Some (status, None, pin (- 1) fl1)
                | None \<Rightarrow>
                    (case scan_locks (op_export env) owner lock False (lock_list fl1) of
                       Scan_Return status \<Rightarrow> Some (status, None, pin (- 1) fl1)
                     | Scan_Existing found_entry \<Rightarrow>
                         (if sle_blocked found_entry = STATE_GRANTING
                          then map_option (\<lambda>fl2. (STATE_SUCCESS, None, pin (- 1) fl2)) (grant_blocked_lock_immediate env fl1 (sle_id found_entry))
                          else Some (STATE_SUCCESS, None, pin (- 1) fl1))
                     | Scan_Done allow overlap conflict \<Rightarrow>
                         map_option (\<lambda>(status, c, fl2). (status, c, pin (- 1) fl2))
                           (place_lock env fl1 owner state blocking block_data lock sle_t allow overlap (copy_conflict conflict))))"

section \<open>Unlocking\<close>

text \<open>Taking a range out of the lock list; the pin reference of the caller is given back at the end.\<close>

definition unlock_range ::
  "'f lock_env \<Rightarrow> 'f file_locks \<Rightarrow> state_owner option \<Rightarrow> nat option \<Rightarrow> fsal_lock_param \<Rightarrow> lock_type_t \<Rightarrow>
   state_status \<times> 'f file_locks" where
  "unlock_range env fl1 owner state lock sle_t =
     (let fl2 = cancel_blocked_locks_range env fl1 owner state lock
      in case subtract_lock_from_list (alloc_ok env) owner state lock (lock_list fl2) of
           (status, _, es) \<Rightarrow>
             let fl3 = unpin_if_empty (fl2\<lparr>lock_list := es\<rparr>)
             in if status \<noteq> STATE_SUCCESS then (status, pin (- 1) fl3)
                else case do_lock_op env fl3 FSAL_OP_UNLOCK owner lock False sle_t of
                       (status', _, fl4) \<Rightarrow> (status', pin (- 1) (grant_blocked_locks env fl4)))"

text \<open>
  \<open>deleg\<close> says that the state given is that of a delegation.  A file of the wrong type keeps the pin
  reference, as in the source.
\<close>

definition state_unlock ::
  "'f lock_env \<Rightarrow> 'f file_locks \<Rightarrow> state_owner option \<Rightarrow> nat option \<Rightarrow> bool \<Rightarrow> fsal_lock_param \<Rightarrow> lock_type_t \<Rightarrow>
   state_status \<times> 'f file_locks" where
  "state_unlock env fl owner state deleg lock sle_t =
     (if inc_pin_result env \<noteq> CACHE_INODE_SUCCESS
      then (cache_inode_status_to_state_status (inc_pin_result env), fl)
      else
        let fl0 = pin 1 fl
        in if \<not> regular_file fl0 then (STATE_BAD_TYPE, fl0)
           else if state \<noteq> None \<and> deleg \<and> deleg_list fl0 = [] then (STATE_SUCCESS, pin (- 1) fl0)
           else if \<not> (state \<noteq> None \<and> deleg) \<and> lock_list fl0 = [] then (STATE_SUCCESS, pin (- 1) fl0)
           else
             let fl1 = (if state \<noteq> None \<and> deleg
                        then fl0\<lparr>deleg_list := snd (subtract_deleg_from_list owner (deleg_list fl0))\<rparr> else fl0)
             in unlock_range env fl1 owner state lock sle_t)"

definition state_cancel ::
  "'f lock_env \<Rightarrow> 'f file_locks \<Rightarrow> state_owner option \<Rightarrow> fsal_lock_param \<Rightarrow> state_status \<times> 'f file_locks" where
  "state_cancel env fl owner lock =
     (if \<not> regular_file fl then (STATE_BAD_TYPE, fl)
      else if inc_pin_result env \<noteq> CACHE_INODE_SUCCESS
      then (cache_inode_status_to_state_status (inc_pin_result env), fl)
      else
        let fl0 = pin 1 fl
        in if lock_list fl0 = [] then (STATE_SUCCESS, pin (- 1) fl0)
           else
             let fl1 = (case find (\<lambda>e. \<not> different_owners (sle_owner e) owner \<and> sle_blocked e \<noteq> STATE_NON_BLOCKING \<and>
                                     \<not> different_lock (sle_lock e) lock) (lock_list fl0) of
                          None \<Rightarrow> fl0
                        | Some found_entry \<Rightarrow> grant_blocked_locks env (cancel_blocked_lock env fl0 (sle_id found_entry)))
             in (STATE_SUCCESS, pin (- 1) (unpin_if_empty fl1)))"

definition state_lock_wipe :: "'f file_locks \<Rightarrow> 'f file_locks" where
  "state_lock_wipe fl = (if lock_list fl = [] then fl else pin (- 1) (free_list fl))"

section \<open>Invariant\<close>

text \<open>
  Every lock on the list is granted, has an owner and a range that does not wrap around; and a byte that
  an owner holds for writing is held by no other owner.
\<close>

definition settled :: "state_lock_entry list \<Rightarrow> bool" where
  "settled es \<longleftrightarrow> (\<forall>e \<in> set es. valid_entry e \<and> sle_blocked e = STATE_NON_BLOCKING \<and> sle_owner e \<noteq> None)"

definition exclusive :: "state_lock_entry list \<Rightarrow> bool" where
  "exclusive es \<longleftrightarrow> (\<forall>a b t. different_owners a b \<longrightarrow> held a FSAL_LOCK_W es \<inter> held b t es = {})"

lemma settled_simps [simp]:
  "settled []" "settled (e # es) \<longleftrightarrow> valid_entry e \<and> sle_blocked e = STATE_NON_BLOCKING \<and> sle_owner e \<noteq> None \<and> settled es"
  "settled (es @ fs) \<longleftrightarrow> settled es \<and> settled fs"
  by (auto simp: settled_def)

lemma exclusive_mono: "exclusive es \<Longrightarrow> (\<And>a t. held a t es' \<subseteq> held a t es) \<Longrightarrow> exclusive es'"
  unfolding exclusive_def by blast

lemma exclusive_Nil [simp]: "exclusive []"
  by (simp add: exclusive_def)

lemma held_rotate: "held a t (es @ [e]) = held a t (e # es)"
  by auto

lemma held_others:
  assumes "filter (\<lambda>e. \<not> granted own e) es' = filter (\<lambda>e. \<not> granted own e) es" "different_owners who own"
  shows "held who t es' = held who t es"
proof -
  have "granted who e \<Longrightarrow> \<not> granted own e" for e
    using assms(2) different_owners_trans [of "sle_owner e" who own] different_owners_sym by (auto simp: granted_def)
  then have "held who t xs = held who t (filter (\<lambda>e. \<not> granted own e) xs)" for xs
    by (auto simp: held_def)
  then show ?thesis using assms(1) by metis
qed

lemma held_same_owner: "\<not> different_owners a b \<Longrightarrow> held a t es = held b t es"
proof -
  assume "\<not> different_owners a b"
  then have "granted a e = granted b e" for e
    using different_owners_trans [of a b "sle_owner e"] different_owners_sym by (auto simp: granted_def)
  then show ?thesis by (simp add: held_def)
qed

lemma granted_owner: "granted own e \<Longrightarrow> sle_owner e \<noteq> None \<and> sle_blocked e = STATE_NON_BLOCKING"
  by (cases "sle_owner e") (auto simp: granted_def)

text \<open>Merging a lock that conflicts with nothing keeps the invariant.\<close>

lemma merge_keeps_invariant:
  assumes inv: "settled es" "exclusive es" and ids: "\<forall>e \<in> set es. sle_id e \<noteq> sle_id le"
    and le: "valid_entry le" "sle_blocked le = STATE_NON_BLOCKING" "sle_owner le = Some own"
    and free: "\<forall>e \<in> set es. \<not> conflicts (Some own) (sle_lock le) e"
    and m: "merge_lock_entry ok es le = Some (es', le')"
  shows "settled (es' @ [le'])" "exclusive (es' @ [le'])" "span (sle_lock le) \<subseteq> held (Some own) (lock_type (sle_lock le)) (es' @ [le'])"
    "different_owners who (Some own) \<Longrightarrow> held who t (es' @ [le']) = held who t es"
proof -
  have g: "granted (sle_owner le) le" using le by (simp add: granted_def)
  have v: "\<forall>e \<in> set es. granted (sle_owner le) e \<longrightarrow> valid_entry e" using inv(1) by (auto simp: settled_def)
  from merge_fresh_safe [OF ids g le(1) v, of ok, unfolded le(3)] m
  have safe: "merge_safe es le es' le'"
    and sub: "\<And>t. held (Some own) t (le' # es') \<subseteq> held (Some own) t es \<union> (if t = lock_type (sle_lock le) then span (sle_lock le) else {})"
    and val: "\<forall>e \<in> set (le' # es'). granted (Some own) e \<longrightarrow> valid_entry e"
    and f: "filter (\<lambda>e. \<not> granted (Some own) e) es' = filter (\<lambda>e. \<not> granted (Some own) e) es"
    by auto
  have le': "sle_owner le' = Some own" "sle_blocked le' = STATE_NON_BLOCKING" "lock_type (sle_lock le') = lock_type (sle_lock le)"
    "granted (Some own) le'" "span (sle_lock le) \<subseteq> span (sle_lock le')"
    using safe tag_eqD [of le' le] le by (auto simp: merge_safe_def Let_def granted_def)
  have mem: "granted (Some own) e \<or> e \<in> set es" if "e \<in> set es'" for e
  proof (cases "granted (Some own) e")
    case False
    then have "e \<in> set (filter (\<lambda>e. \<not> granted (Some own) e) es')" using that by simp
    then show ?thesis unfolding f by simp
  qed simp
  have "valid_entry e \<and> sle_blocked e = STATE_NON_BLOCKING \<and> sle_owner e \<noteq> None" if "e \<in> set es'" for e
    using mem [OF that] that val inv(1) granted_owner [of "Some own" e] by (auto simp: settled_def)
  then show "settled (es' @ [le'])" using le' val by (auto simp: settled_def)
  show oth: "held who t (es' @ [le']) = held who t es" if "different_owners who (Some own)" for who t
    using held_others [OF f that, of t] le'(1) that different_owners_sym by (simp add: granted_def)
  have clear: "held who t es \<inter> span (sle_lock le) = {}"
    if "different_owners who (Some own)" "t = FSAL_LOCK_W \<or> lock_type (sle_lock le) = FSAL_LOCK_W" for who t
  proof -
    have "span (sle_lock e) \<inter> span (sle_lock le) = {}" if e: "e \<in> set es" "granted who e" "lock_type (sle_lock e) = t" for e
    proof -
      have "different_owners (sle_owner e) (Some own)"
        using e(2) \<open>different_owners who (Some own)\<close> different_owners_trans [of "sle_owner e" who "Some own"] by (simp add: granted_def)
      then show ?thesis using free e \<open>t = FSAL_LOCK_W \<or> _\<close> by (auto simp: conflicts_def granted_def)
    qed
    then show ?thesis by (auto simp: held_def)
  qed
  show "span (sle_lock le) \<subseteq> held (Some own) (lock_type (sle_lock le)) (es' @ [le'])"
    using le' by auto
  show "exclusive (es' @ [le'])" unfolding exclusive_def
  proof (intro allI impI)
    fix a b t assume ab: "different_owners a b"
    consider (a) "\<not> different_owners a (Some own)" | (b) "\<not> different_owners b (Some own)"
      | (no) "different_owners a (Some own)" "different_owners b (Some own)" by blast
    then show "held a FSAL_LOCK_W (es' @ [le']) \<inter> held b t (es' @ [le']) = {}"
    proof cases
      case a
      then have b: "different_owners b (Some own)" using ab different_owners_trans different_owners_sym by blast
      have "held a FSAL_LOCK_W (es' @ [le']) \<subseteq> held a FSAL_LOCK_W es \<union> (if FSAL_LOCK_W = lock_type (sle_lock le) then span (sle_lock le) else {})"
        using sub [of FSAL_LOCK_W] unfolding held_rotate held_same_owner [OF a] .
      moreover have "held b t es \<inter> (if FSAL_LOCK_W = lock_type (sle_lock le) then span (sle_lock le) else {}) = {}"
        using clear [OF b, of t] by (cases "lock_type (sle_lock le)") auto
      moreover have "held a FSAL_LOCK_W es \<inter> held b t es = {}" using inv(2) ab by (simp add: exclusive_def)
      ultimately show ?thesis unfolding oth [OF b] by blast
    next
      case b
      then have a: "different_owners a (Some own)" using ab different_owners_trans different_owners_sym by blast
      have "held b t (es' @ [le']) \<subseteq> held b t es \<union> (if t = lock_type (sle_lock le) then span (sle_lock le) else {})"
        using sub [of t] unfolding held_rotate held_same_owner [OF b] .
      moreover have "held a FSAL_LOCK_W es \<inter> (if t = lock_type (sle_lock le) then span (sle_lock le) else {}) = {}"
        using clear [OF a, of FSAL_LOCK_W] by auto
      moreover have "held a FSAL_LOCK_W es \<inter> held b t es = {}" using inv(2) ab by (simp add: exclusive_def)
      ultimately show ?thesis unfolding oth [OF a] by blast
    next
      case no
      then show ?thesis using oth inv(2) ab by (simp add: exclusive_def)
    qed
  qed
qed

text \<open>Where every lock is granted there is nothing to grant and nothing to cancel.\<close>

lemma find_entry_settled: "settled (lock_list fl) \<Longrightarrow> find_entry i fl = Some e \<Longrightarrow> sle_blocked e = STATE_NON_BLOCKING \<and> e \<in> set (lock_list fl)"
  by (auto simp: find_entry_def find_Some_iff settled_def)

lemma grant_loop_settled: "settled (lock_list fl) \<Longrightarrow> grant_loop env ids fl = fl"
  by (induction ids) (auto split: option.splits dest: find_entry_settled)

lemma grant_blocked_locks_settled [simp]: "settled (lock_list fl) \<Longrightarrow> grant_blocked_locks env fl = fl"
  by (simp add: grant_blocked_locks_def grant_loop_settled)

lemma cancel_range_settled: "settled (lock_list fl) \<Longrightarrow> cancel_range_loop env owner state lock ids fl = fl"
  by (induction ids) (auto split: option.splits dest: find_entry_settled)

lemma cancel_blocked_locks_range_settled [simp]: "settled (lock_list fl) \<Longrightarrow> cancel_blocked_locks_range env fl owner state lock = fl"
  by (simp add: cancel_blocked_locks_range_def cancel_range_settled)

lemma pin_simps [simp]:
  "lock_list (pin d fl) = lock_list fl" "deleg_list (pin d fl) = deleg_list fl" "pin (- 1) (pin 1 fl) = fl" "pin 1 (pin (- 1) fl) = fl"
  "fsal_state (pin d fl) = fsal_state fl" "pin_ref (pin d fl) = pin_ref fl + d" "new_address (pin d fl) = new_address fl"
  "regular_file (pin d fl) = regular_file fl" "lock_list (unpin_if_empty fl) = lock_list fl"
  by (simp_all add: pin_def unpin_if_empty_def new_address_def)

lemma new_address_fresh: "e \<in> set (lock_list fl) \<Longrightarrow> sle_id e \<noteq> new_address fl"
proof -
  have "x \<in> set xs \<Longrightarrow> x < Suc (foldr max xs 0)" for x and xs :: "nat list" by (induction xs) auto
  from this [of "sle_id e"] show "e \<in> set (lock_list fl) \<Longrightarrow> sle_id e \<noteq> new_address fl"
    unfolding new_address_def by (metis (no_types, lifting) UnI1 imageI image_set less_irrefl set_append)
qed

text \<open>The calls to the file system leave everything else of the file alone.\<close>

lemma do_unlock_no_owner_frame:
  "do_unlock_no_owner env fl lock t = (status, fl') \<Longrightarrow> \<exists>f. fl' = fl\<lparr>fsal_state := f\<rparr>"
  by (auto simp: do_unlock_no_owner_def Let_def split: prod.splits if_splits intro: exI [of _ "fsal_state fl"])

lemma do_lock_op_frame: "do_lock_op env fl lop owner lock ov t = (status, c, fl') \<Longrightarrow> \<exists>f. fl' = fl\<lparr>fsal_state := f\<rparr>"
  using do_unlock_no_owner_frame
  by (auto simp: do_lock_op_def Let_def split: prod.splits if_splits intro: exI [of _ "fsal_state fl"])

lemma do_lock_op_lists:
  assumes "do_lock_op env fl lop owner lock ov t = (status, c, fl')"
  shows "lock_list fl' = lock_list fl" "deleg_list fl' = deleg_list fl" "pin_ref fl' = pin_ref fl" "regular_file fl' = regular_file fl"
  using do_lock_op_frame [OF assms] by auto

text \<open>Without asynchronous locks a request for a lock never waits in the file system.\<close>

lemma do_lock_op_not_blocked:
  assumes "\<not> lock_support_async_block env" "lop \<noteq> FSAL_OP_UNLOCK" "do_lock_op env fl lop owner lock ov t = (status, c, fl')"
  shows "status \<noteq> STATE_LOCK_BLOCKED"
  using assms by (auto simp: do_lock_op_def Let_def split: prod.splits if_splits)

text \<open>What the scan of the list has found out.\<close>

definition request_ok :: "fsal_lock_param \<Rightarrow> lock_type_t \<Rightarrow> bool" where
  "request_ok lock sle_t \<longleftrightarrow> valid_lock lock \<and> (sle_t = POSIX_LOCK \<longrightarrow> lock_sle_type lock = POSIX_LOCK)"

lemma scan_allows:
  assumes "scan_locks export owner lock ov es = Scan_Done True ov' c" "lock_sle_type lock = POSIX_LOCK" "e \<in> set es"
  shows "\<not> (overlaps (sle_lock e) lock \<and> (lock_type (sle_lock e) = FSAL_LOCK_W \<or> lock_type lock = FSAL_LOCK_W) \<and>
    different_owners (sle_owner e) (Some owner))"
  using assms by (induction es arbitrary: ov) (auto split: if_splits)

lemma scan_free:
  assumes "scan_locks export owner lock ov es = Scan_Done True ov' c" "request_ok lock POSIX_LOCK" "settled es"
  shows "\<forall>e \<in> set es. \<not> conflicts (Some owner) lock e"
proof
  fix e assume e: "e \<in> set es"
  have "overlaps (sle_lock e) lock \<longleftrightarrow> span (sle_lock e) \<inter> span lock \<noteq> {}"
    using assms(2,3) e overlaps_iff by (simp add: request_ok_def settled_def valid_entry_def)
  then show "\<not> conflicts (Some owner) lock e"
    using scan_allows [OF assms(1) _ e] assms(2) by (auto simp: conflicts_def request_ok_def)
qed

lemma scan_denies:
  assumes "scan_locks export owner lock ov es = Scan_Done False ov' c"
  shows "\<exists>e \<in> set es. c = Some e \<and> overlaps (sle_lock e) lock \<and> (lock_type (sle_lock e) = FSAL_LOCK_W \<or> lock_type lock = FSAL_LOCK_W) \<and>
    different_owners (sle_owner e) (Some owner)"
  using assms by (induction es arbitrary: ov) (auto split: if_splits)

lemma scan_existing:
  assumes "scan_locks export owner lock ov es = Scan_Existing e"
  shows "e \<in> set es \<and> lock_end lock \<le> lock_end (sle_lock e) \<and> lock_start (sle_lock e) \<le> lock_start lock \<and>
    lock_type (sle_lock e) = lock_type lock \<and> \<not> different_owners (sle_owner e) (Some owner) \<and>
    sle_blocked e \<in> {STATE_NON_BLOCKING, STATE_GRANTING}"
  using assms by (induction es arbitrary: ov) (auto split: if_splits)

lemma existing_covers:
  assumes "scan_locks export owner lock ov (lock_list fl) = Scan_Existing e" "settled (lock_list fl)"
  shows "span lock \<subseteq> held (Some owner) (lock_type lock) (lock_list fl)" "sle_blocked e \<noteq> STATE_GRANTING"
proof -
  note e = scan_existing [OF assms(1)]
  have nb: "sle_blocked e = STATE_NON_BLOCKING" using e assms(2) by (auto simp: settled_def)
  have "span lock \<subseteq> span (sle_lock e)" using e by (auto simp: span_def word_le_nat_alt)
  then show "span lock \<subseteq> held (Some owner) (lock_type lock) (lock_list fl)"
    using e nb by (auto simp: held_def granted_def)
  show "sle_blocked e \<noteq> STATE_GRANTING" using nb by simp
qed

definition lock_inv :: "'f file_locks \<Rightarrow> bool" where
  "lock_inv fl \<longleftrightarrow> settled (lock_list fl) \<and> exclusive (lock_list fl)"

text \<open>The effect of a request on the locks of the file.\<close>

definition lock_effect :: "'f file_locks \<Rightarrow> state_owner \<Rightarrow> fsal_lock_param \<Rightarrow> lock_type_t \<Rightarrow> state_status \<Rightarrow> 'f file_locks \<Rightarrow> bool" where
  "lock_effect fl owner lock sle_t status fl' \<longleftrightarrow> lock_inv fl' \<and>
     (if status = STATE_SUCCESS \<and> sle_t = POSIX_LOCK
      then span lock \<subseteq> held (Some owner) (lock_type lock) (lock_list fl') \<and>
           (\<forall>who t. different_owners who (Some owner) \<longrightarrow> held who t (lock_list fl') = held who t (lock_list fl))
      else lock_list fl' = lock_list fl)"

lemma place_lock_effect:
  assumes inv: "lock_inv fl" and env: "\<not> lock_support_async_block env" and req: "request_ok lock sle_t"
    and free: "allow \<longrightarrow> sle_t = POSIX_LOCK \<longrightarrow> (\<forall>e \<in> set (lock_list fl). \<not> conflicts (Some owner) lock e)"
  shows "\<exists>status c fl'. place_lock env fl owner state blocking bd lock sle_t allow ov known = Some (status, c, fl') \<and>
    lock_effect fl owner lock sle_t status fl' \<and> (\<not> allow \<longrightarrow> status = STATE_LOCK_CONFLICT \<and> c = known)"
proof -
  define le where "le = create_state_lock_entry (new_address fl) (op_export env) STATE_NON_BLOCKING owner state lock sle_t"
  have le: "sle_id le = new_address fl" "valid_entry le" "sle_blocked le = STATE_NON_BLOCKING" "sle_owner le = Some owner" "sle_lock le = lock"
    using req by (simp_all add: le_def create_state_lock_entry_def valid_entry_def request_ok_def)
  obtain st c fl1 where d: "do_lock_op env fl FSAL_OP_LOCK (Some owner) lock ov sle_t = (st, c, fl1)"
    by (cases "do_lock_op env fl FSAL_OP_LOCK (Some owner) lock ov sle_t")
  note fr = do_lock_op_lists [OF d] and nb = do_lock_op_not_blocked [OF env _ d]
  have kept: "lock_effect fl owner lock sle_t status fl'" if "status \<noteq> STATE_SUCCESS \<or> sle_t = LEASE_LOCK" "lock_list fl' = lock_list fl" for status fl'
    using that inv by (auto simp: lock_effect_def lock_inv_def)
  consider (deny) "\<not> allow" | (mem) "allow" "\<not> alloc_ok env le" | (fail) "allow" "alloc_ok env le" "st \<noteq> STATE_SUCCESS"
    | (lease) "allow" "alloc_ok env le" "st = STATE_SUCCESS" "sle_t = LEASE_LOCK"
    | (posix) "allow" "alloc_ok env le" "st = STATE_SUCCESS" "sle_t = POSIX_LOCK" by (cases sle_t) auto
  then show ?thesis
  proof cases
    case deny
    then show ?thesis using env kept [of STATE_LOCK_CONFLICT fl] by (simp add: place_lock_def)
  next
    case mem
    then show ?thesis using env kept [of STATE_MALLOC_ERROR fl] by (simp add: place_lock_def le_def)
  next
    case fail
    then show ?thesis using env d nb kept [of st fl1] fr(1) by (simp add: place_lock_def le_def Let_def)
  next
    case lease
    then show ?thesis using env d kept [of st "fl1\<lparr>deleg_list := deleg_list fl1 @ [le]\<rparr>"] fr(1)
      by (simp add: place_lock_def le_def Let_def)
  next
    case posix
    have ids: "\<forall>e \<in> set (lock_list fl1). sle_id e \<noteq> sle_id le" using new_address_fresh fr(1) le(1) by metis
    have inv1: "settled (lock_list fl1)" "exclusive (lock_list fl1)" using inv fr(1) by (simp_all add: lock_inv_def)
    have free1: "\<forall>e \<in> set (lock_list fl1). \<not> conflicts (Some owner) (sle_lock le) e" using free posix fr(1) le(5) by simp
    have "\<forall>e \<in> set (lock_list fl1). rel (sle_id le) (sle_owner le) e \<longrightarrow> valid_entry e" using inv1(1) by (auto simp: settled_def)
    then obtain es le' where m: "merge_lock_entry (alloc_ok env) (lock_list fl1) le = Some (es, le')"
      using merge_lock_entry_total [OF le(2)] by blast
    note mk = merge_keeps_invariant [OF inv1 ids le(2-4) free1 m, unfolded le(5)]
    define fl2 where "fl2 = (if es = [] then pin 1 (fl1\<lparr>lock_list := es\<rparr>) else fl1\<lparr>lock_list := es\<rparr>)\<lparr>lock_list := es @ [le']\<rparr>"
    have l2: "lock_list fl2 = es @ [le']" by (simp add: fl2_def)
    have "place_lock env fl owner state blocking bd lock sle_t allow ov known = Some (STATE_SUCCESS, c, grant_blocked_locks env fl2)"
      unfolding place_lock_def Let_def le_def [symmetric] using posix env d m by (simp add: fl2_def Let_def)
    moreover have "grant_blocked_locks env fl2 = fl2" using mk(1) l2 by simp
    ultimately show ?thesis using posix mk l2 fr(1) by (simp add: lock_effect_def lock_inv_def)
  qed
qed

lemma state_lock_effect:
  assumes inv: "lock_inv fl" and env: "\<not> lock_support_async_block env" and req: "request_ok lock sle_t"
  shows "\<exists>status c fl'. state_lock env fl owner state blocking bd lock sle_t = Some (status, c, fl') \<and>
    lock_effect fl owner lock sle_t status fl'"
proof -
  define opened where "opened = open_result env (\<not> (lock_type lock = FSAL_LOCK_R \<and> reopen_method env)) (lock_reclaim lock)"
  have same: "lock_effect fl owner lock sle_t r fl" if "r \<noteq> STATE_SUCCESS" for r
    using inv that by (simp add: lock_effect_def)
  have err: "cache_inode_status_to_state_status c = STATE_SUCCESS \<longleftrightarrow> c = CACHE_INODE_SUCCESS" for c by (rule from_cache_ok(1))
  have fb: "find_blocked x owner blocking lock es = Some r \<Longrightarrow> r \<noteq> STATE_SUCCESS" for x es r
    by (induction es) (auto split: if_splits)
  have sc: "scan_locks x owner lock ov es = Scan_Return r \<Longrightarrow> r \<noteq> STATE_SUCCESS" for x ov es r
    by (induction es arbitrary: ov) (auto split: if_splits)
  consider (pin) "inc_pin_result env \<noteq> CACHE_INODE_SUCCESS"
    | (op) "inc_pin_result env = CACHE_INODE_SUCCESS" "opened \<noteq> CACHE_INODE_SUCCESS"
    | (blocked) r where "inc_pin_result env = CACHE_INODE_SUCCESS" "opened = CACHE_INODE_SUCCESS"
        "(if blocking \<noteq> STATE_NON_BLOCKING then find_blocked (op_export env) owner blocking lock (lock_list fl) else None) = Some r"
    | (scan) "inc_pin_result env = CACHE_INODE_SUCCESS" "opened = CACHE_INODE_SUCCESS"
        "(if blocking \<noteq> STATE_NON_BLOCKING then find_blocked (op_export env) owner blocking lock (lock_list fl) else None) = None"
    by (cases "(if blocking \<noteq> STATE_NON_BLOCKING then find_blocked (op_export env) owner blocking lock (lock_list fl) else None)") auto
  then show ?thesis
  proof cases
    case pin
    then show ?thesis using same err by (simp add: state_lock_def)
  next
    case op
    then show ?thesis using same err by (simp add: state_lock_def Let_def opened_def)
  next
    case blocked
    then show ?thesis using same fb by (auto simp: state_lock_def Let_def opened_def split: if_splits)
  next
    case scan
    have eq: "state_lock env fl owner state blocking bd lock sle_t =
        (case scan_locks (op_export env) owner lock False (lock_list fl) of
           Scan_Return status \<Rightarrow> Some (status, None, fl)
         | Scan_Existing found_entry \<Rightarrow>
             (if sle_blocked found_entry = STATE_GRANTING
              then map_option (\<lambda>fl2. (STATE_SUCCESS, None, pin (- 1) fl2)) (grant_blocked_lock_immediate env (pin 1 fl) (sle_id found_entry))
              else Some (STATE_SUCCESS, None, fl))
         | Scan_Done allow overlap conflict \<Rightarrow>
             map_option (\<lambda>(status, c, fl2). (status, c, pin (- 1) fl2))
               (place_lock env (pin 1 fl) owner state blocking bd lock sle_t allow overlap (copy_conflict conflict)))"
      unfolding state_lock_def Let_def opened_def [symmetric] pin_simps(1,3) scan(3) using scan(1,2) by simp
    show ?thesis
    proof (cases "scan_locks (op_export env) owner lock False (lock_list fl)")
      case (Scan_Return r)
      then show ?thesis using same sc [OF Scan_Return] by (simp add: eq)
    next
      case (Scan_Existing e)
      then show ?thesis using inv existing_covers [OF Scan_Existing] by (simp add: eq lock_inv_def lock_effect_def)
    next
      case (Scan_Done allow ov c)
      have free: "allow \<longrightarrow> sle_t = POSIX_LOCK \<longrightarrow> (\<forall>e \<in> set (lock_list (pin 1 fl)). \<not> conflicts (Some owner) lock e)"
        using scan_free [of "op_export env" owner lock False "lock_list fl"] Scan_Done inv req by (auto simp: lock_inv_def)
      have inv1: "lock_inv (pin 1 fl)" using inv by (simp add: lock_inv_def)
      obtain st c' fl' where pl: "place_lock env (pin 1 fl) owner state blocking bd lock sle_t allow ov (copy_conflict c) = Some (st, c', fl')"
        and ef: "lock_effect (pin 1 fl) owner lock sle_t st fl'"
        using place_lock_effect [OF inv1 env req free] by blast
      have "state_lock env fl owner state blocking bd lock sle_t = Some (st, c', pin (- 1) fl')"
        using Scan_Done pl by (simp add: eq)
      then show ?thesis using ef by (auto simp: lock_effect_def lock_inv_def split: if_splits)
    qed
  qed
qed

text \<open>Unlocking.\<close>

lemma entry_fragments_tag:
  "subtract_lock_from_entry ok others e lock = Inr (Some fs) \<Longrightarrow> f \<in> set fs \<Longrightarrow> tag f = tag e"
  by (auto simp: subtract_lock_from_entry_def Let_def split: if_splits)

lemma subtract_loop_tags:
  assumes "subtract_loop ok owner state lock kept split removed todo = (status, kept', split', removed')"
    "e \<in> set (kept' @ split' @ removed')"
  shows "tag e \<in> tag ` set (kept @ split @ removed @ todo)"
  using assms
proof (induction todo arbitrary: kept split removed)
  case (Cons f todo)
  show ?case
  proof (cases "subtract_skips owner state f")
    case True
    then show ?thesis using Cons.IH [of "kept @ [f]" split removed] Cons.prems by auto
  next
    case False
    show ?thesis
    proof (cases "subtract_lock_from_entry ok (kept @ split @ removed @ todo) f lock")
      case (Inl err)
      then show ?thesis using False Cons.prems by auto
    next
      case (Inr r)
      show ?thesis
      proof (cases r)
        case None
        then show ?thesis using Inr False Cons.IH [of "kept @ [f]" split removed] Cons.prems by auto
      next
        case (Some frags)
        have "subtract_loop ok owner state lock kept (split @ frags) (removed @ [f]) todo = (status, kept', split', removed')"
          using Cons.prems(1) False Inr Some by simp
        from Cons.IH [OF this Cons.prems(2)] show ?thesis
          using entry_fragments_tag [OF Inr [unfolded Some]] by auto
      qed
    qed
  qed
qed auto

lemma subtract_tags:
  assumes "subtract_lock_from_list ok owner state lock es = (status, removed, es')" "e \<in> set es'"
  shows "tag e \<in> tag ` set es"
proof -
  obtain st kept split rem where l: "subtract_loop ok owner state lock [] [] [] es = (st, kept, split, rem)"
    by (cases "subtract_loop ok owner state lock [] [] [] es")
  have "e \<in> set (kept @ split @ rem)"
    using assms l by (auto simp: subtract_lock_from_list_def split: if_splits)
  then show ?thesis using subtract_loop_tags [OF l, of e] by simp
qed

lemma tag_owner: "tag e = tag f \<Longrightarrow> sle_owner e = sle_owner f \<and> sle_blocked e = sle_blocked f"
  using tag_eqD by blast

lemma subtract_keeps:
  assumes "settled es" "valid_lock lock" "subtract_lock_from_list ok owner state lock es = (status, removed, es')"
  shows "settled es'" "held a t es' \<subseteq> held a t es"
proof -
  have v: "\<forall>e \<in> set es. valid_entry e" using assms(1) by (simp add: settled_def)
  have same: "set es' = set es" if "status \<noteq> STATE_SUCCESS"
    using subtract_lock_from_list_fails [OF assms(3) that] by (metis set_mset_mset)
  have "\<forall>e \<in> set es'. valid_entry e"
    using subtract_lock_from_list_spec(1) [OF v assms(2) _ assms(3)] same v by (cases "status = STATE_SUCCESS") auto
  moreover have "sle_blocked e = STATE_NON_BLOCKING \<and> sle_owner e \<noteq> None" if e: "e \<in> set es'" for e
  proof -
    obtain f where "f \<in> set es" "tag e = tag f" using subtract_tags [OF assms(3) e] by auto
    then show ?thesis using assms(1) tag_owner by (metis settled_def)
  qed
  ultimately show "settled es'" by (simp add: settled_def)
  have "bytes_of es' g \<subseteq> bytes_of es g" for g
    using subtract_lock_from_list_spec(2) [OF v assms(2) _ assms(3), of g] same
    by (cases "status = STATE_SUCCESS") (auto simp: bytes_of_def)
  then show "held a t es' \<subseteq> held a t es" unfolding held_bytes_of by blast
qed

lemma unlock_range_keeps:
  assumes inv: "lock_inv fl" and v: "valid_lock lock" and u: "unlock_range env fl owner state lock sle_t = (status, fl')"
  shows "lock_inv fl'" "\<exists>st rem. subtract_lock_from_list (alloc_ok env) owner state lock (lock_list fl) = (st, rem, lock_list fl') \<and>
    (st \<noteq> STATE_SUCCESS \<longrightarrow> status = st)"
proof -
  obtain st rem es where sub: "subtract_lock_from_list (alloc_ok env) owner state lock (lock_list fl) = (st, rem, es)"
    by (cases "subtract_lock_from_list (alloc_ok env) owner state lock (lock_list fl)")
  have sfl: "settled (lock_list fl)" using inv by (simp add: lock_inv_def)
  have k: "settled es" "exclusive es"
    using subtract_keeps [OF sfl v sub] inv exclusive_mono by (auto simp: lock_inv_def)
  define fl3 where "fl3 = unpin_if_empty (fl\<lparr>lock_list := es\<rparr>)"
  obtain st' c fl4 where d: "do_lock_op env fl3 FSAL_OP_UNLOCK owner lock False sle_t = (st', c, fl4)"
    by (cases "do_lock_op env fl3 FSAL_OP_UNLOCK owner lock False sle_t")
  have l4: "lock_list fl4 = es" using do_lock_op_lists(1) [OF d] by (simp add: fl3_def)
  have "(st \<noteq> STATE_SUCCESS \<longrightarrow> (status, fl') = (st, pin (- 1) fl3)) \<and>
      (st = STATE_SUCCESS \<longrightarrow> (status, fl') = (st', pin (- 1) (grant_blocked_locks env fl4)))"
    using u sub d sfl by (auto simp: unlock_range_def Let_def fl3_def)
  then have "lock_list fl' = es" "st \<noteq> STATE_SUCCESS \<longrightarrow> status = st"
    using k l4 by (auto simp: fl3_def)
  then show "lock_inv fl'" "\<exists>st rem. subtract_lock_from_list (alloc_ok env) owner state lock (lock_list fl) = (st, rem, lock_list fl') \<and>
    (st \<noteq> STATE_SUCCESS \<longrightarrow> status = st)"
    using k sub by (auto simp: lock_inv_def)
qed

lemma unlock_keeps:
  assumes inv: "lock_inv fl" and v: "valid_lock lock" and u: "state_unlock env fl owner state deleg lock sle_t = (status, fl')"
  shows "lock_inv fl'"
proof -
  have i: "lock_inv (pin 1 fl)" "lock_inv ((pin 1 fl)\<lparr>deleg_list := d\<rparr>)" for d using inv by (simp_all add: lock_inv_def)
  show ?thesis using u inv unlock_range_keeps(1) [OF i(1) v] unlock_range_keeps(1) [OF i(2) v]
    by (auto simp: state_unlock_def Let_def lock_inv_def split: if_splits)
qed

text \<open>The other operations leave the locks of a settled list as they are.\<close>

lemma map_keeps:
  assumes "\<And>e. sle_owner (f e) = sle_owner e \<and> sle_blocked (f e) = sle_blocked e \<and> sle_lock (f e) = sle_lock e"
  shows "held a t (map f es) = held a t es" "settled (map f es) = settled es"
  using assms by (induction es) (simp_all add: granted_def valid_entry_def)

lemma change_entry_keeps:
  assumes "\<And>e. sle_owner (f e) = sle_owner e \<and> sle_blocked (f e) = sle_blocked e \<and> sle_lock (f e) = sle_lock e"
  shows "lock_inv (change_entry i f fl) = lock_inv fl"
  unfolding lock_inv_def change_entry_def exclusive_def using assms by (simp add: map_keeps)

lemma free_cookie_keeps [simp]: "lock_inv (free_cookie c unblock fl) = lock_inv fl"
  using change_entry_keeps [of "set_cookie None" "snd c" fl]
  by (cases c) (auto simp: free_cookie_def set_cookie_def lock_inv_def change_entry_def)

lemma lock_inv_frame [simp]:
  "lock_inv (fl\<lparr>fsal_state := f\<rparr>) = lock_inv fl" "lock_inv (fl\<lparr>lock_cookies := cs\<rparr>) = lock_inv fl"
  "lock_inv (pin d fl) = lock_inv fl" "lock_inv (unpin_if_empty fl) = lock_inv fl"
  by (simp_all add: lock_inv_def)

lemma do_lock_op_keeps: "do_lock_op env fl lop owner lock ov t = (status, c, fl') \<Longrightarrow> lock_inv fl' = lock_inv fl"
  by (auto dest: do_lock_op_frame)

lemma test_keeps: "state_test env fl owner lock = (status, c, fl') \<Longrightarrow> lock_inv fl \<Longrightarrow> lock_inv fl'"
  by (auto simp: state_test_def Let_def dest: do_lock_op_keeps split: if_splits option.splits prod.splits)

lemma add_cookie_keeps: "state_add_grant_cookie env fl cookie i = (r, fl') \<Longrightarrow> lock_inv fl \<Longrightarrow> lock_inv fl'"
  using change_entry_keeps [of "set_cookie (Some cookie)" i "fl\<lparr>lock_cookies := (cookie, i) # lock_cookies fl\<rparr>"]
  by (auto simp: state_add_grant_cookie_def set_cookie_def Let_def dest: do_lock_op_keeps
      split: option.splits if_splits prod.splits state_grant_type_t.splits)

lemma complete_keeps:
  assumes "lock_inv fl"
  shows "state_complete_grant env fl c = Some (unpin_if_empty (free_cookie c True fl))"
  using assms by (auto simp: state_complete_grant_def lock_inv_def dest: find_entry_settled split: option.splits)

lemma release_keeps:
  assumes "lock_inv fl"
  shows "state_release_grant env fl c = (STATE_SUCCESS, unpin_if_empty (free_cookie c True fl))"
proof -
  have "settled (lock_list (free_cookie c True fl))" using assms free_cookie_keeps [of c True fl] by (simp add: lock_inv_def)
  then show ?thesis using assms
    by (cases "find_entry (snd c) fl") (auto simp: state_release_grant_def Let_def lock_inv_def dest: find_entry_settled)
qed

lemma cancel_keeps: "state_cancel env fl owner lock = (status, fl') \<Longrightarrow> lock_inv fl \<Longrightarrow> lock_inv fl'"
  by (auto simp: state_cancel_def Let_def lock_inv_def settled_def find_Some_iff split: if_splits option.splits)

lemma wipe_keeps: "lock_inv fl \<Longrightarrow> lock_inv (state_lock_wipe fl)"
  by (simp add: state_lock_wipe_def free_list_def lock_inv_def)

section \<open>All sequences of operations\<close>

text \<open>
  What can happen to the locks of a file on a file system without asynchronous locks: any operation with
  any arguments that describe a range, with any outcome of pinning, opening, allocating and of the calls
  to the file system; and the file system may change on its own.  The operations that only such a file
  system triggers by an upcall are left out.
\<close>

inductive lock_step :: "'f file_locks \<Rightarrow> 'f file_locks \<Rightarrow> bool" where
  lock_step_lock: "\<not> lock_support_async_block env \<Longrightarrow> request_ok lock sle_t \<Longrightarrow>
    state_lock env fl owner state blocking bd lock sle_t = Some (status, c, fl') \<Longrightarrow> lock_step fl fl'"
| lock_step_unlock: "\<not> lock_support_async_block env \<Longrightarrow> valid_lock lock \<Longrightarrow>
    state_unlock env fl who state deleg lock sle_t = (status, fl') \<Longrightarrow> lock_step fl fl'"
| lock_step_test: "\<not> lock_support_async_block env \<Longrightarrow> state_test env fl owner lock = (status, c, fl') \<Longrightarrow> lock_step fl fl'"
| lock_step_cancel: "\<not> lock_support_async_block env \<Longrightarrow> state_cancel env fl who lock = (status, fl') \<Longrightarrow> lock_step fl fl'"
| lock_step_add_cookie: "\<not> lock_support_async_block env \<Longrightarrow> state_add_grant_cookie env fl cookie i = (r, fl') \<Longrightarrow> lock_step fl fl'"
| lock_step_complete: "\<not> lock_support_async_block env \<Longrightarrow> state_complete_grant env fl ce = Some fl' \<Longrightarrow> lock_step fl fl'"
| lock_step_release: "\<not> lock_support_async_block env \<Longrightarrow> state_release_grant env fl ce = (status, fl') \<Longrightarrow> lock_step fl fl'"
| lock_step_wipe: "lock_step fl (state_lock_wipe fl)"
| lock_step_fsal: "lock_step fl (fl\<lparr>fsal_state := f\<rparr>)"

lemma lock_step_keeps: "lock_step fl fl' \<Longrightarrow> lock_inv fl \<Longrightarrow> lock_inv fl'"
proof (induction rule: lock_step.induct)
  case (lock_step_lock env lock sle_t fl owner state blocking bd status c fl')
  then show ?case using state_lock_effect [of fl env lock sle_t owner state blocking bd] by (auto simp: lock_effect_def)
qed (auto intro: unlock_keeps test_keeps cancel_keeps add_cookie_keeps wipe_keeps simp: complete_keeps release_keeps)

lemma lock_steps_keep: "lock_step\<^sup>*\<^sup>* fl fl' \<Longrightarrow> lock_inv fl \<Longrightarrow> lock_inv fl'"
  by (induction rule: rtranclp_induct) (auto intro: lock_step_keeps)

lemma lock_inv_init: "lock_list fl = [] \<Longrightarrow> lock_inv fl"
  by (simp add: lock_inv_def)

section \<open>Unlocking without owners\<close>

text \<open>All bytes that entries cover.\<close>

definition covered :: "state_lock_entry list \<Rightarrow> nat set" where
  "covered es = (\<Union>e \<in> set es. span (sle_lock e))"

lemma covered_bytes_of: "covered es = (\<Union>g. bytes_of es g)"
  by (auto simp: covered_def bytes_of_def)

lemma subtract_covered:
  assumes v: "\<forall>e \<in> set es. valid_entry e" "valid_lock lock" and nb: "\<forall>e \<in> set es. sle_blocked e = STATE_NON_BLOCKING"
    and ok: "\<forall>e. ok e" and r: "subtract_lock_from_list ok None None lock es = (status, removed, es')"
  shows "status = STATE_SUCCESS" "\<forall>e \<in> set es'. valid_entry e \<and> sle_blocked e = STATE_NON_BLOCKING" "covered es' = covered es - span lock"
proof -
  show st: "status = STATE_SUCCESS" by (rule subtract_lock_from_list_succeeds [OF ok r])
  have "sle_blocked e = STATE_NON_BLOCKING" if "e \<in> set es'" for e
    using subtract_tags [OF r that] nb tag_owner by (metis imageE)
  then show "\<forall>e \<in> set es'. valid_entry e \<and> sle_blocked e = STATE_NON_BLOCKING"
    using subtract_lock_from_list_spec(1) [OF v st r] by blast
  have "bytes_of es' g = bytes_of es g - span lock" for g
  proof (cases "sle_blocked g = STATE_NON_BLOCKING")
    case True
    then show ?thesis using subtract_lock_from_list_spec(2) [OF v st r, of g] by (simp add: subtract_skips_def)
  next
    case False
    then have "bytes_of es g = {}" using nb by (auto simp: bytes_of_def)
    then show ?thesis using subtract_lock_from_list_spec(2) [OF v st r, of g] by (auto split: if_splits)
  qed
  then show "covered es' = covered es - span lock" unfolding covered_bytes_of by auto
qed

lemma subtract_list_covered:
  assumes "\<forall>e \<in> set target. valid_entry e \<and> sle_blocked e = STATE_NON_BLOCKING" "\<forall>e \<in> set source. valid_entry e" "\<forall>e. ok e"
    "subtract_list_from_list ok target source = (status, target')"
  shows "status = STATE_SUCCESS \<and> (\<forall>e \<in> set target'. valid_entry e) \<and> covered target' = covered target - covered source"
  using assms
proof (induction source arbitrary: target)
  case (Cons e source)
  obtain st rem t1 where r: "subtract_lock_from_list ok None None (sle_lock e) target = (st, rem, t1)"
    by (cases "subtract_lock_from_list ok None None (sle_lock e) target")
  have v: "valid_lock (sle_lock e)" "\<forall>e \<in> set target. valid_entry e" "\<forall>e \<in> set target. sle_blocked e = STATE_NON_BLOCKING"
    using Cons.prems(1,2) by (simp_all add: valid_entry_def)
  note one = subtract_covered [OF v(2,1,3) Cons.prems(3) r]
  have "status = STATE_SUCCESS \<and> (\<forall>e \<in> set target'. valid_entry e) \<and> covered target' = covered t1 - covered source"
    using Cons.IH [OF one(2) _ Cons.prems(3)] Cons.prems(2,4) r one(1) by simp
  then show ?case using one(3) by (auto simp: covered_def)
qed (auto simp: covered_def)

lemma unlock_each_all:
  assumes "\<And>fs l. valid_lock l \<Longrightarrow> \<exists>fst c. lock_op env fs None FSAL_OP_UNLOCK l = (fst, c, fs - span l) \<and> major fst = ERR_FSAL_NO_ERROR"
    "\<forall>e \<in> set es. valid_entry e"
  shows "unlock_each env es status fs = (status, fs - covered es)"
  using assms(2)
proof (induction es arbitrary: fs)
  case (Cons e es)
  obtain f c where "lock_op env fs None FSAL_OP_UNLOCK (sle_lock e) = (f, c, fs - span (sle_lock e))" "major f = ERR_FSAL_NO_ERROR"
    using assms(1) [where l = "sle_lock e" and fs = fs] Cons.prems by (auto simp: valid_entry_def)
  moreover from this(2) have "state_error_convert f = STATE_SUCCESS" by (simp add: from_fsal_ok)
  ultimately show ?case using Cons by (auto simp: covered_def)
qed (simp add: covered_def)

text \<open>
  A file without locks on a file system that keeps one set of locked bytes, for the instances of the
  properties below.
\<close>

definition byte_set_op :: "nat set \<Rightarrow> state_owner option \<Rightarrow> fsal_lock_op_t \<Rightarrow> fsal_lock_param \<Rightarrow> fsal_status \<times> fsal_lock_param \<times> nat set" where
  "byte_set_op fs owner lop l =
     (fsalstat ERR_FSAL_NO_ERROR 0, zero_lock,
      if lop = FSAL_OP_UNLOCK then fs - span l else if lop = FSAL_OP_LOCK \<or> lop = FSAL_OP_LOCKB then fs \<union> span l else fs)"

definition byte_set_env :: "bool \<Rightarrow> bool \<Rightarrow> (nat set) lock_env" where
  "byte_set_env owners async =
     \<lparr>lock_support = True, lock_support_owner = owners, lock_support_async_block = async, reopen_method = False,
      lock_op = byte_set_op, granted_callback = (\<lambda>fl i. (STATE_SUCCESS, fl)), alloc_ok = (\<lambda>e. True), cookie_alloc_ok = True,
      inc_pin_result = CACHE_INODE_SUCCESS, open_result = (\<lambda>w r. CACHE_INODE_SUCCESS), op_export = 1\<rparr>"

definition file_with :: "state_lock_entry list \<Rightarrow> int \<Rightarrow> nat set \<Rightarrow> (nat set) file_locks" where
  "file_with es n fs =
     \<lparr>regular_file = True, lock_list = es, deleg_list = [], pin_ref = n, fsal_state = fs, lock_cookies = [], freed_cookies = []\<rparr>"

abbreviation byte_range :: "fsal_lock_t \<Rightarrow> u64 \<Rightarrow> u64 \<Rightarrow> fsal_lock_param" where
  "byte_range t a n \<equiv> \<lparr>lock_sle_type = POSIX_LOCK, lock_type = t, lock_start = a, lock_length = n, lock_reclaim = False\<rparr>"

lemmas run_defs = state_lock_def place_lock_def do_lock_op_def byte_set_env_def file_with_def byte_set_op_def state_error_convert_def
  fsalstat_def pin_def new_address_def create_state_lock_entry_def grant_blocked_locks_def find_entry_def

lemma first_lock:
  "state_lock (byte_set_env owners False) (file_with [] n fs) own (Some 5) STATE_NON_BLOCKING None (byte_range t a k) POSIX_LOCK =
     Some (STATE_SUCCESS, None, file_with [some_lock 1 own t a k] (n + 1) (fs \<union> span (byte_range t a k)))"
  by (simp add: run_defs merge_lock_entry_def some_lock_def)

lemma merge_single:
  "\<not> skip_merge e le \<Longrightarrow> \<not> needs_trim e le \<Longrightarrow> merge_lock_entry ok [e] le = Some ([], expand_over e le)"
  "skip_merge e le \<Longrightarrow> sle_id e \<noteq> sle_id le \<Longrightarrow> merge_lock_entry ok [e] le = Some ([e], le)"
  by (simp_all add: merge_lock_entry_def numeral_2_eq_2)

lemma first_steps:
  assumes "request_ok (byte_range t a k) POSIX_LOCK"
  shows "lock_step\<^sup>*\<^sup>* (file_with [] 0 {}) (file_with [some_lock 1 own t a k] 1 (span (byte_range t a k)))"
  using first_lock [of False 0 "{}" own t a k] assms
  by (intro r_into_rtranclp lock_step_lock [where env = "byte_set_env False False" and lock = "byte_range t a k" and sle_t = POSIX_LOCK])
    (auto simp: byte_set_env_def)

section \<open>Properties\<close>

text \<open>
  C1: on a file system without asynchronous locks no sequence of operations ever lets two owners
  hold conflicting locks: a byte that one owner holds for writing no other owner holds at all.  Also, no
  request ever waits: every lock on the list is granted.
\<close>

theorem lock_exclusive:
  assumes "lock_list init = []" "lock_step\<^sup>*\<^sup>* init fl"
  shows "(\<forall>a b t. different_owners a b \<longrightarrow> held a FSAL_LOCK_W (lock_list fl) \<inter> held b t (lock_list fl) = {}) \<and>
    (\<forall>e \<in> set (lock_list fl). sle_blocked e = STATE_NON_BLOCKING)"
  using lock_steps_keep [OF assms(2) lock_inv_init [OF assms(1)]] by (simp add: lock_inv_def exclusive_def settled_def)

theorem lock_exclusive_witness:
  "lock_step\<^sup>*\<^sup>* (file_with [] 0 {}) (file_with [some_lock 1 alice FSAL_LOCK_W 0 10] 1 {0..9}) \<and>
   held (Some alice) FSAL_LOCK_W [some_lock 1 alice FSAL_LOCK_W 0 10] = {0..9} \<and>
   held (Some bob) FSAL_LOCK_R [some_lock 1 alice FSAL_LOCK_W 0 10] \<inter> {0..9} = {}"
proof -
  have step: "lock_step\<^sup>*\<^sup>* (file_with [] 0 {}) (file_with [some_lock 1 alice FSAL_LOCK_W 0 10] 1 {0..9})"
    using first_lock [of False 0 "{}" alice FSAL_LOCK_W 0 10]
    by (intro r_into_rtranclp lock_step_lock [where env = "byte_set_env False False" and lock = "byte_range FSAL_LOCK_W 0 10" and sle_t = POSIX_LOCK])
      (auto simp: byte_set_env_def request_ok_def valid_lock_def span_def lock_end_def)
  have "lock_list (file_with [] 0 {}) = []" by (simp add: file_with_def)
  from lock_exclusive [OF this step]
  have "held (Some alice) FSAL_LOCK_W [some_lock 1 alice FSAL_LOCK_W 0 10] \<inter> held (Some bob) FSAL_LOCK_R [some_lock 1 alice FSAL_LOCK_W 0 10] = {}"
    by (simp add: file_with_def)
  then show ?thesis using step by auto
qed

text \<open>
  C19: on a file system without asynchronous locks, after any sequence of operations, a request for a lock on a valid range
  returns.  If it reports success for a byte-range lock, the owner holds the whole range with the type asked for, and
  what others hold is unchanged; otherwise, and for a delegation, the lock list is unchanged.
\<close>

theorem state_lock_outcome:
  assumes "lock_list init = []" "lock_step\<^sup>*\<^sup>* init fl" "\<not> lock_support_async_block env" "request_ok lock sle_t"
  shows "\<exists>status c fl'. state_lock env fl owner state blocking bd lock sle_t = Some (status, c, fl') \<and>
    (if status = STATE_SUCCESS \<and> sle_t = POSIX_LOCK
     then span lock \<subseteq> held (Some owner) (lock_type lock) (lock_list fl') \<and>
          (\<forall>who t. different_owners who (Some owner) \<longrightarrow> held who t (lock_list fl') = held who t (lock_list fl))
     else lock_list fl' = lock_list fl)"
  using state_lock_effect [OF lock_steps_keep [OF assms(2) lock_inv_init [OF assms(1)]] assms(3,4), of owner state blocking bd]
  unfolding lock_effect_def by blast

theorem state_lock_outcome_witness:
  "\<exists>fl'. state_lock (byte_set_env False False) (file_with [some_lock 1 bob FSAL_LOCK_R 0 4] 1 {0..3}) alice None STATE_NON_BLOCKING None
       (byte_range FSAL_LOCK_W 5 3) POSIX_LOCK = Some (STATE_SUCCESS, None, fl') \<and>
     {5..7} \<subseteq> held (Some alice) FSAL_LOCK_W (lock_list fl') \<and> held (Some bob) FSAL_LOCK_R (lock_list fl') = {0..3}"
proof -
  let ?fl = "file_with [some_lock 1 bob FSAL_LOCK_R 0 4] 1 {0..3}"
  have s: "span (byte_range FSAL_LOCK_W 5 3) = {5..7}" by (auto simp: span_def lock_end_def)
  have r: "request_ok (byte_range FSAL_LOCK_W 5 3) POSIX_LOCK" "\<not> lock_support_async_block (byte_set_env False False)"
    by (auto simp: byte_set_env_def request_ok_def valid_lock_def)
  have "\<exists>fl'. state_lock (byte_set_env False False) ?fl alice None STATE_NON_BLOCKING None (byte_range FSAL_LOCK_W 5 3) POSIX_LOCK =
      Some (STATE_SUCCESS, None, fl')"
    by (simp add: run_defs merge_single some_lock_def lock_end_def skip_merge_def overlaps_def)
  moreover have "held (Some bob) FSAL_LOCK_R (lock_list ?fl) = {0..3}" by (auto simp: file_with_def)
  moreover have "lock_list (file_with [] 0 {}) = []" by (simp add: file_with_def)
  moreover have "lock_step\<^sup>*\<^sup>* (file_with [] 0 {}) ?fl"
    using first_steps [of FSAL_LOCK_R 0 4 bob] by (simp add: request_ok_def valid_lock_def span_def lock_end_def)
  ultimately show ?thesis
    using state_lock_outcome [where owner = alice and state = None and blocking = STATE_NON_BLOCKING and bd = None, OF _ _ r(2,1)] s
    by fastforce
qed

text \<open>
  C20: after any sequence of operations on a file system without asynchronous locks, an unlock of a valid range of a regular file
  that names no state, once the file is pinned, either reports an error and keeps every entry on the list, or takes exactly the range
  from the owner's locks of every type and leaves the locks of others alone.  So a success means that the range is released.
\<close>

theorem state_unlock_outcome:
  assumes "lock_list init = []" "lock_step\<^sup>*\<^sup>* init fl" "valid_lock lock"
    "inc_pin_result env = CACHE_INODE_SUCCESS" "regular_file fl" "state_unlock env fl (Some own) None deleg lock sle_t = (status, fl')"
  shows "(\<forall>who t. held who t (lock_list fl') =
      (if different_owners who (Some own) then held who t (lock_list fl) else held who t (lock_list fl) - span lock)) \<or>
    status \<noteq> STATE_SUCCESS \<and> mset (lock_list fl') = mset (lock_list fl)"
proof (cases "lock_list fl = []")
  case True
  then show ?thesis using assms(4-6) by (auto simp: state_unlock_def Let_def)
next
  case False
  have inv: "lock_inv (pin 1 fl)" using lock_steps_keep [OF assms(2) lock_inv_init [OF assms(1)]] by simp
  then have v: "\<forall>e \<in> set (lock_list fl). valid_entry e" by (auto simp: lock_inv_def settled_def)
  have "unlock_range env (pin 1 fl) (Some own) None lock sle_t = (status, fl')"
    using assms(4-6) False by (simp add: state_unlock_def Let_def)
  from unlock_range_keeps(2) [OF inv assms(3) this] obtain st rem
    where sub: "subtract_lock_from_list (alloc_ok env) (Some own) None lock (lock_list fl) = (st, rem, lock_list fl')"
      and st: "st \<noteq> STATE_SUCCESS \<longrightarrow> status = st" by auto
  show ?thesis
    using subtract_held [OF v assms(3) _ sub] subtract_lock_from_list_fails [OF sub] st by (cases "st = STATE_SUCCESS") auto
qed

theorem state_unlock_outcome_witness:
  "\<exists>fl'. state_unlock (byte_set_env True False) (file_with [some_lock 1 alice FSAL_LOCK_W 0 10] 1 {0..9}) (Some alice) None False
       (byte_range FSAL_LOCK_R 3 2) POSIX_LOCK = (STATE_SUCCESS, fl') \<and>
     held (Some alice) FSAL_LOCK_W (lock_list fl') = {0..2} \<union> {5..9}"
proof -
  let ?fl = "file_with [some_lock 1 alice FSAL_LOCK_W 0 10] 1 {0..9}"
  obtain st fl' where u: "state_unlock (byte_set_env True False) ?fl (Some alice) None False (byte_range FSAL_LOCK_R 3 2) POSIX_LOCK = (st, fl')"
    by (cases "state_unlock (byte_set_env True False) ?fl (Some alice) None False (byte_range FSAL_LOCK_R 3 2) POSIX_LOCK")
  have st: "st = STATE_SUCCESS"
    using u subtract_lock_from_list_succeeds [of "\<lambda>e. True" "Some alice" None "byte_range FSAL_LOCK_R 3 2"]
    by (auto simp: state_unlock_def unlock_range_def do_lock_op_def byte_set_env_def file_with_def byte_set_op_def state_error_convert_def
        fsalstat_def Let_def split: prod.splits if_splits)
  have "span (byte_range FSAL_LOCK_R 3 2) = {3..4}" by (auto simp: span_def lock_end_def)
  moreover have "lock_list (file_with [] 0 {}) = []" "regular_file ?fl" "inc_pin_result (byte_set_env True False) = CACHE_INODE_SUCCESS"
    by (simp_all add: file_with_def byte_set_env_def)
  moreover have "lock_step\<^sup>*\<^sup>* (file_with [] 0 {}) ?fl"
    using first_steps [of FSAL_LOCK_W 0 10 alice] by (simp add: request_ok_def valid_lock_def span_def lock_end_def)
  moreover have "held (Some alice) FSAL_LOCK_W (lock_list ?fl) = {0..9}" by (auto simp: file_with_def)
  ultimately have "held (Some alice) FSAL_LOCK_W (lock_list fl') = {0..9} - {3..4}"
    using state_unlock_outcome [where init = "file_with [] 0 {}", OF _ _ _ _ _ u] st by (simp add: valid_lock_def)
  moreover have "{0..9} - {3..4} = {0..2} \<union> {5..9::nat}" by auto
  ultimately show ?thesis using u st by auto
qed

text \<open>
  C22: on a file system that knows no lock owners and keeps one set of locked bytes, an unlock gives back
  exactly the bytes of the range that no entry of the lock list covers: nothing that another owner, or
  another lock of the same owner, still needs is unlocked.  Entries that only wait count as well.
\<close>

theorem do_unlock_no_owner_exact:
  fixes env :: "(nat set) lock_env"
  assumes "\<forall>fs l. valid_lock l \<longrightarrow> (\<exists>fst c. lock_op env fs None FSAL_OP_UNLOCK l = (fst, c, fs - span l) \<and> major fst = ERR_FSAL_NO_ERROR)"
    and "\<forall>e. alloc_ok env e" "valid_lock lock" "\<forall>e \<in> set (lock_list fl). valid_entry e"
  shows "do_unlock_no_owner env fl lock sle_t =
    (STATE_SUCCESS, fl\<lparr>fsal_state := fsal_state fl - (span lock - (\<Union>e \<in> set (lock_list fl). span (sle_lock e)))\<rparr>)"
proof -
  define u where "u = create_state_lock_entry (new_address fl) (op_export env) STATE_NON_BLOCKING unknown_owner None lock sle_t"
  obtain st us where s: "subtract_list_from_list (alloc_ok env) [u] (lock_list fl) = (st, us)"
    by (cases "subtract_list_from_list (alloc_ok env) [u] (lock_list fl)")
  have "\<forall>e \<in> set [u]. valid_entry e \<and> sle_blocked e = STATE_NON_BLOCKING"
    using assms(3) by (simp add: u_def create_state_lock_entry_def valid_entry_def)
  from subtract_list_covered [OF this assms(4,2) s]
  have "st = STATE_SUCCESS" "\<forall>e \<in> set us. valid_entry e" "covered us = covered [u] - covered (lock_list fl)" by auto
  moreover have "covered [u] = span lock" by (simp add: covered_def u_def create_state_lock_entry_def)
  ultimately show ?thesis using unlock_each_all [of env us STATE_SUCCESS "fsal_state fl"] assms(1,2) s
    by (simp add: do_unlock_no_owner_def Let_def u_def [symmetric] covered_def)
qed

theorem do_unlock_no_owner_exact_witness:
  "do_unlock_no_owner (byte_set_env False False) (file_with [some_lock 1 bob FSAL_LOCK_R 5 10] 1 {0..20}) (byte_range FSAL_LOCK_R 0 10) POSIX_LOCK =
     (STATE_SUCCESS, file_with [some_lock 1 bob FSAL_LOCK_R 5 10] 1 {5..20})"
proof -
  have "{0..20} - ({0..9} - {5..14}) = {5..20::nat}" by auto
  then show ?thesis
    using do_unlock_no_owner_exact [of "byte_set_env False False" "byte_range FSAL_LOCK_R 0 10" "file_with [some_lock 1 bob FSAL_LOCK_R 5 10] 1 {0..20}" POSIX_LOCK]
    by (simp add: file_with_def byte_set_env_def byte_set_op_def fsalstat_def valid_lock_def span_def lock_end_def)
qed

text \<open>
  C35: an unlock that names the state with which the locks were taken changes no lock, but still unlocks
  the range in the file system: if every lock on the list carries the state, the list stays, and where
  the file system supports owners it has been told to unlock.
\<close>

theorem state_unlock_own_state:
  assumes "settled (lock_list fl)" "\<forall>e \<in> set (lock_list fl). sle_state e = Some st" "lock_list fl \<noteq> []" "regular_file fl"
    "inc_pin_result env = CACHE_INODE_SUCCESS" "lock_support env" "lock_support_owner env"
    "lock_op env (fsal_state fl) owner FSAL_OP_UNLOCK (lock\<lparr>lock_sle_type := sle_t\<rparr>) = (fsalstat ERR_FSAL_NO_ERROR n, c, fs)"
  shows "state_unlock env fl owner (Some st) False lock sle_t = (STATE_SUCCESS, fl\<lparr>fsal_state := fs\<rparr>)"
proof -
  define fl1 where "fl1 = pin 1 fl"
  have l: "lock_list fl1 = lock_list fl" "fsal_state fl1 = fsal_state fl" by (simp_all add: fl1_def)
  have same: "fl1\<lparr>lock_list := lock_list fl\<rparr> = fl1" using l(1) by simp
  have d: "do_lock_op env fl1 FSAL_OP_UNLOCK owner lock False sle_t = (STATE_SUCCESS, None, fl1\<lparr>fsal_state := fs\<rparr>)"
    using assms(6-8) l(2) by (simp add: do_lock_op_def Let_def state_error_convert_def fsalstat_def)
  have "unlock_range env fl1 owner (Some st) lock sle_t = (STATE_SUCCESS, pin (- 1) (fl1\<lparr>fsal_state := fs\<rparr>))"
    using assms(1,3) d l subtract_own_state_keeps [OF assms(2)]
    by (simp add: unlock_range_def unpin_if_empty_def same)
  moreover have "pin (- 1) (fl1\<lparr>fsal_state := fs\<rparr>) = fl\<lparr>fsal_state := fs\<rparr>" by (simp add: fl1_def pin_def)
  ultimately show ?thesis using assms(3-5) by (simp add: state_unlock_def Let_def fl1_def)
qed

theorem state_unlock_own_state_witness:
  "state_unlock (byte_set_env True False) (file_with [some_lock 1 alice FSAL_LOCK_W 0 10] 1 {0..9}) (Some alice) (Some 5) False (byte_range FSAL_LOCK_R 0 0) POSIX_LOCK =
     (STATE_SUCCESS, file_with [some_lock 1 alice FSAL_LOCK_W 0 10] 1 {})"
proof -
  have "{0..9} - span (byte_range FSAL_LOCK_R 0 0) = {}" by (auto simp: span_def lock_end_def unat_max)
  then show ?thesis
    using state_unlock_own_state [where fl = "file_with [some_lock 1 alice FSAL_LOCK_W 0 10] 1 {0..9}" and st = 5
        and env = "byte_set_env True False" and owner = "Some alice" and lock = "byte_range FSAL_LOCK_R 0 0" and sle_t = POSIX_LOCK
        and n = 0 and c = zero_lock and fs = "{}"]
    by (simp add: file_with_def byte_set_env_def byte_set_op_def)
qed

text \<open>
  when a grant cookie has been put into the table and the file system then refuses the lock, the cookie
  is freed but stays in the table, and the lock still points to it.
\<close>

theorem add_grant_cookie_dangles:
  assumes "state_add_grant_cookie env fl cookie i = (Inl status, fl')" "cookie \<notin> set (freed_cookies fl)"
    "freed_cookies fl' \<noteq> freed_cookies fl"
  shows "cookie \<in> set (freed_cookies fl') \<and> map_of (lock_cookies fl') cookie = Some i"
  using assms
  by (auto simp: state_add_grant_cookie_def Let_def free_cookie_def change_entry_def dest: do_lock_op_frame
      split: option.splits if_splits prod.splits state_grant_type_t.splits)

theorem add_grant_cookie_dangles_witness:
  "\<exists>status fl'. state_add_grant_cookie (byte_set_env False False)
       (file_with [(some_lock 1 alice FSAL_LOCK_W 0 10)\<lparr>sle_block_data := Some \<lparr>sbd_grant_type = STATE_GRANT_NONE, sbd_blocked_cookie = None\<rparr>\<rparr>] 1 {})
       ''c'' 1 = (Inl status, fl') \<and> ''c'' \<in> set (freed_cookies fl') \<and> map_of (lock_cookies fl') ''c'' = Some 1"
proof -
  let ?fl = "file_with [(some_lock 1 alice FSAL_LOCK_W 0 10)\<lparr>sle_block_data := Some \<lparr>sbd_grant_type = STATE_GRANT_NONE, sbd_blocked_cookie = None\<rparr>\<rparr>] 1 {}"
  obtain fl' where r: "state_add_grant_cookie (byte_set_env False False) ?fl ''c'' 1 = (Inl STATE_INCONSISTENT_ENTRY, fl')" "freed_cookies fl' = [''c'']"
    by (simp add: state_add_grant_cookie_def run_defs Let_def free_cookie_def change_entry_def)
  then show ?thesis using add_grant_cookie_dangles [OF r(1)] by (simp add: file_with_def)
qed

text \<open>
  a second lock that absorbs the only entry of the list takes a second pin reference for the list,
  although the first one is still held: after locking two adjacent ranges there is one entry and two
  references, and unlocking both gives back only one.
\<close>

theorem lock_merge_leaks_pin:
  "\<exists>fl1 fl2 fl3.
     state_lock (byte_set_env False False) (file_with [] 0 {}) alice None STATE_NON_BLOCKING None (byte_range FSAL_LOCK_R 0 10) POSIX_LOCK =
       Some (STATE_SUCCESS, None, fl1) \<and> pin_ref fl1 = 1 \<and>
     state_lock (byte_set_env False False) fl1 alice None STATE_NON_BLOCKING None (byte_range FSAL_LOCK_R 10 10) POSIX_LOCK =
       Some (STATE_SUCCESS, None, fl2) \<and> length (lock_list fl2) = 1 \<and> pin_ref fl2 = 2 \<and>
     state_unlock (byte_set_env False False) fl2 (Some alice) None False (byte_range FSAL_LOCK_R 0 20) POSIX_LOCK = (STATE_SUCCESS, fl3) \<and>
     lock_list fl3 = [] \<and> pin_ref fl3 = 1"
proof -
  let ?env = "byte_set_env False False"
  have own: "\<not> different_owners (Some alice) (Some alice)" by simp
  obtain fl1 where one: "state_lock ?env (file_with [] 0 {}) alice None STATE_NON_BLOCKING None (byte_range FSAL_LOCK_R 0 10) POSIX_LOCK =
      Some (STATE_SUCCESS, None, fl1)" and fl1: "fl1 = file_with [(some_lock 1 alice FSAL_LOCK_R 0 10)\<lparr>sle_state := None\<rparr>] 1 {0..9}"
    by (simp add: run_defs merge_lock_entry_def some_lock_def span_def lock_end_def atLeast0AtMost)
  obtain fl2 where two: "state_lock ?env fl1 alice None STATE_NON_BLOCKING None (byte_range FSAL_LOCK_R 10 10) POSIX_LOCK =
      Some (STATE_SUCCESS, None, fl2)" and fl2: "fl2 = file_with [(some_lock 2 alice FSAL_LOCK_R 0 20)\<lparr>sle_state := None\<rparr>] 2 ({0..9} \<union> {10..19})"
    unfolding fl1
    by (simp add: run_defs merge_single some_lock_def span_def lock_end_def own skip_merge_def needs_trim_def expand_over_def
        set_range_def overlaps_def)
  obtain fl3 where "state_unlock ?env fl2 (Some alice) None False (byte_range FSAL_LOCK_R 0 20) POSIX_LOCK = (STATE_SUCCESS, fl3)"
    "lock_list fl3 = []" "pin_ref fl3 = 1"
    unfolding fl2
    by (simp add: run_defs state_unlock_def unlock_range_def cancel_blocked_locks_range_def some_lock_def span_def lock_end_def own
        subtract_lock_from_list_def subtract_lock_from_entry_def subtract_skips_def unpin_if_empty_def do_unlock_no_owner_def)
  then show ?thesis using one two fl1 fl2 by (intro exI conjI) (auto simp: file_with_def)
qed

text \<open>
  on a file system with asynchronous locks but without owners a conflicting lock is granted: the hint
  that the range overlaps makes the call to the file system return success at once.
\<close>

theorem async_without_owners_grants_conflict:
  "\<exists>c fl'. state_lock (byte_set_env False True) (file_with [some_lock 1 alice FSAL_LOCK_W 0 10] 1 {0..9}) bob None STATE_NON_BLOCKING None
      (byte_range FSAL_LOCK_W 0 10) POSIX_LOCK = Some (STATE_SUCCESS, c, fl') \<and>
    held (Some alice) FSAL_LOCK_W (lock_list fl') = {0..9} \<and> held (Some bob) FSAL_LOCK_W (lock_list fl') = {0..9}"
proof -
  let ?a = "some_lock 1 alice FSAL_LOCK_W 0 10"
  have "state_lock (byte_set_env False True) (file_with [?a] 1 {0..9}) bob None STATE_NON_BLOCKING None (byte_range FSAL_LOCK_W 0 10) POSIX_LOCK =
      Some (STATE_SUCCESS, Some (Some alice, sle_lock ?a), file_with [?a, (some_lock 2 bob FSAL_LOCK_W 0 10)\<lparr>sle_state := None\<rparr>] 1 {0..9})"
    by (simp add: run_defs merge_single some_lock_def lock_end_def skip_merge_def overlaps_def copy_conflict_def)
  moreover have "span (sle_lock ((some_lock 2 bob FSAL_LOCK_W 0 10)\<lparr>sle_state := None\<rparr>)) = {0..9}"
    by (simp add: some_lock_def span_def lock_end_def)
  ultimately show ?thesis by (auto simp: file_with_def granted_def)
qed

end
