(* ===== verification/Fd_Table.thy ===== *)
theory Fd_Table
  imports Tc_Api "HOL-Library.Monad_Syntax"
begin

text \<open>
  The table of open files of the NFS client (\<^verbatim>\<open>nfs4/nfs4_util.c\<close>, \<^verbatim>\<open>nfs4/nfs4_util.h\<close>).

  A descriptor is the index of an entry plus \<open>VFD_OFFSET\<close>; the indices of unused entries are on a stack.
  The mutex of the table and the read-write lock of each entry are part of the state, so that an
  operation that waits for a lock its own thread holds is seen: its result is \<open>None\<close>, as it is for a failed
  assertion, a null pointer and an index outside an array.
\<close>

section \<open>Locks\<close>

text \<open>\<open>Rd n\<close> is a lock with \<open>n\<close> readers, \<open>Wr\<close> one held for writing.\<close>

datatype rwlock = Rd nat | Wr

fun rdlock :: "rwlock \<Rightarrow> rwlock option" where
  "rdlock (Rd n) = Some (Rd (Suc n))"
| "rdlock Wr = None"

fun wrlock :: "rwlock \<Rightarrow> rwlock option" where
  "wrlock (Rd n) = (if n = 0 then Some Wr else None)"
| "wrlock Wr = None"

fun rw_unlock :: "rwlock \<Rightarrow> rwlock" where
  "rw_unlock (Rd n) = Rd (n - 1)"
| "rw_unlock Wr = Rd 0"

section \<open>The table\<close>

definition MAX_FD :: nat where "MAX_FD = 1024"
definition VFD_OFFSET :: int where "VFD_OFFSET = 2 ^ 30"

abbreviation (input) EINVAL :: int where "EINVAL \<equiv> 22"
abbreviation (input) ENFILE :: int where "ENFILE \<equiv> 23"

record stateid4 =
  sid_seqid :: u32
  sid_other :: "char list"

record nfs_fh4 =
  nfs_fh4_len :: u32
  nfs_fh4_val :: "char list option"

record tc_kfd =
  fd_lock :: rwlock
  kfd_fd :: int
  kfd_fh :: nfs_fh4
  kfd_stateid :: stateid4
  kfd_seqid :: u32
  kfd_offset :: u64
  kfd_filesize :: u64

record fd_table =
  fd_list_lock :: bool
  fd_list :: "tc_kfd list"
  free_fds :: "nat list"
  free_fds_top :: nat

definition mutex_lock :: "fd_table \<Rightarrow> fd_table option" where
  "mutex_lock t = (if fd_list_lock t then None else Some (t\<lparr>fd_list_lock := True\<rparr>))"

definition mutex_unlock :: "fd_table \<Rightarrow> fd_table" where
  "mutex_unlock t = t\<lparr>fd_list_lock := False\<rparr>"

definition upd_fd :: "nat \<Rightarrow> (tc_kfd \<Rightarrow> tc_kfd) \<Rightarrow> fd_table \<Rightarrow> fd_table" where
  "upd_fd i f t = t\<lparr>fd_list := (fd_list t)[i := f (fd_list t ! i)]\<rparr>"

definition lock_fd :: "(rwlock \<Rightarrow> rwlock option) \<Rightarrow> nat \<Rightarrow> fd_table \<Rightarrow> fd_table option" where
  "lock_fd how i t = map_option (\<lambda>l. upd_fd i (\<lambda>k. k\<lparr>fd_lock := l\<rparr>) t) (how (fd_lock (fd_list t ! i)))"

definition unlock_fd :: "nat \<Rightarrow> fd_table \<Rightarrow> fd_table" where
  "unlock_fd i t = upd_fd i (\<lambda>k. k\<lparr>fd_lock := rw_unlock (fd_lock k)\<rparr>) t"

text \<open>The results of the initialisers of the lock attribute and of each lock are arguments.\<close>

fun vinit_loop :: "(nat \<Rightarrow> int) \<Rightarrow> nat \<Rightarrow> nat \<Rightarrow> fd_table \<Rightarrow> int \<times> fd_table" where
  "vinit_loop lock_init 0 i t = (0, t)"
| "vinit_loop lock_init (Suc n) i t =
     (if lock_init i \<noteq> 0 then (lock_init i, t)
      else vinit_loop lock_init n (Suc i)
        (upd_fd i (\<lambda>k. k\<lparr>fd_lock := Rd 0, kfd_fd := -1\<rparr>)
          (t\<lparr>free_fds := (free_fds t)[free_fds_top t := i], free_fds_top := Suc (free_fds_top t)\<rparr>)))"

definition vinit_fds :: "int \<Rightarrow> (nat \<Rightarrow> int) \<Rightarrow> fd_table \<Rightarrow> (int \<times> fd_table) option" where
  "vinit_fds attr_init lock_init t =
     (if attr_init \<noteq> 0 then Some (attr_init, t)
      else do {
        t1 \<leftarrow> mutex_lock t;
        let (r, t2) = vinit_loop lock_init MAX_FD 0 (t1\<lparr>free_fds_top := 0\<rparr>);
        Some (r, mutex_unlock t2)
      })"

definition tc_count_free_fds :: "fd_table \<Rightarrow> (nat \<times> fd_table) option" where
  "tc_count_free_fds t = do {
     t1 \<leftarrow> mutex_lock t;
     Some (free_fds_top t1, mutex_unlock t1)
   }"

definition tc_alloc_fd :: "stateid4 \<times> nfs_fh4 \<Rightarrow> fd_table \<Rightarrow> (int \<times> fd_table) option" where
  "tc_alloc_fd arg t = do {
     let (stateid, object) = arg;
     t1 \<leftarrow> mutex_lock t;
     if free_fds_top t1 = 0 then Some (- ENFILE, mutex_unlock t1)
     else do {
       let top = free_fds_top t1 - 1;
       let cur_fd = free_fds t1 ! top;
       if \<not> kfd_fd (fd_list t1 ! cur_fd) < 0 then None
       else do {
         val \<leftarrow> nfs_fh4_val object;
         let fh = \<lparr>nfs_fh4_len = nfs_fh4_len object, nfs_fh4_val = Some (take (unat (nfs_fh4_len object)) val)\<rparr>;
         let t2 = upd_fd cur_fd (\<lambda>k. k\<lparr>kfd_fd := int cur_fd + VFD_OFFSET, kfd_stateid := stateid, kfd_fh := fh,
                    kfd_seqid := 0, kfd_offset := 0\<rparr>) (t1\<lparr>free_fds_top := top\<rparr>);
         Some (int cur_fd + VFD_OFFSET, mutex_unlock t2)
       }
     }
   }"

text \<open>
  The entry of a descriptor, locked: its index, or \<open>None\<close> for the null pointer.  To lock for writing the
  code gives up the read lock first and does not test the entry again.
\<close>

definition tc_get_fd_struct :: "int \<Rightarrow> bool \<Rightarrow> fd_table \<Rightarrow> (nat option \<times> fd_table) option" where
  "tc_get_fd_struct fd lock_for_write t =
     (if fd - VFD_OFFSET < 0 \<or> fd - VFD_OFFSET \<ge> int MAX_FD then Some (None, t)
      else do {
        let i = nat (fd - VFD_OFFSET);
        t1 \<leftarrow> lock_fd rdlock i t;
        if kfd_fd (fd_list t1 ! i) < 0 \<or> kfd_fd (fd_list t1 ! i) \<noteq> fd then Some (None, unlock_fd i t1)
        else if lock_for_write then do {
          t2 \<leftarrow> lock_fd wrlock i (unlock_fd i t1);
          Some (Some i, t2)
        }
        else Some (Some i, t1)
      })"

definition tc_put_fd_struct :: "nat \<Rightarrow> fd_table \<Rightarrow> fd_table" where
  "tc_put_fd_struct i t = unlock_fd i t"

definition tc_free_fd :: "int \<Rightarrow> fd_table \<Rightarrow> (int \<times> fd_table) option" where
  "tc_free_fd fd t = do {
     (tcfd, t1) \<leftarrow> tc_get_fd_struct fd True t;
     case tcfd of
       None \<Rightarrow> Some (- EINVAL, t1)
     | Some i \<Rightarrow> do {
         let t2 = upd_fd i (\<lambda>k. k\<lparr>kfd_fd := -1, kfd_seqid := 0, kfd_offset := 0, kfd_fh := (kfd_fh k)\<lparr>nfs_fh4_val := None\<rparr>\<rparr>) t1;
         t3 \<leftarrow> mutex_lock (tc_put_fd_struct i t2);
         if free_fds_top t3 \<ge> length (free_fds t3) then None
         else Some (0, mutex_unlock (t3\<lparr>free_fds := (free_fds t3)[free_fds_top t3 := i], free_fds_top := Suc (free_fds_top t3)\<rparr>))
       }
   }"

text \<open>The result is the local variable that was never assigned from the entry.\<close>

definition tc_incr_fd_seqid :: "int \<Rightarrow> fd_table \<Rightarrow> (int \<times> fd_table) option" where
  "tc_incr_fd_seqid fd t = do {
     (tcfd, t1) \<leftarrow> tc_get_fd_struct fd True t;
     case tcfd of
       None \<Rightarrow> Some (- EINVAL, t1)
     | Some i \<Rightarrow> Some (0, tc_put_fd_struct i (upd_fd i (\<lambda>k. k\<lparr>kfd_seqid := kfd_seqid k + 1\<rparr>) t1))
   }"

text \<open>The function called on each open entry also changes a state of its own.\<close>

fun for_each_loop :: "(nat \<Rightarrow> fd_table \<Rightarrow> 'w \<Rightarrow> (int \<times> fd_table \<times> 'w) option) \<Rightarrow> nat \<Rightarrow> nat \<Rightarrow> fd_table \<Rightarrow> 'w \<Rightarrow>
    (int \<times> fd_table \<times> 'w) option" where
  "for_each_loop p 0 i t w = Some (0, t, w)"
| "for_each_loop p (Suc n) i t w = do {
     t1 \<leftarrow> lock_fd wrlock i t;
     if kfd_fd (fd_list t1 ! i) > 0 then do {
       (rc, t2, w2) \<leftarrow> p i t1 w;
       if rc \<noteq> 0 then Some (rc, unlock_fd i t2, w2) else for_each_loop p n (Suc i) (unlock_fd i t2) w2
     }
     else for_each_loop p n (Suc i) (unlock_fd i t1) w
   }"

definition tc_for_each_fd :: "(nat \<Rightarrow> fd_table \<Rightarrow> 'w \<Rightarrow> (int \<times> fd_table \<times> 'w) option) \<Rightarrow> fd_table \<Rightarrow> 'w \<Rightarrow>
    (int \<times> fd_table \<times> 'w) option" where
  "tc_for_each_fd p t w = do {
     t1 \<leftarrow> mutex_lock t;
     (rc, t2, w2) \<leftarrow> for_each_loop p MAX_FD 0 t1 w;
     Some (rc, mutex_unlock t2, w2)
   }"

section \<open>Invariant\<close>

text \<open>
  Between two operations no lock is held, and the stack holds each unused index once.  \<open>fd_file\<close> is what
  the table means: the open file of a descriptor.
\<close>

definition fds_ok :: "fd_table \<Rightarrow> bool" where
  "fds_ok t \<longleftrightarrow> \<not> fd_list_lock t \<and> length (fd_list t) = MAX_FD \<and> length (free_fds t) = MAX_FD \<and> free_fds_top t \<le> MAX_FD \<and>
     distinct (take (free_fds_top t) (free_fds t)) \<and>
     set (take (free_fds_top t) (free_fds t)) = {i. i < MAX_FD \<and> kfd_fd (fd_list t ! i) < 0} \<and>
     (\<forall>i < MAX_FD. fd_lock (fd_list t ! i) = Rd 0 \<and>
        (kfd_fd (fd_list t ! i) = -1 \<or> kfd_fd (fd_list t ! i) = int i + VFD_OFFSET \<and> nfs_fh4_val (kfd_fh (fd_list t ! i)) \<noteq> None))"

definition fd_index :: "int \<Rightarrow> nat option" where
  "fd_index fd = (if VFD_OFFSET \<le> fd \<and> fd < VFD_OFFSET + int MAX_FD then Some (nat (fd - VFD_OFFSET)) else None)"

definition fd_file :: "fd_table \<Rightarrow> int \<Rightarrow> tc_kfd option" where
  "fd_file t fd = do {
     i \<leftarrow> fd_index fd;
     if kfd_fd (fd_list t ! i) = fd then Some (fd_list t ! i) else None
   }"

lemma fd_index_Some: "fd_index fd = Some i \<longleftrightarrow> i < MAX_FD \<and> fd = int i + VFD_OFFSET"
  by (auto simp: fd_index_def)

lemma fd_index_of [simp]: "fd_index (int i + VFD_OFFSET) = (if i < MAX_FD then Some i else None)"
  by (auto simp: fd_index_def)

lemma fd_file_Some: "fd_file t fd = Some k \<longleftrightarrow> (\<exists>i < MAX_FD. fd = int i + VFD_OFFSET \<and> kfd_fd (fd_list t ! i) = fd \<and> k = fd_list t ! i)"
  by (auto simp: fd_file_def fd_index_Some bind_eq_Some_conv)

lemma VFD_OFFSET_pos: "VFD_OFFSET > 0"
  by (simp add: VFD_OFFSET_def)

lemma upd_fd_simps [simp]:
  "fd_list_lock (upd_fd i f t) = fd_list_lock t" "free_fds (upd_fd i f t) = free_fds t" "free_fds_top (upd_fd i f t) = free_fds_top t"
  "length (fd_list (upd_fd i f t)) = length (fd_list t)"
  by (simp_all add: upd_fd_def)

lemma upd_fd_nth: "i < length (fd_list t) \<Longrightarrow> fd_list (upd_fd i f t) ! j = (if j = i then f (fd_list t ! i) else fd_list t ! j)"
  by (simp add: upd_fd_def nth_list_update)

lemma upd_fd_upd_fd [simp]: "i < length (fd_list t) \<Longrightarrow> upd_fd i f (upd_fd i g t) = upd_fd i (f \<circ> g) t"
  by (simp add: upd_fd_def)

lemma upd_fd_same: "(\<And>k. k = fd_list t ! i \<Longrightarrow> f k = k) \<Longrightarrow> upd_fd i f t = t"
  by (simp add: upd_fd_def)

lemma upd_fd_cong: "f (fd_list t ! i) = g (fd_list t ! i) \<Longrightarrow> upd_fd i f t = upd_fd i g t"
  by (simp add: upd_fd_def)

text \<open>Getting an entry succeeds exactly for the descriptor of an open file.\<close>

abbreviation lock_state :: "bool \<Rightarrow> rwlock" where
  "lock_state w \<equiv> if w then Wr else Rd 1"

lemma get_fd_closed:
  assumes "fds_ok t" "fd_file t fd = None"
  shows "tc_get_fd_struct fd w t = Some (None, t)"
proof (cases "fd_index fd")
  case None
  then show ?thesis by (auto simp: tc_get_fd_struct_def fd_index_def split: if_splits)
next
  case (Some i)
  then have i: "i < MAX_FD" "fd = int i + VFD_OFFSET" by (auto simp: fd_index_Some)
  then have ne: "kfd_fd (fd_list t ! i) \<noteq> int i + VFD_OFFSET" using assms(2) by (auto simp: fd_file_def)
  have len: "i < length (fd_list t)" and l: "fd_lock (fd_list t ! i) = Rd 0" using assms(1) i(1) by (auto simp: fds_ok_def)
  have "upd_fd i ((\<lambda>k. k\<lparr>fd_lock := rw_unlock (fd_lock k)\<rparr>) \<circ> (\<lambda>k. k\<lparr>fd_lock := Rd 1\<rparr>)) t = t"
    using l by (intro upd_fd_same) simp
  then show ?thesis using i l len ne by (simp add: tc_get_fd_struct_def lock_fd_def unlock_fd_def upd_fd_nth)
qed

lemma get_fd_open:
  assumes "fds_ok t" "fd_file t fd = Some k"
  shows "\<exists>i < MAX_FD. fd = int i + VFD_OFFSET \<and> k = fd_list t ! i \<and>
    tc_get_fd_struct fd w t = Some (Some i, upd_fd i (\<lambda>k. k\<lparr>fd_lock := lock_state w\<rparr>) t)"
proof -
  from assms(2) obtain i where i: "i < MAX_FD" "fd = int i + VFD_OFFSET" "kfd_fd (fd_list t ! i) = int i + VFD_OFFSET" "k = fd_list t ! i"
    by (auto simp: fd_file_Some)
  have len: "i < length (fd_list t)" and l: "fd_lock (fd_list t ! i) = Rd 0" using assms(1) i(1) by (auto simp: fds_ok_def)
  have "tc_get_fd_struct fd w t = Some (Some i, upd_fd i (\<lambda>k. k\<lparr>fd_lock := lock_state w\<rparr>) t)"
    using i l len VFD_OFFSET_pos
    by (auto simp: tc_get_fd_struct_def lock_fd_def unlock_fd_def upd_fd_nth comp_def intro: upd_fd_cong)
  then show ?thesis using i by blast
qed

lemma put_upd:
  assumes "fds_ok t" "i < MAX_FD" "\<And>k. fd_lock (f k) = fd_lock k" "\<And>k l. f (k\<lparr>fd_lock := l\<rparr>) = (f k)\<lparr>fd_lock := l\<rparr>"
  shows "tc_put_fd_struct i (upd_fd i f (upd_fd i (\<lambda>k. k\<lparr>fd_lock := lock_state w\<rparr>) t)) = upd_fd i f t"
proof -
  have "i < length (fd_list t)" "fd_lock (fd_list t ! i) = Rd 0" using assms(1,2) by (auto simp: fds_ok_def)
  then show ?thesis using assms(3,4)
    by (auto simp: tc_put_fd_struct_def unlock_fd_def comp_def intro!: upd_fd_cong)
qed

lemma put_get: "fds_ok t \<Longrightarrow> i < MAX_FD \<Longrightarrow> tc_put_fd_struct i (upd_fd i (\<lambda>k. k\<lparr>fd_lock := lock_state w\<rparr>) t) = t"
  using put_upd [of t i "\<lambda>k. k" w] by (simp add: upd_fd_def)

lemma fds_ok_upd:
  assumes "fds_ok t" "i < MAX_FD" "\<And>k. fd_lock (f k) = fd_lock k \<and> kfd_fd (f k) = kfd_fd k \<and> kfd_fh (f k) = kfd_fh k"
  shows "fds_ok (upd_fd i f t)"
proof -
  have "i < length (fd_list t)" using assms(1,2) by (simp add: fds_ok_def)
  then have nth: "fd_list (upd_fd i f t) ! j = (if j = i then f (fd_list t ! i) else fd_list t ! j)" for j by (simp add: upd_fd_nth)
  have "kfd_fd (fd_list (upd_fd i f t) ! j) = kfd_fd (fd_list t ! j)" "fd_lock (fd_list (upd_fd i f t) ! j) = fd_lock (fd_list t ! j)"
    "kfd_fh (fd_list (upd_fd i f t) ! j) = kfd_fh (fd_list t ! j)" for j
    using assms(3) by (simp_all add: nth)
  then show ?thesis using assms(1) by (simp add: fds_ok_def)
qed

lemma fd_file_upd:
  assumes "fds_ok t" "fd_file t (int i + VFD_OFFSET) = Some k" "\<And>k. kfd_fd (f k) = kfd_fd k"
  shows "fd_file (upd_fd i f t) = (fd_file t)(int i + VFD_OFFSET \<mapsto> f k)"
proof
  fix fd
  have i: "i < MAX_FD" "kfd_fd (fd_list t ! i) = int i + VFD_OFFSET" "k = fd_list t ! i" using assms(2) by (auto simp: fd_file_Some)
  then have "i < length (fd_list t)" using assms(1) by (simp add: fds_ok_def)
  then show "fd_file (upd_fd i f t) fd = ((fd_file t)(int i + VFD_OFFSET \<mapsto> f k)) fd"
    using i assms(3) by (cases "fd_index fd") (auto simp: fd_file_def fd_index_Some upd_fd_nth)
qed

text \<open>The unused indices are those on the stack, so their number tells how many files are open.\<close>

lemma dom_fd_file:
  assumes "fds_ok t"
  shows "dom (fd_file t) = (\<lambda>i. int i + VFD_OFFSET) ` ({..<MAX_FD} - set (take (free_fds_top t) (free_fds t)))"
proof -
  have open_iff: "kfd_fd (fd_list t ! i) = int i + VFD_OFFSET \<longleftrightarrow> \<not> kfd_fd (fd_list t ! i) < 0" if "i < MAX_FD" for i
    using assms that VFD_OFFSET_pos unfolding fds_ok_def by fastforce
  have "set (take (free_fds_top t) (free_fds t)) = {i. i < MAX_FD \<and> kfd_fd (fd_list t ! i) < 0}" using assms by (simp add: fds_ok_def)
  then show ?thesis using open_iff by (auto simp: fd_file_Some image_iff)
qed

lemma card_dom_fd_file:
  assumes "fds_ok t"
  shows "card (dom (fd_file t)) + free_fds_top t = MAX_FD"
proof -
  let ?free = "set (take (free_fds_top t) (free_fds t))"
  have sub: "?free \<subseteq> {..<MAX_FD}" using assms by (auto simp: fds_ok_def)
  have "distinct (take (free_fds_top t) (free_fds t))" "free_fds_top t \<le> length (free_fds t)" using assms by (simp_all add: fds_ok_def)
  then have top: "card ?free = free_fds_top t" by (simp add: distinct_card)
  have "inj_on (\<lambda>i. int i + VFD_OFFSET) A" for A by (auto intro: inj_onI)
  then have "card (dom (fd_file t)) = card ({..<MAX_FD} - ?free)" by (simp add: dom_fd_file [OF assms] card_image)
  also have "\<dots> = MAX_FD - free_fds_top t" using sub top by (simp add: card_Diff_subset)
  finally show ?thesis using assms by (simp add: fds_ok_def)
qed

lemma unlocked: "fds_ok t \<Longrightarrow> \<not> fd_list_lock t"
  by (simp add: fds_ok_def)

lemma mutex_simps:
  "\<not> fd_list_lock t \<Longrightarrow> mutex_lock t = Some (t\<lparr>fd_list_lock := True\<rparr>)" "mutex_unlock (t\<lparr>fd_list_lock := b\<rparr>) = t\<lparr>fd_list_lock := False\<rparr>"
  "fd_list_lock t = b \<Longrightarrow> t\<lparr>fd_list_lock := b\<rparr> = t"
  by (auto simp: mutex_lock_def mutex_unlock_def)

text \<open>A file in the table as an allocation leaves it; its size is not set.\<close>

definition opened :: "stateid4 \<times> nfs_fh4 \<Rightarrow> tc_kfd \<Rightarrow> bool" where
  "opened arg k \<longleftrightarrow> kfd_stateid k = fst arg \<and> nfs_fh4_len (kfd_fh k) = nfs_fh4_len (snd arg) \<and>
     nfs_fh4_val (kfd_fh k) = map_option (take (unat (nfs_fh4_len (snd arg)))) (nfs_fh4_val (snd arg)) \<and> kfd_seqid k = 0 \<and> kfd_offset k = 0"

lemma alloc_fd_full:
  assumes "fds_ok t" "free_fds_top t = 0"
  shows "tc_alloc_fd arg t = Some (- ENFILE, t)"
  using assms unlocked [OF assms(1)] by (cases arg) (simp add: tc_alloc_fd_def mutex_simps)

lemma alloc_fd_free:
  assumes "fds_ok t" "free_fds_top t = Suc n" "nfs_fh4_val (snd arg) \<noteq> None"
  shows "\<exists>fd t' k. tc_alloc_fd arg t = Some (fd, t') \<and> fds_ok t' \<and> fd > 0 \<and> fd \<notin> dom (fd_file t) \<and>
    fd_file t' = (fd_file t)(fd \<mapsto> k) \<and> opened arg k"
proof -
  obtain sid object v where arg: "arg = (sid, object)" and v: "nfs_fh4_val object = Some v" using assms(3) by (cases arg) auto
  define cur where "cur = free_fds t ! n"
  have n: "n < length (free_fds t)" using assms(1,2) by (simp add: fds_ok_def)
  have tk: "take (Suc n) (free_fds t) = take n (free_fds t) @ [cur]" using n by (simp add: cur_def take_Suc_conv_app_nth)
  have cur: "cur < MAX_FD" "kfd_fd (fd_list t ! cur) < 0" "cur \<notin> set (take n (free_fds t))"
    using assms(1,2) tk by (auto simp: fds_ok_def)
  have len: "cur < length (fd_list t)" using assms(1) cur by (simp add: fds_ok_def)
  define k where "k = (fd_list t ! cur)\<lparr>kfd_fd := int cur + VFD_OFFSET, kfd_stateid := sid,
      kfd_fh := \<lparr>nfs_fh4_len = nfs_fh4_len object, nfs_fh4_val = Some (take (unat (nfs_fh4_len object)) v)\<rparr>, kfd_seqid := 0, kfd_offset := 0\<rparr>"
  define t' where "t' = t\<lparr>fd_list := (fd_list t)[cur := k], free_fds_top := n\<rparr>"
  have nth: "fd_list t' ! j = (if j = cur then k else fd_list t ! j)" for j using len by (simp add: t'_def nth_list_update)
  have alloc: "tc_alloc_fd arg t = Some (int cur + VFD_OFFSET, t')"
    using assms(2) cur(2) v unlocked [OF assms(1)]
    by (simp add: tc_alloc_fd_def arg mutex_lock_def mutex_unlock_def cur_def [symmetric] upd_fd_def t'_def k_def)
  have kk: "kfd_fd k = int cur + VFD_OFFSET" "fd_lock k = fd_lock (fd_list t ! cur)" "nfs_fh4_val (kfd_fh k) \<noteq> None" by (simp_all add: k_def)
  have "set (take n (free_fds t)) = {i. i < MAX_FD \<and> kfd_fd (fd_list t ! i) < 0} - {cur}"
    using assms(1,2) tk cur(3) by (auto simp: fds_ok_def)
  then have "set (take n (free_fds t)) = {i. i < MAX_FD \<and> kfd_fd (fd_list t' ! i) < 0}" using kk(1) VFD_OFFSET_pos by (auto simp: nth)
  moreover have "fd_lock (fd_list t' ! i) = Rd 0 \<and>
        (kfd_fd (fd_list t' ! i) = -1 \<or> kfd_fd (fd_list t' ! i) = int i + VFD_OFFSET \<and> nfs_fh4_val (kfd_fh (fd_list t' ! i)) \<noteq> None)"
    if "i < MAX_FD" for i using assms(1) that kk cur(1) by (auto simp: fds_ok_def nth)
  ultimately have "fds_ok t'" using assms(1,2) tk by (auto simp: fds_ok_def t'_def)
  moreover have "fd_file t (int cur + VFD_OFFSET) = None" using cur VFD_OFFSET_pos by (simp add: fd_file_def)
  moreover have "fd_file t' = (fd_file t)(int cur + VFD_OFFSET \<mapsto> k)"
  proof
    fix fd show "fd_file t' fd = ((fd_file t)(int cur + VFD_OFFSET \<mapsto> k)) fd"
      using kk cur by (cases "fd_index fd") (auto simp: fd_file_def fd_index_Some nth)
  qed
  moreover have "opened arg k" using v by (simp add: opened_def k_def arg)
  ultimately show ?thesis using alloc VFD_OFFSET_pos by (intro exI [of _ "int cur + VFD_OFFSET"] exI) auto
qed

lemma free_fd_closed:
  assumes "fds_ok t" "fd_file t fd = None"
  shows "tc_free_fd fd t = Some (- EINVAL, t)"
  by (simp add: tc_free_fd_def get_fd_closed [OF assms])

lemma free_fd_open:
  assumes "fds_ok t" "fd_file t fd = Some k"
  shows "\<exists>t'. tc_free_fd fd t = Some (0, t') \<and> fds_ok t' \<and> fd_file t' = (fd_file t)(fd := None)"
proof -
  from get_fd_open [OF assms, of True] obtain i where i: "i < MAX_FD" "fd = int i + VFD_OFFSET" "k = fd_list t ! i"
    and get: "tc_get_fd_struct fd True t = Some (Some i, upd_fd i (\<lambda>k. k\<lparr>fd_lock := Wr\<rparr>) t)" by auto
  have isfd: "kfd_fd (fd_list t ! i) = int i + VFD_OFFSET" using assms(2) i by (auto simp: fd_file_Some)
  have len: "i < length (fd_list t)" and l: "fd_lock (fd_list t ! i) = Rd 0" using assms(1) i(1) by (auto simp: fds_ok_def)
  define c where "c = (fd_list t ! i)\<lparr>kfd_fd := -1, kfd_seqid := 0, kfd_offset := 0, kfd_fh := (kfd_fh (fd_list t ! i))\<lparr>nfs_fh4_val := None\<rparr>\<rparr>"
  define n where "n = free_fds_top t"
  have "i \<in> {..<MAX_FD} - set (take n (free_fds t))"
    using assms(1) isfd VFD_OFFSET_pos i(1) by (auto simp: fds_ok_def n_def)
  then have notfree: "i \<notin> set (take n (free_fds t))" by simp
  have "card (dom (fd_file t)) > 0" using assms(2) dom_fd_file [OF assms(1)] by (auto simp: card_gt_0_iff)
  then have n: "n < MAX_FD" using card_dom_fd_file [OF assms(1)] by (simp add: n_def)
  have lens: "length (free_fds t) = MAX_FD" "length (fd_list t) = MAX_FD" using assms(1) by (simp_all add: fds_ok_def)
  define t' where "t' = t\<lparr>fd_list := (fd_list t)[i := c], free_fds := (free_fds t)[n := i], free_fds_top := Suc n\<rparr>"
  have nth: "fd_list t' ! j = (if j = i then c else fd_list t ! j)" for j using len by (simp add: t'_def nth_list_update)
  have closed: "(fd_list t ! i)\<lparr>kfd_fd := -1, kfd_seqid := 0, kfd_offset := 0, kfd_fh := (kfd_fh (fd_list t ! i))\<lparr>nfs_fh4_val := None\<rparr>, fd_lock := Rd 0\<rparr> = c"
    using l by (simp add: c_def)
  have "tc_free_fd fd t = Some (0, t')"
    using get len lens n unlocked [OF assms(1)] closed
    by (simp add: tc_free_fd_def tc_put_fd_struct_def unlock_fd_def comp_def mutex_lock_def mutex_unlock_def upd_fd_def n_def [symmetric] t'_def)
  moreover have "take (Suc n) (free_fds t') = take n (free_fds t) @ [i]"
    using n lens by (simp add: t'_def take_Suc_conv_app_nth)
  moreover have "fds_ok t'"
  proof -
    have tk: "take (Suc n) ((free_fds t)[n := i]) = take n (free_fds t) @ [i]" using n lens by (simp add: take_Suc_conv_app_nth)
    have "insert i (set (take n (free_fds t))) = {j. j < MAX_FD \<and> kfd_fd (fd_list t' ! j) < 0}"
      using assms(1) i(1) by (auto simp: nth c_def fds_ok_def n_def)
    moreover have "fd_lock (fd_list t' ! j) = Rd 0 \<and>
        (kfd_fd (fd_list t' ! j) = -1 \<or> kfd_fd (fd_list t' ! j) = int j + VFD_OFFSET \<and> nfs_fh4_val (kfd_fh (fd_list t' ! j)) \<noteq> None)"
      if "j < MAX_FD" for j using assms(1) that l by (auto simp: fds_ok_def nth c_def)
    ultimately show ?thesis using assms(1) n lens notfree tk unfolding fds_ok_def by (simp add: t'_def n_def [symmetric])
  qed
  moreover have "fd_file t' = (fd_file t)(fd := None)"
  proof
    fix g show "fd_file t' g = ((fd_file t)(fd := None)) g"
      using i VFD_OFFSET_pos by (cases "fd_index g") (auto simp: fd_file_def fd_index_Some nth c_def)
  qed
  ultimately show ?thesis by blast
qed

section \<open>Initialisation\<close>

lemma vinit_loop_ok:
  assumes "i + n = MAX_FD" "length (fd_list t) = MAX_FD" "length (free_fds t) = MAX_FD" "free_fds_top t = i"
    "take i (free_fds t) = [0..<i]" "\<forall>j < i. fd_lock (fd_list t ! j) = Rd 0 \<and> kfd_fd (fd_list t ! j) = -1"
  shows "\<exists>t'. vinit_loop (\<lambda>_. 0) n i t = (0, t') \<and> fd_list_lock t' = fd_list_lock t \<and> length (fd_list t') = MAX_FD \<and>
    free_fds t' = [0..<MAX_FD] \<and> free_fds_top t' = MAX_FD \<and> (\<forall>j < MAX_FD. fd_lock (fd_list t' ! j) = Rd 0 \<and> kfd_fd (fd_list t' ! j) = -1)"
  using assms
proof (induction n arbitrary: i t)
  case (Suc n)
  let ?t = "upd_fd i (\<lambda>k. k\<lparr>fd_lock := Rd 0, kfd_fd := -1\<rparr>) (t\<lparr>free_fds := (free_fds t)[free_fds_top t := i], free_fds_top := Suc (free_fds_top t)\<rparr>)"
  have i: "i < MAX_FD" using Suc.prems(1) by simp
  have "take (Suc i) (free_fds ?t) = [0..<Suc i]" using Suc.prems i by (simp add: take_Suc_conv_app_nth)
  moreover have "\<forall>j < Suc i. fd_lock (fd_list ?t ! j) = Rd 0 \<and> kfd_fd (fd_list ?t ! j) = -1"
    using Suc.prems i by (auto simp: upd_fd_def nth_list_update less_Suc_eq)
  ultimately show ?case using Suc.IH [of "Suc i" ?t] Suc.prems by simp
qed simp

lemma vinit_fds_ok:
  assumes "\<not> fd_list_lock t" "length (fd_list t) = MAX_FD" "length (free_fds t) = MAX_FD"
  shows "\<exists>t'. vinit_fds 0 (\<lambda>_. 0) t = Some (0, t') \<and> fds_ok t' \<and> fd_file t' = Map.empty"
proof -
  have "\<exists>t'. vinit_loop (\<lambda>_. 0) MAX_FD 0 (t\<lparr>fd_list_lock := True, free_fds_top := 0\<rparr>) = (0, t') \<and>
    fd_list_lock t' = fd_list_lock (t\<lparr>fd_list_lock := True, free_fds_top := 0\<rparr>) \<and> length (fd_list t') = MAX_FD \<and>
    free_fds t' = [0..<MAX_FD] \<and> free_fds_top t' = MAX_FD \<and> (\<forall>j < MAX_FD. fd_lock (fd_list t' ! j) = Rd 0 \<and> kfd_fd (fd_list t' ! j) = -1)"
    using assms by (intro vinit_loop_ok) auto
  then obtain t' where t': "vinit_loop (\<lambda>_. 0) MAX_FD 0 (t\<lparr>fd_list_lock := True, free_fds_top := 0\<rparr>) = (0, t')" "length (fd_list t') = MAX_FD"
    "free_fds t' = [0..<MAX_FD]" "free_fds_top t' = MAX_FD" "\<forall>j < MAX_FD. fd_lock (fd_list t' ! j) = Rd 0 \<and> kfd_fd (fd_list t' ! j) = -1"
    by blast
  have "vinit_fds 0 (\<lambda>_. 0) t = Some (0, mutex_unlock t')" using t'(1) assms(1) by (simp add: vinit_fds_def mutex_lock_def)
  moreover have "fds_ok (mutex_unlock t')" using t' by (auto simp: fds_ok_def mutex_unlock_def)
  moreover have "fd_file (mutex_unlock t') = Map.empty"
  proof
    fix fd show "fd_file (mutex_unlock t') fd = None"
      using t'(5) VFD_OFFSET_pos by (cases "fd_index fd") (auto simp: fd_file_def fd_index_Some mutex_unlock_def)
  qed
  ultimately show ?thesis by blast
qed

section \<open>Interface\<close>

text \<open>
  What users of a table of open files rely on: a new descriptor is not that of an open file, freeing
  closes one file, and neither touches the other files.  \<open>free_each\<close> is the loop that closes several.
\<close>

fun free_each :: "(int \<Rightarrow> 't \<Rightarrow> (int \<times> 't) option) \<Rightarrow> int list \<Rightarrow> 't \<Rightarrow> 't option" where
  "free_each free [] t = Some t"
| "free_each free (fd # fds) t = do { (_, t1) \<leftarrow> free fd t; free_each free fds t1 }"

locale descriptor_table =
  fixes inv :: "'t \<Rightarrow> bool" and files :: "'t \<Rightarrow> int \<Rightarrow> 'f option" and alloc :: "'a \<Rightarrow> 't \<Rightarrow> (int \<times> 't) option"
    and free :: "int \<Rightarrow> 't \<Rightarrow> (int \<times> 't) option" and makes :: "'a \<Rightarrow> 'f \<Rightarrow> bool" and usable :: "'a \<Rightarrow> bool" and capacity :: nat
  assumes files_bound: "inv t \<Longrightarrow> finite (dom (files t)) \<and> card (dom (files t)) \<le> capacity"
    and alloc_none: "inv t \<Longrightarrow> card (dom (files t)) = capacity \<Longrightarrow> \<exists>e < 0. alloc a t = Some (e, t)"
    and alloc_one: "inv t \<Longrightarrow> card (dom (files t)) < capacity \<Longrightarrow> usable a \<Longrightarrow>
      \<exists>fd t' f. alloc a t = Some (fd, t') \<and> inv t' \<and> fd > 0 \<and> fd \<notin> dom (files t) \<and> files t' = (files t)(fd \<mapsto> f) \<and> makes a f"
    and free_one: "inv t \<Longrightarrow> \<exists>r t'. free fd t = Some (r, t') \<and> inv t' \<and> files t' = (files t)(fd := None) \<and> (r = 0 \<longleftrightarrow> fd \<in> dom (files t))"
begin

lemma free_each_files: "inv t \<Longrightarrow> \<exists>t'. free_each free fds t = Some t' \<and> inv t' \<and> files t' = files t |` (- set fds)"
proof (induction fds arbitrary: t)
  case (Cons fd fds)
  then obtain r t1 where one: "free fd t = Some (r, t1)" "inv t1" "files t1 = (files t)(fd := None)" using free_one by blast
  have "files t1 |` (- set fds) = files t |` (- set (fd # fds))" by (auto simp: one(3) restrict_map_def fun_eq_iff)
  then show ?case using Cons.IH [OF one(2)] one(1) by simp
qed (simp add: restrict_map_def)

lemma alloc_outcome:
  assumes "inv t" "usable a"
  shows "\<exists>fd t'. alloc a t = Some (fd, t') \<and> inv t' \<and>
    (if card (dom (files t)) = capacity then fd < 0 \<and> t' = t
     else fd > 0 \<and> fd \<notin> dom (files t) \<and> (\<exists>f. files t' = (files t)(fd \<mapsto> f) \<and> makes a f))"
  using alloc_none [OF assms(1), of a] alloc_one [OF assms(1) _ assms(2)] files_bound [OF assms(1)] assms(1)
  by (cases "card (dom (files t)) = capacity") (fastforce simp: le_less)+

lemma alloc_free:
  assumes "inv t" "usable a" "alloc a t = Some (fd, t1)" "fd > 0"
  shows "\<exists>t2. free fd t1 = Some (0, t2) \<and> inv t2 \<and> files t2 = files t"
proof -
  have "inv t1 \<and> fd \<notin> dom (files t) \<and> (\<exists>f. files t1 = (files t)(fd \<mapsto> f))"
    using alloc_outcome [OF assms(1,2)] assms(3,4) by (auto split: if_splits)
  then show ?thesis using free_one [of t1 fd] by (fastforce simp: domIff)
qed

end

interpretation fds: descriptor_table fds_ok fd_file tc_alloc_fd tc_free_fd opened "\<lambda>arg. nfs_fh4_val (snd arg) \<noteq> None" MAX_FD
proof
  fix t :: fd_table assume ok: "fds_ok t"
  show "finite (dom (fd_file t)) \<and> card (dom (fd_file t)) \<le> MAX_FD"
    using card_dom_fd_file [OF ok] dom_fd_file [OF ok] by auto
  show "\<exists>e < 0. tc_alloc_fd a t = Some (e, t)" if "card (dom (fd_file t)) = MAX_FD" for a
    using alloc_fd_full [OF ok, of a] card_dom_fd_file [OF ok] that by auto
  show "\<exists>fd t' f. tc_alloc_fd a t = Some (fd, t') \<and> fds_ok t' \<and> fd > 0 \<and> fd \<notin> dom (fd_file t) \<and> fd_file t' = (fd_file t)(fd \<mapsto> f) \<and> opened a f"
    if "card (dom (fd_file t)) < MAX_FD" "nfs_fh4_val (snd a) \<noteq> None" for a
    using alloc_fd_free [OF ok _ that(2)] card_dom_fd_file [OF ok] that(1) by (cases "free_fds_top t") auto
  show "\<exists>r t'. tc_free_fd fd t = Some (r, t') \<and> fds_ok t' \<and> fd_file t' = (fd_file t)(fd := None) \<and> (r = 0 \<longleftrightarrow> fd \<in> dom (fd_file t))" for fd
  proof (cases "fd_file t fd")
    case None
    then show ?thesis using free_fd_closed [OF ok None] ok by (auto simp: fun_upd_idem)
  next
    case (Some k)
    then show ?thesis using free_fd_open [OF ok Some] by auto
  qed
qed

section \<open>Sequences of operations\<close>

text \<open>
  What the client does with the table: it opens and closes files, advances the sequence number of an
  entry, and changes the offset and the size of an entry it has locked.
\<close>

inductive fd_step :: "fd_table \<Rightarrow> fd_table \<Rightarrow> bool" where
  fd_step_alloc: "nfs_fh4_val object \<noteq> None \<Longrightarrow> tc_alloc_fd (sid, object) t = Some (r, t') \<Longrightarrow> fd_step t t'"
| fd_step_free: "tc_free_fd fd t = Some (r, t') \<Longrightarrow> fd_step t t'"
| fd_step_incr: "tc_incr_fd_seqid fd t = Some (r, t') \<Longrightarrow> fd_step t t'"
| fd_step_use: "tc_get_fd_struct fd True t = Some (Some i, t1) \<Longrightarrow>
    fd_step t (tc_put_fd_struct i (upd_fd i (\<lambda>k. k\<lparr>kfd_offset := off, kfd_filesize := sz\<rparr>) t1))"

lemma use_fd:
  assumes "fds_ok t" "tc_get_fd_struct fd True t = Some (Some i, t1)"
    "\<And>k l. f (k\<lparr>fd_lock := l\<rparr>) = (f k)\<lparr>fd_lock := l\<rparr>" "\<And>k. fd_lock (f k) = fd_lock k \<and> kfd_fd (f k) = kfd_fd k \<and> kfd_fh (f k) = kfd_fh k"
  shows "fds_ok (tc_put_fd_struct i (upd_fd i f t1)) \<and>
    (\<exists>k. fd_file t fd = Some k \<and> fd_file (tc_put_fd_struct i (upd_fd i f t1)) = (fd_file t)(fd \<mapsto> f k))"
proof (cases "fd_file t fd")
  case None
  then show ?thesis using get_fd_closed [OF assms(1)] assms(2) by simp
next
  case (Some k)
  from get_fd_open [OF assms(1) Some, of True] assms(2)
  have i: "i < MAX_FD" "fd = int i + VFD_OFFSET" and t1: "t1 = upd_fd i (\<lambda>k. k\<lparr>fd_lock := lock_state True\<rparr>) t" by auto
  have put: "tc_put_fd_struct i (upd_fd i f t1) = upd_fd i f t"
    unfolding t1 using assms(3,4) by (intro put_upd [OF assms(1) i(1)]) auto
  show ?thesis unfolding put using fds_ok_upd [OF assms(1) i(1) assms(4)] fd_file_upd [OF assms(1) _ , of i k f] Some i(2) assms(4) by simp
qed

lemma incr_seqid_ok:
  assumes "fds_ok t" "tc_incr_fd_seqid fd t = Some (r, t')"
  shows "fds_ok t'"
proof (cases "fd_file t fd")
  case None
  then show ?thesis using get_fd_closed [OF assms(1) None] assms by (simp add: tc_incr_fd_seqid_def)
next
  case (Some k)
  then obtain i t1 where g: "tc_get_fd_struct fd True t = Some (Some i, t1)" using get_fd_open [OF assms(1)] by blast
  then show ?thesis using use_fd [OF assms(1) g, of "\<lambda>k. k\<lparr>kfd_seqid := kfd_seqid k + 1\<rparr>"] assms(2) by (simp add: tc_incr_fd_seqid_def)
qed

lemma fd_step_ok: "fd_step t t' \<Longrightarrow> fds_ok t \<Longrightarrow> fds_ok t'"
proof (induction rule: fd_step.induct)
  case (fd_step_alloc object sid t r t')
  then show ?case using fds.alloc_outcome [of t "(sid, object)"] by auto
next
  case (fd_step_free fd t r t')
  then show ?case using fds.free_one [of t fd] by auto
next
  case (fd_step_incr fd t r t')
  then show ?case using incr_seqid_ok by blast
next
  case (fd_step_use fd t i t1 sz off)
  then show ?case using use_fd [OF fd_step_use.prems fd_step_use.hyps, of "\<lambda>k. k\<lparr>kfd_offset := off, kfd_filesize := sz\<rparr>"] by simp
qed

lemma fd_steps_ok: "fd_step\<^sup>*\<^sup>* t t' \<Longrightarrow> fds_ok t \<Longrightarrow> fds_ok t'"
  by (induction rule: rtranclp_induct) (auto intro: fd_step_ok)

text \<open>The table before its initialisation: static memory, all zero.\<close>

definition static_table :: fd_table where
  "static_table = \<lparr>fd_list_lock = False,
     fd_list = replicate MAX_FD \<lparr>fd_lock = Rd 0, kfd_fd = 0, kfd_fh = \<lparr>nfs_fh4_len = 0, nfs_fh4_val = None\<rparr>,
       kfd_stateid = \<lparr>sid_seqid = 0, sid_other = replicate 12 NUL\<rparr>, kfd_seqid = 0, kfd_offset = 0, kfd_filesize = 0\<rparr>,
     free_fds = replicate MAX_FD 0, free_fds_top = 0\<rparr>"

lemma static_table_init: "\<exists>t. vinit_fds 0 (\<lambda>_. 0) static_table = Some (0, t) \<and> fds_ok t \<and> fd_file t = Map.empty"
  by (rule vinit_fds_ok) (simp_all add: static_table_def)

section \<open>Properties\<close>

text \<open>
  C7: the table implements a partial function from descriptors to open files.  After the
  initialisation and any sequence of operations, no operation blocks on a lock; an allocation fails with
  \<^verbatim>\<open>ENFILE\<close> and changes nothing exactly if all 1024 entries are in use, and otherwise returns a descriptor
  that no open file has and opens a file there with the state id and handle given and offset 0; freeing
  a descriptor closes its file and no other, and reports whether there was one.
\<close>

theorem fd_table_refines:
  assumes "vinit_fds 0 (\<lambda>_. 0) static_table = Some (0, init)" "fd_step\<^sup>*\<^sup>* init t" "nfs_fh4_val object \<noteq> None"
  shows "(\<exists>fd t'. tc_alloc_fd (sid, object) t = Some (fd, t') \<and>
      (if card (dom (fd_file t)) = 1024 then fd = - ENFILE \<and> t' = t
       else fd \<notin> dom (fd_file t) \<and> (\<exists>k. fd_file t' = (fd_file t)(fd \<mapsto> k) \<and> opened (sid, object) k))) \<and>
    (\<exists>r t'. tc_free_fd fd0 t = Some (r, t') \<and> fd_file t' = (fd_file t)(fd0 := None) \<and> r = (if fd0 \<in> dom (fd_file t) then 0 else - EINVAL))"
proof
  have ok: "fds_ok t" using fd_steps_ok [OF assms(2)] static_table_init assms(1) by auto
  show "\<exists>fd t'. tc_alloc_fd (sid, object) t = Some (fd, t') \<and>
      (if card (dom (fd_file t)) = 1024 then fd = - ENFILE \<and> t' = t
       else fd \<notin> dom (fd_file t) \<and> (\<exists>k. fd_file t' = (fd_file t)(fd \<mapsto> k) \<and> opened (sid, object) k))"
  proof (cases "free_fds_top t")
    case 0
    then show ?thesis using alloc_fd_full [OF ok 0] card_dom_fd_file [OF ok] by (auto simp: MAX_FD_def)
  next
    case (Suc n)
    then show ?thesis using alloc_fd_free [OF ok Suc, of "(sid, object)"] assms(3) card_dom_fd_file [OF ok] by (auto simp: MAX_FD_def)
  qed
  show "\<exists>r t'. tc_free_fd fd0 t = Some (r, t') \<and> fd_file t' = (fd_file t)(fd0 := None) \<and> r = (if fd0 \<in> dom (fd_file t) then 0 else - EINVAL)"
    using free_fd_closed [OF ok, of fd0] free_fd_open [OF ok, of fd0] by (cases "fd_file t fd0") (auto simp: fun_upd_idem)
qed

theorem fd_table_refines_witness:
  "\<exists>init fd t'. vinit_fds 0 (\<lambda>_. 0) static_table = Some (0, init) \<and>
     tc_alloc_fd (\<lparr>sid_seqid = 1, sid_other = ''abcdefghijkl''\<rparr>, \<lparr>nfs_fh4_len = 2, nfs_fh4_val = Some ''fh''\<rparr>) init = Some (fd, t') \<and>
     (\<exists>k. fd_file t' = [fd \<mapsto> k] \<and> nfs_fh4_val (kfd_fh k) = Some ''fh'')"
proof -
  obtain init where i: "vinit_fds 0 (\<lambda>_. 0) static_table = Some (0, init)" "fd_file init = Map.empty" using static_table_init by blast
  from fd_table_refines [OF i(1), of init "\<lparr>nfs_fh4_len = 2, nfs_fh4_val = Some ''fh''\<rparr>" "\<lparr>sid_seqid = 1, sid_other = ''abcdefghijkl''\<rparr>"] i
  show ?thesis by (fastforce simp: opened_def)
qed

end
