(* ===== verification/Nfs4_Backend.thy ===== *)
theory Nfs4_Backend
  imports Fd_Table Iovec_Utils
begin

text \<open>
  The NFSv4 side of the client interface (\<^verbatim>\<open>nfs4/tc_impl_nfs4.c\<close>): reading, writing, opening, closing and
  the operations on names and attributes, in batches, on top of the table of open files.

  The operations that build and send compounds are those of the export object and are parameters
  (\<open>nfs4_env\<close>): each takes the elements of an array from a given position on and returns a result, the
  elements as it left them, and the new state \<open>'w\<close> of the world behind it (server, buffers, arrays of
  attributes).  \<open>None\<close> as the result of an operation means that it does not return or is undefined.
\<close>

section \<open>State and environment\<close>

abbreviation (input) ENOENT :: int where "ENOENT \<equiv> 2"
abbreviation (input) EAGAIN :: int where "EAGAIN \<equiv> 11"
abbreviation (input) ENOMEM :: int where "ENOMEM \<equiv> 12"
abbreviation (input) ENOTSUP :: int where "ENOTSUP \<equiv> 95"

definition TC_OFFSET_CUR :: u64 where "TC_OFFSET_CUR = - 2"
definition CPD_LIMIT :: u64 where "CPD_LIMIT = 2 ^ 20"

record vfile_pair =
  src_file :: vfile
  dst_file :: vfile

record vextent_pair =
  src_path :: string
  dst_path :: string
  src_offset :: u64
  dst_offset :: u64
  ext_length :: u64

text \<open>The private data of a vector on a descriptor: both pointers lead to the entry \<open>fdd_kfd\<close> of the table.\<close>

record nfs4_fd_data =
  fdd_kfd :: nat
  fd_cursor :: u64

text \<open>Memory for private data: an address is an index, and \<open>None\<close> is memory given back.\<close>

record 'w client =
  cl_fds :: fd_table
  cl_heap :: "nfs4_fd_data option list"
  cl_world :: 'w

type_synonym close_arg = "nfs_fh4 \<times> stateid4 \<times> u32"

text \<open>\<open>junk\<close> is what a result variable holds before it is assigned.\<close>

record 'w nfs4_env =
  has_export :: bool
  fullpath :: string
  eff_uid :: u32
  eff_gid :: u32
  junk :: vres
  fd_data_ok :: "nat \<Rightarrow> bool"
  saved_ok :: bool
  handle_alloc_ok :: "nat \<Rightarrow> bool"
  op_vec_read :: "(viovec list \<Rightarrow> nat \<Rightarrow> 'w \<Rightarrow> vres \<times> viovec list \<times> 'w) option"
  op_vec_write :: "(viovec list \<Rightarrow> nat \<Rightarrow> 'w \<Rightarrow> vres \<times> viovec list \<times> 'w) option"
  op_vec_read_write :: "(viovec list \<Rightarrow> nat \<Rightarrow> 'w \<Rightarrow> vres \<times> viovec list \<times> 'w) option"
  op_vec_open :: "((vattrs \<times> int \<times> stateid4) list \<Rightarrow> 'w \<Rightarrow> vres \<times> (vattrs \<times> int \<times> stateid4) list \<times> 'w) option"
  op_vec_close :: "close_arg list \<Rightarrow> 'w \<Rightarrow> vres \<times> 'w"
  op_vec_lgetattrs :: "vattrs list \<Rightarrow> 'w \<Rightarrow> vres \<times> vattrs list \<times> 'w"
  op_vec_lsetattrs :: "vattrs list \<Rightarrow> 'w \<Rightarrow> vres \<times> vattrs list \<times> 'w"
  op_vec_mkdir :: "vattrs list \<Rightarrow> 'w \<Rightarrow> vres \<times> vattrs list \<times> 'w"
  op_vec_rename :: "vfile_pair list \<Rightarrow> 'w \<Rightarrow> vres \<times> 'w"
  op_vec_remove :: "vfile list \<Rightarrow> 'w \<Rightarrow> vres \<times> 'w"
  op_vec_lcopy :: "vextent_pair list \<Rightarrow> 'w \<Rightarrow> vres \<times> 'w"
  op_vec_hardlink :: "(string \<times> string) list \<Rightarrow> 'w \<Rightarrow> vres \<times> 'w"
  op_vec_symlink :: "(string \<times> string) list \<Rightarrow> 'w \<Rightarrow> vres \<times> 'w"
  op_vec_readlink :: "(string \<times> string option \<times> u64) list \<Rightarrow> 'w \<Rightarrow> vres \<times> (string \<times> string option \<times> u64) list \<times> 'w"
  op_sca_chdir :: "string \<Rightarrow> 'w \<Rightarrow> int \<times> 'w"
  op_sca_getcwd :: "'w \<Rightarrow> string"

section \<open>Batches\<close>

text \<open>
  The loop around every vectorised operation.  Each round hands over the elements not finished; on
  success the result's index tells how many were done, on failure which element failed.  A round that
  succeeds without finishing an element is repeated.
\<close>

partial_function (option) vec_loop ::
  "('a list \<Rightarrow> nat \<Rightarrow> 'w \<Rightarrow> vres \<times> 'a list \<times> 'w) \<Rightarrow> vres \<Rightarrow> 'a list \<Rightarrow> 'a list \<Rightarrow> 'w \<Rightarrow> (vres \<times> 'a list \<times> 'w) option" where
  [code]: "vec_loop op tcres finished rest w =
     (if rest = [] then Some (tcres, finished, w)
      else case op rest (length finished) w of (r, rest', w') \<Rightarrow>
        if \<not> vokay r then Some (r\<lparr>vr_index := vr_index r + int (length finished)\<rparr>, finished @ rest', w')
        else if vr_index r < 0 then None
        else vec_loop op r (finished @ take (nat (vr_index r)) rest') (drop (nat (vr_index r)) rest') w')"

text \<open>An operation that does not change its array.\<close>

definition const_arg :: "('a list \<Rightarrow> 'w \<Rightarrow> vres \<times> 'w) \<Rightarrow> 'a list \<Rightarrow> nat \<Rightarrow> 'w \<Rightarrow> vres \<times> 'a list \<times> 'w" where
  "const_arg op xs k w = (case op xs w of (r, w') \<Rightarrow> (r, xs, w'))"

text \<open>
  The three functions for vectors of data: \<open>j\<close> is the position from which the arrays of attributes are
  filled.
\<close>

definition do_vec ::
  "'w nfs4_env \<Rightarrow> (viovec list \<Rightarrow> nat \<Rightarrow> 'w \<Rightarrow> vres \<times> viovec list \<times> 'w) option \<Rightarrow> viovec list \<Rightarrow> nat \<Rightarrow> 'w \<Rightarrow>
   (vres \<times> viovec list \<times> 'w) option" where
  "do_vec env op iovs j w =
     (if \<not> has_export env then Some (vfailure 0 ENOENT, iovs, w)
      else case op of
        None \<Rightarrow> Some (vfailure 0 ENOTSUP, iovs, w)
      | Some f \<Rightarrow> vec_loop (\<lambda>xs k. f xs (j + k)) (vfailure 0 ENOENT) [] iovs w)"

definition nfs4_do_readv :: "'w nfs4_env \<Rightarrow> viovec list \<Rightarrow> nat \<Rightarrow> 'w \<Rightarrow> (vres \<times> viovec list \<times> 'w) option" where
  "nfs4_do_readv env = do_vec env (op_vec_read env)"

definition nfs4_do_writev :: "'w nfs4_env \<Rightarrow> viovec list \<Rightarrow> nat \<Rightarrow> 'w \<Rightarrow> (vres \<times> viovec list \<times> 'w) option" where
  "nfs4_do_writev env = do_vec env (op_vec_write env)"

definition nfs4_do_read_writev :: "'w nfs4_env \<Rightarrow> viovec list \<Rightarrow> nat \<Rightarrow> 'w \<Rightarrow> (vres \<times> viovec list \<times> 'w) option" where
  "nfs4_do_read_writev env = do_vec env (op_vec_read_write env)"

section \<open>Vectors on descriptors\<close>

definition nfs4_fill_fd_data :: "'w nfs4_env \<Rightarrow> vfile \<Rightarrow> 'w client \<Rightarrow> (int \<times> vfile \<times> 'w client) option" where
  "nfs4_fill_fd_data env tcf c =
     (if vf_type tcf \<noteq> VFILE_DESCRIPTOR then None
      else do {
        (tcfd, t1) \<leftarrow> tc_get_fd_struct (vf_fd tcf) False (cl_fds c);
        case tcfd of
          None \<Rightarrow> Some (- EINVAL, tcf, c\<lparr>cl_fds := t1\<rparr>)
        | Some i \<Rightarrow>
            let a = length (cl_heap c)
            in if \<not> fd_data_ok env a then Some (- ENOMEM, tcf, c\<lparr>cl_fds := tc_put_fd_struct i t1\<rparr>)
               else Some (0, tcf\<lparr>vf_ref := FdData a\<rparr>,
                      c\<lparr>cl_fds := tc_put_fd_struct i t1,
                        cl_heap := cl_heap c @ [Some \<lparr>fdd_kfd = i, fd_cursor = kfd_offset (fd_list t1 ! i)\<rparr>]\<rparr>)
      })"

definition nfs4_clear_fd_data :: "vfile \<Rightarrow> 'w client \<Rightarrow> (vfile \<times> 'w client) option" where
  "nfs4_clear_fd_data tcf c =
     (case vf_ref tcf of
        NullRef \<Rightarrow> Some (tcf, c)
      | FdData a \<Rightarrow> Some (tcf\<lparr>vf_ref := NullRef\<rparr>, c\<lparr>cl_heap := (cl_heap c)[a := None]\<rparr>)
      | _ \<Rightarrow> None)"

text \<open>The offset of a descriptor moves by the length of every vector at the current offset.\<close>

definition advance_cursor :: "viovec \<Rightarrow> 'w client \<Rightarrow> 'w client option" where
  "advance_cursor iov c =
     (if vi_offset iov \<noteq> TC_OFFSET_CUR then Some c
      else do {
        (tcfd, t1) \<leftarrow> tc_get_fd_struct (vf_fd (vi_file iov)) True (cl_fds c);
        i \<leftarrow> tcfd;
        Some (c\<lparr>cl_fds := tc_put_fd_struct i (upd_fd i (\<lambda>k. k\<lparr>kfd_offset := kfd_offset k + vi_length iov\<rparr>) t1)\<rparr>)
      })"

fun nfs4_clear_fd_iovecs :: "viovec list \<Rightarrow> 'w client \<Rightarrow> (viovec list \<times> 'w client) option" where
  "nfs4_clear_fd_iovecs [] c = Some ([], c)"
| "nfs4_clear_fd_iovecs (iov # iovs) c =
     (if vf_type (vi_file iov) = VFILE_DESCRIPTOR then do {
        c1 \<leftarrow> advance_cursor iov c;
        (f, c2) \<leftarrow> nfs4_clear_fd_data (vi_file iov) c1;
        (iovs', c3) \<leftarrow> nfs4_clear_fd_iovecs iovs c2;
        Some (iov\<lparr>vi_file := f\<rparr> # iovs', c3)
      }
      else do {
        (iovs', c1) \<leftarrow> nfs4_clear_fd_iovecs iovs c;
        Some (iov # iovs', c1)
      })"

text \<open>
  When a vector cannot be prepared, the ones before it are cleared, but the code decrements its index
  first: of \<open>n\<close> vectors prepared it clears \<open>n - 1\<close>.
\<close>

fun fill_loop :: "'w nfs4_env \<Rightarrow> viovec list \<Rightarrow> viovec list \<Rightarrow> 'w client \<Rightarrow> (int \<times> viovec list \<times> 'w client) option" where
  "fill_loop env finished [] c = Some (0, finished, c)"
| "fill_loop env finished (iov # iovs) c =
     (if vf_type (vi_file iov) = VFILE_DESCRIPTOR then do {
        (r, f, c1) \<leftarrow> nfs4_fill_fd_data env (vi_file iov) c;
        if r = 0 then fill_loop env (finished @ [iov\<lparr>vi_file := f\<rparr>]) iovs c1
        else do {
          (cleared, c2) \<leftarrow> nfs4_clear_fd_iovecs (take (length finished - 1) finished) c1;
          Some (r, cleared @ drop (length finished - 1) finished @ iov # iovs, c2)
        }
      }
      else fill_loop env (finished @ [iov]) iovs c)"

definition nfs4_fill_fd_iovecs :: "'w nfs4_env \<Rightarrow> viovec list \<Rightarrow> 'w client \<Rightarrow> (int \<times> viovec list \<times> 'w client) option" where
  "nfs4_fill_fd_iovecs env iovs c = fill_loop env [] iovs c"

text \<open>The parts are sent one after the other until one fails; \<open>j\<close> counts the vectors finished.\<close>

fun parts_loop ::
  "(viovec list \<Rightarrow> nat \<Rightarrow> 'w \<Rightarrow> (vres \<times> viovec list \<times> 'w) option) \<Rightarrow> vres \<Rightarrow> nat \<Rightarrow> viovec list list \<Rightarrow> 'w \<Rightarrow>
   (vres \<times> viovec list list \<times> 'w) option" where
  "parts_loop fn tcres j [] w = Some (tcres, [], w)"
| "parts_loop fn tcres j (part # parts) w = do {
     (r, part', w1) \<leftarrow> fn part j w;
     if \<not> vokay r then Some (r, part' # parts, w1)
     else do {
       (r2, parts', w2) \<leftarrow> parts_loop fn r (j + length (filter vi_is_last_of_multiparts part')) parts w1;
       Some (r2, part' # parts', w2)
     }
   }"

text \<open>\<open>fuel\<close> bounds the rounds of the splitting loop, which may not end.\<close>

definition nfs4_do_iovec ::
  "nat \<Rightarrow> 'w nfs4_env \<Rightarrow> (viovec list \<Rightarrow> nat \<Rightarrow> 'w \<Rightarrow> (vres \<times> viovec list \<times> 'w) option) \<Rightarrow> viovec list \<Rightarrow> 'w client \<Rightarrow>
   (vres \<times> viovec list \<times> 'w client) option" where
  "nfs4_do_iovec fuel env fn iovs c = do {
     (r, iovs1, c1) \<leftarrow> nfs4_fill_fd_iovecs env (map (\<lambda>v. v\<lparr>vi_is_eof := False, vi_is_failure := False\<rparr>) iovs) c;
     if r \<noteq> 0 then Some (vfailure 0 r, iovs1, c1)
     else do {
       parts \<leftarrow> tc_split_iov_array fuel iovs1 CPD_LIMIT;
       (tcres, parts', w) \<leftarrow> parts_loop fn (vfailure (vr_index (junk env)) 0) 0 parts (cl_world c1);
       (_, iovs2) \<leftarrow> vrestore_iov_array iovs1 parts';
       (iovs3, c2) \<leftarrow> nfs4_clear_fd_iovecs iovs2 (c1\<lparr>cl_world := w\<rparr>);
       Some (tcres, iovs3, c2)
     }
   }"

definition nfs4_readv :: "nat \<Rightarrow> 'w nfs4_env \<Rightarrow> viovec list \<Rightarrow> 'w client \<Rightarrow> (vres \<times> viovec list \<times> 'w client) option" where
  "nfs4_readv fuel env = nfs4_do_iovec fuel env (nfs4_do_readv env)"

definition nfs4_writev :: "nat \<Rightarrow> 'w nfs4_env \<Rightarrow> viovec list \<Rightarrow> 'w client \<Rightarrow> (vres \<times> viovec list \<times> 'w client) option" where
  "nfs4_writev fuel env = nfs4_do_iovec fuel env (nfs4_do_writev env)"

definition nfs4_read_writev :: "nat \<Rightarrow> 'w nfs4_env \<Rightarrow> viovec list \<Rightarrow> 'w client \<Rightarrow> (vres \<times> viovec list \<times> 'w client) option" where
  "nfs4_read_writev fuel env = nfs4_do_iovec fuel env (nfs4_do_read_writev env)"

section \<open>Closing and seeking\<close>

text \<open>The arguments for the server are collected without the entries of type \<open>VFILE_NULL\<close>.\<close>

fun close_args :: "vfile list \<Rightarrow> fd_table \<Rightarrow> (close_arg list \<times> fd_table) option" where
  "close_args [] t = Some ([], t)"
| "close_args (f # fs) t =
     (if vf_type f = VFILE_NULL then close_args fs t
      else if vf_type f \<noteq> VFILE_DESCRIPTOR then None
      else do {
        (tcfd, t1) \<leftarrow> tc_get_fd_struct (vf_fd f) False t;
        i \<leftarrow> tcfd;
        let k = fd_list t1 ! i;
        (args, t2) \<leftarrow> close_args fs (tc_put_fd_struct i t1);
        Some ((kfd_fh k, kfd_stateid k, kfd_seqid k) # args, t2)
      })"

text \<open>
  The descriptors of the array from \<open>finished\<close> on are freed as the server closes the collected arguments
  from \<open>finished\<close> on, although the array may hold entries that were not collected.
\<close>

partial_function (option) close_loop ::
  "(close_arg list \<Rightarrow> 'w \<Rightarrow> vres \<times> 'w) \<Rightarrow> vres \<Rightarrow> nat \<Rightarrow> close_arg list \<Rightarrow> vfile list \<Rightarrow> fd_table \<Rightarrow> 'w \<Rightarrow>
   (vres \<times> vfile list \<times> fd_table \<times> 'w) option" where
  [code]: "close_loop op tcres finished args files t w =
     (if length args \<le> finished then Some (tcres, files, t, w)
      else case op (drop finished args) w of (r, w1) \<Rightarrow>
        if \<not> vokay r then Some (r\<lparr>vr_index := vr_index r + int finished\<rparr>, files, t, w1)
        else if vr_index r < 0 \<or> length files < finished + nat (vr_index r) then None
        else do {
          let n = nat (vr_index r);
          t1 \<leftarrow> free_each tc_free_fd (map vf_fd (take n (drop finished files))) t;
          let files1 = take finished files @ map (\<lambda>f. f\<lparr>vf_type := VFILE_NULL\<rparr>) (take n (drop finished files)) @ drop (finished + n) files;
          close_loop op r (finished + n) args files1 t1 w1
        })"

definition nfs4_closev :: "'w nfs4_env \<Rightarrow> vfile list \<Rightarrow> 'w client \<Rightarrow> (vres \<times> vfile list \<times> 'w client) option" where
  "nfs4_closev env files c = do {
     (args, t1) \<leftarrow> close_args files (cl_fds c);
     (tcres, files1, t2, w) \<leftarrow> close_loop (op_vec_close env) \<lparr>vr_index = int (length files), vr_err_no = 0\<rparr> 0 args files t1 (cl_world c);
     t3 \<leftarrow> free_each tc_free_fd (map vf_fd (filter (\<lambda>f. vf_type f \<noteq> VFILE_NULL) files1)) t2;
     Some (tcres, files1, c\<lparr>cl_fds := t3, cl_world := w\<rparr>)
   }"

definition nfs4_fseek :: "vfile \<Rightarrow> u64 \<Rightarrow> int \<Rightarrow> 'w client \<Rightarrow> (u64 \<times> 'w client) option" where
  "nfs4_fseek tcf offset whence c =
     (if vf_type tcf \<noteq> VFILE_DESCRIPTOR \<or> whence \<notin> {0, 1, 2} then None
      else do {
        (tcfd, t1) \<leftarrow> tc_get_fd_struct (vf_fd tcf) True (cl_fds c);
        i \<leftarrow> tcfd;
        let k = fd_list t1 ! i;
        let off = (if whence = 0 then offset else if whence = 1 then kfd_offset k + offset else kfd_filesize k + offset);
        Some (off, c\<lparr>cl_fds := tc_put_fd_struct i (upd_fd i (\<lambda>k. k\<lparr>kfd_offset := off\<rparr>) t1)\<rparr>)
      })"

definition nfs4_close_impl :: "'w nfs4_env \<Rightarrow> nat \<Rightarrow> fd_table \<Rightarrow> 'w \<Rightarrow> (int \<times> fd_table \<times> 'w) option" where
  "nfs4_close_impl env i t w =
     (let k = fd_list t ! i
      in case op_vec_close env [(kfd_fh k, kfd_stateid k, kfd_seqid k)] w of (tcres, w1) \<Rightarrow>
           if \<not> vokay tcres then Some (EAGAIN, t, w1)
           else do { (_, t1) \<leftarrow> tc_free_fd (kfd_fd k) t; Some (0, t1, w1) })"

definition nfs4_close_all :: "'w nfs4_env \<Rightarrow> 'w client \<Rightarrow> 'w client option" where
  "nfs4_close_all env c = do {
     (_, t, w) \<leftarrow> tc_for_each_fd (nfs4_close_impl env) (cl_fds c) (cl_world c);
     Some (c\<lparr>cl_fds := t, cl_world := w\<rparr>)
   }"

section \<open>Opening\<close>

definition zero_stateid :: stateid4 where
  "zero_stateid = \<lparr>sid_seqid = 0, sid_other = replicate 12 NUL\<rparr>"

definition open_attrs :: "'w nfs4_env \<Rightarrow> string \<Rightarrow> int \<Rightarrow> u32 \<Rightarrow> vattrs \<Rightarrow> vattrs" where
  "open_attrs env path flags mode a =
     (if bit flags 6 then vset_up_creation (eff_uid env) (eff_gid env) a path mode else a\<lparr>va_file := vfile_from_path path\<rparr>)"

text \<open>The files a batch opened get descriptors; with none left the code runs into a null pointer.\<close>

fun open_fds :: "(vattrs \<times> int \<times> stateid4) list \<Rightarrow> fd_table \<Rightarrow> (vfile list \<times> fd_table) option" where
  "open_fds [] t = Some ([], t)"
| "open_fds ((a, _, sid) # rest) t = do {
     h \<leftarrow> vf_handle (va_file a);
     (fd, t1) \<leftarrow> tc_alloc_fd (sid, \<lparr>nfs_fh4_len = handle_bytes h, nfs_fh4_val = Some (f_handle h)\<rparr>) t;
     (tcfd, t2) \<leftarrow> tc_get_fd_struct fd True t1;
     i \<leftarrow> tcfd;
     let t3 = upd_fd i (\<lambda>k. k\<lparr>kfd_filesize := va_size a\<rparr>) t2;
     let tcf = vfile_from_fd (kfd_fd (fd_list t3 ! i));
     (tcfs, t4) \<leftarrow> open_fds rest (tc_put_fd_struct i t3);
     Some (tcf # tcfs, t4)
   }"

partial_function (option) open_loop ::
  "'w nfs4_env \<Rightarrow> ((vattrs \<times> int \<times> stateid4) list \<Rightarrow> 'w \<Rightarrow> vres \<times> (vattrs \<times> int \<times> stateid4) list \<times> 'w) \<Rightarrow> vfile list \<Rightarrow>
   (vattrs \<times> int \<times> stateid4) list \<Rightarrow> (vattrs \<times> int \<times> stateid4) list \<Rightarrow> 'w client \<Rightarrow>
   (vfile list option \<times> vattrs list \<times> 'w client) option" where
  [code]: "open_loop env op tcfs finished rest c =
     (if rest = [] then Some (Some tcfs, map fst finished, c)
      else case op rest (cl_world c) of (r, rest1, w) \<Rightarrow>
        if \<not> vokay r then do {
          (_, _, c1) \<leftarrow> nfs4_closev env tcfs (c\<lparr>cl_world := w\<rparr>);
          Some (None, map fst (finished @ rest1), c1)
        }
        else if vr_index r < 0 \<or> length rest1 < nat (vr_index r) then None
        else do {
          let n = nat (vr_index r);
          (fs, t) \<leftarrow> open_fds (take n rest1) (cl_fds c);
          open_loop env op (tcfs @ fs) (finished @ take n rest1) (drop n rest1) (c\<lparr>cl_fds := t, cl_world := w\<rparr>)
        })"

text \<open>A file to open is its path, flags, mode and attributes; with no modes given the mode is 0.\<close>

definition nfs4_openv ::
  "'w nfs4_env \<Rightarrow> (string \<times> int \<times> u32 \<times> vattrs) list \<Rightarrow> 'w client \<Rightarrow> (vfile list option \<times> vattrs list \<times> 'w client) option" where
  "nfs4_openv env files c =
     (case op_vec_open env of
        None \<Rightarrow> Some (None, map (\<lambda>(_, _, _, a). a) files, c)
      | Some op \<Rightarrow> open_loop env op [] [] (map (\<lambda>(path, flags, mode, a). (open_attrs env path flags mode a, flags, zero_stateid)) files) c)"

section \<open>Attributes and names\<close>

definition nfs4_restore_vfiles :: "nat \<Rightarrow> vfile list \<Rightarrow> vattrs list \<Rightarrow> vattrs list" where
  "nfs4_restore_vfiles n saved attrs =
     map2 (\<lambda>f a. if vf_type f \<noteq> vf_type (va_file a) \<and> vf_type (va_file a) = VFILE_HANDLE then a\<lparr>va_file := f\<rparr> else a)
       (take n saved) (take n attrs) @ drop n attrs"

text \<open>Descriptors are replaced by handles; when one cannot be, the code again restores one file too few.\<close>

fun process_loop :: "'w nfs4_env \<Rightarrow> vattrs list \<Rightarrow> vfile list \<Rightarrow> vattrs list \<Rightarrow> fd_table \<Rightarrow> (vfile list option \<times> vattrs list \<times> fd_table) option" where
  "process_loop env finished saved [] t = Some (Some saved, finished, t)"
| "process_loop env finished saved (a # rest) t =
     (if vf_type (va_file a) \<noteq> VFILE_DESCRIPTOR then process_loop env (finished @ [a]) (saved @ [va_file a]) rest t
      else do {
        (tcfd, t1) \<leftarrow> tc_get_fd_struct (vf_fd (va_file a)) False t;
        case tcfd of
          None \<Rightarrow> Some (None, nfs4_restore_vfiles (length finished - 1) saved (finished @ a # rest), t1)
        | Some i \<Rightarrow> do {
            let fh = kfd_fh (fd_list t1 ! i);
            let t2 = tc_put_fd_struct i t1;
            val \<leftarrow> nfs_fh4_val fh;
            case new_file_handle (handle_alloc_ok env (length finished)) (unat (nfs_fh4_len fh)) val of
              None \<Rightarrow> Some (None, nfs4_restore_vfiles (length finished - 1) saved (finished @ a # rest), t2)
            | Some h \<Rightarrow>
                process_loop env (finished @ [a\<lparr>va_file := (va_file a)\<lparr>vf_type := VFILE_HANDLE, vf_ref := HandleRef h\<rparr>\<rparr>])
                  (saved @ [va_file a]) rest t2
          }
      })"

definition nfs4_process_vfiles :: "'w nfs4_env \<Rightarrow> vattrs list \<Rightarrow> fd_table \<Rightarrow> (vfile list option \<times> vattrs list \<times> fd_table) option" where
  "nfs4_process_vfiles env attrs t = (if \<not> saved_ok env then Some (None, attrs, t) else process_loop env [] [] attrs t)"

text \<open>The three operations on attributes differ in the call and in the initial result.\<close>

definition attrs_op ::
  "'w nfs4_env \<Rightarrow> (vattrs list \<Rightarrow> 'w \<Rightarrow> vres \<times> vattrs list \<times> 'w) \<Rightarrow> vres \<Rightarrow> vattrs list \<Rightarrow> 'w client \<Rightarrow>
   (vres \<times> vattrs list \<times> 'w client) option" where
  "attrs_op env op tcres attrs c = do {
     (saved, attrs1, t) \<leftarrow> nfs4_process_vfiles env attrs (cl_fds c);
     case saved of
       None \<Rightarrow> Some (vfailure 0 ENOMEM, attrs1, c\<lparr>cl_fds := t\<rparr>)
     | Some fs \<Rightarrow> do {
         (r, attrs2, w) \<leftarrow> vec_loop (\<lambda>xs k. op xs) tcres [] attrs1 (cl_world c);
         Some (r, nfs4_restore_vfiles (length attrs) fs attrs2, c\<lparr>cl_fds := t, cl_world := w\<rparr>)
       }
   }"

definition nfs4_lgetattrsv :: "'w nfs4_env \<Rightarrow> vattrs list \<Rightarrow> 'w client \<Rightarrow> (vres \<times> vattrs list \<times> 'w client) option" where
  "nfs4_lgetattrsv env attrs c = attrs_op env (op_vec_lgetattrs env) (vfailure (int (length attrs)) 0) attrs c"

definition nfs4_lsetattrsv :: "'w nfs4_env \<Rightarrow> vattrs list \<Rightarrow> 'w client \<Rightarrow> (vres \<times> vattrs list \<times> 'w client) option" where
  "nfs4_lsetattrsv env attrs c = attrs_op env (op_vec_lsetattrs env) (vfailure (int (length attrs)) 0) attrs c"

definition nfs4_mkdirv :: "'w nfs4_env \<Rightarrow> vattrs list \<Rightarrow> 'w client \<Rightarrow> (vres \<times> vattrs list \<times> 'w client) option" where
  "nfs4_mkdirv env dirs c = attrs_op env (op_vec_mkdir env) (junk env) dirs c"

definition nfs4_renamev :: "'w nfs4_env \<Rightarrow> vfile_pair list \<Rightarrow> 'w \<Rightarrow> (vres \<times> vfile_pair list \<times> 'w) option" where
  "nfs4_renamev env pairs w = vec_loop (const_arg (op_vec_rename env)) (junk env) [] pairs w"

definition nfs4_removev :: "'w nfs4_env \<Rightarrow> vfile list \<Rightarrow> 'w \<Rightarrow> (vres \<times> vfile list \<times> 'w) option" where
  "nfs4_removev env files w = vec_loop (const_arg (op_vec_remove env)) (vfailure 0 0) [] files w"

definition nfs4_lcopyv :: "'w nfs4_env \<Rightarrow> vextent_pair list \<Rightarrow> 'w \<Rightarrow> (vres \<times> vextent_pair list \<times> 'w) option" where
  "nfs4_lcopyv env pairs w = vec_loop (const_arg (op_vec_lcopy env)) (vfailure 0 0) [] pairs w"

definition nfs4_hardlinkv :: "'w nfs4_env \<Rightarrow> (string \<times> string) list \<Rightarrow> 'w \<Rightarrow> (vres \<times> (string \<times> string) list \<times> 'w) option" where
  "nfs4_hardlinkv env paths w = vec_loop (const_arg (op_vec_hardlink env)) (junk env) [] paths w"

definition nfs4_symlinkv :: "'w nfs4_env \<Rightarrow> (string \<times> string) list \<Rightarrow> 'w \<Rightarrow> (vres \<times> (string \<times> string) list \<times> 'w) option" where
  "nfs4_symlinkv env paths w = vec_loop (const_arg (op_vec_symlink env)) (junk env) [] paths w"

definition nfs4_readlinkv ::
  "'w nfs4_env \<Rightarrow> (string \<times> string option \<times> u64) list \<Rightarrow> 'w \<Rightarrow> (vres \<times> (string \<times> string option \<times> u64) list \<times> 'w) option" where
  "nfs4_readlinkv env links w = vec_loop (\<lambda>xs k. op_vec_readlink env xs) (junk env) [] links w"

definition nfs4_chdir :: "'w nfs4_env \<Rightarrow> string \<Rightarrow> 'w \<Rightarrow> int \<times> 'w" where
  "nfs4_chdir env path w =
     (if take (length (fullpath env)) path \<noteq> fullpath env then (- EINVAL, w) else op_sca_chdir env path w)"

definition nfs4_getcwd :: "'w nfs4_env \<Rightarrow> 'w \<Rightarrow> string" where
  "nfs4_getcwd env w = op_sca_getcwd env w"

section \<open>The loop of the batches\<close>

lemma vec_loop_Nil [simp]: "vec_loop op tcres finished [] w = Some (tcres, finished, w)"
  by (subst vec_loop.simps) simp

lemma vec_loop_fails:
  assumes "rest \<noteq> []" "op rest (length finished) w = (vfailure n e, rest', w')" "e \<noteq> 0"
  shows "vec_loop op tcres finished rest w = Some (vfailure (n + int (length finished)) e, finished @ rest', w')"
  using assms by (subst vec_loop.simps) (simp add: vokay_def vfailure_def)

lemma vec_loop_more:
  assumes "rest \<noteq> []" "op rest (length finished) w = (vfailure (int n) 0, rest', w')"
  shows "vec_loop op tcres finished rest w = vec_loop op (vfailure (int n) 0) (finished @ take n rest') (drop n rest') w'"
  using assms by (subst vec_loop.simps) (simp add: vokay_def vfailure_def)

section \<open>Vectors on descriptors and the table\<close>

text \<open>The vectors with their private data, as they are sent: addresses from \<open>n\<close> on.\<close>

abbreviation on_fd :: "viovec \<Rightarrow> bool" where
  "on_fd v \<equiv> vf_type (vi_file v) = VFILE_DESCRIPTOR"

fun filled :: "nat \<Rightarrow> viovec list \<Rightarrow> viovec list" where
  "filled n [] = []"
| "filled n (v # vs) = (if on_fd v then v\<lparr>vi_file := (vi_file v)\<lparr>vf_ref := FdData n\<rparr>\<rparr> # filled (Suc n) vs else v # filled n vs)"

definition fds_open :: "viovec list \<Rightarrow> fd_table \<Rightarrow> bool" where
  "fds_open vs t \<longleftrightarrow> (\<forall>v \<in> set vs. on_fd v \<longrightarrow> vf_fd (vi_file v) \<in> dom (fd_file t) \<and> vf_ref (vi_file v) = NullRef)"

lemma fill_fd_data_ok:
  assumes "fds_ok (cl_fds c)" "fd_file (cl_fds c) (vf_fd f) = Some k" "vf_type f = VFILE_DESCRIPTOR" "fd_data_ok env (length (cl_heap c))"
  shows "\<exists>d. nfs4_fill_fd_data env f c = Some (0, f\<lparr>vf_ref := FdData (length (cl_heap c))\<rparr>, c\<lparr>cl_heap := cl_heap c @ [Some d]\<rparr>)"
proof -
  from get_fd_open [OF assms(1,2), of False] obtain i where i: "i < MAX_FD"
    and get: "tc_get_fd_struct (vf_fd f) False (cl_fds c) = Some (Some i, upd_fd i (\<lambda>k. k\<lparr>fd_lock := lock_state False\<rparr>) (cl_fds c))" by blast
  have "tc_put_fd_struct i (upd_fd i (\<lambda>k. k\<lparr>fd_lock := lock_state False\<rparr>) (cl_fds c)) = cl_fds c" using put_get [OF assms(1) i] .
  then show ?thesis using get assms(3,4) by (simp add: nfs4_fill_fd_data_def Let_def) (rule exI, rule refl)
qed

lemma fill_loop_ok:
  assumes "fds_ok (cl_fds c)" "fds_open iovs (cl_fds c)" "\<forall>a. fd_data_ok env a"
  shows "\<exists>ds. fill_loop env fin iovs c = Some (0, fin @ filled (length (cl_heap c)) iovs, c\<lparr>cl_heap := cl_heap c @ ds\<rparr>) \<and>
    length ds = length (filter on_fd iovs)"
  using assms
proof (induction iovs arbitrary: fin c)
  case (Cons v vs)
  have open': "fds_open vs (cl_fds c)" using Cons.prems(2) by (simp add: fds_open_def)
  show ?case
  proof (cases "on_fd v")
    case True
    then obtain k where "fd_file (cl_fds c) (vf_fd (vi_file v)) = Some k" using Cons.prems(2) by (auto simp: fds_open_def)
    from fill_fd_data_ok [OF Cons.prems(1) this True] Cons.prems(3) obtain d
      where d: "nfs4_fill_fd_data env (vi_file v) c = Some (0, (vi_file v)\<lparr>vf_ref := FdData (length (cl_heap c))\<rparr>, c\<lparr>cl_heap := cl_heap c @ [Some d]\<rparr>)"
      by blast
    let ?v = "v\<lparr>vi_file := (vi_file v)\<lparr>vf_ref := FdData (length (cl_heap c))\<rparr>\<rparr>"
    from Cons.IH [of "c\<lparr>cl_heap := cl_heap c @ [Some d]\<rparr>" "fin @ [?v]"] Cons.prems open'
    obtain ds where "fill_loop env (fin @ [?v]) vs (c\<lparr>cl_heap := cl_heap c @ [Some d]\<rparr>) =
        Some (0, (fin @ [?v]) @ filled (Suc (length (cl_heap c))) vs, c\<lparr>cl_heap := (cl_heap c @ [Some d]) @ ds\<rparr>)" "length ds = length (filter on_fd vs)"
      by auto
    then show ?thesis using True d by (intro exI [of _ "Some d # ds"]) simp
  next
    case False
    then show ?thesis using Cons.IH [of c "fin @ [v]"] Cons.prems open' by simp
  qed
qed simp

text \<open>The bytes that vectors transfer at the current offset of a descriptor, and the files with their offsets moved.\<close>

definition cur_bytes :: "int \<Rightarrow> viovec list \<Rightarrow> u64" where
  "cur_bytes fd vs = sum_list (map vi_length (filter (\<lambda>v. on_fd v \<and> vf_fd (vi_file v) = fd \<and> vi_offset v = TC_OFFSET_CUR) vs))"

definition moved :: "viovec list \<Rightarrow> (int \<Rightarrow> tc_kfd option) \<Rightarrow> int \<Rightarrow> tc_kfd option" where
  "moved vs m fd = map_option (\<lambda>k. k\<lparr>kfd_offset := kfd_offset k + cur_bytes fd vs\<rparr>) (m fd)"

lemma cur_bytes_simps [simp]:
  "cur_bytes fd [] = 0"
  "cur_bytes fd (v # vs) = (if on_fd v \<and> vf_fd (vi_file v) = fd \<and> vi_offset v = TC_OFFSET_CUR then vi_length v + cur_bytes fd vs else cur_bytes fd vs)"
  by (simp_all add: cur_bytes_def)

lemma moved_Nil [simp]: "moved [] m = m"
  by (rule ext) (simp add: moved_def option.map_ident)

lemma moved_Cons: "moved vs (moved [v] m) = moved (v # vs) m"
  by (rule ext) (auto simp: moved_def option.map_comp comp_def add.assoc intro!: option.map_cong)

lemma dom_moved [simp]: "dom (moved vs m) = dom m"
  by (auto simp: moved_def dom_def)

lemma advance_cursor_ok:
  assumes "fds_ok (cl_fds c)" "vf_fd (vi_file v) \<in> dom (fd_file (cl_fds c))" "on_fd v"
  shows "\<exists>t. advance_cursor v c = Some (c\<lparr>cl_fds := t\<rparr>) \<and> fds_ok t \<and> fd_file t = moved [v] (fd_file (cl_fds c))"
proof (cases "vi_offset v = TC_OFFSET_CUR")
  case False
  then have "moved [v] (fd_file (cl_fds c)) = fd_file (cl_fds c)" by (auto simp: moved_def fun_eq_iff option.map_ident)
  then show ?thesis using False assms(1) by (intro exI [of _ "cl_fds c"]) (simp add: advance_cursor_def)
next
  case True
  obtain k where k: "fd_file (cl_fds c) (vf_fd (vi_file v)) = Some k" using assms(2) by blast
  from get_fd_open [OF assms(1) k, of True] obtain i t1 where get: "tc_get_fd_struct (vf_fd (vi_file v)) True (cl_fds c) = Some (Some i, t1)" by blast
  let ?f = "\<lambda>k. k\<lparr>kfd_offset := kfd_offset k + vi_length v\<rparr>"
  from use_fd [OF assms(1) get, of ?f] k
  have u: "fds_ok (tc_put_fd_struct i (upd_fd i ?f t1))"
    "fd_file (tc_put_fd_struct i (upd_fd i ?f t1)) = (fd_file (cl_fds c))(vf_fd (vi_file v) \<mapsto> ?f k)" by auto
  moreover have "(fd_file (cl_fds c))(vf_fd (vi_file v) \<mapsto> ?f k) = moved [v] (fd_file (cl_fds c))"
    using True assms(3) k by (auto simp: moved_def fun_eq_iff option.map_ident)
  ultimately show ?thesis using True get
    by (intro exI [of _ "tc_put_fd_struct i (upd_fd i ?f t1)"]) (simp add: advance_cursor_def)
qed

lemma clear_fd_iovecs_ok:
  assumes "fds_ok (cl_fds c)" "fds_open iovs (cl_fds c)" "cl_heap c = h @ ds" "length ds = length (filter on_fd iovs)"
  shows "\<exists>t. nfs4_clear_fd_iovecs (filled (length h) iovs) c =
      Some (iovs, c\<lparr>cl_fds := t, cl_heap := h @ replicate (length (filter on_fd iovs)) None\<rparr>) \<and>
    fds_ok t \<and> fd_file t = moved iovs (fd_file (cl_fds c))"
  using assms
proof (induction iovs arbitrary: c h ds)
  case (Cons v vs)
  have open': "fds_open vs (cl_fds c)" using Cons.prems(2) by (simp add: fds_open_def)
  show ?case
  proof (cases "on_fd v")
    case True
    then have v: "vf_fd (vi_file v) \<in> dom (fd_file (cl_fds c))" "vf_ref (vi_file v) = NullRef" using Cons.prems(2) by (auto simp: fds_open_def)
    let ?v = "v\<lparr>vi_file := (vi_file v)\<lparr>vf_ref := FdData (length h)\<rparr>\<rparr>"
    have "moved [?v] m = moved [v] m" for m by (auto simp: moved_def fun_eq_iff)
    with advance_cursor_ok [OF Cons.prems(1), of ?v] v(1) True obtain t
      where t: "advance_cursor ?v c = Some (c\<lparr>cl_fds := t\<rparr>)" "fds_ok t" "fd_file t = moved [v] (fd_file (cl_fds c))" by auto
    obtain d ds' where ds: "ds = d # ds'" using Cons.prems(4) True by (cases ds) auto
    let ?c = "c\<lparr>cl_fds := t, cl_heap := h @ None # ds'\<rparr>"
    have clr: "nfs4_clear_fd_data (vi_file ?v) (c\<lparr>cl_fds := t\<rparr>) = Some (vi_file v, ?c)"
      using Cons.prems(3) ds v(2) by (simp add: nfs4_clear_fd_data_def)
    have "fds_open vs (cl_fds ?c)" using open' t(3) by (simp add: fds_open_def)
    from Cons.IH [OF _ this, of "h @ [None]" ds'] t(2) Cons.prems(4) ds True obtain t'
      where "nfs4_clear_fd_iovecs (filled (Suc (length h)) vs) ?c =
          Some (vs, ?c\<lparr>cl_fds := t', cl_heap := (h @ [None]) @ replicate (length (filter on_fd vs)) None\<rparr>)"
        "fds_ok t'" "fd_file t' = moved vs (fd_file t)" by auto
    then show ?thesis using True t clr by (intro exI [of _ t']) (simp add: moved_Cons)
  next
    case False
    then have "moved (v # vs) m = moved vs m" for m by (auto simp: moved_def fun_eq_iff)
    then show ?thesis using Cons.IH [OF Cons.prems(1) open' Cons.prems(3)] Cons.prems(4) False by auto
  qed
next
  case Nil
  then show ?case by (intro exI [of _ "cl_fds c"]) auto
qed

text \<open>The calls for the parts: each returns, and the results of its pieces are as \<open>replied\<close> says.\<close>

definition replies :: "(viovec list \<Rightarrow> nat \<Rightarrow> 'w \<Rightarrow> (vres \<times> viovec list \<times> 'w) option) \<Rightarrow> bool" where
  "replies fn \<longleftrightarrow> (\<forall>part j w. (\<forall>p \<in> set part. \<not> vi_is_eof p) \<longrightarrow> (\<exists>r part' w'. fn part j w = Some (r, part', w') \<and> list_all2 replied part part'))"

lemma replied_refl: "\<forall>p \<in> set ps. \<not> vi_is_eof p \<Longrightarrow> list_all2 replied ps ps"
  by (simp add: list_all2_same replied_def)

lemma parts_loop_replied:
  assumes "replies fn" "vokay tcres" "\<forall>p \<in> set (concat parts). \<not> vi_is_eof p"
  shows "\<exists>r parts' w'. parts_loop fn tcres j parts w = Some (r, parts', w') \<and> list_all2 replied (concat parts) (concat parts') \<and>
    (vokay r \<or> (\<exists>part j w part' w'. fn part j w = Some (r, part', w')))"
  using assms(2,3)
proof (induction parts arbitrary: tcres j w)
  case (Cons part parts)
  then have "\<forall>p \<in> set part. \<not> vi_is_eof p" by simp
  then obtain r part' w1 where f: "fn part j w = Some (r, part', w1)" "list_all2 replied part part'"
    using assms(1) unfolding replies_def by blast
  show ?case
  proof (cases "vokay r")
    case True
    have "\<forall>p \<in> set (concat parts). \<not> vi_is_eof p" using Cons.prems(2) by simp
    from Cons.IH [OF True this, of "j + length (filter vi_is_last_of_multiparts part')" w1]
    obtain r2 parts' w2 where "parts_loop fn r (j + length (filter vi_is_last_of_multiparts part')) parts w1 = Some (r2, parts', w2)"
      "list_all2 replied (concat parts) (concat parts')" "vokay r2 \<or> (\<exists>part j w part' w'. fn part j w = Some (r2, part', w'))" by blast
    then show ?thesis using f True by (intro exI [of _ r2] exI [of _ "part' # parts'"] exI [of _ w2]) (simp add: list_all2_appendI)
  next
    case False
    have "list_all2 replied (concat parts) (concat parts)" by (rule replied_refl) (use Cons.prems(2) in simp)
    then have "list_all2 replied (concat (part # parts)) (concat (part' # parts))" using f(2) by (simp add: list_all2_appendI)
    moreover have "parts_loop fn tcres j (part # parts) w = Some (r, part' # parts, w1)" using f False by simp
    ultimately show ?thesis using f(1) by blast
  qed
qed simp

lemma list_all2_regroup: "list_all2 P (concat pss) ys \<Longrightarrow> \<exists>qss. list_all2 (list_all2 P) pss qss \<and> ys = concat qss"
proof (induction pss arbitrary: ys)
  case (Cons ps pss)
  then obtain us vs where u: "ys = us @ vs" "list_all2 P ps us" "list_all2 P (concat pss) vs" by (auto simp: list_all2_append1)
  then obtain qss where "list_all2 (list_all2 P) pss qss" "vs = concat qss" using Cons.IH by blast
  then show ?case using u by (intro exI [of _ "us # qss"]) simp
qed simp

text \<open>A vector comes back with another length only if the end of the file was met.\<close>

definition filled_up :: "viovec \<Rightarrow> viovec \<Rightarrow> bool" where
  "filled_up v v' \<longleftrightarrow> v' = v\<lparr>vi_length := vi_length v', vi_is_eof := vi_is_eof v'\<rparr> \<and> (vi_is_eof v' \<or> vi_length v' = vi_length v)"

lemma tiles_eof: "tiles iov off ps \<Longrightarrow> p \<in> set ps \<Longrightarrow> vi_is_eof p = vi_is_eof iov"
proof (induction iov off ps rule: tiles.induct)
  case (3 iov off q v va)
  then have "vi_is_eof q = vi_is_eof iov" by (metis split_piece_simps(4) tiles.simps(3))
  then show ?case using 3 by auto
qed auto

lemma tiles_total:
  assumes "list_all2 replied ps qs" "tiles iov off ps"
  shows "vi_is_eof (last qs) \<or> off + sum_list (map vi_length qs) = vi_length iov"
  using assms
proof (induction arbitrary: off rule: list_all2_induct)
  case (Cons p ps q qs)
  show ?case
  proof (cases ps)
    case Nil
    then show ?thesis using Cons by (auto simp: replied_def split: if_splits)
  next
    case (Cons p' ps')
    then have p: "unat off + unat (vi_length p) < unat (vi_length iov)" "p = split_piece iov off (vi_length p)"
      "tiles iov (off + vi_length p) ps" "qs \<noteq> []" using \<open>tiles iov off (p # ps)\<close> \<open>list_all2 replied ps qs\<close> by auto
    have "unat (off + vi_length p) < unat (vi_length iov)"
      using p(1) unat_u64 [of "vi_length iov"] by (simp add: unat_add_fits)
    then have "\<not> vi_is_last_of_multiparts p" using p(2) by (metis split_piece_simps(5) less_irrefl)
    then have "vi_length q = vi_length p" using \<open>replied p q\<close> by (auto simp: replied_def split: if_splits)
    then show ?thesis using Cons.IH [OF p(3)] p(4) by (simp add: add.assoc)
  qed
qed simp

lemma total_filled_up: "tiles v 0 ps \<Longrightarrow> list_all2 replied ps qs \<Longrightarrow> filled_up v (total v qs)"
  using tiles_total [of ps qs v 0] by (auto simp: filled_up_def total_def)

lemma filled_total: "length vs = length qss \<Longrightarrow> map2 total (filled n vs) qss = filled n (map2 total vs qss)"
  by (induction vs qss arbitrary: n rule: list_induct2) (auto simp: total_def)

lemma length_filled [simp]: "length (filled n vs) = length vs"
  by (induction vs arbitrary: n) auto

lemma filled_filled_up:
  assumes "length vs = length qss" "list_all2 (\<lambda>v qs. filled_up v (total v qs)) (filled n vs) qss"
  shows "list_all2 filled_up vs (map2 total vs qss)"
  using assms
  by (induction vs qss arbitrary: n rule: list_induct2) (auto simp: filled_up_def total_def split: if_splits)

lemma filled_up_keeps:
  assumes "filled_up v v'"
  shows "vi_file v' = vi_file v" "vi_offset v' = vi_offset v"
proof -
  obtain n e where "v' = v\<lparr>vi_length := n, vi_is_eof := e\<rparr>" using assms unfolding filled_up_def by blast
  then show "vi_file v' = vi_file v" "vi_offset v' = vi_offset v" by simp_all
qed

lemma filled_up_fds:
  assumes "list_all2 filled_up vs vs'"
  shows "fds_open vs t \<Longrightarrow> fds_open vs' t" "length (filter on_fd vs') = length (filter on_fd vs)"
proof -
  note eqf = filled_up_keeps(1)
  show "fds_open vs t \<Longrightarrow> fds_open vs' t" using assms by (induction rule: list_all2_induct) (auto simp: fds_open_def eqf)
  show "length (filter on_fd vs') = length (filter on_fd vs)" using assms by (induction rule: list_all2_induct) (auto simp: eqf)
qed

definition sendable :: "u64 \<Rightarrow> viovec \<Rightarrow> bool" where
  "sendable L v \<longleftrightarrow> fits L v \<and> vf_type (vi_file v) \<noteq> VFILE_HANDLE \<and> \<not> vi_is_eof v"

lemma sendable_data [simp]: "on_fd v \<Longrightarrow> sendable L (v\<lparr>vi_file := (vi_file v)\<lparr>vf_ref := x\<rparr>\<rparr>) = sendable L v"
  by (simp add: sendable_def fits_def splittable_def overhead_def tc_get_iov_overhead_def)

lemma sendable_cmp: "sendable L v \<Longrightarrow> tc_cmp_file (vi_file v) (vi_file v) = Some True"
  by (cases "vf_path (vi_file v)") (simp_all add: sendable_def tc_cmp_file_def split: VFILETYPE.splits)

lemma filled_sendable: "list_all (sendable L) vs \<Longrightarrow> list_all (sendable L) (filled n vs)"
  by (induction vs arbitrary: n) simp_all

definition reset_flags :: "viovec \<Rightarrow> viovec" where
  "reset_flags v = v\<lparr>vi_is_eof := False, vi_is_failure := False\<rparr>"

lemma reset_flags_simps [simp]:
  "vi_file (reset_flags v) = vi_file v" "vi_offset (reset_flags v) = vi_offset v" "vi_length (reset_flags v) = vi_length v"
  "\<not> vi_is_eof (reset_flags v)"
  by (simp_all add: reset_flags_def)

lemma reset_flags_fits [simp]: "fits L (reset_flags v) = fits L v" "rounds L (reset_flags v) = rounds L v"
  using overhead_file [of "reset_flags v" v] by (simp_all add: fits_def splittable_def overhead_def rounds_def)

lemma filled_rounds: "map (rounds L) (filled n vs) = map (rounds L) vs"
  by (induction vs arbitrary: n) (auto simp: rounds_def)

text \<open>Splitting, sending and restoring.\<close>

lemma send_parts:
  assumes fn: "replies fn" and vs: "\<forall>v \<in> set vs. sendable CPD_LIMIT v" and fuel: "sum_list (map (rounds CPD_LIMIT) vs) < fuel" and ok: "vokay tcres"
  shows "\<exists>parts parts' r w' qss. tc_split_iov_array fuel vs CPD_LIMIT = Some parts \<and>
    parts_loop fn tcres 0 parts w = Some (r, parts', w') \<and> vrestore_iov_array vs parts' = Some (True, map2 total vs qss) \<and>
    list_all2 (\<lambda>v qs. filled_up v (total v qs)) vs qss \<and> (vokay r \<or> (\<exists>part j w part' w'. fn part j w = Some (r, part', w')))"
proof -
  have lim: "unat CPDSIZE \<le> unat CPD_LIMIT" by (simp add: CPDSIZE_nat CPD_LIMIT_def)
  have "\<forall>v \<in> set vs. splittable CPD_LIMIT v" using vs by (simp add: sendable_def fits_def)
  from split_covers [OF this lim fuel] obtain parts pss where p: "tc_split_iov_array fuel vs CPD_LIMIT = Some parts" "concat parts = concat pss"
    "list_all2 (\<lambda>iov ps. covers CPD_LIMIT iov 0 ps) vs pss" by blast
  have "list_all2 (\<lambda>iov ps. tiles iov 0 ps) vs pss"
    using p(3) vs fits_covers by (fastforce simp: list_all2_conv_all_nth sendable_def)
  note t = this
  have "\<forall>p \<in> set (concat parts). \<not> vi_is_eof p"
  proof
    fix p assume "p \<in> set (concat parts)"
    then have "p \<in> set (concat pss)" using p(2) by simp
    then obtain ps where "ps \<in> set pss" "p \<in> set ps" by auto
    then obtain i where "i < length pss" "p \<in> set (pss ! i)" by (metis in_set_conv_nth)
    then show "\<not> vi_is_eof p" using t vs tiles_eof [of "vs ! i" 0 "pss ! i" p] by (auto simp: list_all2_conv_all_nth sendable_def)
  qed
  from parts_loop_replied [OF fn ok this, of 0 w, unfolded p(2)] obtain r parts' w'
    where r: "parts_loop fn tcres 0 parts w = Some (r, parts', w')" "list_all2 replied (concat pss) (concat parts')"
      "vokay r \<or> (\<exists>part j w part' w'. fn part j w = Some (r, part', w'))" by blast
  obtain qss where q: "list_all2 (list_all2 replied) pss qss" "concat parts' = concat qss" using list_all2_regroup [OF r(2)] by blast
  have "vrestore_iov_array vs parts' = Some (True, map2 total vs qss)"
    using vrestore_tiles [OF t q(1) _ q(2)] vs sendable_cmp by blast
  moreover have "list_all2 (\<lambda>v qs. filled_up v (total v qs)) vs qss"
    using t q(1) total_filled_up by (auto simp: list_all2_conv_all_nth)
  ultimately show ?thesis using p(1) r(1,3) by blast
qed

lemma do_iovec_moves:
  assumes "fds_ok (cl_fds c)" "fds_open iovs (cl_fds c)" "\<forall>a. fd_data_ok env a"
    "\<forall>v \<in> set iovs. fits CPD_LIMIT v \<and> vf_type (vi_file v) \<noteq> VFILE_HANDLE"
    "replies fn" "sum_list (map (rounds CPD_LIMIT) iovs) < fuel"
  shows "\<exists>r t w iovs'. nfs4_do_iovec fuel env fn iovs c = Some (r, iovs',
      c\<lparr>cl_fds := t, cl_heap := cl_heap c @ replicate (length (filter on_fd iovs)) None, cl_world := w\<rparr>) \<and>
    list_all2 filled_up (map reset_flags iovs) iovs' \<and> fds_ok t \<and> fd_file t = moved iovs' (fd_file (cl_fds c)) \<and>
    (vokay r \<or> (\<exists>part j w part' w'. fn part j w = Some (r, part', w')))"
proof -
  let ?vs = "map reset_flags iovs" and ?h = "cl_heap c"
  have same: "length (filter on_fd ?vs) = length (filter on_fd iovs)" by (induction iovs) auto
  have op: "fds_open ?vs (cl_fds c)" using assms(2) by (simp add: fds_open_def)
  from fill_loop_ok [OF assms(1) op assms(3), of "[]"] obtain ds
    where fill: "fill_loop env [] ?vs c = Some (0, filled (length ?h) ?vs, c\<lparr>cl_heap := ?h @ ds\<rparr>)" "length ds = length (filter on_fd ?vs)" by auto
  let ?fs = "filled (length ?h) ?vs"
  have fit: "\<forall>v \<in> set ?fs. sendable CPD_LIMIT v"
    using assms(4) filled_sendable [of CPD_LIMIT ?vs "length ?h"] by (auto simp: list_all_iff sendable_def)
  have fuel: "sum_list (map (rounds CPD_LIMIT) ?fs) < fuel" using assms(6) by (simp add: filled_rounds o_def)
  have "vokay (vfailure (vr_index (junk env)) 0)" by (simp add: vokay_def vfailure_def)
  from send_parts [OF assms(5) fit fuel this, of "cl_world c"] obtain parts parts' r w qss
    where r: "tc_split_iov_array fuel ?fs CPD_LIMIT = Some parts"
      "parts_loop fn (vfailure (vr_index (junk env)) 0) 0 parts (cl_world c) = Some (r, parts', w)"
      "vrestore_iov_array ?fs parts' = Some (True, map2 total ?fs qss)"
      "list_all2 (\<lambda>v qs. filled_up v (total v qs)) ?fs qss"
      "vokay r \<or> (\<exists>part j w part' w'. fn part j w = Some (r, part', w'))" by blast
  have len: "length ?vs = length qss" using list_all2_lengthD [OF r(4)] length_filled by simp
  define vs' where "vs' = map2 total ?vs qss"
  have tot: "map2 total ?fs qss = filled (length ?h) vs'" using filled_total [OF len] by (simp add: vs'_def)
  have up: "list_all2 filled_up ?vs vs'"
    using filled_filled_up [where n = "length ?h" and vs = ?vs and qss = qss] r(4) len by (simp add: vs'_def)
  let ?c = "c\<lparr>cl_heap := ?h @ ds, cl_world := w\<rparr>"
  from clear_fd_iovecs_ok [of ?c vs' ?h ds] assms(1) filled_up_fds [OF up] op fill(2) obtain t
    where "nfs4_clear_fd_iovecs (filled (length ?h) vs') ?c = Some (vs', ?c\<lparr>cl_fds := t, cl_heap := ?h @ replicate (length (filter on_fd vs')) None\<rparr>)"
      "fds_ok t" "fd_file t = moved vs' (fd_file (cl_fds c))" by auto
  then show ?thesis using fill(1) r(1-3,5) tot up filled_up_fds(2) [OF up] same
    by (intro exI [of _ r] exI [of _ t] exI [of _ w] exI [of _ vs'])
      (simp add: nfs4_do_iovec_def nfs4_fill_fd_iovecs_def reset_flags_def [symmetric])
qed

section \<open>Closing\<close>

lemma get_put_read:
  assumes "fds_ok t" "fd_file t fd = Some k"
  shows "\<exists>i t1. tc_get_fd_struct fd False t = Some (Some i, t1) \<and> tc_put_fd_struct i t1 = t \<and>
    kfd_fh (fd_list t1 ! i) = kfd_fh k \<and> kfd_stateid (fd_list t1 ! i) = kfd_stateid k \<and> kfd_seqid (fd_list t1 ! i) = kfd_seqid k"
proof -
  from get_fd_open [OF assms, of False] obtain i where i: "i < MAX_FD" "k = fd_list t ! i"
    and get: "tc_get_fd_struct fd False t = Some (Some i, upd_fd i (\<lambda>k. k\<lparr>fd_lock := lock_state False\<rparr>) t)" by blast
  have "i < length (fd_list t)" using assms(1) i(1) by (simp add: fds_ok_def)
  then show ?thesis using get put_get [OF assms(1) i(1), of False] i(2)
    by (intro exI [of _ i] exI [of _ "upd_fd i (\<lambda>k. k\<lparr>fd_lock := lock_state False\<rparr>) t"]) (simp add: upd_fd_nth)
qed

lemma close_args_ok:
  assumes "fds_ok t" "\<forall>f \<in> set files. vf_type f = VFILE_NULL \<or> vf_type f = VFILE_DESCRIPTOR \<and> vf_fd f \<in> dom (fd_file t)"
  shows "\<exists>args. close_args files t = Some (args, t) \<and> length args = length (filter (\<lambda>f. vf_type f \<noteq> VFILE_NULL) files)"
  using assms(2)
proof (induction files)
  case (Cons f fs)
  then obtain args where IH: "close_args fs t = Some (args, t)" "length args = length (filter (\<lambda>f. vf_type f \<noteq> VFILE_NULL) fs)" by auto
  show ?case
  proof (cases "vf_type f = VFILE_NULL")
    case False
    then obtain k where f: "fd_file t (vf_fd f) = Some k" "vf_type f = VFILE_DESCRIPTOR" using Cons.prems by auto
    then show ?thesis using get_put_read [OF assms(1) f(1)] IH by (auto simp: Let_def)
  qed (use IH in simp)
qed simp

text \<open>A server that closes at least one file in a call that succeeds.\<close>

definition closes_some :: "(close_arg list \<Rightarrow> 'w \<Rightarrow> vres \<times> 'w) \<Rightarrow> bool" where
  "closes_some op \<longleftrightarrow> (\<forall>args w r w'. args \<noteq> [] \<longrightarrow> op args w = (r, w') \<longrightarrow> vokay r \<longrightarrow> 0 < vr_index r \<and> vr_index r \<le> int (length args))"

abbreviation null_file :: "vfile \<Rightarrow> vfile" where
  "null_file f \<equiv> f\<lparr>vf_type := VFILE_NULL\<rparr>"

lemma close_loop_ok:
  assumes "closes_some op" "fds_ok t" "n \<le> length args" "length args = length files"
  shows "\<exists>r m t1 w1. close_loop op tcres n args files t w =
      Some (r, take n files @ map null_file (take m (drop n files)) @ drop (n + m) files, t1, w1) \<and>
    fds_ok t1 \<and> fd_file t1 = fd_file t |` (- set (map vf_fd (take m (drop n files))))"
  using assms(2-4)
proof (induction "length args - n" arbitrary: n files t w tcres rule: less_induct)
  case less
  show ?case
  proof (cases "n = length args")
    case True
    then show ?thesis using less.prems
      by (intro exI [of _ tcres] exI [of _ 0] exI [of _ t] exI [of _ w]) (subst close_loop.simps, simp add: restrict_map_def)
  next
    case False
    then have n: "n < length args" using less.prems(2) by simp
    obtain r w1 where op: "op (drop n args) w = (r, w1)" by (cases "op (drop n args) w")
    show ?thesis
    proof (cases "vokay r")
      case fail: False
      then show ?thesis using op n less.prems(1)
        by (intro exI [of _ "r\<lparr>vr_index := vr_index r + int n\<rparr>"] exI [of _ 0] exI [of _ t] exI [of _ w1])
          (subst close_loop.simps, simp add: restrict_map_def)
    next
      case True
      define d where "d = nat (vr_index r)"
      have "drop n args \<noteq> []" using n by simp
      from assms(1) [unfolded closes_some_def, rule_format, OF this op True]
      have d: "0 < d" "n + d \<le> length args" "vr_index r = int d" using n by (auto simp: d_def)
      let ?now = "take d (drop n files)"
      obtain t1 where t1: "free_each tc_free_fd (map vf_fd ?now) t = Some t1" "fds_ok t1"
        "fd_file t1 = fd_file t |` (- set (map vf_fd ?now))" using fds.free_each_files [OF less.prems(1)] by blast
      let ?files = "take n files @ map null_file ?now @ drop (n + d) files"
      have len: "length ?files = length files" using d(2) less.prems(3) by simp
      have "length args - (n + d) < length args - n" using d(1,2) by simp
      from less.hyps [OF this t1(2) d(2), of ?files r w1] len less.prems(3) obtain r2 m t2 w2
        where ih: "close_loop op r (n + d) args ?files t1 w1 =
            Some (r2, take (n + d) ?files @ map null_file (take m (drop (n + d) ?files)) @ drop (n + d + m) ?files, t2, w2)"
          "fds_ok t2" "fd_file t2 = fd_file t1 |` (- set (map vf_fd (take m (drop (n + d) ?files))))" by auto
      have parts: "take (n + d) ?files = take n files @ map null_file ?now" "drop (n + d) ?files = drop (n + d) files"
        "drop (n + d + m) ?files = drop (n + d + m) files" "take (d + m) (drop n files) = ?now @ take m (drop (n + d) files)"
        using d(2) less.prems(3) by (simp_all add: take_add add.commute)
      have "close_loop op tcres n args files t w = close_loop op r (n + d) args ?files t1 w1"
        using op True d n less.prems(3) t1(1) by (subst close_loop.simps) (simp add: Let_def)
      moreover have "fd_file t2 = fd_file t |` (- set (map vf_fd (take (d + m) (drop n files))))"
        unfolding ih(3) t1(3) parts(2,4) map_append set_append by (rule ext) (simp add: restrict_map_def)
      ultimately show ?thesis using ih(1) [unfolded parts(1-3)] ih(2)
        by (intro exI [of _ r2] exI [of _ "d + m"] exI [of _ t2] exI [of _ w2]) (simp add: parts(4) add.assoc)
    qed
  qed
qed

lemma closev_closes:
  assumes "closes_some (op_vec_close env)" "fds_ok (cl_fds c)"
    "\<forall>f \<in> set files. vf_type f = VFILE_DESCRIPTOR \<and> vf_fd f \<in> dom (fd_file (cl_fds c))"
  shows "\<exists>r files' c'. nfs4_closev env files c = Some (r, files', c') \<and> fds_ok (cl_fds c') \<and>
    fd_file (cl_fds c') = fd_file (cl_fds c) |` (- set (map vf_fd files))"
proof -
  have nn: "filter (\<lambda>f. vf_type f \<noteq> VFILE_NULL) files = files" using assms(3) by (induction files) auto
  from close_args_ok [OF assms(2), of files] assms(3) obtain args
    where args: "close_args files (cl_fds c) = Some (args, cl_fds c)" "length args = length files" by (auto simp: nn)
  from close_loop_ok [OF assms(1,2) _ args(2), of 0 "\<lparr>vr_index = int (length files), vr_err_no = 0\<rparr>" "cl_world c"] obtain r m t1 w
    where loop: "close_loop (op_vec_close env) \<lparr>vr_index = int (length files), vr_err_no = 0\<rparr> 0 args files (cl_fds c) (cl_world c) =
        Some (r, map null_file (take m files) @ drop m files, t1, w)" "fds_ok t1"
      "fd_file t1 = fd_file (cl_fds c) |` (- set (map vf_fd (take m files)))" by auto
  have rest: "filter (\<lambda>f. vf_type f \<noteq> VFILE_NULL) (map null_file (take m files) @ drop m files) = drop m files"
    using assms(3) by (auto simp: filter_id_conv dest: in_set_dropD)
  obtain t2 where t2: "free_each tc_free_fd (map vf_fd (drop m files)) t1 = Some t2" "fds_ok t2"
    "fd_file t2 = fd_file t1 |` (- set (map vf_fd (drop m files)))" using fds.free_each_files [OF loop(2)] by blast
  have "set (map vf_fd files) = set (map vf_fd (take m files)) \<union> set (map vf_fd (drop m files))"
    by (metis append_take_drop_id map_append set_append)
  then have "fd_file t2 = fd_file (cl_fds c) |` (- set (map vf_fd files))"
    unfolding t2(3) loop(3) by (simp only: restrict_restrict Compl_Un)
  moreover have "nfs4_closev env files c = Some (r, map null_file (take m files) @ drop m files, c\<lparr>cl_fds := t2, cl_world := w\<rparr>)"
    using args(1) loop(1) t2(1) by (simp only: nfs4_closev_def bind.bind_lunit prod.case rest)
  ultimately show ?thesis using t2(2) by (intro exI conjI) auto
qed

section \<open>Closing everything\<close>

text \<open>
  Inside the loop over the table the mutex is held, and the entry visited is locked for writing.  The
  function that closes an entry asks for both locks again.
\<close>

definition visiting :: "fd_table \<Rightarrow> bool" where
  "visiting t \<longleftrightarrow> fds_ok (t\<lparr>fd_list_lock := False\<rparr>)"

lemma visit_locks:
  assumes "visiting t" "i < MAX_FD"
  shows "lock_fd wrlock i t = Some (upd_fd i (\<lambda>k. k\<lparr>fd_lock := Wr\<rparr>) t)"
    "unlock_fd i (upd_fd i (\<lambda>k. k\<lparr>fd_lock := Wr\<rparr>) t) = t" "i < length (fd_list t)"
proof -
  show len: "i < length (fd_list t)" using assms by (simp add: visiting_def fds_ok_def)
  have l: "fd_lock (fd_list t ! i) = Rd 0" using assms by (simp add: visiting_def fds_ok_def)
  then show "lock_fd wrlock i t = Some (upd_fd i (\<lambda>k. k\<lparr>fd_lock := Wr\<rparr>) t)" by (simp add: lock_fd_def)
  show "unlock_fd i (upd_fd i (\<lambda>k. k\<lparr>fd_lock := Wr\<rparr>) t) = t"
    using l len by (auto simp: unlock_fd_def comp_def intro!: upd_fd_same)
qed

lemma close_impl_blocks:
  assumes "i < length (fd_list t)" "i < MAX_FD" "fd_lock (fd_list t ! i) = Wr" "kfd_fd (fd_list t ! i) = int i + VFD_OFFSET"
    "\<forall>args w. vokay (fst (op_vec_close env args w))"
  shows "nfs4_close_impl env i t w = None"
proof -
  obtain r w1 where op: "op_vec_close env [(kfd_fh (fd_list t ! i), kfd_stateid (fd_list t ! i), kfd_seqid (fd_list t ! i))] w = (r, w1)"
    by (cases "op_vec_close env [(kfd_fh (fd_list t ! i), kfd_stateid (fd_list t ! i), kfd_seqid (fd_list t ! i))] w")
  then have "vokay r" using assms(5) by (metis fst_conv)
  then show ?thesis using op assms(1-4) by (simp add: nfs4_close_impl_def Let_def tc_free_fd_def tc_get_fd_struct_def lock_fd_def)
qed

lemma for_each_blocks:
  assumes "visiting t" "i + n = MAX_FD" "\<forall>args w. vokay (fst (op_vec_close env args w))"
  shows "for_each_loop (nfs4_close_impl env) n i t w =
    (if \<exists>j. i \<le> j \<and> j < MAX_FD \<and> kfd_fd (fd_list t ! j) > 0 then None else Some (0, t, w))"
  using assms(2)
proof (induction n arbitrary: i)
  case (Suc n)
  then have i: "i < MAX_FD" by simp
  note locks = visit_locks [OF assms(1) i]
  have range: "(\<exists>j. i \<le> j \<and> j < MAX_FD \<and> P j) \<longleftrightarrow> P i \<or> (\<exists>j. Suc i \<le> j \<and> j < MAX_FD \<and> P j)" for P
    using i by (metis Suc_leD Suc_leI le_neq_implies_less order_refl)
  have nth: "fd_list (upd_fd i (\<lambda>k. k\<lparr>fd_lock := Wr\<rparr>) t) ! i = (fd_list t ! i)\<lparr>fd_lock := Wr\<rparr>" using locks(3) by (simp add: upd_fd_nth)
  show ?case
  proof (cases "kfd_fd (fd_list t ! i) > 0")
    case True
    then have "kfd_fd (fd_list t ! i) = int i + VFD_OFFSET" using assms(1) i by (force simp: visiting_def fds_ok_def)
    then have "nfs4_close_impl env i (upd_fd i (\<lambda>k. k\<lparr>fd_lock := Wr\<rparr>) t) w = None"
      using locks(3) i nth assms(3) by (intro close_impl_blocks) auto
    then show ?thesis using True locks(1) nth range [of "\<lambda>j. kfd_fd (fd_list t ! j) > 0"] by simp
  next
    case False
    then show ?thesis using locks nth Suc.IH [of "Suc i"] Suc.prems range [of "\<lambda>j. kfd_fd (fd_list t ! j) > 0"] by simp
  qed
qed simp

lemma close_all_blocks:
  assumes "fds_ok (cl_fds c)" "\<forall>args w. vokay (fst (op_vec_close env args w))"
  shows "nfs4_close_all env c = (if dom (fd_file (cl_fds c)) = {} then Some c else None)"
proof -
  let ?t = "(cl_fds c)\<lparr>fd_list_lock := True\<rparr>"
  have un: "(cl_fds c)\<lparr>fd_list_lock := False\<rparr> = cl_fds c" using assms(1) by (simp add: fds_ok_def)
  have vis: "visiting ?t" using assms(1) un by (simp add: visiting_def)
  have "(\<exists>j. 0 \<le> j \<and> j < MAX_FD \<and> kfd_fd (fd_list ?t ! j) > 0) \<longleftrightarrow> dom (fd_file (cl_fds c)) \<noteq> {}"
  proof
    assume "\<exists>j. 0 \<le> j \<and> j < MAX_FD \<and> kfd_fd (fd_list ?t ! j) > 0"
    then obtain j where j: "j < MAX_FD" "kfd_fd (fd_list (cl_fds c) ! j) > 0" by auto
    then have "kfd_fd (fd_list (cl_fds c) ! j) = int j + VFD_OFFSET" using assms(1) by (force simp: fds_ok_def)
    then show "dom (fd_file (cl_fds c)) \<noteq> {}" using j by (auto simp: fd_file_Some dom_def)
  next
    assume "dom (fd_file (cl_fds c)) \<noteq> {}"
    then show "\<exists>j. 0 \<le> j \<and> j < MAX_FD \<and> kfd_fd (fd_list ?t ! j) > 0" using VFD_OFFSET_pos by (force simp: fd_file_Some dom_def)
  qed
  then have "for_each_loop (nfs4_close_impl env) MAX_FD 0 ?t (cl_world c) =
      (if dom (fd_file (cl_fds c)) = {} then Some (0, ?t, cl_world c) else None)"
    using for_each_blocks [OF vis _ assms(2), of 0 MAX_FD "cl_world c"] by (simp split: if_splits)
  then show ?thesis using unlocked [OF assms(1)] un
    by (simp add: nfs4_close_all_def tc_for_each_fd_def mutex_simps mutex_unlock_def)
qed

section \<open>Opening\<close>

text \<open>The file in the table for an element of a batch that was opened.\<close>

definition opened_as :: "vattrs \<times> int \<times> stateid4 \<Rightarrow> tc_kfd \<Rightarrow> bool" where
  "opened_as e k \<longleftrightarrow> (case e of (a, _, sid) \<Rightarrow>
     kfd_stateid k = sid \<and> kfd_filesize k = va_size a \<and> kfd_offset k = 0 \<and>
     (\<exists>h. vf_handle (va_file a) = Some h \<and> nfs_fh4_len (kfd_fh k) = handle_bytes h \<and>
        nfs_fh4_val (kfd_fh k) = Some (take (unat (handle_bytes h)) (f_handle h))))"

text \<open>The new files \<open>fs\<close> of a table: distinct descriptors, not in use before, one file each, and no other change.\<close>

definition adds_files :: "(vattrs \<times> int \<times> stateid4) list \<Rightarrow> vfile list \<Rightarrow> fd_table \<Rightarrow> fd_table \<Rightarrow> bool" where
  "adds_files es fs t t' \<longleftrightarrow> distinct (map vf_fd fs) \<and> set (map vf_fd fs) \<inter> dom (fd_file t) = {} \<and>
     list_all2 (\<lambda>e f. vf_type f = VFILE_DESCRIPTOR \<and> (\<exists>k. fd_file t' (vf_fd f) = Some k \<and> opened_as e k)) es fs \<and>
     fd_file t' |` (- set (map vf_fd fs)) = fd_file t"

lemma open_fds_one:
  assumes "fds_ok t" "card (dom (fd_file t)) < MAX_FD" "vf_handle (va_file a) = Some h"
  shows "\<exists>fd t1. open_fds ((a, fl, sid) # es) t = do { (fs, t2) \<leftarrow> open_fds es t1; Some (vfile_from_fd fd # fs, t2) } \<and>
    fds_ok t1 \<and> fd \<notin> dom (fd_file t) \<and> (\<exists>k. fd_file t1 = (fd_file t)(fd \<mapsto> k) \<and> opened_as (a, fl, sid) k)"
proof -
  let ?fh = "\<lparr>nfs_fh4_len = handle_bytes h, nfs_fh4_val = Some (f_handle h)\<rparr>"
  have usable: "nfs_fh4_val (snd (sid, ?fh)) \<noteq> None" by simp
  obtain fd t1 k where al: "tc_alloc_fd (sid, ?fh) t = Some (fd, t1)" "fds_ok t1" "fd \<notin> dom (fd_file t)"
    "fd_file t1 = (fd_file t)(fd \<mapsto> k)" "opened (sid, ?fh) k"
    using fds.alloc_one [OF assms(1,2) usable] by blast
  then have k: "fd_file t1 fd = Some k" by simp
  from get_fd_open [OF al(2) k, of True] obtain i t2 where get: "tc_get_fd_struct fd True t1 = Some (Some i, t2)" by blast
  let ?f = "\<lambda>k. k\<lparr>kfd_filesize := va_size a\<rparr>"
  let ?t = "tc_put_fd_struct i (upd_fd i ?f t2)"
  from use_fd [OF al(2) get, of ?f] k have use: "fds_ok ?t" "fd_file ?t = (fd_file t1)(fd \<mapsto> ?f k)" by auto
  from get_fd_open [OF al(2) k, of True] get
  have i: "i < MAX_FD" "t2 = upd_fd i (\<lambda>k. k\<lparr>fd_lock := Wr\<rparr>) t1" "fd = int i + VFD_OFFSET" "k = fd_list t1 ! i" by auto
  have "i < length (fd_list t1)" "kfd_fd (fd_list t1 ! i) = fd" using al(2) i(1,3) k by (auto simp: fds_ok_def fd_file_Some)
  then have "kfd_fd (fd_list (upd_fd i ?f t2) ! i) = fd" by (simp add: i(2) upd_fd_nth)
  then have "open_fds ((a, fl, sid) # es) t = do { (fs, t2) \<leftarrow> open_fds es ?t; Some (vfile_from_fd fd # fs, t2) }"
    using assms(3) al(1) get by (simp add: Let_def)
  moreover have "opened_as (a, fl, sid) (?f k)" using al(5) assms(3) by (simp add: opened_as_def opened_def)
  ultimately show ?thesis using use al(3,4) by (intro exI [of _ fd] exI [of _ ?t]) auto
qed

lemma open_fds_ok:
  assumes "fds_ok t" "card (dom (fd_file t)) + length es \<le> MAX_FD" "\<forall>e \<in> set es. vf_handle (va_file (fst e)) \<noteq> None"
  shows "\<exists>fs t'. open_fds es t = Some (fs, t') \<and> fds_ok t' \<and> adds_files es fs t t'"
  using assms
proof (induction es arbitrary: t)
  case Nil
  then show ?case by (simp add: adds_files_def restrict_map_def)
next
  case (Cons e es)
  obtain a fl sid h where e: "e = (a, fl, sid)" "vf_handle (va_file a) = Some h" using Cons.prems(3) by (cases e) auto
  from open_fds_one [OF Cons.prems(1) _ e(2), of fl sid es] Cons.prems(2) obtain fd t1 k
    where one: "open_fds (e # es) t = do { (fs, t2) \<leftarrow> open_fds es t1; Some (vfile_from_fd fd # fs, t2) }" "fds_ok t1"
      "fd \<notin> dom (fd_file t)" "fd_file t1 = (fd_file t)(fd \<mapsto> k)" "opened_as e k" by (auto simp: e(1))
  have "finite (dom (fd_file t))" using fds.files_bound [OF Cons.prems(1)] by blast
  then have "card (dom (fd_file t1)) + length es \<le> MAX_FD" using one(3,4) Cons.prems(2) by (simp add: card_insert_if)
  from Cons.IH [OF one(2) this] Cons.prems(3) obtain fs t' where ih: "open_fds es t1 = Some (fs, t')" "fds_ok t'" "adds_files es fs t1 t'" by auto
  have dom1: "dom (fd_file t1) = insert fd (dom (fd_file t))" using one(4) by simp
  then have new: "fd \<notin> set (map vf_fd fs)" using ih(3) by (auto simp: adds_files_def)
  have keep: "fd_file t' |` (- set (map vf_fd fs)) = fd_file t1" using ih(3) by (simp add: adds_files_def)
  have k: "fd_file t' fd = Some k" using fun_cong [OF keep, of fd] new one(4) by (simp add: restrict_map_def)
  have "fd_file t' |` (- set (map vf_fd (vfile_from_fd fd # fs))) = (fd_file t1)(fd := None)"
    unfolding keep [symmetric] by (rule ext) (simp add: restrict_map_def vfile_from_fd_def)
  also have "\<dots> = fd_file t" using one(3) by (simp add: one(4) fun_upd_idem domIff)
  finally have "adds_files (e # es) (vfile_from_fd fd # fs) t t'"
    using ih(3) dom1 new one(3,5) k by (auto simp: adds_files_def vfile_from_fd_def)
  then show ?case using one(1) ih(1,2) by auto
qed

lemma adds_files_append:
  assumes "adds_files es1 fs1 t0 t1" "adds_files es2 fs2 t1 t2"
  shows "adds_files (es1 @ es2) (fs1 @ fs2) t0 t2"
proof -
  have keep: "fd_file t1 |` (- set (map vf_fd fs1)) = fd_file t0" "fd_file t2 |` (- set (map vf_fd fs2)) = fd_file t1"
    using assms by (simp_all add: adds_files_def)
  have old: "fd_file t2 fd = Some k" if "fd_file t1 fd = Some k" for fd k
    using fun_cong [OF keep(2), of fd] that by (simp add: restrict_map_def split: if_splits)
  have in1: "set (map vf_fd fs1) \<subseteq> dom (fd_file t1)"
    using assms(1) by (fastforce simp: adds_files_def list_all2_conv_all_nth in_set_conv_nth)
  have sub: "dom (fd_file t0) \<subseteq> dom (fd_file t1)"
    by (auto simp: keep(1) [symmetric] restrict_map_def split: if_splits)
  have "fd_file t2 |` (- set (map vf_fd (fs1 @ fs2))) = fd_file t0"
    unfolding keep(1) [symmetric] keep(2) [symmetric] map_append set_append by (rule ext) (simp add: restrict_map_def)
  moreover have "list_all2 (\<lambda>e f. vf_type f = VFILE_DESCRIPTOR \<and> (\<exists>k. fd_file t2 (vf_fd f) = Some k \<and> opened_as e k)) (es1 @ es2) (fs1 @ fs2)"
    using assms old by (intro list_all2_appendI) (auto simp: adds_files_def elim: list_all2_mono)
  moreover have "distinct (map vf_fd (fs1 @ fs2))" "set (map vf_fd (fs1 @ fs2)) \<inter> dom (fd_file t0) = {}"
  proof -
    have d: "distinct (map vf_fd fs1)" "distinct (map vf_fd fs2)" "set (map vf_fd fs1) \<inter> dom (fd_file t0) = {}" "set (map vf_fd fs2) \<inter> dom (fd_file t1) = {}"
      using assms by (simp_all add: adds_files_def)
    show "distinct (map vf_fd (fs1 @ fs2))" using d in1 unfolding map_append distinct_append by blast
    show "set (map vf_fd (fs1 @ fs2)) \<inter> dom (fd_file t0) = {}" using d sub unfolding map_append set_append by blast
  qed
  ultimately show ?thesis by (simp add: adds_files_def)
qed

text \<open>A server that opens at least one file in each call and returns handles for those it opened.\<close>

definition opens_some :: "((vattrs \<times> int \<times> stateid4) list \<Rightarrow> 'w \<Rightarrow> vres \<times> (vattrs \<times> int \<times> stateid4) list \<times> 'w) \<Rightarrow> bool" where
  "opens_some op \<longleftrightarrow> (\<forall>xs w. xs \<noteq> [] \<longrightarrow> (\<exists>n ys w'. op xs w = (vfailure (int n) 0, ys, w') \<and> 0 < n \<and> n \<le> length xs \<and>
     length ys = length xs \<and> (\<forall>e \<in> set (take n ys). vf_handle (va_file (fst e)) \<noteq> None)))"

lemma adds_files_card:
  assumes "adds_files es fs t t'" "fds_ok t"
  shows "card (dom (fd_file t')) = card (dom (fd_file t)) + length es"
proof -
  have fin: "finite (dom (fd_file t))" using fds.files_bound [OF assms(2)] by blast
  have "set (map vf_fd fs) \<subseteq> dom (fd_file t')"
    using assms(1) by (fastforce simp: adds_files_def list_all2_conv_all_nth in_set_conv_nth)
  moreover have "fd_file t' |` (- set (map vf_fd fs)) = fd_file t" using assms(1) by (simp add: adds_files_def)
  then have "dom (fd_file t) = dom (fd_file t') - set (map vf_fd fs)" by (metis Diff_eq dom_restrict)
  ultimately have "dom (fd_file t') = dom (fd_file t) \<union> set (map vf_fd fs)" by blast
  moreover have "card (set (map vf_fd fs)) = length es" using assms(1) distinct_card [of "map vf_fd fs"]
    by (auto simp: adds_files_def dest: list_all2_lengthD)
  ultimately show ?thesis using assms(1) fin by (simp add: card_Un_disjoint adds_files_def Int_commute)
qed

lemma open_loop_ok:
  assumes "opens_some op" "fds_ok t0" "fds_ok (cl_fds c)" "adds_files finished tcfs t0 (cl_fds c)"
    "card (dom (fd_file t0)) + length finished + length rest \<le> MAX_FD"
  shows "\<exists>es fs attrs c'. open_loop env op tcfs finished rest c = Some (Some fs, attrs, c') \<and> fds_ok (cl_fds c') \<and>
    adds_files es fs t0 (cl_fds c') \<and> length es = length finished + length rest"
  using assms(3-)
proof (induction "length rest" arbitrary: tcfs finished rest c rule: less_induct)
  case less
  show ?case
  proof (cases "rest = []")
    case True
    then show ?thesis using less.prems
      by (intro exI [of _ finished] exI [of _ tcfs] exI [of _ "map fst finished"] exI [of _ c]) (subst open_loop.simps, simp)
  next
    case False
    from assms(1) [unfolded opens_some_def, rule_format, OF this, of "cl_world c"] obtain n ys w
      where op: "op rest (cl_world c) = (vfailure (int n) 0, ys, w)" and n: "0 < n" "n \<le> length rest" "length ys = length rest"
        "\<forall>e \<in> set (take n ys). vf_handle (va_file (fst e)) \<noteq> None" by blast
    have "card (dom (fd_file (cl_fds c))) + length (take n ys) \<le> MAX_FD"
      using adds_files_card [OF less.prems(2) assms(2)] less.prems(3) n by simp
    from open_fds_ok [OF less.prems(1) this n(4)] obtain fs t
      where fs: "open_fds (take n ys) (cl_fds c) = Some (fs, t)" "fds_ok t" "adds_files (take n ys) fs (cl_fds c) t" by blast
    let ?c = "c\<lparr>cl_fds := t, cl_world := w\<rparr>"
    have "open_loop env op tcfs finished rest c = open_loop env op (tcfs @ fs) (finished @ take n ys) (drop n ys) ?c"
      using False op n fs(1) by (subst open_loop.simps) (simp add: vokay_def vfailure_def Let_def)
    moreover have "adds_files (finished @ take n ys) (tcfs @ fs) t0 (cl_fds ?c)" using adds_files_append [OF less.prems(2) fs(3)] by simp
    ultimately show ?thesis
      using less.hyps [of "drop n ys" ?c "finished @ take n ys" "tcfs @ fs"] fs(2) n less.prems(3) by (simp add: add.assoc)
  qed
qed

lemma openv_opens:
  assumes "op_vec_open env = Some op" "opens_some op" "fds_ok (cl_fds c)" "card (dom (fd_file (cl_fds c))) + length files \<le> MAX_FD"
  shows "\<exists>es fs attrs c'. nfs4_openv env files c = Some (Some fs, attrs, c') \<and> fds_ok (cl_fds c') \<and>
    adds_files es fs (cl_fds c) (cl_fds c') \<and> length es = length files"
proof -
  have "adds_files [] [] (cl_fds c) (cl_fds c)" by (simp add: adds_files_def restrict_map_def)
  from open_loop_ok [OF assms(2,3,3) this, of "map (\<lambda>(path, flags, mode, a). (open_attrs env path flags mode a, flags, zero_stateid)) files" env]
  show ?thesis using assms(1,4) by (simp add: nfs4_openv_def)
qed

section \<open>An environment for examples\<close>

text \<open>The world counts calls, and every operation succeeds; data and opens go one element per call.\<close>

definition one_by_one :: "viovec list \<Rightarrow> nat \<Rightarrow> nat \<Rightarrow> vres \<times> viovec list \<times> nat" where
  "one_by_one vs j w = (vfailure 1 0, vs, Suc w)"

definition open_first :: "(vattrs \<times> int \<times> stateid4) list \<Rightarrow> nat \<Rightarrow> vres \<times> (vattrs \<times> int \<times> stateid4) list \<times> nat" where
  "open_first xs w =
     (vfailure 1 0, map (\<lambda>(a, fl, sid). (a\<lparr>va_file := (va_file a)\<lparr>vf_type := VFILE_HANDLE,
        vf_ref := HandleRef \<lparr>handle_bytes = 1, handle_type = 1, f_handle = ''h''\<rparr>\<rparr>\<rparr>, fl, sid)) xs, Suc w)"

definition demo_env :: "nat nfs4_env" where
  "demo_env = \<lparr>has_export = True, fullpath = ''/vfs0'', eff_uid = 0, eff_gid = 0, junk = vfailure 7 7, fd_data_ok = (\<lambda>_. True),
     saved_ok = True, handle_alloc_ok = (\<lambda>_. True), op_vec_read = Some one_by_one, op_vec_write = Some one_by_one,
     op_vec_read_write = None, op_vec_open = Some open_first, op_vec_close = (\<lambda>xs w. (vfailure (int (length xs)) 0, Suc w)),
     op_vec_lgetattrs = (\<lambda>xs w. (vfailure (int (length xs)) 0, xs, Suc w)), op_vec_lsetattrs = (\<lambda>xs w. (vfailure (int (length xs)) 0, xs, Suc w)),
     op_vec_mkdir = (\<lambda>xs w. (vfailure (int (length xs)) 0, xs, Suc w)), op_vec_rename = (\<lambda>xs w. (vfailure (int (length xs)) 0, Suc w)),
     op_vec_remove = (\<lambda>xs w. (vfailure (int (length xs)) 0, Suc w)), op_vec_lcopy = (\<lambda>xs w. (vfailure (int (length xs)) 0, Suc w)),
     op_vec_hardlink = (\<lambda>xs w. (vfailure (int (length xs)) 0, Suc w)), op_vec_symlink = (\<lambda>xs w. (vfailure (int (length xs)) 0, Suc w)),
     op_vec_readlink = (\<lambda>xs w. (vfailure (int (length xs)) 0, xs, Suc w)), op_sca_chdir = (\<lambda>p w. (0, Suc w)), op_sca_getcwd = (\<lambda>w. ''/vfs0'')\<rparr>"

lemma demo_env_simps [simp]:
  "has_export demo_env" "fullpath demo_env = ''/vfs0''" "fd_data_ok demo_env a" "op_vec_write demo_env = Some one_by_one"
  "op_vec_open demo_env = Some open_first" "op_vec_close demo_env xs w = (vfailure (int (length xs)) 0, Suc w)" "op_sca_chdir demo_env p w = (0, Suc w)"
  by (simp_all add: demo_env_def)

lemma demo_closes: "closes_some (op_vec_close demo_env)"
  by (auto simp: closes_some_def vfailure_def)

lemma demo_opens: "opens_some open_first"
  unfolding opens_some_def
proof (intro allI impI)
  fix xs :: "(vattrs \<times> int \<times> stateid4) list" and w :: nat assume "xs \<noteq> []"
  then show "\<exists>n ys w'. open_first xs w = (vfailure (int n) 0, ys, w') \<and> 0 < n \<and> n \<le> length xs \<and> length ys = length xs \<and>
      (\<forall>e \<in> set (take n ys). vf_handle (va_file (fst e)) \<noteq> None)"
    by (cases xs) (auto simp: open_first_def vf_handle_def split: prod.splits intro!: exI [of _ 1])
qed

lemma demo_table: "\<exists>t fd k. fds_ok t \<and> fd_file t = [fd \<mapsto> k] \<and> kfd_offset k = 0"
proof -
  obtain t where t: "fds_ok t" "fd_file t = Map.empty" using static_table_init by blast
  have room: "card (dom (fd_file t)) < MAX_FD" using t(2) by (simp add: MAX_FD_def)
  have "nfs_fh4_val (snd (zero_stateid, \<lparr>nfs_fh4_len = 1, nfs_fh4_val = Some ''h''\<rparr>)) \<noteq> None" by simp
  from fds.alloc_one [OF t(1) room this] show ?thesis using t(2) by (auto simp: opened_def)
qed

section \<open>Properties\<close>

text \<open>
  C18: the offset of a descriptor after an operation on vectors.  For vectors that fit a compound each, on
  open descriptors, paths and the current file, and calls that return and whose pieces come back with their file and
  offset, short only at the end of the file and that only in the last piece of a vector, the operation returns, gives back the private
  data of all vectors, holds no lock, changes nothing in a vector but its length and its marks of the end of the file and
  of failure, which is cleared, and has moved the offset of each descriptor by the lengths that its vectors at the current offset
  now have.  An error is that of one of the calls.  A vector whose call failed keeps its length, so its descriptor is moved, too.
\<close>

theorem nfs4_do_iovec_cursor:
  assumes "fds_ok (cl_fds c)" "fds_open iovs (cl_fds c)" "\<forall>a. fd_data_ok env a"
    "\<forall>v \<in> set iovs. fits CPD_LIMIT v \<and> vf_type (vi_file v) \<noteq> VFILE_HANDLE"
    "replies fn" "sum_list (map (rounds CPD_LIMIT) iovs) < fuel"
  shows "\<exists>r iovs' c'. nfs4_do_iovec fuel env fn iovs c = Some (r, iovs', c') \<and> fds_ok (cl_fds c') \<and>
    list_all2 filled_up (map reset_flags iovs) iovs' \<and>
    cl_heap c' = cl_heap c @ replicate (length (filter on_fd iovs)) None \<and>
    (\<forall>fd. fd_file (cl_fds c') fd = map_option (\<lambda>k. k\<lparr>kfd_offset := kfd_offset k + cur_bytes fd iovs'\<rparr>) (fd_file (cl_fds c) fd)) \<and>
    (vokay r \<or> (\<exists>part j w part' w'. fn part j w = Some (r, part', w')))"
proof -
  from do_iovec_moves [OF assms] obtain r t w iovs' where m: "nfs4_do_iovec fuel env fn iovs c = Some (r, iovs',
      c\<lparr>cl_fds := t, cl_heap := cl_heap c @ replicate (length (filter on_fd iovs)) None, cl_world := w\<rparr>)"
    "list_all2 filled_up (map reset_flags iovs) iovs'" "fds_ok t" "fd_file t = moved iovs' (fd_file (cl_fds c))"
    "vokay r \<or> (\<exists>part j w part' w'. fn part j w = Some (r, part', w'))" by blast
  show ?thesis using m(2,3,5) unfolding m(1)
    by (intro exI conjI) (rule refl, simp_all add: m(4) moved_def)
qed

definition cursor_iov :: "int \<Rightarrow> viovec" where
  "cursor_iov fd = (example_iov 10)\<lparr>vi_file := vfile_from_fd fd, vi_offset := TC_OFFSET_CUR\<rparr>"

lemma cursor_iov_simps [simp]:
  "vi_file (cursor_iov fd) = vfile_from_fd fd" "vi_offset (cursor_iov fd) = TC_OFFSET_CUR" "vi_length (cursor_iov fd) = 10"
  "reset_flags (cursor_iov fd) = cursor_iov fd" "fits CPD_LIMIT (cursor_iov fd)"
  by (simp_all add: cursor_iov_def fits_def splittable_def overhead_def tc_get_iov_overhead_def CPD_LIMIT_def CPDSIZE_def COMPOUND4SZ_def
      TC_SPLIT_THRESHOLD_def vfile_from_fd_def example_iov_def OPSIZE_def NFS4_FHSIZE_def RDWRSIZE_def reset_flags_def)

lemma vfile_from_fd_simps [simp]:
  "vf_type (vfile_from_fd fd) = VFILE_DESCRIPTOR" "vf_fd (vfile_from_fd fd) = fd" "vf_ref (vfile_from_fd fd) = NullRef"
  by (simp_all add: vfile_from_fd_def)

text \<open>A call that marks its pieces as failed.\<close>

definition failing_call :: "viovec list \<Rightarrow> nat \<Rightarrow> nat \<Rightarrow> (vres \<times> viovec list \<times> nat) option" where
  "failing_call part j w = Some (vfailure 0 5, map (vi_is_failure_update (\<lambda>_. True)) part, w)"

lemma failing_call_replies: "replies failing_call"
  by (auto simp: replies_def failing_call_def list_all2_map2 list_all2_same replied_def)

theorem nfs4_do_iovec_cursor_witness:
  "\<exists>t fd k r v c'. fds_ok t \<and> fd_file t = [fd \<mapsto> k] \<and> kfd_offset k = 0 \<and>
     nfs4_do_iovec 4 demo_env failing_call [cursor_iov fd] \<lparr>cl_fds = t, cl_heap = [], cl_world = 0\<rparr> = Some (r, [v], c') \<and>
     filled_up (cursor_iov fd) v \<and> fd_file (cl_fds c') fd = Some (k\<lparr>kfd_offset := vi_length v\<rparr>)"
proof -
  obtain t fd k where t: "fds_ok t" "fd_file t = [fd \<mapsto> k]" "kfd_offset k = 0" using demo_table by blast
  let ?c = "\<lparr>cl_fds = t, cl_heap = [], cl_world = 0\<rparr>"
  have "sum_list (map (rounds CPD_LIMIT) [cursor_iov fd]) < 4" by (simp add: rounds_def CPD_LIMIT_def)
  from nfs4_do_iovec_cursor [of ?c "[cursor_iov fd]" demo_env failing_call 4, OF _ _ _ _ failing_call_replies this] t
  have "\<exists>r iovs' c'. nfs4_do_iovec 4 demo_env failing_call [cursor_iov fd] ?c = Some (r, iovs', c') \<and>
      list_all2 filled_up [cursor_iov fd] iovs' \<and>
      (\<forall>g. fd_file (cl_fds c') g = map_option (\<lambda>k. k\<lparr>kfd_offset := kfd_offset k + cur_bytes g iovs'\<rparr>) (fd_file t g))"
    by (fastforce simp: fds_open_def)
  then obtain r v c' where r: "nfs4_do_iovec 4 demo_env failing_call [cursor_iov fd] ?c = Some (r, [v], c')" "filled_up (cursor_iov fd) v"
      "fd_file (cl_fds c') fd = map_option (\<lambda>k. k\<lparr>kfd_offset := kfd_offset k + cur_bytes fd [v]\<rparr>) (fd_file t fd)"
    by (auto simp: list_all2_Cons1)
  have "vi_file v = vi_file (cursor_iov fd)" "vi_offset v = vi_offset (cursor_iov fd)" using filled_up_keeps [OF r(2)] by simp_all
  then show ?thesis using t r by (intro exI [of _ t] exI [of _ fd] exI [of _ k] exI [of _ r] exI [of _ v] exI [of _ c']) simp
qed

text \<open>
  C17: opening files and closing them again.  With a server that opens and closes at least one file per
  call and enough free entries, opening returns as many descriptors as there are files, all different
  and none in use before, and leaves every other open file alone; closing them gives back the
  table as it was.
\<close>

theorem nfs4_open_close:
  assumes "op_vec_open env = Some op" "opens_some op" "closes_some (op_vec_close env)" "fds_ok (cl_fds c)"
    "card (dom (fd_file (cl_fds c))) + length files \<le> 1024"
  shows "\<exists>fs attrs c1 r fs' c2. nfs4_openv env files c = Some (Some fs, attrs, c1) \<and> length fs = length files \<and>
    distinct (map vf_fd fs) \<and> set (map vf_fd fs) \<inter> dom (fd_file (cl_fds c)) = {} \<and> set (map vf_fd fs) \<subseteq> dom (fd_file (cl_fds c1)) \<and>
    (\<forall>fd. fd \<notin> set (map vf_fd fs) \<longrightarrow> fd_file (cl_fds c1) fd = fd_file (cl_fds c) fd) \<and>
    nfs4_closev env fs c1 = Some (r, fs', c2) \<and> fd_file (cl_fds c2) = fd_file (cl_fds c)"
proof -
  have "card (dom (fd_file (cl_fds c))) + length files \<le> MAX_FD" using assms(5) by (simp add: MAX_FD_def)
  from openv_opens [OF assms(1,2,4) this] obtain es fs attrs c1
    where op: "nfs4_openv env files c = Some (Some fs, attrs, c1)" "fds_ok (cl_fds c1)" "adds_files es fs (cl_fds c) (cl_fds c1)" "length es = length files"
    by blast
  have desc: "\<forall>f \<in> set fs. vf_type f = VFILE_DESCRIPTOR \<and> vf_fd f \<in> dom (fd_file (cl_fds c1))"
    using op(3) by (fastforce simp: adds_files_def list_all2_conv_all_nth in_set_conv_nth)
  have keep: "fd_file (cl_fds c1) |` (- set (map vf_fd fs)) = fd_file (cl_fds c)" using op(3) by (simp add: adds_files_def)
  from closev_closes [OF assms(3) op(2) desc] keep obtain r fs' c2
    where cl: "nfs4_closev env fs c1 = Some (r, fs', c2)" "fd_file (cl_fds c2) = fd_file (cl_fds c)" by auto
  have "fd_file (cl_fds c1) fd = fd_file (cl_fds c) fd" if "fd \<notin> set (map vf_fd fs)" for fd
    using fun_cong [OF keep, of fd] that by (simp add: restrict_map_def)
  moreover have "length fs = length files" using op(3,4) by (auto simp: adds_files_def dest: list_all2_lengthD)
  moreover have "distinct (map vf_fd fs)" "set (map vf_fd fs) \<inter> dom (fd_file (cl_fds c)) = {}" using op(3) by (simp_all add: adds_files_def)
  moreover have "set (map vf_fd fs) \<subseteq> dom (fd_file (cl_fds c1))" using desc by auto
  ultimately show ?thesis using op(1) cl by blast
qed

definition blank_attrs :: vattrs where
  "blank_attrs = \<lparr>va_file = vfile_current, va_masks = VMASK_INIT_NONE, va_mode = 0, va_size = 0, va_nlink = 0, va_fileid = 0, va_blocks = 0,
     va_uid = 0, va_gid = 0, va_rdev = 0, va_atime = \<lparr>tv_sec = 0, tv_nsec = 0\<rparr>, va_mtime = \<lparr>tv_sec = 0, tv_nsec = 0\<rparr>,
     va_ctime = \<lparr>tv_sec = 0, tv_nsec = 0\<rparr>\<rparr>"

theorem nfs4_open_close_witness:
  "\<exists>t fs attrs c1 r fs' c2.
     nfs4_openv demo_env [(''/vfs0/a'', 0, 0, blank_attrs), (''/vfs0/b'', 64, 0x180, blank_attrs)] \<lparr>cl_fds = t, cl_heap = [], cl_world = 0\<rparr> =
       Some (Some fs, attrs, c1) \<and> length fs = 2 \<and> distinct (map vf_fd fs) \<and>
     nfs4_closev demo_env fs c1 = Some (r, fs', c2) \<and> fd_file (cl_fds c2) = Map.empty"
proof -
  obtain t where t: "fds_ok t" "fd_file t = Map.empty" using static_table_init by blast
  let ?files = "[(''/vfs0/a'', 0, 0, blank_attrs), (''/vfs0/b'', 64, 0x180, blank_attrs)]"
  have two: "length ?files = 2" by simp
  from nfs4_open_close [of demo_env open_first "\<lparr>cl_fds = t, cl_heap = [], cl_world = 0\<rparr>" ?files, unfolded two] t demo_opens demo_closes
  obtain fs attrs c1 r fs' c2 where "nfs4_openv demo_env ?files \<lparr>cl_fds = t, cl_heap = [], cl_world = 0\<rparr> = Some (Some fs, attrs, c1)"
    "length fs = 2" "distinct (map vf_fd fs)" "nfs4_closev demo_env fs c1 = Some (r, fs', c2)" "fd_file (cl_fds c2) = Map.empty" by auto
  then show ?thesis by blast
qed

text \<open>
  C32: closing everything, as the client does when it shuts down, returns exactly if no file is open: if
  the server closes files without error, the function called for an open entry asks for the lock
  that the loop over the table already holds.
\<close>

theorem nfs4_close_all_returns:
  assumes "fds_ok (cl_fds c)" "\<forall>args w. vokay (fst (op_vec_close env args w))"
  shows "nfs4_close_all env c = (if dom (fd_file (cl_fds c)) = {} then Some c else None)"
  by (rule close_all_blocks [OF assms])

theorem nfs4_close_all_returns_witness:
  "\<exists>t. dom (fd_file t) \<noteq> {} \<and> nfs4_close_all demo_env \<lparr>cl_fds = t, cl_heap = [], cl_world = 0\<rparr> = None"
proof -
  obtain t fd k where t: "fds_ok t" "fd_file t = [fd \<mapsto> k]" using demo_table by blast
  then show ?thesis using nfs4_close_all_returns [of "\<lparr>cl_fds = t, cl_heap = [], cl_world = 0\<rparr>" demo_env]
    by (intro exI [of _ t]) (auto simp: vokay_def vfailure_def)
qed

text \<open>
  C33: closing an array in which a closed file precedes an open one also closes whatever file now has the
  descriptor of the closed entry: the results of the server are counted against the array, although
  closed entries were left out of the request.
\<close>

theorem nfs4_closev_closed_entry:
  assumes "fds_ok (cl_fds c)" "fd_file (cl_fds c) fd \<noteq> None" "\<forall>args w. \<exists>w'. op_vec_close env args w = (vfailure (int (length args)) 0, w')"
  shows "\<exists>r files' c'. nfs4_closev env [(vfile_from_fd other)\<lparr>vf_type := VFILE_NULL\<rparr>, vfile_from_fd fd] c = Some (r, files', c') \<and>
    fd_file (cl_fds c') = (fd_file (cl_fds c))(other := None, fd := None)"
proof -
  let ?files = "[(vfile_from_fd other)\<lparr>vf_type := VFILE_NULL\<rparr>, vfile_from_fd fd]"
  have rest: "map vf_fd (filter (\<lambda>f. vf_type f \<noteq> VFILE_NULL) ?files) = [fd]" "int (length ?files) = 2" by simp_all
  obtain arg where args: "close_args ?files (cl_fds c) = Some ([arg], cl_fds c)"
    using close_args_ok [OF assms(1), of ?files] assms(2) by (auto simp: length_Suc_conv)
  obtain w where w: "op_vec_close env [arg] (cl_world c) = (vfailure 1 0, w)" using assms(3) by (metis One_nat_def length_Cons list.size(3) of_nat_1)
  obtain t1 where t1: "free_each tc_free_fd [other] (cl_fds c) = Some t1" "fds_ok t1" "fd_file t1 = fd_file (cl_fds c) |` (- {other})"
    using fds.free_each_files [OF assms(1), of "[other]"] by auto
  obtain t2 where t2: "free_each tc_free_fd [fd] t1 = Some t2" "fd_file t2 = fd_file t1 |` (- {fd})"
    using fds.free_each_files [OF t1(2), of "[fd]"] by auto
  have "close_loop (op_vec_close env) \<lparr>vr_index = 2, vr_err_no = 0\<rparr> 0 [arg] ?files (cl_fds c) (cl_world c) = Some (vfailure 1 0, ?files, t1, w)"
    using w t1(1) by (subst close_loop.simps) (subst close_loop.simps, simp add: vokay_def vfailure_def Let_def)
  then have "nfs4_closev env ?files c = Some (vfailure 1 0, ?files, c\<lparr>cl_fds := t2, cl_world := w\<rparr>)"
    using args t2(1) by (simp only: nfs4_closev_def bind.bind_lunit prod.case rest)
  moreover have "fd_file t2 = (fd_file (cl_fds c))(other := None, fd := None)"
    unfolding t2(2) t1(3) by (rule ext) (simp add: restrict_map_def)
  ultimately show ?thesis by auto
qed

theorem nfs4_closev_closed_entry_witness:
  "\<exists>t fd1 fd2 r files' c'. fd1 \<noteq> fd2 \<and> dom (fd_file t) = {fd1, fd2} \<and>
     nfs4_closev demo_env [(vfile_from_fd fd1)\<lparr>vf_type := VFILE_NULL\<rparr>, vfile_from_fd fd2] \<lparr>cl_fds = t, cl_heap = [], cl_world = 0\<rparr> =
       Some (r, files', c') \<and> fd_file (cl_fds c') = Map.empty"
proof -
  obtain t0 fd1 k1 where t0: "fds_ok t0" "fd_file t0 = [fd1 \<mapsto> k1]" using demo_table by blast
  have room: "card (dom (fd_file t0)) < MAX_FD" using t0(2) by (simp add: MAX_FD_def)
  have "nfs_fh4_val (snd (zero_stateid, \<lparr>nfs_fh4_len = 1, nfs_fh4_val = Some ''h''\<rparr>)) \<noteq> None" by simp
  from fds.alloc_one [OF t0(1) room this] obtain t fd2 k2 where t: "fds_ok t" "fd2 \<notin> dom (fd_file t0)" "fd_file t = (fd_file t0)(fd2 \<mapsto> k2)" by blast
  from nfs4_closev_closed_entry [of "\<lparr>cl_fds = t, cl_heap = [], cl_world = 0\<rparr>" fd2 demo_env fd1] t
  obtain r files' c' where "nfs4_closev demo_env [(vfile_from_fd fd1)\<lparr>vf_type := VFILE_NULL\<rparr>, vfile_from_fd fd2] \<lparr>cl_fds = t, cl_heap = [], cl_world = 0\<rparr> =
      Some (r, files', c')" "fd_file (cl_fds c') = (fd_file t)(fd1 := None, fd2 := None)" by auto
  moreover have "(fd_file t)(fd1 := None, fd2 := None) = Map.empty" using t(3) t0(2) by auto
  moreover have "fd1 \<noteq> fd2" "dom (fd_file t) = {fd1, fd2}" using t(2,3) t0(2) by auto
  ultimately show ?thesis by metis
qed

text \<open>
  C34: when the third vector of an array names no open file, the operation fails before anything is sent,
  but the offset of the first vector's descriptor has moved by its length, and the private data of
  the second vector is lost.
\<close>

theorem nfs4_do_iovec_bad_descriptor:
  assumes "fds_ok (cl_fds c)" "fd_file (cl_fds c) fd \<noteq> None" "fd_file (cl_fds c) bad = None" "\<forall>a. fd_data_ok env a"
    "vi_offset v1 = TC_OFFSET_CUR" "vi_file v1 = vfile_from_fd fd" "vi_file v2 = vfile_from_fd fd" "vi_file v3 = vfile_from_fd bad"
  shows "\<exists>iovs' t d. nfs4_do_iovec fuel env fn [v1, v2, v3] c =
      Some (vfailure 0 (- EINVAL), iovs', c\<lparr>cl_fds := t, cl_heap := cl_heap c @ [None, Some d]\<rparr>) \<and>
    fd_file t fd = map_option (\<lambda>k. k\<lparr>kfd_offset := kfd_offset k + vi_length v1\<rparr>) (fd_file (cl_fds c) fd)"
proof -
  let ?h = "cl_heap c"
  obtain k where k: "fd_file (cl_fds c) fd = Some k" using assms(2) by blast
  obtain d1 where d1: "nfs4_fill_fd_data env (vfile_from_fd fd) c = Some (0, (vfile_from_fd fd)\<lparr>vf_ref := FdData (length ?h)\<rparr>, c\<lparr>cl_heap := ?h @ [Some d1]\<rparr>)"
    using fill_fd_data_ok [OF assms(1), of "vfile_from_fd fd" k env] k assms(4) by auto
  let ?c1 = "c\<lparr>cl_heap := ?h @ [Some d1]\<rparr>"
  obtain d2 where d2: "nfs4_fill_fd_data env (vfile_from_fd fd) ?c1 =
      Some (0, (vfile_from_fd fd)\<lparr>vf_ref := FdData (Suc (length ?h))\<rparr>, c\<lparr>cl_heap := ?h @ [Some d1, Some d2]\<rparr>)"
    using fill_fd_data_ok [of ?c1 "vfile_from_fd fd" k env] assms(1,4) k by auto
  let ?c2 = "c\<lparr>cl_heap := ?h @ [Some d1, Some d2]\<rparr>"
  have d3: "nfs4_fill_fd_data env (vfile_from_fd bad) ?c2 = Some (- EINVAL, vfile_from_fd bad, ?c2)"
    using get_fd_closed [OF assms(1,3), of False] by (simp add: nfs4_fill_fd_data_def)
  let ?v1 = "(reset_flags v1)\<lparr>vi_file := (vfile_from_fd fd)\<lparr>vf_ref := FdData (length ?h)\<rparr>\<rparr>"
  have "\<exists>t. advance_cursor ?v1 ?c2 = Some (?c2\<lparr>cl_fds := t\<rparr>) \<and> fds_ok t \<and> fd_file t = moved [?v1] (fd_file (cl_fds c))"
    using advance_cursor_ok [of ?c2 ?v1] assms(1) k by auto
  then obtain t where t: "advance_cursor ?v1 ?c2 = Some (?c2\<lparr>cl_fds := t\<rparr>)" "fd_file t = moved [?v1] (fd_file (cl_fds c))" by blast
  have clr: "nfs4_clear_fd_data (vi_file ?v1) (?c2\<lparr>cl_fds := t\<rparr>) = Some (vfile_from_fd fd, c\<lparr>cl_fds := t, cl_heap := ?h @ [None, Some d2]\<rparr>)"
    by (simp add: nfs4_clear_fd_data_def vfile_from_fd_def)
  have "\<exists>iovs'. fill_loop env [] (map reset_flags [v1, v2, v3]) c = Some (- EINVAL, iovs', c\<lparr>cl_fds := t, cl_heap := ?h @ [None, Some d2]\<rparr>)"
    using d1 d2 d3 t(1) clr assms(6-8) by simp
  then obtain iovs' where "fill_loop env [] (map reset_flags [v1, v2, v3]) c = Some (- EINVAL, iovs', c\<lparr>cl_fds := t, cl_heap := ?h @ [None, Some d2]\<rparr>)" ..
  moreover have "fd_file t fd = map_option (\<lambda>k. k\<lparr>kfd_offset := kfd_offset k + vi_length v1\<rparr>) (fd_file (cl_fds c) fd)"
    using t(2) assms(5) by (simp add: moved_def)
  ultimately show ?thesis by (intro exI [of _ iovs'] exI [of _ t] exI [of _ d2])
      (simp add: nfs4_do_iovec_def nfs4_fill_fd_iovecs_def reset_flags_def)
qed

theorem nfs4_do_iovec_bad_descriptor_witness:
  "\<exists>t fd k iovs' t' d. fds_ok t \<and> fd_file t = [fd \<mapsto> k] \<and> kfd_offset k = 0 \<and>
     nfs4_do_iovec 10 demo_env (nfs4_do_writev demo_env) [cursor_iov fd, cursor_iov fd, cursor_iov 3] \<lparr>cl_fds = t, cl_heap = [], cl_world = 0\<rparr> =
       Some (vfailure 0 (- EINVAL), iovs', \<lparr>cl_fds = t', cl_heap = [None, Some d], cl_world = 0\<rparr>) \<and>
     fd_file t' fd = Some (k\<lparr>kfd_offset := 10\<rparr>)"
proof -
  obtain t fd k where t: "fds_ok t" "fd_file t = [fd \<mapsto> k]" "kfd_offset k = 0" using demo_table by blast
  have "fd_file t 3 = None" by (simp add: fd_file_def fd_index_def VFD_OFFSET_def)
  with nfs4_do_iovec_bad_descriptor [of "\<lparr>cl_fds = t, cl_heap = [], cl_world = 0\<rparr>" fd 3 demo_env "cursor_iov fd" "cursor_iov fd" "cursor_iov 3" 10 "nfs4_do_writev demo_env"] t
  show ?thesis by fastforce
qed

section \<open>Two more consequences\<close>

text \<open>The test whether a directory lies in the export compares characters, not components: \<^verbatim>\<open>/vfs0-old\<close> passes for \<^verbatim>\<open>/vfs0\<close>.\<close>

lemma nfs4_chdir_sibling: "nfs4_chdir demo_env ''/vfs0-old'' w = (0, Suc w)"
  by (simp add: nfs4_chdir_def)

text \<open>
  A vector at the current offset that does not fit a compound is split like any other, so its second
  piece is sent with a small offset computed from the marker.
\<close>

lemma cursor_iov_split:
  "map (map vi_offset) (the (tc_split_iov_array (Suc (Suc (Suc 0))) [(cursor_iov fd)\<lparr>vi_length := 1500000\<rparr>] CPD_LIMIT)) = [[TC_OFFSET_CUR], [1048086]]"
  by (simp add: tc_split_iov_array_def split_loop.simps(3) [of "Suc (Suc 0)"] split_loop.simps(3) [of "Suc 0"] split_loop.simps(2) [of 0]
      Let_def CPD_LIMIT_def CPDSIZE_def COMPOUND4SZ_def TC_SPLIT_THRESHOLD_def
      tc_get_iov_overhead_def OPSIZE_def NFS4_FHSIZE_def RDWRSIZE_def TC_OFFSET_CUR_def)

end
