(* ===== verification/Bitmap4.thy ===== *)
theory Bitmap4
  imports Prelude "HOL-Library.Monad_Syntax"
begin

text \<open>
  The sets of file attributes of the protocol (\<^verbatim>\<open>include/nfsv41.h\<close>) and the inline functions of
  \<^verbatim>\<open>include/nfs_proto_tools.h\<close> on them: a bitmap is a count and up to three words, attribute \<open>n\<close> is
  bit \<open>n mod 32\<close> of word \<open>n div 32\<close>.  Reading a word outside of the array is undefined: \<open>None\<close>.  The loop
  over the attributes of a bitmap that five functions of the server share is a function here, and
  it is shown to visit the set bits in order.
\<close>

unbundle bit_operations_syntax

section \<open>Bitmaps\<close>

record bitmap4 =
  bm_len :: u32
  bm_map0 :: u32
  bm_map1 :: u32
  bm_map2 :: u32

record fattr4 =
  fa_mask :: bitmap4
  fa_vals :: "char list"

definition bm_map :: "bitmap4 \<Rightarrow> nat \<Rightarrow> u32 option" where
  "bm_map bits i =
     (if i = 0 then Some (bm_map0 bits) else if i = 1 then Some (bm_map1 bits)
      else if i = 2 then Some (bm_map2 bits) else None)"

definition bm_set_map :: "nat \<Rightarrow> u32 \<Rightarrow> bitmap4 \<Rightarrow> bitmap4" where
  "bm_set_map i w bits =
     (if i = 0 then bits\<lparr>bm_map0 := w\<rparr> else if i = 1 then bits\<lparr>bm_map1 := w\<rparr> else bits\<lparr>bm_map2 := w\<rparr>)"

definition OFFSET :: "nat \<Rightarrow> nat" where "OFFSET x = drop_bit 5 x"
definition BIT :: "nat \<Rightarrow> nat" where "BIT x = x AND 31"

text \<open>The position of the lowest set bit, from 1, and 0 if there is none.\<close>

definition ffs32 :: "u32 \<Rightarrow> nat" where
  "ffs32 w = (case find (bit w) [0..<32] of None \<Rightarrow> 0 | Some i \<Rightarrow> Suc i)"

function next_from :: "bitmap4 \<Rightarrow> nat \<Rightarrow> nat \<Rightarrow> int option" where
  "next_from bits offset b =
     (if offset < unat (bm_len bits) then do {
        w \<leftarrow> bm_map bits offset;
        let rest_bits = w AND push_bit b (- 1);
        if rest_bits \<noteq> 0 then Some (int (offset * 32 + ffs32 rest_bits) - 1) else next_from bits (offset + 1) 0
      } else Some (- 1))"
  by pat_completeness auto

termination
  by (relation "measure (\<lambda>(bits, offset, b). unat (bm_len bits) - offset)") auto

declare next_from.simps [simp del]

definition next_attr_from_bitmap :: "bitmap4 \<Rightarrow> int \<Rightarrow> int option" where
  "next_attr_from_bitmap bits last_attr =
     next_from bits (OFFSET (nat (last_attr + 1))) (BIT (nat (last_attr + 1)))"

definition attribute_is_set :: "bitmap4 \<Rightarrow> nat \<Rightarrow> bool option" where
  "attribute_is_set bits attr =
     (if OFFSET attr \<ge> unat (bm_len bits) then Some False
      else do { w \<leftarrow> bm_map bits (OFFSET attr); Some (w AND push_bit (BIT attr) 1 \<noteq> 0) })"

definition set_attribute_in_bitmap :: "bitmap4 \<Rightarrow> nat \<Rightarrow> bool \<times> bitmap4" where
  "set_attribute_in_bitmap bits attr =
     (if OFFSET attr \<ge> 3 then (False, bits)
      else let bits = (if OFFSET attr \<ge> unat (bm_len bits) then bits\<lparr>bm_len := word_of_nat (OFFSET attr + 1)\<rparr> else bits)
           in case bm_map bits (OFFSET attr) of
                None \<Rightarrow> (False, bits)
              | Some w \<Rightarrow> (True, bm_set_map (OFFSET attr) (w OR push_bit (BIT attr) 1) bits))"

definition clear_attribute_in_bitmap :: "bitmap4 \<Rightarrow> nat \<Rightarrow> (bool \<times> bitmap4) option" where
  "clear_attribute_in_bitmap bits attr =
     (if OFFSET attr \<ge> unat (bm_len bits) then Some (False, bits)
      else do { w \<leftarrow> bm_map bits (OFFSET attr);
                Some (True, bm_set_map (OFFSET attr) (w AND NOT (push_bit (BIT attr) 1)) bits) })"

definition check_for_wrongsec_ok_attr :: "bitmap4 \<Rightarrow> bool" where
  "check_for_wrongsec_ok_attr attr_request =
     (if bm_len attr_request < 1 then True
      else if bm_map0 attr_request AND NOT (push_bit 11 1) \<noteq> 0 then False
      else if bm_len attr_request < 2 then True
      else if bm_map1 attr_request AND NOT (push_bit (55 - 32) 1) \<noteq> 0 then False
      else if bm_len attr_request < 3 then True
      else bm_map2 attr_request = 0)"

definition check_for_rdattr_error :: "bitmap4 \<Rightarrow> bool" where
  "check_for_rdattr_error attr_request =
     (if bm_len attr_request < 1 then False else bm_map0 attr_request AND push_bit 11 1 \<noteq> 0)"

section \<open>The set of a bitmap\<close>

definition bm_ok :: "bitmap4 \<Rightarrow> bool" where
  "bm_ok bits \<longleftrightarrow> unat (bm_len bits) \<le> 3"

definition bm_has :: "bitmap4 \<Rightarrow> nat \<Rightarrow> bool" where
  "bm_has bits n \<longleftrightarrow>
     n div 32 < unat (bm_len bits) \<and> (case bm_map bits (n div 32) of None \<Rightarrow> False | Some w \<Rightarrow> bit w (n mod 32))"

definition bm_attrs :: "bitmap4 \<Rightarrow> nat list" where
  "bm_attrs bits = filter (bm_has bits) [0..<96]"

lemma OFFSET_div: "OFFSET n = n div 32"
  by (simp add: OFFSET_def drop_bit_eq_div)

lemma BIT_mod: "BIT n = n mod 32"
  using take_bit_eq_mask [of 5 n] by (simp add: BIT_def mask_eq_exp_minus_1 take_bit_eq_mod)

lemma bit_one_mask: "w AND 2 ^ n \<noteq> (0::u32) \<longleftrightarrow> bit w n"
  by (metis and_exp_eq_0_iff_not_bit)

lemma bit_rest: "bit (w AND push_bit b (- 1) :: u32) n \<longleftrightarrow> bit w n \<and> b \<le> n"
  using bit_imp_le_length [of w n] by (auto simp: bit_and_iff bit_push_bit_iff bit_not_iff bit_mask_iff)

lemma bm_map_ok: "bm_ok bits \<Longrightarrow> i < unat (bm_len bits) \<Longrightarrow> bm_map bits i \<noteq> None"
  by (auto simp: bm_ok_def bm_map_def)

lemma bm_has_less: "bm_has bits n \<Longrightarrow> n < 96"
  by (auto simp: bm_has_def bm_map_def split: if_splits)

lemma attribute_is_set_iff: "bm_ok bits \<Longrightarrow> attribute_is_set bits n = Some (bm_has bits n)"
  using bm_map_ok [of bits "n div 32"]
  by (force simp: attribute_is_set_def bm_has_def OFFSET_div BIT_mod bit_one_mask split: option.splits)

lemma ffs_lowest:
  assumes "w \<noteq> 0"
  obtains n where "ffs32 w = Suc n" "bit w n" "n < 32" "\<And>m. m < n \<Longrightarrow> \<not> bit w m"
proof -
  obtain k where "bit w k" using assms by (metis bit_eq_iff bit_0_eq bot_apply bot_bool_def)
  then have "find (bit w) [0..<32] \<noteq> None" using bit_imp_le_length [of w k] by (auto simp: find_None_iff)
  then obtain n where n: "find (bit w) [0..<32] = Some n" by blast
  then have "n < 32 \<and> bit w n \<and> (\<forall>m<n. \<not> bit w m)" by (auto simp: find_Some_iff)
  then show thesis using that [of n] n by (simp add: ffs32_def)
qed

lemma next_from_bounds:
  assumes "next_from bits offset b = Some a" "a \<noteq> - 1" "b < 32"
  shows "int (32 * offset + b) \<le> a \<and> a < 96"
  using assms
proof (induction bits offset b rule: next_from.induct)
  case (1 bits offset b)
  have len: "offset < unat (bm_len bits)" using 1(2,3) by (subst (asm) next_from.simps) (auto split: if_splits)
  then obtain w where w: "bm_map bits offset = Some w" using 1(2) by (subst (asm) next_from.simps) (auto split: if_splits bind_splits)
  then have three: "offset < 3" by (auto simp: bm_map_def split: if_splits)
  show ?case
  proof (cases "w AND push_bit b (- 1) = 0")
    case True
    then have "next_from bits (offset + 1) 0 = Some a" using 1(2) len w by (subst (asm) next_from.simps) auto
    then show ?thesis using 1(1) [OF len w refl] True 1(3,4) by auto
  next
    case False
    obtain n where n: "ffs32 (w AND push_bit b (- 1)) = Suc n" "bit (w AND push_bit b (- 1)) n" "n < 32" by (rule ffs_lowest [OF False])
    then have "a = int (offset * 32 + n)" using 1(2) len w False by (subst (asm) next_from.simps) auto
    moreover have "b \<le> n" using n(2) by (simp only: bit_rest)
    ultimately show ?thesis using n(3) three by simp
  qed
qed

lemma next_from_spec:
  assumes "bm_ok bits" "b < 32"
  shows "(\<exists>n. next_from bits offset b = Some (int n) \<and> bm_has bits n \<and> 32 * offset + b \<le> n \<and>
            (\<forall>m. 32 * offset + b \<le> m \<and> m < n \<longrightarrow> \<not> bm_has bits m)) \<or>
    next_from bits offset b = Some (- 1) \<and> (\<forall>m\<ge>32 * offset + b. \<not> bm_has bits m)"
  using assms
proof (induction bits offset b rule: next_from.induct)
  case (1 bits offset b)
  show ?case
  proof (cases "offset < unat (bm_len bits)")
    case False
    have "\<not> bm_has bits m" if "32 * offset + b \<le> m" for m using that False by (auto simp: bm_has_def)
    then show ?thesis using False by (simp add: next_from.simps)
  next
    case len: True
    then obtain w where w: "bm_map bits offset = Some w" using bm_map_ok [OF 1(2)] by blast
    have here: "bm_has bits (32 * offset + k) \<longleftrightarrow> bit w k" if "k < 32" for k using that len w by (simp add: bm_has_def)
    let ?r = "w AND push_bit b (- 1)"
    show ?thesis
    proof (cases "?r = 0")
      case True
      then have none: "\<not> bit w k" if "b \<le> k" for k using that bit_rest [of w b k] by simp
      have low: "\<not> bm_has bits m" if "32 * offset + b \<le> m" "m < 32 * (offset + 1)" for m
        using here [of "m - 32 * offset"] none [of "m - 32 * offset"] that by simp
      have e: "next_from bits offset b = next_from bits (offset + 1) 0" using len w True by (simp add: next_from.simps [of bits offset])
      from 1(1) [OF len w refl _ 1(2)] True
      consider n where "next_from bits (offset + 1) 0 = Some (int n)" "bm_has bits n" "32 * (offset + 1) \<le> n"
          "\<forall>m. 32 * (offset + 1) \<le> m \<and> m < n \<longrightarrow> \<not> bm_has bits m"
        | "next_from bits (offset + 1) 0 = Some (- 1)" "\<forall>m\<ge>32 * (offset + 1). \<not> bm_has bits m" by auto
      then show ?thesis unfolding e using low 1(3) by cases (force simp: not_less, metis not_less)
    next
      case False
      obtain n where n: "ffs32 ?r = Suc n" "bit ?r n" "n < 32" "\<And>m. m < n \<Longrightarrow> \<not> bit ?r m" by (rule ffs_lowest [OF False]) blast
      have "next_from bits offset b = Some (int (32 * offset + n))" using len w False n(1) by (simp add: next_from.simps [of bits offset])
      moreover have "bm_has bits (32 * offset + n)" "b \<le> n" using here [OF n(3)] n(2) bit_rest by blast+
      moreover have "\<not> bm_has bits m" if m: "32 * offset + b \<le> m" "m < 32 * offset + n" for m
      proof -
        obtain k where k: "m = 32 * offset + k" "b \<le> k" "k < n" using m by (intro that [of "m - 32 * offset"]) auto
        then show ?thesis using here [of k] n(3) n(4) [of k] bit_rest [of w b k] by simp
      qed
      ultimately show ?thesis by (intro disjI1 exI [of _ "32 * offset + n"]) simp
    qed
  qed
qed


lemma next_attr_bounds:
  "next_attr_from_bitmap bits prev = Some a \<Longrightarrow> a \<noteq> - 1 \<Longrightarrow> prev < a \<and> 0 \<le> a \<and> a < 96"
  using next_from_bounds [of bits "nat (prev + 1) div 32" "nat (prev + 1) mod 32" a]
  by (auto simp: next_attr_from_bitmap_def OFFSET_div BIT_mod split: if_splits)

section \<open>The loop over the attributes of a bitmap\<close>

text \<open>
  \<^verbatim>\<open>for (a = next(bits, -1); a != -1; a = next(bits, a))\<close>: the body says whether the loop goes on.
\<close>

function attr_loop :: "bitmap4 \<Rightarrow> (nat \<Rightarrow> 's \<Rightarrow> (bool \<times> 's) option) \<Rightarrow> int \<Rightarrow> 's \<Rightarrow> 's option" where
  "attr_loop bits body prev s =
     (case next_attr_from_bitmap bits prev of
        None \<Rightarrow> None
      | Some a \<Rightarrow>
          if a = - 1 then Some s
          else case body (nat a) s of
                 None \<Rightarrow> None
               | Some (go_on, s') \<Rightarrow> if go_on then attr_loop bits body a s' else Some s')"
  by pat_completeness auto

termination
  by (relation "measure (\<lambda>(bits, body, prev, s). nat (96 - prev))") (auto dest!: next_attr_bounds)

declare attr_loop.simps [simp del]

fun each_attr :: "(nat \<Rightarrow> 's \<Rightarrow> (bool \<times> 's) option) \<Rightarrow> nat list \<Rightarrow> 's \<Rightarrow> 's option" where
  "each_attr body [] s = Some s"
| "each_attr body (a # as) s =
     (case body a s of None \<Rightarrow> None | Some (go_on, s') \<Rightarrow> if go_on then each_attr body as s' else Some s')"

lemma filter_upt_first:
  assumes "P n" "k \<le> n" "n < m" "\<And>i. k \<le> i \<Longrightarrow> i < n \<Longrightarrow> \<not> P i"
  shows "filter P [k..<m] = n # filter P [Suc n..<m]"
proof -
  have "[k..<m] = [k..<n] @ n # [Suc n..<m]" 
    using assms(2,3) upt_add_eq_append [of k n "m - n"] upt_conv_Cons [of n m] by simp
  moreover have "filter P [k..<n] = []" using assms(4) by (simp add: filter_empty_conv)
  ultimately show ?thesis using assms(1) by simp
qed

lemma attr_loop_from:
  assumes "bm_ok bits" "- 1 \<le> prev"
  shows "attr_loop bits body prev s = each_attr body (filter (bm_has bits) [nat (prev + 1)..<96]) s"
  using assms
proof (induction bits body prev s rule: attr_loop.induct)
  case (1 bits body prev s)
  let ?k = "nat (prev + 1)"
  have k: "32 * (?k div 32) + ?k mod 32 = ?k" by simp
  from next_from_spec [OF 1(2), of "?k mod 32" "?k div 32"]
  consider (found) n where "next_attr_from_bitmap bits prev = Some (int n)" "bm_has bits n" "?k \<le> n"
      "\<forall>m. ?k \<le> m \<and> m < n \<longrightarrow> \<not> bm_has bits m"
    | (none) "next_attr_from_bitmap bits prev = Some (- 1)" "\<forall>m\<ge>?k. \<not> bm_has bits m"
    unfolding k next_attr_from_bitmap_def OFFSET_div BIT_mod by auto
  then show ?case
  proof cases
    case found
    have "n < 96" by (rule bm_has_less [OF found(2)])
    then have f: "filter (bm_has bits) [?k..<96] = n # filter (bm_has bits) [Suc n..<96]"
      using found by (intro filter_upt_first) auto
    have n: "nat (int n + 1) = Suc n" by simp
    show ?thesis unfolding f attr_loop.simps [of bits body prev] found(1)
      using 1(1) [OF found(1) _ _ refl _ 1(2)] by (auto simp: n split: option.splits)
  next
    case none
    then have "filter (bm_has bits) [?k..<96] = []" by (simp add: filter_empty_conv)
    then show ?thesis using none(1) by (simp add: attr_loop.simps [of bits body prev])
  qed
qed

lemma attr_loop_each: "bm_ok bits \<Longrightarrow> attr_loop bits body (- 1) s = each_attr body (bm_attrs bits) s"
  using attr_loop_from [of bits "- 1"] by (simp add: bm_attrs_def)


section \<open>Adding and removing attributes\<close>

text \<open>Words beyond the count are zero, as they are in a bitmap that was cleared first.\<close>

definition bm_clean :: "bitmap4 \<Rightarrow> bool" where
  "bm_clean bits \<longleftrightarrow> bm_ok bits \<and> (\<forall>i w. unat (bm_len bits) \<le> i \<longrightarrow> bm_map bits i = Some w \<longrightarrow> w = 0)"

lemma bm_map_set: "i < 3 \<Longrightarrow> bm_map (bm_set_map i w bits) j = (if j = i then Some w else bm_map bits j)"
  by (auto simp: bm_map_def bm_set_map_def)

lemma bm_len_set [simp]: "bm_len (bm_set_map i w bits) = bm_len bits"
  by (simp add: bm_set_map_def)

lemma bm_map_len [simp]: "bm_map (bits\<lparr>bm_len := l\<rparr>) = bm_map bits"
  by (simp add: bm_map_def fun_eq_iff)

lemma bm_map_three: "i < 3 \<longleftrightarrow> bm_map bits i \<noteq> None"
  by (auto simp: bm_map_def)

lemma bm_has_clean: "bm_clean bits \<Longrightarrow> bm_has bits n \<longleftrightarrow> (\<exists>w. bm_map bits (n div 32) = Some w \<and> bit w (n mod 32))"
  by (auto simp: bm_clean_def bm_has_def split: option.splits) (metis bit_0_eq bot_apply bot_bool_def not_less)

lemma set_attribute_in_bitmap_clean:
  assumes "bm_clean bits" "n < 96"
  obtains bits' where "set_attribute_in_bitmap bits n = (True, bits')" "bm_clean bits'"
    "\<And>m. bm_has bits' m \<longleftrightarrow> m = n \<or> bm_has bits m"
proof -
  have three: "n div 32 < 3" using assms(2) by simp
  then obtain w where w: "bm_map bits (n div 32) = Some w" using bm_map_three by blast
  have u: "unat (word_of_nat (n div 32 + 1) :: u32) = n div 32 + 1"
    unfolding unsigned_of_nat of_nat_id using three by (intro take_bit_nat_eq_self) simp
  define l where "l = (if n div 32 \<ge> unat (bm_len bits) then word_of_nat (n div 32 + 1) else bm_len bits)"
  let ?b = "bm_set_map (n div 32) (w OR 2 ^ (n mod 32)) (bits\<lparr>bm_len := l\<rparr>)"
  have len: "unat (bm_len bits) \<le> unat l" "n div 32 < unat l" "unat l \<le> 3"
    using u three assms(1) by (auto simp: l_def bm_clean_def bm_ok_def simp del: of_nat_Suc of_nat_add)
  have clean: "bm_clean ?b"
    unfolding bm_clean_def bm_ok_def bm_map_set [OF three] using assms(1) len
    by (auto simp: bm_clean_def split: if_splits dest: order_trans)
  have "set_attribute_in_bitmap bits n = (True, ?b)"
    using three w by (simp add: set_attribute_in_bitmap_def OFFSET_div BIT_mod Let_def l_def)
  moreover have "bm_has ?b m \<longleftrightarrow> m = n \<or> bm_has bits m" for m
  proof (cases "m div 32 = n div 32")
    case True
    have "m mod 32 = n mod 32 \<longleftrightarrow> m = n" using True by (metis mult_div_mod_eq)
    then show ?thesis
      unfolding bm_has_clean [OF clean] bm_has_clean [OF assms(1)] bm_map_set [OF three] using True w
      by (auto simp: bit_or_iff bit_exp_iff)
  next
    case False
    then show ?thesis
      unfolding bm_has_clean [OF clean] bm_has_clean [OF assms(1)] bm_map_set [OF three] by auto
  qed
  ultimately show thesis using that clean by blast
qed

end
