(* ===== verification/Compound.thy ===== *)
theory Compound
  imports Fd_Table Path_Utils Bitmap4
begin

text \<open>
  The compounds of \<^verbatim>\<open>nfs4/handle.c\<close>: the array of operations a thread fills before it sends them
  to the server in one request, and the functions that append the operations which lead the server to a
  file.  The builder remembers the path of the handle it last saved on the server and, where that is
  shorter, walks from there instead of from the root.

  A compound is the list of the operations up to \<open>opcnt\<close>; resetting \<open>opcnt\<close> cuts the list.  Strings
  are values here: where the source calls a function on paths, that function of theory
  \<open>Path_Utils\<close> is applied to a memory that holds its arguments and, after them, its buffer.
  Allocations succeed.  The server is a tree of files that the operations walk; what it shows of
  an operation is the file it is applied to.
\<close>

unbundle bit_operations_syntax

section \<open>Operations\<close>

datatype (plugins only: code) nfs_opnum4 =
  NFS4_OP_ACCESS | NFS4_OP_CLOSE | NFS4_OP_COMMIT | NFS4_OP_CREATE | NFS4_OP_DELEGPURGE | NFS4_OP_DELEGRETURN
| NFS4_OP_GETATTR | NFS4_OP_GETFH | NFS4_OP_LINK | NFS4_OP_LOCK | NFS4_OP_LOCKT | NFS4_OP_LOCKU | NFS4_OP_LOOKUP
| NFS4_OP_LOOKUPP | NFS4_OP_NVERIFY | NFS4_OP_OPEN | NFS4_OP_OPENATTR | NFS4_OP_OPEN_CONFIRM
| NFS4_OP_OPEN_DOWNGRADE | NFS4_OP_PUTFH | NFS4_OP_PUTPUBFH | NFS4_OP_PUTROOTFH | NFS4_OP_READ | NFS4_OP_READDIR
| NFS4_OP_READLINK | NFS4_OP_REMOVE | NFS4_OP_RENAME | NFS4_OP_RENEW | NFS4_OP_RESTOREFH | NFS4_OP_SAVEFH
| NFS4_OP_SECINFO | NFS4_OP_SETATTR | NFS4_OP_SETCLIENTID | NFS4_OP_SETCLIENTID_CONFIRM | NFS4_OP_VERIFY
| NFS4_OP_WRITE | NFS4_OP_RELEASE_LOCKOWNER | NFS4_OP_BACKCHANNEL_CTL | NFS4_OP_BIND_CONN_TO_SESSION
| NFS4_OP_EXCHANGE_ID | NFS4_OP_CREATE_SESSION | NFS4_OP_DESTROY_SESSION | NFS4_OP_FREE_STATEID
| NFS4_OP_GET_DIR_DELEGATION | NFS4_OP_GETDEVICEINFO | NFS4_OP_GETDEVICELIST | NFS4_OP_LAYOUTCOMMIT
| NFS4_OP_LAYOUTGET | NFS4_OP_LAYOUTRETURN | NFS4_OP_SECINFO_NO_NAME | NFS4_OP_SEQUENCE | NFS4_OP_SET_SSV
| NFS4_OP_TEST_STATEID | NFS4_OP_WANT_DELEGATION | NFS4_OP_DESTROY_CLIENTID | NFS4_OP_RECLAIM_COMPLETE
| NFS4_OP_ALLOCATE | NFS4_OP_COPY | NFS4_OP_OFFLOAD_ABORT | NFS4_OP_COPY_NOTIFY | NFS4_OP_OFFLOAD_REVOKE
| NFS4_OP_OFFLOAD_STATUS | NFS4_OP_WRITE_PLUS | NFS4_OP_READ_PLUS | NFS4_OP_SEEK | NFS4_OP_IO_ADVISE
| NFS4_OP_ILLEGAL

text \<open>Whether an operation changes the current file handle, as the table of the source has it.\<close>

definition NFS4_CHANGE_CFH :: "nfs_opnum4 \<Rightarrow> bool" where
  "NFS4_CHANGE_CFH opn \<longleftrightarrow>
     opn \<in> {NFS4_OP_CREATE, NFS4_OP_LOOKUP, NFS4_OP_LOOKUPP, NFS4_OP_OPEN, NFS4_OP_PUTFH, NFS4_OP_PUTPUBFH,
            NFS4_OP_PUTROOTFH, NFS4_OP_RESTOREFH}"

datatype createmode4 = UNCHECKED4 | GUARDED4 | EXCLUSIVE4 | EXCLUSIVE4_1

text \<open>Only the modes that carry attributes are sent.\<close>

datatype openflag4 = OPEN4_NOCREATE | OPEN4_CREATE createmode4 fattr4

record OPEN4args =
  oa_seqid :: u32
  oa_share_access :: u32
  oa_share_deny :: u32
  oa_clientid :: u64
  oa_owner :: "char list"
  oa_openhow :: openflag4
  oa_file :: string

datatype stable_how4 = UNSTABLE4 | DATA_SYNC4 | FILE_SYNC4

text \<open>Of the types of objects those the client creates.\<close>

datatype createtype4 = NF4DIR | NF4LNK string

text \<open>
  The operations the client appends, with their arguments; a name is a counted string.  The data of a
  write is the address of the caller's buffer.
\<close>

datatype nfs_argop4 =
  OpSequence u32 u32 u32
| OpPutfh nfs_fh4
| OpPutrootfh
| OpLookup string
| OpLookupp
| OpSavefh
| OpRestorefh
| OpGetfh
| OpGetattr bitmap4
| OpSetattr stateid4 fattr4
| OpClose u32 stateid4
| OpOpen OPEN4args
| OpRead stateid4 u64 u32
| OpWrite stateid4 u64 stable_how4 u64 u32
| OpCreate createtype4 string fattr4
| OpReaddir u64 bitmap4
| OpReadlink
| OpRemove string
| OpRename string string
| OpLink string
| OpCopy u64 u64 u64

fun argop :: "nfs_argop4 \<Rightarrow> nfs_opnum4" where
  "argop (OpSequence _ _ _) = NFS4_OP_SEQUENCE"
| "argop (OpPutfh _) = NFS4_OP_PUTFH"
| "argop OpPutrootfh = NFS4_OP_PUTROOTFH"
| "argop (OpLookup _) = NFS4_OP_LOOKUP"
| "argop OpLookupp = NFS4_OP_LOOKUPP"
| "argop OpSavefh = NFS4_OP_SAVEFH"
| "argop OpRestorefh = NFS4_OP_RESTOREFH"
| "argop OpGetfh = NFS4_OP_GETFH"
| "argop (OpGetattr _) = NFS4_OP_GETATTR"
| "argop (OpSetattr _ _) = NFS4_OP_SETATTR"
| "argop (OpClose _ _) = NFS4_OP_CLOSE"
| "argop (OpOpen _) = NFS4_OP_OPEN"
| "argop (OpRead _ _ _) = NFS4_OP_READ"
| "argop (OpWrite _ _ _ _ _) = NFS4_OP_WRITE"
| "argop (OpCreate _ _ _) = NFS4_OP_CREATE"
| "argop (OpReaddir _ _) = NFS4_OP_READDIR"
| "argop OpReadlink = NFS4_OP_READLINK"
| "argop (OpRemove _) = NFS4_OP_REMOVE"
| "argop (OpRename _ _) = NFS4_OP_RENAME"
| "argop (OpLink _) = NFS4_OP_LINK"
| "argop (OpCopy _ _ _) = NFS4_OP_COPY"

section \<open>The compound under construction\<close>

definition MAX_NUM_OPS_PER_COMPOUND :: nat where "MAX_NUM_OPS_PER_COMPOUND = 256"
definition PATH_MAX :: nat where "PATH_MAX = 4096"

record compound =
  argoparray :: "nfs_argop4 list"
  tc_saved_path :: string

definition opcnt :: "compound \<Rightarrow> nat" where
  "opcnt c = length (argoparray c)"

definition reset_opcnt :: "nat \<Rightarrow> compound \<Rightarrow> compound" where
  "reset_opcnt n c = c\<lparr>argoparray := take n (argoparray c)\<rparr>"

definition add_op :: "nfs_argop4 \<Rightarrow> compound \<Rightarrow> compound" where
  "add_op x c = c\<lparr>argoparray := argoparray c @ [x]\<rparr>"

definition tc_has_enough_ops :: "nat \<Rightarrow> compound \<Rightarrow> bool" where
  "tc_has_enough_ops nops c \<longleftrightarrow> opcnt c + nops \<le> MAX_NUM_OPS_PER_COMPOUND"

text \<open>\<open>f && g\<close> on functions that return whether they appended their operations.\<close>

definition and_then :: "(compound \<Rightarrow> bool \<times> compound) \<Rightarrow> (compound \<Rightarrow> bool \<times> compound) \<Rightarrow> compound \<Rightarrow> bool \<times> compound" where
  "and_then f g c = (case f c of (r, c') \<Rightarrow> if r then g c' else (False, c'))"

definition prepare :: "nfs_argop4 \<Rightarrow> compound \<Rightarrow> bool \<times> compound" where
  "prepare x c = (if \<not> tc_has_enough_ops 1 c then (False, c) else (True, add_op x c))"

text \<open>
  The saved path is a buffer of \<open>PATH_MAX + 1\<close> bytes that is read as a C string: a path that does
  not fit leaves it empty, and one with a NUL ends there.
\<close>

definition tc_save_path :: "string \<Rightarrow> compound \<Rightarrow> compound" where
  "tc_save_path path c =
     c\<lparr>tc_saved_path := (if length path > PATH_MAX then [] else takeWhile (\<lambda>x. x \<noteq> NUL) path)\<rparr>"

definition tc_cleanup_compound :: "compound \<Rightarrow> compound" where
  "tc_cleanup_compound c = c\<lparr>argoparray := [], tc_saved_path := []\<rparr>"

section \<open>Calls of the path functions\<close>

definition path_tokens :: "string \<Rightarrow> string list" where
  "path_tokens p = map (slice_str p) (tc_get_path_components p (mkslice 0 (length p)))"

definition dir_base :: "string \<Rightarrow> string \<times> string" where
  "dir_base p = (case tc_path_dir_base_s p (mkslice 0 (length p)) of (r, dir, base) \<Rightarrow> (slice_str p dir, slice_str p base))"

definition rebase_path :: "string \<Rightarrow> string \<Rightarrow> string option" where
  "rebase_path base path =
     (let m = ''..'' @ base @ path @ replicate PATH_MAX NUL;
          (n, m', b) = tc_path_rebase_s 0 m (mkslice 2 (length base)) (mkslice (2 + length base) (length path))
                         (mkbuf (2 + length base + length path) PATH_MAX)
      in if n < 0 then None else Some (slice_str m' (asslice b)))"

section \<open>Leading the server to a file\<close>

record tc_cwd_data =
  cwd_path :: string
  cwd_fh :: nfs_fh4

definition tc_prepare_putfh :: "nfs_fh4 \<Rightarrow> compound \<Rightarrow> bool \<times> compound" where
  "tc_prepare_putfh fh = prepare (OpPutfh fh)"

text \<open>\<open>strncmp (w, "..", length w) = 0\<close>: the comparison ends at a NUL.\<close>

definition is_dotdot :: "string \<Rightarrow> bool" where
  "is_dotdot w \<longleftrightarrow> takeWhile (\<lambda>x. x \<noteq> NUL) w = take (length w) ''..''"

fun lookups_loop :: "string list \<Rightarrow> compound \<Rightarrow> bool \<times> compound" where
  "lookups_loop [] c = (True, c)"
| "lookups_loop (w # ws) c =
     (if w = [] then lookups_loop ws c
      else if hd w = CHR ''.'' \<and> length w = 1 then lookups_loop ws c
      else if \<not> tc_has_enough_ops 1 c then (False, c)
      else if is_dotdot w then lookups_loop ws (add_op OpLookupp c)
      else lookups_loop ws (add_op (OpLookup w) c))"

definition tc_prepare_lookups :: "string list \<Rightarrow> compound \<Rightarrow> bool \<times> compound" where
  "tc_prepare_lookups comps c =
     (case lookups_loop comps c of (r, c') \<Rightarrow> (r, if r then c' else reset_opcnt (opcnt c) c'))"

text \<open>
  The slice that \<open>asslice\<close> makes of the buffer has the length of the two joined paths, while
  \<open>tc_path_join_s\<close> normalises them in place: a normal form that is shorter is followed by its NUL and
  by the rest of what the buffer held.
\<close>

definition tc_get_abspath_from_cwd :: "tc_cwd_data \<Rightarrow> string \<Rightarrow> string" where
  "tc_get_abspath_from_cwd cwd rel_path =
     (let p = cwd_path cwd;
          m = NUL # p @ rel_path @ replicate PATH_MAX NUL;
          (n, m', b) = tc_path_join_s m (mkslice 1 (length p)) (mkslice (1 + length p) (length rel_path))
                         (mkbuf (1 + length p + length rel_path) PATH_MAX)
      in slice_str m' (asslice b))"

text \<open>\<open>leaf\<close> says whether the caller wants the last component: the walk then ends at its parent.\<close>

definition split_leaf :: "string \<Rightarrow> bool \<Rightarrow> string \<times> string" where
  "split_leaf path leaf = (if leaf then dir_base path else (path, []))"

definition tc_set_cfh_from_cfh :: "string \<Rightarrow> bool \<Rightarrow> compound \<Rightarrow> bool \<times> string \<times> compound" where
  "tc_set_cfh_from_cfh path leaf c =
     (let (p, name) = split_leaf path leaf; (r, c') = tc_prepare_lookups (path_tokens p) c in (r, name, c'))"

definition tc_set_cfh_from_root :: "string list \<Rightarrow> compound \<Rightarrow> bool \<times> compound" where
  "tc_set_cfh_from_root comps c =
     (if \<not> tc_has_enough_ops 1 c then (False, c)
      else case tc_prepare_lookups ((comps[0 := tl (comps ! 0)])) (add_op OpPutrootfh c) of
             (r, c') \<Rightarrow> (r, if r then c' else reset_opcnt (opcnt c) c'))"

definition tc_set_cfh_from_cwd :: "tc_cwd_data \<Rightarrow> string list \<Rightarrow> compound \<Rightarrow> bool \<times> compound" where
  "tc_set_cfh_from_cwd cwd comps c =
     (if \<not> tc_has_enough_ops 1 c then (False, c)
      else case tc_prepare_lookups comps (snd (tc_prepare_putfh (cwd_fh cwd) c)) of
             (r, c') \<Rightarrow> (r, if r then c' else reset_opcnt (opcnt c) c'))"

definition tc_compress_path :: "tc_cwd_data \<Rightarrow> string \<Rightarrow> string \<Rightarrow> bool \<times> string list \<times> string" where
  "tc_compress_path cwd saved path =
     (let abs_path = (if path \<noteq> [] \<and> hd path = SLASH then path else tc_get_abspath_from_cwd cwd path);
          comps = path_tokens path
      in if saved = [] then (False, comps, abs_path)
         else case rebase_path saved abs_path of
                None \<Rightarrow> (False, comps, abs_path)
              | Some short_path \<Rightarrow>
                  let short_comps = path_tokens short_path
                  in if length short_comps + 1 < length comps then (True, short_comps, abs_path)
                     else (False, comps, abs_path))"

text \<open>The loops run from the last operation backwards: the list is the reversed array.\<close>

fun unchanged_since_savefh :: "nfs_argop4 list \<Rightarrow> bool" where
  "unchanged_since_savefh [] = False"
| "unchanged_since_savefh (x # xs) =
     (if argop x = NFS4_OP_SAVEFH then True
      else if argop x = NFS4_OP_RESTOREFH then unchanged_since_savefh xs
      else if NFS4_CHANGE_CFH (argop x) then False
      else unchanged_since_savefh xs)"

fun unchanged_since_restorefh :: "nfs_argop4 list \<Rightarrow> bool" where
  "unchanged_since_restorefh [] = False"
| "unchanged_since_restorefh (x # xs) =
     (if argop x = NFS4_OP_RESTOREFH then True
      else if NFS4_CHANGE_CFH (argop x) then False
      else unchanged_since_restorefh xs)"

definition tc_cfh_not_changed_since_savefh :: "compound \<Rightarrow> bool" where
  "tc_cfh_not_changed_since_savefh c = unchanged_since_savefh (rev (argoparray c))"

definition tc_cfh_not_changed_since_restorefh :: "compound \<Rightarrow> bool" where
  "tc_cfh_not_changed_since_restorefh c = unchanged_since_restorefh (rev (argoparray c))"

definition tc_prepare_savefh :: "string option \<Rightarrow> compound \<Rightarrow> bool \<times> compound" where
  "tc_prepare_savefh p c =
     (if tc_cfh_not_changed_since_savefh c \<or> tc_cfh_not_changed_since_restorefh c then (True, c)
      else if \<not> tc_has_enough_ops 1 c then (False, c)
      else case p of
             Some q \<Rightarrow> (True, tc_save_path q (add_op OpSavefh c))
           | None \<Rightarrow> (True, (add_op OpSavefh c)\<lparr>tc_saved_path := []\<rparr>))"

definition tc_prepare_restorefh :: "compound \<Rightarrow> bool \<times> compound" where
  "tc_prepare_restorefh c =
     (if tc_cfh_not_changed_since_savefh c then (True, c)
      else if \<not> tc_has_enough_ops 1 c then (False, c)
      else (True, add_op OpRestorefh c))"

definition tc_set_cfh_to_path :: "tc_cwd_data \<Rightarrow> string \<Rightarrow> bool \<Rightarrow> bool \<Rightarrow> compound \<Rightarrow> bool \<times> string \<times> compound" where
  "tc_set_cfh_to_path cwd path leaf save c =
     (let (p, name) = split_leaf path leaf;
          (compressed, comps, abs_path) = tc_compress_path cwd (tc_saved_path c) p;
          (r, c1) = (if compressed then and_then tc_prepare_restorefh (tc_prepare_lookups comps) c
                     else if path \<noteq> [] \<and> hd path = SLASH then tc_set_cfh_from_root comps c
                     else tc_set_cfh_from_cwd cwd comps c);
          (r2, c2) = (if r \<and> save then tc_prepare_savefh (Some abs_path) c1 else (r, c1))
      in (r2, name, if r2 then c2 else reset_opcnt (opcnt c) c2))"

definition tc_set_cfh_to_handle :: "file_handle \<Rightarrow> compound \<Rightarrow> bool \<times> compound" where
  "tc_set_cfh_to_handle h =
     prepare (OpPutfh \<lparr>nfs_fh4_len = handle_bytes h, nfs_fh4_val = Some (f_handle h)\<rparr>)"

text \<open>
  What the private data of a descriptor leads to.  \<open>fd_refs\<close> follows its pointer; a reference that does
  not fit the type of a file, and a type that is not supported, is undefined: \<open>None\<close>.
\<close>

record fd_ref =
  fr_fh4 :: nfs_fh4
  fr_stateid :: stateid4
  fr_cursor :: u64

type_synonym fd_refs = "nat \<Rightarrow> fd_ref"

definition tc_set_current_fh ::
  "tc_cwd_data \<Rightarrow> fd_refs \<Rightarrow> vfile \<Rightarrow> bool \<Rightarrow> compound \<Rightarrow> (bool \<times> string \<times> compound) option" where
  "tc_set_current_fh cwd fds tcf save c =
     (case (vf_type tcf, vf_ref tcf) of
        (VFILE_CURRENT, PathRef path) \<Rightarrow>
          Some (case tc_set_cfh_from_cfh path True c of (r, name, c') \<Rightarrow> (r, name, if r then c' else reset_opcnt (opcnt c) c'))
      | (VFILE_HANDLE, HandleRef h) \<Rightarrow>
          Some (case tc_set_cfh_to_handle h c of (r, c') \<Rightarrow> (r, [], if r then c' else reset_opcnt (opcnt c) c'))
      | (VFILE_DESCRIPTOR, FdData d) \<Rightarrow>
          Some (case tc_prepare_putfh (fr_fh4 (fds d)) c of
                  (r, c') \<Rightarrow> (r, [], if r then c' else reset_opcnt (opcnt c) c'))
      | (VFILE_PATH, PathRef path) \<Rightarrow>
          Some (case tc_set_cfh_to_path cwd path True save c of
                  (r, name, c') \<Rightarrow> (r, name, if r then c' else reset_opcnt (opcnt c) c'))
      | _ \<Rightarrow> None)"

definition tc_set_saved_fh ::
  "tc_cwd_data \<Rightarrow> fd_refs \<Rightarrow> vfile \<Rightarrow> compound \<Rightarrow> (bool \<times> string \<times> compound) option" where
  "tc_set_saved_fh cwd fds tcf c =
     (case (vf_type tcf, vf_ref tcf) of
        (VFILE_PATH, PathRef path) \<Rightarrow>
          Some (case tc_set_cfh_to_path cwd path True True c of
                  (r, name, c') \<Rightarrow> (r, name, if r then c' else reset_opcnt (opcnt c) c'))
      | _ \<Rightarrow> do {
          (r, name, c1) \<leftarrow> tc_set_current_fh cwd fds tcf False c;
          let (r2, c2) = (if r then tc_prepare_savefh None c1 else (False, c1));
          Some (r2, name, if r2 then c2 else reset_opcnt (opcnt c) c2)
        })"

section \<open>The server\<close>

text \<open>
  A tree of files: \<open>t_child\<close> is what \<open>LOOKUP\<close> finds, \<open>t_parent\<close> what \<open>LOOKUPP\<close> finds, \<open>t_fh\<close> what a
  file handle stands for.  The tree holds every file that exists while the compound runs, also those it
  creates.  The protocol promises that only directories have children, that the parent of a
  directory is the one it was found in, and that the root and whatever is not a directory have none.
\<close>

record 'n tree =
  t_root :: 'n
  t_dir :: "'n \<Rightarrow> bool"
  t_child :: "'n \<Rightarrow> string \<Rightarrow> 'n option"
  t_parent :: "'n \<Rightarrow> 'n option"
  t_fh :: "nfs_fh4 \<Rightarrow> 'n option"

definition tree_ok :: "'n tree \<Rightarrow> bool" where
  "tree_ok T \<longleftrightarrow> t_dir T (t_root T) \<and> t_parent T (t_root T) = None \<and>
     (\<forall>f. \<not> t_dir T f \<longrightarrow> t_parent T f = None) \<and>
     (\<forall>d w f. t_child T d w = Some f \<longrightarrow> t_dir T d \<and> (t_dir T f \<longrightarrow> t_parent T f = Some d))"

text \<open>The current and the saved handle, and the operations done so far with the files they were applied to.\<close>

record 'n srv =
  s_cfh :: "'n option"
  s_sfh :: "'n option"
  s_log :: "(nfs_argop4 \<times> 'n list) list"

definition srv_init :: "'n srv" where
  "srv_init = \<lparr>s_cfh = None, s_sfh = None, s_log = []\<rparr>"

definition srv_note :: "nfs_argop4 \<Rightarrow> 'n list \<Rightarrow> 'n srv \<Rightarrow> 'n srv" where
  "srv_note x ns s = s\<lparr>s_log := s_log s @ [(x, ns)]\<rparr>"

definition srv_both :: "nfs_argop4 \<Rightarrow> 'n srv \<Rightarrow> 'n srv option" where
  "srv_both x s = do { f \<leftarrow> s_sfh s; d \<leftarrow> s_cfh s; Some (srv_note x [f, d] s) }"

definition srv_enter :: "'n tree \<Rightarrow> nfs_argop4 \<Rightarrow> string \<Rightarrow> 'n srv \<Rightarrow> 'n srv option" where
  "srv_enter T x w s = do { d \<leftarrow> s_cfh s; n \<leftarrow> t_child T d w; Some ((srv_note x [d] s)\<lparr>s_cfh := Some n\<rparr>) }"

fun srv_step :: "'n tree \<Rightarrow> nfs_argop4 \<Rightarrow> 'n srv \<Rightarrow> 'n srv option" where
  "srv_step T (OpSequence _ _ _) s = Some s"
| "srv_step T (OpPutfh fh) s = do { n \<leftarrow> t_fh T fh; Some (s\<lparr>s_cfh := Some n\<rparr>) }"
| "srv_step T OpPutrootfh s = Some (s\<lparr>s_cfh := Some (t_root T)\<rparr>)"
| "srv_step T (OpLookup w) s = do { d \<leftarrow> s_cfh s; n \<leftarrow> t_child T d w; Some (s\<lparr>s_cfh := Some n\<rparr>) }"
| "srv_step T OpLookupp s = do { d \<leftarrow> s_cfh s; n \<leftarrow> t_parent T d; Some (s\<lparr>s_cfh := Some n\<rparr>) }"
| "srv_step T OpSavefh s = do { d \<leftarrow> s_cfh s; Some (s\<lparr>s_sfh := Some d\<rparr>) }"
| "srv_step T OpRestorefh s = do { d \<leftarrow> s_sfh s; Some (s\<lparr>s_cfh := Some d\<rparr>) }"
| "srv_step T (OpOpen a) s = srv_enter T (OpOpen a) (oa_file a) s"
| "srv_step T (OpCreate k w a) s = srv_enter T (OpCreate k w a) w s"
| "srv_step T (OpRename w v) s = srv_both (OpRename w v) s"
| "srv_step T (OpLink w) s = srv_both (OpLink w) s"
| "srv_step T (OpCopy i j k) s = srv_both (OpCopy i j k) s"
| "srv_step T x s = do { d \<leftarrow> s_cfh s; Some (srv_note x [d] s) }"

fun srv_run :: "'n tree \<Rightarrow> nfs_argop4 list \<Rightarrow> 'n srv \<Rightarrow> 'n srv option" where
  "srv_run T [] s = Some s"
| "srv_run T (x # xs) s = do { s' \<leftarrow> srv_step T x s; srv_run T xs s' }"

text \<open>What a path names: the walk along its normal form.\<close>

fun walk :: "'n tree \<Rightarrow> 'n \<Rightarrow> string list \<Rightarrow> 'n option" where
  "walk T n [] = Some n"
| "walk T n (w # ws) =
     (if w = [] \<or> w = ''.'' then walk T n ws
      else do { m \<leftarrow> (if w = ''..'' then t_parent T n else t_child T n w); walk T m ws })"

definition path_at :: "'n tree \<Rightarrow> tc_cwd_data \<Rightarrow> string \<Rightarrow> 'n option" where
  "path_at T cwd p =
     (if is_abs p then walk T (t_root T) (names p) else do { d \<leftarrow> t_fh T (cwd_fh cwd); walk T d (names p) })"

definition cwd_ok :: "'n tree \<Rightarrow> tc_cwd_data \<Rightarrow> bool" where
  "cwd_ok T cwd \<longleftrightarrow> is_abs (cwd_path cwd) \<and> NUL \<notin> set (cwd_path cwd) \<and>
     (\<exists>d. t_dir T d \<and> t_fh T (cwd_fh cwd) = Some d \<and> walk T (t_root T) (names (cwd_path cwd)) = Some d)"

text \<open>
  The invariant of the builder: the server reaches the state \<open>s\<close> with the operations so far, and the
  saved path names the directory whose handle it has saved.
\<close>

definition saved_leads :: "'n tree \<Rightarrow> string \<Rightarrow> 'n srv \<Rightarrow> bool" where
  "saved_leads T p s \<longleftrightarrow> is_abs p \<and> NUL \<notin> set p \<and> length p \<le> PATH_MAX \<and>
     (\<exists>d. s_sfh s = Some d \<and> t_dir T d \<and> walk T (t_root T) (names p) = Some d)"

definition built :: "'n tree \<Rightarrow> compound \<Rightarrow> 'n srv \<Rightarrow> bool" where
  "built T c s \<longleftrightarrow> srv_run T (argoparray c) srv_init = Some s \<and>
     (tc_saved_path c \<noteq> [] \<longrightarrow> saved_leads T (tc_saved_path c) s)"

end
