(* ===== verification/Compound_Path.thy ===== *)
theory Compound_Path
  imports Compound
begin

text \<open>
  The operations that theory \<open>Compound\<close> appends for a path lead the server to the file the path names.
\<close>

section \<open>The path functions on strings\<close>

lemma slice_str_whole [simp]: "slice_str p (mkslice 0 (length p)) = p" "slice_ok p (mkslice 0 (length p))"
  by (simp_all add: slice_str_def mkslice_def bytes_def slice_ok_def)

lemma path_tokens_comps: "path_tokens p = path_comps p"
  using tc_get_path_components_refines(1) [of p "mkslice 0 (length p)"] by (simp add: path_tokens_def)

lemma mem_slice:
  assumes "m = u @ v @ x" "length u = i" "length v = k"
  shows "slice_str m (mkslice i k) = v" "slice_ok m (mkslice i k)"
  using assms by (auto simp: slice_str_def mkslice_def bytes_def slice_ok_def)

lemma sum_list_bound: "\<forall>x \<in> set xs. x \<le> k \<Longrightarrow> sum_list xs \<le> length xs * (k :: nat)"
  by (induction xs) auto

lemma components_count:
  assumes "slice_ok m s"
  shows "length (tc_get_path_components m s) \<le> sl_size s + 1"
proof -
  have "length (path_comps p) \<le> Suc (length p)" for p
    using names_length [of p] by (cases "names p") (auto simp: path_comps_def)
  moreover have "length (slice_str m s) = sl_size s" using assms by (simp add: slice_str_def slice_ok_def length_bytes)
  ultimately show ?thesis
    using arg_cong [OF tc_get_path_components_refines(1) [OF assms], of length] by (simp, metis)
qed

lemma rebase_too_long:
  assumes ok: "slice_ok m s" "slice_ok m t" and dd: "slice_str m (mkslice dotdot 2) = ''..''" "slice_ok m (mkslice dotdot 2)"
    and b: "bf_size b = 0" "bf_capacity b < 2 ^ 30" "sl_size s < 2 ^ 14" "sl_size t < 2 ^ 14"
    and long: "bf_capacity b < length (rebase_text (slice_str m s) (slice_str m t))" "0 < bf_capacity b"
  shows "fst (tc_path_rebase_s dotdot m s t b) = -1"
proof -
  let ?B = "tc_get_path_components m s" and ?P = "tc_get_path_components m t"
  define l where "l = match_len m ?B ?P"
  define rel where "rel = replicate (length ?B - l) (mkslice dotdot 2) @ drop l ?P"
  note B = tc_get_path_components_refines [OF ok(1)] and P = tc_get_path_components_refines [OF ok(2)]
  have oks: "\<forall>c \<in> set rel. slice_ok m c"
    using dd(2) components_slice_ok [OF ok(2)] by (auto simp: rel_def dest: in_set_dropD)
  have strs: "map (slice_str m) rel = rebase_comps (path_comps (slice_str m s)) (path_comps (slice_str m t))"
    using match_len_common [OF components_slice_ok [OF ok(1)] components_slice_ok [OF ok(2)]] dd(1)
    by (simp only: rel_def rebase_comps_def l_def map_append map_replicate drop_map length_map flip: B(1) P(1))
  have ne: "rel \<noteq> []" using long strs by (auto simp: rebase_text_def)
  have x: "rebase_text (slice_str m s) (slice_str m t) = sep_text True (map (slice_str m) rel)"
    using ne strs by (auto simp: rebase_text_def sep_text_def)
  have tot: "int (sum_list (map sl_size rel)) + int (length rel) - 1 = int (length (rebase_text (slice_str m s) (slice_str m t)))"
    using sep_text_total [OF oks ne] x by simp
  have "\<forall>x \<in> set (map sl_size rel). x \<le> 2 ^ 14"
    using P(3) b(4) by (fastforce simp: rel_def mkslice_def dest: in_set_dropD)
  then have sum: "sum_list (map sl_size rel) \<le> length rel * 2 ^ 14"
    using sum_list_bound [of "map sl_size rel" "2 ^ 14"] by simp
  have "length ?B \<le> 2 ^ 14 + 1" "length ?P \<le> 2 ^ 14 + 1"
    using components_count [OF ok(1)] components_count [OF ok(2)] b(3,4) by simp_all
  then have "length rel \<le> 2 * (2 ^ 14 + 1)" by (simp add: rel_def)
  then have len: "int (sum_list (map sl_size rel)) + int (length rel) - 1 < 2 ^ 31" using sum by simp
  have "c_int (int (sum_list (map sl_size rel)) + int (length rel) - 1) > buf_remaining b"
    using tot len long b by (simp add: buf_remaining_def c_int_id)
  then show ?thesis
    unfolding tc_path_rebase_s_def Let_def l_def [symmetric] rel_def [symmetric] by simp
qed

lemma rebase_path_text:
  assumes "length b \<le> PATH_MAX" "length p \<le> PATH_MAX"
  shows "rebase_path b p = (if length (rebase_text b p) \<le> PATH_MAX then Some (rebase_text b p) else None)"
proof -
  define m where "m = ''..'' @ b @ p @ replicate PATH_MAX NUL"
  define bf where "bf = mkbuf (2 + length b + length p) PATH_MAX"
  define s where "s = mkslice 2 (length b)"
  define t where "t = mkslice (2 + length b) (length p)"
  have s: "slice_str m s = b" "slice_ok m s" "sl_size s = length b"
    using mem_slice [of m "''..''" b "p @ replicate PATH_MAX NUL" 2 "length b"]
    by (simp_all add: s_def m_def mkslice_def)
  have t: "slice_str m t = p" "slice_ok m t" "sl_size t = length p"
    using mem_slice [of m "''..'' @ b" p "replicate PATH_MAX NUL" "2 + length b" "length p"]
    by (simp_all add: t_def m_def mkslice_def)
  have dd: "slice_str m (mkslice 0 2) = ''..''" "slice_ok m (mkslice 0 2)"
    using mem_slice [of m "[]" "''..''" "b @ p @ replicate PATH_MAX NUL" 0 2] by (simp_all add: m_def)
  have bf: "buf_ok m bf" "bf_size bf = 0" "bf_capacity bf = PATH_MAX" "buf_str m bf = []"
    by (simp_all add: bf_def m_def mkbuf_def buf_ok_def buf_str_def bytes_def)
  have out: "outside bf t" "outside bf (mkslice 0 2)" by (simp_all add: outside_def bf_def mkbuf_def t_def mkslice_def)
  obtain n m' b' where r: "tc_path_rebase_s 0 m s t bf = (n, m', b')" by (cases "tc_path_rebase_s 0 m s t bf")
  have def: "rebase_path b p = (if n < 0 then None else Some (slice_str m' (asslice b')))"
    using r by (simp add: rebase_path_def m_def bf_def s_def t_def Let_def)
  show ?thesis
  proof (cases "length (rebase_text b p) \<le> PATH_MAX")
    case True
    then show ?thesis
      using tc_path_rebase_s_spec [OF bf(1) s(2) t(2) dd out _ _ r] bf s t def
      by (auto simp: PATH_MAX_def asslice_def slice_str_def mkslice_def buf_str_def)
  next
    case False
    then have "n = -1"
      using rebase_too_long [OF s(2) t(2) dd bf(2), of] r assms s t bf by (simp add: PATH_MAX_def)
    then show ?thesis using False def by simp
  qed
qed

lemma abspath_joined:
  assumes "length (cwd_path cwd) + length p + 2 < PATH_MAX" "cwd_path cwd \<noteq> []"
    and "NUL \<notin> set (cwd_path cwd)" "NUL \<notin> set p"
  defines "q \<equiv> slash_cat (cwd_path cwd) p"
  shows "length (tc_get_abspath_from_cwd cwd p) = length q"
    "take (Suc (length (norm_path q))) (tc_get_abspath_from_cwd cwd p) = take (length q) (norm_path q @ [NUL])"
proof -
  let ?p = "cwd_path cwd"
  define m where "m = NUL # ?p @ p @ replicate PATH_MAX NUL"
  define b where "b = mkbuf (1 + length ?p + length p) PATH_MAX"
  define s1 where "s1 = mkslice 1 (length ?p)"
  define s2 where "s2 = mkslice (1 + length ?p) (length p)"
  have s1: "slice_str m s1 = ?p" "slice_ok m s1" "sl_size s1 = length ?p"
    using mem_slice [of m "[NUL]" ?p "p @ replicate PATH_MAX NUL" 1 "length ?p"]
    by (simp_all add: s1_def m_def mkslice_def)
  have s2: "slice_str m s2 = p" "slice_ok m s2" "sl_size s2 = length p"
    using mem_slice [of m "NUL # ?p" p "replicate PATH_MAX NUL" "1 + length ?p" "length p"]
    by (simp_all add: s2_def m_def mkslice_def)
  have b: "buf_ok m b" "bf_size b = 0" "bf_capacity b = PATH_MAX" "bf_data b \<noteq> NULL"
    by (simp_all add: b_def m_def mkbuf_def buf_ok_def)
  have out: "outside b s1" "outside b s2" by (simp_all add: outside_def b_def mkbuf_def s1_def s2_def mkslice_def)
  obtain n m' b' where j: "tc_path_join_s m s1 s2 b = (n, m', b')" by (cases "tc_path_join_s m s1 s2 b")
  have J: "cstring_at m' (bf_data b) (norm_path q)" "bf_data b' = bf_data b" "bf_size b' = length q" "buf_ok m' b'"
    using tc_path_join_s_spec [OF b(1,2) s1(2) s2(2) out _ _ _ _ _ _ b(4) j] assms(1-4) s1 s2 b
    by (simp_all add: PATH_MAX_def TC_PATH_MAX_def q_def)
  have e: "tc_get_abspath_from_cwd cwd p = bytes m' (bf_data b) (length q)"
    using j J(2,3) by (simp add: tc_get_abspath_from_cwd_def m_def b_def s1_def s2_def Let_def asslice_def slice_str_def mkslice_def)
  have l: "bf_data b + length q \<le> length m'" using J(2-4) by (simp add: buf_ok_def)
  then show "length (tc_get_abspath_from_cwd cwd p) = length q" by (simp add: e length_bytes)
  have "norm_path q @ [NUL] = take (Suc (length (norm_path q))) (drop (bf_data b) m')"
    using J(1) by (simp add: cstring_at_def bytes_def)
  then show "take (Suc (length (norm_path q))) (tc_get_abspath_from_cwd cwd p) = take (length q) (norm_path q @ [NUL])"
    by (simp only: e bytes_def take_take min.commute)
qed

lemma abspath_normal:
  assumes "length (cwd_path cwd) + length p + 2 < PATH_MAX" "cwd_path cwd \<noteq> []"
    and "NUL \<notin> set (cwd_path cwd)" "NUL \<notin> set p"
    and "norm_path (slash_cat (cwd_path cwd) p) = slash_cat (cwd_path cwd) p"
  shows "tc_get_abspath_from_cwd cwd p = slash_cat (cwd_path cwd) p"
  using abspath_joined [OF assms(1-4)] assms(5) by simp

lemma abspath_one_short:
  assumes "length (cwd_path cwd) + length p + 2 < PATH_MAX" "cwd_path cwd \<noteq> []"
    and "NUL \<notin> set (cwd_path cwd)" "NUL \<notin> set p"
    and "length (slash_cat (cwd_path cwd) p) = Suc (length (norm_path (slash_cat (cwd_path cwd) p)))"
  shows "tc_get_abspath_from_cwd cwd p = norm_path (slash_cat (cwd_path cwd) p) @ [NUL]"
  using abspath_joined [OF assms(1-4)] assms(5) by simp

lemma normal_hd: "normal w \<Longrightarrow> w \<noteq> [] \<and> hd w \<noteq> SLASH"
  by (cases w) (auto simp: normal_def)

section \<open>Walking the tree\<close>

lemma tree_ok_child: "tree_ok T \<Longrightarrow> t_child T d w = Some f \<Longrightarrow> t_dir T d \<and> (t_dir T f \<longrightarrow> t_parent T f = Some d)"
  and tree_ok_root: "tree_ok T \<Longrightarrow> t_dir T (t_root T) \<and> t_parent T (t_root T) = None"
  by (auto simp: tree_ok_def)

lemma walk_append: "walk T n (us @ vs) = do { m \<leftarrow> walk T n us; walk T m vs }"
  by (induction us arbitrary: n) (auto split: bind_splits)

lemma walk_normal [simp]: "normal w \<Longrightarrow> walk T n (w # ws) = do { m \<leftarrow> t_child T n w; walk T m ws }"
  by (auto simp: normal_def)

lemma walk_snoc:
  assumes "normal w" "walk T n (ws @ [w]) = Some m"
  obtains x where "walk T n ws = Some x" "t_child T x w = Some m"
  using assms by (auto simp: walk_append normal_def split: bind_splits if_splits)

text \<open>Climbing from a directory goes back along the path that leads to it.\<close>

lemma climb:
  assumes "tree_ok T" "\<forall>w \<in> set us. normal w" "walk T m us = Some b" "t_dir T b"
  shows "walk T b (replicate (length us) ''..'') = Some m"
  using assms(2-4)
proof (induction us arbitrary: b rule: rev_induct)
  case (snoc u us)
  obtain x where x: "walk T m us = Some x" "t_child T x u = Some b" using snoc.prems by (auto elim: walk_snoc)
  have "t_dir T x" "t_parent T b = Some x" using tree_ok_child [OF assms(1) x(2)] snoc.prems(3) by auto
  then show ?case using snoc.IH [OF _ x(1)] snoc.prems(1) by (simp add: replicate_app_Cons_same)
qed simp

lemma climb_root:
  assumes "tree_ok T" "\<forall>w \<in> set us. normal w" "walk T (t_root T) us = Some d" "t_dir T d"
    and "walk T d (replicate k ''..'') = Some x"
  shows "k \<le> length us \<and> walk T (t_root T) (take (length us - k) us) = Some x \<and> t_dir T x"
  using assms(2-5)
proof (induction k arbitrary: us d)
  case (Suc k)
  show ?case
  proof (cases us rule: rev_cases)
    case Nil
    then show ?thesis using Suc.prems tree_ok_root [OF assms(1)] by simp
  next
    case (snoc vs v)
    obtain y where y: "walk T (t_root T) vs = Some y" "t_child T y v = Some d" using Suc.prems(1,2) snoc by (auto elim: walk_snoc)
    have "t_dir T y" "t_parent T d = Some y" using tree_ok_child [OF assms(1) y(2)] Suc.prems(3) by auto
    then show ?thesis using Suc.IH [OF _ y(1)] Suc.prems(1,4) snoc by simp
  qed
qed simp

lemma rebase_walk:
  assumes T: "tree_ok T" and n: "\<forall>w \<in> set bs. normal w" "\<forall>w \<in> set ps. normal w"
    and b: "walk T (t_root T) bs = Some b" "t_dir T b" and p: "walk T (t_root T) ps = Some n"
  defines "l \<equiv> common_len bs ps"
  shows "walk T b (replicate (length bs - l) ''..'' @ drop l ps) = Some n"
proof -
  have t: "take l bs = take l ps" "l \<le> length bs" using common_len_take common_len_le unfolding l_def by auto
  obtain m where m: "walk T (t_root T) (take l bs) = Some m" "walk T m (drop l bs) = Some b"
    using b(1) walk_append [of T "t_root T" "take l bs" "drop l bs"] by (auto split: bind_splits)
  have "walk T m (drop l ps) = Some n"
    using p walk_append [of T "t_root T" "take l ps" "drop l ps"] m(1) t(1) by simp
  moreover have "walk T b (replicate (length bs - l) ''..'') = Some m"
    using climb [OF T _ m(2) b(2)] n(1) by (auto dest: in_set_dropD)
  ultimately show ?thesis by (simp add: walk_append)
qed

section \<open>Relative paths\<close>

lemma foldl_push_relative:
  assumes "\<forall>w \<in> set ws. SLASH \<notin> set w" "\<forall>w \<in> set bs. normal w"
  shows "foldl (push_str True) bs ws = foldl (push_str True) bs (foldl (push_str False) [] ws)"
  using assms(1)
proof (induction ws rule: rev_induct)
  case (snoc w ws)
  define N where "N = foldl (push_str False) [] ws"
  have can: "canonical False N" using canonical_foldl [of False "[]" ws] snoc.prems by (simp add: N_def)
  have IH: "foldl (push_str True) bs ws = foldl (push_str True) bs N" using snoc by (simp add: N_def)
  have "push_str True (foldl (push_str True) bs N) w = foldl (push_str True) bs (push_str False N w)"
  proof (cases "w = ''..'' \<and> N \<noteq> [] \<and> last N \<noteq> ''..''")
    case True
    then obtain M v where M: "N = M @ [v]" "v \<noteq> ''..''" by (cases N rule: rev_cases) auto
    then have v: "normal v" using canonical_words [OF can, of v] by (auto simp: normal_def)
    then show ?thesis using True M by (simp add: push_str_def normal_def)
  qed (auto simp: push_str_def)
  then show ?case using IH by (simp add: N_def)
qed simp

lemma names_split: "names p = foldl (push_str (is_abs p)) [] (split_slash p)"
  by (simp add: names_def)

lemma names_slash_cat:
  assumes "is_abs b" "\<not> is_abs p"
  shows "names (slash_cat b p) = foldl (push_str True) (names b) (names p)"
proof (cases "p = []")
  case True
  then show ?thesis by (simp add: names_def [of "[]"] is_abs_def)
next
  case False
  then have "slash_cat b p = b @ SLASH # p" using assms(1) by (auto simp: slash_cat_def is_abs_def)
  then show ?thesis
    using foldl_push_relative [of "split_slash p" "names b"] split_slash_words names_abs_normal [OF assms(1)] assms
    by (simp add: names_join_abs names_split [of p])
qed

text \<open>A relative path that the server can follow from a directory leads where the joined path leads.\<close>

lemma walk_relative:
  assumes T: "tree_ok T" and b: "is_abs b" "walk T (t_root T) (names b) = Some d" "t_dir T d"
    and p: "\<not> is_abs p" "walk T d (names p) = Some n"
  shows "walk T (t_root T) (names (slash_cat b p)) = Some n"
proof -
  obtain k us where k: "names p = replicate k ''..'' @ us" "\<forall>u \<in> set us. normal u"
    using canonical_names [of p] by (auto simp: canonical_def)
  obtain x where x: "walk T d (replicate k ''..'') = Some x" "walk T x us = Some n"
    using p(2) k(1) by (auto simp: walk_append split: bind_splits)
  note nb = names_abs_normal [OF b(1)]
  have "walk T (t_root T) (take (length (names b) - k) (names b)) = Some x"
    using climb_root [OF T nb b(2,3) x(1)] by simp
  moreover have "names (slash_cat b p) = take (length (names b) - k) (names b) @ us"
    using names_slash_cat [OF b(1) p(1)] k foldl_pop [OF nb, of k] foldl_push_normal [OF k(2)] by simp
  ultimately show ?thesis using x(2) by (simp add: walk_append)
qed

lemma names_rebase:
  assumes b: "is_abs b" "names b \<noteq> []" and p: "is_abs p"
  defines "l \<equiv> common_len (names b) (names p)"
  shows "\<not> is_abs (rebase_text b p)" "names (rebase_text b p) = replicate (length (names b) - l) ''..'' @ drop l (names p)"
proof -
  note nb = names_abs_normal [OF b(1)] and np = names_abs_normal [OF p]
  define cs where "cs = rebase_comps (path_comps b) (path_comps p)"
  have l: "common_len (path_comps b) (path_comps p) = l"
    using common_len_root [OF nb np] b p by (simp add: path_comps_abs l_def)
  have lb: "length (path_comps b) = length (names b)" using b by (cases "names b") (auto simp: path_comps_abs)
  have cs: "cs = replicate (length (names b) - l) ''..'' @ drop l (path_comps p)"
    using l lb by (simp add: cs_def rebase_comps_def)
  have drop: "drop l (path_comps p) = drop l (names p)" if "l \<noteq> 0"
    using that p by (cases "names p"; cases l) (auto simp: path_comps_abs)
  have nd: "\<forall>w \<in> set (drop l (names p)). normal w" using np by (auto dest: in_set_dropD)
  have rel: "foldl (push_str False) vs (concat (map split_slash (drop l (path_comps p)))) = vs @ drop l (names p)" for vs
  proof (cases "l = 0")
    case True
    then show ?thesis using np p
      by (cases "names p") (auto simp: path_comps_abs concat_split_names split_slash_no_slash normal_def foldl_push_normal push_str_def)
  next
    case False
    then show ?thesis using concat_split_names [OF nd] foldl_push_normal [OF nd] by (simp add: drop)
  qed
  have hd: "\<not> is_abs (rebase_text b p)"
  proof (cases "cs = []")
    case False
    have "hd cs \<noteq> [] \<and> hd (hd cs) \<noteq> SLASH"
    proof (cases "length (names b) - l")
      case 0
      then have "l \<noteq> 0" using b(2) by (cases "names b") auto
      then have "cs = drop l (names p)" using 0 drop by (simp add: cs)
      then have "normal (hd cs)" using nd hd_in_set [OF False] by simp
      then show ?thesis by (rule normal_hd)
    qed (simp add: cs)
    then show ?thesis using join_slash_first [OF False] False by (simp add: rebase_text_def cs_def [symmetric] is_abs_def)
  qed (simp add: rebase_text_def cs_def [symmetric] is_abs_def)
  then show "\<not> is_abs (rebase_text b p)" .
  have "foldl (push_str False) [] (concat (map split_slash cs)) = replicate (length (names b) - l) ''..'' @ drop l (names p)"
    using rel foldl_push_dotdots [of 0 "length (names b) - l"]
    by (simp add: cs split_slash_no_slash concat_replicate_trivial)
  moreover have "names (rebase_text b p) = foldl (push_str False) [] (split_slash (rebase_text b p))"
    using hd by (simp add: names_split)
  moreover have "foldl (push_str False) [] (split_slash (rebase_text b p)) = foldl (push_str False) [] (concat (map split_slash cs))"
    by (cases "cs = []") (simp_all add: rebase_text_def cs_def [symmetric] split_join_concat split_slash_no_slash)
  ultimately show "names (rebase_text b p) = replicate (length (names b) - l) ''..'' @ drop l (names p)" by simp
qed

lemma rebase_from_root:
  assumes b: "is_abs b" "names b = []" and p: "is_abs p"
  shows "length (names p) \<le> length (path_comps (rebase_text b p))"
proof (cases "names p")
  case (Cons w ws)
  note np = names_abs_normal [OF p]
  have "rebase_text b p = ''..'' @ SLASH # join_slash (path_comps p)"
    using b p Cons np by (auto simp: rebase_text_def rebase_comps_def path_comps_abs normal_def)
  moreover have "path_comps p = (SLASH # w) # ws" using p Cons by (simp add: path_comps_abs)
  moreover have "split_slash (join_slash ((SLASH # w) # ws)) = [] # w # ws"
    using np Cons concat_split_names [of ws] by (simp add: split_join_concat split_slash_no_slash normal_def)
  ultimately have "split_slash (rebase_text b p) = ''..'' # [] # w # ws" "\<not> is_abs (rebase_text b p)"
    by (simp_all add: is_abs_def split_slash_append split_slash_no_slash)
  moreover have "foldl (push_str False) [] (''..'' # [] # us) = foldl (push_str False) [''..''] us" for us
    by (simp add: push_str_def)
  ultimately have "names (rebase_text b p) = ''..'' # w # ws"
    using np Cons foldl_push_normal [of "w # ws" False "[''..'']"] by (simp only: names_split [of "rebase_text b p"]) simp
  then show ?thesis using p Cons by (cases "is_abs (rebase_text b p)") (auto simp: path_comps_def)
qed simp

lemma names_le_split: "length (names p) \<le> length (split_slash p)"
proof -
  have "length (foldl (push_str a) ws vs) \<le> length ws + length vs" for a ws vs
  proof (induction vs arbitrary: ws)
    case (Cons v vs)
    have "length (push_str a ws v) \<le> Suc (length ws)" by (auto simp: push_str_def)
    then show ?case using Cons [of "push_str a ws v"] by simp
  qed simp
  from this [of "is_abs p" "[]" "split_slash p"] show ?thesis by (simp add: names_def)
qed

lemma names_joined:
  assumes "is_abs b" "\<not> is_abs p" "norm_path (slash_cat b p) = slash_cat b p"
  shows "length (names p) \<le> Suc (length (names (slash_cat b p)))"
proof (cases "p = []")
  case False
  let ?q = "slash_cat b p"
  have q: "?q = b @ SLASH # p" using False assms(1) by (auto simp: slash_cat_def is_abs_def)
  have aq: "is_abs ?q" using assms(1) by (simp add: q)
  have "?q = SLASH # join_slash (names ?q)" by (rule trans [OF assms(3) [symmetric] norm_path_abs [OF aq]])
  then have "split_slash ?q = split_slash (SLASH # join_slash (names ?q))" by (rule arg_cong)
  moreover have "split_slash (join_slash (names ?q)) = (if names ?q = [] then [[]] else names ?q)"
    using split_join [of "names ?q"] names_abs_normal [OF aq] by (auto simp: normal_def)
  moreover have "length (split_slash ?q) = length (split_slash b) + length (split_slash p)"
    using arg_cong [OF q, of "\<lambda>x. length (split_slash x)"] by (simp add: split_slash_append)
  ultimately have "length (split_slash b) + length (split_slash p) \<le> Suc (Suc (length (names ?q)))"
    by (simp split: if_splits)
  moreover have "0 < length (split_slash b)" by simp
  ultimately show ?thesis using names_le_split [of p] by linarith
qed (simp add: names_def is_abs_def)

section \<open>Appending the operations\<close>

lemma srv_run_Nil [simp]: "srv_run T [] = Some"
  by (rule ext) simp

lemma srv_run_append: "srv_run T (xs @ ys) s = do { s' \<leftarrow> srv_run T xs s; srv_run T ys s' }"
  by (induction xs arbitrary: s) (auto split: bind_splits)

text \<open>What the scans for the last change of the current handle promise.\<close>

lemma srv_note_simps [simp]: "s_cfh (srv_note x ns s) = s_cfh s" "s_sfh (srv_note x ns s) = s_sfh s"
    "s_log (srv_note x ns s) = s_log s @ [(x, ns)]"
  by (simp_all add: srv_note_def)

lemma srv_step_sfh: "srv_step T x s = Some s' \<Longrightarrow> argop x \<noteq> NFS4_OP_SAVEFH \<Longrightarrow> s_sfh s' = s_sfh s"
  by (cases x) (auto simp: srv_both_def srv_enter_def Option.bind_eq_Some_conv)

lemma srv_step_cfh: "srv_step T x s = Some s' \<Longrightarrow> \<not> NFS4_CHANGE_CFH (argop x) \<Longrightarrow> s_cfh s' = s_cfh s"
  by (cases x) (auto simp: srv_both_def NFS4_CHANGE_CFH_def Option.bind_eq_Some_conv)

lemma srv_step_equal:
  "srv_step T x s = Some s' \<Longrightarrow> argop x = NFS4_OP_SAVEFH \<or> argop x = NFS4_OP_RESTOREFH \<Longrightarrow>
   s_cfh s' = s_sfh s' \<and> s_sfh s' \<noteq> None"
  by (cases x) (auto simp: Option.bind_eq_Some_conv)

lemma srv_run_snoc:
  assumes "srv_run T (rev (x # xs)) s0 = Some s"
  obtains s1 where "srv_run T (rev xs) s0 = Some s1" "srv_step T x s1 = Some s"
  using assms by (auto simp: srv_run_append split: bind_splits)

lemma unchanged_since_savefh_same:
  "unchanged_since_savefh xs \<Longrightarrow> srv_run T (rev xs) s0 = Some s \<Longrightarrow> s_cfh s = s_sfh s \<and> s_sfh s \<noteq> None"
proof (induction xs arbitrary: s)
  case (Cons x xs)
  obtain s1 where s1: "srv_run T (rev xs) s0 = Some s1" "srv_step T x s1 = Some s" by (rule srv_run_snoc [OF Cons.prems(2)])
  consider "argop x = NFS4_OP_SAVEFH" | "argop x = NFS4_OP_RESTOREFH"
    | "\<not> NFS4_CHANGE_CFH (argop x)" "argop x \<noteq> NFS4_OP_SAVEFH" "argop x \<noteq> NFS4_OP_RESTOREFH"
    using Cons.prems(1) by (auto split: if_splits)
  then show ?case
  proof cases
    case 3
    then show ?thesis using Cons.IH [OF _ s1(1)] Cons.prems(1) srv_step_sfh [OF s1(2)] srv_step_cfh [OF s1(2)] by simp
  qed (rule srv_step_equal [OF s1(2)], simp)+
qed simp

lemma unchanged_since_restorefh_same:
  "unchanged_since_restorefh xs \<Longrightarrow> srv_run T (rev xs) s0 = Some s \<Longrightarrow> s_cfh s = s_sfh s \<and> s_sfh s \<noteq> None"
proof (induction xs arbitrary: s)
  case (Cons x xs)
  obtain s1 where s1: "srv_run T (rev xs) s0 = Some s1" "srv_step T x s1 = Some s" by (rule srv_run_snoc [OF Cons.prems(2)])
  consider "argop x = NFS4_OP_SAVEFH" | "argop x = NFS4_OP_RESTOREFH"
    | "\<not> NFS4_CHANGE_CFH (argop x)" "argop x \<noteq> NFS4_OP_SAVEFH" "argop x \<noteq> NFS4_OP_RESTOREFH"
    using Cons.prems(1) by (auto split: if_splits)
  then show ?case
  proof cases
    case 3
    then show ?thesis using Cons.IH [OF _ s1(1)] Cons.prems(1) srv_step_sfh [OF s1(2)] srv_step_cfh [OF s1(2)] by simp
  qed (rule srv_step_equal [OF s1(2)], simp)+
qed simp

text \<open>The operations appended to \<open>c\<close> to get \<open>c'\<close> take the server from \<open>s\<close> to \<open>s'\<close>.\<close>

definition leads :: "'n tree \<Rightarrow> compound \<Rightarrow> 'n srv \<Rightarrow> compound \<Rightarrow> 'n srv \<Rightarrow> bool" where
  "leads T c s c' s' \<longleftrightarrow> (\<exists>ops. argoparray c' = argoparray c @ ops \<and> srv_run T ops s = Some s')"

lemma leads_refl [simp]: "leads T c s c s"
  by (simp add: leads_def)

lemma leads_trans: "leads T c s c' s' \<Longrightarrow> leads T c' s' c'' s'' \<Longrightarrow> leads T c s c'' s''"
  by (auto simp: leads_def srv_run_append)

lemma leads_add [simp]: "leads T c s (add_op x c) s' \<longleftrightarrow> srv_step T x s = Some s'"
  by (auto simp: leads_def add_op_def)

lemma leads_run: "srv_run T (argoparray c) s0 = Some s \<Longrightarrow> leads T c s c' s' \<Longrightarrow> srv_run T (argoparray c') s0 = Some s'"
  by (auto simp: leads_def srv_run_append)

lemma leads_saved [simp]: "leads T c s (c'\<lparr>tc_saved_path := p\<rparr>) s' = leads T c s c' s'"
  by (simp add: leads_def)

lemma add_op_saved [simp]: "tc_saved_path (add_op x c) = tc_saved_path c"
  by (simp add: add_op_def)

lemma is_dotdot_iff:
  assumes "NUL \<notin> set w" "w \<noteq> []" "w \<noteq> ''.''"
  shows "is_dotdot w \<longleftrightarrow> w = ''..''"
proof -
  have "takeWhile (\<lambda>x. x \<noteq> NUL) w = w" using assms(1) by (auto simp: takeWhile_eq_all_conv)
  then have "is_dotdot w \<longleftrightarrow> w = take (length w) ''..''" by (simp only: is_dotdot_def)
  moreover obtain a v where "w = a # v" using assms(2) by (cases w) auto
  ultimately show ?thesis using assms(3) by (cases v; cases "tl v") auto
qed

lemma leads_add_trans: "srv_step T x s = Some s1 \<Longrightarrow> leads T (add_op x c) s1 c' s' \<Longrightarrow> leads T c s c' s'"
  using leads_trans [of T c s "add_op x c" s1] by simp

lemma s_cfh_same: "s_cfh s = x \<Longrightarrow> s\<lparr>s_cfh := x\<rparr> = s"
  by (cases s) simp

lemma lookups_loop_leads:
  assumes "lookups_loop ws c = (True, c')" "\<forall>w \<in> set ws. NUL \<notin> set w" "s_cfh s = Some n" "walk T n ws = Some m"
  shows "leads T c s c' (s\<lparr>s_cfh := Some m\<rparr>) \<and> tc_saved_path c' = tc_saved_path c"
  using assms
proof (induction ws arbitrary: c s n)
  case (Cons w ws)
  show ?case
  proof (cases "w = [] \<or> w = ''.''")
    case True
    then show ?thesis using Cons by (auto split: if_splits)
  next
    case False
    then have nd: "\<not> (hd w = CHR ''.'' \<and> length w = 1)" by (cases w) auto
    define x where "x = (if w = ''..'' then OpLookupp else OpLookup w)"
    obtain k where k: "(if w = ''..'' then t_parent T n else t_child T n w) = Some k" "walk T k ws = Some m"
      using Cons.prems(4) False by (auto split: bind_splits)
    have l: "lookups_loop ws (add_op x c) = (True, c')"
      using Cons.prems(1,2) False nd is_dotdot_iff [of w] by (auto simp: x_def split: if_splits)
    have "srv_step T x s = Some (s\<lparr>s_cfh := Some k\<rparr>)" using k(1) Cons.prems(3) by (auto simp: x_def split: if_splits)
    then show ?thesis
      using Cons.IH [OF l, of "s\<lparr>s_cfh := Some k\<rparr>" k] Cons.prems(2) k(2) by (simp add: leads_add_trans)
  qed
qed (simp add: s_cfh_same)

lemma tc_prepare_lookups_leads:
  assumes "tc_prepare_lookups ws c = (True, c')" "\<forall>w \<in> set ws. NUL \<notin> set w" "s_cfh s = Some n" "walk T n ws = Some m"
  shows "leads T c s c' (s\<lparr>s_cfh := Some m\<rparr>) \<and> tc_saved_path c' = tc_saved_path c"
proof -
  have "lookups_loop ws c = (True, c')" using assms(1) by (auto simp: tc_prepare_lookups_def split: prod.splits if_splits)
  then show ?thesis using assms(2-4) by (rule lookups_loop_leads)
qed

lemma tc_set_cfh_from_root_leads:
  assumes "tc_set_cfh_from_root (path_comps p) c = (True, c')" "is_abs p" "NUL \<notin> set p"
    and "walk T (t_root T) (names p) = Some m"
  shows "leads T c s c' (s\<lparr>s_cfh := Some m\<rparr>) \<and> tc_saved_path c' = tc_saved_path c"
proof -
  define ws where "ws = (path_comps p)[0 := tl (path_comps p ! 0)]"
  have ws: "ws = (if names p = [] then [[]] else names p)"
    using assms(2) by (cases "names p") (simp_all add: ws_def path_comps_abs)
  have nn: "\<forall>w \<in> set ws. NUL \<notin> set w" using names_chars [of p] assms(3) ws by auto
  have w: "walk T (t_root T) ws = Some m" using assms(4) ws by auto
  have l: "tc_prepare_lookups ws (add_op OpPutrootfh c) = (True, c')"
    using assms(1) by (auto simp: tc_set_cfh_from_root_def ws_def split: prod.splits if_splits)
  show ?thesis
    using tc_prepare_lookups_leads [OF l nn _ w, of "s\<lparr>s_cfh := Some (t_root T)\<rparr>"]
      leads_add_trans [of T OpPutrootfh s "s\<lparr>s_cfh := Some (t_root T)\<rparr>"] by simp
qed

lemma tc_set_cfh_from_cwd_leads:
  assumes "tc_set_cfh_from_cwd cwd (path_comps p) c = (True, c')" "\<not> is_abs p" "NUL \<notin> set p"
    and "t_fh T (cwd_fh cwd) = Some d" "walk T d (names p) = Some m"
  shows "leads T c s c' (s\<lparr>s_cfh := Some m\<rparr>) \<and> tc_saved_path c' = tc_saved_path c"
proof -
  have nn: "\<forall>w \<in> set (names p). NUL \<notin> set w" using names_chars [of p] assms(3) by auto
  have l: "tc_prepare_lookups (names p) (add_op (OpPutfh (cwd_fh cwd)) c) = (True, c')"
    using assms(1,2)
    by (auto simp: tc_set_cfh_from_cwd_def tc_prepare_putfh_def prepare_def path_comps_def split: prod.splits if_splits)
  show ?thesis
    using tc_prepare_lookups_leads [OF l nn _ assms(5), of "s\<lparr>s_cfh := Some d\<rparr>"] assms(4)
      leads_add_trans [of T "OpPutfh (cwd_fh cwd)" s "s\<lparr>s_cfh := Some d\<rparr>"] by simp
qed

lemma tc_prepare_restorefh_leads:
  assumes "tc_prepare_restorefh c = (True, c')" "srv_run T (argoparray c) s0 = Some s" "s_sfh s = Some b"
  shows "leads T c s c' (s\<lparr>s_cfh := Some b\<rparr>) \<and> tc_saved_path c' = tc_saved_path c"
proof (cases "tc_cfh_not_changed_since_savefh c")
  case True
  then have "s_cfh s = s_sfh s"
    using unchanged_since_savefh_same [of "rev (argoparray c)" T s0 s] assms(2)
    by (simp add: tc_cfh_not_changed_since_savefh_def)
  then show ?thesis using True assms by (simp add: tc_prepare_restorefh_def s_cfh_same)
qed (use assms in \<open>auto simp: tc_prepare_restorefh_def split: if_splits\<close>)

text \<open>
  A path the builder can handle: it fits the buffers and, if it is relative, the working directory
  and the path joined are in normal form.
\<close>

definition path_fits :: "tc_cwd_data \<Rightarrow> string \<Rightarrow> bool" where
  "path_fits cwd p \<longleftrightarrow> NUL \<notin> set p \<and>
     (if is_abs p then length p \<le> PATH_MAX
      else length (cwd_path cwd) + length p + 2 < PATH_MAX \<and>
        norm_path (slash_cat (cwd_path cwd) p) = slash_cat (cwd_path cwd) p)"

definition full_path :: "tc_cwd_data \<Rightarrow> string \<Rightarrow> string" where
  "full_path cwd p = (if is_abs p then p else slash_cat (cwd_path cwd) p)"

lemma full_path_at:
  assumes "tree_ok T" "cwd_ok T cwd" "path_fits cwd p" "path_at T cwd p = Some n"
  shows "walk T (t_root T) (names (full_path cwd p)) = Some n" "is_abs (full_path cwd p)"
    "NUL \<notin> set (full_path cwd p)" "length (full_path cwd p) \<le> PATH_MAX"
proof -
  show "walk T (t_root T) (names (full_path cwd p)) = Some n"
    using assms walk_relative [of T "cwd_path cwd" _ p n]
    by (auto simp: full_path_def path_at_def cwd_ok_def)
  show "is_abs (full_path cwd p)" using assms(2) by (auto simp: full_path_def cwd_ok_def slash_cat_def is_abs_def)
  show "NUL \<notin> set (full_path cwd p)" using assms(2,3) set_slash_cat [of "cwd_path cwd" p]
    by (auto simp: full_path_def cwd_ok_def path_fits_def)
  show "length (full_path cwd p) \<le> PATH_MAX" using assms(3) length_slash_cat(1) [of "cwd_path cwd" p]
    by (auto simp: full_path_def path_fits_def split: if_splits)
qed

lemma tc_compress_path_leads:
  assumes T: "tree_ok T" "cwd_ok T cwd" and p: "path_fits cwd p" "path_at T cwd p = Some n"
    and saved: "saved \<noteq> [] \<longrightarrow> saved_leads T saved s"
    and c: "tc_compress_path cwd saved p = (cmp, comps, ap)"
  shows "ap = full_path cwd p" "\<not> cmp \<Longrightarrow> comps = path_comps p"
    "cmp \<Longrightarrow> \<exists>b. s_sfh s = Some b \<and> walk T b comps = Some n \<and> (\<forall>w \<in> set comps. NUL \<notin> set w)"
proof -
  let ?A = "full_path cwd p"
  note A = full_path_at [OF T p]
  show ap: "ap = ?A"
    using c abspath_normal [of cwd p] p(1) T(2)
    by (auto simp: tc_compress_path_def full_path_def path_fits_def cwd_ok_def is_abs_def Let_def split: if_splits option.splits)
  show "\<not> cmp \<Longrightarrow> comps = path_comps p"
    using c by (auto simp: tc_compress_path_def Let_def path_tokens_comps split: if_splits option.splits)
  assume cmp
  then have ne: "saved \<noteq> []" and r: "rebase_path saved ?A = Some (rebase_text saved ?A)" "comps = path_comps (rebase_text saved ?A)"
      "length comps + 1 < length (path_comps p)"
    using c saved ap A(4) rebase_path_text [of saved ?A]
    by (auto simp: tc_compress_path_def Let_def path_tokens_comps saved_leads_def split: if_splits option.splits)
  obtain b where b: "is_abs saved" "s_sfh s = Some b" "t_dir T b" "walk T (t_root T) (names saved) = Some b" "NUL \<notin> set saved"
    using saved ne by (auto simp: saved_leads_def)
  have nr: "names saved \<noteq> []"
  proof
    assume e: "names saved = []"
    have "length (names ?A) + 1 < length (path_comps p)" using rebase_from_root [OF b(1) e A(2)] r(2,3) by simp
    then show False using names_joined [of "cwd_path cwd" p] T(2) p(1)
      by (cases "names p") (auto simp: full_path_def path_comps_def path_fits_def cwd_ok_def split: if_splits)
  qed
  note R = names_rebase [OF b(1) nr A(2)]
  have "comps = names (rebase_text saved ?A)" using r(2) R(1) by (simp add: path_comps_def)
  moreover have "walk T b (names (rebase_text saved ?A)) = Some n"
    unfolding R(2) by (rule rebase_walk [OF T(1) names_abs_normal names_abs_normal]) (use b A in auto)
  moreover have "\<forall>w \<in> set (names (rebase_text saved ?A)). NUL \<notin> set w"
    using names_chars [of "rebase_text saved ?A"] rebase_text_chars [of saved ?A] A(3) by auto
  ultimately show "\<exists>b. s_sfh s = Some b \<and> walk T b comps = Some n \<and> (\<forall>w \<in> set comps. NUL \<notin> set w)" using b(2) by simp
qed

lemma tc_prepare_savefh_leads:
  assumes c: "tc_prepare_savefh (Some ap) c = (True, c')" and s: "built T c s" "s_cfh s = Some n" "t_dir T n"
    and ap: "walk T (t_root T) (names ap) = Some n" "is_abs ap" "NUL \<notin> set ap" "length ap \<le> PATH_MAX"
  shows "built T c' (s\<lparr>s_sfh := Some n\<rparr>) \<and> leads T c s c' (s\<lparr>s_sfh := Some n\<rparr>)"
proof (cases "tc_cfh_not_changed_since_savefh c \<or> tc_cfh_not_changed_since_restorefh c")
  case True
  have run: "srv_run T (rev (rev (argoparray c))) srv_init = Some s" using s(1) by (simp add: built_def)
  have "s_cfh s = s_sfh s"
    using True unchanged_since_savefh_same [OF _ run] unchanged_since_restorefh_same [OF _ run]
    by (auto simp: tc_cfh_not_changed_since_savefh_def tc_cfh_not_changed_since_restorefh_def)
  then have "s\<lparr>s_sfh := Some n\<rparr> = s" using s(2) by (cases s) simp
  then show ?thesis using True c s(1) by (auto simp: tc_prepare_savefh_def)
next
  case False
  then have c': "c' = tc_save_path ap (add_op OpSavefh c)"
    using c by (auto simp: tc_prepare_savefh_def split: if_splits)
  have sv: "tc_saved_path c' = ap" using ap(3,4) by (auto simp: c' tc_save_path_def)
  have l: "leads T c s c' (s\<lparr>s_sfh := Some n\<rparr>)" using s(2) by (simp add: c' tc_save_path_def)
  have "srv_run T (argoparray c') srv_init = Some (s\<lparr>s_sfh := Some n\<rparr>)"
    using leads_run [OF _ l] s(1) by (simp add: built_def)
  then show ?thesis using l s(3) ap by (simp add: built_def saved_leads_def sv)
qed

lemma dir_base_parts:
  assumes "dir_base p = (d, w)"
  obtains k i z where "d = take k p" "w = take z (drop i p)" "is_abs d = is_abs p"
proof (cases "p = []")
  case True
  then have "d = take 0 p" "w = take 0 (drop 0 p)"
    using assms by (simp_all add: dir_base_def tc_path_dir_base_s_def mkslice_def slice_str_def bytes_def)
  then show ?thesis using that [of 0 0 0] True by simp
next
  case ne: False
  define t where "t = slice_rstrip p (mkslice 0 (length p)) SLASH"
  have t: "sl_data t = 0" "slice_ok p t" using slice_rstrip_str(2,3) [of p "mkslice 0 (length p)" SLASH]
    by (simp_all add: t_def mkslice_def slice_ok_def)
  define i where "i = slice_rindex p t SLASH"
  note ri = slice_rindex_str [OF t(2) i_def [symmetric]]
  have str: "slice_str p (mkslice u v) = take v (drop u p)" for u v by (simp add: slice_str_def mkslice_def bytes_def)
  have db: "dir_base p = (if sl_size t = 0 \<and> p ! 0 = SLASH then (take 1 p, [])
      else if i < 0 then ([], take (sl_size t) p)
      else (take (if i = 0 then 1 else nat i) p, take (sl_size t - nat i - 1) (drop (nat i + 1) p)))"
    using ne t(1) unfolding dir_base_def tc_path_dir_base_s_def Let_def t_def [symmetric] i_def [symmetric]
    by (auto simp: str) (simp_all add: mkslice_def)
  have abs: "is_abs p \<longleftrightarrow> p ! 0 = SLASH" using ne by (simp add: is_abs_def hd_conv_nth)
  consider "sl_size t = 0" "p ! 0 = SLASH" | "i < 0" "sl_size t \<noteq> 0 \<or> p ! 0 \<noteq> SLASH" | "0 \<le> i" "sl_size t \<noteq> 0 \<or> p ! 0 \<noteq> SLASH"
    by linarith
  then show ?thesis
  proof cases
    case 1
    then show ?thesis using that [of 1 0 0] db assms abs ne by (simp add: is_abs_def hd_conv_nth)
  next
    case 2
    have "p ! 0 \<noteq> SLASH"
    proof
      assume e: "p ! 0 = SLASH"
      then have "SLASH \<in> set (take (sl_size t) p)" using 2(2) ne by (cases p) (auto simp: take_Cons' )
      then show False using ri(1) 2(1) t(1) by (simp add: slice_str_def bytes_def)
    qed
    then show ?thesis using that [of 0 "sl_size t" 0] db assms abs 2 by (auto simp: is_abs_def)
  next
    case 3
    then have "(if i = 0 then p ! 0 = SLASH else True)" using ri(2) t(1) by auto
    then have "is_abs (take (if i = 0 then 1 else nat i) p) = is_abs p"
      using 3(1) ne abs by (cases p) (auto simp: is_abs_def take_Cons')
    moreover have "d = take (if i = 0 then 1 else nat i) p" "w = take (sl_size t - nat i - 1) (drop (nat i + 1) p)"
      using 3 assms by (auto simp: db)
    ultimately show ?thesis using that [of "if i = 0 then 1 else nat i" "sl_size t - nat i - 1" "nat i + 1"] by simp
  qed
qed

lemma dir_base_props:
  assumes "dir_base p = (d, w)"
  shows "is_abs d = is_abs p" "set d \<subseteq> set p" "length d \<le> length p" "set w \<subseteq> set p"
    "p \<noteq> [] \<Longrightarrow> SLASH \<notin> set w" "p \<noteq> [] \<Longrightarrow> norm_path (slash_cat d w) = norm_path p"
proof -
  obtain k i z where "d = take k p" "w = take z (drop i p)" "is_abs d = is_abs p" by (rule dir_base_parts [OF assms])
  then show "is_abs d = is_abs p" "set d \<subseteq> set p" "length d \<le> length p" "set w \<subseteq> set p"
    by (auto dest: in_set_takeD in_set_dropD)
  assume ne: "p \<noteq> []"
  obtain b ds ws where r: "tc_path_dir_base_s p (mkslice 0 (length p)) = (b, ds, ws)"
    by (cases "tc_path_dir_base_s p (mkslice 0 (length p))")
  show "SLASH \<notin> set w" "norm_path (slash_cat d w) = norm_path p"
    using tc_path_dir_base_cases [OF _ _ r] ne assms r by (auto simp: dir_base_def mkslice_def slice_ok_def slice_str_def bytes_def)
qed

text \<open>The operations that lead to a path, compressed or not, and what they leave saved.\<close>

lemma tc_set_cfh_to_path_leads:
  assumes T: "tree_ok T" "cwd_ok T cwd" and b: "built T c s"
    and r: "tc_set_cfh_to_path cwd path leaf save c = (True, name, c')"
    and p: "split_leaf path leaf = (p, w)" "path_fits cwd p" "path_at T cwd p = Some n"
    and save: "save \<longrightarrow> t_dir T n"
  shows "name = w \<and> (\<exists>s'. built T c' s' \<and> leads T c s c' s' \<and> s_cfh s' = Some n \<and> s_log s' = s_log s \<and>
    s_sfh s' = (if save then Some n else s_sfh s))"
proof -
  obtain cmp comps ap where cp: "tc_compress_path cwd (tc_saved_path c) p = (cmp, comps, ap)"
    by (cases "tc_compress_path cwd (tc_saved_path c) p")
  have sl: "tc_saved_path c \<noteq> [] \<longrightarrow> saved_leads T (tc_saved_path c) s" using b by (simp add: built_def)
  note C = tc_compress_path_leads [OF T p(2,3) sl cp] and A = full_path_at [OF T p(2,3)]
  have abs: "is_abs p \<longleftrightarrow> path \<noteq> [] \<and> hd path = SLASH"
    using p(1) dir_base_props(1) by (auto simp: split_leaf_def is_abs_def split: if_splits)
  define step where "step = (if cmp then and_then tc_prepare_restorefh (tc_prepare_lookups comps) c
       else if path \<noteq> [] \<and> hd path = SLASH then tc_set_cfh_from_root comps c else tc_set_cfh_from_cwd cwd comps c)"
  obtain r1 c1 where st: "step = (r1, c1)" by (cases step)
  have all: "tc_set_cfh_to_path cwd path leaf save c =
      (let (r2, c2) = (if r1 \<and> save then tc_prepare_savefh (Some ap) c1 else (r1, c1))
       in (r2, w, if r2 then c2 else reset_opcnt (opcnt c) c2))"
    using st by (simp add: tc_set_cfh_to_path_def p(1) cp step_def [symmetric])
  have r1: r1 and sv: "save \<Longrightarrow> tc_prepare_savefh (Some ap) c1 = (True, c')" "\<not> save \<Longrightarrow> c' = c1" and name: "name = w"
    using all r by (auto split: if_splits prod.splits)
  have L: "leads T c s c1 (s\<lparr>s_cfh := Some n\<rparr>) \<and> tc_saved_path c1 = tc_saved_path c"
  proof (cases cmp)
    case True
    obtain x where x: "s_sfh s = Some x" "walk T x comps = Some n" "\<forall>w \<in> set comps. NUL \<notin> set w"
      using C(3) [OF True] by blast
    obtain c0 where c0: "tc_prepare_restorefh c = (True, c0)" "tc_prepare_lookups comps c0 = (True, c1)"
      using st r1 True by (auto simp: step_def and_then_def split: prod.splits if_splits)
    have "leads T c s c0 (s\<lparr>s_cfh := Some x\<rparr>) \<and> tc_saved_path c0 = tc_saved_path c"
      using b by (intro tc_prepare_restorefh_leads [OF c0(1) _ x(1), of T srv_init]) (simp add: built_def)
    moreover have "leads T c0 (s\<lparr>s_cfh := Some x\<rparr>) c1 (s\<lparr>s_cfh := Some n\<rparr>) \<and> tc_saved_path c1 = tc_saved_path c0"
      using tc_prepare_lookups_leads [OF c0(2) x(3), of "s\<lparr>s_cfh := Some x\<rparr>" x] x(2) by simp
    ultimately show ?thesis using leads_trans by fastforce
  next
    case False
    note comps = C(2) [OF False]
    have nn: "NUL \<notin> set p" using p(2) by (simp add: path_fits_def)
    show ?thesis
    proof (cases "is_abs p")
      case True
      then show ?thesis using tc_set_cfh_from_root_leads [of p c c1] st r1 False abs comps nn p(3)
        by (simp add: step_def path_at_def)
    next
      case rel: False
      then obtain d where d: "t_fh T (cwd_fh cwd) = Some d" "walk T d (names p) = Some n"
        using p(3) by (auto simp: path_at_def split: bind_splits)
      have "tc_set_cfh_from_cwd cwd (path_comps p) c = (True, c1)" using st r1 False rel abs comps by (auto simp: step_def)
      then show ?thesis using rel nn d by (rule tc_set_cfh_from_cwd_leads)
    qed
  qed
  have "srv_run T (argoparray c1) srv_init = Some (s\<lparr>s_cfh := Some n\<rparr>)"
    by (rule leads_run [OF _ conjunct1 [OF L]]) (use b in \<open>simp add: built_def\<close>)
  then have b1: "built T c1 (s\<lparr>s_cfh := Some n\<rparr>)" using b L by (simp add: built_def saved_leads_def)
  show ?thesis
  proof (cases save)
    case True
    have "built T c' (s\<lparr>s_cfh := Some n, s_sfh := Some n\<rparr>) \<and> leads T c1 (s\<lparr>s_cfh := Some n\<rparr>) c' (s\<lparr>s_cfh := Some n, s_sfh := Some n\<rparr>)"
      using tc_prepare_savefh_leads [OF sv(1) [OF True] b1, of n] save True A C(1) by simp
    then show ?thesis using True name leads_trans [OF conjunct1 [OF L]]
      by (intro conjI exI [of _ "s\<lparr>s_cfh := Some n, s_sfh := Some n\<rparr>"]) simp_all
  next
    case False
    then show ?thesis using name b1 L sv(2) by (intro conjI exI [of _ "s\<lparr>s_cfh := Some n\<rparr>"]) auto
  qed
qed

section \<open>Room in the compound\<close>

text \<open>\<open>c'\<close> is \<open>c\<close> with at most \<open>k\<close> more operations, and never too many.\<close>

definition extends :: "nat \<Rightarrow> compound \<Rightarrow> compound \<Rightarrow> bool" where
  "extends k c c' \<longleftrightarrow> (\<exists>ops. argoparray c' = argoparray c @ ops \<and> length ops \<le> k) \<and>
     opcnt c' \<le> max (opcnt c) MAX_NUM_OPS_PER_COMPOUND"

lemma extends_refl [simp]: "extends k c c"
  by (auto simp: extends_def)

lemma extends_trans: "extends j c c' \<Longrightarrow> extends k c' c'' \<Longrightarrow> extends (j + k) c c''"
  by (fastforce simp: extends_def opcnt_def)

lemma extends_mono: "extends j c c' \<Longrightarrow> j \<le> k \<Longrightarrow> extends k c c'"
  by (fastforce simp: extends_def)

lemma extends_add: "tc_has_enough_ops 1 c \<Longrightarrow> extends 1 c (add_op x c)"
  by (simp add: extends_def add_op_def tc_has_enough_ops_def opcnt_def)

lemma extends_saved [simp]: "extends k c (c'\<lparr>tc_saved_path := p\<rparr>) = extends k c c'"
  by (simp add: extends_def opcnt_def)

lemma extends_opcnt: "extends k c c' \<Longrightarrow> opcnt c' \<le> opcnt c + k"
  by (auto simp: extends_def opcnt_def)

lemma reset_extends: "extends k c c' \<Longrightarrow> argoparray (reset_opcnt (opcnt c) c') = argoparray c"
  by (auto simp: extends_def reset_opcnt_def opcnt_def)

text \<open>A step that adds at most \<open>k\<close> operations and fails only where they do not fit.\<close>

definition fills :: "nat \<Rightarrow> compound \<Rightarrow> bool \<times> compound \<Rightarrow> bool" where
  "fills k c rc \<longleftrightarrow> extends k c (snd rc) \<and> (opcnt c + k \<le> MAX_NUM_OPS_PER_COMPOUND \<longrightarrow> fst rc)"

lemma fills_prepare: "fills 1 c (prepare x c)"
  using extends_add [of c x] by (auto simp: fills_def prepare_def tc_has_enough_ops_def)

lemma lookups_loop_fills: "fills (length ws) c (lookups_loop ws c)"
proof (induction ws arbitrary: c)
  case (Cons w ws)
  have step: "fills (Suc (length ws)) c (lookups_loop ws (add_op x c))" if "tc_has_enough_ops 1 c" for x
    using Cons [of "add_op x c"] extends_trans [OF extends_add [OF that, of x]] by (auto simp: fills_def opcnt_def add_op_def)
  have skip: "fills (Suc (length ws)) c (lookups_loop ws c)"
    using Cons [of c] by (auto simp: fills_def intro: extends_mono)
  show ?case using step skip by (auto simp: fills_def tc_has_enough_ops_def)
qed (simp add: fills_def)

lemma fills_reset:
  assumes "fills k c (r, c')"
  shows "fills k c (r, if r then c' else reset_opcnt (opcnt c) c')"
proof -
  have "extends k c (reset_opcnt (opcnt c) c')"
    using reset_extends [of k c c'] assms by (auto simp: fills_def extends_def opcnt_def)
  then show ?thesis using assms by (auto simp: fills_def)
qed

lemma tc_prepare_lookups_fills: "fills (length ws) c (tc_prepare_lookups ws c)"
  using fills_reset [of "length ws" c "fst (lookups_loop ws c)" "snd (lookups_loop ws c)"] lookups_loop_fills [of ws c]
  by (auto simp: tc_prepare_lookups_def split: prod.splits)

lemma fills_then:
  assumes "fills j c (r, c')" "fills k c' (r', c'')"
  shows "fills (j + k) c (if r then (r', c'') else (False, c'))"
  using assms extends_trans [of j c c' k c''] extends_opcnt [of j c c']
  by (auto simp: fills_def intro: extends_mono)

lemma and_then_fills:
  assumes "\<And>c. fills j c (f c)" "\<And>c. fills k c (g c)"
  shows "fills (j + k) c (and_then f g c)"
  using fills_then [of j c "fst (f c)" "snd (f c)" k "fst (g (snd (f c)))" "snd (g (snd (f c)))"] assms
  by (auto simp: and_then_def split: prod.splits)

lemma tc_prepare_savefh_fills: "fills 1 c (tc_prepare_savefh p c)"
  using extends_add [of c OpSavefh]
  by (auto simp: fills_def tc_prepare_savefh_def tc_save_path_def tc_has_enough_ops_def split: option.splits)

lemma tc_prepare_restorefh_fills: "fills 1 c (tc_prepare_restorefh c)"
  using extends_add [of c OpRestorefh] by (auto simp: fills_def tc_prepare_restorefh_def tc_has_enough_ops_def)

lemma from_root_fills: "fills (1 + length ws) c (tc_set_cfh_from_root ws c)"
  and from_cwd_fills: "fills (1 + length ws) c (tc_set_cfh_from_cwd cwd ws c)"
proof -
  have s: "fills (1 + length ws) c (if tc_has_enough_ops 1 c
      then (case tc_prepare_lookups vs (add_op x c) of (r, c') \<Rightarrow> (r, if r then c' else reset_opcnt (opcnt c) c'))
      else (False, c))" if "length vs = length ws" for vs x
  proof (cases "tc_has_enough_ops 1 c")
    case True
    obtain r c' where l: "tc_prepare_lookups vs (add_op x c) = (r, c')" by (cases "tc_prepare_lookups vs (add_op x c)")
    have "fills 1 c (True, add_op x c)" using extends_add [OF True] by (simp add: fills_def)
    then have "fills (1 + length ws) c (r, c')"
      using fills_then [of 1 c True "add_op x c" "length vs" r c'] tc_prepare_lookups_fills [of vs "add_op x c"] l that by simp
    then show ?thesis using True l fills_reset by simp
  qed (auto simp: fills_def tc_has_enough_ops_def)
  show "fills (1 + length ws) c (tc_set_cfh_from_root ws c)"
    using s [of "ws[0 := tl (ws ! 0)]" OpPutrootfh] by (simp add: tc_set_cfh_from_root_def if_distrib cong: if_cong)
  show "fills (1 + length ws) c (tc_set_cfh_from_cwd cwd ws c)"
    using s [of ws "OpPutfh (cwd_fh cwd)"]
    by (simp add: tc_set_cfh_from_cwd_def tc_prepare_putfh_def prepare_def if_distrib cong: if_cong)
qed

lemma tc_compress_path_shorter: "tc_compress_path cwd saved p = (cmp, comps, ap) \<Longrightarrow> length comps \<le> length (path_comps p)"
  by (auto simp: tc_compress_path_def Let_def path_tokens_comps split: if_splits option.splits)

lemma tc_set_cfh_to_path_fills:
  assumes "split_leaf path leaf = (p, w)" "tc_set_cfh_to_path cwd path leaf save c = (r, name, c')"
  shows "fills (2 + length (path_comps p)) c (r, c')" "\<not> r \<Longrightarrow> argoparray c' = argoparray c"
proof -
  obtain cmp comps ap where cp: "tc_compress_path cwd (tc_saved_path c) p = (cmp, comps, ap)"
    by (cases "tc_compress_path cwd (tc_saved_path c) p")
  define step where "step = (if cmp then and_then tc_prepare_restorefh (tc_prepare_lookups comps) c
       else if path \<noteq> [] \<and> hd path = SLASH then tc_set_cfh_from_root comps c else tc_set_cfh_from_cwd cwd comps c)"
  obtain r1 c1 where st: "step = (r1, c1)" by (cases step)
  have 1: "fills (1 + length comps) c (r1, c1)"
    using and_then_fills [of 1 tc_prepare_restorefh "length comps" "tc_prepare_lookups comps" c]
      tc_prepare_restorefh_fills tc_prepare_lookups_fills from_root_fills [of comps c] from_cwd_fills [of comps c cwd] st
    by (auto simp: step_def split: if_splits)
  define fin where "fin = (if r1 \<and> save then tc_prepare_savefh (Some ap) c1 else (r1, c1))"
  obtain r2 c2 where f: "fin = (r2, c2)" by (cases fin)
  have "fills (1 + length comps + 1) c (r2, c2)"
    using fills_then [OF 1, of 1 r2 c2] tc_prepare_savefh_fills [of c1 "Some ap"] 1 f
    by (auto simp: fin_def fills_def intro: extends_mono split: if_splits)
  then have 2: "fills (2 + length (path_comps p)) c (r2, c2)"
    using tc_compress_path_shorter [OF cp] by (auto simp: fills_def intro: extends_mono)
  have eq: "r = r2" "c' = (if r2 then c2 else reset_opcnt (opcnt c) c2)"
    using assms cp st f by (auto simp: tc_set_cfh_to_path_def step_def [symmetric] fin_def [symmetric])
  show "fills (2 + length (path_comps p)) c (r, c')" using fills_reset [OF 2] by (simp add: eq)
  show "\<not> r \<Longrightarrow> argoparray c' = argoparray c" using 2 reset_extends by (auto simp: eq fills_def)
qed

section \<open>Properties\<close>


text \<open>A tree in which every name leads somewhere, except below the given regular files; used for examples.\<close>

definition path_tree :: "string list list \<Rightarrow> string list \<Rightarrow> string list tree" where
  "path_tree files cwd =
     \<lparr>t_root = [], t_dir = (\<lambda>n. n = [] \<or> n \<notin> set files),
      t_child = (\<lambda>d w. if d \<noteq> [] \<and> d \<in> set files \<or> NUL \<in> set w then None else Some (d @ [w])),
      t_parent = (\<lambda>n. if n = [] \<or> n \<in> set files then None else Some (butlast n)),
      t_fh = (\<lambda>fh. Some cwd)\<rparr>"

lemma path_tree_ok: "tree_ok (path_tree files cwd)"
  by (auto simp: tree_ok_def path_tree_def split: if_splits)

definition example_cwd :: tc_cwd_data where
  "example_cwd = \<lparr>cwd_path = ''/w'', cwd_fh = \<lparr>nfs_fh4_len = 0, nfs_fh4_val = None\<rparr>\<rparr>"

lemma example_cwd_ok: "cwd_ok (path_tree files [''w'']) example_cwd" if "[''w''] \<notin> set files"
proof -
  have "names ''/w'' = [''w'']" by code_simp
  then show ?thesis using that by (auto simp: cwd_ok_def example_cwd_def path_tree_def is_abs_def)
qed

definition example_compound :: compound where
  "example_compound =
     \<lparr>argoparray = [OpPutrootfh, OpLookup ''a'', OpLookup ''b'', OpLookup ''c'', OpLookup ''d'', OpSavefh, OpLookup ''x''],
      tc_saved_path = ''/a/b/c/d''\<rparr>"


text \<open>
  C37: where \<open>tc_set_cfh_to_path\<close> fails, it leaves the operations as they were, and there was no room for
  one operation per component and two more.
\<close>

theorem set_cfh_to_path_full:
  assumes "split_leaf path leaf = (p, w)" "tc_set_cfh_to_path cwd path leaf save c = (False, name, c')"
  shows "argoparray c' = argoparray c \<and> MAX_NUM_OPS_PER_COMPOUND < opcnt c + 2 + length (path_comps p)"
  using tc_set_cfh_to_path_fills [OF assms] by (auto simp: fills_def)

lemmas compound_eval = tc_prepare_lookups_def tc_has_enough_ops_def opcnt_def MAX_NUM_OPS_PER_COMPOUND_def add_op_def
  is_dotdot_def tc_prepare_savefh_def tc_cfh_not_changed_since_savefh_def tc_cfh_not_changed_since_restorefh_def
  NFS4_CHANGE_CFH_def tc_save_path_def PATH_MAX_def

theorem set_cfh_to_path_full_witness:
  "case tc_set_cfh_to_path example_cwd ''/a/b'' True False \<lparr>argoparray = replicate 256 OpGetfh, tc_saved_path = []\<rparr> of
     (r, name, c') \<Rightarrow> argoparray c' = replicate 256 OpGetfh"
proof -
  let ?c = "\<lparr>argoparray = replicate 256 OpGetfh, tc_saved_path = []\<rparr>"
  have sp: "split_leaf ''/a/b'' True = (''/a'', ''b'')" by code_simp
  have tk: "path_tokens ''/a'' = [''/a'']" by code_simp
  have f: "tc_set_cfh_to_path example_cwd ''/a/b'' True False ?c = (False, ''b'', ?c)"
    unfolding tc_set_cfh_to_path_def sp tc_compress_path_def tk
    by (simp add: Let_def tk tc_set_cfh_from_root_def reset_opcnt_def compound_eval)
  show ?thesis using set_cfh_to_path_full [OF sp f] by (simp add: f)
qed

text \<open>
  two files of one directory whose relative path has a doubled slash: the second walk starts
  at the saved handle and looks up a name that ends in a NUL, since the slice made of the joined path
  is longer than its normal form, so the server fails although the files exist.
\<close>

theorem set_cfh_double_slash:
  "case tc_set_cfh_to_path example_cwd ''a/b/c/d//e'' True True \<lparr>argoparray = [], tc_saved_path = []\<rparr> of
     (r1, n1, c1) \<Rightarrow> case tc_set_cfh_to_path example_cwd ''a/b/c/d//f'' True True c1 of
       (r2, n2, c2) \<Rightarrow> r1 \<and> r2 \<and> srv_run (path_tree [] [''w'']) (argoparray c1) srv_init \<noteq> None \<and>
         srv_run (path_tree [] [''w'']) (argoparray c2) srv_init = None"
proof -
  have sp: "split_leaf ''a/b/c/d//e'' True = (''a/b/c/d/'', ''e'')" "split_leaf ''a/b/c/d//f'' True = (''a/b/c/d/'', ''f'')"
    by code_simp+
  have q: "slash_cat ''/w'' ''a/b/c/d/'' = ''/w/a/b/c/d/''" "norm_path ''/w/a/b/c/d/'' = ''/w/a/b/c/d''" by code_simp+
  have ap: "tc_get_abspath_from_cwd example_cwd ''a/b/c/d/'' = ''/w/a/b/c/d'' @ [NUL]"
    using abspath_one_short [of example_cwd "''a/b/c/d/''"] q by (simp add: example_cwd_def PATH_MAX_def)
  have tk: "path_tokens ''a/b/c/d/'' = [''a'', ''b'', ''c'', ''d'']" "path_tokens (''../d'' @ [NUL]) = [''..'', ''d'' @ [NUL]]"
    by code_simp+
  have rb: "rebase_text ''/w/a/b/c/d'' (''/w/a/b/c/d'' @ [NUL]) = ''../d'' @ [NUL]" by code_simp
  have r: "rebase_path ''/w/a/b/c/d'' (''/w/a/b/c/d'' @ [NUL]) = Some (''../d'' @ [NUL])"
    using rebase_path_text [of "''/w/a/b/c/d''" "''/w/a/b/c/d'' @ [NUL]"] rb by (simp add: PATH_MAX_def)
  let ?fh = "cwd_fh example_cwd"
  let ?c1 = "\<lparr>argoparray = [OpPutfh ?fh, OpLookup ''a'', OpLookup ''b'', OpLookup ''c'', OpLookup ''d'', OpSavefh],
     tc_saved_path = ''/w/a/b/c/d''\<rparr>"
  have f: "tc_set_cfh_to_path example_cwd ''a/b/c/d//e'' True True \<lparr>argoparray = [], tc_saved_path = []\<rparr> = (True, ''e'', ?c1)"
    unfolding tc_set_cfh_to_path_def sp tc_compress_path_def tk
    by (simp add: ap tk tc_set_cfh_from_cwd_def tc_prepare_putfh_def prepare_def compound_eval)
  have g: "tc_set_cfh_to_path example_cwd ''a/b/c/d//f'' True True ?c1 =
      (True, ''f'', ?c1\<lparr>argoparray := argoparray ?c1 @ [OpLookupp, OpLookup (''d'' @ [NUL]), OpSavefh]\<rparr>)"
    unfolding tc_set_cfh_to_path_def sp tc_compress_path_def tk
    by (simp add: Let_def ap r [simplified] tk tk [simplified] and_then_def tc_prepare_restorefh_def compound_eval)
  show ?thesis unfolding f prod.case g by (simp add: srv_init_def path_tree_def)
qed

end
