(* ===== verification/Utf8_Names.thy ===== *)
theory Utf8_Names
  imports Error_Codes Prelude
begin

text \<open>
  The check of names received from the network in \<^verbatim>\<open>Protocols/NFS/nfs_proto_tools.c\<close>:
  \<open>path_filter\<close> scans a C string for slashes, for the names \<^verbatim>\<open>.\<close> and \<^verbatim>\<open>..\<close>, and
  for malformed UTF-8.  The scanner works on the bits of the bytes; the specification says which
  code points there are and how each is written, and the two agree on every string.
\<close>

unbundle bit_operations_syntax

section \<open>The scanner\<close>

definition UTF8_SCAN_NONE :: u32 where "UTF8_SCAN_NONE = 0"
definition UTF8_SCAN_NOSLASH :: u32 where "UTF8_SCAN_NOSLASH = 1"
definition UTF8_SCAN_NODOT :: u32 where "UTF8_SCAN_NODOT = 2"
definition UTF8_SCAN_CKUTF8 :: u32 where "UTF8_SCAN_CKUTF8 = 4"
definition UTF8_SCAN_SYMLINK :: u32 where "UTF8_SCAN_SYMLINK = 6"
definition UTF8_SCAN_NAME :: u32 where "UTF8_SCAN_NAME = 3"
definition UTF8_SCAN_ALL :: u32 where "UTF8_SCAN_ALL = 7"

text \<open>
  \<open>np ! i\<close> of the source: the list is the rest of the string without its terminator, which is what
  the position after the last byte holds.
\<close>

definition oct :: "u8 list \<Rightarrow> nat \<Rightarrow> u8" where
  "oct np i = (if i < length np then np ! i else 0)"

text \<open>The conditions under which a sequence of two, three or four octets is refused.\<close>

definition bad2 :: "u8 \<Rightarrow> u8 list \<Rightarrow> bool" where
  "bad2 c np \<longleftrightarrow> oct np 0 AND 0xc0 \<noteq> 0x80 \<or> c AND 0xfe = 0xc0"

definition bad3 :: "u8 \<Rightarrow> u8 list \<Rightarrow> bool" where
  "bad3 c np \<longleftrightarrow>
     oct np 0 AND 0xc0 \<noteq> 0x80 \<or> oct np 1 AND 0xc0 \<noteq> 0x80 \<or>
     c = 0xe0 \<and> oct np 0 AND 0xe0 = 0x80 \<or>
     c = 0xed \<and> oct np 0 AND 0xe0 = 0xa0 \<or>
     c = 0xef \<and> oct np 0 = 0xbf \<and> oct np 1 AND 0xfe = 0xbe"

definition bad4 :: "u8 \<Rightarrow> u8 list \<Rightarrow> bool" where
  "bad4 c np \<longleftrightarrow>
     oct np 0 AND 0xc0 \<noteq> 0x80 \<or> oct np 1 AND 0xc0 \<noteq> 0x80 \<or> oct np 2 AND 0xc0 \<noteq> 0x80 \<or>
     c = 0xf0 \<and> oct np 0 AND 0xf0 = 0x80 \<or>
     c = 0xf4 \<and> oct np 0 > 0x8f \<or> c > 0xf4"

fun filter_loop :: "u32 \<Rightarrow> bool \<Rightarrow> u8 list \<Rightarrow> nfsstat4" where
  "filter_loop scan first [] = NFS4_OK"
| "filter_loop scan first (c # np) =
     (if c = 0 then NFS4_OK
      else if c < 0x80 then
        (if c = 0x2f \<and> scan AND UTF8_SCAN_NOSLASH \<noteq> 0 then NFS4ERR_BADCHAR
         else if first \<and> c = 0x2e \<and> scan AND UTF8_SCAN_NODOT \<noteq> 0 \<and>
                 (oct np 0 = 0 \<or> oct np 0 = 0x2e \<and> oct np 1 = 0) then NFS4ERR_BADNAME
         else filter_loop scan False np)
      else if scan AND UTF8_SCAN_CKUTF8 \<noteq> 0 then
        (if c AND 0xe0 = 0xc0 then (if bad2 c np then NFS4ERR_INVAL else filter_loop scan False (drop 1 np))
         else if c AND 0xf0 = 0xe0 then (if bad3 c np then NFS4ERR_INVAL else filter_loop scan False (drop 2 np))
         else if c AND 0xf8 = 0xf0 then (if bad4 c np then NFS4ERR_INVAL else filter_loop scan False (drop 3 np))
         else NFS4ERR_INVAL)
      else filter_loop scan False np)"

definition path_filter :: "u8 list \<Rightarrow> u32 \<Rightarrow> nfsstat4" where
  "path_filter name scan = filter_loop scan True name"

definition MAXNAMLEN :: nat where "MAXNAMLEN = 255"

text \<open>
  \<open>input\<close> is \<open>None\<close> for a NULL pointer, and \<open>malloc_ok\<close> says whether the copy could be allocated.  The
  name returned is a C string: it ends at the first NUL of the copied bytes.
\<close>

definition c_string :: "u8 list \<Rightarrow> u8 list" where
  "c_string s = takeWhile (\<lambda>c. c \<noteq> 0) s"

definition nfs4_utf8string2dynamic :: "bool \<Rightarrow> u8 list option \<Rightarrow> u32 \<Rightarrow> nfsstat4 \<times> u8 list option" where
  "nfs4_utf8string2dynamic malloc_ok input scan =
     (case input of
        None \<Rightarrow> (NFS4ERR_INVAL, None)
      | Some s \<Rightarrow>
          if s = [] then (NFS4ERR_INVAL, None)
          else if length s > MAXNAMLEN then (NFS4ERR_NAMETOOLONG, None)
          else if \<not> malloc_ok then (NFS4ERR_SERVERFAULT, None)
          else let name = c_string s; status = (if scan \<noteq> UTF8_SCAN_NONE then path_filter name scan else NFS4_OK)
               in if status = NFS4_OK then (status, Some name) else (status, None))"

section \<open>Code points\<close>

definition code_point :: "nat \<Rightarrow> bool" where
  "code_point u \<longleftrightarrow> 0 < u \<and> u \<le> 0x10ffff \<and> \<not> (0xd800 \<le> u \<and> u \<le> 0xdfff) \<and> u \<noteq> 0xfffe \<and> u \<noteq> 0xffff"

definition octets :: "nat \<Rightarrow> nat list" where
  "octets u =
     (if u < 0x80 then [u]
      else if u < 0x800 then [0xc0 + u div 0x40, 0x80 + u mod 0x40]
      else if u < 0x10000 then [0xe0 + u div 0x1000, 0x80 + u div 0x40 mod 0x40, 0x80 + u mod 0x40]
      else [0xf0 + u div 0x40000, 0x80 + u div 0x1000 mod 0x40, 0x80 + u div 0x40 mod 0x40, 0x80 + u mod 0x40])"

definition utf8 :: "nat list \<Rightarrow> u8 list" where
  "utf8 us = concat (map (\<lambda>u. map word_of_nat (octets u)) us)"

section \<open>Bits of a byte\<close>

lemma u8_all: "(\<forall>c::u8. P c) \<longleftrightarrow> (\<forall>n\<in>set [0..<256]. P (word_of_nat n))"
proof
  assume a: "\<forall>n\<in>set [0..<256]. P (word_of_nat n)"
  show "\<forall>c::u8. P c"
  proof
    fix c :: u8
    have "unat c < 256" using unsigned_less [of c] by simp
    then show "P c" using bspec [OF a, of "unat c"] by simp
  qed
qed simp

lemma lead_byte:
  "\<forall>c::u8. (c < 0x80 \<longleftrightarrow> unat c < 0x80) \<and> (c AND 0xe0 = 0xc0 \<longleftrightarrow> 0xc0 \<le> unat c \<and> unat c < 0xe0) \<and>
     (c AND 0xf0 = 0xe0 \<longleftrightarrow> 0xe0 \<le> unat c \<and> unat c < 0xf0) \<and> (c AND 0xf8 = 0xf0 \<longleftrightarrow> 0xf0 \<le> unat c \<and> unat c < 0xf8) \<and>
     (c AND 0xfe = 0xc0 \<longleftrightarrow> unat c = 0xc0 \<or> unat c = 0xc1) \<and> (c > 0xf4 \<longleftrightarrow> unat c > 0xf4)"
  unfolding u8_all by code_simp

lemma continuation_byte:
  "\<forall>c::u8. (c AND 0xc0 = 0x80 \<longleftrightarrow> 0x80 \<le> unat c \<and> unat c < 0xc0) \<and> (c AND 0xe0 = 0x80 \<longleftrightarrow> 0x80 \<le> unat c \<and> unat c < 0xa0) \<and>
     (c AND 0xe0 = 0xa0 \<longleftrightarrow> 0xa0 \<le> unat c \<and> unat c < 0xc0) \<and> (c AND 0xf0 = 0x80 \<longleftrightarrow> 0x80 \<le> unat c \<and> unat c < 0x90) \<and>
     (c AND 0xfe = 0xbe \<longleftrightarrow> unat c = 0xbe \<or> unat c = 0xbf) \<and> (c > 0x8f \<longleftrightarrow> unat c > 0x8f)"
  unfolding u8_all by code_simp

section \<open>Well-formed strings\<close>

definition well_formed :: "u8 list \<Rightarrow> bool" where
  "well_formed s \<longleftrightarrow> (\<exists>us. (\<forall>u\<in>set us. code_point u) \<and> s = utf8 us)"

lemma utf8_simps [simp]: "utf8 [] = []" "utf8 (u # us) = map word_of_nat (octets u) @ utf8 us"
  by (simp_all add: utf8_def)

lemma six_bits2:
  "u = 0x1000 * (u div 0x1000) + 0x40 * (u div 0x40 mod 0x40) + u mod 0x40 \<and> u div 0x40 mod 0x40 < 0x40 \<and> u mod 0x40 < (0x40::nat)"
proof -
  have "u div 0x1000 = u div 0x40 div (0x40::nat)" by (simp add: div_mult2_eq [symmetric])
  then have "u = 0x1000 * (u div 0x1000) + 0x40 * (u div 0x40 mod 0x40) + u mod 0x40"
    using mult_div_mod_eq [of "0x40" u] mult_div_mod_eq [of "0x40" "u div 0x40"] by linarith
  then show ?thesis by simp
qed

lemma six_bits3:
  "u = 0x40000 * (u div 0x40000) + 0x1000 * (u div 0x1000 mod 0x40) + 0x40 * (u div 0x40 mod 0x40) + u mod 0x40 \<and>
   u div 0x1000 mod 0x40 < 0x40 \<and> u div 0x40 mod 0x40 < 0x40 \<and> u mod 0x40 < (0x40::nat)"
proof -
  have "u div 0x40000 = u div 0x1000 div (0x40::nat)" by (simp add: div_mult2_eq [symmetric])
  then have "u = 0x40000 * (u div 0x40000) + 0x1000 * (u div 0x1000 mod 0x40) + 0x40 * (u div 0x40 mod 0x40) + u mod 0x40"
    using conjunct1 [OF six_bits2 [of u]] mult_div_mod_eq [of "0x40" "u div 0x1000"] by linarith
  then show ?thesis by simp
qed

lemma octets_cases:
  assumes "code_point u"
  obtains (one) "octets u = [u]" "0 < u" "u < 0x80"
  | (two) b c where "octets u = [c, b]" "0xc2 \<le> c" "c < 0xe0" "0x80 \<le> b" "b < 0xc0"
  | (three) c b0 b1 where "octets u = [c, b0, b1]" "0xe0 \<le> c" "c < 0xf0" "0x80 \<le> b0" "b0 < 0xc0" "0x80 \<le> b1" "b1 < 0xc0"
      "c = 0xe0 \<longrightarrow> 0xa0 \<le> b0" "c = 0xed \<longrightarrow> b0 < 0xa0" "c = 0xef \<and> b0 = 0xbf \<longrightarrow> b1 < 0xbe"
  | (four) c b0 b1 b2 where "octets u = [c, b0, b1, b2]" "0xf0 \<le> c" "c < 0xf5" "0x80 \<le> b0" "b0 < 0xc0"
      "0x80 \<le> b1" "b1 < 0xc0" "0x80 \<le> b2" "b2 < 0xc0" "c = 0xf0 \<longrightarrow> 0x90 \<le> b0" "c = 0xf4 \<longrightarrow> b0 < 0x90"
proof -
  consider "u < 0x80" | "0x80 \<le> u" "u < 0x800" | "0x800 \<le> u" "u < 0x10000" | "0x10000 \<le> u" by linarith
  then show thesis
  proof cases
    case 1
    then show thesis using one assms by (simp add: octets_def code_point_def)
  next
    case 2
    then show thesis by (intro two [of "0xc0 + u div 0x40" "0x80 + u mod 0x40"]) (auto simp: octets_def)
  next
    case 3
    define a b d where a: "a = u div 0x1000" and b: "b = u div 0x40 mod 0x40" and d: "d = u mod 0x40"
    note u = six_bits2 [of u, folded a b d]
    have o: "octets u = [0xe0 + a, 0x80 + b, 0x80 + d]" using 3 by (simp add: octets_def a b d)
    show thesis
      by (rule three [OF o]; use 3 u assms [unfolded code_point_def] in linarith)
  next
    case 4
    define a b c d where a: "a = u div 0x40000" and b: "b = u div 0x1000 mod 0x40" and c: "c = u div 0x40 mod 0x40" and d: "d = u mod 0x40"
    note u = six_bits3 [of u, folded a b c d]
    have o: "octets u = [0xf0 + a, 0x80 + b, 0x80 + c, 0x80 + d]" using 4 by (simp add: octets_def a b c d)
    show thesis
      by (rule four [OF o]; use 4 u assms [unfolded code_point_def] in linarith)
  qed
qed


lemma octets_two: "0xc2 \<le> c \<Longrightarrow> c < 0xe0 \<Longrightarrow> 0x80 \<le> b \<Longrightarrow> b < 0xc0 \<Longrightarrow> \<exists>u. code_point u \<and> octets u = [c, b]"
proof -
  assume "0xc2 \<le> c" "c < 0xe0" "0x80 \<le> b" "b < 0xc0"
  then obtain x y where "c = 0xc0 + x" "b = 0x80 + y" "2 \<le> x" "x < 0x20" "y < 0x40"
    by (intro that [of "c - 0xc0" "b - 0x80"]) linarith+
  then show ?thesis by (intro exI [of _ "0x40 * x + y"]) (simp add: octets_def code_point_def)
qed

lemma digit: "d < 0x40 \<Longrightarrow> (0x40 * a + d) div 0x40 = a" "d < 0x40 \<Longrightarrow> (0x40 * a + d) mod 0x40 = (d::nat)"
  by simp_all

lemma octets_three:
  assumes "0xe0 \<le> c" "c < 0xf0" "0x80 \<le> b0" "b0 < 0xc0" "0x80 \<le> b1" "b1 < 0xc0"
    "c = 0xe0 \<longrightarrow> 0xa0 \<le> b0" "c = 0xed \<longrightarrow> b0 < 0xa0" "c = 0xef \<and> b0 = 0xbf \<longrightarrow> b1 < 0xbe"
  shows "\<exists>u. code_point u \<and> octets u = [c, b0, b1]"
proof -
  obtain x y z where p: "c = 0xe0 + x" "b0 = 0x80 + y" "b1 = 0x80 + z" "x < 0x10" "y < 0x40" "z < 0x40"
    using assms by (intro that [of "c - 0xe0" "b0 - 0x80" "b1 - 0x80"]) linarith+
  let ?u = "0x40 * (0x40 * x + y) + z"
  have d: "?u div 0x40 = 0x40 * x + y" "?u mod 0x40 = z" "(0x40 * x + y) mod 0x40 = y" "(0x40 * x + y) div 0x40 = x"
    using digit p by blast+
  have e: "?u div 0x1000 = x" using d div_mult2_eq [of ?u "0x40" "0x40"] by simp
  have q: "x = 0 \<longrightarrow> 0x20 \<le> y" "x = 0xd \<longrightarrow> y < 0x20" "x = 0xf \<and> y = 0x3f \<longrightarrow> z < 0x3e"
    using assms(7-9) p by simp_all
  have l: "0x800 \<le> ?u"
  proof (cases "x = 0")
    case False
    then have "1 \<le> x" by simp
    then show ?thesis by simp
  qed (use q(1) in simp)
  have "\<not> (0xd800 \<le> ?u \<and> ?u \<le> 0xdfff)"
  proof
    assume a: "0xd800 \<le> ?u \<and> ?u \<le> 0xdfff"
    then have "x < 14" using p(5,6) by simp
    moreover have "12 < x" using a p(5,6) by simp
    ultimately show False using a q(2) p(6) by simp
  qed
  moreover have m: "?u < 0xfffe"
  proof (cases "x = 0xf \<and> y = 0x3f")
    case False
    then have "x < 0xf \<or> y < 0x3f" using p(4,5) by linarith
    then show ?thesis using p(4-6) by (elim disjE) simp_all
  qed (use q(3) in simp)
  ultimately have "code_point ?u" using l unfolding code_point_def by linarith
  moreover have "octets ?u = [c, b0, b1]" using d e l m p by (simp add: octets_def)
  ultimately show ?thesis by blast
qed

lemma octets_four:
  assumes "0xf0 \<le> c" "c < 0xf5" "0x80 \<le> b0" "b0 < 0xc0" "0x80 \<le> b1" "b1 < 0xc0" "0x80 \<le> b2" "b2 < 0xc0"
    "c = 0xf0 \<longrightarrow> 0x90 \<le> b0" "c = 0xf4 \<longrightarrow> b0 < 0x90"
  shows "\<exists>u. code_point u \<and> octets u = [c, b0, b1, b2]"
proof -
  obtain x y z w where p: "c = 0xf0 + x" "b0 = 0x80 + y" "b1 = 0x80 + z" "b2 = 0x80 + w" "x < 5" "y < 0x40" "z < 0x40" "w < 0x40"
    using assms by (intro that [of "c - 0xf0" "b0 - 0x80" "b1 - 0x80" "b2 - 0x80"]) linarith+
  let ?v = "0x40 * (0x40 * x + y) + z"
  let ?u = "0x40 * ?v + w"
  have d: "?u div 0x40 = ?v" "?u mod 0x40 = w" "?v mod 0x40 = z" "?v div 0x40 = 0x40 * x + y"
    "(0x40 * x + y) mod 0x40 = y" "(0x40 * x + y) div 0x40 = x"
    using digit p by blast+
  have e: "?u div 0x1000 = 0x40 * x + y" using d div_mult2_eq [of ?u "0x40" "0x40"] by simp
  have f: "?u div 0x40000 = x" using d e div_mult2_eq [of ?u "0x1000" "0x40"] by simp
  have q: "x = 0 \<longrightarrow> 0x10 \<le> y" "x = 4 \<longrightarrow> y < 0x10" using assms(9,10) p by simp_all
  have r: "1 \<le> x \<or> 0x10 \<le> y" "x \<le> 3 \<or> x = 4 \<and> y \<le> 0xf" using q p(5) by linarith+
  from r(1) have g: "0x10000 \<le> ?u" by (elim disjE) simp_all
  from r(2) have h: "?u \<le> 0x10ffff" using p(6-8) by (elim disjE conjE) simp_all
  have "octets ?u = [c, b0, b1, b2]" using d e f g p by (simp add: octets_def)
  moreover have "code_point ?u" unfolding code_point_def using g h by linarith
  ultimately show ?thesis by blast
qed

section \<open>The scanner accepts the well-formed strings\<close>

lemma unat_byte [simp]: "b < 256 \<Longrightarrow> unat (word_of_nat b :: u8) = b"
  by (simp add: unsigned_of_nat take_bit_nat_eq_self)

lemma well_formed_unfold:
  "well_formed s \<longleftrightarrow> s = [] \<or> (\<exists>u r. code_point u \<and> s = map word_of_nat (octets u) @ r \<and> well_formed r)"
proof
  assume "well_formed s"
  then obtain us where "\<forall>u\<in>set us. code_point u" "s = utf8 us" unfolding well_formed_def by blast
  then show "s = [] \<or> (\<exists>u r. code_point u \<and> s = map word_of_nat (octets u) @ r \<and> well_formed r)"
    by (cases us) (auto simp: well_formed_def)
next
  assume "s = [] \<or> (\<exists>u r. code_point u \<and> s = map word_of_nat (octets u) @ r \<and> well_formed r)"
  then show "well_formed s"
  proof (elim disjE exE conjE)
    fix u r assume u: "code_point u" "s = map word_of_nat (octets u) @ r" "well_formed r"
    then obtain us where "\<forall>v\<in>set us. code_point v" "r = utf8 us" unfolding well_formed_def by blast
    then show "well_formed s" using u unfolding well_formed_def by (intro exI [of _ "u # us"]) simp
  qed (auto simp: well_formed_def intro: exI [of _ "[]"])
qed


lemma first_byte:
  assumes "code_point u" "map word_of_nat (octets u) @ r = c # (np :: u8 list)"
  shows "unat c = hd (octets u)"
  using assms by (cases rule: octets_cases [OF assms(1)]) auto

lemma well_formed_ascii:
  assumes "unat c < 0x80" "c \<noteq> 0"
  shows "well_formed (c # np) \<longleftrightarrow> well_formed np"
proof
  assume "well_formed (c # np)"
  then obtain u r where u: "code_point u" "c # np = map word_of_nat (octets u) @ r" "well_formed r"
    unfolding well_formed_unfold [of "c # np"] by auto
  have "unat c = hd (octets u)" using first_byte u by metis
  then show "well_formed np" using u assms by (cases rule: octets_cases [OF u(1)]) auto
next
  assume "well_formed np"
  moreover have "code_point (unat c)" "octets (unat c) = [unat c]"
    using assms by (auto simp: code_point_def octets_def unat_gt_0)
  ultimately show "well_formed (c # np)" unfolding well_formed_unfold [of "c # np"] by force
qed

lemma oct_simps [simp]: "oct [] i = 0" "oct (b # r) 0 = b" "oct (b # r) (Suc 0) = oct r 0" "oct (b # r) 2 = oct r (Suc 0)"
  by (auto simp: oct_def nth_Cons split: nat.splits)

text \<open>What the conditions of the scanner mean for the values of the bytes.\<close>

lemma bad2_iff:
  assumes "unat c < 0xe0" "0xc0 \<le> unat c"
  shows "\<not> bad2 c np \<longleftrightarrow> (\<exists>b r. np = b # r \<and> 0xc2 \<le> unat c \<and> 0x80 \<le> unat b \<and> unat b < 0xc0)"
  using assms lead_byte [rule_format, of c] by (cases np) (auto simp: bad2_def continuation_byte [rule_format])

lemma bad3_iff:
  assumes "unat c < 0xf0" "0xe0 \<le> unat c"
  shows "\<not> bad3 c np \<longleftrightarrow> (\<exists>b0 b1 r. np = b0 # b1 # r \<and> 0x80 \<le> unat b0 \<and> unat b0 < 0xc0 \<and> 0x80 \<le> unat b1 \<and> unat b1 < 0xc0 \<and>
    (unat c = 0xe0 \<longrightarrow> 0xa0 \<le> unat b0) \<and> (unat c = 0xed \<longrightarrow> unat b0 < 0xa0) \<and> (unat c = 0xef \<and> unat b0 = 0xbf \<longrightarrow> unat b1 < 0xbe))"
proof -
  have v: "c = 0xe0 \<longleftrightarrow> unat c = 0xe0" "c = 0xed \<longleftrightarrow> unat c = 0xed" "c = 0xef \<longleftrightarrow> unat c = 0xef" "\<And>b::u8. b = 0xbf \<longleftrightarrow> unat b = 0xbf"
    by (auto simp: word_unat_eq_iff)
  consider "np = []" | b where "np = [b]" | b0 b1 r where "np = b0 # b1 # r" by (cases np; cases "tl np") auto
  then show ?thesis
    by cases (auto simp: bad3_def continuation_byte [rule_format] v)
qed


lemma bad4_iff:
  assumes "0xf0 \<le> unat c" "unat c < 0xf8"
  shows "\<not> bad4 c np \<longleftrightarrow> (\<exists>b0 b1 b2 r. np = b0 # b1 # b2 # r \<and> unat c < 0xf5 \<and> 0x80 \<le> unat b0 \<and> unat b0 < 0xc0 \<and>
    0x80 \<le> unat b1 \<and> unat b1 < 0xc0 \<and> 0x80 \<le> unat b2 \<and> unat b2 < 0xc0 \<and>
    (unat c = 0xf0 \<longrightarrow> 0x90 \<le> unat b0) \<and> (unat c = 0xf4 \<longrightarrow> unat b0 < 0x90))"
proof -
  have v: "c = 0xf0 \<longleftrightarrow> unat c = 0xf0" "c = 0xf4 \<longleftrightarrow> unat c = 0xf4" "c > 0xf4 \<longleftrightarrow> unat c > 0xf4"
    using lead_byte [rule_format, of c] by (auto simp: word_unat_eq_iff)
  consider "np = []" | b where "np = [b]" | b0 b1 where "np = [b0, b1]" | b0 b1 b2 r where "np = b0 # b1 # b2 # r"
    by (cases np; cases "tl np"; cases "tl (tl np)") auto
  then show ?thesis
    by cases (auto simp: bad4_def continuation_byte [rule_format] v)
qed

lemma well_formed_step:
  assumes "code_point u" "octets u = map unat (c # bs)"
  shows "well_formed (c # bs @ r) \<longleftrightarrow> well_formed r"
proof
  assume "well_formed r"
  moreover have "c # bs @ r = map word_of_nat (octets u) @ r" by (simp add: assms comp_def)
  ultimately show "well_formed (c # bs @ r)" unfolding well_formed_unfold [of "c # bs @ r"] using assms by blast
next
  assume "well_formed (c # bs @ r)"
  then obtain v r' where v: "code_point v" "c # bs @ r = map word_of_nat (octets v) @ r'" "well_formed r'"
    unfolding well_formed_unfold [of "c # bs @ r"] by auto
  have h: "hd (octets v) = hd (octets u)" using first_byte [OF v(1) v(2) [symmetric]] assms by simp
  have "length (octets v) = length (octets u)"
    using h by (cases rule: octets_cases [OF v(1)]; cases rule: octets_cases [OF assms(1)]) auto
  then have "length bs = length (tl (octets v))" by (simp add: assms)
  moreover have "bs @ r = map word_of_nat (tl (octets v)) @ r'" using v(2) by (cases "octets v") (auto simp: octets_def split: if_splits)
  ultimately show "well_formed r" using v(3) by simp
qed


lemma well_formed_first:
  assumes "well_formed (c # np)"
  obtains u r where "code_point u" "c # np = map word_of_nat (octets u) @ r" "unat c = hd (octets u)"
  using assms first_byte unfolding well_formed_unfold [of "c # np"] by (metis list.distinct(1))

lemma well_formed_two:
  assumes c: "0xc0 \<le> unat c" "unat c < 0xe0"
  shows "well_formed (c # np) \<longleftrightarrow> \<not> bad2 c np \<and> well_formed (drop 1 np)"
proof -
  have "\<not> bad2 c np" if w: "well_formed (c # np)"
  proof -
    obtain u r where u: "code_point u" "c # np = map word_of_nat (octets u) @ r" "unat c = hd (octets u)"
      by (rule well_formed_first [OF w])
    show ?thesis unfolding bad2_iff [OF c(2,1)] using c u(2,3) by (cases rule: octets_cases [OF u(1)]) auto
  qed
  moreover have "well_formed (c # np) \<longleftrightarrow> well_formed (drop 1 np)" if "\<not> bad2 c np"
  proof -
    obtain b r where b: "np = b # r" "0xc2 \<le> unat c" "0x80 \<le> unat b" "unat b < 0xc0"
      using \<open>\<not> bad2 c np\<close> bad2_iff [OF c(2,1)] by blast
    obtain u where "code_point u" "octets u = [unat c, unat b]" using octets_two [OF b(2) c(2) b(3,4)] by blast
    then show ?thesis using well_formed_step [of u c "[b]" r] b by simp
  qed
  ultimately show ?thesis by blast
qed

lemma well_formed_three:
  assumes c: "0xe0 \<le> unat c" "unat c < 0xf0"
  shows "well_formed (c # np) \<longleftrightarrow> \<not> bad3 c np \<and> well_formed (drop 2 np)"
proof -
  have "\<not> bad3 c np" if w: "well_formed (c # np)"
  proof -
    obtain u r where u: "code_point u" "c # np = map word_of_nat (octets u) @ r" "unat c = hd (octets u)"
      by (rule well_formed_first [OF w])
    show ?thesis unfolding bad3_iff [OF c(2,1)] using c u(2,3) by (cases rule: octets_cases [OF u(1)]) auto
  qed
  moreover have "well_formed (c # np) \<longleftrightarrow> well_formed (drop 2 np)" if "\<not> bad3 c np"
  proof -
    obtain b0 b1 r where b: "np = b0 # b1 # r" and l: "0x80 \<le> unat b0" "unat b0 < 0xc0" "0x80 \<le> unat b1" "unat b1 < 0xc0"
      "unat c = 0xe0 \<longrightarrow> 0xa0 \<le> unat b0" "unat c = 0xed \<longrightarrow> unat b0 < 0xa0" "unat c = 0xef \<and> unat b0 = 0xbf \<longrightarrow> unat b1 < 0xbe"
      using \<open>\<not> bad3 c np\<close> bad3_iff [OF c(2,1)] by blast
    obtain u where "code_point u" "octets u = [unat c, unat b0, unat b1]" using octets_three [OF c l] by blast
    then show ?thesis using well_formed_step [of u c "[b0, b1]" r] b by simp
  qed
  ultimately show ?thesis by blast
qed

lemma well_formed_four:
  assumes c: "0xf0 \<le> unat c" "unat c < 0xf8"
  shows "well_formed (c # np) \<longleftrightarrow> \<not> bad4 c np \<and> well_formed (drop 3 np)"
proof -
  have "\<not> bad4 c np" if w: "well_formed (c # np)"
  proof -
    obtain u r where u: "code_point u" "c # np = map word_of_nat (octets u) @ r" "unat c = hd (octets u)"
      by (rule well_formed_first [OF w])
    show ?thesis unfolding bad4_iff [OF c] using c u(2,3) by (cases rule: octets_cases [OF u(1)]) auto
  qed
  moreover have "well_formed (c # np) \<longleftrightarrow> well_formed (drop 3 np)" if "\<not> bad4 c np"
  proof -
    obtain b0 b1 b2 r where b: "np = b0 # b1 # b2 # r" and k: "unat c < 0xf5" and l: "0x80 \<le> unat b0" "unat b0 < 0xc0"
      "0x80 \<le> unat b1" "unat b1 < 0xc0" "0x80 \<le> unat b2" "unat b2 < 0xc0"
      "unat c = 0xf0 \<longrightarrow> 0x90 \<le> unat b0" "unat c = 0xf4 \<longrightarrow> unat b0 < 0x90"
      using \<open>\<not> bad4 c np\<close> bad4_iff [OF c] by blast
    obtain u where "code_point u" "octets u = [unat c, unat b0, unat b1, unat b2]" using octets_four [OF c(1) k l] by blast
    then show ?thesis using well_formed_step [of u c "[b0, b1, b2]" r] b by simp
  qed
  ultimately show ?thesis by blast
qed

lemma well_formed_other:
  assumes "0x80 \<le> unat c" "unat c < 0xc0 \<or> 0xf8 \<le> unat c"
  shows "\<not> well_formed (c # np)"
proof
  assume "well_formed (c # np)"
  then obtain u r where "code_point u" "unat c = hd (octets u)" by (elim well_formed_first)
  then show False using assms by (cases rule: octets_cases) auto
qed


lemma oct_end: "0 \<notin> set np \<Longrightarrow> oct np 0 = 0 \<longleftrightarrow> np = []" "0 \<notin> set np \<Longrightarrow> oct np 0 = 0x2e \<and> oct np 1 = 0 \<longleftrightarrow> np = [0x2e]"
  by (cases np; cases "tl np"; force simp: oct_def)+

text \<open>The bytes after the first of a sequence are not slashes.\<close>

lemma slash_beyond:
  assumes "\<And>b. b \<in> set (take n np) \<Longrightarrow> 0x80 \<le> unat b"
  shows "(0x2f::u8) \<in> set np \<longleftrightarrow> 0x2f \<in> set (drop n np)"
proof -
  have "(0x2f::u8) \<notin> set (take n np)" using assms [of "0x2f"] by auto
  then show ?thesis using set_append [of "take n np" "drop n np"] by auto
qed

text \<open>The scanner refuses one byte at a time what the specification refuses of the whole string.\<close>

definition accepts :: "u32 \<Rightarrow> bool \<Rightarrow> u8 list \<Rightarrow> bool" where
  "accepts scan first s \<longleftrightarrow>
     (scan AND UTF8_SCAN_CKUTF8 \<noteq> 0 \<longrightarrow> well_formed s) \<and> (scan AND UTF8_SCAN_NOSLASH \<noteq> 0 \<longrightarrow> 0x2f \<notin> set s) \<and>
     (first \<and> scan AND UTF8_SCAN_NODOT \<noteq> 0 \<longrightarrow> s \<notin> {[0x2e], [0x2e, 0x2e]})"

lemma accepts_skip:
  assumes "well_formed (c # np) \<longleftrightarrow> \<not> bad \<and> well_formed (drop n np)" "\<not> bad" "0x80 \<le> unat c"
    "\<And>b. b \<in> set (take n np) \<Longrightarrow> 0x80 \<le> unat b"
  shows "accepts scan first (c # np) \<longleftrightarrow> accepts scan False (drop n np)"
proof -
  have "c \<noteq> 0x2f" "c \<noteq> 0x2e" using assms(3) by auto
  then show ?thesis using assms(1,2) slash_beyond [OF assms(4)] by (auto simp: accepts_def)
qed

lemma filter_loop_ok: "0 \<notin> set s \<Longrightarrow> filter_loop scan first s = NFS4_OK \<longleftrightarrow> accepts scan first s"
proof (induction scan first s rule: filter_loop.induct)
  case (1 scan first)
  have "well_formed []" using well_formed_unfold [of "[]"] by simp
  then show ?case by (simp add: accepts_def)
next
  case (2 scan first c np)
  note l = lead_byte [rule_format, of c]
  have nz: "c \<noteq> 0" "0 \<notin> set np" using 2(6) by auto
  have drops: "0 \<notin> set (drop n np)" for n using nz(2) by (meson in_set_dropD)
  consider (ascii) "unat c < 0x80" | (plain) "0x80 \<le> unat c" "scan AND UTF8_SCAN_CKUTF8 = 0"
    | (two) "0xc0 \<le> unat c" "unat c < 0xe0" "scan AND UTF8_SCAN_CKUTF8 \<noteq> 0"
    | (three) "0xe0 \<le> unat c" "unat c < 0xf0" "scan AND UTF8_SCAN_CKUTF8 \<noteq> 0"
    | (four) "0xf0 \<le> unat c" "unat c < 0xf8" "scan AND UTF8_SCAN_CKUTF8 \<noteq> 0"
    | (other) "0x80 \<le> unat c" "unat c < 0xc0 \<or> 0xf8 \<le> unat c" "scan AND UTF8_SCAN_CKUTF8 \<noteq> 0"
    by linarith
  then show ?case
  proof cases
    case ascii
    let ?slash = "c = 0x2f \<and> scan AND UTF8_SCAN_NOSLASH \<noteq> 0"
    let ?dot = "first \<and> c = 0x2e \<and> scan AND UTF8_SCAN_NODOT \<noteq> 0 \<and> (oct np 0 = 0 \<or> oct np 0 = 0x2e \<and> oct np 1 = 0)"
    have f: "filter_loop scan first (c # np) =
        (if ?slash then NFS4ERR_BADCHAR else if ?dot then NFS4ERR_BADNAME else filter_loop scan False np)"
      using ascii l nz by simp
    have d: "?dot \<longleftrightarrow> first \<and> scan AND UTF8_SCAN_NODOT \<noteq> 0 \<and> c # np \<in> {[0x2e], [0x2e, 0x2e]}"
      using oct_end [OF nz(2)] by auto
    have a: "accepts scan first (c # np) \<longleftrightarrow> \<not> ?slash \<and> \<not> ?dot \<and> accepts scan False np"
      unfolding d using well_formed_ascii [OF ascii nz(1)] by (auto simp: accepts_def)
    have "accepts scan False np \<longleftrightarrow> filter_loop scan False np = NFS4_OK" if "\<not> ?slash" "\<not> ?dot"
      using 2(1) [OF nz(1) _ that nz(2)] l ascii by simp
    then show ?thesis unfolding f a by (auto split: if_split)
  next
    case plain
    then have "c \<noteq> 0x2f" "c \<noteq> 0x2e" by auto
    moreover have "filter_loop scan first (c # np) = filter_loop scan False np" using l nz plain by simp
    moreover have "filter_loop scan False np = NFS4_OK \<longleftrightarrow> accepts scan False np" using 2(5) [OF nz(1) _ _ nz(2)] l plain by simp
    ultimately show ?thesis using plain by (simp add: accepts_def)
  next
    case two
    have k: "0x80 \<le> unat c" using two(1) by simp
    have h: "\<not> c < 0x80" "c AND 0xe0 = 0xc0" using two(1,2) by (simp_all add: l)
    have f: "filter_loop scan first (c # np) = (if bad2 c np then NFS4ERR_INVAL else filter_loop scan False (drop 1 np))"
      by (simp only: filter_loop.simps h nz two(3) if_True if_False simp_thms)
    show ?thesis
    proof (cases "bad2 c np")
      case False
      then obtain b0 r where "np = b0 # r" "0x80 \<le> unat b0" using bad2_iff [OF two(2,1)] by blast
      then have b: "0x80 \<le> unat b" if "b \<in> set (take 1 np)" for b using that by auto
      have "filter_loop scan False (drop 1 np) = NFS4_OK \<longleftrightarrow> accepts scan False (drop 1 np)"
        by (rule 2(2) [OF nz(1) h(1) two(3) h(2) False drops])
      moreover have "accepts scan first (c # np) \<longleftrightarrow> accepts scan False (drop 1 np)"
        by (rule accepts_skip [OF well_formed_two [OF two(1,2)] False k b])
      ultimately show ?thesis by (simp only: f False if_False)
    qed (use two f well_formed_two [OF two(1,2)] in \<open>simp add: accepts_def\<close>)
  next
    case three
    have k: "0x80 \<le> unat c" using three(1) by simp
    have h: "\<not> c < 0x80" "c AND 0xe0 \<noteq> 0xc0" "c AND 0xf0 = 0xe0" using three(1,2) by (simp_all add: l)
    have f: "filter_loop scan first (c # np) = (if bad3 c np then NFS4ERR_INVAL else filter_loop scan False (drop 2 np))"
      by (simp only: filter_loop.simps h nz three(3) if_True if_False simp_thms)
    show ?thesis
    proof (cases "bad3 c np")
      case False
      then obtain b0 b1 r where "np = b0 # b1 # r" "0x80 \<le> unat b0" "0x80 \<le> unat b1" using bad3_iff [OF three(2,1)] by blast
      then have b: "0x80 \<le> unat b" if "b \<in> set (take 2 np)" for b using that by auto
      have "filter_loop scan False (drop 2 np) = NFS4_OK \<longleftrightarrow> accepts scan False (drop 2 np)"
        by (rule 2(3) [OF nz(1) h(1) three(3) h(2,3) False drops])
      moreover have "accepts scan first (c # np) \<longleftrightarrow> accepts scan False (drop 2 np)"
        by (rule accepts_skip [OF well_formed_three [OF three(1,2)] False k b])
      ultimately show ?thesis by (simp only: f False if_False)
    qed (use three f well_formed_three [OF three(1,2)] in \<open>simp add: accepts_def\<close>)
  next
    case four
    have k: "0x80 \<le> unat c" using four(1) by simp
    have h: "\<not> c < 0x80" "c AND 0xe0 \<noteq> 0xc0" "c AND 0xf0 \<noteq> 0xe0" "c AND 0xf8 = 0xf0" using four(1,2) by (simp_all add: l)
    have f: "filter_loop scan first (c # np) = (if bad4 c np then NFS4ERR_INVAL else filter_loop scan False (drop 3 np))"
      by (simp only: filter_loop.simps h nz four(3) if_True if_False simp_thms)
    show ?thesis
    proof (cases "bad4 c np")
      case False
      then obtain b0 b1 b2 r where "np = b0 # b1 # b2 # r" "0x80 \<le> unat b0" "0x80 \<le> unat b1" "0x80 \<le> unat b2" using bad4_iff [OF four(1,2)] by blast
      then have b: "0x80 \<le> unat b" if "b \<in> set (take 3 np)" for b using that by auto
      have "filter_loop scan False (drop 3 np) = NFS4_OK \<longleftrightarrow> accepts scan False (drop 3 np)"
        by (rule 2(4) [OF nz(1) h(1) four(3) h(2,3,4) False drops])
      moreover have "accepts scan first (c # np) \<longleftrightarrow> accepts scan False (drop 3 np)"
        by (rule accepts_skip [OF well_formed_four [OF four(1,2)] False k b])
      ultimately show ?thesis by (simp only: f False if_False)
    qed (use four f well_formed_four [OF four(1,2)] in \<open>simp add: accepts_def\<close>)
  next
    case other
    have "\<not> c < 0x80" "c AND 0xe0 \<noteq> 0xc0" "c AND 0xf0 \<noteq> 0xe0" "c AND 0xf8 \<noteq> 0xf0" using other(1,2) by (auto simp: l)
    then have "filter_loop scan first (c # np) = NFS4ERR_INVAL" using nz other(3) by simp
    then show ?thesis using other well_formed_other [OF other(1,2)] by (simp add: accepts_def)
  qed
qed

lemma path_filter_ok: "0 \<notin> set name \<Longrightarrow> path_filter name scan = NFS4_OK \<longleftrightarrow> accepts scan True name"
  by (simp add: path_filter_def filter_loop_ok)

section \<open>Which rule is broken\<close>

text \<open>A step of the scanner after the first byte: \<open>malformed\<close> is its verdict on a sequence, \<open>tail_len\<close> what it skips.\<close>

definition malformed :: "u8 \<Rightarrow> u8 list \<Rightarrow> bool" where
  "malformed c np \<longleftrightarrow>
     (if c AND 0xe0 = 0xc0 then bad2 c np else if c AND 0xf0 = 0xe0 then bad3 c np else c AND 0xf8 = 0xf0 \<longrightarrow> bad4 c np)"

definition tail_len :: "u8 \<Rightarrow> nat" where
  "tail_len c = (if c AND 0xe0 = 0xc0 then 1 else if c AND 0xf0 = 0xe0 then 2 else 3)"

lemma filter_loop_step:
  assumes "c \<noteq> 0"
  shows "filter_loop scan False (c # np) =
    (if c = 0x2f \<and> scan AND UTF8_SCAN_NOSLASH \<noteq> 0 then NFS4ERR_BADCHAR
     else if \<not> c < 0x80 \<and> scan AND UTF8_SCAN_CKUTF8 \<noteq> 0
     then if malformed c np then NFS4ERR_INVAL else filter_loop scan False (drop (tail_len c) np)
     else filter_loop scan False np)"
  using assms by (auto simp: malformed_def tail_len_def)

text \<open>The part of a string before its first slash.\<close>

abbreviation before_slash :: "u8 list \<Rightarrow> u8 list" where
  "before_slash s \<equiv> takeWhile (\<lambda>c. c \<noteq> 0x2f) s"

lemma few_bytes:
  obtains "np = []" | b where "np = [b]" | b0 b1 where "np = [b0, b1]" | b0 b1 b2 r where "np = b0 # b1 # b2 # r"
  by (cases np; cases "tl np"; cases "tl (tl np)") auto

lemma malformed_before_slash: "malformed c (before_slash np) = malformed c np"
  by (cases rule: few_bytes [of np]) (auto simp: malformed_def bad2_def bad3_def bad4_def)

text \<open>The bytes that a sequence takes with it are not ASCII.\<close>

lemma taken_bytes: "\<not> malformed c np \<Longrightarrow> b \<in> set (take (tail_len c) np) \<Longrightarrow> 0x80 \<le> unat b"
  by (cases rule: few_bytes [of np])
    (auto simp: malformed_def tail_len_def bad2_def bad3_def bad4_def continuation_byte [rule_format] split: if_splits)

lemma drop_before_slash:
  assumes "\<And>b. b \<in> set (take n np) \<Longrightarrow> 0x80 \<le> unat b"
  shows "drop n (before_slash np) = before_slash (drop n np)"
proof -
  have "\<forall>b \<in> set (take n np). b \<noteq> 0x2f" using assms by force
  then have "before_slash (take n np @ drop n np) = take n np @ before_slash (drop n np)" by (intro takeWhile_append2) blast
  moreover have "drop n (take n np @ before_slash (drop n np)) = before_slash (drop n np)" by (cases "n \<le> length np") simp_all
  ultimately show ?thesis by simp
qed

lemma filter_loop_no_slash:
  "0 \<notin> set s \<Longrightarrow> scan AND UTF8_SCAN_NOSLASH = 0 \<or> 0x2f \<notin> set s \<Longrightarrow> filter_loop scan False s \<in> {NFS4_OK, NFS4ERR_INVAL}"
proof (induction "length s" arbitrary: s rule: less_induct)
  case less
  show ?case
  proof (cases s)
    case (Cons c np)
    have "filter_loop scan False (drop n np) \<in> {NFS4_OK, NFS4ERR_INVAL}" for n
      using less Cons in_set_dropD [of _ n np] by (intro less(1)) auto
    from this [of 0] this [of "tail_len c"] show ?thesis
      using less.prems Cons filter_loop_step [of c scan np] by auto
  qed simp
qed

lemma filter_loop_slash:
  "scan AND UTF8_SCAN_NOSLASH \<noteq> 0 \<Longrightarrow> 0 \<notin> set s \<Longrightarrow> 0x2f \<in> set s \<Longrightarrow>
   filter_loop scan False s = (if filter_loop scan False (before_slash s) = NFS4_OK then NFS4ERR_BADCHAR else NFS4ERR_INVAL)"
proof (induction "length s" arbitrary: s rule: less_induct)
  case less
  then obtain c np where s: "s = c # np" and nz: "c \<noteq> 0" "0 \<notin> set np" by (cases s) auto
  have IH: "filter_loop scan False (drop n np) = (if filter_loop scan False (before_slash (drop n np)) = NFS4_OK then NFS4ERR_BADCHAR else NFS4ERR_INVAL)"
    if "0x2f \<in> set (drop n np)" for n
    using less.prems(1) that nz(2) in_set_dropD [of 0 n np] s by (intro less(1)) auto
  note step = filter_loop_step [OF nz(1), of scan]
  show ?case
  proof (cases "c = 0x2f")
    case True
    then show ?thesis using less.prems(1) by (simp add: s)
  next
    case False
    then have in_np: "0x2f \<in> set np" and b: "before_slash s = c # before_slash np" using less.prems(3) s by auto
    show ?thesis
    proof (cases "\<not> c < 0x80 \<and> scan AND UTF8_SCAN_CKUTF8 \<noteq> 0")
      case True
      show ?thesis
      proof (cases "malformed c np")
        case w: True
        have "NFS4ERR_INVAL \<noteq> NFS4_OK" by simp
        then show ?thesis
          by (simp only: b) (simp only: s step False True w malformed_before_slash simp_thms if_False if_True)
      next
        case w: False
        note t = taken_bytes [OF w]
        have "0x2f \<in> set (drop (tail_len c) np)" using in_np slash_beyond [OF t] by blast
        from IH [OF this] show ?thesis
          by (simp only: b) (simp only: s step False True w malformed_before_slash drop_before_slash [OF t] simp_thms if_False if_True)
      qed
    next
      case ascii: False
      show ?thesis using IH [of 0] in_np
        by (simp only: b) (simp only: s step False ascii simp_thms if_False drop_0)
    qed
  qed
qed

text \<open>The names that are refused for what they are.\<close>

lemma filter_loop_first:
  assumes "0 \<notin> set s"
  shows "filter_loop scan True s =
    (if scan AND UTF8_SCAN_NODOT \<noteq> 0 \<and> s \<in> {[0x2e], [0x2e, 0x2e]} then NFS4ERR_BADNAME else filter_loop scan False s)"
proof (cases s)
  case (Cons c np)
  then have "0 \<notin> set np" using assms by simp
  note oct_end [OF this]
  then show ?thesis using assms Cons by (cases "c = 0x2e") auto
qed simp

text \<open>
  C16: the verdict of the scanner on a string, for every combination of the scan flags.  It refuses the two
  dot names as bad names, where these are refused.  Otherwise it refuses a string with a slash for its bad character, where slashes
  are refused, if the bytes before the first slash are encodings of code points or UTF-8 is not checked.  Otherwise it
  refuses the string as invalid exactly if UTF-8 is checked and the string is not made of encodings of code points, or the
  part before its first slash is not.  What is left is accepted.
\<close>

theorem path_filter_exact:
  assumes "0 \<notin> set name"
  shows "path_filter name scan =
    (let encodings = (\<lambda>s. \<exists>us. (\<forall>u\<in>set us. code_point u) \<and> s = utf8 us);
         slash = (scan AND UTF8_SCAN_NOSLASH \<noteq> 0 \<and> 0x2f \<in> set name);
         checked = (scan AND UTF8_SCAN_CKUTF8 \<noteq> 0)
     in if scan AND UTF8_SCAN_NODOT \<noteq> 0 \<and> (name = [0x2e] \<or> name = [0x2e, 0x2e]) then NFS4ERR_BADNAME
        else if slash \<and> (checked \<longrightarrow> encodings (takeWhile (\<lambda>c. c \<noteq> 0x2f) name)) then NFS4ERR_BADCHAR
        else if slash \<or> checked \<and> \<not> encodings name then NFS4ERR_INVAL
        else NFS4_OK)"
proof -
  have w: "0x2f \<notin> set (before_slash name)" "0 \<notin> set (before_slash name)" using assms by (auto dest: set_takeWhileD)
  have "filter_loop scan False name =
    (if scan AND UTF8_SCAN_NOSLASH \<noteq> 0 \<and> 0x2f \<in> set name
     then if scan AND UTF8_SCAN_CKUTF8 \<noteq> 0 \<longrightarrow> well_formed (before_slash name) then NFS4ERR_BADCHAR else NFS4ERR_INVAL
     else if scan AND UTF8_SCAN_CKUTF8 \<noteq> 0 \<longrightarrow> well_formed name then NFS4_OK else NFS4ERR_INVAL)"
    using filter_loop_slash [of scan name] filter_loop_no_slash [of name scan] filter_loop_ok [OF w(2), of scan False]
      filter_loop_ok [OF assms, of scan False] assms w(1) by (auto simp: accepts_def)
  then show ?thesis unfolding path_filter_def filter_loop_first [OF assms] well_formed_def [symmetric] Let_def by auto
qed

theorem path_filter_exact_witness:
  "path_filter [0x61, 0xe2, 0x82, 0xac] UTF8_SCAN_ALL = NFS4_OK \<and> path_filter [0xe2, 0x82, 0xac, 0x2f, 0xff] UTF8_SCAN_ALL = NFS4ERR_BADCHAR \<and>
   path_filter [0x2e, 0x2e] UTF8_SCAN_ALL = NFS4ERR_BADNAME \<and> path_filter [0xed, 0xa0, 0x80] UTF8_SCAN_CKUTF8 = NFS4ERR_INVAL \<and>
   (\<nexists>us. (\<forall>u\<in>set us. code_point u) \<and> [0xed, 0xa0, 0x80] = utf8 us)"
proof -
  have e: "\<exists>us. (\<forall>u\<in>set us. code_point u) \<and> [0x61, 0xe2, 0x82, 0xac] = utf8 us"
    by (rule exI [of _ "[0x61, 0x20ac]"]) (simp add: code_point_def utf8_def octets_def)
  have e2: "\<exists>us. (\<forall>u\<in>set us. code_point u) \<and> [0xe2, 0x82, 0xac] = utf8 us"
    by (rule exI [of _ "[0x20ac]"]) (simp add: code_point_def utf8_def octets_def)
  have "path_filter [0x61, 0xe2, 0x82, 0xac] UTF8_SCAN_ALL = NFS4_OK"
    using path_filter_exact [of "[0x61, 0xe2, 0x82, 0xac]" UTF8_SCAN_ALL] e by (simp add: Let_def)
  moreover have "path_filter [0xe2, 0x82, 0xac, 0x2f, 0xff] UTF8_SCAN_ALL = NFS4ERR_BADCHAR"
    using path_filter_exact [of "[0xe2, 0x82, 0xac, 0x2f, 0xff]" UTF8_SCAN_ALL] e2
    by (simp add: Let_def UTF8_SCAN_ALL_def UTF8_SCAN_NOSLASH_def)
  moreover have "path_filter [0x2e, 0x2e] UTF8_SCAN_ALL = NFS4ERR_BADNAME"
    using path_filter_exact [of "[0x2e, 0x2e]" UTF8_SCAN_ALL] by (simp add: Let_def UTF8_SCAN_ALL_def UTF8_SCAN_NODOT_def)
  moreover have p: "path_filter [0xed, 0xa0, 0x80] UTF8_SCAN_CKUTF8 = NFS4ERR_INVAL" by code_simp
  moreover have "\<nexists>us. (\<forall>u\<in>set us. code_point u) \<and> [0xed, 0xa0, 0x80] = utf8 us"
    using path_filter_exact [of "[0xed, 0xa0, 0x80]" UTF8_SCAN_CKUTF8] p
    by (simp add: Let_def UTF8_SCAN_CKUTF8_def UTF8_SCAN_NOSLASH_def UTF8_SCAN_NODOT_def split: if_splits)
  ultimately show ?thesis by blast
qed

text \<open>
  The name that is handed on ends at the first NUL of the string received; nothing after it is
  scanned, and a string that begins with a NUL passes as the empty name.
\<close>

lemma nfs4_utf8string2dynamic_name:
  "nfs4_utf8string2dynamic True (Some s) UTF8_SCAN_ALL = (NFS4_OK, Some n) \<longleftrightarrow>
     s \<noteq> [] \<and> length s \<le> MAXNAMLEN \<and> n = c_string s \<and> well_formed n \<and> 0x2f \<notin> set n \<and> n \<notin> {[0x2e], [0x2e, 0x2e]}"
proof -
  have "0 \<notin> set (c_string s)" by (auto simp: c_string_def dest: set_takeWhileD)
  then have "path_filter (c_string s) UTF8_SCAN_ALL = NFS4_OK \<longleftrightarrow>
      well_formed (c_string s) \<and> 0x2f \<notin> set (c_string s) \<and> c_string s \<notin> {[0x2e], [0x2e, 0x2e]}"
    by (simp add: path_filter_ok accepts_def UTF8_SCAN_ALL_def UTF8_SCAN_CKUTF8_def UTF8_SCAN_NOSLASH_def UTF8_SCAN_NODOT_def)
  then show ?thesis
    by (auto simp: nfs4_utf8string2dynamic_def Let_def UTF8_SCAN_NONE_def UTF8_SCAN_ALL_def)
qed

lemma nul_hides_rest: "nfs4_utf8string2dynamic True (Some [0x61, 0, 0x2f, 0xff]) UTF8_SCAN_ALL = (NFS4_OK, Some [0x61])"
  "nfs4_utf8string2dynamic True (Some [0]) UTF8_SCAN_ALL = (NFS4_OK, Some [])"
  by code_simp+

end
