(* ===== verification/Fattr_Codec.thy ===== *)
theory Fattr_Codec
  imports Bitmap4 Tc_Api Error_Codes Fd_Table Utf8_Names
begin

text \<open>
  Attributes on the wire (\<^verbatim>\<open>Protocols/NFS/nfs_proto_tools.c\<close>): one function for each attribute of the
  protocol and each direction, the table that lists them, and the loops that pack the attributes a
  bitmap selects into a buffer, unpack them and compare two packed lists.

  The stream functions come from a library: a memory stream appends the external representation of an
  item if there is room for it, and reads an item if the bytes are there.  The representations
  themselves are parameters (\<open>rep_u32\<close> and the like), and so are the file system, the export and the
  mapping between identifiers and names.  A result \<open>None\<close> is a use of a null pointer or of a value that
  was never set.  A failed call may leave a part of an item in the stream; nothing reads it, since the
  callers then discard the stream or report the same error.
\<close>

unbundle bit_operations_syntax

section \<open>Attributes of an object\<close>

datatype object_file_type_t =
  NO_FILE_TYPE | REGULAR_FILE | CHARACTER_FILE | BLOCK_FILE | SYMBOLIC_LINK | SOCKET_FILE | FIFO_FILE | DIRECTORY
| EXTENDED_ATTR

record fsal_ace =
  ace_type :: u32
  ace_perm :: u32
  ace_flag :: u32
  ace_iflag :: u32
  ace_who :: u32

text \<open>An access control list is the array of its entries; \<open>None\<close> is the null pointer.\<close>

record attrlist =
  al_mask :: u64
  al_type :: object_file_type_t
  al_filesize :: u64
  al_fsid :: "u64 \<times> u64"
  al_acl :: "fsal_ace list option"
  al_fileid :: u64
  al_mode :: u32
  al_numlinks :: u32
  al_owner :: u64
  al_group :: u64
  al_rawdev :: "u64 \<times> u64"
  al_atime :: timespec
  al_creation :: timespec
  al_ctime :: timespec
  al_mtime :: timespec
  al_chgtime :: timespec
  al_spaceused :: u64
  al_change :: u64
  al_generation :: u64
  al_expire_time_attr :: int

definition ATTR_TYPE :: u64 where "ATTR_TYPE = 0x2"
definition ATTR_SIZE :: u64 where "ATTR_SIZE = 0x4"
definition ATTR_FSID :: u64 where "ATTR_FSID = 0x8"
definition ATTR4_SPACE_RESERVED :: u64 where "ATTR4_SPACE_RESERVED = 0x10"
definition ATTR_ACL :: u64 where "ATTR_ACL = 0x20"
definition ATTR_FILEID :: u64 where "ATTR_FILEID = 0x40"
definition ATTR_MODE :: u64 where "ATTR_MODE = 0x80"
definition ATTR_NUMLINKS :: u64 where "ATTR_NUMLINKS = 0x100"
definition ATTR_OWNER :: u64 where "ATTR_OWNER = 0x200"
definition ATTR_GROUP :: u64 where "ATTR_GROUP = 0x400"
definition ATTR_RAWDEV :: u64 where "ATTR_RAWDEV = 0x800"
definition ATTR_ATIME :: u64 where "ATTR_ATIME = 0x1000"
definition ATTR_CREATION :: u64 where "ATTR_CREATION = 0x2000"
definition ATTR_CTIME :: u64 where "ATTR_CTIME = 0x4000"
definition ATTR_MTIME :: u64 where "ATTR_MTIME = 0x8000"
definition ATTR_SPACEUSED :: u64 where "ATTR_SPACEUSED = 0x10000"
definition ATTR_CHGTIME :: u64 where "ATTR_CHGTIME = 0x40000"
definition ATTR_CHANGE :: u64 where "ATTR_CHANGE = 0x100000"
definition ATTR_ATIME_SERVER :: u64 where "ATTR_ATIME_SERVER = 0x200000"
definition ATTR_MTIME_SERVER :: u64 where "ATTR_MTIME_SERVER = 0x400000"

lemmas attr_masks = ATTR_TYPE_def ATTR_SIZE_def ATTR_FSID_def ATTR4_SPACE_RESERVED_def ATTR_ACL_def ATTR_FILEID_def
  ATTR_MODE_def ATTR_NUMLINKS_def ATTR_OWNER_def ATTR_GROUP_def ATTR_RAWDEV_def ATTR_ATIME_def ATTR_CREATION_def
  ATTR_CTIME_def ATTR_MTIME_def ATTR_SPACEUSED_def ATTR_CHGTIME_def ATTR_CHANGE_def ATTR_ATIME_SERVER_def
  ATTR_MTIME_SERVER_def

definition zero_time :: timespec where "zero_time = \<lparr>tv_sec = 0, tv_nsec = 0\<rparr>"

text \<open>\<^verbatim>\<open>struct attrlist x = {0}\<close>.\<close>

definition zero_attrlist :: attrlist where
  "zero_attrlist =
     \<lparr>al_mask = 0, al_type = NO_FILE_TYPE, al_filesize = 0, al_fsid = (0, 0), al_acl = None, al_fileid = 0, al_mode = 0,
      al_numlinks = 0, al_owner = 0, al_group = 0, al_rawdev = (0, 0), al_atime = zero_time, al_creation = zero_time,
      al_ctime = zero_time, al_mtime = zero_time, al_chgtime = zero_time, al_spaceused = 0, al_change = 0,
      al_generation = 0, al_expire_time_attr = 0\<rparr>"

definition fsal2unix_mode :: "u32 \<Rightarrow> u32" where
  "fsal2unix_mode fsal_mode = fsal_mode AND (NOT 0xf000 AND 0xFFFF)"

definition unix2fsal_mode :: "u32 \<Rightarrow> u32" where
  "unix2fsal_mode unix_mode = unix_mode AND (NOT 0xf000 AND 0xFFFF)"

record fsal_dynamicfsinfo_t =
  di_total_bytes :: u64
  di_free_bytes :: u64
  di_avail_bytes :: u64
  di_total_files :: u64
  di_free_files :: u64
  di_avail_files :: u64
  di_time_delta :: timespec

datatype fsal_fsinfo_options_t =
  fso_no_trunc | fso_chown_restricted | fso_case_insensitive | fso_case_preserving | fso_link_support
| fso_symlink_support | fso_lock_support | fso_lock_support_owner | fso_lock_support_async_block | fso_named_attr
| fso_unique_handles | fso_cansettime | fso_homogenous | fso_auth_exportpath_xdev | fso_delegations
| fso_accesscheck_support | fso_share_support | fso_share_support_owner | fso_pnfs_ds_supported | fso_reopen_method

section \<open>Surroundings\<close>

text \<open>
  What the functions below take from elsewhere: the external representation of integers and
  how it is read; the names of users and groups; the answers of the file system of the export;
  the options of the export and of the server.  \<open>export_fsid\<close> is \<open>None\<close> unless the export sets it,
  \<open>statfs\<close> is \<open>None\<close> if the call fails.
\<close>

record fattr_env =
  rep_u32 :: "u32 \<Rightarrow> char list"
  val_u32 :: "char list \<Rightarrow> u32"
  rep_u64 :: "u64 \<Rightarrow> char list"
  val_u64 :: "char list \<Rightarrow> u64"
  uid_name :: "u32 \<Rightarrow> char list option"
  gid_name :: "u32 \<Rightarrow> char list option"
  name2uid :: "char list \<Rightarrow> u32 \<Rightarrow> u32 option"
  name2gid :: "char list \<Rightarrow> u32 \<Rightarrow> u32 option"
  acl_new_entry :: "fsal_ace list \<Rightarrow> bool"
  fs_supports :: "fsal_fsinfo_options_t \<Rightarrow> bool"
  fs_acl_support :: u32
  fs_maxfilesize :: u64
  fs_maxlink :: u32
  fs_maxnamelen :: u32
  fs_layouttypes :: "u32 list"
  fs_layout_blocksize :: u32
  export_fsid :: "(u64 \<times> u64) option"
  export_MaxRead :: u64
  export_MaxWrite :: u64
  anonymous_uid :: u32
  anonymous_gid :: u32
  lease_lifetime :: u32
  statfs :: "fsal_dynamicfsinfo_t option"

text \<open>
  \<open>xa_data\<close> is \<open>None\<close> for a null pointer, and says otherwise whether there is a current entry.
\<close>

record xdr_attrs_args =
  xa_attrs :: "attrlist option"
  xa_hdl4 :: "nfs_fh4 option"
  xa_rdattr_error :: u32
  xa_mounted_on_fileid :: u64
  xa_nfs_status :: nfsstat4
  xa_data :: "bool option"
  xa_statfscalled :: bool
  xa_dynamicinfo :: "fsal_dynamicfsinfo_t option"

datatype fattr_xdr_result = FATTR_XDR_NOOP | FATTR_XDR_SUCCESS | FATTR_XDR_SUCCESS_EXP | FATTR_XDR_FAILED | FATTR_BADOWNER

text \<open>A stream that is written: the bytes so far and the size of the buffer; and one that is read.\<close>

record xdr_out =
  xo_bytes :: "char list"
  xo_size :: nat

record xdr_in =
  xi_bytes :: "char list"
  xi_pos :: nat

definition emit :: "char list \<Rightarrow> xdr_out \<Rightarrow> xdr_out option" where
  "emit bs x = (if length (xo_bytes x) + length bs \<le> xo_size x then Some (x\<lparr>xo_bytes := xo_bytes x @ bs\<rparr>) else None)"

definition take_bytes :: "nat \<Rightarrow> xdr_in \<Rightarrow> (char list \<times> xdr_in) option" where
  "take_bytes n x =
     (if xi_pos x + n \<le> length (xi_bytes x)
      then Some (take n (drop (xi_pos x) (xi_bytes x)), x\<lparr>xi_pos := xi_pos x + n\<rparr>) else None)"

definition get_u32 :: "fattr_env \<Rightarrow> xdr_in \<Rightarrow> (u32 \<times> xdr_in) option" where
  "get_u32 E x = do { (bs, x') \<leftarrow> take_bytes 4 x; Some (val_u32 E bs, x') }"

definition get_u64 :: "fattr_env \<Rightarrow> xdr_in \<Rightarrow> (u64 \<times> xdr_in) option" where
  "get_u64 E x = do { (bs, x') \<leftarrow> take_bytes 8 x; Some (val_u64 E bs, x') }"

definition rep_bool :: "fattr_env \<Rightarrow> bool \<Rightarrow> char list" where
  "rep_bool E b = rep_u32 E (if b then 1 else 0)"

text \<open>A counted string: its length, its bytes, and zeros up to a multiple of four.\<close>

definition pad4 :: "nat \<Rightarrow> nat" where
  "pad4 n = (if n mod 4 = 0 then 0 else 4 - n mod 4)"

definition rep_bytes :: "fattr_env \<Rightarrow> char list \<Rightarrow> char list" where
  "rep_bytes E s = rep_u32 E (word_of_nat (length s)) @ s @ replicate (pad4 (length s)) NUL"

definition get_bytes :: "fattr_env \<Rightarrow> nat \<Rightarrow> xdr_in \<Rightarrow> (char list \<times> xdr_in) option" where
  "get_bytes E maxsize x = do {
     (len, x1) \<leftarrow> get_u32 E x;
     if unat len > maxsize then None else do {
       (bs, x2) \<leftarrow> take_bytes (unat len) x1;
       (z, x3) \<leftarrow> take_bytes (pad4 (unat len)) x2;
       Some (bs, x3) } }"

type_synonym encoder = "fattr_env \<Rightarrow> xdr_attrs_args \<Rightarrow> xdr_out \<Rightarrow> (fattr_xdr_result \<times> xdr_attrs_args \<times> xdr_out) option"
type_synonym decoder = "fattr_env \<Rightarrow> xdr_attrs_args \<Rightarrow> xdr_in \<Rightarrow> (fattr_xdr_result \<times> xdr_attrs_args \<times> xdr_in) option"

text \<open>\<^verbatim>\<open>if (!xdr_...(xdr, ...)) return FATTR_XDR_FAILED; return FATTR_XDR_SUCCESS;\<close>\<close>

definition put :: "char list \<Rightarrow> xdr_attrs_args \<Rightarrow> xdr_out \<Rightarrow> (fattr_xdr_result \<times> xdr_attrs_args \<times> xdr_out) option" where
  "put bs args x =
     (case emit bs x of None \<Rightarrow> Some (FATTR_XDR_FAILED, args, x) | Some x' \<Rightarrow> Some (FATTR_XDR_SUCCESS, args, x'))"

definition get_attr ::
  "('v \<times> xdr_in) option \<Rightarrow> ('v \<Rightarrow> attrlist \<Rightarrow> attrlist) \<Rightarrow> xdr_attrs_args \<Rightarrow> xdr_in \<Rightarrow>
   (fattr_xdr_result \<times> xdr_attrs_args \<times> xdr_in) option" where
  "get_attr r upd args x =
     (case r of
        None \<Rightarrow> Some (FATTR_XDR_FAILED, args, x)
      | Some (v, x') \<Rightarrow> do { a \<leftarrow> xa_attrs args; Some (FATTR_XDR_SUCCESS, args\<lparr>xa_attrs := Some (upd v a)\<rparr>, x') })"

definition get_info ::
  "(u64 \<times> xdr_in) option \<Rightarrow> (u64 \<Rightarrow> fsal_dynamicfsinfo_t \<Rightarrow> fsal_dynamicfsinfo_t) \<Rightarrow> xdr_attrs_args \<Rightarrow> xdr_in \<Rightarrow>
   (fattr_xdr_result \<times> xdr_attrs_args \<times> xdr_in) option" where
  "get_info r upd args x =
     (case r of
        None \<Rightarrow> Some (FATTR_XDR_FAILED, args, x)
      | Some (v, x') \<Rightarrow> do { d \<leftarrow> xa_dynamicinfo args; Some (FATTR_XDR_SUCCESS, args\<lparr>xa_dynamicinfo := Some (upd v d)\<rparr>, x') })"

definition encode_noop :: encoder where "encode_noop E args x = Some (FATTR_XDR_NOOP, args, x)"
definition decode_noop :: decoder where "decode_noop E args x = Some (FATTR_XDR_NOOP, args, x)"

text \<open>An option of the file system, \<^verbatim>\<open>FALSE\<close> without compound data.\<close>

definition supports :: "fattr_env \<Rightarrow> xdr_attrs_args \<Rightarrow> fsal_fsinfo_options_t \<Rightarrow> bool" where
  "supports E args opt \<longleftrightarrow> xa_data args \<noteq> None \<and> fs_supports E opt"

definition anon :: "xdr_attrs_args \<Rightarrow> u32 \<Rightarrow> u32" where
  "anon args a = (if xa_data args \<noteq> None then a else - 1)"

section \<open>Encoders and decoders\<close>

text \<open>The numbers of the attributes.\<close>

abbreviation (input) FATTR4_SUPPORTED_ATTRS :: nat where "FATTR4_SUPPORTED_ATTRS \<equiv> 0"
abbreviation (input) FATTR4_TYPE :: nat where "FATTR4_TYPE \<equiv> 1"
abbreviation (input) FATTR4_FH_EXPIRE_TYPE :: nat where "FATTR4_FH_EXPIRE_TYPE \<equiv> 2"
abbreviation (input) FATTR4_CHANGE :: nat where "FATTR4_CHANGE \<equiv> 3"
abbreviation (input) FATTR4_SIZE :: nat where "FATTR4_SIZE \<equiv> 4"
abbreviation (input) FATTR4_LINK_SUPPORT :: nat where "FATTR4_LINK_SUPPORT \<equiv> 5"
abbreviation (input) FATTR4_SYMLINK_SUPPORT :: nat where "FATTR4_SYMLINK_SUPPORT \<equiv> 6"
abbreviation (input) FATTR4_NAMED_ATTR :: nat where "FATTR4_NAMED_ATTR \<equiv> 7"
abbreviation (input) FATTR4_FSID :: nat where "FATTR4_FSID \<equiv> 8"
abbreviation (input) FATTR4_UNIQUE_HANDLES :: nat where "FATTR4_UNIQUE_HANDLES \<equiv> 9"
abbreviation (input) FATTR4_LEASE_TIME :: nat where "FATTR4_LEASE_TIME \<equiv> 10"
abbreviation (input) FATTR4_RDATTR_ERROR :: nat where "FATTR4_RDATTR_ERROR \<equiv> 11"
abbreviation (input) FATTR4_ACL :: nat where "FATTR4_ACL \<equiv> 12"
abbreviation (input) FATTR4_ACLSUPPORT :: nat where "FATTR4_ACLSUPPORT \<equiv> 13"
abbreviation (input) FATTR4_ARCHIVE :: nat where "FATTR4_ARCHIVE \<equiv> 14"
abbreviation (input) FATTR4_CANSETTIME :: nat where "FATTR4_CANSETTIME \<equiv> 15"
abbreviation (input) FATTR4_CASE_INSENSITIVE :: nat where "FATTR4_CASE_INSENSITIVE \<equiv> 16"
abbreviation (input) FATTR4_CASE_PRESERVING :: nat where "FATTR4_CASE_PRESERVING \<equiv> 17"
abbreviation (input) FATTR4_CHOWN_RESTRICTED :: nat where "FATTR4_CHOWN_RESTRICTED \<equiv> 18"
abbreviation (input) FATTR4_FILEHANDLE :: nat where "FATTR4_FILEHANDLE \<equiv> 19"
abbreviation (input) FATTR4_FILEID :: nat where "FATTR4_FILEID \<equiv> 20"
abbreviation (input) FATTR4_FILES_AVAIL :: nat where "FATTR4_FILES_AVAIL \<equiv> 21"
abbreviation (input) FATTR4_FILES_FREE :: nat where "FATTR4_FILES_FREE \<equiv> 22"
abbreviation (input) FATTR4_FILES_TOTAL :: nat where "FATTR4_FILES_TOTAL \<equiv> 23"
abbreviation (input) FATTR4_FS_LOCATIONS :: nat where "FATTR4_FS_LOCATIONS \<equiv> 24"
abbreviation (input) FATTR4_HIDDEN :: nat where "FATTR4_HIDDEN \<equiv> 25"
abbreviation (input) FATTR4_HOMOGENEOUS :: nat where "FATTR4_HOMOGENEOUS \<equiv> 26"
abbreviation (input) FATTR4_MAXFILESIZE :: nat where "FATTR4_MAXFILESIZE \<equiv> 27"
abbreviation (input) FATTR4_MAXLINK :: nat where "FATTR4_MAXLINK \<equiv> 28"
abbreviation (input) FATTR4_MAXNAME :: nat where "FATTR4_MAXNAME \<equiv> 29"
abbreviation (input) FATTR4_MAXREAD :: nat where "FATTR4_MAXREAD \<equiv> 30"
abbreviation (input) FATTR4_MAXWRITE :: nat where "FATTR4_MAXWRITE \<equiv> 31"
abbreviation (input) FATTR4_MIMETYPE :: nat where "FATTR4_MIMETYPE \<equiv> 32"
abbreviation (input) FATTR4_MODE :: nat where "FATTR4_MODE \<equiv> 33"
abbreviation (input) FATTR4_NO_TRUNC :: nat where "FATTR4_NO_TRUNC \<equiv> 34"
abbreviation (input) FATTR4_NUMLINKS :: nat where "FATTR4_NUMLINKS \<equiv> 35"
abbreviation (input) FATTR4_OWNER :: nat where "FATTR4_OWNER \<equiv> 36"
abbreviation (input) FATTR4_OWNER_GROUP :: nat where "FATTR4_OWNER_GROUP \<equiv> 37"
abbreviation (input) FATTR4_QUOTA_AVAIL_HARD :: nat where "FATTR4_QUOTA_AVAIL_HARD \<equiv> 38"
abbreviation (input) FATTR4_QUOTA_AVAIL_SOFT :: nat where "FATTR4_QUOTA_AVAIL_SOFT \<equiv> 39"
abbreviation (input) FATTR4_QUOTA_USED :: nat where "FATTR4_QUOTA_USED \<equiv> 40"
abbreviation (input) FATTR4_RAWDEV :: nat where "FATTR4_RAWDEV \<equiv> 41"
abbreviation (input) FATTR4_SPACE_AVAIL :: nat where "FATTR4_SPACE_AVAIL \<equiv> 42"
abbreviation (input) FATTR4_SPACE_FREE :: nat where "FATTR4_SPACE_FREE \<equiv> 43"
abbreviation (input) FATTR4_SPACE_TOTAL :: nat where "FATTR4_SPACE_TOTAL \<equiv> 44"
abbreviation (input) FATTR4_SPACE_USED :: nat where "FATTR4_SPACE_USED \<equiv> 45"
abbreviation (input) FATTR4_SYSTEM :: nat where "FATTR4_SYSTEM \<equiv> 46"
abbreviation (input) FATTR4_TIME_ACCESS :: nat where "FATTR4_TIME_ACCESS \<equiv> 47"
abbreviation (input) FATTR4_TIME_ACCESS_SET :: nat where "FATTR4_TIME_ACCESS_SET \<equiv> 48"
abbreviation (input) FATTR4_TIME_BACKUP :: nat where "FATTR4_TIME_BACKUP \<equiv> 49"
abbreviation (input) FATTR4_TIME_CREATE :: nat where "FATTR4_TIME_CREATE \<equiv> 50"
abbreviation (input) FATTR4_TIME_DELTA :: nat where "FATTR4_TIME_DELTA \<equiv> 51"
abbreviation (input) FATTR4_TIME_METADATA :: nat where "FATTR4_TIME_METADATA \<equiv> 52"
abbreviation (input) FATTR4_TIME_MODIFY :: nat where "FATTR4_TIME_MODIFY \<equiv> 53"
abbreviation (input) FATTR4_TIME_MODIFY_SET :: nat where "FATTR4_TIME_MODIFY_SET \<equiv> 54"
abbreviation (input) FATTR4_MOUNTED_ON_FILEID :: nat where "FATTR4_MOUNTED_ON_FILEID \<equiv> 55"
abbreviation (input) FATTR4_DIR_NOTIF_DELAY :: nat where "FATTR4_DIR_NOTIF_DELAY \<equiv> 56"
abbreviation (input) FATTR4_DIRENT_NOTIF_DELAY :: nat where "FATTR4_DIRENT_NOTIF_DELAY \<equiv> 57"
abbreviation (input) FATTR4_DACL :: nat where "FATTR4_DACL \<equiv> 58"
abbreviation (input) FATTR4_SACL :: nat where "FATTR4_SACL \<equiv> 59"
abbreviation (input) FATTR4_CHANGE_POLICY :: nat where "FATTR4_CHANGE_POLICY \<equiv> 60"
abbreviation (input) FATTR4_FS_STATUS :: nat where "FATTR4_FS_STATUS \<equiv> 61"
abbreviation (input) FATTR4_FS_LAYOUT_TYPES :: nat where "FATTR4_FS_LAYOUT_TYPES \<equiv> 62"
abbreviation (input) FATTR4_LAYOUT_HINT :: nat where "FATTR4_LAYOUT_HINT \<equiv> 63"
abbreviation (input) FATTR4_LAYOUT_TYPES :: nat where "FATTR4_LAYOUT_TYPES \<equiv> 64"
abbreviation (input) FATTR4_LAYOUT_BLKSIZE :: nat where "FATTR4_LAYOUT_BLKSIZE \<equiv> 65"
abbreviation (input) FATTR4_LAYOUT_ALIGNMENT :: nat where "FATTR4_LAYOUT_ALIGNMENT \<equiv> 66"
abbreviation (input) FATTR4_FS_LOCATIONS_INFO :: nat where "FATTR4_FS_LOCATIONS_INFO \<equiv> 67"
abbreviation (input) FATTR4_MDSTHRESHOLD :: nat where "FATTR4_MDSTHRESHOLD \<equiv> 68"
abbreviation (input) FATTR4_RETENTION_GET :: nat where "FATTR4_RETENTION_GET \<equiv> 69"
abbreviation (input) FATTR4_RETENTION_SET :: nat where "FATTR4_RETENTION_SET \<equiv> 70"
abbreviation (input) FATTR4_RETENTEVT_GET :: nat where "FATTR4_RETENTEVT_GET \<equiv> 71"
abbreviation (input) FATTR4_RETENTEVT_SET :: nat where "FATTR4_RETENTEVT_SET \<equiv> 72"
abbreviation (input) FATTR4_RETENTION_HOLD :: nat where "FATTR4_RETENTION_HOLD \<equiv> 73"
abbreviation (input) FATTR4_MODE_SET_MASKED :: nat where "FATTR4_MODE_SET_MASKED \<equiv> 74"
abbreviation (input) FATTR4_SUPPATTR_EXCLCREAT :: nat where "FATTR4_SUPPATTR_EXCLCREAT \<equiv> 75"
abbreviation (input) FATTR4_FS_CHARSET_CAP :: nat where "FATTR4_FS_CHARSET_CAP \<equiv> 76"
abbreviation (input) FATTR4_SPACE_RESERVED :: nat where "FATTR4_SPACE_RESERVED \<equiv> 77"
abbreviation (input) FATTR4_SPACE_FREED :: nat where "FATTR4_SPACE_FREED \<equiv> 78"
abbreviation (input) FATTR4_CHANGE_ATTR_TYPE :: nat where "FATTR4_CHANGE_ATTR_TYPE \<equiv> 79"
abbreviation (input) FATTR4_SEC_LABEL :: nat where "FATTR4_SEC_LABEL \<equiv> 80"
abbreviation (input) FATTR4_CHANGE_SEC_LABEL :: nat where "FATTR4_CHANGE_SEC_LABEL \<equiv> 81"
abbreviation (input) FATTR4_PROTECTION_TYPES :: nat where "FATTR4_PROTECTION_TYPES \<equiv> 82"

text \<open>Which attributes the table below calls supported.\<close>

definition FATTR4_MAX :: nat where "FATTR4_MAX = 82"

definition attr_supported :: "nat \<Rightarrow> bool" where
  "attr_supported n \<longleftrightarrow>
     n \<in> set [0, 1, 2, 3, 4, 5, 6, 7, 8, 9, 10, 11, 12, 13, 14, 15, 16, 17, 18, 19, 20, 21, 22, 23, 25, 26, 27,
           28, 29, 30, 31, 33, 34, 35, 36, 37, 41, 42, 43, 44, 45, 46, 47, 48, 51, 52, 53, 54, 55,
           62, 65, 75, 77]"

definition supported_bits :: "bitmap4 option" where
  "supported_bits =
     fold (\<lambda>attr b. do {
             bits \<leftarrow> b;
             if attr_supported attr
             then case set_attribute_in_bitmap bits attr of (res, bits') \<Rightarrow> if res then Some bits' else None
             else Some bits })
       [0..<FATTR4_MAX + 1] (Some \<lparr>bm_len = 0, bm_map0 = 0, bm_map1 = 0, bm_map2 = 0\<rparr>)"

definition rep_bitmap :: "fattr_env \<Rightarrow> bitmap4 \<Rightarrow> char list" where
  "rep_bitmap E bits =
     rep_u32 E (bm_len bits) @
     concat (map (rep_u32 E) (take (unat (bm_len bits)) [bm_map0 bits, bm_map1 bits, bm_map2 bits]))"

definition encode_supported_attrs :: encoder where
  "encode_supported_attrs E args x = do { bits \<leftarrow> supported_bits; put (rep_bitmap E bits) args x }"

definition NF4REG :: u32 where "NF4REG = 1"
definition NF4DIR_TYPE :: u32 where "NF4DIR_TYPE = 2"
definition NF4BLK :: u32 where "NF4BLK = 3"
definition NF4CHR :: u32 where "NF4CHR = 4"
definition NF4LNK_TYPE :: u32 where "NF4LNK_TYPE = 5"
definition NF4SOCK :: u32 where "NF4SOCK = 6"
definition NF4FIFO :: u32 where "NF4FIFO = 7"

lemmas ftype_defs = NF4REG_def NF4DIR_TYPE_def NF4BLK_def NF4CHR_def NF4LNK_TYPE_def NF4SOCK_def NF4FIFO_def

definition wire_type :: "object_file_type_t \<Rightarrow> u32 option" where
  "wire_type t =
     (case t of
        REGULAR_FILE \<Rightarrow> Some NF4REG | EXTENDED_ATTR \<Rightarrow> Some NF4REG | DIRECTORY \<Rightarrow> Some NF4DIR_TYPE
      | BLOCK_FILE \<Rightarrow> Some NF4BLK | CHARACTER_FILE \<Rightarrow> Some NF4CHR | SYMBOLIC_LINK \<Rightarrow> Some NF4LNK_TYPE
      | SOCKET_FILE \<Rightarrow> Some NF4SOCK | FIFO_FILE \<Rightarrow> Some NF4FIFO | NO_FILE_TYPE \<Rightarrow> None)"

definition type_wire :: "u32 \<Rightarrow> object_file_type_t option" where
  "type_wire t =
     (if t = NF4REG then Some REGULAR_FILE else if t = NF4DIR_TYPE then Some DIRECTORY
      else if t = NF4BLK then Some BLOCK_FILE else if t = NF4CHR then Some CHARACTER_FILE
      else if t = NF4LNK_TYPE then Some SYMBOLIC_LINK else if t = NF4SOCK then Some SOCKET_FILE
      else if t = NF4FIFO then Some FIFO_FILE else None)"

definition encode_type :: encoder where
  "encode_type E args x = do {
     a \<leftarrow> xa_attrs args;
     case wire_type (al_type a) of
       None \<Rightarrow> Some (FATTR_XDR_FAILED, args, x)
     | Some file_type \<Rightarrow> put (rep_u32 E file_type) args x }"

definition decode_type :: decoder where
  "decode_type E args x =
     (case get_u32 E x of
        None \<Rightarrow> Some (FATTR_XDR_FAILED, args, x)
      | Some (t, x') \<Rightarrow>
          (case type_wire t of
             None \<Rightarrow> Some (FATTR_XDR_FAILED, args, x')
           | Some ty \<Rightarrow> do { a \<leftarrow> xa_attrs args; Some (FATTR_XDR_SUCCESS, args\<lparr>xa_attrs := Some (a\<lparr>al_type := ty\<rparr>)\<rparr>, x') }))"

definition encode_expiretype :: encoder where
  "encode_expiretype E args x = put (rep_u32 E 0) args x"

definition encode_change :: encoder where
  "encode_change E args x = do { a \<leftarrow> xa_attrs args; put (rep_u64 E (al_change a)) args x }"

definition decode_change :: decoder where
  "decode_change E args x =
     get_attr (get_u64 E x)
       (\<lambda>change a. a\<lparr>al_chgtime := \<lparr>tv_sec = uint (ucast change :: u32), tv_nsec = 0\<rparr>, al_change := change\<rparr>) args x"

definition encode_filesize :: encoder where
  "encode_filesize E args x = do { a \<leftarrow> xa_attrs args; put (rep_u64 E (al_filesize a)) args x }"

definition decode_filesize :: decoder where
  "decode_filesize E args x = get_attr (get_u64 E x) (\<lambda>v a. a\<lparr>al_filesize := v\<rparr>) args x"

definition encode_linksupport :: encoder where
  "encode_linksupport E args x = put (rep_bool E (supports E args fso_link_support)) args x"

definition encode_symlinksupport :: encoder where
  "encode_symlinksupport E args x = put (rep_bool E (supports E args fso_symlink_support)) args x"

definition encode_namedattrsupport :: encoder where
  "encode_namedattrsupport E args x = put (rep_bool E (supports E args fso_named_attr)) args x"

definition encode_fsid :: encoder where
  "encode_fsid E args x = do {
     a \<leftarrow> xa_attrs args;
     let fsid = (case export_fsid E of Some f \<Rightarrow> if xa_data args \<noteq> None then f else al_fsid a | None \<Rightarrow> al_fsid a);
     put (rep_u64 E (fst fsid) @ rep_u64 E (snd fsid)) args x }"

definition decode_fsid :: decoder where
  "decode_fsid E args x =
     get_attr (do { (major, x1) \<leftarrow> get_u64 E x; (minor, x2) \<leftarrow> get_u64 E x1; Some ((major, minor), x2) })
       (\<lambda>f a. a\<lparr>al_fsid := f\<rparr>) args x"

definition encode_uniquehandles :: encoder where
  "encode_uniquehandles E args x = put (rep_bool E (supports E args fso_unique_handles)) args x"

definition encode_leaselife :: encoder where
  "encode_leaselife E args x = put (rep_u32 E (lease_lifetime E)) args x"

definition encode_rdattr_error :: encoder where
  "encode_rdattr_error E args x = put (rep_u32 E (xa_rdattr_error args)) args x"

definition decode_rdattr_error :: decoder where
  "decode_rdattr_error E args x =
     (case get_u32 E x of
        None \<Rightarrow> Some (FATTR_XDR_FAILED, args, x)
      | Some (v, x') \<Rightarrow> Some (FATTR_XDR_SUCCESS, args\<lparr>xa_rdattr_error := v\<rparr>, x'))"

subsection \<open>Access control lists\<close>

definition FSAL_ACE_FLAG_GROUP_ID :: u32 where "FSAL_ACE_FLAG_GROUP_ID = 0x40"
definition FSAL_ACE_IFLAG_SPECIAL_ID :: u32 where "FSAL_ACE_IFLAG_SPECIAL_ID = 0x80000000"

definition IS_FSAL_ACE_GROUP_ID :: "fsal_ace \<Rightarrow> bool" where
  "IS_FSAL_ACE_GROUP_ID ace \<longleftrightarrow> ace_flag ace AND FSAL_ACE_FLAG_GROUP_ID \<noteq> 0"

definition IS_FSAL_ACE_SPECIAL_ID :: "fsal_ace \<Rightarrow> bool" where
  "IS_FSAL_ACE_SPECIAL_ID ace \<longleftrightarrow> ace_iflag ace AND FSAL_ACE_IFLAG_SPECIAL_ID \<noteq> 0"

definition whostr_2_type_map :: "(string \<times> u32) list" where
  "whostr_2_type_map = [(''OWNER@'', 1), (''GROUP@'', 2), (''EVERYONE@'', 3)]"

text \<open>
  The entries are written one after the other.  \<open>name\<close> is set once before the loop, so an entry with an
  unknown special identifier is written with the name of an earlier one.
\<close>

fun encode_aces :: "fattr_env \<Rightarrow> string option \<Rightarrow> fsal_ace list \<Rightarrow> xdr_out \<Rightarrow> xdr_out option" where
  "encode_aces E name [] x = Some x"
| "encode_aces E name (ace # aces) x = do {
     x1 \<leftarrow> emit (rep_u32 E (ace_type ace) @ rep_u32 E (ace_flag ace) @ rep_u32 E (ace_perm ace)) x;
     if IS_FSAL_ACE_SPECIAL_ID ace then do {
       let name' = (case find (\<lambda>(s, t). t = ace_who ace) whostr_2_type_map of Some (s, t) \<Rightarrow> Some s | None \<Rightarrow> name);
       s \<leftarrow> name';
       x2 \<leftarrow> (if length s \<le> MAXNAMLEN then emit (rep_bytes E s) x1 else None);
       encode_aces E name' aces x2 }
     else if IS_FSAL_ACE_GROUP_ID ace then do {
       s \<leftarrow> gid_name E (ace_who ace); x2 \<leftarrow> emit (rep_bytes E s) x1; encode_aces E name aces x2 }
     else do {
       s \<leftarrow> uid_name E (ace_who ace); x2 \<leftarrow> emit (rep_bytes E s) x1; encode_aces E name aces x2 } }"

definition encode_acl :: encoder where
  "encode_acl E args x = do {
     a \<leftarrow> xa_attrs args;
     case al_acl a of
       None \<Rightarrow> put (rep_u32 E 0) args x
     | Some aces \<Rightarrow>
         (case do { x1 \<leftarrow> emit (rep_u32 E (word_of_nat (length aces))) x; encode_aces E None aces x1 } of
            None \<Rightarrow> Some (FATTR_XDR_FAILED, args, x)
          | Some x' \<Rightarrow> Some (FATTR_XDR_SUCCESS, args, x')) }"

text \<open>\<^verbatim>\<open>strncmp(buffer, string, strlen(buffer)) == 0\<close>: the buffer is a prefix of the string.\<close>

definition special_who :: "string \<Rightarrow> u32" where
  "special_who buffer =
     (case find (\<lambda>(s, t). take (length buffer) s = buffer) whostr_2_type_map of Some (s, t) \<Rightarrow> t | None \<Rightarrow> 0)"

definition cstr :: "char list \<Rightarrow> string" where
  "cstr s = takeWhile (\<lambda>c. c \<noteq> NUL) s"

definition decode_ace :: "fattr_env \<Rightarrow> xdr_attrs_args \<Rightarrow> xdr_in \<Rightarrow> ((nfsstat4 \<times> xdr_in) + (fsal_ace \<times> xdr_in))" where
  "decode_ace E args x =
     (case do { (t, x1) \<leftarrow> get_u32 E x; (fl, x2) \<leftarrow> get_u32 E x1; (p, x3) \<leftarrow> get_u32 E x2;
                (s, x4) \<leftarrow> get_bytes E MAXNAMLEN x3; Some (t, fl, p, cstr s, x4) } of
        None \<Rightarrow> Inl (xa_nfs_status args, x)
      | Some (t, fl, p, buffer, x') \<Rightarrow>
          let ace = \<lparr>ace_type = t, ace_perm = p, ace_flag = fl, ace_iflag = 0, ace_who = 0\<rparr>; who = special_who buffer;
              r = (if who \<noteq> 0
                   then Some (ace\<lparr>ace_flag := fl AND NOT FSAL_ACE_FLAG_GROUP_ID,
                                  ace_iflag := FSAL_ACE_IFLAG_SPECIAL_ID, ace_who := who\<rparr>)
                   else if IS_FSAL_ACE_GROUP_ID ace
                   then map_option (\<lambda>g. ace\<lparr>ace_who := g\<rparr>) (name2gid E buffer (anon args (anonymous_gid E)))
                   else map_option (\<lambda>u. ace\<lparr>ace_who := u\<rparr>) (name2uid E buffer (anon args (anonymous_uid E))))
          in case r of
               None \<Rightarrow> Inl (xa_nfs_status args, x')
             | Some ace' \<Rightarrow> if ace_who ace' = - 1 then Inl (NFS4ERR_BADOWNER, x') else Inr (ace', x'))"

fun decode_aces :: "fattr_env \<Rightarrow> xdr_attrs_args \<Rightarrow> nat \<Rightarrow> xdr_in \<Rightarrow> ((nfsstat4 \<times> xdr_in) + (fsal_ace list \<times> xdr_in))" where
  "decode_aces E args 0 x = Inr ([], x)"
| "decode_aces E args (Suc n) x =
     (case decode_ace E args x of
        Inl e \<Rightarrow> Inl e
      | Inr (ace, x') \<Rightarrow> (case decode_aces E args n x' of Inl e \<Rightarrow> Inl e | Inr (aces, x'') \<Rightarrow> Inr (ace # aces, x'')))"

definition decode_acl :: decoder where
  "decode_acl E args x =
     (case get_u32 E x of
        None \<Rightarrow> Some (FATTR_XDR_FAILED, args, x)
      | Some (naces, x1) \<Rightarrow>
          if naces = 0 then Some (FATTR_XDR_SUCCESS, args, x1)
          else case decode_aces E args (unat naces) x1 of
                 Inl (st, x') \<Rightarrow> Some (FATTR_XDR_FAILED, args\<lparr>xa_nfs_status := st\<rparr>, x')
               | Inr (aces, x') \<Rightarrow>
                   if acl_new_entry E aces
                   then do { a \<leftarrow> xa_attrs args;
                             Some (FATTR_XDR_SUCCESS, args\<lparr>xa_attrs := Some (a\<lparr>al_acl := Some aces\<rparr>)\<rparr>, x') }
                   else do { a \<leftarrow> xa_attrs args;
                             Some (FATTR_XDR_FAILED,
                                   args\<lparr>xa_attrs := Some (a\<lparr>al_acl := None\<rparr>), xa_nfs_status := NFS4ERR_SERVERFAULT\<rparr>, x') })"

subsection \<open>Options of the file system\<close>

definition encode_aclsupport :: encoder where
  "encode_aclsupport E args x = put (rep_u32 E (if xa_data args \<noteq> None then fs_acl_support E else 0)) args x"

definition encode_archive :: encoder where
  "encode_archive E args x = put (rep_bool E False) args x"

definition encode_cansettime :: encoder where
  "encode_cansettime E args x = put (rep_bool E (supports E args fso_cansettime)) args x"

definition encode_case_insensitive :: encoder where
  "encode_case_insensitive E args x = put (rep_bool E (supports E args fso_case_insensitive)) args x"

definition encode_case_preserving :: encoder where
  "encode_case_preserving E args x = put (rep_bool E (supports E args fso_case_preserving)) args x"

definition encode_chown_restricted :: encoder where
  "encode_chown_restricted E args x = put (rep_bool E (supports E args fso_chown_restricted)) args x"

definition FHSIZE :: nat where "FHSIZE = 128"

definition encode_filehandle :: encoder where
  "encode_filehandle E args x =
     (case xa_hdl4 args of
        None \<Rightarrow> Some (FATTR_XDR_FAILED, args, x)
      | Some fh \<Rightarrow>
          (case nfs_fh4_val fh of
             None \<Rightarrow> Some (FATTR_XDR_FAILED, args, x)
           | Some val \<Rightarrow>
               if unat (nfs_fh4_len fh) > FHSIZE then Some (FATTR_XDR_FAILED, args, x)
               else put (rep_bytes E (take (unat (nfs_fh4_len fh)) val)) args x))"

text \<open>
  Without a handle to fill the bytes are skipped, but not the padding after them; positions
  are 32-bit numbers.
\<close>

definition xdr_setpos :: "xdr_in \<Rightarrow> u32 \<Rightarrow> xdr_in option" where
  "xdr_setpos x pos = (if unat pos \<le> length (xi_bytes x) then Some (x\<lparr>xi_pos := unat pos\<rparr>) else None)"

definition decode_filehandle :: decoder where
  "decode_filehandle E args x =
     (if (case xa_hdl4 args of None \<Rightarrow> True | Some fh \<Rightarrow> nfs_fh4_val fh = None) then
        (case get_u32 E x of
           None \<Rightarrow> Some (FATTR_XDR_FAILED, args, x)
         | Some (fhlen, x1) \<Rightarrow>
             (case xdr_setpos x1 (word_of_nat (xi_pos x1) + fhlen) of
                None \<Rightarrow> Some (FATTR_XDR_FAILED, args, x1)
              | Some x' \<Rightarrow> Some (FATTR_XDR_SUCCESS, args, x')))
      else
        (case get_bytes E FHSIZE x of
           None \<Rightarrow> Some (FATTR_XDR_FAILED, args, x)
         | Some (bs, x') \<Rightarrow>
             Some (FATTR_XDR_SUCCESS,
                   args\<lparr>xa_hdl4 := Some \<lparr>nfs_fh4_len = word_of_nat (length bs), nfs_fh4_val = Some bs\<rparr>\<rparr>, x')))"

definition encode_fileid :: encoder where
  "encode_fileid E args x = do { a \<leftarrow> xa_attrs args; put (rep_u64 E (al_fileid a)) args x }"

definition decode_fileid :: decoder where
  "decode_fileid E args x = get_attr (get_u64 E x) (\<lambda>v a. a\<lparr>al_fileid := v\<rparr>) args x"

text \<open>
  A failed \<^verbatim>\<open>statfs\<close> is reported by a value that the callers take for success, and what they then write was
  never set: \<open>None\<close>.
\<close>

definition encode_fetch_fsinfo :: "fattr_env \<Rightarrow> xdr_attrs_args \<Rightarrow> (bool \<times> xdr_attrs_args) option" where
  "encode_fetch_fsinfo E args =
     (case xa_data args of
        Some True \<Rightarrow>
          (case statfs E of
             None \<Rightarrow> Some (False, args)
           | Some d \<Rightarrow> Some (True, args\<lparr>xa_dynamicinfo := Some d, xa_statfscalled := True\<rparr>))
      | _ \<Rightarrow>
          Some (True, args\<lparr>xa_dynamicinfo := Some
                  \<lparr>di_total_bytes = 1024000, di_free_bytes = 512000, di_avail_bytes = 512000, di_total_files = 512,
                   di_free_files = 512, di_avail_files = 512,
                   di_time_delta = (case xa_dynamicinfo args of Some d \<Rightarrow> di_time_delta d | None \<Rightarrow> zero_time)\<rparr>,
                  xa_statfscalled := True\<rparr>))"

definition encode_info :: "(fsal_dynamicfsinfo_t \<Rightarrow> u64) \<Rightarrow> encoder" where
  "encode_info f E args x = do {
     (ok, args') \<leftarrow> (if xa_statfscalled args then Some (True, args) else encode_fetch_fsinfo E args);
     if ok then do { d \<leftarrow> xa_dynamicinfo args'; put (rep_u64 E (f d)) args' x } else None }"

definition encode_files_avail :: encoder where "encode_files_avail = encode_info di_avail_files"

definition decode_files_avail :: decoder where
  "decode_files_avail E args x = get_info (get_u64 E x) (\<lambda>v d. d\<lparr>di_avail_files := v\<rparr>) args x"

definition encode_files_free :: encoder where "encode_files_free = encode_info di_free_files"

definition decode_files_free :: decoder where
  "decode_files_free E args x = get_info (get_u64 E x) (\<lambda>v d. d\<lparr>di_free_files := v\<rparr>) args x"

definition encode_files_total :: encoder where "encode_files_total = encode_info di_total_files"

definition decode_files_total :: decoder where
  "decode_files_total E args x = get_info (get_u64 E x) (\<lambda>v d. d\<lparr>di_total_files := v\<rparr>) args x"

definition encode_fs_locations :: encoder where
  "encode_fs_locations E args x = Some (FATTR_XDR_SUCCESS, args, x)"

definition encode_hidden :: encoder where "encode_hidden E args x = put (rep_bool E False) args x"

definition encode_homogeneous :: encoder where
  "encode_homogeneous E args x = put (rep_bool E (supports E args fso_homogenous)) args x"

definition encode_maxfilesize :: encoder where
  "encode_maxfilesize E args x = put (rep_u64 E (if xa_data args \<noteq> None then fs_maxfilesize E else 0)) args x"

definition encode_maxlink :: encoder where
  "encode_maxlink E args x = put (rep_u32 E (if xa_data args \<noteq> None then fs_maxlink E else 0)) args x"

definition encode_maxname :: encoder where
  "encode_maxname E args x = put (rep_u32 E (if xa_data args \<noteq> None then fs_maxnamelen E else 0)) args x"

definition encode_maxread :: encoder where "encode_maxread E args x = put (rep_u64 E (export_MaxRead E)) args x"

definition encode_maxwrite :: encoder where "encode_maxwrite E args x = put (rep_u64 E (export_MaxWrite E)) args x"

definition encode_mimetype :: encoder where "encode_mimetype E args x = put (rep_bool E False) args x"

subsection \<open>Mode, links and owners\<close>

definition encode_mode :: encoder where
  "encode_mode E args x = do { a \<leftarrow> xa_attrs args; put (rep_u32 E (fsal2unix_mode (al_mode a))) args x }"

definition decode_mode :: decoder where
  "decode_mode E args x = get_attr (get_u32 E x) (\<lambda>v a. a\<lparr>al_mode := unix2fsal_mode v\<rparr>) args x"

definition encode_no_trunc :: encoder where
  "encode_no_trunc E args x = put (rep_bool E (supports E args fso_no_trunc)) args x"

definition encode_numlinks :: encoder where
  "encode_numlinks E args x = do { a \<leftarrow> xa_attrs args; put (rep_u32 E (al_numlinks a)) args x }"

definition decode_numlinks :: decoder where
  "decode_numlinks E args x = get_attr (get_u32 E x) (\<lambda>v a. a\<lparr>al_numlinks := v\<rparr>) args x"

definition encode_name :: "char list option \<Rightarrow> encoder" where
  "encode_name n E args x =
     (case n of None \<Rightarrow> Some (FATTR_XDR_FAILED, args, x) | Some s \<Rightarrow> put (rep_bytes E s) args x)"

definition encode_owner :: encoder where
  "encode_owner E args x = do { a \<leftarrow> xa_attrs args; encode_name (uid_name E (ucast (al_owner a))) E args x }"

text \<open>
  The name is read in place, which needs its bytes and not its padding; the new position is
  taken if it lies in the stream.
\<close>

definition inline_name :: "fattr_env \<Rightarrow> xdr_in \<Rightarrow> (char list \<times> xdr_in \<times> u32) option" where
  "inline_name E x = do {
     (len, x1) \<leftarrow> get_u32 E x;
     (bs, x2) \<leftarrow> take_bytes (unat len) x1;
     let newpos = word_of_nat (xi_pos x1) + len + (if len mod 4 \<noteq> 0 then 4 - len mod 4 else 0);
     Some (bs, x2, newpos) }"

definition try_setpos :: "xdr_in \<Rightarrow> u32 \<Rightarrow> xdr_in" where
  "try_setpos x pos = (case xdr_setpos x pos of None \<Rightarrow> x | Some x' \<Rightarrow> x')"

definition decode_owner :: decoder where
  "decode_owner E args x =
     (case inline_name E x of
        None \<Rightarrow> Some (FATTR_XDR_FAILED, args, x)
      | Some (name, x2, newpos) \<Rightarrow>
          (case name2uid E name (anon args (anonymous_uid E)) of
             None \<Rightarrow> Some (FATTR_BADOWNER, args, x2)
           | Some uid \<Rightarrow> do {
               a \<leftarrow> xa_attrs args;
               Some (FATTR_XDR_SUCCESS, args\<lparr>xa_attrs := Some (a\<lparr>al_owner := ucast uid\<rparr>)\<rparr>, try_setpos x2 newpos) }))"

definition encode_group :: encoder where
  "encode_group E args x = do { a \<leftarrow> xa_attrs args; encode_name (gid_name E (ucast (al_group a))) E args x }"

definition decode_group :: decoder where
  "decode_group E args x =
     (case inline_name E x of
        None \<Rightarrow> Some (FATTR_XDR_FAILED, args, x)
      | Some (name, x2, newpos) \<Rightarrow>
          (case name2gid E name (anon args (anonymous_gid E)) of
             None \<Rightarrow> Some (FATTR_BADOWNER, args, x2)
           | Some gid \<Rightarrow> do {
               a \<leftarrow> xa_attrs args;
               Some (FATTR_XDR_SUCCESS, args\<lparr>xa_attrs := Some (a\<lparr>al_group := ucast gid\<rparr>)\<rparr>, try_setpos x2 newpos) }))"

definition encode_quota_avail_hard :: encoder where
  "encode_quota_avail_hard E args x = put (rep_u64 E 17179869184) args x"

definition encode_quota_avail_soft :: encoder where
  "encode_quota_avail_soft E args x = put (rep_u64 E 4294967296) args x"

definition encode_quota_used :: encoder where
  "encode_quota_used E args x = do { a \<leftarrow> xa_attrs args; put (rep_u64 E (al_filesize a)) args x }"

text \<open>
  The two 32-bit numbers are written as the 64-bit number that shares their memory; on a
  little-endian machine its low half is the first of them.
\<close>

definition specdata :: "u64 \<times> u64 \<Rightarrow> u64" where
  "specdata d = (ucast (ucast (fst d) :: u32) :: u64) OR push_bit 32 (ucast (ucast (snd d) :: u32))"

definition encode_rawdev :: encoder where
  "encode_rawdev E args x = do { a \<leftarrow> xa_attrs args; put (rep_u64 E (specdata (al_rawdev a))) args x }"

definition decode_rawdev :: decoder where
  "decode_rawdev E args x =
     get_attr (get_u64 E x)
       (\<lambda>v a. a\<lparr>al_rawdev := (ucast (ucast v :: u32), ucast (ucast (drop_bit 32 v) :: u32))\<rparr>) args x"

definition encode_sace_avail :: encoder where "encode_sace_avail = encode_info di_avail_bytes"

definition decode_sace_avail :: decoder where
  "decode_sace_avail E args x = get_info (get_u64 E x) (\<lambda>v d. d\<lparr>di_avail_bytes := v\<rparr>) args x"

definition encode_sace_free :: encoder where "encode_sace_free = encode_info di_free_bytes"

definition decode_sace_free :: decoder where
  "decode_sace_free E args x = get_info (get_u64 E x) (\<lambda>v d. d\<lparr>di_free_bytes := v\<rparr>) args x"

definition encode_sace_total :: encoder where "encode_sace_total = encode_info di_total_bytes"

definition decode_sace_total :: decoder where
  "decode_sace_total E args x = get_info (get_u64 E x) (\<lambda>v d. d\<lparr>di_total_bytes := v\<rparr>) args x"

definition encode_spaceused :: encoder where
  "encode_spaceused E args x = do { a \<leftarrow> xa_attrs args; put (rep_u64 E (al_spaceused a)) args x }"

text \<open>The decoder returns \<^verbatim>\<open>TRUE\<close>, which has the value of success.\<close>

definition decode_spaceused :: decoder where
  "decode_spaceused E args x = get_attr (get_u64 E x) (\<lambda>v a. a\<lparr>al_spaceused := v\<rparr>) args x"

definition encode_system :: encoder where "encode_system E args x = put (rep_bool E False) args x"

subsection \<open>Times\<close>

definition rep_time :: "fattr_env \<Rightarrow> timespec \<Rightarrow> char list" where
  "rep_time E ts = rep_u64 E (word_of_int (tv_sec ts)) @ rep_u32 E (word_of_int (tv_nsec ts))"

definition encode_time :: "timespec \<Rightarrow> encoder" where
  "encode_time ts E args x = put (rep_time E ts) args x"

definition decode_time :: "(timespec \<Rightarrow> attrlist \<Rightarrow> attrlist) \<Rightarrow> decoder" where
  "decode_time upd E args x =
     (case do { (seconds, x1) \<leftarrow> get_u64 E x; (nseconds, x2) \<leftarrow> get_u32 E x1; Some (seconds, nseconds, x2) } of
        None \<Rightarrow> Some (FATTR_XDR_FAILED, args, x)
      | Some (seconds, nseconds, x') \<Rightarrow> do {
          a \<leftarrow> xa_attrs args;
          let args' = args\<lparr>xa_attrs := Some (upd \<lparr>tv_sec = uint (ucast seconds :: u32), tv_nsec = uint nseconds\<rparr> a)\<rparr>;
          if nseconds \<ge> 1000000000 then Some (FATTR_XDR_FAILED, args'\<lparr>xa_nfs_status := NFS4ERR_INVAL\<rparr>, x')
          else Some (FATTR_XDR_SUCCESS, args', x') })"

definition encode_timeset_server :: encoder where
  "encode_timeset_server E args x =
     (case emit (rep_u32 E 0) x of None \<Rightarrow> Some (FATTR_XDR_NOOP, args, x) | Some x' \<Rightarrow> Some (FATTR_XDR_SUCCESS, args, x'))"

definition encode_timeset :: "timespec \<Rightarrow> encoder" where
  "encode_timeset ts E args x = put (rep_u32 E 1 @ rep_time E ts) args x"

definition decode_timeset :: "(timespec \<Rightarrow> attrlist \<Rightarrow> attrlist) \<Rightarrow> decoder" where
  "decode_timeset upd E args x =
     (case get_u32 E x of
        None \<Rightarrow> Some (FATTR_XDR_FAILED, args, x)
      | Some (how, x') \<Rightarrow> if how = 0 then Some (FATTR_XDR_SUCCESS_EXP, args, x') else decode_time upd E args x')"

definition encode_accesstime :: encoder where
  "encode_accesstime E args x = do { a \<leftarrow> xa_attrs args; encode_time (al_atime a) E args x }"

definition decode_accesstime :: decoder where
  "decode_accesstime = decode_time (\<lambda>t a. a\<lparr>al_atime := t\<rparr>)"

definition encode_accesstimeset :: encoder where
  "encode_accesstimeset E args x = do {
     a \<leftarrow> xa_attrs args;
     if al_mask a AND ATTR_ATIME_SERVER \<noteq> 0 then encode_timeset_server E args x else encode_timeset (al_atime a) E args x }"

definition decode_accesstimeset :: decoder where
  "decode_accesstimeset = decode_timeset (\<lambda>t a. a\<lparr>al_atime := t\<rparr>)"

definition encode_backuptime :: encoder where "encode_backuptime = encode_time zero_time"

definition encode_createtime :: encoder where "encode_createtime = encode_time zero_time"

definition decode_createtime :: decoder where
  "decode_createtime E args x = Some (FATTR_XDR_SUCCESS, args, x)"

definition encode_deltatime :: encoder where "encode_deltatime = encode_time \<lparr>tv_sec = 1, tv_nsec = 0\<rparr>"

definition encode_metatime :: encoder where
  "encode_metatime E args x = do { a \<leftarrow> xa_attrs args; encode_time (al_ctime a) E args x }"

definition decode_metatime :: decoder where
  "decode_metatime = decode_time (\<lambda>t a. a\<lparr>al_ctime := t\<rparr>)"

definition encode_modifytime :: encoder where
  "encode_modifytime E args x = do { a \<leftarrow> xa_attrs args; encode_time (al_mtime a) E args x }"

definition decode_modifytime :: decoder where
  "decode_modifytime = decode_time (\<lambda>t a. a\<lparr>al_mtime := t\<rparr>)"

definition encode_modifytimeset :: encoder where
  "encode_modifytimeset E args x = do {
     a \<leftarrow> xa_attrs args;
     if al_mask a AND ATTR_MTIME_SERVER \<noteq> 0 then encode_timeset_server E args x else encode_timeset (al_mtime a) E args x }"

definition decode_modifytimeset :: decoder where
  "decode_modifytimeset = decode_timeset (\<lambda>t a. a\<lparr>al_mtime := t\<rparr>)"

definition encode_mounted_on_fileid :: encoder where
  "encode_mounted_on_fileid E args x = put (rep_u64 E (xa_mounted_on_fileid args)) args x"

subsection \<open>Layouts and the other attributes\<close>

definition encode_fs_layout_types :: encoder where
  "encode_fs_layout_types E args x =
     (if xa_data args = None then Some (FATTR_XDR_NOOP, args, x)
      else put (rep_u32 E (word_of_nat (length (fs_layouttypes E))) @ concat (map (rep_u32 E) (fs_layouttypes E))) args x)"

definition encode_layout_blocksize :: encoder where
  "encode_layout_blocksize E args x =
     (if xa_data args = None then Some (FATTR_XDR_NOOP, args, x) else put (rep_u32 E (fs_layout_blocksize E)) args x)"

definition encode_support_exclusive_create :: encoder where
  "encode_support_exclusive_create E args x = do {
     bits \<leftarrow> supported_bits;
     (res1, bits1) \<leftarrow> clear_attribute_in_bitmap bits FATTR4_TIME_ACCESS_SET;
     (res2, bits2) \<leftarrow> clear_attribute_in_bitmap bits1 FATTR4_TIME_MODIFY_SET;
     if res1 \<and> res2 then put (rep_bitmap E bits2) args x else None }"

definition encode_dir_notif_delay :: encoder where "encode_dir_notif_delay = encode_noop"
definition encode_dirent_notif_delay :: encoder where "encode_dirent_notif_delay = encode_noop"
definition encode_dacl :: encoder where "encode_dacl = encode_noop"
definition encode_sacl :: encoder where "encode_sacl = encode_noop"
definition encode_change_policy :: encoder where "encode_change_policy = encode_noop"
definition encode_fs_status :: encoder where "encode_fs_status = encode_noop"
definition encode_layout_hint :: encoder where "encode_layout_hint = encode_noop"
definition encode_layout_types :: encoder where "encode_layout_types = encode_noop"
definition encode_layout_alignment :: encoder where "encode_layout_alignment = encode_noop"
definition encode_fs_locations_info :: encoder where "encode_fs_locations_info = encode_noop"
definition encode_mdsthreshold :: encoder where "encode_mdsthreshold = encode_noop"
definition encode_retention_get :: encoder where "encode_retention_get = encode_noop"
definition encode_retention_set :: encoder where "encode_retention_set = encode_noop"
definition encode_retentevt_get :: encoder where "encode_retentevt_get = encode_noop"
definition encode_retentevt_set :: encoder where "encode_retentevt_set = encode_noop"
definition encode_retention_hold :: encoder where "encode_retention_hold = encode_noop"
definition encode_mode_set_masked :: encoder where "encode_mode_set_masked = encode_noop"
definition encode_fs_charset_cap :: encoder where "encode_fs_charset_cap = encode_noop"

definition decode_supported_attrs :: decoder where "decode_supported_attrs = decode_noop"
definition decode_expiretype :: decoder where "decode_expiretype = decode_noop"
definition decode_linksupport :: decoder where "decode_linksupport = decode_noop"
definition decode_symlinksupport :: decoder where "decode_symlinksupport = decode_noop"
definition decode_namedattrsupport :: decoder where "decode_namedattrsupport = decode_noop"
definition decode_uniquehandles :: decoder where "decode_uniquehandles = decode_noop"
definition decode_leaselife :: decoder where "decode_leaselife = decode_noop"
definition decode_aclsupport :: decoder where "decode_aclsupport = decode_noop"
definition decode_archive :: decoder where "decode_archive = decode_noop"
definition decode_cansettime :: decoder where "decode_cansettime = decode_noop"
definition decode_case_insensitive :: decoder where "decode_case_insensitive = decode_noop"
definition decode_case_preserving :: decoder where "decode_case_preserving = decode_noop"
definition decode_chown_restricted :: decoder where "decode_chown_restricted = decode_noop"
definition decode_fs_locations :: decoder where "decode_fs_locations = decode_noop"
definition decode_hidden :: decoder where "decode_hidden = decode_noop"
definition decode_homogeneous :: decoder where "decode_homogeneous = decode_noop"
definition decode_maxfilesize :: decoder where "decode_maxfilesize = decode_noop"
definition decode_maxlink :: decoder where "decode_maxlink = decode_noop"
definition decode_maxname :: decoder where "decode_maxname = decode_noop"
definition decode_maxread :: decoder where "decode_maxread = decode_noop"
definition decode_maxwrite :: decoder where "decode_maxwrite = decode_noop"
definition decode_mimetype :: decoder where "decode_mimetype = decode_noop"
definition decode_no_trunc :: decoder where "decode_no_trunc = decode_noop"
definition decode_quota_avail_hard :: decoder where "decode_quota_avail_hard = decode_noop"
definition decode_quota_avail_soft :: decoder where "decode_quota_avail_soft = decode_noop"
definition decode_quota_used :: decoder where "decode_quota_used = decode_noop"
definition decode_system :: decoder where "decode_system = decode_noop"
definition decode_backuptime :: decoder where "decode_backuptime = decode_noop"
definition decode_deltatime :: decoder where "decode_deltatime = decode_noop"
definition decode_mounted_on_fileid :: decoder where "decode_mounted_on_fileid = decode_noop"
definition decode_dir_notif_delay :: decoder where "decode_dir_notif_delay = decode_noop"
definition decode_dirent_notif_delay :: decoder where "decode_dirent_notif_delay = decode_noop"
definition decode_dacl :: decoder where "decode_dacl = decode_noop"
definition decode_sacl :: decoder where "decode_sacl = decode_noop"
definition decode_change_policy :: decoder where "decode_change_policy = decode_noop"
definition decode_fs_status :: decoder where "decode_fs_status = decode_noop"
definition decode_fs_layout_types :: decoder where "decode_fs_layout_types = decode_noop"
definition decode_layout_hint :: decoder where "decode_layout_hint = decode_noop"
definition decode_layout_types :: decoder where "decode_layout_types = decode_noop"
definition decode_layout_blocksize :: decoder where "decode_layout_blocksize = decode_noop"
definition decode_layout_alignment :: decoder where "decode_layout_alignment = decode_noop"
definition decode_fs_locations_info :: decoder where "decode_fs_locations_info = decode_noop"
definition decode_mdsthreshold :: decoder where "decode_mdsthreshold = decode_noop"
definition decode_retention_get :: decoder where "decode_retention_get = decode_noop"
definition decode_retention_set :: decoder where "decode_retention_set = decode_noop"
definition decode_retentevt_get :: decoder where "decode_retentevt_get = decode_noop"
definition decode_retentevt_set :: decoder where "decode_retentevt_set = decode_noop"
definition decode_retention_hold :: decoder where "decode_retention_hold = decode_noop"
definition decode_mode_set_masked :: decoder where "decode_mode_set_masked = decode_noop"
definition decode_support_exclusive_create :: decoder where "decode_support_exclusive_create = decode_noop"
definition decode_fs_charset_cap :: decoder where "decode_fs_charset_cap = decode_noop"

section \<open>The table of attributes\<close>

record fattr4_dent =
  fd_name :: string
  fd_supported :: bool
  fd_size_fattr4 :: nat
  fd_access :: nat
  fd_attrmask :: u64
  fd_exp_attrmask :: u64
  fd_encode :: "encoder option"
  fd_decode :: "decoder option"

definition FATTR4_ATTR_READ :: nat where "FATTR4_ATTR_READ = 0x00001"
definition FATTR4_ATTR_WRITE :: nat where "FATTR4_ATTR_WRITE = 0x00010"
definition FATTR4_ATTR_READ_WRITE :: nat where "FATTR4_ATTR_READ_WRITE = 0x00011"

definition dent :: "string \<Rightarrow> nat \<Rightarrow> nat \<Rightarrow> nat \<Rightarrow> u64 \<Rightarrow> u64 \<Rightarrow> encoder \<Rightarrow> decoder \<Rightarrow> fattr4_dent" where
  "dent nm n sz acc m em enc dec =
     \<lparr>fd_name = nm, fd_supported = attr_supported n, fd_size_fattr4 = sz, fd_access = acc, fd_attrmask = m,
      fd_exp_attrmask = em, fd_encode = Some enc, fd_decode = Some dec\<rparr>"

text \<open>Attributes without an initialiser: everything is zero.\<close>

definition no_dent :: fattr4_dent where
  "no_dent = \<lparr>fd_name = [], fd_supported = False, fd_size_fattr4 = 0, fd_access = 0, fd_attrmask = 0, fd_exp_attrmask = 0,
     fd_encode = None, fd_decode = None\<rparr>"

definition fattr4tab_0 :: "fattr4_dent list" where
  "fattr4tab_0 =
    [dent ''FATTR4_SUPPORTED_ATTRS'' 0 16 FATTR4_ATTR_READ 0 0 encode_supported_attrs decode_supported_attrs,
     dent ''FATTR4_TYPE'' 1 4 FATTR4_ATTR_READ ATTR_TYPE 0 encode_type decode_type,
     dent ''FATTR4_FH_EXPIRE_TYPE'' 2 4 FATTR4_ATTR_READ 0 0 encode_expiretype decode_expiretype,
     dent ''FATTR4_CHANGE'' 3 8 FATTR4_ATTR_READ (ATTR_CHGTIME OR ATTR_CHANGE) 0 encode_change decode_change,
     dent ''FATTR4_SIZE'' 4 8 FATTR4_ATTR_READ_WRITE ATTR_SIZE 0 encode_filesize decode_filesize,
     dent ''FATTR4_LINK_SUPPORT'' 5 4 FATTR4_ATTR_READ 0 0 encode_linksupport decode_linksupport,
     dent ''FATTR4_SYMLINK_SUPPORT'' 6 4 FATTR4_ATTR_READ 0 0 encode_symlinksupport decode_symlinksupport,
     dent ''FATTR4_NAMED_ATTR'' 7 4 FATTR4_ATTR_READ 0 0 encode_namedattrsupport decode_namedattrsupport,
     dent ''FATTR4_FSID'' 8 16 FATTR4_ATTR_READ ATTR_FSID 0 encode_fsid decode_fsid,
     dent ''FATTR4_UNIQUE_HANDLES'' 9 4 FATTR4_ATTR_READ 0 0 encode_uniquehandles decode_uniquehandles,
     dent ''FATTR4_LEASE_TIME'' 10 4 FATTR4_ATTR_READ 0 0 encode_leaselife decode_leaselife,
     dent ''FATTR4_RDATTR_ERROR'' 11 4 FATTR4_ATTR_READ 0 0 encode_rdattr_error decode_rdattr_error,
     dent ''FATTR4_ACL'' 12 16 FATTR4_ATTR_READ_WRITE ATTR_ACL 0 encode_acl decode_acl,
     dent ''FATTR4_ACLSUPPORT'' 13 4 FATTR4_ATTR_READ 0 0 encode_aclsupport decode_aclsupport,
     dent ''FATTR4_ARCHIVE'' 14 4 FATTR4_ATTR_READ_WRITE 0 0 encode_archive decode_archive,
     dent ''FATTR4_CANSETTIME'' 15 4 FATTR4_ATTR_READ 0 0 encode_cansettime decode_cansettime,
     dent ''FATTR4_CASE_INSENSITIVE'' 16 4 FATTR4_ATTR_READ 0 0 encode_case_insensitive decode_case_insensitive,
     dent ''FATTR4_CASE_PRESERVING'' 17 4 FATTR4_ATTR_READ 0 0 encode_case_preserving decode_case_preserving,
     dent ''FATTR4_CHOWN_RESTRICTED'' 18 4 FATTR4_ATTR_READ 0 0 encode_chown_restricted decode_chown_restricted,
     dent ''FATTR4_FILEHANDLE'' 19 16 FATTR4_ATTR_READ 0 0 encode_filehandle decode_filehandle]"

definition fattr4tab_20 :: "fattr4_dent list" where
  "fattr4tab_20 =
    [dent ''FATTR4_FILEID'' 20 8 FATTR4_ATTR_READ ATTR_FILEID 0 encode_fileid decode_fileid,
     dent ''FATTR4_FILES_AVAIL'' 21 8 FATTR4_ATTR_READ 0 0 encode_files_avail decode_files_avail,
     dent ''FATTR4_FILES_FREE'' 22 8 FATTR4_ATTR_READ 0 0 encode_files_free decode_files_free,
     dent ''FATTR4_FILES_TOTAL'' 23 8 FATTR4_ATTR_READ 0 0 encode_files_total decode_files_total,
     dent ''FATTR4_FS_LOCATIONS'' 24 32 FATTR4_ATTR_READ 0 0 encode_fs_locations decode_fs_locations,
     dent ''FATTR4_HIDDEN'' 25 4 FATTR4_ATTR_READ_WRITE 0 0 encode_hidden decode_hidden,
     dent ''FATTR4_HOMOGENEOUS'' 26 4 FATTR4_ATTR_READ 0 0 encode_homogeneous decode_homogeneous,
     dent ''FATTR4_MAXFILESIZE'' 27 8 FATTR4_ATTR_READ 0 0 encode_maxfilesize decode_maxfilesize,
     dent ''FATTR4_MAXLINK'' 28 4 FATTR4_ATTR_READ 0 0 encode_maxlink decode_maxlink,
     dent ''FATTR4_MAXNAME'' 29 4 FATTR4_ATTR_READ 0 0 encode_maxname decode_maxname,
     dent ''FATTR4_MAXREAD'' 30 8 FATTR4_ATTR_READ 0 0 encode_maxread decode_maxread,
     dent ''FATTR4_MAXWRITE'' 31 8 FATTR4_ATTR_READ 0 0 encode_maxwrite decode_maxwrite,
     dent ''FATTR4_MIMETYPE'' 32 16 FATTR4_ATTR_READ_WRITE 0 0 encode_mimetype decode_mimetype,
     dent ''FATTR4_MODE'' 33 4 FATTR4_ATTR_READ_WRITE ATTR_MODE 0 encode_mode decode_mode,
     dent ''FATTR4_NO_TRUNC'' 34 4 FATTR4_ATTR_READ 0 0 encode_no_trunc decode_no_trunc,
     dent ''FATTR4_NUMLINKS'' 35 4 FATTR4_ATTR_READ ATTR_NUMLINKS 0 encode_numlinks decode_numlinks,
     dent ''FATTR4_OWNER'' 36 16 FATTR4_ATTR_READ_WRITE ATTR_OWNER 0 encode_owner decode_owner,
     dent ''FATTR4_OWNER_GROUP'' 37 16 FATTR4_ATTR_READ_WRITE ATTR_GROUP 0 encode_group decode_group,
     dent ''FATTR4_QUOTA_AVAIL_HARD'' 38 8 FATTR4_ATTR_READ 0 0 encode_quota_avail_hard decode_quota_avail_hard,
     dent ''FATTR4_QUOTA_AVAIL_SOFT'' 39 8 FATTR4_ATTR_READ 0 0 encode_quota_avail_soft decode_quota_avail_soft]"

definition fattr4tab_40 :: "fattr4_dent list" where
  "fattr4tab_40 =
    [dent ''FATTR4_QUOTA_USED'' 40 8 FATTR4_ATTR_READ 0 0 encode_quota_used decode_quota_used,
     dent ''FATTR4_RAWDEV'' 41 8 FATTR4_ATTR_READ ATTR_RAWDEV 0 encode_rawdev decode_rawdev,
     dent ''FATTR4_SPACE_AVAIL'' 42 8 FATTR4_ATTR_READ 0 0 encode_sace_avail decode_sace_avail,
     dent ''FATTR4_SPACE_FREE'' 43 8 FATTR4_ATTR_READ 0 0 encode_sace_free decode_sace_free,
     dent ''FATTR4_SPACE_TOTAL'' 44 8 FATTR4_ATTR_READ 0 0 encode_sace_total decode_sace_total,
     dent ''FATTR4_SPACE_USED'' 45 8 FATTR4_ATTR_READ ATTR_SPACEUSED 0 encode_spaceused decode_spaceused,
     dent ''FATTR4_SYSTEM'' 46 4 FATTR4_ATTR_READ_WRITE 0 0 encode_system decode_system,
     dent ''FATTR4_TIME_ACCESS'' 47 12 FATTR4_ATTR_READ ATTR_ATIME 0 encode_accesstime decode_accesstime,
     dent ''FATTR4_TIME_ACCESS_SET'' 48 24 FATTR4_ATTR_WRITE ATTR_ATIME ATTR_ATIME_SERVER encode_accesstimeset decode_accesstimeset,
     dent ''FATTR4_TIME_BACKUP'' 49 12 FATTR4_ATTR_READ_WRITE 0 0 encode_backuptime decode_backuptime,
     dent ''FATTR4_TIME_CREATE'' 50 12 FATTR4_ATTR_READ_WRITE 0 0 encode_createtime decode_createtime,
     dent ''FATTR4_TIME_DELTA'' 51 12 FATTR4_ATTR_READ 0 0 encode_deltatime decode_deltatime,
     dent ''FATTR4_TIME_METADATA'' 52 12 FATTR4_ATTR_READ ATTR_CTIME 0 encode_metatime decode_metatime,
     dent ''FATTR4_TIME_MODIFY'' 53 12 FATTR4_ATTR_READ ATTR_MTIME 0 encode_modifytime decode_modifytime,
     dent ''FATTR4_TIME_MODIFY_SET'' 54 24 FATTR4_ATTR_WRITE ATTR_MTIME ATTR_MTIME_SERVER encode_modifytimeset decode_modifytimeset,
     dent ''FATTR4_MOUNTED_ON_FILEID'' 55 8 FATTR4_ATTR_READ 0 0 encode_mounted_on_fileid decode_mounted_on_fileid,
     dent ''FATTR4_DIR_NOTIF_DELAY'' 56 16 FATTR4_ATTR_READ 0 0 encode_dir_notif_delay decode_dir_notif_delay,
     dent ''FATTR4_DIRENT_NOTIF_DELAY'' 57 16 FATTR4_ATTR_READ 0 0 encode_dirent_notif_delay decode_dirent_notif_delay,
     dent ''FATTR4_DACL'' 58 24 FATTR4_ATTR_READ_WRITE 0 0 encode_dacl decode_dacl,
     dent ''FATTR4_SACL'' 59 24 FATTR4_ATTR_READ_WRITE 0 0 encode_sacl decode_sacl]"

definition fattr4tab_60 :: "fattr4_dent list" where
  "fattr4tab_60 =
    [dent ''FATTR4_CHANGE_POLICY'' 60 16 FATTR4_ATTR_READ 0 0 encode_change_policy decode_change_policy,
     dent ''FATTR4_FS_STATUS'' 61 64 FATTR4_ATTR_READ 0 0 encode_fs_status decode_fs_status,
     dent ''FATTR4_FS_LAYOUT_TYPES'' 62 16 FATTR4_ATTR_READ 0 0 encode_fs_layout_types decode_fs_layout_types,
     dent ''FATTR4_LAYOUT_HINT'' 63 24 FATTR4_ATTR_WRITE 0 0 encode_layout_hint decode_layout_hint,
     dent ''FATTR4_LAYOUT_TYPES'' 64 16 FATTR4_ATTR_READ 0 0 encode_layout_types decode_layout_types,
     dent ''FATTR4_LAYOUT_BLKSIZE'' 65 4 FATTR4_ATTR_READ 0 0 encode_layout_blocksize decode_layout_blocksize,
     dent ''FATTR4_LAYOUT_ALIGNMENT'' 66 4 FATTR4_ATTR_READ 0 0 encode_layout_alignment decode_layout_alignment,
     dent ''FATTR4_FS_LOCATIONS_INFO'' 67 40 FATTR4_ATTR_READ 0 0 encode_fs_locations_info decode_fs_locations_info,
     dent ''FATTR4_MDSTHRESHOLD'' 68 16 FATTR4_ATTR_READ 0 0 encode_mdsthreshold decode_mdsthreshold,
     dent ''FATTR4_RETENTION_GET'' 69 24 FATTR4_ATTR_READ 0 0 encode_retention_get decode_retention_get,
     dent ''FATTR4_RETENTION_SET'' 70 24 FATTR4_ATTR_WRITE 0 0 encode_retention_set decode_retention_set,
     dent ''FATTR4_RETENTEVT_GET'' 71 24 FATTR4_ATTR_READ 0 0 encode_retentevt_get decode_retentevt_get,
     dent ''FATTR4_RETENTEVT_SET'' 72 24 FATTR4_ATTR_WRITE 0 0 encode_retentevt_set decode_retentevt_set,
     dent ''FATTR4_RETENTION_HOLD'' 73 8 FATTR4_ATTR_READ_WRITE 0 0 encode_retention_hold decode_retention_hold,
     dent ''FATTR4_MODE_SET_MASKED'' 74 8 FATTR4_ATTR_WRITE 0 0 encode_mode_set_masked decode_mode_set_masked,
     dent ''FATTR4_SUPPATTR_EXCLCREAT'' 75 16 FATTR4_ATTR_READ 0 0 encode_support_exclusive_create decode_support_exclusive_create,
     dent ''FATTR4_FS_CHARSET_CAP'' 76 4 FATTR4_ATTR_READ 0 0 encode_fs_charset_cap decode_fs_charset_cap,
     dent ''FATTR4_SPACE_RESERVED'' 77 8 FATTR4_ATTR_READ_WRITE ATTR4_SPACE_RESERVED 0 encode_filesize decode_filesize,
     no_dent,
     no_dent,
     no_dent,
     no_dent,
     no_dent]"

definition fattr4tab :: "nat \<Rightarrow> fattr4_dent" where
  "fattr4tab n = (fattr4tab_0 @ fattr4tab_20 @ fattr4tab_40 @ fattr4tab_60) ! n"


section \<open>Packing and unpacking\<close>

definition zero_bitmap :: bitmap4 where
  "zero_bitmap = \<lparr>bm_len = 0, bm_map0 = 0, bm_map1 = 0, bm_map2 = 0\<rparr>"

definition NFS4_ATTRVALS_BUFFLEN :: nat where "NFS4_ATTRVALS_BUFFLEN = 1024"

text \<open>
  The body of the packing loop.  The state is whether no encoder has failed, the arguments, the stream
  and the bitmap of the attributes written.
\<close>

type_synonym pack_state = "bool \<times> xdr_attrs_args \<times> xdr_out \<times> bitmap4"

definition encode_body :: "fattr_env \<Rightarrow> nat \<Rightarrow> pack_state \<Rightarrow> (bool \<times> pack_state) option" where
  "encode_body E attribute_to_set st =
     (case st of (ok, args, x, bm) \<Rightarrow>
        if attribute_to_set > FATTR4_MAX then Some (False, ok, args, x, bm)
        else do {
          enc \<leftarrow> fd_encode (fattr4tab attribute_to_set);
          (xdr_res, args', x') \<leftarrow> enc E args x;
          case xdr_res of
            FATTR_XDR_SUCCESS \<Rightarrow>
              (case set_attribute_in_bitmap bm attribute_to_set of
                 (res, bm') \<Rightarrow> if res then Some (True, True, args', x', bm') else None)
          | FATTR_XDR_NOOP \<Rightarrow> Some (True, True, args', x', bm)
          | _ \<Rightarrow> Some (False, False, args', x', bm) })"

text \<open>The result says whether 0 is returned; an empty list of values is a null pointer.\<close>

definition nfs4_FSALattr_To_Fattr :: "fattr_env \<Rightarrow> xdr_attrs_args \<Rightarrow> bitmap4 \<Rightarrow> fattr4 \<Rightarrow> (bool \<times> fattr4) option" where
  "nfs4_FSALattr_To_Fattr E args Bitmap Fattr =
     (if bm_len Bitmap = 0 then Some (True, Fattr\<lparr>fa_mask := zero_bitmap\<rparr>)
      else do {
        (ok, args', x, bm) \<leftarrow>
          attr_loop Bitmap (encode_body E) (- 1) (True, args, \<lparr>xo_bytes = [], xo_size = NFS4_ATTRVALS_BUFFLEN\<rparr>, zero_bitmap);
        if \<not> ok then Some (False, \<lparr>fa_mask = bm, fa_vals = []\<rparr>)
        else if xo_bytes x = [] \<and> bm_len bm \<noteq> 0 then None
        else Some (True, \<lparr>fa_mask = bm, fa_vals = xo_bytes x\<rparr>) })"

definition nfs4_Fattr_Fill_Error :: "fattr_env \<Rightarrow> nfsstat4 \<Rightarrow> (bool \<times> fattr4) option" where
  "nfs4_Fattr_Fill_Error E rdattr_error = do {
     enc \<leftarrow> fd_encode (fattr4tab FATTR4_RDATTR_ERROR);
     (xdr_res, args', x) \<leftarrow>
       enc E \<lparr>xa_attrs = None, xa_hdl4 = None, xa_rdattr_error = word_of_int rdattr_error, xa_mounted_on_fileid = 0,
              xa_nfs_status = 0, xa_data = None, xa_statfscalled = False, xa_dynamicinfo = None\<rparr>
             \<lparr>xo_bytes = [], xo_size = fd_size_fattr4 (fattr4tab FATTR4_RDATTR_ERROR)\<rparr>;
     if xdr_res = FATTR_XDR_SUCCESS
     then case set_attribute_in_bitmap zero_bitmap FATTR4_RDATTR_ERROR of
            (res, bm) \<Rightarrow> if \<not> res \<or> xo_bytes x = [] \<and> bm_len bm \<noteq> 0 then None
                           else Some (True, \<lparr>fa_mask = bm, fa_vals = xo_bytes x\<rparr>)
     else Some (False, \<lparr>fa_mask = zero_bitmap, fa_vals = []\<rparr>) }"

definition zero_args :: "attrlist option \<Rightarrow> bool option \<Rightarrow> xdr_attrs_args" where
  "zero_args attrs data =
     \<lparr>xa_attrs = attrs, xa_hdl4 = None, xa_rdattr_error = 0, xa_mounted_on_fileid = 0, xa_nfs_status = 0, xa_data = data,
      xa_statfscalled = False, xa_dynamicinfo = None\<rparr>"

definition Fattr_filler ::
  "fattr_env \<Rightarrow> bool option \<Rightarrow> nfs_fh4 option \<Rightarrow> bitmap4 \<Rightarrow> fattr4 \<Rightarrow> attrlist \<Rightarrow> u64 \<Rightarrow> (cache_inode_status \<times> fattr4) option" where
  "Fattr_filler E data objFH Bitmap Fattr attr mounted_on_fileid =
     map_option (\<lambda>(ok, f). (if ok then CACHE_INODE_SUCCESS else CACHE_INODE_IO_ERROR, f))
       (nfs4_FSALattr_To_Fattr E
          ((zero_args (Some attr) data)\<lparr>xa_hdl4 := objFH, xa_mounted_on_fileid := mounted_on_fileid\<rparr>) Bitmap Fattr)"

text \<open>
  \<open>access\<close> is the answer of the permission check for reading the access control list, \<open>getattr\<close> what the
  inode cache does with the callback.  The attribute asked for is the number that the mask of lists
  has, 32, and not the number of the attribute, 12.
\<close>

definition cache_entry_To_Fattr ::
  "fattr_env \<Rightarrow> cache_inode_status \<Rightarrow> ((attrlist \<Rightarrow> u64 \<Rightarrow> (cache_inode_status \<times> fattr4) option) \<Rightarrow> (cache_inode_status \<times> fattr4) option)
   \<Rightarrow> fattr4 \<Rightarrow> bool option \<Rightarrow> nfs_fh4 option \<Rightarrow> bitmap4 \<Rightarrow> (nfsstat4 \<times> fattr4) option" where
  "cache_entry_To_Fattr E access getattr Fattr data objFH Bitmap = do {
     acl \<leftarrow> attribute_is_set Bitmap (unat ATTR_ACL);
     if acl \<and> access \<noteq> CACHE_INODE_SUCCESS then Some (nfs4_Errno_verbose access, Fattr)
     else map_option (\<lambda>(st, f). (nfs4_Errno_verbose st, f)) (getattr (Fattr_filler E data objFH Bitmap Fattr)) }"

section \<open>Checks of bitmaps\<close>

definition nfs4_Fattr_Check_Access_Bitmap :: "bitmap4 \<Rightarrow> nat \<Rightarrow> bool option" where
  "nfs4_Fattr_Check_Access_Bitmap bitmap access =
     (if access = FATTR4_ATTR_READ \<or> access = FATTR4_ATTR_WRITE
      then attr_loop bitmap
             (\<lambda>attribute ok.
                if attribute > FATTR4_MAX then Some (True, ok)
                else if fd_access (fattr4tab attribute) AND access \<noteq> access then Some (False, False)
                else Some (True, ok)) (- 1) True
      else None)"

definition nfs4_Fattr_Check_Access :: "fattr4 \<Rightarrow> nat \<Rightarrow> bool option" where
  "nfs4_Fattr_Check_Access Fattr access = nfs4_Fattr_Check_Access_Bitmap (fa_mask Fattr) access"

fun remove_loop :: "nat list \<Rightarrow> bitmap4 \<Rightarrow> bitmap4 option" where
  "remove_loop [] bitmap = Some bitmap"
| "remove_loop (attribute # as) bitmap =
     (if \<not> fd_supported (fattr4tab attribute) then do {
        (res, bitmap') \<leftarrow> clear_attribute_in_bitmap bitmap attribute;
        if res then remove_loop as bitmap' else Some bitmap' }
      else remove_loop as bitmap)"

definition nfs4_bitmap4_Remove_Unsupported :: "bitmap4 \<Rightarrow> bitmap4 option" where
  "nfs4_bitmap4_Remove_Unsupported bitmap = remove_loop [0..<FATTR4_MAX + 1] bitmap"

text \<open>An attribute beyond the table is read outside of it.\<close>

definition nfs4_Fattr_Supported_Bitmap :: "bitmap4 \<Rightarrow> bool option" where
  "nfs4_Fattr_Supported_Bitmap bitmap =
     attr_loop bitmap
       (\<lambda>attribute ok.
          if attribute > FATTR4_MAX then None
          else if \<not> fd_supported (fattr4tab attribute) then Some (False, False) else Some (True, ok)) (- 1) True"

definition nfs4_Fattr_Supported :: "fattr4 \<Rightarrow> bool option" where
  "nfs4_Fattr_Supported Fattr = nfs4_Fattr_Supported_Bitmap (fa_mask Fattr)"

section \<open>Comparing packed attributes\<close>

text \<open>
  \<^verbatim>\<open>memcmp\<close> of \<open>n\<close> bytes at an offset, undefined beyond the end of a list; the count of a list of words is
  converted to host order.
\<close>

definition same_bytes :: "char list \<Rightarrow> char list \<Rightarrow> nat \<Rightarrow> nat \<Rightarrow> bool option" where
  "same_bytes v1 v2 off n =
     (if off + n \<le> length v1 \<and> off + n \<le> length v2 then Some (take n (drop off v1) = take n (drop off v2)) else None)"

definition count_at :: "fattr_env \<Rightarrow> char list \<Rightarrow> nat \<Rightarrow> nat" where
  "count_at E v off = unat (val_u32 E (take 4 (drop off v)))"

text \<open>\<open>n\<close> words, one after the other.\<close>

fun same_words :: "char list \<Rightarrow> char list \<Rightarrow> nat \<Rightarrow> nat \<Rightarrow> bool option" where
  "same_words v1 v2 off 0 = Some True"
| "same_words v1 v2 off (Suc n) = do { eq \<leftarrow> same_bytes v1 v2 off 4; if eq then same_words v1 v2 (off + 4) n else Some False }"

text \<open>The attributes of fixed size that the function knows.\<close>

definition cmp_fixed :: "nat \<Rightarrow> bool" where
  "cmp_fixed a \<longleftrightarrow>
     FATTR4_TYPE \<le> a \<and> a \<le> FATTR4_MOUNTED_ON_FILEID \<and> a \<noteq> FATTR4_FILEHANDLE \<and> a \<noteq> FATTR4_OWNER \<and>
     a \<noteq> FATTR4_OWNER_GROUP \<or> a = FATTR4_SPACE_RESERVED"

definition cmp_body :: "fattr_env \<Rightarrow> char list \<Rightarrow> char list \<Rightarrow> nat \<Rightarrow> int \<times> nat \<Rightarrow> (bool \<times> int \<times> nat) option" where
  "cmp_body E v1 v2 a st =
     (case st of (res, off) \<Rightarrow>
        if a > FATTR4_MAX then Some (True, res, off)
        else if a = FATTR4_SUPPORTED_ATTRS then do {
          eq \<leftarrow> same_bytes v1 v2 off 4;
          if \<not> eq then Some (False, 0, off)
          else do {
            let len = count_at E v1 off;
            eq' \<leftarrow> same_words v1 v2 (off + 4) len;
            if eq' then Some (True, res, off + 4 + 4 * len) else Some (False, 0, off) } }
        else if a = FATTR4_FILEHANDLE \<or> a = FATTR4_OWNER \<or> a = FATTR4_OWNER_GROUP then do {
          eq \<leftarrow> same_bytes v1 v2 off 4;
          if \<not> eq then Some (False, 0, off)
          else do {
            eq' \<leftarrow> same_bytes v1 v2 (off + 4) (count_at E v1 off);
            if eq' then Some (True, res, off + 4) else Some (False, 0, off) } }
        else if cmp_fixed a then do {
          eq \<leftarrow> same_bytes v1 v2 off (fd_size_fattr4 (fattr4tab a));
          if eq then Some (True, res, off) else Some (False, 0, off) }
        else Some (False, 0, off))"

definition bm_words :: "bitmap4 \<Rightarrow> nat \<Rightarrow> u32 list option" where
  "bm_words bits n = (if n \<le> 3 then Some (take n [bm_map0 bits, bm_map1 bits, bm_map2 bits]) else None)"

definition nfs4_Fattr_cmp :: "fattr_env \<Rightarrow> fattr4 \<Rightarrow> fattr4 \<Rightarrow> int option" where
  "nfs4_Fattr_cmp E Fattr1 Fattr2 =
     (if bm_len (fa_mask Fattr1) \<noteq> bm_len (fa_mask Fattr2) then Some 0
      else do {
        ws1 \<leftarrow> bm_words (fa_mask Fattr1) (unat (bm_len (fa_mask Fattr1)));
        ws2 \<leftarrow> bm_words (fa_mask Fattr2) (unat (bm_len (fa_mask Fattr1)));
        if ws1 \<noteq> ws2 then Some 0
        else do {
          err \<leftarrow> attribute_is_set (fa_mask Fattr1) FATTR4_RDATTR_ERROR;
          if err then Some (- 1)
          else map_option fst (attr_loop (fa_mask Fattr1) (cmp_body E (fa_vals Fattr1) (fa_vals Fattr2)) (- 1) (1, 0)) } })"

section \<open>Unpacking\<close>

definition set_mask :: "u64 \<Rightarrow> xdr_attrs_args \<Rightarrow> xdr_attrs_args" where
  "set_mask m args = args\<lparr>xa_attrs := map_option (\<lambda>a. a\<lparr>al_mask := al_mask a OR m\<rparr>) (xa_attrs args)\<rparr>"

type_synonym unpack_state = "nfsstat4 \<times> xdr_attrs_args \<times> xdr_in"

definition decode_body :: "fattr_env \<Rightarrow> nat \<Rightarrow> unpack_state \<Rightarrow> (bool \<times> unpack_state) option" where
  "decode_body E attribute_to_set st =
     (case st of (nfs_status, args, x) \<Rightarrow>
        if attribute_to_set > FATTR4_MAX then Some (False, NFS4ERR_BADXDR, args, x)
        else do {
          dec \<leftarrow> fd_decode (fattr4tab attribute_to_set);
          (xdr_res, args', x') \<leftarrow> dec E args x;
          case xdr_res of
            FATTR_XDR_SUCCESS \<Rightarrow> Some (True, nfs_status, set_mask (fd_attrmask (fattr4tab attribute_to_set)) args', x')
          | FATTR_XDR_SUCCESS_EXP \<Rightarrow> Some (True, nfs_status, set_mask (fd_exp_attrmask (fattr4tab attribute_to_set)) args', x')
          | FATTR_XDR_NOOP \<Rightarrow> Some (False, (if nfs_status = NFS4_OK then NFS4ERR_ATTRNOTSUPP else nfs_status), args', x')
          | _ \<Rightarrow> Some (False, (if xa_nfs_status args' = NFS4_OK then NFS4ERR_BADXDR else xa_nfs_status args'), args', x') })"

definition Fattr4_To_FSAL_attr ::
  "fattr_env \<Rightarrow> attrlist option \<Rightarrow> fattr4 \<Rightarrow> nfs_fh4 option \<Rightarrow> fsal_dynamicfsinfo_t option \<Rightarrow> bool option \<Rightarrow>
   (nfsstat4 \<times> attrlist option \<times> fsal_dynamicfsinfo_t option) option" where
  "Fattr4_To_FSAL_attr E attrs Fattr hdl4 dinfo data = do {
     first \<leftarrow> next_attr_from_bitmap (fa_mask Fattr) (- 1);
     if fa_vals Fattr = [] then Some (if first = - 1 then NFS4_OK else NFS4ERR_BADXDR, attrs, dinfo)
     else do {
       let args = (zero_args (map_option (\<lambda>a. a\<lparr>al_mask := 0\<rparr>) attrs) data)\<lparr>xa_hdl4 := hdl4, xa_dynamicinfo := dinfo\<rparr>;
       (nfs_status, args', x) \<leftarrow>
         attr_loop (fa_mask Fattr) (decode_body E) (- 1) (NFS4_OK, args, \<lparr>xi_bytes = fa_vals Fattr, xi_pos = 0\<rparr>);
       Some (if xi_pos x < length (fa_vals Fattr) then NFS4ERR_BADXDR else nfs_status,
             xa_attrs args', xa_dynamicinfo args') } }"

definition nfs4_Fattr_To_FSAL_attr :: "fattr_env \<Rightarrow> fattr4 \<Rightarrow> bool option \<Rightarrow> (nfsstat4 \<times> attrlist option) option" where
  "nfs4_Fattr_To_FSAL_attr E Fattr data =
     map_option (\<lambda>(st, a, d). (st, a)) (Fattr4_To_FSAL_attr E (Some zero_attrlist) Fattr None None data)"

definition nfs4_Fattr_To_fsinfo ::
  "fattr_env \<Rightarrow> fsal_dynamicfsinfo_t \<Rightarrow> fattr4 \<Rightarrow> (nfsstat4 \<times> fsal_dynamicfsinfo_t option) option" where
  "nfs4_Fattr_To_fsinfo E dinfo Fattr =
     map_option (\<lambda>(st, a, d). (st, d)) (Fattr4_To_FSAL_attr E None Fattr None (Some dinfo) None)"

end
