(* ===== verification/Fattr_Props.thy ===== *)
theory Fattr_Props
  imports Fattr_Codec
begin

text \<open>
  Packing the attributes of an object and unpacking them again gives what the bitmap selects, for the
  attributes a client asks for.  The contract of an encoder and its decoder is a locale; packing
  and unpacking whole lists is proved in it, and the attributes of an object interpret it.  Two
  packed lists that differ are taken for equal by the comparison, and the check of the permission
  to read an access control list is never made.
\<close>

unbundle bit_operations_syntax

section \<open>Assumptions on the surroundings\<close>

text \<open>The external representation of integers has a fixed size and can be read back.\<close>

definition xdr_ok :: "fattr_env \<Rightarrow> bool" where
  "xdr_ok E \<longleftrightarrow>
     (\<forall>v. length (rep_u32 E v) = 4 \<and> val_u32 E (rep_u32 E v) = v) \<and>
     (\<forall>v. length (rep_u64 E v) = 8 \<and> val_u64 E (rep_u64 E v) = v)"

lemma xdr_simps [simp]:
  assumes "xdr_ok E"
  shows "length (rep_u32 E v) = 4" "length (rep_u64 E w) = 8" "val_u32 E (rep_u32 E v) = v" "val_u64 E (rep_u64 E w) = w"
  using assms unfolding xdr_ok_def by blast+

text \<open>The name of a user or group is of moderate length and leads back to its identifier, whatever stands for nobody.\<close>

definition id_ok :: "(u32 \<Rightarrow> char list option) \<Rightarrow> (char list \<Rightarrow> u32 \<Rightarrow> u32 option) \<Rightarrow> u64 \<Rightarrow> bool" where
  "id_ok name back u \<longleftrightarrow> u < 2 ^ 32 \<and>
     (case name (ucast u) of None \<Rightarrow> False | Some s \<Rightarrow> length s \<le> 400 \<and> (\<forall>nobody. back s nobody = Some (ucast u)))"

text \<open>The times that survive: not negative and before 2106.\<close>

definition time_ok :: "timespec \<Rightarrow> bool" where
  "time_ok t \<longleftrightarrow> 0 \<le> tv_sec t \<and> tv_sec t < 2 ^ 32 \<and> 0 \<le> tv_nsec t \<and> tv_nsec t < 1000000000"

text \<open>The attributes of an object: those a client asks for, and the two forms in which it sets times.\<close>

definition object_attrs :: "nat set" where
  "object_attrs = {FATTR4_TYPE, FATTR4_CHANGE, FATTR4_SIZE, FATTR4_FSID, FATTR4_FILEID, FATTR4_MODE, FATTR4_NUMLINKS, FATTR4_OWNER,
     FATTR4_OWNER_GROUP, FATTR4_RAWDEV, FATTR4_SPACE_USED, FATTR4_TIME_ACCESS, FATTR4_TIME_ACCESS_SET, FATTR4_TIME_METADATA,
     FATTR4_TIME_MODIFY, FATTR4_TIME_MODIFY_SET}"

text \<open>What an attribute needs to survive.\<close>

definition attr_ok :: "fattr_env \<Rightarrow> attrlist \<Rightarrow> nat \<Rightarrow> bool" where
  "attr_ok E a n \<longleftrightarrow>
     xdr_ok E \<and> n \<in> object_attrs \<and>
     (n = FATTR4_TYPE \<longrightarrow> al_type a \<noteq> NO_FILE_TYPE \<and> al_type a \<noteq> EXTENDED_ATTR) \<and>
     (n = FATTR4_OWNER \<longrightarrow> id_ok (uid_name E) (name2uid E) (al_owner a)) \<and>
     (n = FATTR4_OWNER_GROUP \<longrightarrow> id_ok (gid_name E) (name2gid E) (al_group a)) \<and>
     (n = FATTR4_RAWDEV \<longrightarrow> fst (al_rawdev a) < 2 ^ 32 \<and> snd (al_rawdev a) < 2 ^ 32) \<and>
     (n = FATTR4_TIME_ACCESS \<longrightarrow> time_ok (al_atime a)) \<and>
     (n = FATTR4_TIME_ACCESS_SET \<longrightarrow> time_ok (al_atime a) \<and> al_mask a AND ATTR_ATIME_SERVER = 0) \<and>
     (n = FATTR4_TIME_METADATA \<longrightarrow> time_ok (al_ctime a)) \<and>
     (n = FATTR4_TIME_MODIFY \<longrightarrow> time_ok (al_mtime a)) \<and>
     (n = FATTR4_TIME_MODIFY_SET \<longrightarrow> time_ok (al_mtime a) \<and> al_mask a AND ATTR_MTIME_SERVER = 0)"

lemma attr_ok_object: "attr_ok E a n \<Longrightarrow> n \<in> object_attrs"
  by (simp add: attr_ok_def)

section \<open>Reading what was written\<close>

definition rd_at :: "char list \<Rightarrow> char list \<Rightarrow> xdr_in" where
  "rd_at pre rest = \<lparr>xi_bytes = pre @ rest, xi_pos = length pre\<rparr>"

lemma take_bytes_at: "n = length bs \<Longrightarrow> take_bytes n (rd_at pre (bs @ rest)) = Some (bs, rd_at (pre @ bs) rest)"
  by (simp add: take_bytes_def rd_at_def)

lemma get_u32_at: "xdr_ok E \<Longrightarrow> get_u32 E (rd_at pre (rep_u32 E v @ rest)) = Some (v, rd_at (pre @ rep_u32 E v) rest)"
  by (simp add: get_u32_def take_bytes_at)

lemma get_u64_at: "xdr_ok E \<Longrightarrow> get_u64 E (rd_at pre (rep_u64 E v @ rest)) = Some (v, rd_at (pre @ rep_u64 E v) rest)"
  by (simp add: get_u64_def take_bytes_at)

lemmas get_at = get_u32_at get_u64_at

lemma put_eq: "put bs args x =
    Some (if length (xo_bytes x) + length bs \<le> xo_size x then (FATTR_XDR_SUCCESS, args, x\<lparr>xo_bytes := xo_bytes x @ bs\<rparr>)
          else (FATTR_XDR_FAILED, args, x))"
  by (simp add: put_def emit_def)

lemma bm_clean_ok: "bm_clean bits \<Longrightarrow> bm_ok bits"
  by (simp add: bm_clean_def)

lemma zero_bitmap_clean: "bm_clean zero_bitmap" "\<not> bm_has zero_bitmap m"
  by (auto simp: bm_clean_def bm_ok_def bm_map_def zero_bitmap_def bm_has_def)

lemma set_bm_attrs: "set (bm_attrs bits) = {n. bm_has bits n}"
  unfolding bm_attrs_def set_filter set_upt using bm_has_less [of bits] by auto

lemma bm_attrs_cong: "bm_has b = bm_has c \<Longrightarrow> bm_attrs b = bm_attrs c"
  by (simp only: bm_attrs_def)

lemma bm_attrs_empty: "bm_attrs bits = [] \<longleftrightarrow> (\<forall>n. \<not> bm_has bits n)"
  using set_bm_attrs [of bits] by (simp flip: set_empty)

lemma first_attr:
  assumes "bm_ok bits"
  shows "\<exists>k. next_attr_from_bitmap bits (- 1) = Some k \<and> (bm_attrs bits = [] \<longrightarrow> k = - 1)"
proof -
  have "OFFSET 0 = 0" "BIT 0 = 0" by (simp_all add: OFFSET_div BIT_mod)
  then show ?thesis using next_from_spec [OF assms, of 0 0] by (auto simp: next_attr_from_bitmap_def bm_attrs_empty)
qed

section \<open>The contract of an attribute\<close>

text \<open>
  For the attributes that are \<open>good\<close>: the encoder writes \<open>wire\<close>, and the decoder reads it again and updates
  the attributes by \<open>carried\<close>.  Positions in the stream are 32-bit numbers.
\<close>

locale attr_codec =
  fixes good :: "fattr_env \<Rightarrow> attrlist \<Rightarrow> nat \<Rightarrow> bool"
    and wire :: "fattr_env \<Rightarrow> xdr_attrs_args \<Rightarrow> attrlist \<Rightarrow> nat \<Rightarrow> char list"
    and carried :: "fattr_env \<Rightarrow> xdr_attrs_args \<Rightarrow> attrlist \<Rightarrow> nat \<Rightarrow> attrlist \<Rightarrow> attrlist"
  assumes in_table: "good E a n \<Longrightarrow> n \<le> FATTR4_MAX"
    and writes: "good E a n \<Longrightarrow> xa_attrs args = Some a \<Longrightarrow>
      \<exists>enc. fd_encode (fattr4tab n) = Some enc \<and> enc E args x = put (wire E args a n) args x"
    and reads: "good E a n \<Longrightarrow> length (pre @ wire E args a n @ rest) < 2 ^ 32 \<Longrightarrow> xa_attrs args' = Some b \<Longrightarrow>
      \<exists>dec. fd_decode (fattr4tab n) = Some dec \<and>
        dec E args' (rd_at pre (wire E args a n @ rest)) =
          Some (FATTR_XDR_SUCCESS, args'\<lparr>xa_attrs := Some (carried E args a n b)\<rparr>, rd_at (pre @ wire E args a n) rest)"
begin

lemma encode_one:
  assumes "good E a n" "xa_attrs args = Some a" "bm_clean bm"
  shows "if length (xo_bytes x) + length (wire E args a n) \<le> xo_size x
    then \<exists>bm'. encode_body E n (ok, args, x, bm) = Some (True, True, args, x\<lparr>xo_bytes := xo_bytes x @ wire E args a n\<rparr>, bm') \<and>
           bm_clean bm' \<and> (\<forall>m. bm_has bm' m \<longleftrightarrow> m = n \<or> bm_has bm m)
    else encode_body E n (ok, args, x, bm) = Some (False, False, args, x, bm)"
proof -
  have n: "n \<le> FATTR4_MAX" by (rule in_table [OF assms(1)])
  then have "n < 96" by (simp add: FATTR4_MAX_def)
  then obtain bm' where bm': "set_attribute_in_bitmap bm n = (True, bm')" "bm_clean bm'"
    "\<And>m. bm_has bm' m \<longleftrightarrow> m = n \<or> bm_has bm m" by (rule set_attribute_in_bitmap_clean [OF assms(3)]) blast
  obtain enc where enc: "fd_encode (fattr4tab n) = Some enc" "enc E args x = put (wire E args a n) args x"
    using writes [OF assms(1,2)] by blast
  show ?thesis using n enc bm' by (auto simp: encode_body_def put_eq)
qed

lemma pack:
  assumes "\<forall>n\<in>set ns. good E a n" "xa_attrs args = Some a" "bm_clean bm"
    "length (xo_bytes x) + length (concat (map (wire E args a) ns)) \<le> xo_size x"
  obtains bm' where "each_attr (encode_body E) ns (True, args, x, bm) =
      Some (True, args, x\<lparr>xo_bytes := xo_bytes x @ concat (map (wire E args a) ns)\<rparr>, bm')"
    "bm_clean bm'" "\<And>m. bm_has bm' m \<longleftrightarrow> m \<in> set ns \<or> bm_has bm m"
  using assms
proof (induction ns arbitrary: x bm thesis)
  case (Cons n ns)
  have n: "good E a n" "\<forall>n\<in>set ns. good E a n" using Cons.prems(2) by auto
  have fits: "length (xo_bytes x) + length (wire E args a n) \<le> xo_size x" using Cons.prems(5) by simp
  obtain bm1 where bm1: "encode_body E n (True, args, x, bm) =
      Some (True, True, args, x\<lparr>xo_bytes := xo_bytes x @ wire E args a n\<rparr>, bm1)" "bm_clean bm1"
    "\<And>m. bm_has bm1 m \<longleftrightarrow> m = n \<or> bm_has bm m"
    using encode_one [OF n(1) Cons.prems(3,4), of x True] fits by auto
  obtain bm2 where bm2: "each_attr (encode_body E) ns (True, args, x\<lparr>xo_bytes := xo_bytes x @ wire E args a n\<rparr>, bm1) =
      Some (True, args, x\<lparr>xo_bytes := xo_bytes x @ wire E args a n @ concat (map (wire E args a) ns)\<rparr>, bm2)" "bm_clean bm2"
    "\<And>m. bm_has bm2 m \<longleftrightarrow> m \<in> set ns \<or> bm_has bm1 m"
    by (rule Cons.IH [OF _ n(2) Cons.prems(3) bm1(2), where x = "x\<lparr>xo_bytes := xo_bytes x @ wire E args a n\<rparr>"])
      (use Cons.prems(5) in auto)
  show ?case by (rule Cons.prems(1) [of bm2]) (use bm1 bm2 in auto)
qed simp

text \<open>What unpacking makes of the attributes: the values of the list and the bits of the mask.\<close>

definition unpacked :: "fattr_env \<Rightarrow> xdr_attrs_args \<Rightarrow> attrlist \<Rightarrow> nat list \<Rightarrow> attrlist \<Rightarrow> attrlist" where
  "unpacked E args a ns b =
     fold (\<lambda>n b. (carried E args a n b)\<lparr>al_mask := al_mask (carried E args a n b) OR fd_attrmask (fattr4tab n)\<rparr>) ns b"

lemma unpack:
  assumes "\<forall>n\<in>set ns. good E a n" "xa_attrs args' = Some b"
    "length (pre @ concat (map (wire E args a) ns)) < 2 ^ 32"
  shows "each_attr (decode_body E) ns (st, args', rd_at pre (concat (map (wire E args a) ns))) =
    Some (st, args'\<lparr>xa_attrs := Some (unpacked E args a ns b)\<rparr>, rd_at (pre @ concat (map (wire E args a) ns)) [])"
  using assms
proof (induction ns arbitrary: args' b pre)
  case Nil
  then show ?case by (simp add: unpacked_def)
next
  case (Cons n ns)
  let ?w = "wire E args a n" and ?ws = "concat (map (wire E args a) ns)"
  have n: "good E a n" "\<forall>n\<in>set ns. good E a n" using Cons.prems(1) by auto
  obtain dec where dec: "fd_decode (fattr4tab n) = Some dec" "dec E args' (rd_at pre (?w @ ?ws)) =
      Some (FATTR_XDR_SUCCESS, args'\<lparr>xa_attrs := Some (carried E args a n b)\<rparr>, rd_at (pre @ ?w) ?ws)"
    using reads [OF n(1) _ Cons.prems(2), of pre args "?ws"] Cons.prems(3) by auto
  let ?args = "set_mask (fd_attrmask (fattr4tab n)) (args'\<lparr>xa_attrs := Some (carried E args a n b)\<rparr>)"
  have "decode_body E n (st, args', rd_at pre (?w @ ?ws)) = Some (True, st, ?args, rd_at (pre @ ?w) ?ws)"
    using dec in_table [OF n(1)] by (simp add: decode_body_def)
  moreover have "xa_attrs ?args = Some (unpacked E args a [n] b)" by (simp add: set_mask_def unpacked_def)
  moreover have "?args\<lparr>xa_attrs := Some c\<rparr> = args'\<lparr>xa_attrs := Some c\<rparr>" for c by (simp add: set_mask_def)
  moreover have "unpacked E args a ns (unpacked E args a [n] b) = unpacked E args a (n # ns) b" by (simp add: unpacked_def)
  ultimately show ?case using Cons.IH [OF n(2), of ?args "unpacked E args a [n] b" "pre @ ?w"] Cons.prems(3) by simp
qed

text \<open>The two together, on a list that fits into the buffer.\<close>

lemma roundtrip:
  assumes "bm_ok bits" "\<forall>n\<in>set (bm_attrs bits). good E a n" "xa_attrs args = Some a"
    "length (concat (map (wire E args a) (bm_attrs bits))) \<le> NFS4_ATTRVALS_BUFFLEN"
    "bm_attrs bits \<noteq> [] \<Longrightarrow> concat (map (wire E args a) (bm_attrs bits)) \<noteq> []"
  shows "\<exists>f. nfs4_FSALattr_To_Fattr E args bits \<lparr>fa_mask = m0, fa_vals = []\<rparr> = Some (True, f) \<and> bm_attrs (fa_mask f) = bm_attrs bits \<and>
    bm_ok (fa_mask f) \<and> nfs4_Fattr_To_FSAL_attr E f data = Some (NFS4_OK, Some (unpacked E args a (bm_attrs bits) zero_attrlist))"
proof -
  let ?ns = "bm_attrs bits" and ?ws = "concat (map (wire E args a) (bm_attrs bits))"
  note clean = zero_bitmap_clean
  obtain bm where bm: "each_attr (encode_body E) ?ns (True, args, \<lparr>xo_bytes = [], xo_size = NFS4_ATTRVALS_BUFFLEN\<rparr>, zero_bitmap) =
      Some (True, args, \<lparr>xo_bytes = ?ws, xo_size = NFS4_ATTRVALS_BUFFLEN\<rparr>, bm)" "bm_clean bm" "\<And>m. bm_has bm m \<longleftrightarrow> m \<in> set ?ns"
    by (rule pack [OF assms(2,3) clean(1), of "\<lparr>xo_bytes = [], xo_size = NFS4_ATTRVALS_BUFFLEN\<rparr>"])
      (use assms(4) clean(2) in auto)
  have same: "bm_attrs bm = ?ns" by (rule bm_attrs_cong) (simp add: fun_eq_iff bm(3) set_bm_attrs)
  obtain k where k: "next_attr_from_bitmap bm (- 1) = Some k" "?ns = [] \<Longrightarrow> k = - 1"
    using first_attr [of bm] bm(2) same by (auto simp: bm_clean_def)
  let ?f = "\<lparr>fa_mask = if ?ns = [] then zero_bitmap else bm, fa_vals = ?ws\<rparr>"
  have "nfs4_FSALattr_To_Fattr E args bits \<lparr>fa_mask = m0, fa_vals = []\<rparr> = Some (True, ?f)"
  proof (cases "?ns = []")
    case True
    then have "bm = zero_bitmap" using bm(1) by simp
    then show ?thesis using True bm(1) by (simp add: nfs4_FSALattr_To_Fattr_def attr_loop_each [OF assms(1)] zero_bitmap_def)
  next
    case False
    then have "bm_len bits \<noteq> 0" by (auto simp: bm_attrs_empty bm_has_def)
    then show ?thesis using False assms(5) bm(1) by (simp add: nfs4_FSALattr_To_Fattr_def attr_loop_each [OF assms(1)])
  qed
  moreover have "nfs4_Fattr_To_FSAL_attr E ?f data = Some (NFS4_OK, Some (unpacked E args a ?ns zero_attrlist))"
  proof (cases "?ns = []")
    case True
    then show ?thesis
      using first_attr [OF bm_clean_ok [OF clean(1)]] bm_attrs_empty [of zero_bitmap] clean(2)
      by (auto simp: nfs4_Fattr_To_FSAL_attr_def Fattr4_To_FSAL_attr_def unpacked_def)
  next
    case False
    have "zero_attrlist\<lparr>al_mask := 0\<rparr> = zero_attrlist" by (simp add: zero_attrlist_def)
    moreover have "length ?ws < 2 ^ 32" using assms(4) by (simp add: NFS4_ATTRVALS_BUFFLEN_def)
    moreover have "\<lparr>xi_bytes = ?ws, xi_pos = 0\<rparr> = rd_at [] ?ws" by (simp add: rd_at_def)
    ultimately show ?thesis
      using False assms(5) k(1) unpack [OF assms(2), where pre = "[]" and args = args]
      by (auto simp: nfs4_Fattr_To_FSAL_attr_def Fattr4_To_FSAL_attr_def attr_loop_each [OF bm_clean_ok [OF bm(2)]] same
          zero_args_def rd_at_def Let_def)
  qed
  moreover have "bm_attrs (fa_mask ?f) = ?ns" using same bm_attrs_empty [of zero_bitmap] zero_bitmap_clean(2) by auto
  moreover have "bm_ok (fa_mask ?f)" using bm(2) clean(1) by (simp add: bm_clean_ok)
  ultimately show ?thesis by blast
qed

end

section \<open>The attributes of an object\<close>

definition fsid_of :: "fattr_env \<Rightarrow> xdr_attrs_args \<Rightarrow> attrlist \<Rightarrow> u64 \<times> u64" where
  "fsid_of E args a = (case export_fsid E of Some f \<Rightarrow> if xa_data args \<noteq> None then f else al_fsid a | None \<Rightarrow> al_fsid a)"

definition object_wire :: "fattr_env \<Rightarrow> xdr_attrs_args \<Rightarrow> attrlist \<Rightarrow> nat \<Rightarrow> char list" where
  "object_wire E args a n =
     (if n = FATTR4_TYPE then (case wire_type (al_type a) of Some t \<Rightarrow> rep_u32 E t | None \<Rightarrow> [])
      else if n = FATTR4_CHANGE then rep_u64 E (al_change a)
      else if n = FATTR4_SIZE then rep_u64 E (al_filesize a)
      else if n = FATTR4_FSID then rep_u64 E (fst (fsid_of E args a)) @ rep_u64 E (snd (fsid_of E args a))
      else if n = FATTR4_FILEID then rep_u64 E (al_fileid a)
      else if n = FATTR4_MODE then rep_u32 E (fsal2unix_mode (al_mode a))
      else if n = FATTR4_NUMLINKS then rep_u32 E (al_numlinks a)
      else if n = FATTR4_OWNER then (case uid_name E (ucast (al_owner a)) of Some s \<Rightarrow> rep_bytes E s | None \<Rightarrow> [])
      else if n = FATTR4_OWNER_GROUP then (case gid_name E (ucast (al_group a)) of Some s \<Rightarrow> rep_bytes E s | None \<Rightarrow> [])
      else if n = FATTR4_RAWDEV then rep_u64 E (specdata (al_rawdev a))
      else if n = FATTR4_SPACE_USED then rep_u64 E (al_spaceused a)
      else if n = FATTR4_TIME_ACCESS then rep_time E (al_atime a)
      else if n = FATTR4_TIME_ACCESS_SET then rep_u32 E 1 @ rep_time E (al_atime a)
      else if n = FATTR4_TIME_METADATA then rep_time E (al_ctime a)
      else if n = FATTR4_TIME_MODIFY then rep_time E (al_mtime a)
      else rep_u32 E 1 @ rep_time E (al_mtime a))"

text \<open>One attribute of \<open>a\<close> put into \<open>b\<close>.\<close>

definition object_carried :: "fattr_env \<Rightarrow> xdr_attrs_args \<Rightarrow> attrlist \<Rightarrow> nat \<Rightarrow> attrlist \<Rightarrow> attrlist" where
  "object_carried E args a n b = b
     \<lparr>al_type := if n = FATTR4_TYPE then al_type a else al_type b,
      al_filesize := if n = FATTR4_SIZE then al_filesize a else al_filesize b,
      al_fsid := if n = FATTR4_FSID then fsid_of E args a else al_fsid b,
      al_fileid := if n = FATTR4_FILEID then al_fileid a else al_fileid b,
      al_mode := if n = FATTR4_MODE then al_mode a AND 0xfff else al_mode b,
      al_numlinks := if n = FATTR4_NUMLINKS then al_numlinks a else al_numlinks b,
      al_owner := if n = FATTR4_OWNER then al_owner a else al_owner b,
      al_group := if n = FATTR4_OWNER_GROUP then al_group a else al_group b,
      al_rawdev := if n = FATTR4_RAWDEV then al_rawdev a else al_rawdev b,
      al_atime := if n = FATTR4_TIME_ACCESS \<or> n = FATTR4_TIME_ACCESS_SET then al_atime a else al_atime b,
      al_ctime := if n = FATTR4_TIME_METADATA then al_ctime a else al_ctime b,
      al_mtime := if n = FATTR4_TIME_MODIFY \<or> n = FATTR4_TIME_MODIFY_SET then al_mtime a else al_mtime b,
      al_chgtime := if n = FATTR4_CHANGE then \<lparr>tv_sec = uint (ucast (al_change a) :: u32), tv_nsec = 0\<rparr> else al_chgtime b,
      al_spaceused := if n = FATTR4_SPACE_USED then al_spaceused a else al_spaceused b,
      al_change := if n = FATTR4_CHANGE then al_change a else al_change b\<rparr>"

lemma object_entries:
  "fattr4tab FATTR4_TYPE = dent ''FATTR4_TYPE'' 1 4 FATTR4_ATTR_READ ATTR_TYPE 0 encode_type decode_type"
  "fattr4tab FATTR4_CHANGE = dent ''FATTR4_CHANGE'' 3 8 FATTR4_ATTR_READ (ATTR_CHGTIME OR ATTR_CHANGE) 0 encode_change decode_change"
  "fattr4tab FATTR4_SIZE = dent ''FATTR4_SIZE'' 4 8 FATTR4_ATTR_READ_WRITE ATTR_SIZE 0 encode_filesize decode_filesize"
  "fattr4tab FATTR4_FSID = dent ''FATTR4_FSID'' 8 16 FATTR4_ATTR_READ ATTR_FSID 0 encode_fsid decode_fsid"
  "fattr4tab FATTR4_FILEID = dent ''FATTR4_FILEID'' 20 8 FATTR4_ATTR_READ ATTR_FILEID 0 encode_fileid decode_fileid"
  "fattr4tab FATTR4_MODE = dent ''FATTR4_MODE'' 33 4 FATTR4_ATTR_READ_WRITE ATTR_MODE 0 encode_mode decode_mode"
  "fattr4tab FATTR4_NUMLINKS = dent ''FATTR4_NUMLINKS'' 35 4 FATTR4_ATTR_READ ATTR_NUMLINKS 0 encode_numlinks decode_numlinks"
  "fattr4tab FATTR4_OWNER = dent ''FATTR4_OWNER'' 36 16 FATTR4_ATTR_READ_WRITE ATTR_OWNER 0 encode_owner decode_owner"
  "fattr4tab FATTR4_OWNER_GROUP = dent ''FATTR4_OWNER_GROUP'' 37 16 FATTR4_ATTR_READ_WRITE ATTR_GROUP 0 encode_group decode_group"
  "fattr4tab FATTR4_RAWDEV = dent ''FATTR4_RAWDEV'' 41 8 FATTR4_ATTR_READ ATTR_RAWDEV 0 encode_rawdev decode_rawdev"
  "fattr4tab FATTR4_SPACE_USED = dent ''FATTR4_SPACE_USED'' 45 8 FATTR4_ATTR_READ ATTR_SPACEUSED 0 encode_spaceused decode_spaceused"
  "fattr4tab FATTR4_TIME_ACCESS = dent ''FATTR4_TIME_ACCESS'' 47 12 FATTR4_ATTR_READ ATTR_ATIME 0 encode_accesstime decode_accesstime"
  "fattr4tab FATTR4_TIME_ACCESS_SET =
     dent ''FATTR4_TIME_ACCESS_SET'' 48 24 FATTR4_ATTR_WRITE ATTR_ATIME ATTR_ATIME_SERVER encode_accesstimeset decode_accesstimeset"
  "fattr4tab FATTR4_TIME_MODIFY_SET =
     dent ''FATTR4_TIME_MODIFY_SET'' 54 24 FATTR4_ATTR_WRITE ATTR_MTIME ATTR_MTIME_SERVER encode_modifytimeset decode_modifytimeset"
  "fattr4tab FATTR4_TIME_METADATA = dent ''FATTR4_TIME_METADATA'' 52 12 FATTR4_ATTR_READ ATTR_CTIME 0 encode_metatime decode_metatime"
  "fattr4tab FATTR4_TIME_MODIFY = dent ''FATTR4_TIME_MODIFY'' 53 12 FATTR4_ATTR_READ ATTR_MTIME 0 encode_modifytime decode_modifytime"
  by (simp_all add: fattr4tab_def nth_append fattr4tab_0_def fattr4tab_20_def fattr4tab_40_def)

lemma dent_simps [simp]:
  "fd_encode (dent nm n sz acc m em enc dec) = Some enc" "fd_decode (dent nm n sz acc m em enc dec) = Some dec"
  "fd_attrmask (dent nm n sz acc m em enc dec) = m" "fd_size_fattr4 (dent nm n sz acc m em enc dec) = sz"
  by (simp_all add: dent_def)

lemma ucast_up_down: "u < 2 ^ 32 \<Longrightarrow> (ucast (ucast (u :: u64) :: u32) :: u64) = u"
  by (rule word_unat_eq_iff [THEN iffD2]) (simp add: word_less_nat_alt unsigned_ucast_eq unsigned_take_bit_eq take_bit_nat_eq_self)

lemma id_okE:
  assumes "id_ok name back u"
  obtains s where "name (ucast u) = Some s" "length s \<le> 400" "\<And>nobody. back s nobody = Some (ucast u)"
    "(ucast (ucast u :: u32) :: u64) = u"
  using assms that by (auto simp: id_ok_def ucast_up_down split: option.splits)

lemma attr_ok_values:
  assumes "attr_ok E a n"
  shows "n = FATTR4_TYPE \<Longrightarrow> \<exists>w. wire_type (al_type a) = Some w \<and> type_wire w = Some (al_type a)"
    "n = FATTR4_OWNER \<Longrightarrow> \<exists>s. uid_name E (ucast (al_owner a)) = Some s \<and> length s \<le> 400"
    "n = FATTR4_OWNER_GROUP \<Longrightarrow> \<exists>s. gid_name E (ucast (al_group a)) = Some s \<and> length s \<le> 400"
proof -
  show "n = FATTR4_TYPE \<Longrightarrow> \<exists>w. wire_type (al_type a) = Some w \<and> type_wire w = Some (al_type a)"
    using assms by (cases "al_type a") (auto simp: attr_ok_def wire_type_def type_wire_def ftype_defs)
qed (use assms in \<open>auto simp: attr_ok_def elim!: id_okE\<close>)

lemma object_writes:
  assumes "attr_ok E a n" "xa_attrs args = Some a"
  shows "\<exists>enc. fd_encode (fattr4tab n) = Some enc \<and> enc E args x = put (object_wire E args a n) args x"
proof -
  have "n \<in> object_attrs" by (rule attr_ok_object [OF assms(1)])
  then show ?thesis unfolding object_attrs_def insert_iff empty_iff
    by (elim disjE)
      (use assms attr_ok_values [OF assms(1)] in \<open>auto simp: object_entries object_entries(1) [unfolded One_nat_def] Let_def
        object_wire_def encode_type_def encode_change_def encode_filesize_def encode_fsid_def encode_fileid_def encode_mode_def
        encode_numlinks_def encode_owner_def encode_group_def encode_name_def encode_rawdev_def encode_spaceused_def
        encode_accesstime_def encode_metatime_def encode_modifytime_def encode_time_def encode_accesstimeset_def
        encode_modifytimeset_def encode_timeset_def attr_ok_def fsid_of_def\<close>)
qed

lemma decode_name_at:
  assumes "xdr_ok E" "length s < 2 ^ 32" "length (pre @ rep_bytes E s @ rest) < 2 ^ 32"
  shows "\<exists>x newpos. inline_name E (rd_at pre (rep_bytes E s @ rest)) = Some (s, x, newpos) \<and>
    try_setpos x newpos = rd_at (pre @ rep_bytes E s) rest"
proof -
  let ?len = "word_of_nat (length s) :: u32" and ?rep = "rep_u32 E (word_of_nat (length s))"
  let ?pad = "replicate (pad4 (length s)) NUL"
  let ?newpos = "word_of_nat (length (pre @ ?rep)) + ?len + (if ?len mod 4 \<noteq> 0 then 4 - ?len mod 4 else 0)"
  have len: "unat ?len = length s" using assms(2) by (simp add: unsigned_of_nat take_bit_nat_eq_self)
  have bytes: "rep_bytes E s = ?rep @ s @ ?pad" by (simp add: rep_bytes_def)
  have small: "length pre + 4 + length s + pad4 (length s) < 2 ^ 32" using assms(1,3) by (simp add: bytes)
  have rem: "unat (?len mod 4) = length s mod 4" by (simp add: unat_mod len)
  then have zero: "?len mod 4 = 0 \<longleftrightarrow> length s mod 4 = 0" by (simp add: unat_eq_0 [symmetric])
  have "unat (if ?len mod 4 \<noteq> 0 then 4 - ?len mod 4 else 0) = pad4 (length s)"
    using zero rem by (simp add: pad4_def unat_sub word_le_nat_alt)
  then have "(if ?len mod 4 \<noteq> 0 then 4 - ?len mod 4 else 0) = word_of_nat (pad4 (length s))"
    using small by (intro word_unat_eq_iff [THEN iffD2]) (simp add: unsigned_of_nat take_bit_nat_eq_self)
  then have "?newpos = word_of_nat (length pre + 4 + length s + pad4 (length s))" using assms(1) by simp
  then have pos: "unat ?newpos = length pre + 4 + length s + pad4 (length s)"
    using small by (simp add: unsigned_of_nat take_bit_nat_eq_self del: of_nat_add of_nat_numeral)
  have "inline_name E (rd_at pre (rep_bytes E s @ rest)) = Some (s, rd_at (pre @ ?rep @ s) (?pad @ rest), ?newpos)"
    using len by (simp add: inline_name_def bytes get_at [OF assms(1)] take_bytes_at Let_def) (simp add: rd_at_def)
  moreover have "try_setpos (rd_at (pre @ ?rep @ s) (?pad @ rest)) ?newpos = rd_at (pre @ rep_bytes E s) rest"
    unfolding try_setpos_def xdr_setpos_def pos by (simp add: rd_at_def bytes assms(1))
  ultimately show ?thesis by blast
qed

lemma decode_time_at:
  assumes "xdr_ok E" "time_ok t" "xa_attrs args = Some b"
  shows "decode_time upd E args (rd_at pre (rep_time E t @ rest)) =
    Some (FATTR_XDR_SUCCESS, args\<lparr>xa_attrs := Some (upd t b)\<rparr>, rd_at (pre @ rep_time E t) rest)"
proof -
  have sec: "uint (ucast (word_of_int (tv_sec t) :: u64) :: u32) = tv_sec t"
    using assms(2) by (simp add: time_ok_def unsigned_ucast_eq uint_word_of_int take_bit_int_eq_self)
  have nsec: "uint (word_of_int (tv_nsec t) :: u32) = tv_nsec t"
    using assms(2) by (simp add: time_ok_def unsigned_of_int take_bit_int_eq_self)
  then have "\<not> (1000000000 \<le> (word_of_int (tv_nsec t) :: u32))" using assms(2) by (simp add: word_le_def time_ok_def)
  then show ?thesis using assms(3) sec nsec
    by (cases t) (simp add: decode_time_def rep_time_def get_at [OF assms(1)] Let_def)
qed

lemma mode_bits: "unix2fsal_mode (fsal2unix_mode m) = m AND 0xfff"
proof -
  have "(NOT 0xf000 AND 0xFFFF :: u32) = 0xfff" by simp
  then show ?thesis by (simp add: unix2fsal_mode_def fsal2unix_mode_def and.assoc)
qed

lemma specdata_halves:
  "(ucast (specdata d) :: u32) = ucast (fst d)" "(ucast (drop_bit 32 (specdata d)) :: u32) = ucast (snd d)"
  by (rule bit_word_eqI; auto simp: specdata_def bit_ucast_iff bit_or_iff bit_push_bit_iff bit_drop_bit_eq)+

lemma decode_timeset_at:
  assumes "xdr_ok E" "time_ok t" "xa_attrs args = Some b"
  shows "decode_timeset upd E args (rd_at pre (rep_u32 E 1 @ rep_time E t @ rest)) =
    Some (FATTR_XDR_SUCCESS, args\<lparr>xa_attrs := Some (upd t b)\<rparr>, rd_at (pre @ rep_u32 E 1 @ rep_time E t) rest)"
  using decode_time_at [OF assms, of upd "pre @ rep_u32 E 1" rest] by (simp add: decode_timeset_def get_at [OF assms(1)])

lemma decode_owner_at:
  assumes "xdr_ok E" "id_ok (uid_name E) (name2uid E) u" "uid_name E (ucast u) = Some s"
    "length (pre @ rep_bytes E s @ rest) < 2 ^ 32" "xa_attrs args = Some b"
  shows "decode_owner E args (rd_at pre (rep_bytes E s @ rest)) =
    Some (FATTR_XDR_SUCCESS, args\<lparr>xa_attrs := Some (b\<lparr>al_owner := u\<rparr>)\<rparr>, rd_at (pre @ rep_bytes E s) rest)"
proof -
  have "length s < 2 ^ 32" using assms(2,3) by (simp add: id_ok_def)
  then obtain x newpos where "inline_name E (rd_at pre (rep_bytes E s @ rest)) = Some (s, x, newpos)"
    "try_setpos x newpos = rd_at (pre @ rep_bytes E s) rest" using decode_name_at [OF assms(1) _ assms(4)] by blast
  then show ?thesis using assms(3,5) by (auto simp: decode_owner_def intro: id_okE [OF assms(2)])
qed

lemma decode_group_at:
  assumes "xdr_ok E" "id_ok (gid_name E) (name2gid E) u" "gid_name E (ucast u) = Some s"
    "length (pre @ rep_bytes E s @ rest) < 2 ^ 32" "xa_attrs args = Some b"
  shows "decode_group E args (rd_at pre (rep_bytes E s @ rest)) =
    Some (FATTR_XDR_SUCCESS, args\<lparr>xa_attrs := Some (b\<lparr>al_group := u\<rparr>)\<rparr>, rd_at (pre @ rep_bytes E s) rest)"
proof -
  have "length s < 2 ^ 32" using assms(2,3) by (simp add: id_ok_def)
  then obtain x newpos where "inline_name E (rd_at pre (rep_bytes E s @ rest)) = Some (s, x, newpos)"
    "try_setpos x newpos = rd_at (pre @ rep_bytes E s) rest" using decode_name_at [OF assms(1) _ assms(4)] by blast
  then show ?thesis using assms(3,5) by (auto simp: decode_group_def intro: id_okE [OF assms(2)])
qed

lemma object_reads:
  assumes "attr_ok E a n" "length (pre @ object_wire E args a n @ rest) < 2 ^ 32" "xa_attrs args' = Some b"
  shows "\<exists>dec. fd_decode (fattr4tab n) = Some dec \<and>
    dec E args' (rd_at pre (object_wire E args a n @ rest)) =
      Some (FATTR_XDR_SUCCESS, args'\<lparr>xa_attrs := Some (object_carried E args a n b)\<rparr>, rd_at (pre @ object_wire E args a n) rest)"
proof -
  have E: "xdr_ok E" and n: "n \<in> object_attrs" using assms(1) by (simp_all add: attr_ok_def)
  have dev: "n = FATTR4_RAWDEV \<Longrightarrow> (ucast (ucast (fst (al_rawdev a)) :: u32), ucast (ucast (snd (al_rawdev a)) :: u32)) = al_rawdev a"
    using assms(1) ucast_up_down [of "fst (al_rawdev a)"] ucast_up_down [of "snd (al_rawdev a)"] by (simp add: attr_ok_def)
  note vals = attr_ok_values [OF assms(1)]
  consider (owner) "n = FATTR4_OWNER" | (grp) "n = FATTR4_OWNER_GROUP" | (other) "n \<in> object_attrs - {FATTR4_OWNER, FATTR4_OWNER_GROUP}"
    using n by blast
  then show ?thesis
  proof cases
    case owner
    then show ?thesis using vals(2) decode_owner_at [OF E _ _ _ assms(3), of "al_owner a" _ pre rest] assms(1,2)
      by (auto simp: object_entries object_wire_def object_carried_def attr_ok_def)
  next
    case grp
    then show ?thesis using vals(3) decode_group_at [OF E _ _ _ assms(3), of "al_group a" _ pre rest] assms(1,2)
      by (auto simp: object_entries object_wire_def object_carried_def attr_ok_def)
  next
    case other
    then show ?thesis unfolding object_attrs_def Diff_iff insert_iff empty_iff
      by (elim conjE disjE)
        (use assms(1,3) vals(1) dev in \<open>auto simp: object_entries object_entries(1) [unfolded One_nat_def] object_wire_def
          object_carried_def get_at [OF E] get_attr_def decode_type_def decode_change_def decode_filesize_def decode_fsid_def
          decode_fileid_def decode_mode_def decode_numlinks_def decode_rawdev_def decode_spaceused_def decode_accesstime_def
          decode_metatime_def decode_modifytime_def decode_accesstimeset_def decode_modifytimeset_def decode_time_at [OF E]
          decode_timeset_at [OF E] attr_ok_def mode_bits specdata_halves\<close>)
  qed
qed

interpretation object_codec: attr_codec attr_ok object_wire object_carried
proof unfold_locales
  fix E a n
  assume "attr_ok E a n"
  then have "n \<in> object_attrs" by (rule attr_ok_object)
  then show "n \<le> FATTR4_MAX" by (auto simp: object_attrs_def FATTR4_MAX_def)
qed (fact object_writes, fact object_reads)

section \<open>What a reply carries\<close>

definition mask_of :: "nat list \<Rightarrow> u64" where
  "mask_of ns = foldr (\<lambda>n m. fd_attrmask (fattr4tab n) OR m) ns 0"

text \<open>The attributes of \<open>a\<close> that a bitmap selects, everything else zero.\<close>

definition selected :: "fattr_env \<Rightarrow> xdr_attrs_args \<Rightarrow> attrlist \<Rightarrow> bitmap4 \<Rightarrow> attrlist" where
  "selected E args a bits = zero_attrlist
     \<lparr>al_mask := mask_of (bm_attrs bits),
      al_type := if bm_has bits FATTR4_TYPE then al_type a else NO_FILE_TYPE,
      al_filesize := if bm_has bits FATTR4_SIZE then al_filesize a else 0,
      al_fsid := if bm_has bits FATTR4_FSID then fsid_of E args a else (0, 0),
      al_fileid := if bm_has bits FATTR4_FILEID then al_fileid a else 0,
      al_mode := if bm_has bits FATTR4_MODE then al_mode a AND 0xfff else 0,
      al_numlinks := if bm_has bits FATTR4_NUMLINKS then al_numlinks a else 0,
      al_owner := if bm_has bits FATTR4_OWNER then al_owner a else 0,
      al_group := if bm_has bits FATTR4_OWNER_GROUP then al_group a else 0,
      al_rawdev := if bm_has bits FATTR4_RAWDEV then al_rawdev a else (0, 0),
      al_atime := if bm_has bits FATTR4_TIME_ACCESS \<or> bm_has bits FATTR4_TIME_ACCESS_SET then al_atime a else zero_time,
      al_ctime := if bm_has bits FATTR4_TIME_METADATA then al_ctime a else zero_time,
      al_mtime := if bm_has bits FATTR4_TIME_MODIFY \<or> bm_has bits FATTR4_TIME_MODIFY_SET then al_mtime a else zero_time,
      al_chgtime := if bm_has bits FATTR4_CHANGE then \<lparr>tv_sec = uint (ucast (al_change a) :: u32), tv_nsec = 0\<rparr> else zero_time,
      al_spaceused := if bm_has bits FATTR4_SPACE_USED then al_spaceused a else 0,
      al_change := if bm_has bits FATTR4_CHANGE then al_change a else 0\<rparr>"

lemma mask_of_simps [simp]: "mask_of [] = 0" "mask_of (n # ns) = fd_attrmask (fattr4tab n) OR mask_of ns"
  by (simp_all add: mask_of_def)

lemma unpacked_fields:
  "object_codec.unpacked E args a ns b = b
     \<lparr>al_mask := al_mask b OR mask_of ns,
      al_type := if FATTR4_TYPE \<in> set ns then al_type a else al_type b,
      al_filesize := if FATTR4_SIZE \<in> set ns then al_filesize a else al_filesize b,
      al_fsid := if FATTR4_FSID \<in> set ns then fsid_of E args a else al_fsid b,
      al_fileid := if FATTR4_FILEID \<in> set ns then al_fileid a else al_fileid b,
      al_mode := if FATTR4_MODE \<in> set ns then al_mode a AND 0xfff else al_mode b,
      al_numlinks := if FATTR4_NUMLINKS \<in> set ns then al_numlinks a else al_numlinks b,
      al_owner := if FATTR4_OWNER \<in> set ns then al_owner a else al_owner b,
      al_group := if FATTR4_OWNER_GROUP \<in> set ns then al_group a else al_group b,
      al_rawdev := if FATTR4_RAWDEV \<in> set ns then al_rawdev a else al_rawdev b,
      al_atime := if FATTR4_TIME_ACCESS \<in> set ns \<or> FATTR4_TIME_ACCESS_SET \<in> set ns then al_atime a else al_atime b,
      al_ctime := if FATTR4_TIME_METADATA \<in> set ns then al_ctime a else al_ctime b,
      al_mtime := if FATTR4_TIME_MODIFY \<in> set ns \<or> FATTR4_TIME_MODIFY_SET \<in> set ns then al_mtime a else al_mtime b,
      al_chgtime := if FATTR4_CHANGE \<in> set ns then \<lparr>tv_sec = uint (ucast (al_change a) :: u32), tv_nsec = 0\<rparr> else al_chgtime b,
      al_spaceused := if FATTR4_SPACE_USED \<in> set ns then al_spaceused a else al_spaceused b,
      al_change := if FATTR4_CHANGE \<in> set ns then al_change a else al_change b\<rparr>"
proof (induction ns arbitrary: b)
  case Nil
  then show ?case by (simp add: object_codec.unpacked_def)
next
  case (Cons n ns)
  have step: "object_codec.unpacked E args a (n # ns) b = object_codec.unpacked E args a ns
      ((object_carried E args a n b)\<lparr>al_mask := al_mask b OR fd_attrmask (fattr4tab n)\<rparr>)"
    by (simp add: object_codec.unpacked_def object_carried_def)
  show ?case unfolding step Cons.IH
    by (rule attrlist.equality) (simp_all add: object_carried_def or.assoc)
qed

definition wire_bound :: "nat \<Rightarrow> nat" where
  "wire_bound n =
     (if n = FATTR4_OWNER \<or> n = FATTR4_OWNER_GROUP then 407
      else if n = FATTR4_FSID \<or> n = FATTR4_TIME_ACCESS_SET \<or> n = FATTR4_TIME_MODIFY_SET then 16 else 12)"

lemma object_wire_length:
  assumes "attr_ok E a n"
  shows "4 \<le> length (object_wire E args a n) \<and> length (object_wire E args a n) \<le> wire_bound n"
proof -
  have E: "xdr_ok E" and n: "n \<in> object_attrs" using assms by (simp_all add: attr_ok_def)
  have pad: "pad4 k \<le> 3" for k by (simp add: pad4_def) presburger
  have bytes: "4 \<le> length (rep_bytes E s)" "length s \<le> 400 \<Longrightarrow> length (rep_bytes E s) \<le> 407" for s
    using pad [of "length s"] by (simp_all add: rep_bytes_def E)
  from n show ?thesis unfolding object_attrs_def insert_iff empty_iff
    by (elim disjE) (use attr_ok_values [OF assms] bytes in \<open>auto simp: object_wire_def wire_bound_def rep_time_def E\<close>)
qed

lemma object_list_fits:
  assumes "\<forall>n\<in>set ns. attr_ok E a n" "distinct ns"
  shows "length (concat (map (object_wire E args a) ns)) \<le> NFS4_ATTRVALS_BUFFLEN"
proof -
  have sub: "set ns \<subseteq> object_attrs" using assms(1) attr_ok_object by blast
  have "length (concat (map (object_wire E args a) ns)) = (\<Sum>n\<leftarrow>ns. length (object_wire E args a n))"
    by (simp add: length_concat comp_def)
  also have "\<dots> \<le> (\<Sum>n\<leftarrow>ns. wire_bound n)" by (rule sum_list_mono) (use object_wire_length assms(1) in blast)
  also have "\<dots> = sum wire_bound (set ns)" by (rule sum_list_distinct_conv_sum_set [OF assms(2)])
  also have "\<dots> \<le> sum wire_bound object_attrs" using sub by (intro sum_mono2) (auto simp: object_attrs_def)
  also have "\<dots> \<le> NFS4_ATTRVALS_BUFFLEN" by (simp add: object_attrs_def wire_bound_def NFS4_ATTRVALS_BUFFLEN_def)
  finally show ?thesis .
qed

lemma fattr_carries:
  assumes "xa_attrs args = Some a" "bm_ok bits" "\<forall>n. bm_has bits n \<longrightarrow> attr_ok E a n"
  shows "\<exists>f. nfs4_FSALattr_To_Fattr E args bits \<lparr>fa_mask = m0, fa_vals = []\<rparr> = Some (True, f) \<and> bm_attrs (fa_mask f) = bm_attrs bits \<and>
    bm_ok (fa_mask f) \<and> nfs4_Fattr_To_FSAL_attr E f data = Some (NFS4_OK, Some (selected E args a bits))"
proof -
  let ?ns = "bm_attrs bits"
  have good: "\<forall>n\<in>set ?ns. attr_ok E a n" using assms(3) by (simp add: set_bm_attrs)
  have "distinct ?ns" unfolding bm_attrs_def by (intro distinct_filter distinct_upt)
  then have fits: "length (concat (map (object_wire E args a) ?ns)) \<le> NFS4_ATTRVALS_BUFFLEN"
    by (rule object_list_fits [OF good])
  have full: "concat (map (object_wire E args a) ?ns) \<noteq> []" if "?ns \<noteq> []"
    using that object_wire_length [of E a "hd ?ns" args] good by (cases ?ns) auto
  have "object_codec.unpacked E args a ?ns zero_attrlist = selected E args a bits"
    unfolding unpacked_fields selected_def by (simp add: set_bm_attrs zero_attrlist_def)
  then show ?thesis using object_codec.roundtrip [OF assms(2) good assms(1) fits full] by simp
qed

text \<open>
  C12: for every choice of the attributes of an object, packing them into a reply succeeds, and
  unpacking the reply succeeds and gives exactly the chosen attributes: the values of the object where
  the bitmap has the attribute, zero elsewhere, and the mask of what was chosen.  The mode loses its
  type bits, and the identifiers of users and groups travel as names.  Each chosen attribute only has to
  be one that the format can hold.
\<close>

theorem fattr_roundtrip:
  assumes "xa_attrs args = Some a" "bm_ok bits" "\<forall>n. bm_has bits n \<longrightarrow> attr_ok E a n"
  shows "\<exists>f. nfs4_FSALattr_To_Fattr E args bits \<lparr>fa_mask = m0, fa_vals = []\<rparr> = Some (True, f) \<and>
    nfs4_Fattr_To_FSAL_attr E f data = Some (NFS4_OK, Some (selected E args a bits))"
  using fattr_carries [OF assms] by blast

text \<open>Integers in network byte order, and a server whose only user and group is the first.\<close>

fun be_bytes :: "nat \<Rightarrow> nat \<Rightarrow> char list" where
  "be_bytes 0 n = []"
| "be_bytes (Suc k) n = be_bytes k (n div 256) @ [char_of (n mod 256)]"

definition be_val :: "char list \<Rightarrow> nat" where
  "be_val bs = foldl (\<lambda>v c. v * 256 + of_char c) 0 bs"

lemma be_val_bytes: "be_val (be_bytes k n) = n mod 256 ^ k"
  by (induction k arbitrary: n) (simp_all add: be_val_def mod_mult2_eq)

lemma length_be_bytes [simp]: "length (be_bytes k n) = k"
  by (induction k arbitrary: n) simp_all

definition network_env :: fattr_env where
  "network_env =
     \<lparr>rep_u32 = \<lambda>v. be_bytes 4 (unat v), val_u32 = \<lambda>bs. word_of_nat (be_val bs),
      rep_u64 = \<lambda>v. be_bytes 8 (unat v), val_u64 = \<lambda>bs. word_of_nat (be_val bs),
      uid_name = \<lambda>u. Some ''root'', gid_name = \<lambda>g. Some ''root'', name2uid = \<lambda>s n. Some 0, name2gid = \<lambda>s n. Some 0,
      acl_new_entry = \<lambda>aces. True, fs_supports = \<lambda>opt. True, fs_acl_support = 0, fs_maxfilesize = 0, fs_maxlink = 1,
      fs_maxnamelen = 255, fs_layouttypes = [], fs_layout_blocksize = 0, export_fsid = None, export_MaxRead = 0,
      export_MaxWrite = 0, anonymous_uid = 0, anonymous_gid = 0, lease_lifetime = 60, statfs = None\<rparr>"

definition some_attrs :: attrlist where
  "some_attrs = zero_attrlist
     \<lparr>al_type := REGULAR_FILE, al_filesize := 5000, al_mode := 0x81a4, al_mtime := \<lparr>tv_sec = 1500000000, tv_nsec = 7\<rparr>\<rparr>"

text \<open>The bitmap of a list of attributes.\<close>

definition bits_of :: "nat list \<Rightarrow> bitmap4" where
  "bits_of ns = fold (\<lambda>n bits. snd (set_attribute_in_bitmap bits n)) ns zero_bitmap"

lemma bits_of_fold:
  assumes "bm_clean bits" "\<forall>n\<in>set ns. n < 96"
  shows "bm_clean (fold (\<lambda>n bits. snd (set_attribute_in_bitmap bits n)) ns bits) \<and>
    (\<forall>m. bm_has (fold (\<lambda>n bits. snd (set_attribute_in_bitmap bits n)) ns bits) m \<longleftrightarrow> m \<in> set ns \<or> bm_has bits m)"
  using assms
proof (induction ns arbitrary: bits)
  case (Cons n ns)
  have "n < 96" using Cons.prems(2) by simp
  then obtain b where "set_attribute_in_bitmap bits n = (True, b)" "bm_clean b" "\<And>m. bm_has b m \<longleftrightarrow> m = n \<or> bm_has bits m"
    by (rule set_attribute_in_bitmap_clean [OF Cons.prems(1)]) blast
  then show ?case using Cons.IH [of b] Cons.prems(2) by auto
qed simp

lemma bits_of:
  assumes "\<forall>n\<in>set ns. n < 96"
  shows "bm_ok (bits_of ns)" "bm_has (bits_of ns) m \<longleftrightarrow> m \<in> set ns" "bm_attrs (bits_of ns) = filter (\<lambda>m. m \<in> set ns) [0..<96]"
proof -
  have has: "bm_has (bits_of ns) m \<longleftrightarrow> m \<in> set ns" for m
    using bits_of_fold [OF zero_bitmap_clean(1) assms] zero_bitmap_clean(2) by (simp add: bits_of_def)
  then show "bm_has (bits_of ns) m \<longleftrightarrow> m \<in> set ns" .
  show "bm_ok (bits_of ns)" using bits_of_fold [OF zero_bitmap_clean(1) assms] by (simp add: bits_of_def bm_clean_ok)
  show "bm_attrs (bits_of ns) = filter (\<lambda>m. m \<in> set ns) [0..<96]" unfolding bm_attrs_def ext [OF has] ..
qed

definition some_attr_list :: "nat list" where
  "some_attr_list = [FATTR4_TYPE, FATTR4_SIZE, FATTR4_MODE, FATTR4_TIME_MODIFY]"

lemma network_xdr_ok: "xdr_ok network_env"
proof -
  have "unat (v :: u32) < 2 ^ LENGTH(32)" for v by (rule unsigned_less)
  moreover have "unat (v :: u64) < 2 ^ LENGTH(64)" for v by (rule unsigned_less)
  ultimately show ?thesis by (simp add: xdr_ok_def network_env_def be_val_bytes)
qed

lemma some_attrs_ok: "n \<in> set some_attr_list \<Longrightarrow> attr_ok network_env some_attrs n"
  using network_xdr_ok
  by (auto simp: attr_ok_def some_attr_list_def some_attrs_def object_attrs_def time_ok_def zero_attrlist_def)

theorem fattr_roundtrip_witness:
  "\<exists>f. nfs4_FSALattr_To_Fattr network_env (zero_args (Some some_attrs) None) (bits_of some_attr_list) \<lparr>fa_mask = zero_bitmap, fa_vals = []\<rparr> =
       Some (True, f) \<and>
     nfs4_Fattr_To_FSAL_attr network_env f None = Some (NFS4_OK, Some (zero_attrlist
       \<lparr>al_mask := mask_of (bm_attrs (bits_of some_attr_list)), al_type := REGULAR_FILE, al_filesize := 5000, al_mode := 0x1a4,
        al_mtime := \<lparr>tv_sec = 1500000000, tv_nsec = 7\<rparr>\<rparr>))"
proof -
  have "selected network_env (zero_args (Some some_attrs) None) some_attrs (bits_of some_attr_list) = zero_attrlist
       \<lparr>al_mask := mask_of (bm_attrs (bits_of some_attr_list)), al_type := REGULAR_FILE, al_filesize := 5000, al_mode := 0x1a4,
        al_mtime := \<lparr>tv_sec = 1500000000, tv_nsec = 7\<rparr>\<rparr>"
    by (simp add: selected_def bits_of(2) some_attr_list_def some_attrs_def zero_attrlist_def)
  then show ?thesis
    using fattr_roundtrip [of "zero_args (Some some_attrs) None" some_attrs "bits_of some_attr_list" network_env zero_bitmap None]
      bits_of [of some_attr_list] some_attrs_ok
    by (simp add: zero_args_def some_attr_list_def)
qed

section \<open>Comparing lists\<close>

text \<open>The number of leading bytes that decide the comparison: the size of the largest attribute.\<close>

definition cmp_width :: "nat list \<Rightarrow> nat" where
  "cmp_width ns = foldr (\<lambda>n k. max (fd_size_fattr4 (fattr4tab n)) k) ns 0"

lemma cmp_width_simps [simp]:
  "cmp_width [] = 0" "cmp_width (n # ns) = max (fd_size_fattr4 (fattr4tab n)) (cmp_width ns)"
  by (simp_all add: cmp_width_def)

lemma take_less_eq:
  assumes "take j v = take j w" "i \<le> j"
  shows "take i v = take i w"
proof -
  have "take i v = take i (take j v)" "take i w = take i (take j w)" using assms(2) by (simp_all add: take_take)
  then show ?thesis using assms(1) by simp
qed

lemma take_max_eq: "take (max i j) v = take (max i j) w \<longleftrightarrow> take i v = take i w \<and> take j v = take j w"
  by (auto simp: max_def intro: take_less_eq)

lemma cmp_fixed_body:
  assumes "cmp_fixed n" "fd_size_fattr4 (fattr4tab n) \<le> length v" "fd_size_fattr4 (fattr4tab n) \<le> length w"
  shows "cmp_body E v w n (res, 0) =
    Some (if take (fd_size_fattr4 (fattr4tab n)) v = take (fd_size_fattr4 (fattr4tab n)) w then (True, res, 0) else (False, 0, 0))"
proof -
  have "n \<le> FATTR4_MAX" "n \<noteq> FATTR4_SUPPORTED_ATTRS" "n \<noteq> FATTR4_FILEHANDLE" "n \<noteq> FATTR4_OWNER" "n \<noteq> FATTR4_OWNER_GROUP"
    using assms(1) unfolding cmp_fixed_def FATTR4_MAX_def by (elim disjE; simp)+
  then show ?thesis using assms by (simp add: cmp_body_def same_bytes_def)
qed

lemma cmp_each:
  assumes "\<forall>n\<in>set ns. cmp_fixed n" "cmp_width ns \<le> length v" "cmp_width ns \<le> length w"
  shows "each_attr (cmp_body E v w) ns (1, 0) = Some (if take (cmp_width ns) v = take (cmp_width ns) w then (1, 0) else (0, 0))"
  using assms by (induction ns) (simp_all add: cmp_fixed_body take_max_eq)

text \<open>
  C38: two lists with the same attributes of fixed size are compared only on as many of their first bytes
  as the largest attribute has: the offset is never advanced, and values that come later are
  not looked at.
\<close>

theorem fattr_cmp_prefix:
  assumes "bm_ok bm" "\<forall>n. bm_has bm n \<longrightarrow> cmp_fixed n \<and> n \<noteq> FATTR4_RDATTR_ERROR"
    "cmp_width (bm_attrs bm) \<le> length v" "cmp_width (bm_attrs bm) \<le> length w"
  shows "nfs4_Fattr_cmp E \<lparr>fa_mask = bm, fa_vals = v\<rparr> \<lparr>fa_mask = bm, fa_vals = w\<rparr> =
    Some (if take (cmp_width (bm_attrs bm)) v = take (cmp_width (bm_attrs bm)) w then 1 else 0)"
proof -
  have "attribute_is_set bm FATTR4_RDATTR_ERROR = Some False" using attribute_is_set_iff [OF assms(1)] assms(2) by auto
  moreover obtain ws where "bm_words bm (unat (bm_len bm)) = Some ws" using assms(1) by (simp add: bm_words_def bm_ok_def)
  ultimately show ?thesis
    using cmp_each [of "bm_attrs bm" v w E] assms(2-4)
    by (simp add: nfs4_Fattr_cmp_def attr_loop_each [OF assms(1)] set_bm_attrs)
qed

text \<open>Two files of size 0 with modes 0 and 1.\<close>

theorem fattr_cmp_prefix_witness:
  "nfs4_Fattr_cmp network_env
     \<lparr>fa_mask = bits_of [FATTR4_SIZE, FATTR4_MODE], fa_vals = replicate 8 NUL @ [NUL, NUL, NUL, NUL]\<rparr>
     \<lparr>fa_mask = bits_of [FATTR4_SIZE, FATTR4_MODE], fa_vals = replicate 8 NUL @ [NUL, NUL, NUL, CHR 0x01]\<rparr> = Some 1"
proof -
  let ?bm = "bits_of [FATTR4_SIZE, FATTR4_MODE]"
  have "filter (\<lambda>m. m \<in> set [FATTR4_SIZE, FATTR4_MODE]) [0..<96] = [FATTR4_SIZE, FATTR4_MODE]" by code_simp
  then have attrs: "bm_attrs ?bm = [FATTR4_SIZE, FATTR4_MODE]" by (subst bits_of(3)) simp_all
  have "bm_ok ?bm" "\<forall>n. bm_has ?bm n \<longrightarrow> cmp_fixed n \<and> n \<noteq> FATTR4_RDATTR_ERROR" by (auto simp: bits_of(1,2) cmp_fixed_def)
  from fattr_cmp_prefix [OF this, of "replicate 8 NUL @ [NUL, NUL, NUL, NUL]" "replicate 8 NUL @ [NUL, NUL, NUL, CHR 0x01]" network_env]
  show ?thesis by (simp add: attrs object_entries)
qed

text \<open>
  The permission to read an access control list makes no difference unless the attribute with
  number 32, the type of media, is asked for.
\<close>

lemma acl_permission_unchecked:
  assumes "bm_ok bits" "\<not> bm_has bits FATTR4_MIMETYPE"
  shows "cache_entry_To_Fattr E access getattr f data fh bits = cache_entry_To_Fattr E CACHE_INODE_SUCCESS getattr f data fh bits"
  using attribute_is_set_iff [OF assms(1), of 32] assms(2) by (simp add: cache_entry_To_Fattr_def ATTR_ACL_def)

end
