(* ===== verification/Attr_Convert.thy ===== *)
theory Attr_Convert
  imports Fattr_Props Tc_Api
begin

text \<open>
  Attributes between the client API and the wire (\<^verbatim>\<open>nfs4/handle.c\<close>): the bitmap that asks for the
  attributes a mask selects, the packed list that sets attributes, and the conversion of a reply
  into \<open>vattrs\<close>.  Together with the codec: a client that asks for attributes gets the values of
  the server for exactly those, and a server that is asked to set attributes gets the values of the
  client.
\<close>

unbundle bit_operations_syntax

section \<open>Bitmaps\<close>

definition PXY_ATTR_BIT :: "nat \<Rightarrow> u32" where "PXY_ATTR_BIT b = push_bit b 1"
definition PXY_ATTR_BIT2 :: "nat \<Rightarrow> u32" where "PXY_ATTR_BIT2 b = push_bit (b - 32) 1"

definition fs_bitmap_getattr :: bitmap4 where
  "fs_bitmap_getattr =
     \<lparr>bm_len = 2,
      bm_map0 = PXY_ATTR_BIT FATTR4_TYPE OR PXY_ATTR_BIT FATTR4_CHANGE OR PXY_ATTR_BIT FATTR4_SIZE OR
        PXY_ATTR_BIT FATTR4_FSID OR PXY_ATTR_BIT FATTR4_FILEID,
      bm_map1 = PXY_ATTR_BIT2 FATTR4_MODE OR PXY_ATTR_BIT2 FATTR4_NUMLINKS OR PXY_ATTR_BIT2 FATTR4_OWNER OR
        PXY_ATTR_BIT2 FATTR4_OWNER_GROUP OR PXY_ATTR_BIT2 FATTR4_SPACE_USED OR PXY_ATTR_BIT2 FATTR4_TIME_ACCESS OR
        PXY_ATTR_BIT2 FATTR4_TIME_METADATA OR PXY_ATTR_BIT2 FATTR4_TIME_MODIFY OR PXY_ATTR_BIT2 FATTR4_RAWDEV,
      bm_map2 = 0\<rparr>"

definition fs_bitmap_readdir :: bitmap4 where
  "fs_bitmap_readdir = \<lparr>bm_len = 1, bm_map0 = PXY_ATTR_BIT FATTR4_TYPE, bm_map1 = 0, bm_map2 = 0\<rparr>"

definition tc_bitmap_readdir :: bitmap4 where
  "tc_bitmap_readdir =
     \<lparr>bm_len = 1, bm_map0 = PXY_ATTR_BIT FATTR4_TYPE OR PXY_ATTR_BIT FATTR4_RDATTR_ERROR, bm_map1 = 0, bm_map2 = 0\<rparr>"

definition fs_bitmap_fsinfo :: bitmap4 where
  "fs_bitmap_fsinfo =
     \<lparr>bm_len = 2,
      bm_map0 = PXY_ATTR_BIT FATTR4_FILES_AVAIL OR PXY_ATTR_BIT FATTR4_FILES_FREE OR PXY_ATTR_BIT FATTR4_FILES_TOTAL,
      bm_map1 = PXY_ATTR_BIT2 FATTR4_SPACE_AVAIL OR PXY_ATTR_BIT2 FATTR4_SPACE_FREE OR PXY_ATTR_BIT2 FATTR4_SPACE_TOTAL,
      bm_map2 = 0\<rparr>"

definition empty_bitmap :: bitmap4 where
  "empty_bitmap = \<lparr>bm_len = 2, bm_map0 = 0, bm_map1 = 0, bm_map2 = 0\<rparr>"

text \<open>\<^verbatim>\<open>bm->map[i] |= bit\<close> and \<^verbatim>\<open>bm->bitmap4_len = MAX(bm->bitmap4_len, k)\<close>.\<close>

definition or0 :: "nat \<Rightarrow> bitmap4 \<Rightarrow> bitmap4" where
  "or0 n bm = bm\<lparr>bm_map0 := bm_map0 bm OR PXY_ATTR_BIT n\<rparr>"

definition or1 :: "nat \<Rightarrow> bitmap4 \<Rightarrow> bitmap4" where
  "or1 n bm = bm\<lparr>bm_map1 := bm_map1 bm OR PXY_ATTR_BIT2 n\<rparr>"

definition at_least :: "u32 \<Rightarrow> bitmap4 \<Rightarrow> bitmap4" where
  "at_least k bm = bm\<lparr>bm_len := max (bm_len bm) k\<rparr>"

definition tc_attr_masks_to_bitmap :: "vattrs_masks \<Rightarrow> bitmap4" where
  "tc_attr_masks_to_bitmap masks =
     (let bm = zero_bitmap;
          bm = upd_if (has_mode masks) (\<lambda>bm. at_least 2 (or1 FATTR4_MODE (or0 FATTR4_TYPE bm))) bm;
          bm = upd_if (has_size masks) (\<lambda>bm. at_least 1 (or0 FATTR4_SIZE bm)) bm;
          bm = upd_if (has_nlink masks) (\<lambda>bm. at_least 2 (or1 FATTR4_NUMLINKS bm)) bm;
          bm = upd_if (has_fileid masks) (\<lambda>bm. at_least 1 (or0 FATTR4_FILEID bm)) bm;
          bm = upd_if (has_blocks masks) (\<lambda>bm. at_least 2 (or1 FATTR4_SPACE_USED bm)) bm;
          bm = upd_if (has_uid masks) (\<lambda>bm. at_least 2 (or1 FATTR4_OWNER bm)) bm;
          bm = upd_if (has_gid masks) (\<lambda>bm. at_least 2 (or1 FATTR4_OWNER_GROUP bm)) bm;
          bm = upd_if (has_rdev masks) (\<lambda>bm. at_least 2 (or1 FATTR4_RAWDEV bm)) bm;
          bm = upd_if (has_atime masks) (\<lambda>bm. at_least 2 (or1 FATTR4_TIME_ACCESS bm)) bm;
          bm = upd_if (has_mtime masks) (\<lambda>bm. at_least 2 (or1 FATTR4_TIME_MODIFY bm)) bm
      in upd_if (has_ctime masks) (\<lambda>bm. at_least 2 (or1 FATTR4_TIME_METADATA bm)) bm)"

section \<open>Packing\<close>

definition fsal_mask2bit :: "(u64 \<times> nat) list" where
  "fsal_mask2bit =
     [(ATTR_SIZE, FATTR4_SIZE), (ATTR_MODE, FATTR4_MODE), (ATTR_OWNER, FATTR4_OWNER), (ATTR_GROUP, FATTR4_OWNER_GROUP),
      (ATTR_ATIME, FATTR4_TIME_ACCESS_SET), (ATTR_ATIME_SERVER, FATTR4_TIME_ACCESS_SET),
      (ATTR_MTIME, FATTR4_TIME_MODIFY_SET), (ATTR_MTIME_SERVER, FATTR4_TIME_MODIFY_SET), (ATTR_CTIME, FATTR4_TIME_METADATA)]"

text \<open>
  An attribute of the first word replaces that word by a bit whose position is its mask, and not
  its number; a shift by 32 or more is undefined.
\<close>

fun mask2bit_loop :: "u64 \<Rightarrow> (u64 \<times> nat) list \<Rightarrow> bitmap4 \<Rightarrow> bitmap4 option" where
  "mask2bit_loop m [] bmap = Some bmap"
| "mask2bit_loop m ((attr, fattr_bit) # rest) bmap =
     (if m AND attr \<noteq> 0 then
        if fattr_bit > 31
        then mask2bit_loop m rest (bmap\<lparr>bm_map1 := bm_map1 bmap OR push_bit (fattr_bit - 32) 1, bm_len := 2\<rparr>)
        else if unat attr \<ge> 32 then None
        else mask2bit_loop m rest
               (bmap\<lparr>bm_map0 := bm_map0 bmap OR push_bit fattr_bit 1\<rparr>\<lparr>bm_map0 := push_bit (unat attr) 1\<rparr>)
      else mask2bit_loop m rest bmap)"

definition fs_fsalattr_to_fattr4 :: "fattr_env \<Rightarrow> attrlist \<Rightarrow> fattr4 \<Rightarrow> (bool \<times> fattr4) option" where
  "fs_fsalattr_to_fattr4 E attrs data = do {
     bmap \<leftarrow> mask2bit_loop (al_mask attrs) fsal_mask2bit empty_bitmap;
     nfs4_FSALattr_To_Fattr E ((zero_args (Some attrs) None)\<lparr>xa_mounted_on_fileid := al_fileid attrs\<rparr>) bmap data }"

text \<open>\<^verbatim>\<open>if (has_x) { attrlist.mask |= m; attrlist.x = ...; }\<close>\<close>

definition take_attr :: "bool \<Rightarrow> u64 \<Rightarrow> (attrlist \<Rightarrow> attrlist) \<Rightarrow> attrlist \<Rightarrow> attrlist" where
  "take_attr c m upd a = upd_if c (\<lambda>a. upd (a\<lparr>al_mask := al_mask a OR m\<rparr>)) a"

text \<open>A list that cannot be packed is a failed assertion: \<open>None\<close>.\<close>

definition vattrs_to_fattr4_create :: "fattr_env \<Rightarrow> vattrs \<Rightarrow> fattr4 \<Rightarrow> fattr4 option" where
  "vattrs_to_fattr4_create E tca attr4 =
     (let k = va_masks tca; a = zero_attrlist;
          a = take_attr (has_mode k) ATTR_MODE (\<lambda>a. a\<lparr>al_mode := va_mode tca\<rparr>) a;
          a = take_attr (has_uid k) ATTR_OWNER (\<lambda>a. a\<lparr>al_owner := ucast (va_uid tca)\<rparr>) a;
          a = take_attr (has_gid k) ATTR_GROUP (\<lambda>a. a\<lparr>al_group := ucast (va_gid tca)\<rparr>) a
      in case fs_fsalattr_to_fattr4 E a attr4 of Some (True, f) \<Rightarrow> Some f | _ \<Rightarrow> None)"

text \<open>The major and minor numbers of a device in the C library.\<close>

definition dev_major :: "u64 \<Rightarrow> u32" where
  "dev_major dev = ucast ((drop_bit 8 dev AND 0xfff) OR (drop_bit 32 dev AND NOT 0xfff))"

definition dev_minor :: "u64 \<Rightarrow> u32" where
  "dev_minor dev = ucast ((dev AND 0xff) OR (drop_bit 12 dev AND NOT 0xff))"

definition makedev :: "u32 \<Rightarrow> u32 \<Rightarrow> u64" where
  "makedev ma mi =
     (ucast mi AND 0xff) OR push_bit 8 (ucast ma AND 0xfff) OR push_bit 12 (ucast mi AND NOT 0xff) OR
     push_bit 32 (ucast ma AND NOT 0xfff)"

definition vattrs_attrlist :: "vattrs \<Rightarrow> attrlist" where
  "vattrs_attrlist tca =
     (let k = va_masks tca; a = zero_attrlist;
          a = take_attr (has_mode k) (ATTR_MODE OR ATTR_TYPE) (\<lambda>a. a\<lparr>al_mode := va_mode tca\<rparr>) a;
          a = take_attr (has_size k) ATTR_SIZE (\<lambda>a. a\<lparr>al_filesize := va_size tca\<rparr>) a;
          a = take_attr (has_fileid k) ATTR_FILEID (\<lambda>a. a\<lparr>al_fileid := va_fileid tca\<rparr>) a;
          a = take_attr (has_blocks k) ATTR_SPACEUSED (\<lambda>a. a\<lparr>al_spaceused := va_blocks tca * 512\<rparr>) a;
          a = take_attr (has_uid k) ATTR_OWNER (\<lambda>a. a\<lparr>al_owner := ucast (va_uid tca)\<rparr>) a;
          a = take_attr (has_gid k) ATTR_GROUP (\<lambda>a. a\<lparr>al_group := ucast (va_gid tca)\<rparr>) a;
          a = take_attr (has_rdev k) ATTR_RAWDEV
                (\<lambda>a. a\<lparr>al_rawdev := (ucast (dev_major (va_rdev tca)), ucast (dev_minor (va_rdev tca)))\<rparr>) a;
          a = take_attr (has_atime k) ATTR_ATIME (\<lambda>a. a\<lparr>al_atime := va_atime tca\<rparr>) a;
          a = take_attr (has_mtime k) ATTR_MTIME (\<lambda>a. a\<lparr>al_mtime := va_mtime tca\<rparr>) a
      in take_attr (has_ctime k) ATTR_CTIME (\<lambda>a. a\<lparr>al_ctime := va_ctime tca\<rparr>) a)"

definition vattrs_to_fattr4 :: "fattr_env \<Rightarrow> vattrs \<Rightarrow> fattr4 \<Rightarrow> fattr4 option" where
  "vattrs_to_fattr4 E tca attr4 =
     (case fs_fsalattr_to_fattr4 E (vattrs_attrlist tca) attr4 of Some (True, f) \<Rightarrow> Some f | _ \<Rightarrow> None)"

section \<open>Unpacking\<close>

definition S_IFMT :: u32 where "S_IFMT = 0xf000"

definition set_mode_type :: "u32 \<Rightarrow> object_file_type_t \<Rightarrow> u32" where
  "set_mode_type mode t =
     (mode AND NOT S_IFMT) OR
     (case t of
        REGULAR_FILE \<Rightarrow> 0x8000 | DIRECTORY \<Rightarrow> 0x4000 | CHARACTER_FILE \<Rightarrow> 0x2000 | BLOCK_FILE \<Rightarrow> 0x6000
      | SYMBOLIC_LINK \<Rightarrow> 0xa000 | SOCKET_FILE \<Rightarrow> 0xc000 | FIFO_FILE \<Rightarrow> 0x1000 | _ \<Rightarrow> 0)"

definition no_masks :: vattrs_masks where
  "no_masks = \<lparr>has_mode = False, has_size = False, has_nlink = False, has_fileid = False, has_blocks = False, has_uid = False,
     has_gid = False, has_rdev = False, has_atime = False, has_mtime = False, has_ctime = False\<rparr>"

definition vattrs_of_attrlist :: "attrlist \<Rightarrow> vattrs \<Rightarrow> vattrs" where
  "vattrs_of_attrlist al tca =
     (let m = al_mask al; t = tca\<lparr>va_masks := no_masks\<rparr>;
          t = upd_if (m AND ATTR_MODE \<noteq> 0) (\<lambda>t. vattrs_set_mode t (al_mode al)) t;
          t = upd_if (m AND ATTR_SIZE \<noteq> 0) (\<lambda>t. vattrs_set_size t (al_filesize al)) t;
          t = upd_if (m AND ATTR_NUMLINKS \<noteq> 0) (\<lambda>t. vattrs_set_nlink t (ucast (al_numlinks al))) t;
          t = upd_if (m AND ATTR_OWNER \<noteq> 0) (\<lambda>t. vattrs_set_uid t (al_owner al)) t;
          t = upd_if (m AND ATTR_FILEID \<noteq> 0) (\<lambda>t. vattrs_set_fileid t (al_fileid al)) t;
          t = upd_if (m AND ATTR_GROUP \<noteq> 0) (\<lambda>t. vattrs_set_gid t (al_group al)) t;
          t = upd_if (m AND ATTR_RAWDEV \<noteq> 0)
                (\<lambda>t. vattrs_set_rdev t (makedev (ucast (fst (al_rawdev al))) (ucast (snd (al_rawdev al))))) t;
          t = upd_if (m AND ATTR_ATIME \<noteq> 0) (\<lambda>t. vattrs_set_atime t (al_atime al)) t;
          t = upd_if (m AND ATTR_MTIME \<noteq> 0) (\<lambda>t. vattrs_set_mtime t (al_mtime al)) t;
          t = upd_if (m AND ATTR_CTIME \<noteq> 0) (\<lambda>t. vattrs_set_ctime t (al_ctime al)) t;
          t = upd_if (m AND ATTR_SPACEUSED \<noteq> 0)
                (\<lambda>t. t\<lparr>va_blocks := al_spaceused al div 512, va_masks := (va_masks t)\<lparr>has_blocks := True\<rparr>\<rparr>) t
      in t\<lparr>va_mode := set_mode_type (va_mode t) (al_type al)\<rparr>)"

text \<open>A reply that cannot be unpacked is a failed assertion: \<open>None\<close>.\<close>

definition fattr4_to_vattrs :: "fattr_env \<Rightarrow> fattr4 \<Rightarrow> vattrs \<Rightarrow> vattrs option" where
  "fattr4_to_vattrs E attr4 tca =
     (case nfs4_Fattr_To_FSAL_attr E attr4 None of
        Some (st, Some al) \<Rightarrow> if st \<noteq> NFS4_OK then None else Some (vattrs_of_attrlist al tca)
      | _ \<Rightarrow> None)"

section \<open>What a bitmap asks for\<close>

definition holds :: "bitmap4 \<Rightarrow> (nat \<Rightarrow> bool) \<Rightarrow> bool" where
  "holds bm P \<longleftrightarrow> bm_clean bm \<and> (\<forall>n. bm_has bm n \<longleftrightarrow> P n)"

lemma holds_zero: "holds zero_bitmap (\<lambda>n. False)"
  using zero_bitmap_clean by (simp add: holds_def)

lemma holds_set:
  assumes "holds bm P" "n < 96"
  shows "holds (snd (set_attribute_in_bitmap bm n)) (\<lambda>m. P m \<or> m = n)"
proof -
  have "bm_clean bm" using assms(1) by (simp add: holds_def)
  then obtain b where "set_attribute_in_bitmap bm n = (True, b)" "bm_clean b" "\<And>m. bm_has b m \<longleftrightarrow> m = n \<or> bm_has bm m"
    by (rule set_attribute_in_bitmap_clean [OF _ assms(2)]) blast
  then show ?thesis using assms(1) by (auto simp: holds_def)
qed

lemma len_max:
  fixes l k :: u32
  assumes "unat k = Suc i"
  shows "(if unat l \<le> i then k else l) = max l k"
proof (cases "unat l \<le> i")
  case True
  then show ?thesis using assms by (simp add: max_def word_le_nat_alt)
next
  case False
  then have "k \<le> l" using assms by (simp add: word_le_nat_alt)
  then show ?thesis using False by (simp add: max.absorb1)
qed

lemma holds_or0:
  assumes "holds bm P" "n < 32"
  shows "holds (at_least 1 (or0 n bm)) (\<lambda>m. P m \<or> m = n)"
proof -
  have n: "n div 32 = 0" using assms(2) by simp
  have len: "max (bm_len bm) 1 = (if unat (bm_len bm) \<le> 0 then 1 else bm_len bm)" by (rule len_max [symmetric]) simp
  have "set_attribute_in_bitmap bm n = (True, at_least 1 (or0 n bm))"
    unfolding set_attribute_in_bitmap_def OFFSET_div BIT_mod n Let_def at_least_def or0_def PXY_ATTR_BIT_def
    using len assms(2) by (cases bm) (simp add: bm_map_def bm_set_map_def)
  then show ?thesis using holds_set [OF assms(1), of n] assms(2) by simp
qed

lemma holds_or1:
  assumes "holds bm P" "32 \<le> n" "n < 64"
  shows "holds (at_least 2 (or1 n bm)) (\<lambda>m. P m \<or> m = n)"
proof -
  have n: "n div 32 = 1" "n mod 32 = n - 32" using assms(2,3) by (simp_all add: div_nat_eqI mod_nat_eqI)
  have len: "max (bm_len bm) 2 = (if unat (bm_len bm) \<le> 1 then 2 else bm_len bm)" by (rule len_max [symmetric]) simp
  have "set_attribute_in_bitmap bm n = (True, at_least 2 (or1 n bm))"
    unfolding set_attribute_in_bitmap_def OFFSET_div BIT_mod n Let_def at_least_def or1_def PXY_ATTR_BIT2_def
    using len by (cases bm) (simp add: bm_map_def bm_set_map_def)
  then show ?thesis using holds_set [OF assms(1), of n] assms(3) by simp
qed

lemma holds_mode:
  assumes "holds bm P"
  shows "holds (at_least 2 (or1 FATTR4_MODE (or0 FATTR4_TYPE bm))) (\<lambda>m. (P m \<or> m = FATTR4_TYPE) \<or> m = FATTR4_MODE)"
proof -
  have "holds (at_least 2 (or1 FATTR4_MODE (at_least 1 (or0 FATTR4_TYPE bm)))) (\<lambda>m. (P m \<or> m = FATTR4_TYPE) \<or> m = FATTR4_MODE)"
    by (intro holds_or1 holds_or0 assms) simp_all
  moreover have "max (max (bm_len bm) 1) 2 = max (bm_len bm) 2" by (simp add: max.assoc)
  ultimately show ?thesis by (simp add: at_least_def or1_def or0_def)
qed

text \<open>The attributes of the protocol that stand for the attributes of a mask.\<close>

definition asked :: "vattrs_masks \<Rightarrow> nat \<Rightarrow> bool" where
  "asked k n \<longleftrightarrow>
     (n = FATTR4_TYPE \<or> n = FATTR4_MODE) \<and> has_mode k \<or> n = FATTR4_SIZE \<and> has_size k \<or> n = FATTR4_NUMLINKS \<and> has_nlink k \<or>
     n = FATTR4_FILEID \<and> has_fileid k \<or> n = FATTR4_SPACE_USED \<and> has_blocks k \<or> n = FATTR4_OWNER \<and> has_uid k \<or>
     n = FATTR4_OWNER_GROUP \<and> has_gid k \<or> n = FATTR4_RAWDEV \<and> has_rdev k \<or> n = FATTR4_TIME_ACCESS \<and> has_atime k \<or>
     n = FATTR4_TIME_MODIFY \<and> has_mtime k \<or> n = FATTR4_TIME_METADATA \<and> has_ctime k"

lemma holds_add:
  assumes "holds bm P"
  shows "n < 32 \<Longrightarrow> holds (upd_if c (\<lambda>bm. at_least 1 (or0 n bm)) bm) (\<lambda>m. P m \<or> m = n \<and> c)"
    "32 \<le> n \<Longrightarrow> n < 64 \<Longrightarrow> holds (upd_if c (\<lambda>bm. at_least 2 (or1 n bm)) bm) (\<lambda>m. P m \<or> m = n \<and> c)"
    "holds (upd_if c (\<lambda>bm. at_least 2 (or1 FATTR4_MODE (or0 FATTR4_TYPE bm))) bm)
      (\<lambda>m. P m \<or> (m = FATTR4_TYPE \<or> m = FATTR4_MODE) \<and> c)"
  using holds_or0 [OF assms] holds_or1 [OF assms] holds_mode [OF assms] assms by (cases c; simp add: disj_assoc)+

lemma masks_bitmap: "holds (tc_attr_masks_to_bitmap k) (asked k)"
proof -
  have "holds (tc_attr_masks_to_bitmap k) (\<lambda>m. ((((((((((False \<or> (m = FATTR4_TYPE \<or> m = FATTR4_MODE) \<and> has_mode k)
      \<or> m = FATTR4_SIZE \<and> has_size k) \<or> m = FATTR4_NUMLINKS \<and> has_nlink k) \<or> m = FATTR4_FILEID \<and> has_fileid k)
      \<or> m = FATTR4_SPACE_USED \<and> has_blocks k) \<or> m = FATTR4_OWNER \<and> has_uid k) \<or> m = FATTR4_OWNER_GROUP \<and> has_gid k)
      \<or> m = FATTR4_RAWDEV \<and> has_rdev k) \<or> m = FATTR4_TIME_ACCESS \<and> has_atime k) \<or> m = FATTR4_TIME_MODIFY \<and> has_mtime k)
      \<or> m = FATTR4_TIME_METADATA \<and> has_ctime k)"
    unfolding tc_attr_masks_to_bitmap_def Let_def by (intro holds_add holds_zero) simp_all
  then show ?thesis by (simp add: asked_def [abs_def] disj_assoc)
qed

section \<open>Asking for attributes\<close>

lemma or_test: "(v OR w) AND (m :: u64) = 0 \<longleftrightarrow> v AND m = 0 \<and> w AND m = 0"
  by (auto simp: bit_eq_iff bit_and_iff bit_or_iff)

lemma mask_of_test: "mask_of ns AND m \<noteq> 0 \<longleftrightarrow> (\<exists>n\<in>set ns. fd_attrmask (fattr4tab n) AND m \<noteq> 0)"
  by (induction ns) (simp_all add: or_test)

lemma asked_mask:
  assumes "holds bits (asked k)"
  shows "mask_of (bm_attrs bits) AND ATTR_MODE \<noteq> 0 \<longleftrightarrow> has_mode k" "mask_of (bm_attrs bits) AND ATTR_SIZE \<noteq> 0 \<longleftrightarrow> has_size k"
    "mask_of (bm_attrs bits) AND ATTR_NUMLINKS \<noteq> 0 \<longleftrightarrow> has_nlink k" "mask_of (bm_attrs bits) AND ATTR_OWNER \<noteq> 0 \<longleftrightarrow> has_uid k"
    "mask_of (bm_attrs bits) AND ATTR_FILEID \<noteq> 0 \<longleftrightarrow> has_fileid k" "mask_of (bm_attrs bits) AND ATTR_GROUP \<noteq> 0 \<longleftrightarrow> has_gid k"
    "mask_of (bm_attrs bits) AND ATTR_RAWDEV \<noteq> 0 \<longleftrightarrow> has_rdev k" "mask_of (bm_attrs bits) AND ATTR_ATIME \<noteq> 0 \<longleftrightarrow> has_atime k"
    "mask_of (bm_attrs bits) AND ATTR_MTIME \<noteq> 0 \<longleftrightarrow> has_mtime k" "mask_of (bm_attrs bits) AND ATTR_CTIME \<noteq> 0 \<longleftrightarrow> has_ctime k"
    "mask_of (bm_attrs bits) AND ATTR_SPACEUSED \<noteq> 0 \<longleftrightarrow> has_blocks k"
proof -
  have has: "{n. bm_has bits n} = {n. asked k n}" using assms by (simp add: holds_def)
  have test: "mask_of (bm_attrs bits) AND m \<noteq> 0 \<longleftrightarrow> (\<exists>n. asked k n \<and> fd_attrmask (fattr4tab n) AND m \<noteq> 0)" for m
    by (simp add: mask_of_test set_bm_attrs has)
  note ask = test asked_def ex_disj_distrib conj_disj_distribR conj_assoc object_entries attr_masks
  show "mask_of (bm_attrs bits) AND ATTR_MODE \<noteq> 0 \<longleftrightarrow> has_mode k" "mask_of (bm_attrs bits) AND ATTR_SIZE \<noteq> 0 \<longleftrightarrow> has_size k"
    "mask_of (bm_attrs bits) AND ATTR_NUMLINKS \<noteq> 0 \<longleftrightarrow> has_nlink k" "mask_of (bm_attrs bits) AND ATTR_OWNER \<noteq> 0 \<longleftrightarrow> has_uid k"
    "mask_of (bm_attrs bits) AND ATTR_FILEID \<noteq> 0 \<longleftrightarrow> has_fileid k" "mask_of (bm_attrs bits) AND ATTR_GROUP \<noteq> 0 \<longleftrightarrow> has_gid k"
    "mask_of (bm_attrs bits) AND ATTR_RAWDEV \<noteq> 0 \<longleftrightarrow> has_rdev k" "mask_of (bm_attrs bits) AND ATTR_ATIME \<noteq> 0 \<longleftrightarrow> has_atime k"
    "mask_of (bm_attrs bits) AND ATTR_MTIME \<noteq> 0 \<longleftrightarrow> has_mtime k" "mask_of (bm_attrs bits) AND ATTR_CTIME \<noteq> 0 \<longleftrightarrow> has_ctime k"
    "mask_of (bm_attrs bits) AND ATTR_SPACEUSED \<noteq> 0 \<longleftrightarrow> has_blocks k"
    by (simp_all add: ask object_entries(1) [unfolded One_nat_def])
qed

lemma attr_get_upd:
  "attr_get (upd_if c (\<lambda>t. vattrs_set_uid t u) a) x = (if c \<and> x = AUid then Some (W32 (ucast u)) else attr_get a x)"
  "attr_get (upd_if c (\<lambda>t. vattrs_set_gid t u) a) x = (if c \<and> x = AGid then Some (W32 (ucast u)) else attr_get a x)"
  "attr_get (upd_if c (\<lambda>t. t\<lparr>va_blocks := u, va_masks := (va_masks t)\<lparr>has_blocks := True\<rparr>\<rparr>) a) x =
     (if c \<and> x = ABlocks then Some (W64 u) else attr_get a x)"
  by (cases x; simp add: upd_if_def attr_get_def vattrs_set_uid_def vattrs_set_gid_def)+

lemma attr_get_type:
  "attr_get (t\<lparr>va_mode := set_mode_type (va_mode t) ty\<rparr>) x =
     (case attr_get t x of Some (W32 v) \<Rightarrow> Some (W32 (if x = AMode then set_mode_type v ty else v)) | r \<Rightarrow> r)"
  by (cases x) (simp_all add: attr_get_def)

lemma attr_get_none: "attr_get (t\<lparr>va_masks := no_masks\<rparr>) x = None"
  by (cases x) (simp_all add: attr_get_def no_masks_def)

lemma reply_attrs:
  "attr_get (vattrs_of_attrlist al tca) AMode =
     (if al_mask al AND ATTR_MODE \<noteq> 0 then Some (W32 (set_mode_type (al_mode al) (al_type al))) else None)"
  "attr_get (vattrs_of_attrlist al tca) ASize = (if al_mask al AND ATTR_SIZE \<noteq> 0 then Some (W64 (al_filesize al)) else None)"
  "attr_get (vattrs_of_attrlist al tca) ANlink = (if al_mask al AND ATTR_NUMLINKS \<noteq> 0 then Some (W64 (ucast (al_numlinks al))) else None)"
  "attr_get (vattrs_of_attrlist al tca) AFileid = (if al_mask al AND ATTR_FILEID \<noteq> 0 then Some (W64 (al_fileid al)) else None)"
  "attr_get (vattrs_of_attrlist al tca) ABlocks = (if al_mask al AND ATTR_SPACEUSED \<noteq> 0 then Some (W64 (al_spaceused al div 512)) else None)"
  "attr_get (vattrs_of_attrlist al tca) AUid = (if al_mask al AND ATTR_OWNER \<noteq> 0 then Some (W32 (ucast (al_owner al))) else None)"
  "attr_get (vattrs_of_attrlist al tca) AGid = (if al_mask al AND ATTR_GROUP \<noteq> 0 then Some (W32 (ucast (al_group al))) else None)"
  "attr_get (vattrs_of_attrlist al tca) ARdev =
     (if al_mask al AND ATTR_RAWDEV \<noteq> 0 then Some (W64 (makedev (ucast (fst (al_rawdev al))) (ucast (snd (al_rawdev al))))) else None)"
  "attr_get (vattrs_of_attrlist al tca) AAtime = (if al_mask al AND ATTR_ATIME \<noteq> 0 then Some (Time (al_atime al)) else None)"
  "attr_get (vattrs_of_attrlist al tca) AMtime = (if al_mask al AND ATTR_MTIME \<noteq> 0 then Some (Time (al_mtime al)) else None)"
  "attr_get (vattrs_of_attrlist al tca) ACtime = (if al_mask al AND ATTR_CTIME \<noteq> 0 then Some (Time (al_ctime al)) else None)"
  by (simp_all add: vattrs_of_attrlist_def Let_def attr_get_type attr_get_upd attr_get_none)

lemma va_file_upd:
  "va_file (upd_if c (\<lambda>t. vattrs_set_mode t v) a) = va_file a" "va_file (upd_if c (\<lambda>t. vattrs_set_size t w) a) = va_file a"
  "va_file (upd_if c (\<lambda>t. vattrs_set_nlink t w) a) = va_file a" "va_file (upd_if c (\<lambda>t. vattrs_set_uid t w) a) = va_file a"
  "va_file (upd_if c (\<lambda>t. vattrs_set_fileid t w) a) = va_file a" "va_file (upd_if c (\<lambda>t. vattrs_set_gid t w) a) = va_file a"
  "va_file (upd_if c (\<lambda>t. vattrs_set_rdev t w) a) = va_file a" "va_file (upd_if c (\<lambda>t. vattrs_set_atime t ts) a) = va_file a"
  "va_file (upd_if c (\<lambda>t. vattrs_set_mtime t ts) a) = va_file a" "va_file (upd_if c (\<lambda>t. vattrs_set_ctime t ts) a) = va_file a"
  "va_file (upd_if c (\<lambda>t. t\<lparr>va_blocks := w, va_masks := (va_masks t)\<lparr>has_blocks := True\<rparr>\<rparr>) a) = va_file a"
  by (simp_all add: upd_if_def vattrs_set_mode_def vattrs_set_size_def vattrs_set_nlink_def vattrs_set_uid_def
      vattrs_set_fileid_def vattrs_set_gid_def vattrs_set_rdev_def vattrs_set_atime_def vattrs_set_mtime_def vattrs_set_ctime_def)

lemma reply_file: "va_file (vattrs_of_attrlist al tca) = va_file tca"
  by (simp add: vattrs_of_attrlist_def Let_def va_file_upd)

text \<open>What the client makes of the value of an attribute.\<close>

definition server_value :: "attrlist \<Rightarrow> attr \<Rightarrow> attr_value" where
  "server_value a x =
     (case x of
        AMode \<Rightarrow> W32 (set_mode_type (al_mode a AND 0xfff) (al_type a))
      | ASize \<Rightarrow> W64 (al_filesize a) | ANlink \<Rightarrow> W64 (ucast (al_numlinks a)) | AFileid \<Rightarrow> W64 (al_fileid a)
      | ABlocks \<Rightarrow> W64 (al_spaceused a div 512) | AUid \<Rightarrow> W32 (ucast (al_owner a)) | AGid \<Rightarrow> W32 (ucast (al_group a))
      | ARdev \<Rightarrow> W64 (makedev (ucast (fst (al_rawdev a))) (ucast (snd (al_rawdev a))))
      | AAtime \<Rightarrow> Time (al_atime a) | AMtime \<Rightarrow> Time (al_mtime a) | ACtime \<Rightarrow> Time (al_ctime a))"

text \<open>
  C13: a client that asks for the attributes of a mask gets exactly those, whatever its structure held
  before: each has the value of the object on the server, and every other one is marked as absent.
\<close>

theorem getattr_values:
  assumes "xa_attrs args = Some a" "\<forall>n. asked k n \<longrightarrow> attr_ok E a n"
  shows "\<exists>f tca'. nfs4_FSALattr_To_Fattr E args (tc_attr_masks_to_bitmap k) \<lparr>fa_mask = m0, fa_vals = []\<rparr> = Some (True, f) \<and>
    fattr4_to_vattrs E f tca = Some tca' \<and> va_file tca' = va_file tca \<and>
    (\<forall>x. attr_get tca' x = (if attr_has k x then Some (server_value a x) else None))"
proof -
  let ?bits = "tc_attr_masks_to_bitmap k" and ?al = "selected E args a (tc_attr_masks_to_bitmap k)"
  have h: "holds ?bits (asked k)" by (rule masks_bitmap)
  then have bits: "bm_ok ?bits" "bm_has ?bits = asked k" by (auto simp: holds_def bm_clean_ok)
  obtain f where f: "nfs4_FSALattr_To_Fattr E args ?bits \<lparr>fa_mask = m0, fa_vals = []\<rparr> = Some (True, f)"
    "nfs4_Fattr_To_FSAL_attr E f None = Some (NFS4_OK, Some ?al)"
    using fattr_carries [OF assms(1) bits(1), of E m0 None] assms(2) bits(2) by auto
  have mask: "al_mask ?al = mask_of (bm_attrs ?bits)" by (simp add: selected_def)
  have "attr_get (vattrs_of_attrlist ?al tca) x = (if attr_has k x then Some (server_value a x) else None)" for x
    by (cases x) (simp_all add: reply_attrs mask asked_mask [OF h], simp_all add: server_value_def selected_def bits(2) asked_def)
  moreover have "fattr4_to_vattrs E f tca = Some (vattrs_of_attrlist ?al tca)" using f(2) by (simp add: fattr4_to_vattrs_def)
  ultimately show ?thesis using f(1) reply_file [of ?al tca] by blast
qed

section \<open>Setting attributes\<close>

text \<open>The attributes of the protocol that stand for the bits of a mask.\<close>

definition requested :: "u64 \<Rightarrow> (u64 \<times> nat) list \<Rightarrow> nat \<Rightarrow> bool" where
  "requested m tab n \<longleftrightarrow> (\<exists>(attr, b)\<in>set tab. m AND attr \<noteq> 0 \<and> n = b)"

lemma mask2bit_high:
  assumes "holds bm P" "bm_len bm = 2" "\<forall>(attr, b)\<in>set tab. 32 \<le> b \<and> b < 64"
  shows "\<exists>bm'. mask2bit_loop m tab bm = Some bm' \<and> holds bm' (\<lambda>n. P n \<or> requested m tab n)"
  using assms
proof (induction tab arbitrary: bm P)
  case (Cons e tab)
  obtain attr b where e: "e = (attr, b)" by force
  have b: "32 \<le> b" "b < 64" "\<forall>(attr, b)\<in>set tab. 32 \<le> b \<and> b < 64" using Cons.prems(3) e by auto
  show ?case
  proof (cases "m AND attr = 0")
    case True
    then show ?thesis using Cons.IH [OF Cons.prems(1,2) b(3)] e by (simp add: requested_def)
  next
    case False
    have eq: "bm\<lparr>bm_map1 := bm_map1 bm OR push_bit (b - 32) 1, bm_len := 2\<rparr> = at_least 2 (or1 b bm)"
      using Cons.prems(2) by (simp add: at_least_def or1_def PXY_ATTR_BIT2_def)
    have "bm_len (at_least 2 (or1 b bm)) = 2" using Cons.prems(2) by (simp add: at_least_def or1_def)
    from Cons.IH [OF holds_or1 [OF Cons.prems(1) b(1,2)] this b(3)] show ?thesis
      using False b e eq by (auto simp: requested_def disj_assoc)
  qed
qed (simp add: requested_def)

lemma mask2bit:
  obtains bm where "mask2bit_loop m fsal_mask2bit empty_bitmap = Some bm" "holds bm (requested m fsal_mask2bit)"
proof -
  let ?high = "tl fsal_mask2bit" and ?b = "\<lparr>bm_len = 2, bm_map0 = if m AND ATTR_SIZE \<noteq> 0 then 0x10 else 0, bm_map1 = 0, bm_map2 = 0\<rparr>"
  have tab: "fsal_mask2bit = (ATTR_SIZE, FATTR4_SIZE) # ?high" by (simp add: fsal_mask2bit_def)
  have "holds (upd_if (m AND ATTR_SIZE \<noteq> 0) (\<lambda>bm. at_least 1 (or0 FATTR4_SIZE bm)) empty_bitmap) (\<lambda>n. False \<or> n = FATTR4_SIZE \<and> m AND ATTR_SIZE \<noteq> 0)"
    by (intro holds_add) (auto simp: holds_def empty_bitmap_def bm_clean_def bm_ok_def bm_map_def bm_has_def split: if_splits)
  moreover have "upd_if (m AND ATTR_SIZE \<noteq> 0) (\<lambda>bm. at_least 1 (or0 FATTR4_SIZE bm)) empty_bitmap = ?b"
    by (simp add: upd_if_def at_least_def or0_def PXY_ATTR_BIT_def empty_bitmap_def max_def word_le_nat_alt)
  ultimately have b: "holds ?b (\<lambda>n. n = FATTR4_SIZE \<and> m AND ATTR_SIZE \<noteq> 0)" by simp
  have first: "mask2bit_loop m fsal_mask2bit empty_bitmap = mask2bit_loop m ?high ?b"
    by (subst tab) (simp add: empty_bitmap_def ATTR_SIZE_def)
  have "\<forall>(attr, b)\<in>set ?high. 32 \<le> b \<and> b < 64" by (simp add: fsal_mask2bit_def)
  from mask2bit_high [OF b _ this] obtain bm where bm: "mask2bit_loop m ?high ?b = Some bm"
    "holds bm (\<lambda>n. n = FATTR4_SIZE \<and> m AND ATTR_SIZE \<noteq> 0 \<or> requested m ?high n)" by auto
  have "(\<lambda>n. n = FATTR4_SIZE \<and> m AND ATTR_SIZE \<noteq> 0 \<or> requested m ?high n) = requested m fsal_mask2bit"
    by (rule ext, subst (2) tab) (auto simp: requested_def)
  then show thesis using that [of bm] bm first by simp
qed

lemma take_attr_mask:
  "(\<And>a. al_mask (upd a) = al_mask a) \<Longrightarrow> al_mask (take_attr c m upd a) AND w = 0 \<longleftrightarrow> al_mask a AND w = 0 \<and> (c \<longrightarrow> m AND w = 0)"
  by (auto simp: take_attr_def upd_if_def or_test)

lemma take_attr_same:
  "(\<And>a. al_mode (upd a) = al_mode a) \<Longrightarrow> al_mode (take_attr c m upd a) = al_mode a"
  "(\<And>a. al_filesize (upd a) = al_filesize a) \<Longrightarrow> al_filesize (take_attr c m upd a) = al_filesize a"
  "(\<And>a. al_owner (upd a) = al_owner a) \<Longrightarrow> al_owner (take_attr c m upd a) = al_owner a"
  "(\<And>a. al_group (upd a) = al_group a) \<Longrightarrow> al_group (take_attr c m upd a) = al_group a"
  "(\<And>a. al_atime (upd a) = al_atime a) \<Longrightarrow> al_atime (take_attr c m upd a) = al_atime a"
  "(\<And>a. al_mtime (upd a) = al_mtime a) \<Longrightarrow> al_mtime (take_attr c m upd a) = al_mtime a"
  "(\<And>a. al_ctime (upd a) = al_ctime a) \<Longrightarrow> al_ctime (take_attr c m upd a) = al_ctime a"
  by (simp_all add: take_attr_def upd_if_def)

lemma vattrs_attrlist_fields:
  "has_mode (va_masks tca) \<Longrightarrow> al_mode (vattrs_attrlist tca) = va_mode tca"
  "has_size (va_masks tca) \<Longrightarrow> al_filesize (vattrs_attrlist tca) = va_size tca"
  "has_uid (va_masks tca) \<Longrightarrow> al_owner (vattrs_attrlist tca) = ucast (va_uid tca)"
  "has_gid (va_masks tca) \<Longrightarrow> al_group (vattrs_attrlist tca) = ucast (va_gid tca)"
  "has_atime (va_masks tca) \<Longrightarrow> al_atime (vattrs_attrlist tca) = va_atime tca"
  "has_mtime (va_masks tca) \<Longrightarrow> al_mtime (vattrs_attrlist tca) = va_mtime tca"
  "has_ctime (va_masks tca) \<Longrightarrow> al_ctime (vattrs_attrlist tca) = va_ctime tca"
  by (simp_all add: vattrs_attrlist_def Let_def take_attr_same, simp_all add: take_attr_def)

lemma vattrs_attrlist_mask:
  "al_mask (vattrs_attrlist tca) AND ATTR_SIZE \<noteq> 0 \<longleftrightarrow> has_size (va_masks tca)"
  "al_mask (vattrs_attrlist tca) AND ATTR_MODE \<noteq> 0 \<longleftrightarrow> has_mode (va_masks tca)"
  "al_mask (vattrs_attrlist tca) AND ATTR_OWNER \<noteq> 0 \<longleftrightarrow> has_uid (va_masks tca)"
  "al_mask (vattrs_attrlist tca) AND ATTR_GROUP \<noteq> 0 \<longleftrightarrow> has_gid (va_masks tca)"
  "al_mask (vattrs_attrlist tca) AND ATTR_ATIME \<noteq> 0 \<longleftrightarrow> has_atime (va_masks tca)"
  "al_mask (vattrs_attrlist tca) AND ATTR_MTIME \<noteq> 0 \<longleftrightarrow> has_mtime (va_masks tca)"
  "al_mask (vattrs_attrlist tca) AND ATTR_CTIME \<noteq> 0 \<longleftrightarrow> has_ctime (va_masks tca)"
  "al_mask (vattrs_attrlist tca) AND ATTR_ATIME_SERVER = 0" "al_mask (vattrs_attrlist tca) AND ATTR_MTIME_SERVER = 0"
  by (simp_all add: vattrs_attrlist_def Let_def take_attr_mask zero_attrlist_def attr_masks)

text \<open>The attributes that a list of attributes sets.\<close>

definition sets :: "vattrs_masks \<Rightarrow> nat \<Rightarrow> bool" where
  "sets k n \<longleftrightarrow>
     n = FATTR4_SIZE \<and> has_size k \<or> n = FATTR4_MODE \<and> has_mode k \<or> n = FATTR4_OWNER \<and> has_uid k \<or>
     n = FATTR4_OWNER_GROUP \<and> has_gid k \<or> n = FATTR4_TIME_ACCESS_SET \<and> has_atime k \<or>
     n = FATTR4_TIME_MODIFY_SET \<and> has_mtime k \<or> n = FATTR4_TIME_METADATA \<and> has_ctime k"

lemma vattrs_requested: "requested (al_mask (vattrs_attrlist tca)) fsal_mask2bit = sets (va_masks tca)"
proof (rule ext)
  fix n
  have "requested m fsal_mask2bit n \<longleftrightarrow>
    n = FATTR4_SIZE \<and> m AND ATTR_SIZE \<noteq> 0 \<or> n = FATTR4_MODE \<and> m AND ATTR_MODE \<noteq> 0 \<or> n = FATTR4_OWNER \<and> m AND ATTR_OWNER \<noteq> 0 \<or>
    n = FATTR4_OWNER_GROUP \<and> m AND ATTR_GROUP \<noteq> 0 \<or>
    n = FATTR4_TIME_ACCESS_SET \<and> (m AND ATTR_ATIME \<noteq> 0 \<or> m AND ATTR_ATIME_SERVER \<noteq> 0) \<or>
    n = FATTR4_TIME_MODIFY_SET \<and> (m AND ATTR_MTIME \<noteq> 0 \<or> m AND ATTR_MTIME_SERVER \<noteq> 0) \<or>
    n = FATTR4_TIME_METADATA \<and> m AND ATTR_CTIME \<noteq> 0" for m
    by (auto simp: requested_def fsal_mask2bit_def)
  then show "requested (al_mask (vattrs_attrlist tca)) fsal_mask2bit n = sets (va_masks tca) n"
    by (simp add: vattrs_attrlist_mask sets_def)
qed

text \<open>Values that the format can hold, for the attributes that are set.\<close>

definition vattrs_ok :: "fattr_env \<Rightarrow> vattrs \<Rightarrow> bool" where
  "vattrs_ok E tca \<longleftrightarrow>
     xdr_ok E \<and> (has_uid (va_masks tca) \<longrightarrow> id_ok (uid_name E) (name2uid E) (ucast (va_uid tca))) \<and>
     (has_gid (va_masks tca) \<longrightarrow> id_ok (gid_name E) (name2gid E) (ucast (va_gid tca))) \<and>
     (has_atime (va_masks tca) \<longrightarrow> time_ok (va_atime tca)) \<and> (has_mtime (va_masks tca) \<longrightarrow> time_ok (va_mtime tca)) \<and>
     (has_ctime (va_masks tca) \<longrightarrow> time_ok (va_ctime tca))"

text \<open>
  What a server is asked to set: the attributes of the mask, no others, and their values.  The mode is sent without
  the type of the file.  The file number, the blocks, the device and the number of links are not sent, whether the client's mask has
  them or not.
\<close>

definition asked_mask :: "vattrs_masks \<Rightarrow> u64" where
  "asked_mask k =
     (if has_mode k then ATTR_MODE else 0) OR (if has_size k then ATTR_SIZE else 0) OR (if has_uid k then ATTR_OWNER else 0) OR
     (if has_gid k then ATTR_GROUP else 0) OR (if has_atime k then ATTR_ATIME else 0) OR (if has_mtime k then ATTR_MTIME else 0) OR
     (if has_ctime k then ATTR_CTIME else 0)"

definition as_asked :: "vattrs \<Rightarrow> attrlist \<Rightarrow> bool" where
  "as_asked tca r \<longleftrightarrow> (let k = va_masks tca in
     al_mask r = asked_mask k \<and>
     (has_mode k \<longrightarrow> al_mode r = va_mode tca AND 0xfff) \<and> (has_size k \<longrightarrow> al_filesize r = va_size tca) \<and>
     (has_uid k \<longrightarrow> al_owner r = ucast (va_uid tca)) \<and> (has_gid k \<longrightarrow> al_group r = ucast (va_gid tca)) \<and>
     (has_atime k \<longrightarrow> al_atime r = va_atime tca) \<and> (has_mtime k \<longrightarrow> al_mtime r = va_mtime tca) \<and>
     (has_ctime k \<longrightarrow> al_ctime r = va_ctime tca))"

lemma mask_eqI: "(\<And>m. a AND m = 0 \<longleftrightarrow> b AND m = 0) \<Longrightarrow> a = b" for a b :: u64
proof -
  assume "\<And>m. a AND m = 0 \<longleftrightarrow> b AND m = 0"
  from this [of "NOT a"] this [of "NOT b"] have "b AND NOT a = 0" "a AND NOT b = 0" by simp_all
  then show "a = b" unfolding bit_eq_iff bit_and_iff bit_not_iff by (metis bit_0_eq bit_imp_possible_bit bot_apply bot_bool_def)
qed

lemma if_mask: "(if c then v else 0) AND m = 0 \<longleftrightarrow> (c \<longrightarrow> v AND m = 0)" for v m :: u64
  by simp

lemma set_attrs_ok:
  assumes "vattrs_ok E tca" "sets (va_masks tca) n"
  shows "attr_ok E (vattrs_attrlist tca) n"
  using assms vattrs_attrlist_mask(8,9) [of tca] unfolding sets_def
  by (elim disjE conjE) (simp_all add: vattrs_ok_def attr_ok_def object_attrs_def vattrs_attrlist_fields)

lemma selected_as_asked:
  assumes "holds bits (sets (va_masks tca))"
  shows "as_asked tca (selected E args (vattrs_attrlist tca) bits)"
proof -
  have has: "bm_has bits = sets (va_masks tca)" using assms by (auto simp: holds_def)
  have mask: "al_mask (selected E args (vattrs_attrlist tca) bits) = mask_of (bm_attrs bits)" by (simp add: selected_def)
  have "mask_of (bm_attrs bits) AND m = 0 \<longleftrightarrow> \<not> (\<exists>n. sets (va_masks tca) n \<and> fd_attrmask (fattr4tab n) AND m \<noteq> 0)" for m
    using mask_of_test [of "bm_attrs bits" m] by (auto simp: set_bm_attrs has)
  note test = this sets_def ex_disj_distrib conj_disj_distribR conj_assoc object_entries attr_masks
  have "mask_of (bm_attrs bits) = asked_mask (va_masks tca)"
    by (rule mask_eqI) (simp add: test asked_mask_def or_test if_mask split del: if_split, blast)
  then show ?thesis unfolding as_asked_def Let_def mask
    by (intro conjI impI) (simp_all add: selected_def has sets_def vattrs_attrlist_fields)
qed

lemma check_access_each:
  "each_attr (\<lambda>attribute ok. if attribute > FATTR4_MAX then Some (True, ok)
       else if fd_access (fattr4tab attribute) AND access \<noteq> access then Some (False, False) else Some (True, ok)) ns True =
   Some (\<forall>n\<in>set ns. n \<le> FATTR4_MAX \<longrightarrow> fd_access (fattr4tab n) AND access = access)"
  by (induction ns) auto

lemma set_access:
  assumes "bm_ok bm" "bm_has bm = sets k"
  shows "nfs4_Fattr_Check_Access_Bitmap bm FATTR4_ATTR_WRITE = Some (\<not> has_ctime k)"
proof -
  have "(\<forall>n. sets k n \<longrightarrow> n \<le> FATTR4_MAX \<longrightarrow> fd_access (fattr4tab n) AND FATTR4_ATTR_WRITE = FATTR4_ATTR_WRITE) \<longleftrightarrow> \<not> has_ctime k"
    by (auto simp: sets_def object_entries dent_def FATTR4_ATTR_READ_def FATTR4_ATTR_WRITE_def FATTR4_ATTR_READ_WRITE_def FATTR4_MAX_def)
  then show ?thesis
    by (simp add: nfs4_Fattr_Check_Access_Bitmap_def attr_loop_each [OF assms(1)] check_access_each set_bm_attrs assms(2))
qed

text \<open>Packing the attributes of a request.\<close>

lemma vattrs_packed:
  assumes "vattrs_ok E tca"
  obtains bm f where "vattrs_to_fattr4 E tca \<lparr>fa_mask = m0, fa_vals = []\<rparr> = Some f" "holds bm (sets (va_masks tca))"
    "bm_ok (fa_mask f)" "bm_has (fa_mask f) = sets (va_masks tca)"
    "\<And>data. nfs4_Fattr_To_FSAL_attr E f data = Some (NFS4_OK, Some
       (selected E ((zero_args (Some (vattrs_attrlist tca)) None)\<lparr>xa_mounted_on_fileid := al_fileid (vattrs_attrlist tca)\<rparr>)
          (vattrs_attrlist tca) bm))"
proof -
  let ?a = "vattrs_attrlist tca" and ?k = "va_masks tca"
  let ?args = "(zero_args (Some ?a) None)\<lparr>xa_mounted_on_fileid := al_fileid ?a\<rparr>"
  obtain bm where bm: "mask2bit_loop (al_mask ?a) fsal_mask2bit empty_bitmap = Some bm" "holds bm (sets ?k)"
    using mask2bit [of "al_mask ?a"] unfolding vattrs_requested by blast
  have ok: "bm_ok bm" "bm_has bm = sets ?k" using bm(2) by (auto simp: holds_def bm_clean_ok)
  have args: "xa_attrs ?args = Some ?a" by (simp add: zero_args_def)
  have at: "\<forall>n. bm_has bm n \<longrightarrow> attr_ok E ?a n" using set_attrs_ok [OF assms] ok(2) by simp
  obtain f where f: "nfs4_FSALattr_To_Fattr E ?args bm \<lparr>fa_mask = m0, fa_vals = []\<rparr> = Some (True, f)"
    "bm_attrs (fa_mask f) = bm_attrs bm" "bm_ok (fa_mask f)" using fattr_carries [OF args ok(1) at, of m0] by blast
  have unpack: "nfs4_Fattr_To_FSAL_attr E f data = Some (NFS4_OK, Some (selected E ?args ?a bm))" for data
    using fattr_carries [OF args ok(1) at, of m0 data] f(1) by auto
  have "bm_has (fa_mask f) = sets ?k" using f(2) ok(2) set_bm_attrs [of "fa_mask f"] set_bm_attrs [of bm] by auto
  moreover have "vattrs_to_fattr4 E tca \<lparr>fa_mask = m0, fa_vals = []\<rparr> = Some f"
    using bm(1) f(1) by (simp add: vattrs_to_fattr4_def fs_fsalattr_to_fattr4_def)
  ultimately show thesis using that bm(2) f(3) unpack by blast
qed

text \<open>
  C14: a request that sets attributes is packed without an error, and a server that unpacks it is asked
  for the mode without the type of the file, the size, the owner, the group and the times of access, modification and
  last change that the client's mask has, with the client's values, and for nothing else: a file number, number of
  blocks, device or number of links in the mask is not sent.  The server accepts the list as one of settable attributes unless it has
  the time of the last change.
\<close>

theorem setattr_values:
  assumes "vattrs_ok E tca"
  shows "\<exists>f r. vattrs_to_fattr4 E tca \<lparr>fa_mask = m0, fa_vals = []\<rparr> = Some f \<and>
    nfs4_Fattr_To_FSAL_attr E f data = Some (NFS4_OK, Some r) \<and> as_asked tca r \<and>
    nfs4_Fattr_Check_Access f FATTR4_ATTR_WRITE = Some (\<not> has_ctime (va_masks tca))"
proof -
  obtain bm f where f: "vattrs_to_fattr4 E tca \<lparr>fa_mask = m0, fa_vals = []\<rparr> = Some f" "holds bm (sets (va_masks tca))"
    "bm_ok (fa_mask f)" "bm_has (fa_mask f) = sets (va_masks tca)"
    "nfs4_Fattr_To_FSAL_attr E f data = Some (NFS4_OK, Some
       (selected E ((zero_args (Some (vattrs_attrlist tca)) None)\<lparr>xa_mounted_on_fileid := al_fileid (vattrs_attrlist tca)\<rparr>)
          (vattrs_attrlist tca) bm))" using vattrs_packed [OF assms, of m0] by metis
  have "nfs4_Fattr_Check_Access f FATTR4_ATTR_WRITE = Some (\<not> has_ctime (va_masks tca))"
    unfolding nfs4_Fattr_Check_Access_def by (rule set_access [OF f(3,4)])
  then show ?thesis using f(1,5) selected_as_asked [OF f(2)] by blast
qed

text \<open>A file whose mode, size and owner are set.\<close>

definition some_vattrs :: vattrs where
  "some_vattrs =
     \<lparr>va_file = vfile_from_path ''/a'', va_masks = no_masks\<lparr>has_mode := True, has_size := True, has_uid := True\<rparr>,
      va_mode = 0x81a4, va_size = 5000, va_nlink = 0, va_fileid = 0, va_blocks = 0, va_uid = 0, va_gid = 0, va_rdev = 0,
      va_atime = zero_time, va_mtime = zero_time, va_ctime = zero_time\<rparr>"

theorem setattr_values_witness:
  "\<exists>f r. vattrs_to_fattr4 network_env some_vattrs \<lparr>fa_mask = zero_bitmap, fa_vals = []\<rparr> = Some f \<and>
     nfs4_Fattr_To_FSAL_attr network_env f None = Some (NFS4_OK, Some r) \<and>
     al_mode r = 0x1a4 \<and> al_filesize r = 5000 \<and> al_owner r = 0 \<and> al_mask r = ATTR_MODE OR ATTR_SIZE OR ATTR_OWNER \<and>
     nfs4_Fattr_Check_Access f FATTR4_ATTR_WRITE = Some True"
proof -
  have "vattrs_ok network_env some_vattrs"
    using network_xdr_ok by (simp add: vattrs_ok_def some_vattrs_def no_masks_def id_ok_def network_env_def)
  from setattr_values [OF this, of zero_bitmap None] show ?thesis
    by (auto simp: as_asked_def asked_mask_def Let_def some_vattrs_def no_masks_def)
qed

theorem getattr_values_witness:
  "\<exists>f tca'. nfs4_FSALattr_To_Fattr network_env (zero_args (Some some_attrs) None)
       (tc_attr_masks_to_bitmap (no_masks\<lparr>has_mode := True, has_size := True, has_mtime := True\<rparr>))
       \<lparr>fa_mask = zero_bitmap, fa_vals = []\<rparr> = Some (True, f) \<and>
     fattr4_to_vattrs network_env f some_vattrs = Some tca' \<and> attr_get tca' AMode = Some (W32 0x81a4) \<and>
     attr_get tca' ASize = Some (W64 5000) \<and> attr_get tca' AUid = None"
proof -
  let ?k = "no_masks\<lparr>has_mode := True, has_size := True, has_mtime := True\<rparr>"
  have "\<forall>n. asked ?k n \<longrightarrow> attr_ok network_env some_attrs n"
    using some_attrs_ok by (auto simp: asked_def no_masks_def some_attr_list_def)
  from getattr_values [OF _ this, of "zero_args (Some some_attrs) None" zero_bitmap some_vattrs] show ?thesis
    by (auto simp: zero_args_def no_masks_def server_value_def some_attrs_def set_mode_type_def S_IFMT_def zero_attrlist_def)
qed

end
