(* ===== verification/Compound_Ops.thy ===== *)
theory Compound_Ops
  imports Compound_Path Attr_Convert Session_Slots Nfs4_Backend
begin

text \<open>
  The vectorised operations of \<^verbatim>\<open>nfs4/handle.c\<close>.  Each of them resets the compound, which takes a slot of
  the session for its SEQUENCE, appends the operations of one element after the other until one does not
  fit, sends the compound and reads the results into the caller's arrays.  The remote procedure call with
  its transport and the coding of arguments and results is a parameter; its results are the operations the
  server went through, in order.  \<open>None\<close> stands for behaviour that is undefined: a failed assertion, an access
  outside an array, an uninitialised variable; and for waiting forever, for a slot or for a connection.
  Allocations succeed.
\<close>

unbundle bit_operations_syntax

section \<open>Environment\<close>

text \<open>
  \<open>he_fcnt\<close> is what the counter of state owners gives to the OPEN at a position of the compound,
  \<open>he_tca\<close> what a variable for attributes holds before it is assigned.
\<close>

record handle_env =
  he_cwd :: tc_cwd_data
  he_fds :: fd_refs
  he_fattr :: fattr_env
  he_clientid :: u64
  he_pid :: nat
  he_fcnt :: "nat \<Rightarrow> u64"
  he_uid :: u32
  he_gid :: u32
  he_euid :: u32
  he_egid :: u32
  he_tca :: vattrs

definition O_WRONLY :: int where "O_WRONLY = 1"
definition O_RDWR :: int where "O_RDWR = 2"
definition O_CREAT :: int where "O_CREAT = 0x40"
definition O_EXCL :: int where "O_EXCL = 0x80"

definition has_flag :: "int \<Rightarrow> int \<Rightarrow> bool" where
  "has_flag flags f \<longleftrightarrow> flags AND f \<noteq> 0"

text \<open>What \<open>calloc\<close> leaves in an array of attributes.\<close>

definition zero_fattr4 :: fattr4 where
  "zero_fattr4 = \<lparr>fa_mask = zero_bitmap, fa_vals = []\<rparr>"

definition CURSID :: stateid4 where
  "CURSID = \<lparr>sid_seqid = 1, sid_other = replicate 12 NUL\<rparr>"

definition is_special_stateid :: "stateid4 \<Rightarrow> bool" where
  "is_special_stateid sid \<longleftrightarrow> sid_other sid = replicate 12 NUL"

text \<open>Printing a number in decimal.\<close>

fun dec_digits :: "nat \<Rightarrow> string" where
  "dec_digits n = (if n < 10 then [char_of (48 + n)] else dec_digits (n div 10) @ [char_of (48 + n mod 10)])"

declare dec_digits.simps [simp del]

definition tc_new_state_owner :: "handle_env \<Rightarrow> nat \<Rightarrow> string" where
  "tc_new_state_owner E pos = ''TC-State: pid='' @ dec_digits (he_pid E) @ '' '' @ dec_digits (unat (he_fcnt E pos))"

section \<open>Single operations\<close>

definition tc_prepare_getattr :: "bitmap4 \<Rightarrow> compound \<Rightarrow> bool \<times> compound" where
  "tc_prepare_getattr bm4 = prepare (OpGetattr bm4)"

definition tc_prepare_mkdir :: "string \<Rightarrow> fattr4 \<Rightarrow> compound \<Rightarrow> bool \<times> compound" where
  "tc_prepare_mkdir name fattr = prepare (OpCreate NF4DIR name fattr)"

text \<open>There is no check for room here: past the last operation the array is overrun.\<close>

definition tc_prepare_setattr :: "fattr4 \<Rightarrow> compound \<Rightarrow> (bool \<times> compound) option" where
  "tc_prepare_setattr fattr c =
     (if opcnt c < MAX_NUM_OPS_PER_COMPOUND then Some (True, add_op (OpSetattr zero_stateid fattr) c) else None)"

definition tc_prepare_getfh :: "compound \<Rightarrow> bool \<times> compound" where
  "tc_prepare_getfh = prepare OpGetfh"

text \<open>Closing with a sequence number and a state identifier, or with those of the current state.\<close>

definition tc_prepare_close :: "(u32 \<times> stateid4) option \<Rightarrow> compound \<Rightarrow> bool \<times> compound" where
  "tc_prepare_close st =
     prepare (case st of Some (seqid, sid) \<Rightarrow> OpClose seqid sid | None \<Rightarrow> OpClose 1 CURSID)"

definition sca_open_flags_to_access :: "int \<Rightarrow> u32" where
  "sca_open_flags_to_access flags =
     (if has_flag flags O_WRONLY then 2 else if has_flag flags O_RDWR then 3 else 1)"

text \<open>Without attributes a creation follows a null pointer.\<close>

definition tc_prepare_open ::
  "handle_env \<Rightarrow> string \<Rightarrow> int \<Rightarrow> fattr4 option \<Rightarrow> compound \<Rightarrow> (bool \<times> compound) option" where
  "tc_prepare_open E name flags attrs c =
     (if \<not> tc_has_enough_ops 1 c then Some (False, c)
      else do {
        how \<leftarrow> (if has_flag flags O_CREAT
                then (case attrs of
                        Some a \<Rightarrow> Some (OPEN4_CREATE (if has_flag flags O_EXCL then GUARDED4 else UNCHECKED4) a)
                      | None \<Rightarrow> None)
                else if has_flag flags O_EXCL then None else Some OPEN4_NOCREATE);
        Some (True, add_op (OpOpen \<lparr>oa_seqid = 0, oa_share_access = sca_open_flags_to_access flags,
          oa_share_deny = 0, oa_clientid = he_clientid E, oa_owner = tc_new_state_owner E (opcnt c),
          oa_openhow = how, oa_file = name\<rparr>) c)
      })"

definition tc_prepare_readdir :: "u64 \<Rightarrow> bitmap4 option \<Rightarrow> compound \<Rightarrow> bool \<times> compound" where
  "tc_prepare_readdir cookie attrbm =
     prepare (OpReaddir cookie (case attrbm of Some bm \<Rightarrow> bm | None \<Rightarrow> tc_bitmap_readdir))"

definition tc_prepare_remove :: "string \<Rightarrow> compound \<Rightarrow> bool \<times> compound" where
  "tc_prepare_remove name = prepare (OpRemove name)"

definition tc_prepare_copy :: "u64 \<Rightarrow> u64 \<Rightarrow> u64 \<Rightarrow> compound \<Rightarrow> bool \<times> compound" where
  "tc_prepare_copy src dst count = prepare (OpCopy src dst count)"

definition tc_prepare_rename :: "string \<Rightarrow> string \<Rightarrow> compound \<Rightarrow> bool \<times> compound" where
  "tc_prepare_rename srcname dstname = prepare (OpRename srcname dstname)"

definition tc_prepare_hardlink :: "string \<Rightarrow> compound \<Rightarrow> bool \<times> compound" where
  "tc_prepare_hardlink name = prepare (OpLink name)"

definition tc_prepare_symlink :: "string \<Rightarrow> string \<Rightarrow> fattr4 \<Rightarrow> compound \<Rightarrow> bool \<times> compound" where
  "tc_prepare_symlink name link_path attrs = prepare (OpCreate (NF4LNK link_path) name attrs)"

definition tc_prepare_readlink :: "compound \<Rightarrow> bool \<times> compound" where
  "tc_prepare_readlink = prepare OpReadlink"

text \<open>The counts of READ and WRITE have 32 bits.\<close>

definition tc_prepare_rdwr :: "handle_env \<Rightarrow> viovec \<Rightarrow> bool \<Rightarrow> bool \<Rightarrow> compound \<Rightarrow> (bool \<times> compound) option" where
  "tc_prepare_rdwr E iov write need_close c =
     (if \<not> tc_has_enough_ops 1 c then Some (False, c)
      else do {
        (offset, sid) \<leftarrow> (if vf_type (vi_file iov) = VFILE_DESCRIPTOR
           then (case vf_ref (vi_file iov) of
                   FdData d \<Rightarrow> Some (if vi_offset iov = TC_OFFSET_CUR then fr_cursor (he_fds E d) else vi_offset iov,
                                     fr_stateid (he_fds E d))
                 | _ \<Rightarrow> None)
           else Some (vi_offset iov, CURSID));
        Some (True, add_op
          (if write
           then OpWrite sid offset
                  (if vi_is_write_stable iov \<or> need_close \<and> vi_is_last_of_multiparts iov then DATA_SYNC4 else UNSTABLE4)
                  (vi_data iov) (ucast (vi_length iov))
           else OpRead sid offset (ucast (vi_length iov))) c)
      })"

text \<open>The copy of a slice as a C string.\<close>

definition tc_new_auto_str :: "string \<Rightarrow> string" where
  "tc_new_auto_str sl = takeWhile (\<lambda>x. x \<noteq> NUL) sl"

text \<open>\<open>f && g\<close> where a function that leads to a file hands its last component to the next one.\<close>

definition with_name ::
  "(bool \<times> string \<times> compound) option \<Rightarrow> (string \<Rightarrow> compound \<Rightarrow> (bool \<times> compound) option) \<Rightarrow> (bool \<times> compound) option" where
  "with_name r k = do { (ok, name, c) \<leftarrow> r; if ok then k name c else Some (False, c) }"

definition and_also ::
  "(bool \<times> compound) option \<Rightarrow> (compound \<Rightarrow> (bool \<times> compound) option) \<Rightarrow> (bool \<times> compound) option" where
  "and_also r k = do { (ok, c) \<leftarrow> r; if ok then k c else Some (False, c) }"

definition cfh_to_path :: "handle_env \<Rightarrow> string \<Rightarrow> bool \<Rightarrow> bool \<Rightarrow> compound \<Rightarrow> (bool \<times> string \<times> compound) option" where
  "cfh_to_path E path leaf save c = Some (tc_set_cfh_to_path (he_cwd E) path leaf save c)"

definition current_fh :: "handle_env \<Rightarrow> vfile \<Rightarrow> bool \<Rightarrow> compound \<Rightarrow> (bool \<times> string \<times> compound) option" where
  "current_fh E tcf save c = tc_set_current_fh (he_cwd E) (he_fds E) tcf save c"

section \<open>The slot and the call\<close>

text \<open>
  A result: the operation, its status, and what it carries where the client reads that.  The union of the
  source has a status in every branch.
\<close>

datatype resok =
  ResNone
| ResSequence u32 u32 u32
| ResOpen u32 stateid4
| ResGetfh nfs_fh4
| ResGetattr fattr4
| ResRead u32 bool
| ResWrite u32 stable_how4
| ResCopy u64
| ResReadlink "char list"

record nfs_resop4 =
  resop :: nfs_opnum4
  res_status :: nfsstat4
  res_ok :: resok

definition get_nfs4_op_status :: "nfs_resop4 \<Rightarrow> nfsstat4" where
  "get_nfs4_op_status op_res =
     (if resop op_res \<in> {NFS4_OP_ACCESS, NFS4_OP_CLOSE, NFS4_OP_COMMIT, NFS4_OP_CREATE, NFS4_OP_DELEGPURGE,
        NFS4_OP_DELEGRETURN, NFS4_OP_GETATTR, NFS4_OP_GETFH, NFS4_OP_LINK, NFS4_OP_LOCK, NFS4_OP_LOCKT, NFS4_OP_LOCKU,
        NFS4_OP_LOOKUP, NFS4_OP_LOOKUPP, NFS4_OP_NVERIFY, NFS4_OP_OPEN, NFS4_OP_OPENATTR, NFS4_OP_OPEN_CONFIRM,
        NFS4_OP_OPEN_DOWNGRADE, NFS4_OP_PUTFH, NFS4_OP_PUTPUBFH, NFS4_OP_PUTROOTFH, NFS4_OP_READ, NFS4_OP_READDIR,
        NFS4_OP_READLINK, NFS4_OP_REMOVE, NFS4_OP_RENAME, NFS4_OP_RENEW, NFS4_OP_RESTOREFH, NFS4_OP_SAVEFH,
        NFS4_OP_SECINFO, NFS4_OP_SETATTR, NFS4_OP_SETCLIENTID, NFS4_OP_SETCLIENTID_CONFIRM, NFS4_OP_VERIFY,
        NFS4_OP_WRITE, NFS4_OP_EXCHANGE_ID, NFS4_OP_CREATE_SESSION, NFS4_OP_DESTROY_SESSION, NFS4_OP_FREE_STATEID,
        NFS4_OP_SEQUENCE, NFS4_OP_DESTROY_CLIENTID, NFS4_OP_COPY}
      then res_status op_res else NFS4ERR_IO)"

text \<open>What a thread has: its compound, whether it holds a slot of the shared table, and the rest of the world.\<close>

record 'w hstate =
  h_cpd :: compound
  h_slots :: session_slot_table
  slot_allocated :: bool
  h_world :: 'w

definition RPC_SUCCESS :: int where "RPC_SUCCESS = 0"
definition RPC_CANTSEND :: int where "RPC_CANTSEND = 3"
definition RPC_CANTRECV :: int where "RPC_CANTRECV = 4"

text \<open>
  The reply to one call: the transport's status, whether it was interrupted, the status of the compound and
  the results.
\<close>

record clnt_reply =
  cr_rc :: int
  cr_again :: bool
  cr_status :: nfsstat4
  cr_res :: "nfs_resop4 list"

record 'w rpc_env =
  fs_compoundv4_call :: "nfs_argop4 list \<Rightarrow> 'w \<Rightarrow> clnt_reply \<times> 'w"
  fs_rpc_need_sock :: "'w \<Rightarrow> 'w"

definition tc_update_sequence ::
  "nfs_argop4 \<Rightarrow> nfs_resop4 list \<Rightarrow> bool \<Rightarrow> 'w hstate \<Rightarrow> 'w hstate option" where
  "tc_update_sequence arg res sent h =
     (case arg of
        OpSequence slotid seqid highest \<Rightarrow> do {
          accepted \<leftarrow> (if \<not> sent then Some False else case res of [] \<Rightarrow> None | r # _ \<Rightarrow> Some (res_status r = NFS4_OK));
          (_, sst) \<leftarrow> (if accepted
             then (case res_ok (hd res) of
                     ResSequence s hi target \<Rightarrow> free_session_slot (h_slots h) (unat s) hi target sent
                   | _ \<Rightarrow> None)
             else free_session_slot (h_slots h) (unat slotid) highest highest False);
          Some (h\<lparr>h_slots := sst, slot_allocated := False\<rparr>)
        }
      | _ \<Rightarrow> Some h)"

definition vreset_compound :: "bool \<Rightarrow> 'w hstate \<Rightarrow> 'w hstate option" where
  "vreset_compound has_sequence h = do {
     h1 \<leftarrow> (if slot_allocated h
             then (case argoparray (h_cpd h) of
                     x # _ \<Rightarrow> if argop x = NFS4_OP_SEQUENCE then tc_update_sequence x [] False h else None
                   | [] \<Rightarrow> None)
             else Some h);
     let h2 = h1\<lparr>h_cpd := tc_cleanup_compound (h_cpd h1)\<rparr>;
     if has_sequence
     then do {
       (slotid, seqid, highest, sst) \<leftarrow> alloc_session_slot (h_slots h2);
       Some (h2\<lparr>h_slots := sst, slot_allocated := True,
                h_cpd := add_op (OpSequence (word_of_int slotid) seqid highest) (h_cpd h2)\<rparr>)
     }
     else Some h2
   }"

text \<open>The call is repeated while it could not be sent or was interrupted.\<close>

partial_function (option) call_loop :: "'w rpc_env \<Rightarrow> nfs_argop4 list \<Rightarrow> 'w \<Rightarrow> (clnt_reply \<times> 'w) option" where
  [code]: "call_loop R ops w =
     (case fs_compoundv4_call R ops w of (rep, w1) \<Rightarrow>
        let w2 = (if cr_rc rep = RPC_CANTSEND then fs_rpc_need_sock R w1 else w1)
        in if cr_rc rep = RPC_CANTRECV \<and> cr_again rep \<or> cr_rc rep = RPC_CANTSEND then call_loop R ops w2
           else Some (rep, w2))"

text \<open>
  Sending the compound.  The results are the transport's status, the error number, and the results of
  the operations.  A caller that has no place for the error number gets the status of the
  compound in place of the transport's.
\<close>

definition fs_compoundv4_execute ::
  "'w rpc_env \<Rightarrow> bool \<Rightarrow> 'w hstate \<Rightarrow> (int \<times> int \<times> nfs_resop4 list \<times> 'w hstate) option" where
  "fs_compoundv4_execute R has_nfsstat h =
     (case argoparray (h_cpd h) of
        [] \<Rightarrow> if has_nfsstat then Some (RPC_SUCCESS, 0, [], h) else None
      | x # xs \<Rightarrow> do {
          (rep, w) \<leftarrow> call_loop R (x # xs) (h_world h);
          (rc, err) \<leftarrow> (if cr_rc rep = RPC_SUCCESS
             then if has_nfsstat then map_option (Pair RPC_SUCCESS) (nfsstat4_to_errno (cr_status rep))
                  else Some (cr_status rep, 0)
             else Some (cr_rc rep, 0));
          h' \<leftarrow> tc_update_sequence x (cr_res rep) (rc = RPC_SUCCESS) (h\<lparr>h_world := w\<rparr>);
          Some (rc, err, cr_res rep, h')
        })"

section \<open>The two loops of an operation\<close>

text \<open>
  Appending the operations of the elements.  The first element that does not fit ends the loop and
  is taken back; the result is the number of elements before it.
\<close>

fun build_loop ::
  "('a \<Rightarrow> 's \<Rightarrow> compound \<Rightarrow> (bool \<times> 's \<times> compound) option) \<Rightarrow> nat \<Rightarrow> 'a list \<Rightarrow> 's \<Rightarrow> compound \<Rightarrow> (nat \<times> 's \<times> compound) option" where
  "build_loop item i [] s c = Some (i, s, c)"
| "build_loop item i (x # xs) s c = do {
     (r, s', c') \<leftarrow> item x s c;
     if r then build_loop item (Suc i) xs s' c' else Some (i, s', reset_opcnt (opcnt c) c')
   }"

text \<open>An element whose operations depend on nothing but the compound.\<close>

definition plain :: "('a \<Rightarrow> compound \<Rightarrow> (bool \<times> compound) option) \<Rightarrow> 'a \<Rightarrow> unit \<Rightarrow> compound \<Rightarrow> (bool \<times> unit \<times> compound) option" where
  "plain item x u c = map_option (\<lambda>(r, c'). (r, u, c')) (item x c)"

text \<open>
  Reading the results of \<open>n\<close> operations: \<open>i\<close> is the element under work, \<open>a\<close> the caller's arrays.  The first
  operation that failed ends the loop.
\<close>

fun fill_results ::
  "(nfs_resop4 \<Rightarrow> nat \<Rightarrow> 'a \<Rightarrow> (nat \<times> 'a) option) \<Rightarrow> (nat \<Rightarrow> 'a \<Rightarrow> 'a option) \<Rightarrow> nat \<Rightarrow> nfs_resop4 list \<Rightarrow> nat \<Rightarrow> 'a
     \<Rightarrow> ((nat \<times> nfsstat4) option \<times> 'a) option" where
  "fill_results step fail 0 res i a = Some (None, a)"
| "fill_results step fail (Suc n) [] i a = None"
| "fill_results step fail (Suc n) (r # res) i a =
     (let op_status = get_nfs4_op_status r
      in if op_status \<noteq> NFS4_OK then map_option (Pair (Some (i, op_status))) (fail i a)
         else do { (i', a') \<leftarrow> step r i a; fill_results step fail n res i' a' })"

text \<open>
  An operation on an array: \<open>build\<close> appends its operations and returns how many elements they are for
  and the caller's arrays, \<open>step\<close> reads a result.
\<close>

definition vec_call ::
  "'w rpc_env \<Rightarrow> (compound \<Rightarrow> (nat \<times> 'a \<times> compound) option) \<Rightarrow>
   (nat \<Rightarrow> nfs_resop4 \<Rightarrow> nat \<Rightarrow> 'a \<Rightarrow> (nat \<times> 'a) option) \<Rightarrow> (nat \<Rightarrow> 'a \<Rightarrow> 'a option) \<Rightarrow> 'w hstate
     \<Rightarrow> (vres \<times> 'a \<times> 'w hstate) option" where
  "vec_call R build step fail h = do {
     h1 \<leftarrow> vreset_compound True h;
     (count, a, c) \<leftarrow> build (h_cpd h1);
     (rc, err_no, res, h2) \<leftarrow> fs_compoundv4_execute R True (h1\<lparr>h_cpd := c\<rparr>);
     if rc \<noteq> RPC_SUCCESS then Some (vfailure 0 rc, a, h2)
     else do {
       (f, a') \<leftarrow> fill_results (step count) fail (opcnt c) res 0 a;
       tcres \<leftarrow> (case f of
          None \<Rightarrow> Some \<lparr>vr_index = int count, vr_err_no = err_no\<rparr>
        | Some (i, st) \<Rightarrow> map_option (vfailure (int i)) (nfsstat4_to_errno st));
       Some (tcres, a', h2)
     }
   }"

definition build_plain ::
  "('a \<Rightarrow> compound \<Rightarrow> (bool \<times> compound) option) \<Rightarrow> 'a list \<Rightarrow> 'b \<Rightarrow> compound \<Rightarrow> (nat \<times> 'b \<times> compound) option" where
  "build_plain item xs a c = map_option (\<lambda>(n, u, c'). (n, a, c')) (build_loop (plain item) 0 xs () c)"

text \<open>Results that only count the operations of one kind, and failures that mark nothing.\<close>

definition count_op :: "nfs_opnum4 \<Rightarrow> nat \<Rightarrow> nfs_resop4 \<Rightarrow> nat \<Rightarrow> 'a \<Rightarrow> (nat \<times> 'a) option" where
  "count_op opn count r i a = Some (if resop r = opn then Suc i else i, a)"

definition no_mark :: "nat \<Rightarrow> 'a \<Rightarrow> 'a option" where
  "no_mark i a = Some a"

definition update_at :: "nat \<Rightarrow> ('a \<Rightarrow> 'a option) \<Rightarrow> 'a list \<Rightarrow> 'a list option" where
  "update_at i f xs = (if i < length xs then map_option (\<lambda>y. xs[i := y]) (f (xs ! i)) else None)"

definition vfile_set_handle :: "nfs_fh4 \<Rightarrow> vfile \<Rightarrow> vfile" where
  "vfile_set_handle fh4 tcf =
     tcf\<lparr>vf_type := VFILE_HANDLE,
         vf_ref := (case new_file_handle True (unat (nfs_fh4_len fh4)) (case nfs_fh4_val fh4 of Some v \<Rightarrow> v | None \<Rightarrow> []) of
                      Some fh \<Rightarrow> HandleRef fh | None \<Rightarrow> NullRef)\<rparr>"

definition set_handle_at :: "nfs_fh4 \<Rightarrow> vattrs \<Rightarrow> vattrs option" where
  "set_handle_at fh4 a = Some (a\<lparr>va_file := vfile_set_handle fh4 (va_file a)\<rparr>)"

section \<open>Renaming, removing and linking\<close>

definition rename_item :: "handle_env \<Rightarrow> vfile_pair \<Rightarrow> compound \<Rightarrow> (bool \<times> compound) option" where
  "rename_item E p c =
     with_name (tc_set_saved_fh (he_cwd E) (he_fds E) (src_file p) c) (\<lambda>srcname c1.
     with_name (current_fh E (dst_file p) False c1) (\<lambda>dstname c2.
     Some (tc_prepare_rename srcname dstname c2)))"

definition tc_nfs4_renamev :: "'w rpc_env \<Rightarrow> handle_env \<Rightarrow> vfile_pair list \<Rightarrow> 'w hstate \<Rightarrow> (vres \<times> 'w hstate) option" where
  "tc_nfs4_renamev R E pairs h =
     map_option (\<lambda>(v, a, h'). (v, h'))
       (vec_call R (build_plain (rename_item E) pairs ()) (count_op NFS4_OP_RENAME) no_mark h)"

definition remove_item :: "handle_env \<Rightarrow> vfile \<Rightarrow> compound \<Rightarrow> (bool \<times> compound) option" where
  "remove_item E f c =
     (if vf_type f = VFILE_NULL then Some (True, c)
      else with_name (current_fh E f True c) (\<lambda>name c1. Some (tc_prepare_remove (tc_new_auto_str name) c1)))"

text \<open>The files that are left out; at the end of the array there is no check.\<close>

fun skip_null :: "vfile list \<Rightarrow> nat option" where
  "skip_null [] = None"
| "skip_null (f # fs) = (if vf_type f = VFILE_NULL then map_option Suc (skip_null fs) else Some 0)"

definition remove_step :: "vfile list \<Rightarrow> nat \<Rightarrow> nfs_resop4 \<Rightarrow> nat \<Rightarrow> unit \<Rightarrow> (nat \<times> unit) option" where
  "remove_step files count r i u =
     (if resop r = NFS4_OP_REMOVE then map_option (\<lambda>k. (Suc (i + k), u)) (skip_null (drop i files)) else Some (i, u))"

definition tc_nfs4_removev :: "'w rpc_env \<Rightarrow> handle_env \<Rightarrow> vfile list \<Rightarrow> 'w hstate \<Rightarrow> (vres \<times> 'w hstate) option" where
  "tc_nfs4_removev R E files h =
     map_option (\<lambda>(v, a, h'). (v, h'))
       (vec_call R (build_plain (remove_item E) files ()) (remove_step files) no_mark h)"

text \<open>
  The name of a new link is taken up to the end of the path, not to the end of its last component; a path
  without a last component has none.
\<close>

definition link_name :: "string \<Rightarrow> string option" where
  "link_name path =
     (let base = tc_path_basename_s path (mkslice 0 (length path))
      in if sl_size base = 0 then None else Some (tc_new_auto_str (drop (sl_data base) path)))"

definition hardlink_item :: "handle_env \<Rightarrow> string \<times> string \<Rightarrow> compound \<Rightarrow> (bool \<times> compound) option" where
  "hardlink_item E p c =
     with_name (cfh_to_path E (fst p) False True c) (\<lambda>_ c1.
     with_name (cfh_to_path E (snd p) True False c1) (\<lambda>_ c2.
     if \<not> tc_has_enough_ops 1 c2 then Some (False, c2)
     else do { name \<leftarrow> link_name (snd p); Some (tc_prepare_hardlink name c2) }))"

definition tc_nfs4_hardlinkv ::
  "'w rpc_env \<Rightarrow> handle_env \<Rightarrow> (string \<times> string) list \<Rightarrow> 'w hstate \<Rightarrow> (vres \<times> 'w hstate) option" where
  "tc_nfs4_hardlinkv R E pairs h =
     map_option (\<lambda>(v, a, h'). (v, h'))
       (vec_call R (build_plain (hardlink_item E) pairs ()) (count_op NFS4_OP_LINK) no_mark h)"

definition symlink_item :: "handle_env \<Rightarrow> string \<times> string \<Rightarrow> compound \<Rightarrow> (bool \<times> compound) option" where
  "symlink_item E p c =
     with_name (cfh_to_path E (snd p) True True c) (\<lambda>name c1. do {
       let pname = tc_new_auto_str name;
       attrs4 \<leftarrow> vattrs_to_fattr4 (he_fattr E) (vset_up_creation (he_euid E) (he_egid E) (he_tca E) pname 493) zero_fattr4;
       Some (tc_prepare_symlink pname (fst p) attrs4 c1)
     })"

definition tc_nfs4_symlinkv ::
  "'w rpc_env \<Rightarrow> handle_env \<Rightarrow> (string \<times> string) list \<Rightarrow> 'w hstate \<Rightarrow> (vres \<times> 'w hstate) option" where
  "tc_nfs4_symlinkv R E pairs h =
     map_option (\<lambda>(v, a, h'). (v, h'))
       (vec_call R (build_plain (symlink_item E) pairs ()) (count_op NFS4_OP_CREATE) no_mark h)"

section \<open>Reading links\<close>

text \<open>A buffer is its bytes; the decoder has put the target at its start.\<close>

record link_arg =
  ln_path :: string
  ln_buf :: "char list"
  ln_size :: u64

definition readlink_item :: "handle_env \<Rightarrow> link_arg \<Rightarrow> compound \<Rightarrow> (bool \<times> compound) option" where
  "readlink_item E p c =
     with_name (cfh_to_path E (ln_path p) True True c) (\<lambda>name c1.
       Some (and_then (tc_prepare_lookups [name]) tc_prepare_readlink c1))"

definition readlink_step :: "nat \<Rightarrow> nfs_resop4 \<Rightarrow> nat \<Rightarrow> link_arg list \<Rightarrow> (nat \<times> link_arg list) option" where
  "readlink_step count r i links =
     (case (resop r, res_ok r) of
        (NFS4_OP_READLINK, ResReadlink target) \<Rightarrow>
          map_option (Pair (Suc i)) (update_at i (\<lambda>l.
            let lksize = of_nat (length target); buf = target @ drop (length target) (ln_buf l)
            in Some (if lksize < ln_size l then l\<lparr>ln_buf := buf[length target := NUL], ln_size := lksize\<rparr>
                     else l\<lparr>ln_buf := buf\<rparr>)) links)
      | (NFS4_OP_READLINK, _) \<Rightarrow> None
      | _ \<Rightarrow> Some (i, links))"

definition tc_nfs4_readlinkv ::
  "'w rpc_env \<Rightarrow> handle_env \<Rightarrow> link_arg list \<Rightarrow> 'w hstate \<Rightarrow> (vres \<times> link_arg list \<times> 'w hstate) option" where
  "tc_nfs4_readlinkv R E links h =
     vec_call R (build_plain (readlink_item E) links links) readlink_step no_mark h"

section \<open>Attributes and directories\<close>

text \<open>A result that carries attributes of the element at \<open>k\<close>.\<close>

definition got_attrs :: "handle_env \<Rightarrow> nfs_resop4 \<Rightarrow> nat \<Rightarrow> vattrs list \<Rightarrow> vattrs list option" where
  "got_attrs E r k attrs =
     (case res_ok r of ResGetattr f \<Rightarrow> update_at k (fattr4_to_vattrs (he_fattr E) f) attrs | _ \<Rightarrow> None)"

definition got_fh :: "nfs_resop4 \<Rightarrow> nat \<Rightarrow> vattrs list \<Rightarrow> vattrs list option" where
  "got_fh r k attrs = (case res_ok r of ResGetfh fh \<Rightarrow> update_at k (set_handle_at fh) attrs | _ \<Rightarrow> None)"

definition lgetattrs_item :: "handle_env \<Rightarrow> vattrs \<Rightarrow> compound \<Rightarrow> (bool \<times> compound) option" where
  "lgetattrs_item E a c =
     with_name (current_fh E (va_file a) True c) (\<lambda>name c1.
       Some (and_then (tc_prepare_lookups [name])
              (and_then tc_prepare_getfh (tc_prepare_getattr (tc_attr_masks_to_bitmap (va_masks a)))) c1))"

definition lgetattrs_step :: "handle_env \<Rightarrow> nat \<Rightarrow> nfs_resop4 \<Rightarrow> nat \<Rightarrow> vattrs list \<Rightarrow> (nat \<times> vattrs list) option" where
  "lgetattrs_step E count r i attrs =
     (case resop r of
        NFS4_OP_GETFH \<Rightarrow> map_option (Pair i) (got_fh r i attrs)
      | NFS4_OP_GETATTR \<Rightarrow> map_option (Pair (Suc i)) (got_attrs E r i attrs)
      | _ \<Rightarrow> Some (i, attrs))"

definition tc_nfs4_lgetattrsv ::
  "'w rpc_env \<Rightarrow> handle_env \<Rightarrow> vattrs list \<Rightarrow> 'w hstate \<Rightarrow> (vres \<times> vattrs list \<times> 'w hstate) option" where
  "tc_nfs4_lgetattrsv R E attrs h =
     (if attrs = [] then None
      else vec_call R (build_plain (lgetattrs_item E) attrs attrs) (lgetattrs_step E) no_mark h)"

definition lsetattrs_item :: "handle_env \<Rightarrow> vattrs \<Rightarrow> compound \<Rightarrow> (bool \<times> compound) option" where
  "lsetattrs_item E a c = do {
     fattr \<leftarrow> vattrs_to_fattr4 (he_fattr E) a zero_fattr4;
     with_name (current_fh E (va_file a) True c) (\<lambda>name c1.
       and_also (Some (tc_prepare_lookups [name] c1)) (\<lambda>c2.
       and_also (tc_prepare_setattr fattr c2) (\<lambda>c3.
       Some (tc_prepare_getattr (tc_attr_masks_to_bitmap (va_masks a)) c3))))
   }"

definition lsetattrs_step :: "handle_env \<Rightarrow> nat \<Rightarrow> nfs_resop4 \<Rightarrow> nat \<Rightarrow> vattrs list \<Rightarrow> (nat \<times> vattrs list) option" where
  "lsetattrs_step E count r i attrs =
     (case resop r of
        NFS4_OP_GETATTR \<Rightarrow> map_option (Pair (Suc i)) (got_attrs E r i attrs)
      | _ \<Rightarrow> Some (i, attrs))"

definition tc_nfs4_lsetattrsv ::
  "'w rpc_env \<Rightarrow> handle_env \<Rightarrow> vattrs list \<Rightarrow> 'w hstate \<Rightarrow> (vres \<times> vattrs list \<times> 'w hstate) option" where
  "tc_nfs4_lsetattrsv R E attrs h =
     vec_call R (build_plain (lsetattrs_item E) attrs attrs) (lsetattrs_step E) no_mark h"

definition mkdir_item :: "handle_env \<Rightarrow> vattrs \<Rightarrow> compound \<Rightarrow> (bool \<times> compound) option" where
  "mkdir_item E a c = do {
     fattr \<leftarrow> vattrs_to_fattr4 (he_fattr E) a zero_fattr4;
     with_name (current_fh E (va_file a) True c) (\<lambda>name c1.
       Some (and_then (tc_prepare_mkdir name fattr)
              (and_then tc_prepare_getfh (tc_prepare_getattr fs_bitmap_getattr)) c1))
   }"

text \<open>The element is counted at its CREATE; what follows belongs to the one before.\<close>

definition mkdir_step :: "handle_env \<Rightarrow> nat \<Rightarrow> nfs_resop4 \<Rightarrow> nat \<Rightarrow> vattrs list \<Rightarrow> (nat \<times> vattrs list) option" where
  "mkdir_step E count r i dirs =
     (case resop r of
        NFS4_OP_CREATE \<Rightarrow> Some (Suc i, dirs)
      | NFS4_OP_GETFH \<Rightarrow> if i = 0 then None else map_option (Pair i) (got_fh r (i - 1) dirs)
      | NFS4_OP_GETATTR \<Rightarrow> if i = 0 then None else map_option (Pair i) (got_attrs E r (i - 1) dirs)
      | _ \<Rightarrow> Some (i, dirs))"

definition tc_nfs4_mkdirv ::
  "'w rpc_env \<Rightarrow> handle_env \<Rightarrow> vattrs list \<Rightarrow> 'w hstate \<Rightarrow> (vres \<times> vattrs list \<times> 'w hstate) option" where
  "tc_nfs4_mkdirv R E dirs h =
     (if dirs = [] then None
      else vec_call R (build_plain (mkdir_item E) dirs dirs) (mkdir_step E) no_mark h)"

section \<open>Opening, closing and copying\<close>

record open_arg =
  op_attrs :: vattrs
  op_flags :: int
  op_sid :: stateid4

definition open_item :: "handle_env \<Rightarrow> open_arg \<Rightarrow> compound \<Rightarrow> (bool \<times> compound) option" where
  "open_item E a c = do {
     fattr \<leftarrow> (if has_flag (op_flags a) O_CREAT then vattrs_to_fattr4_create (he_fattr E) (op_attrs a) zero_fattr4
               else Some zero_fattr4);
     with_name (current_fh E (va_file (op_attrs a)) True c) (\<lambda>name c1.
       and_also (tc_prepare_open E name (op_flags a) (Some fattr) c1) (\<lambda>c2.
       Some (and_then tc_prepare_getfh (tc_prepare_getattr fs_bitmap_getattr) c2)))
   }"

definition open_step :: "handle_env \<Rightarrow> nat \<Rightarrow> nfs_resop4 \<Rightarrow> nat \<Rightarrow> open_arg list \<Rightarrow> (nat \<times> open_arg list) option" where
  "open_step E count r i files =
     (case (resop r, res_ok r) of
        (NFS4_OP_OPEN, ResOpen rflags sid) \<Rightarrow>
          map_option (Pair i) (update_at i (\<lambda>f. Some (f\<lparr>op_flags := sint rflags, op_sid := sid\<rparr>)) files)
      | (NFS4_OP_GETFH, ResGetfh fh) \<Rightarrow>
          map_option (Pair i) (update_at i (\<lambda>f. map_option (\<lambda>a. f\<lparr>op_attrs := a\<rparr>) (set_handle_at fh (op_attrs f))) files)
      | (NFS4_OP_GETATTR, ResGetattr fa) \<Rightarrow>
          map_option (Pair (Suc i))
            (update_at i (\<lambda>f. map_option (\<lambda>a. f\<lparr>op_attrs := a\<rparr>) (fattr4_to_vattrs (he_fattr E) fa (op_attrs f))) files)
      | (opn, _) \<Rightarrow> if opn \<in> {NFS4_OP_OPEN, NFS4_OP_GETFH, NFS4_OP_GETATTR} then None else Some (i, files))"

definition tc_nfs4_openv ::
  "'w rpc_env \<Rightarrow> handle_env \<Rightarrow> open_arg list \<Rightarrow> 'w hstate \<Rightarrow> (vres \<times> open_arg list \<times> 'w hstate) option" where
  "tc_nfs4_openv R E files h =
     (if files = [] then None
      else vec_call R (build_plain (open_item E) files files) (open_step E) no_mark h)"

text \<open>
  Closing: the state is the array of sequence numbers, which are counted up as they are used, also those
  of an element that is taken back.
\<close>

definition close_item ::
  "stateid4 list \<Rightarrow> nat \<times> nfs_fh4 \<Rightarrow> u32 list \<Rightarrow> compound \<Rightarrow> (bool \<times> u32 list \<times> compound) option" where
  "close_item sids p seqs c =
     (case p of (i, fh4) \<Rightarrow>
        if is_special_stateid (sids ! i) then Some (True, seqs, c)
        else let (r1, c1) = tc_prepare_putfh fh4 c
             in if \<not> r1 then Some (False, seqs, c1)
                else let (r2, c2) = tc_prepare_close (Some (seqs ! i, sids ! i)) c1
                     in Some (r2, if r2 then seqs[i := seqs ! i + 1] else seqs, c2))"

definition close_build ::
  "nfs_fh4 list \<Rightarrow> stateid4 list \<Rightarrow> u32 list \<Rightarrow> compound \<Rightarrow> (nat \<times> (stateid4 list \<times> u32 list) \<times> compound) option" where
  "close_build fh4s sids seqs c =
     map_option (\<lambda>(n, seqs', c'). (n, (sids, seqs'), c')) (build_loop (close_item sids) 0 (enumerate 0 fh4s) seqs c)"

definition close_step ::
  "nat \<Rightarrow> nfs_resop4 \<Rightarrow> nat \<Rightarrow> stateid4 list \<times> u32 list \<Rightarrow> (nat \<times> stateid4 list \<times> u32 list) option" where
  "close_step count r i a =
     (case a of (sids, seqs) \<Rightarrow>
        if resop r = NFS4_OP_CLOSE
        then let k = i + length (takeWhile is_special_stateid (drop i (take count sids)))
             in map_option (\<lambda>s. (Suc k, s, seqs)) (update_at k (\<lambda>sid. Some (sid\<lparr>sid_seqid := sid_seqid sid + 1\<rparr>)) sids)
        else Some (i, a))"

definition tc_nfs4_closev ::
  "'w rpc_env \<Rightarrow> nfs_fh4 list \<Rightarrow> stateid4 list \<Rightarrow> u32 list \<Rightarrow> 'w hstate
     \<Rightarrow> (vres \<times> (stateid4 list \<times> u32 list) \<times> 'w hstate) option" where
  "tc_nfs4_closev R fh4s sids seqs h =
     (if length fh4s = length sids \<and> length fh4s = length seqs
      then vec_call R (close_build fh4s sids seqs) close_step no_mark h else None)"

text \<open>
  Copying: the state is the name of the target, which is assigned by the last of four steps and read in
  any case; it keeps the value of the element before.
\<close>

definition copy_open ::
  "handle_env \<Rightarrow> vextent_pair \<Rightarrow> string option \<Rightarrow> compound \<Rightarrow> (bool \<times> string option \<times> compound) option" where
  "copy_open E p dstname c =
     (case tc_set_cfh_to_path (he_cwd E) (src_path p) True False c of (r1, srcname, c1) \<Rightarrow>
        if \<not> r1 then Some (False, dstname, c1)
        else do {
          (r2, c2) \<leftarrow> tc_prepare_open E srcname 0 None c1;
          let (r3, c3) = (if r2 then tc_prepare_savefh None c2 else (False, c2));
          if \<not> r3 then Some (False, dstname, c3)
          else case tc_set_cfh_to_path (he_cwd E) (dst_path p) True False c3 of
                 (r4, name, c4) \<Rightarrow> Some (r4, Some name, c4)
        })"

definition lcopy_item ::
  "handle_env \<Rightarrow> vextent_pair \<Rightarrow> string option \<Rightarrow> compound \<Rightarrow> (bool \<times> string option \<times> compound) option" where
  "lcopy_item E p dstname c = do {
     (r, dstname', c1) \<leftarrow> copy_open E p dstname c;
     name \<leftarrow> dstname';
     attrs4 \<leftarrow> vattrs_to_fattr4 (he_fattr E)
       (vset_up_creation (he_euid E) (he_egid E) (he_tca E) (tc_new_auto_str name) 493) zero_fattr4;
     (r', c') \<leftarrow> and_also (Some (r, c1)) (\<lambda>c1.
       and_also (tc_prepare_open E name (O_WRONLY OR O_CREAT) (Some attrs4) c1) (\<lambda>c2.
       Some (and_then (tc_prepare_copy (src_offset p) (dst_offset p) (ext_length p))
              (and_then (tc_prepare_close None) (and_then tc_prepare_restorefh (tc_prepare_close None))) c2)));
     Some (r', dstname', c')
   }"

definition lcopy_build ::
  "handle_env \<Rightarrow> vextent_pair list \<Rightarrow> compound \<Rightarrow> (nat \<times> vextent_pair list \<times> compound) option" where
  "lcopy_build E pairs c =
     map_option (\<lambda>(n, d, c'). (n, pairs, c')) (build_loop (lcopy_item E) 0 pairs None c)"

definition lcopy_step :: "nat \<Rightarrow> nfs_resop4 \<Rightarrow> nat \<Rightarrow> vextent_pair list \<Rightarrow> (nat \<times> vextent_pair list) option" where
  "lcopy_step count r i pairs =
     (case (resop r, res_ok r) of
        (NFS4_OP_COPY, ResCopy n) \<Rightarrow> map_option (Pair (Suc i)) (update_at i (\<lambda>p. Some (p\<lparr>ext_length := n\<rparr>)) pairs)
      | (NFS4_OP_COPY, _) \<Rightarrow> None
      | _ \<Rightarrow> Some (i, pairs))"

definition tc_nfs4_lcopyv ::
  "'w rpc_env \<Rightarrow> handle_env \<Rightarrow> vextent_pair list \<Rightarrow> 'w hstate \<Rightarrow> (vres \<times> vextent_pair list \<times> 'w hstate) option" where
  "tc_nfs4_lcopyv R E pairs h = vec_call R (lcopy_build E pairs) lcopy_step no_mark h"

section \<open>Reading and writing\<close>

text \<open>The file of a vector is opened unless it is one that is open; \<open>ofile\<close> is the file the compound has open.\<close>

definition sca_open_file_if_necessary ::
  "handle_env \<Rightarrow> vfile \<Rightarrow> int \<Rightarrow> vfile option \<Rightarrow> compound \<Rightarrow> (bool \<times> vfile option \<times> compound) option" where
  "sca_open_file_if_necessary E tcf flags ofile c =
     (if vf_type tcf = VFILE_DESCRIPTOR
      then (case vf_ref tcf of
              FdData d \<Rightarrow> (case tc_prepare_putfh (fr_fh4 (he_fds E d)) c of (r, c') \<Rightarrow> Some (r, ofile, c'))
            | _ \<Rightarrow> None)
      else if vf_type tcf = VFILE_CURRENT \<and> (vf_ref tcf = NullRef \<or> vf_ref tcf = PathRef ''.'') then Some (True, ofile, c)
      else do {
        same \<leftarrow> (case ofile of None \<Rightarrow> Some False | Some f \<Rightarrow> tc_cmp_file tcf f);
        if same then Some (True, ofile, c)
        else do {
          let (r, c1) = (case ofile of None \<Rightarrow> (True, c) | Some f \<Rightarrow> tc_prepare_close None c);
          attrs4 \<leftarrow> (if has_flag flags O_CREAT
             then map_option Some (vattrs_to_fattr4 (he_fattr E)
               (vattrs_set_gid (vattrs_set_uid (vattrs_set_mode ((he_tca E)\<lparr>va_masks := VMASK_INIT_NONE\<rparr>) 420)
                  (ucast (he_uid E))) (ucast (he_gid E))) zero_fattr4)
             else Some None);
          (r', c') \<leftarrow> and_also (Some (r, c1)) (\<lambda>c1.
            with_name (current_fh E tcf True c1) (\<lambda>name. tc_prepare_open E name flags attrs4));
          Some (r', if r' then Some tcf else None, if r' then c' else reset_opcnt (opcnt c) c')
        }
      })"

text \<open>One operation is kept free for the CLOSE after the last vector.\<close>

definition rw_item ::
  "(vfile option \<Rightarrow> compound \<Rightarrow> (bool \<times> vfile option \<times> compound) option) \<Rightarrow>
   (vfile option \<Rightarrow> compound \<Rightarrow> (bool \<times> compound) option) \<Rightarrow> vfile option \<Rightarrow> compound \<Rightarrow> (bool \<times> vfile option \<times> compound) option" where
  "rw_item open_file ops ofile c = do {
     (r1, ofile', c1) \<leftarrow> open_file ofile c;
     (r, c') \<leftarrow> and_also (Some (r1, c1)) (ops ofile');
     Some (if \<not> r \<or> \<not> tc_has_enough_ops 1 c' then (False, ofile, c') else (True, ofile', c'))
   }"

definition read_item :: "handle_env \<Rightarrow> viovec \<Rightarrow> vfile option \<Rightarrow> compound \<Rightarrow> (bool \<times> vfile option \<times> compound) option" where
  "read_item E iov =
     rw_item (sca_open_file_if_necessary E (vi_file iov) 0)
       (\<lambda>ofile c. and_also (tc_prepare_rdwr E iov False (ofile \<noteq> None) c) (\<lambda>c. Some (tc_prepare_getattr fs_bitmap_getattr c)))"

definition write_item :: "handle_env \<Rightarrow> viovec \<Rightarrow> vfile option \<Rightarrow> compound \<Rightarrow> (bool \<times> vfile option \<times> compound) option" where
  "write_item E iov =
     rw_item (sca_open_file_if_necessary E (vi_file iov) (if vi_is_creation iov then O_WRONLY OR O_CREAT else O_WRONLY))
       (\<lambda>ofile c. and_also (Some (tc_prepare_getattr fs_bitmap_getattr c)) (\<lambda>c.
          and_also (tc_prepare_rdwr E iov True (ofile \<noteq> None) c) (\<lambda>c. Some (tc_prepare_getattr fs_bitmap_getattr c))))"

definition VECTOR_READ_OP :: int where "VECTOR_READ_OP = 1"
definition VECTOR_WRITE_OP :: int where "VECTOR_WRITE_OP = 2"

text \<open>
  A vector of neither type has no operations; \<open>r\<close> is then what the vector before has left, and
  uninitialised at the first one.
\<close>

definition read_write_item ::
  "handle_env \<Rightarrow> viovec \<Rightarrow> bool \<times> vfile option \<Rightarrow> compound \<Rightarrow> (bool \<times> (bool \<times> vfile option) \<times> compound) option" where
  "read_write_item E iov s c =
     (if vi_type iov = VECTOR_WRITE_OP then map_option (\<lambda>(r, f, c'). (r, (True, f), c')) (write_item E iov (snd s) c)
      else if vi_type iov = VECTOR_READ_OP then map_option (\<lambda>(r, f, c'). (r, (True, f), c')) (read_item E iov (snd s) c)
      else if \<not> fst s then None
      else Some (tc_has_enough_ops 1 c, s, c))"

text \<open>The CLOSE at the end is appended without a check.\<close>

definition close_last :: "vfile option \<Rightarrow> compound \<Rightarrow> compound option" where
  "close_last ofile c =
     (case ofile of
        None \<Rightarrow> Some c
      | Some f \<Rightarrow> if opcnt c < MAX_NUM_OPS_PER_COMPOUND then Some (add_op (OpClose 1 CURSID) c) else None)"

definition rw_build ::
  "('i \<Rightarrow> 's \<Rightarrow> compound \<Rightarrow> (bool \<times> 's \<times> compound) option) \<Rightarrow> ('s \<Rightarrow> vfile option) \<Rightarrow> 's \<Rightarrow> 'i list \<Rightarrow> 'a \<Rightarrow> compound
     \<Rightarrow> (nat \<times> 'a \<times> compound) option" where
  "rw_build item file s iovs a c = do {
     (count, s', c') \<leftarrow> build_loop item 0 iovs s c;
     c'' \<leftarrow> close_last (file s') c';
     Some (count, a, c'')
   }"

definition got_read :: "nfs_resop4 \<Rightarrow> nat \<Rightarrow> viovec list \<Rightarrow> viovec list option" where
  "got_read r i iovs =
     (case res_ok r of
        ResRead n eof \<Rightarrow> update_at i (\<lambda>v. Some (v\<lparr>vi_length := ucast n, vi_is_eof := eof\<rparr>)) iovs
      | _ \<Rightarrow> None)"

definition got_write :: "nfs_resop4 \<Rightarrow> nat \<Rightarrow> viovec list \<Rightarrow> viovec list option" where
  "got_write r i iovs =
     (case res_ok r of
        ResWrite n committed \<Rightarrow>
          update_at i (\<lambda>v. Some (v\<lparr>vi_length := ucast n, vi_is_write_stable := (committed \<noteq> UNSTABLE4)\<rparr>)) iovs
      | _ \<Rightarrow> None)"

text \<open>The vectors, the number of attributes seen, and the attributes before and after.\<close>

record rw_arrays =
  rw_iovs :: "viovec list"
  rw_attr_count :: nat
  rw_old :: "vattrs list"
  rw_new :: "vattrs list"

definition mark_failed :: "nat \<Rightarrow> rw_arrays \<Rightarrow> rw_arrays option" where
  "mark_failed i a =
     map_option (\<lambda>iovs. a\<lparr>rw_iovs := iovs\<rparr>) (update_at i (\<lambda>v. Some (v\<lparr>vi_is_failure := True\<rparr>)) (rw_iovs a))"

definition read_step :: "handle_env \<Rightarrow> nat \<Rightarrow> nfs_resop4 \<Rightarrow> nat \<Rightarrow> rw_arrays \<Rightarrow> (nat \<times> rw_arrays) option" where
  "read_step E count r i a =
     (case resop r of
        NFS4_OP_READ \<Rightarrow> map_option (\<lambda>iovs. (Suc i, a\<lparr>rw_iovs := iovs\<rparr>)) (got_read r i (rw_iovs a))
      | NFS4_OP_GETATTR \<Rightarrow>
          map_option (\<lambda>at. (i, a\<lparr>rw_new := at, rw_attr_count := Suc (rw_attr_count a)\<rparr>))
            (got_attrs E r (rw_attr_count a) (rw_new a))
      | _ \<Rightarrow> Some (i, a))"

definition old_or_new :: "handle_env \<Rightarrow> nfs_resop4 \<Rightarrow> nat \<Rightarrow> rw_arrays \<Rightarrow> (nat \<times> rw_arrays) option" where
  "old_or_new E r i a =
     (let k = rw_attr_count a; a' = a\<lparr>rw_attr_count := Suc k\<rparr>
      in if k mod 2 = 1 then map_option (\<lambda>at. (i, a'\<lparr>rw_new := at\<rparr>)) (got_attrs E r (k div 2) (rw_new a))
         else map_option (\<lambda>at. (i, a'\<lparr>rw_old := at\<rparr>)) (got_attrs E r (k div 2) (rw_old a)))"

definition write_step :: "handle_env \<Rightarrow> nat \<Rightarrow> nfs_resop4 \<Rightarrow> nat \<Rightarrow> rw_arrays \<Rightarrow> (nat \<times> rw_arrays) option" where
  "write_step E count r i a =
     (case resop r of
        NFS4_OP_WRITE \<Rightarrow> map_option (\<lambda>iovs. (Suc i, a\<lparr>rw_iovs := iovs\<rparr>)) (got_write r i (rw_iovs a))
      | NFS4_OP_GETATTR \<Rightarrow> old_or_new E r i a
      | _ \<Rightarrow> Some (i, a))"

definition read_write_step :: "handle_env \<Rightarrow> nat \<Rightarrow> nfs_resop4 \<Rightarrow> nat \<Rightarrow> rw_arrays \<Rightarrow> (nat \<times> rw_arrays) option" where
  "read_write_step E count r i a =
     (case resop r of
        NFS4_OP_WRITE \<Rightarrow> map_option (\<lambda>iovs. (Suc i, a\<lparr>rw_iovs := iovs\<rparr>)) (got_write r i (rw_iovs a))
      | NFS4_OP_READ \<Rightarrow> map_option (\<lambda>iovs. (Suc i, a\<lparr>rw_iovs := iovs\<rparr>)) (got_read r i (rw_iovs a))
      | NFS4_OP_GETATTR \<Rightarrow> old_or_new E r i a
      | _ \<Rightarrow> Some (i, a))"

definition rw_arrays_of :: "viovec list \<Rightarrow> vattrs list \<Rightarrow> vattrs list \<Rightarrow> rw_arrays" where
  "rw_arrays_of iovs old new = \<lparr>rw_iovs = iovs, rw_attr_count = 0, rw_old = old, rw_new = new\<rparr>"

definition tc_nfs4_readv ::
  "'w rpc_env \<Rightarrow> handle_env \<Rightarrow> viovec list \<Rightarrow> vattrs list \<Rightarrow> 'w hstate \<Rightarrow> (vres \<times> rw_arrays \<times> 'w hstate) option" where
  "tc_nfs4_readv R E iovs attrs h =
     vec_call R (rw_build (read_item E) (\<lambda>f. f) None iovs (rw_arrays_of iovs [] attrs)) (read_step E) mark_failed h"

definition tc_nfs4_writev ::
  "'w rpc_env \<Rightarrow> handle_env \<Rightarrow> viovec list \<Rightarrow> vattrs list \<Rightarrow> vattrs list \<Rightarrow> 'w hstate \<Rightarrow> (vres \<times> rw_arrays \<times> 'w hstate) option" where
  "tc_nfs4_writev R E iovs old new h =
     vec_call R (rw_build (write_item E) (\<lambda>f. f) None iovs (rw_arrays_of iovs old new)) (write_step E) mark_failed h"

definition tc_nfs4_read_writev ::
  "'w rpc_env \<Rightarrow> handle_env \<Rightarrow> viovec list \<Rightarrow> vattrs list \<Rightarrow> vattrs list \<Rightarrow> 'w hstate \<Rightarrow> (vres \<times> rw_arrays \<times> 'w hstate) option" where
  "tc_nfs4_read_writev R E iovs old new h =
     vec_call R (rw_build (read_write_item E) snd (False, None) iovs (rw_arrays_of iovs old new)) (read_write_step E) mark_failed h"

section \<open>The working directory\<close>

text \<open>
  The result is the new working directory, if there is one.  The path is kept in an array that a longer
  path fills without a terminator.  Whether the operations fitted is not looked at: if GETFH
  did not, its result is read through a null pointer; otherwise it is the last one.
\<close>

definition tc_nfs4_chdir ::
  "'w rpc_env \<Rightarrow> handle_env \<Rightarrow> string \<Rightarrow> 'w hstate \<Rightarrow> (int \<times> tc_cwd_data option \<times> 'w hstate) option" where
  "tc_nfs4_chdir R E path h = do {
     h1 \<leftarrow> vreset_compound True h;
     let (r, name, c1) = tc_set_cfh_to_path (he_cwd E) path False True (h_cpd h1);
     let (fhok, c2) = tc_prepare_getfh c1;
     (rc, err_no, res, h2) \<leftarrow> fs_compoundv4_execute R False (h1\<lparr>h_cpd := c2\<rparr>);
     if rc \<noteq> RPC_SUCCESS then Some (- rc, None, h2)
     else if \<not> fhok \<or> length path \<ge> PATH_MAX \<or> length res < opcnt c2 then None
     else case res_ok (res ! opcnt c1) of
            ResGetfh fh \<Rightarrow> Some (0, Some \<lparr>cwd_path = path, cwd_fh = fh\<rparr>, h2)
          | _ \<Rightarrow> None
   }"

definition tc_nfs4_getcwd :: "handle_env \<Rightarrow> string" where
  "tc_nfs4_getcwd E = cwd_path (he_cwd E)"

end
