(* ===== verification/Compound_Types.thy ===== *)
theory Compound_Types
  imports Compound_Ops
begin

text \<open>
  A type system for compounds: which operation needs a current and a saved file handle, and which one sets
  them.  Every compound the vectorised operations build from elements that name their files is
  well-typed: it starts with the one SEQUENCE, has room in the array, and no operation comes before
  the handles it needs.
\<close>

section \<open>Types\<close>

text \<open>Whether there are a current and a saved handle, before and after an operation; \<open>None\<close> if one is missing.\<close>

fun op_type :: "nfs_argop4 \<Rightarrow> bool \<times> bool \<Rightarrow> (bool \<times> bool) option" where
  "op_type (OpSequence _ _ _) _ = None"
| "op_type (OpPutfh _) (_, s) = Some (True, s)"
| "op_type OpPutrootfh (_, s) = Some (True, s)"
| "op_type OpSavefh (f, s) = (if f then Some (f, True) else None)"
| "op_type OpRestorefh (f, s) = (if s then Some (True, s) else None)"
| "op_type (OpRename _ _) (f, s) = (if f \<and> s then Some (f, s) else None)"
| "op_type (OpLink _) (f, s) = (if f \<and> s then Some (f, s) else None)"
| "op_type (OpCopy _ _ _) (f, s) = (if f \<and> s then Some (f, s) else None)"
| "op_type (OpLookup w) (f, s) = (if f \<and> w \<noteq> [] then Some (f, s) else None)"
| "op_type _ (f, s) = (if f then Some (f, s) else None)"

fun ops_type :: "nfs_argop4 list \<Rightarrow> bool \<times> bool \<Rightarrow> (bool \<times> bool) option" where
  "ops_type [] t = Some t"
| "ops_type (x # xs) t = do { t' \<leftarrow> op_type x t; ops_type xs t' }"

definition sent_type :: "nfs_argop4 list \<Rightarrow> bool \<times> bool \<Rightarrow> bool" where
  "sent_type sent t \<longleftrightarrow> (\<exists>slot seq hi ops. sent = OpSequence slot seq hi # ops \<and> ops_type ops (False, False) = Some t) \<and>
     length sent \<le> MAX_NUM_OPS_PER_COMPOUND"

text \<open>While the compound is built, the saved path is that of a saved handle.\<close>

definition has_type :: "compound \<Rightarrow> bool \<times> bool \<Rightarrow> bool" where
  "has_type c t \<longleftrightarrow> sent_type (argoparray c) t \<and> (tc_saved_path c \<noteq> [] \<longrightarrow> snd t)"

lemma ops_type_append: "ops_type (xs @ ys) t = do { t' \<leftarrow> ops_type xs t; ops_type ys t' }"
  by (induction xs arbitrary: t) (auto split: bind_splits)

lemma op_type_mono: "op_type x (f, s) = Some (f', s') \<Longrightarrow> (f \<longrightarrow> f') \<and> (s \<longrightarrow> s')"
  by (cases x) (auto split: if_splits)

lemma ops_type_mono: "ops_type xs (f, s) = Some (f', s') \<Longrightarrow> (f \<longrightarrow> f') \<and> (s \<longrightarrow> s')"
  by (induction xs arbitrary: f s) (fastforce split: bind_splits dest: op_type_mono)+

text \<open>
  What the types mean on the server: an operation that finds the handles it needs stops only where it
  looks for a file that is not there.
\<close>

definition searches :: "nfs_argop4 \<Rightarrow> bool" where
  "searches x \<longleftrightarrow> argop x \<in> {NFS4_OP_PUTFH, NFS4_OP_LOOKUP, NFS4_OP_LOOKUPP, NFS4_OP_OPEN, NFS4_OP_CREATE}"

definition has_handles :: "'n srv \<Rightarrow> bool \<times> bool \<Rightarrow> bool" where
  "has_handles s t \<longleftrightarrow> (fst t \<longrightarrow> s_cfh s \<noteq> None) \<and> (snd t \<longrightarrow> s_sfh s \<noteq> None)"

lemma op_progress: "op_type x t = Some t' \<Longrightarrow> has_handles s t \<Longrightarrow> \<not> searches x \<Longrightarrow> \<exists>s'. srv_step T x s = Some s'"
  by (cases t; cases x) (auto simp: has_handles_def searches_def srv_both_def split: if_splits)

lemma op_preservation: "op_type x t = Some t' \<Longrightarrow> has_handles s t \<Longrightarrow> srv_step T x s = Some s' \<Longrightarrow> has_handles s' t'"
  by (cases t; cases x) (auto simp: has_handles_def srv_both_def srv_enter_def split: if_splits bind_splits)

lemma ops_type_sound:
  "ops_type ops t = Some t' \<Longrightarrow> has_handles s t \<Longrightarrow> k < length ops \<Longrightarrow> srv_run T (take k ops) s = Some s' \<Longrightarrow>
    srv_step T (ops ! k) s' = None \<Longrightarrow> searches (ops ! k)"
proof (induction ops arbitrary: t s k)
  case (Cons x xs)
  obtain t1 where t1: "op_type x t = Some t1" "ops_type xs t1 = Some t'" using Cons.prems(1) by (auto split: bind_splits)
  show ?case
  proof (cases k)
    case 0
    then show ?thesis using Cons.prems op_progress [OF t1(1) Cons.prems(2), of T] by auto
  next
    case (Suc m)
    obtain s1 where s1: "srv_step T x s = Some s1" "srv_run T (take m xs) s1 = Some s'"
      using Cons.prems(4) Suc by (auto split: bind_splits)
    then show ?thesis
      using Cons.IH [OF t1(2) op_preservation [OF t1(1) Cons.prems(2) s1(1)], of m] Cons.prems Suc by simp
  qed
qed simp

text \<open>
  A step from a compound of type \<open>t\<close>: where it succeeds the result has the type \<open>t'\<close>, and in any case the
  operations of before are kept.
\<close>

definition types_step :: "compound \<Rightarrow> bool \<Rightarrow> compound \<Rightarrow> bool \<times> bool \<Rightarrow> bool" where
  "types_step c r c' t' \<longleftrightarrow> (\<exists>ops. argoparray c' = argoparray c @ ops) \<and> (r \<longrightarrow> has_type c' t')"

lemma has_type_add:
  "has_type c t \<Longrightarrow> tc_has_enough_ops 1 c \<Longrightarrow> op_type x t = Some t' \<Longrightarrow> has_type (add_op x c) t'"
  by (cases t; cases t') (auto simp: has_type_def sent_type_def add_op_def opcnt_def tc_has_enough_ops_def ops_type_append split: bind_splits dest: op_type_mono)

lemma prepare_step:
  "has_type c t \<Longrightarrow> op_type x t = Some t' \<Longrightarrow> prepare x c = (r, c') \<Longrightarrow> types_step c r c' t'"
  using has_type_add [of c t x t'] by (auto simp: types_step_def prepare_def add_op_def split: if_splits)

lemma types_step_refl: "has_type c t \<Longrightarrow> types_step c r c t"
  by (simp add: types_step_def)

lemma types_step_unsent: "types_step c False c t"
  by (simp add: types_step_def)

lemma types_step_failed: "types_step c r c' t \<Longrightarrow> \<not> r' \<Longrightarrow> types_step c r' c' t'"
  by (simp add: types_step_def)

lemma types_step_trans:
  "types_step c True c' t' \<Longrightarrow> (has_type c' t' \<Longrightarrow> types_step c' r c'' t'') \<Longrightarrow> types_step c r c'' t''"
  by (auto simp: types_step_def)

lemma types_step_reset:
  "types_step c r c' t' \<Longrightarrow> types_step c r (if r then c' else reset_opcnt (opcnt c) c') t'"
  by (auto simp: types_step_def reset_opcnt_def opcnt_def)

section \<open>Leading to a file\<close>

lemma lookups_loop_step:
  "has_type c (True, s) \<Longrightarrow> lookups_loop ws c = (r, c') \<Longrightarrow> types_step c r c' (True, s)"
proof (induction ws arbitrary: c)
  case (Cons w ws)
  have *: "types_step c r c' (True, s)"
    if "tc_has_enough_ops 1 c" "op_type x (True, s) = Some (True, s)" "lookups_loop ws (add_op x c) = (r, c')" for x
    by (rule types_step_trans [of c "add_op x c" "(True, s)"])
      (use has_type_add [OF Cons.prems(1) that(1,2)] Cons.IH [OF _ that(3)] in \<open>auto simp: types_step_def add_op_def\<close>)
  show ?case
    using Cons.prems Cons.IH [of c] * [of OpLookupp] * [of "OpLookup w"]
    by (auto simp: types_step_refl split: if_splits)
qed (auto simp: types_step_def)

lemma tc_prepare_lookups_step:
  "has_type c (True, s) \<Longrightarrow> tc_prepare_lookups ws c = (r, c') \<Longrightarrow> types_step c r c' (True, s)"
  by (auto simp: tc_prepare_lookups_def dest: lookups_loop_step [THEN types_step_reset] split: prod.splits)

lemma from_start_step:
  assumes "has_type c (f, s)" "op_type x (f, s) = Some (True, s)" "tc_has_enough_ops 1 c"
    and "tc_prepare_lookups ws (add_op x c) = (r, c')"
  shows "types_step c r (if r then c' else reset_opcnt (opcnt c) c') (True, s)"
  by (rule types_step_reset, rule types_step_trans [of c "add_op x c" "(True, s)"])
    (use has_type_add [OF assms(1,3,2)] tc_prepare_lookups_step [OF _ assms(4)] in \<open>auto simp: types_step_def add_op_def\<close>)

lemma from_root_step: "has_type c (f, s) \<Longrightarrow> tc_set_cfh_from_root ws c = (r, c') \<Longrightarrow> types_step c r c' (True, s)"
  using from_start_step [of c f s OpPutrootfh] types_step_unsent
  by (fastforce simp: tc_set_cfh_from_root_def split: if_splits prod.splits)

lemma from_cwd_step: "has_type c (f, s) \<Longrightarrow> tc_set_cfh_from_cwd cwd ws c = (r, c') \<Longrightarrow> types_step c r c' (True, s)"
  using from_start_step [of c f s "OpPutfh (cwd_fh cwd)"] types_step_unsent
  by (fastforce simp: tc_set_cfh_from_cwd_def tc_prepare_putfh_def prepare_def split: if_splits prod.splits)

text \<open>Where a handle was saved or restored, there are both.\<close>

lemma ops_type_saved:
  assumes "ops_type xs t0 = Some t" "x \<in> set xs" "argop x = NFS4_OP_SAVEFH \<or> argop x = NFS4_OP_RESTOREFH"
  shows "t = (True, True)"
proof -
  obtain ys zs where xs: "xs = ys @ x # zs" using assms(2) by (meson split_list)
  then obtain t1 t2 where t: "op_type x t1 = Some t2" "ops_type zs t2 = Some t"
    using assms(1) by (auto simp: ops_type_append split: bind_splits)
  then have "t2 = (True, True)" using assms(3) by (cases t1; cases x) (auto split: if_splits)
  then show ?thesis using ops_type_mono [of zs True True "fst t" "snd t"] t(2) by (cases t) auto
qed

lemma unchanged_has:
  "unchanged_since_savefh xs \<Longrightarrow> \<exists>x \<in> set xs. argop x = NFS4_OP_SAVEFH"
  "unchanged_since_restorefh xs \<Longrightarrow> \<exists>x \<in> set xs. argop x = NFS4_OP_RESTOREFH"
  by (induction xs) (auto split: if_splits)

lemma has_type_saved:
  assumes "has_type c t" "tc_cfh_not_changed_since_savefh c \<or> tc_cfh_not_changed_since_restorefh c"
  shows "t = (True, True)"
proof -
  obtain x where x: "x \<in> set (argoparray c)" "argop x = NFS4_OP_SAVEFH \<or> argop x = NFS4_OP_RESTOREFH"
    using assms(2) unchanged_has by (fastforce simp: tc_cfh_not_changed_since_savefh_def tc_cfh_not_changed_since_restorefh_def)
  moreover obtain slot seq hi ops where o: "argoparray c = OpSequence slot seq hi # ops" "ops_type ops (False, False) = Some t"
    using assms(1) by (auto simp: has_type_def sent_type_def)
  ultimately have "x \<in> set ops" by auto
  then show ?thesis using ops_type_saved [OF o(2)] x(2) by blast
qed

lemma tc_prepare_savefh_step:
  assumes "has_type c (True, s)" "tc_prepare_savefh p c = (r, c')"
  shows "types_step c r c' (True, True)"
proof (cases "tc_cfh_not_changed_since_savefh c \<or> tc_cfh_not_changed_since_restorefh c")
  case True
  then show ?thesis using assms has_type_saved [OF assms(1)] by (auto simp: tc_prepare_savefh_def types_step_def)
next
  case False
  have "has_type (c'\<lparr>tc_saved_path := q\<rparr>) (True, True)" if "tc_has_enough_ops 1 c" "argoparray c' = argoparray (add_op OpSavefh c)" for c' :: compound and q
    using has_type_add [OF assms(1) that(1), of OpSavefh] that(2) by (auto simp: has_type_def sent_type_def opcnt_def)
  from this [of "add_op OpSavefh c"] False show ?thesis
    using assms by (auto simp: tc_prepare_savefh_def types_step_def tc_save_path_def add_op_def split: if_splits option.splits)
qed

lemma tc_prepare_restorefh_step:
  assumes "has_type c (f, True)" "tc_prepare_restorefh c = (r, c')"
  shows "types_step c r c' (True, True)"
  using assms has_type_saved [OF assms(1)] has_type_add [OF assms(1), of OpRestorefh]
  by (auto simp: tc_prepare_restorefh_def types_step_def add_op_def split: if_splits)

lemma and_then_step:
  assumes "and_then f g c = (r, c')" "types_step c (fst (f c)) (snd (f c)) t1"
    and "\<And>c1 r c'. has_type c1 t1 \<Longrightarrow> g c1 = (r, c') \<Longrightarrow> types_step c1 r c' t2"
  shows "types_step c r c' t2"
  using assms by (cases "f c") (fastforce simp: and_then_def types_step_def split: if_splits)

lemma tc_set_cfh_to_path_step:
  assumes t: "has_type c (f, s)" and r: "tc_set_cfh_to_path cwd path leaf save c = (r, name, c')"
  shows "types_step c r c' (True, s \<or> save)"
proof -
  obtain p w where sp: "split_leaf path leaf = (p, w)" by (cases "split_leaf path leaf")
  obtain cmp comps ap where cp: "tc_compress_path cwd (tc_saved_path c) p = (cmp, comps, ap)"
    by (cases "tc_compress_path cwd (tc_saved_path c) p")
  define step where "step = (if cmp then and_then tc_prepare_restorefh (tc_prepare_lookups comps) c
       else if path \<noteq> [] \<and> hd path = SLASH then tc_set_cfh_from_root comps c else tc_set_cfh_from_cwd cwd comps c)"
  obtain r1 c1 where st: "step = (r1, c1)" by (cases step)
  have "s" if cmp using that cp t by (auto simp: tc_compress_path_def has_type_def Let_def split: if_splits)
  then have 1: "types_step c r1 c1 (True, s)"
    using st t and_then_step [of tc_prepare_restorefh "tc_prepare_lookups comps" c r1 c1 "(True, True)" "(True, True)"]
      tc_prepare_restorefh_step [of c f] tc_prepare_lookups_step from_root_step [OF t] from_cwd_step [OF t]
    by (auto simp: step_def split: if_splits)
  obtain r2 c2 where f: "(if r1 \<and> save then tc_prepare_savefh (Some ap) c1 else (r1, c1)) = (r2, c2)"
    by (cases "if r1 \<and> save then tc_prepare_savefh (Some ap) c1 else (r1, c1)")
  have "types_step c r2 c2 (True, s \<or> save)"
    using f 1 tc_prepare_savefh_step [of c1 s "Some ap" r2 c2] by (fastforce simp: types_step_def split: if_splits)
  then show ?thesis
    using types_step_reset [of c r2 c2] r sp cp st f by (auto simp: tc_set_cfh_to_path_def step_def [symmetric] split: if_splits)
qed

section \<open>Elements\<close>

lemma current_fh_step:
  assumes "has_type c (f, s)" "vf_type tcf \<noteq> VFILE_CURRENT" "tc_set_current_fh cwd fds tcf save c = Some (r, name, c')"
  shows "\<exists>s'. (s \<longrightarrow> s') \<and> types_step c r c' (True, s')"
proof -
  have put: "types_step c r1 (if r1 then c1 else reset_opcnt (opcnt c) c1) (True, s)" if "prepare (OpPutfh fh) c = (r1, c1)" for fh r1 c1
    by (rule types_step_reset, rule prepare_step [OF assms(1) _ that]) simp
  show ?thesis
  proof (cases "vf_type tcf")
    case VFILE_PATH
    then obtain path where "vf_ref tcf = PathRef path" using assms(3)
      by (auto simp: tc_set_current_fh_def split: path_or_handle.splits)
    moreover obtain r1 n1 c1 where x: "tc_set_cfh_to_path cwd path True save c = (r1, n1, c1)"
      by (cases "tc_set_cfh_to_path cwd path True save c")
    ultimately show ?thesis using VFILE_PATH assms(3) types_step_reset [OF tc_set_cfh_to_path_step [OF assms(1) x]]
      by (intro exI [of _ "s \<or> save"]) (auto simp: tc_set_current_fh_def)
  next
    case VFILE_HANDLE
    then obtain h where "vf_ref tcf = HandleRef h" using assms(3)
      by (auto simp: tc_set_current_fh_def split: path_or_handle.splits)
    then show ?thesis using VFILE_HANDLE assms(3)
      by (intro exI [of _ s]) (auto simp: tc_set_current_fh_def tc_set_cfh_to_handle_def dest: put split: prod.splits)
  next
    case VFILE_DESCRIPTOR
    then obtain d where "vf_ref tcf = FdData d" using assms(3)
      by (auto simp: tc_set_current_fh_def split: path_or_handle.splits)
    then show ?thesis using VFILE_DESCRIPTOR assms(3)
      by (intro exI [of _ s]) (auto simp: tc_set_current_fh_def tc_prepare_putfh_def dest: put split: prod.splits)
  qed (use assms in \<open>auto simp: tc_set_current_fh_def\<close>)
qed

text \<open>At least the handles of \<open>t\<close>, and the steps that end with them if they succeed.\<close>

definition typed_at :: "compound \<Rightarrow> bool \<times> bool \<Rightarrow> bool" where
  "typed_at c t \<longleftrightarrow> (\<exists>f s. has_type c (f, s) \<and> (fst t \<longrightarrow> f) \<and> (snd t \<longrightarrow> s))"

definition goes :: "compound \<Rightarrow> bool \<times> bool \<Rightarrow> (bool \<times> compound) option \<Rightarrow> bool" where
  "goes c t res \<longleftrightarrow> (\<forall>r c'. res = Some (r, c') \<longrightarrow> (\<exists>ops. argoparray c' = argoparray c @ ops) \<and> (r \<longrightarrow> typed_at c' t))"

definition goes_named :: "compound \<Rightarrow> bool \<times> bool \<Rightarrow> (bool \<times> string \<times> compound) option \<Rightarrow> bool" where
  "goes_named c t res \<longleftrightarrow> goes c t (map_option (\<lambda>(r, name, c'). (r, c')) res)"

lemma op_type_more:
  "op_type x (f, s) = Some (f0, s0) \<Longrightarrow> (f \<longrightarrow> f') \<Longrightarrow> (s \<longrightarrow> s') \<Longrightarrow>
    \<exists>f1 s1. op_type x (f', s') = Some (f1, s1) \<and> (f0 \<longrightarrow> f1) \<and> (s0 \<longrightarrow> s1)"
  by (cases f; cases s; cases f'; cases s'; cases x; simp add: ex_bool_eq split: if_splits)

lemma typed_atI: "has_type c t \<Longrightarrow> typed_at c t"
  by (cases t) (auto simp: typed_at_def)

lemma typed_at_step: "types_step c r c' (f', s') \<Longrightarrow> (fst t \<longrightarrow> f') \<Longrightarrow> (snd t \<longrightarrow> s') \<Longrightarrow> goes c t (Some (r, c'))"
  by (auto simp: goes_def typed_at_def types_step_def)

lemma goes_prepare: "typed_at c t \<Longrightarrow> op_type x t = Some t' \<Longrightarrow> goes c t' (Some (prepare x c))"
  unfolding typed_at_def
proof (elim exE conjE)
  fix f s assume a: "op_type x t = Some t'" "has_type c (f, s)" "fst t \<longrightarrow> f" "snd t \<longrightarrow> s"
  obtain r c' where p: "prepare x c = (r, c')" by (cases "prepare x c")
  obtain f1 s1 where t: "op_type x (f, s) = Some (f1, s1)" "fst t' \<longrightarrow> f1" "snd t' \<longrightarrow> s1"
    using op_type_more [of x "fst t" "snd t" "fst t'" "snd t'" f s] a by auto
  show "goes c t' (Some (prepare x c))" unfolding p by (rule typed_at_step [OF prepare_step [OF a(2) t(1) p] t(2,3)])
qed

lemma goes_append: "argoparray c1 = argoparray c @ ops \<Longrightarrow> goes c1 t x \<Longrightarrow> goes c t x"
  by (auto simp: goes_def)

lemma goes_failed: "goes c t (Some (r, c1)) \<Longrightarrow> goes c t' (Some (False, c1))"
  by (simp add: goes_def)

lemma goes_next:
  assumes "goes c t (Some (r, c1))" "typed_at c1 t \<Longrightarrow> goes c1 t' x"
  shows "goes c t' (if r then x else Some (False, c1))"
  using assms goes_failed [OF assms(1)] goes_append [of c1 c _ t' x] by (auto simp: goes_def [of c t "Some (r, c1)"])

lemma goes_trans:
  assumes "goes c t r" "\<And>c1. typed_at c1 t \<Longrightarrow> goes c1 t' (k c1)"
  shows "goes c t' (and_also r k)"
proof (cases r)
  case (Some rc)
  then show ?thesis using goes_next [of c t "fst rc" "snd rc" t' "k (snd rc)"] assms by (cases rc) (auto simp: and_also_def)
qed (simp add: and_also_def goes_def)

lemma goes_then:
  assumes "goes c t (Some (f c))" "\<And>c1. typed_at c1 t \<Longrightarrow> goes c1 t' (Some (g c1))"
  shows "goes c t' (Some (and_then f g c))"
  using goes_next [of c t "fst (f c)" "snd (f c)" t' "Some (g (snd (f c)))"] assms
  by (cases "f c") (auto simp: and_then_def split: if_splits)

lemma goes_name:
  assumes "goes_named c t r" "\<And>name c1. typed_at c1 t \<Longrightarrow> goes c1 t' (k name c1)"
  shows "goes c t' (with_name r k)"
proof (cases r)
  case (Some x)
  obtain ok name c1 where x: "x = (ok, name, c1)" by (cases x)
  then show ?thesis using Some goes_next [of c t ok c1 t' "k name c1"] assms by (auto simp: with_name_def goes_named_def)
qed (simp add: with_name_def goes_def)

lemma goes_bind: "(\<And>x. m = Some x \<Longrightarrow> goes c t (k x)) \<Longrightarrow> goes c t (Option.bind m k)"
  by (cases m) (simp_all add: goes_def [of _ _ None])

lemma goes_None: "goes c t None"
  by (simp add: goes_def)

lemma goes_stepI:
  assumes "typed_at c t0" "x = (r, c')"
    and "\<And>f s. has_type c (f, s) \<Longrightarrow> (fst t0 \<longrightarrow> f) \<Longrightarrow> (snd t0 \<longrightarrow> s) \<Longrightarrow>
      \<exists>f' s'. types_step c r c' (f', s') \<and> (fst t \<longrightarrow> f') \<and> (snd t \<longrightarrow> s')"
  shows "goes c t (Some x)"
proof -
  obtain f s where "has_type c (f, s)" "fst t0 \<longrightarrow> f" "snd t0 \<longrightarrow> s" using assms(1) by (auto simp: typed_at_def)
  then obtain f' s' where "types_step c r c' (f', s')" "fst t \<longrightarrow> f'" "snd t \<longrightarrow> s'" using assms(3) by blast
  then show ?thesis unfolding assms(2) by (rule typed_at_step)
qed

lemma goes_current_fh:
  assumes "typed_at c t" "vf_type tcf \<noteq> VFILE_CURRENT"
  shows "goes_named c (True, snd t) (current_fh E tcf save c)"
proof (cases "current_fh E tcf save c")
  case (Some x)
  obtain r name c' where x: "x = (r, name, c')" by (cases x)
  have "goes c (True, snd t) (Some (r, c'))"
    by (rule goes_stepI [OF assms(1) refl]) (use current_fh_step [OF _ assms(2)] Some x in \<open>fastforce simp: current_fh_def\<close>)
  then show ?thesis by (simp add: goes_named_def Some x)
qed (simp add: goes_named_def goes_None)

lemma goes_cfh_to_path:
  assumes "typed_at c t"
  shows "goes_named c (True, snd t \<or> save) (cfh_to_path E path leaf save c)"
proof -
  obtain r name c' where x: "tc_set_cfh_to_path (he_cwd E) path leaf save c = (r, name, c')"
    by (cases "tc_set_cfh_to_path (he_cwd E) path leaf save c")
  have "goes c (True, snd t \<or> save) (Some (r, c'))"
    by (rule goes_stepI [OF assms refl]) (use tc_set_cfh_to_path_step [OF _ x] in fastforce)
  then show ?thesis by (simp add: goes_named_def cfh_to_path_def x)
qed

lemma typed_at_curE:
  assumes "typed_at c (True, s)"
  obtains s' where "has_type c (True, s')" "s \<longrightarrow> s'"
  using assms by (auto simp: typed_at_def)

lemma goes_lookups: "typed_at c (True, s) \<Longrightarrow> goes c (True, s) (Some (tc_prepare_lookups ws c))"
  by (elim typed_at_curE, cases "tc_prepare_lookups ws c")
    (simp add: typed_at_step [OF tc_prepare_lookups_step])

lemma goes_savefh: "typed_at c (True, s) \<Longrightarrow> goes c (True, True) (Some (tc_prepare_savefh p c))"
  by (elim typed_at_curE, cases "tc_prepare_savefh p c")
    (simp add: typed_at_step [OF tc_prepare_savefh_step])

lemma goes_restorefh: "typed_at c (f, True) \<Longrightarrow> goes c (True, True) (Some (tc_prepare_restorefh c))"
  by (cases "tc_prepare_restorefh c") (auto simp: typed_at_def intro: typed_at_step [OF tc_prepare_restorefh_step])

lemma goes_add: "typed_at c t \<Longrightarrow> tc_has_enough_ops 1 c \<Longrightarrow> op_type x t = Some t' \<Longrightarrow> goes c t' (Some (True, add_op x c))"
  using goes_prepare [of c t x t'] by (simp add: prepare_def)

lemma goes_full: "goes c t (Some (False, c))"
  by (simp add: goes_def)

lemma goes_if: "(b \<Longrightarrow> goes c t x) \<Longrightarrow> (\<not> b \<Longrightarrow> goes c t y) \<Longrightarrow> goes c t (if b then x else y)"
  by simp

lemmas goes_single = goes_if goes_bind goes_full goes_None

lemma goes_open: "typed_at c (True, s) \<Longrightarrow> goes c (True, s) (tc_prepare_open E name flags attrs c)"
  unfolding tc_prepare_open_def by (intro goes_single goes_add [of c "(True, s)"]) simp_all

lemma goes_setattr: "typed_at c (True, s) \<Longrightarrow> goes c (True, s) (tc_prepare_setattr fattr c)"
  unfolding tc_prepare_setattr_def by (intro goes_single goes_add [of c "(True, s)"]) (simp_all add: tc_has_enough_ops_def)

lemma goes_rdwr: "typed_at c (True, s) \<Longrightarrow> goes c (True, s) (tc_prepare_rdwr E iov write need_close c)"
  unfolding tc_prepare_rdwr_def by (intro goes_single) (auto intro!: goes_add [of c "(True, s)"] split: prod.splits)

lemma goes_saved_fh:
  assumes "typed_at c t" "vf_type tcf \<noteq> VFILE_CURRENT"
  shows "goes_named c (True, True) (tc_set_saved_fh cwd fds tcf c)"
proof -
  obtain f s where t: "has_type c (f, s)" using assms(1) by (auto simp: typed_at_def)
  have path: ?thesis if "vf_type tcf = VFILE_PATH" "vf_ref tcf = PathRef path" for path
  proof -
    obtain r name c' where x: "tc_set_cfh_to_path cwd path True True c = (r, name, c')"
      by (cases "tc_set_cfh_to_path cwd path True True c")
    have "goes c (True, True) (Some (r, if r then c' else reset_opcnt (opcnt c) c'))"
      by (rule typed_at_step [OF types_step_reset [OF tc_set_cfh_to_path_step [OF t x]]]) simp_all
    then show ?thesis using that x by (simp add: goes_named_def tc_set_saved_fh_def)
  qed
  have other: "types_step c r2 (if r2 then c2 else reset_opcnt (opcnt c) c2) (True, True)"
    if cur: "tc_set_current_fh cwd fds tcf False c = Some (r, name, c1)"
      and sv: "(if r then tc_prepare_savefh None c1 else (False, c1)) = (r2, c2)" for r name c1 r2 c2
  proof (rule types_step_reset)
    obtain s' where "types_step c r c1 (True, s')" using current_fh_step [OF t assms(2) cur] by auto
    then show "types_step c r2 c2 (True, True)"
      using sv tc_prepare_savefh_step [of c1 s' None r2 c2] by (fastforce simp: types_step_def split: if_splits)
  qed
  show ?thesis
  proof (cases "vf_type tcf = VFILE_PATH \<and> (\<exists>path. vf_ref tcf = PathRef path)")
    case False
    then have "tc_set_saved_fh cwd fds tcf c = do {
          (r, name, c1) \<leftarrow> tc_set_current_fh cwd fds tcf False c;
          let (r2, c2) = (if r then tc_prepare_savefh None c1 else (False, c1));
          Some (r2, name, if r2 then c2 else reset_opcnt (opcnt c) c2)
        }" by (auto simp: tc_set_saved_fh_def split: VFILETYPE.splits path_or_handle.splits)
    then show ?thesis using typed_at_step [OF other]
      by (cases "tc_set_current_fh cwd fds tcf False c") (auto simp: goes_named_def goes_None split: prod.splits)
  qed (use path in auto)
qed

text \<open>The elements that name their file.\<close>

abbreviation (input) named :: "vfile \<Rightarrow> bool" where
  "named f \<equiv> vf_type f \<noteq> VFILE_CURRENT"

lemma goes_weaken: "goes c t x \<Longrightarrow> (fst t' \<longrightarrow> fst t) \<Longrightarrow> (snd t' \<longrightarrow> snd t) \<Longrightarrow> goes c t' x"
  unfolding goes_def typed_at_def by blast

lemma goes_done: "typed_at c t \<Longrightarrow> goes c t (Some (True, c))"
  by (simp add: goes_def)

lemmas single_defs = tc_prepare_getattr_def tc_prepare_mkdir_def tc_prepare_getfh_def tc_prepare_close_def
  tc_prepare_readdir_def tc_prepare_remove_def tc_prepare_copy_def tc_prepare_rename_def tc_prepare_hardlink_def
  tc_prepare_symlink_def tc_prepare_readlink_def tc_prepare_putfh_def

lemma rename_goes:
  assumes "typed_at c t" "named (src_file p)" "named (dst_file p)"
  shows "goes c (True, True) (rename_item E p c)"
  unfolding rename_item_def single_defs
  using goes_saved_fh [OF assms(1,2)] goes_current_fh [of _ "(True, True)", OF _ assms(3)]
  by (auto intro!: goes_name goes_prepare [of _ "(True, True)"])

lemma remove_goes:
  assumes "typed_at c t" "named f"
  shows "goes c (False, False) (remove_item E f c)"
proof (cases "vf_type f = VFILE_NULL")
  case False
  have "goes c (True, snd t) (with_name (current_fh E f True c) (\<lambda>name c1. Some (tc_prepare_remove (tc_new_auto_str name) c1)))"
    unfolding single_defs by (rule goes_name [OF goes_current_fh [OF assms]]) (auto intro: goes_prepare)
  then show ?thesis using False by (simp add: remove_item_def goes_weaken)
qed (use goes_weaken [OF goes_done [OF assms(1)]] in \<open>simp add: remove_item_def\<close>)

lemma hardlink_goes: "typed_at c t \<Longrightarrow> goes c (True, True) (hardlink_item E p c)"
  unfolding hardlink_item_def single_defs
  using goes_cfh_to_path [of c t True E "fst p" False] goes_cfh_to_path [of _ "(True, True)" False E "snd p" True]
  by (auto intro!: goes_name goes_prepare [of _ "(True, True)"] goes_single)

lemma symlink_goes: "typed_at c t \<Longrightarrow> goes c (True, True) (symlink_item E p c)"
  unfolding symlink_item_def single_defs Let_def
  using goes_cfh_to_path [of c t True E "snd p" True]
  by (auto intro!: goes_name goes_prepare [of _ "(True, True)"] goes_single)

lemma readlink_goes: "typed_at c t \<Longrightarrow> goes c (True, True) (readlink_item E p c)"
  unfolding readlink_item_def single_defs
  using goes_cfh_to_path [of c t True E "ln_path p" True]
  by (auto intro!: goes_name goes_then [OF goes_lookups] goes_prepare [of _ "(True, True)"])

lemma lgetattrs_goes:
  assumes "typed_at c t" "named (va_file a)"
  shows "goes c (True, snd t) (lgetattrs_item E a c)"
  unfolding lgetattrs_item_def single_defs
  using goes_current_fh [OF assms]
  by (auto intro!: goes_name goes_then [OF goes_lookups] goes_then [OF goes_prepare [of _ "(True, snd t)"]] goes_prepare [of _ "(True, snd t)"])

lemma lsetattrs_goes:
  assumes "typed_at c t" "named (va_file a)"
  shows "goes c (True, snd t) (lsetattrs_item E a c)"
  unfolding lsetattrs_item_def single_defs
  using goes_current_fh [OF assms]
  by (auto intro!: goes_bind goes_name goes_trans [OF goes_lookups] goes_trans [OF goes_setattr] goes_prepare [of _ "(True, snd t)"])

lemma mkdir_goes:
  assumes "typed_at c t" "named (va_file a)"
  shows "goes c (True, snd t) (mkdir_item E a c)"
  unfolding mkdir_item_def single_defs
  using goes_current_fh [OF assms]
  by (auto intro!: goes_bind goes_name goes_then [OF goes_prepare [of _ "(True, snd t)"]] goes_prepare [of _ "(True, snd t)"])

lemma open_goes:
  assumes "typed_at c t" "named (va_file (op_attrs a))"
  shows "goes c (True, snd t) (open_item E a c)"
  unfolding open_item_def single_defs
  using goes_current_fh [OF assms]
  by (auto intro!: goes_bind goes_name goes_trans [OF goes_open] goes_then [OF goes_prepare [of _ "(True, snd t)"]] goes_prepare [of _ "(True, snd t)"])

lemma goes_reset: "goes c t (Some (r, c')) \<Longrightarrow> goes c t (Some (r, if r then c' else reset_opcnt (opcnt c) c'))"
  by (auto simp: goes_def reset_opcnt_def opcnt_def)

text \<open>Elements with a state of their own.\<close>

abbreviation (input) no_state :: "(bool \<times> 's \<times> compound) option \<Rightarrow> (bool \<times> compound) option" where
  "no_state \<equiv> map_option (\<lambda>(r, s, c). (r, c))"

lemma no_state_None: "no_state None = None"
  by simp

lemma close_goes: "typed_at c t \<Longrightarrow> goes c (False, False) (no_state (close_item sids p seqs c))"
proof -
  assume t: "typed_at c t"
  obtain i fh where p: "p = (i, fh)" by (cases p)
  obtain r1 c1 where 1: "tc_prepare_putfh fh c = (r1, c1)" by (cases "tc_prepare_putfh fh c")
  obtain r2 c2 where 2: "tc_prepare_close (Some (seqs ! i, sids ! i)) c1 = (r2, c2)"
    by (cases "tc_prepare_close (Some (seqs ! i, sids ! i)) c1")
  have g1: "goes c (True, snd t) (Some (r1, c1))"
    using goes_prepare [OF t, of "OpPutfh fh"] 1 by (cases t) (simp add: single_defs)
  have "goes c1 (True, snd t) (Some (r2, c2))" if "typed_at c1 (True, snd t)"
    using goes_prepare [OF that, of "OpClose (seqs ! i) (sids ! i)"] 2 by (simp add: single_defs)
  note g2 = goes_next [OF g1 this]
  show ?thesis
    using goes_weaken [OF goes_done [OF t], of "(False, False)"] goes_weaken [OF g1, of "(False, False)"] goes_weaken [OF g2, of "(False, False)"]
    by (auto simp: close_item_def p 1 2 split: if_splits)
qed

lemma copy_open_goes:
  assumes "typed_at c t"
  shows "goes c (True, True) (no_state (copy_open E p d c))"
proof -
  obtain r1 n c1 where 1: "tc_set_cfh_to_path (he_cwd E) (src_path p) True False c = (r1, n, c1)"
    by (cases "tc_set_cfh_to_path (he_cwd E) (src_path p) True False c")
  have g1: "goes c (True, snd t) (Some (r1, c1))"
    using goes_cfh_to_path [OF assms, of False E "src_path p" True] 1 by (simp add: goes_named_def cfh_to_path_def)
  have next3: "goes c3 (True, True) (no_state (case tc_set_cfh_to_path (he_cwd E) (dst_path p) True False c3 of
      (r4, name, c4) \<Rightarrow> Some (r4, Some name, c4)))" if "typed_at c3 (True, True)" for c3
    using goes_cfh_to_path [OF that, of False E "dst_path p" True]
    by (simp add: goes_named_def cfh_to_path_def split: prod.splits)
  have next2: "goes c2 (True, True) (no_state (let (r3, c3) = tc_prepare_savefh None c2 in
      if \<not> r3 then Some (False, d, c3)
      else case tc_set_cfh_to_path (he_cwd E) (dst_path p) True False c3 of (r4, name, c4) \<Rightarrow> Some (r4, Some name, c4)))"
    if "typed_at c2 (True, snd t)" for c2
  proof -
    obtain r3 c3 where 3: "tc_prepare_savefh None c2 = (r3, c3)" by (cases "tc_prepare_savefh None c2")
    then show ?thesis using goes_next [of c2 "(True, True)" r3 c3, OF _ next3] goes_savefh [OF that, of None] by (auto split: if_splits)
  qed
  have next1: "goes c1 (True, True) (no_state (do {
        (r2, c2) \<leftarrow> tc_prepare_open E n 0 None c1;
        let (r3, c3) = (if r2 then tc_prepare_savefh None c2 else (False, c2));
        if \<not> r3 then Some (False, d, c3)
        else case tc_set_cfh_to_path (he_cwd E) (dst_path p) True False c3 of (r4, name, c4) \<Rightarrow> Some (r4, Some name, c4)
      }))" if "typed_at c1 (True, snd t)"
  proof (cases "tc_prepare_open E n 0 None c1")
    case (Some x)
    obtain r2 c2 where x: "x = (r2, c2)" by (cases x)
    show ?thesis using goes_next [of c1 "(True, snd t)" r2 c2, OF _ next2] goes_open [OF that, of E n 0 None]
      by (auto simp: Some x split: if_splits)
  qed (simp add: goes_None)
  show ?thesis using goes_next [OF g1 next1] by (auto simp: copy_open_def 1 split: if_splits)
qed

lemma lcopy_goes:
  assumes "typed_at c t"
  shows "goes c (True, True) (no_state (lcopy_item E p d c))"
proof (cases "copy_open E p d c")
  case (Some x)
  obtain r d' c1 where x: "x = (r, d', c1)" by (cases x)
  have g: "goes c (True, True) (Some (r, c1))" using copy_open_goes [OF assms, of E p d] by (simp add: Some x)
  have t: "goes c (True, True) (and_also (Some (r, c1)) (\<lambda>c1.
       and_also (tc_prepare_open E name (O_WRONLY OR O_CREAT) (Some a) c1) (\<lambda>c2.
       Some (and_then (tc_prepare_copy (src_offset p) (dst_offset p) (ext_length p))
              (and_then (tc_prepare_close None) (and_then tc_prepare_restorefh (tc_prepare_close None))) c2))))" for name a
    unfolding single_defs
    by (auto intro!: goes_trans [OF g] goes_trans [OF goes_open] goes_then [OF goes_prepare [of _ "(True, True)"]]
        goes_then [OF goes_restorefh] goes_prepare [of _ "(True, True)"])
  show ?thesis
    by (rule goes_weaken [of c "(True, True)"])
      (use t in \<open>auto simp: lcopy_item_def Some x goes_def split: bind_splits\<close>)
qed (simp add: lcopy_item_def goes_None)

lemma sca_open_goes:
  assumes "typed_at c (ofile \<noteq> None, False)" "named tcf"
  shows "goes c (True, False) (no_state (sca_open_file_if_necessary E tcf flags ofile c))"
proof (cases "vf_type tcf = VFILE_DESCRIPTOR")
  case True
  have "goes c (True, False) (Some (prepare (OpPutfh fh) c))" for fh
    by (rule goes_prepare [OF assms(1)]) simp
  then have "goes c (True, False) (no_state (case prepare (OpPutfh fh) c of (r, c') \<Rightarrow> Some (r, ofile, c')))" for fh
    by (simp add: case_prod_beta)
  then show ?thesis using True
    by (simp add: sca_open_file_if_necessary_def single_defs goes_None split: path_or_handle.splits)
next
  case False
  obtain r c1 where cl: "(case ofile of None \<Rightarrow> (True, c) | Some f \<Rightarrow> tc_prepare_close None c) = (r, c1)"
    by (cases "case ofile of None \<Rightarrow> (True, c) | Some f \<Rightarrow> tc_prepare_close None c")
  have "goes c (False, False) (Some (r, c1))"
    using cl goes_weaken [OF goes_done [OF assms(1)], of "(False, False)"]
      goes_weaken [OF goes_prepare [OF assms(1), of "OpClose 1 CURSID"], of "(ofile \<noteq> None, False)" "(False, False)"]
    by (auto simp: single_defs split: option.splits)
  then have g: "goes c (True, False) (and_also (Some (r, c1)) (\<lambda>c1.
      with_name (current_fh E tcf True c1) (\<lambda>name. tc_prepare_open E name flags a)))" for a
    using goes_current_fh [of _ "(False, False)", OF _ assms(2)]
    by (auto intro!: goes_trans [of c "(False, False)"] goes_name goes_open)
  have "goes c (True, False) (Some (r', if r' then c' else reset_opcnt (opcnt c) c'))"
    if "and_also (Some (r, c1)) (\<lambda>c1. with_name (current_fh E tcf True c1) (\<lambda>name. tc_prepare_open E name flags a)) = Some (r', c')" for a r' c'
    using g [of a] that goes_reset by metis
  moreover have "goes c (True, False) (Some (True, c))" if "ofile \<noteq> None" using goes_done [OF assms(1)] that by simp
  ultimately show ?thesis using False assms(2)
    by (auto simp: sca_open_file_if_necessary_def cl goes_None split: bind_splits option.splits)
qed

text \<open>A file the compound has open is the current one, and there is room to close it.\<close>

definition rw_inv :: "vfile option \<Rightarrow> compound \<Rightarrow> bool" where
  "rw_inv ofile c \<longleftrightarrow> typed_at c (ofile \<noteq> None, False) \<and> (ofile \<noteq> None \<longrightarrow> opcnt c < MAX_NUM_OPS_PER_COMPOUND)"

definition rw_sent :: "vfile option \<Rightarrow> nfs_argop4 list \<Rightarrow> bool" where
  "rw_sent ofile ops \<longleftrightarrow>
     (\<exists>t. sent_type ops t \<and> (ofile \<noteq> None \<longrightarrow> fst t \<and> length ops < MAX_NUM_OPS_PER_COMPOUND))"

lemma rw_inv_sent: "rw_inv ofile c \<Longrightarrow> rw_sent ofile (argoparray c)"
  by (fastforce simp: rw_inv_def rw_sent_def typed_at_def has_type_def opcnt_def)

lemma rw_item_keeps:
  assumes inv: "rw_inv ofile c" and n: "named tcf"
    and ops: "\<And>f c1. typed_at c1 (True, False) \<Longrightarrow> goes c1 (True, False) (ops f c1)"
    and i: "rw_item (sca_open_file_if_necessary E tcf flags) ops ofile c = Some (r, ofile', c')"
  shows "(\<exists>ops. argoparray c' = argoparray c @ ops) \<and> (if r then rw_inv ofile' c' else ofile' = ofile)"
proof -
  obtain r1 f1 c1 r2 where o: "sca_open_file_if_necessary E tcf flags ofile c = Some (r1, f1, c1)"
    and a: "and_also (Some (r1, c1)) (ops f1) = Some (r2, c')"
    and e: "(r, ofile', c') = (if \<not> r2 \<or> \<not> tc_has_enough_ops 1 c' then (False, ofile, c') else (True, f1, c'))"
    using i by (auto simp: rw_item_def split: bind_splits if_splits)
  have "goes c (True, False) (Some (r1, c1))" using sca_open_goes [of c ofile tcf E flags] inv n o by (simp add: rw_inv_def)
  then have "goes c (True, False) (Some (r2, c'))" using goes_trans [of c "(True, False)" "Some (r1, c1)" "(True, False)" "ops f1", OF _ ops] a by simp
  then show ?thesis using e
    by (auto simp: goes_def rw_inv_def tc_has_enough_ops_def typed_at_def split: if_splits)
qed

lemma read_keeps:
  assumes "rw_inv ofile c" "named (vi_file iov)" "read_item E iov ofile c = Some (r, ofile', c')"
  shows "(\<exists>ops. argoparray c' = argoparray c @ ops) \<and> (if r then rw_inv ofile' c' else ofile' = ofile)"
  by (rule rw_item_keeps [OF assms(1,2) _ assms(3) [unfolded read_item_def single_defs]])
    (auto intro!: goes_trans [OF goes_rdwr] goes_prepare [of _ "(True, False)"])

lemma write_keeps:
  assumes "rw_inv ofile c" "named (vi_file iov)" "write_item E iov ofile c = Some (r, ofile', c')"
  shows "(\<exists>ops. argoparray c' = argoparray c @ ops) \<and> (if r then rw_inv ofile' c' else ofile' = ofile)"
  by (rule rw_item_keeps [OF assms(1,2) _ assms(3) [unfolded write_item_def single_defs]])
    (auto intro!: goes_trans [OF goes_rdwr] goes_trans [OF goes_prepare [of _ "(True, False)"]] goes_prepare [of _ "(True, False)"])

section \<open>The loop over the elements\<close>

lemma build_loop_keeps:
  assumes "\<And>x s c r s' c'. x \<in> set xs \<Longrightarrow> P s c \<Longrightarrow> item x s c = Some (r, s', c') \<Longrightarrow>
      (\<exists>ops. argoparray c' = argoparray c @ ops) \<and> (if r then P s' c' else Q s' (argoparray c))"
    and "\<And>s c. P s c \<Longrightarrow> Q s (argoparray c)" and "P s c" "build_loop item i xs s c = Some (n, s', c')"
  shows "Q s' (argoparray c') \<and> n \<le> i + length xs \<and> (\<exists>ops. argoparray c' = argoparray c @ ops)"
  using assms(1,3,4)
proof (induction xs arbitrary: i s c)
  case (Cons x xs)
  obtain r s1 c1 where x: "item x s c = Some (r, s1, c1)"
    and rest: "(if r then build_loop item (Suc i) xs s1 c1 else Some (i, s1, reset_opcnt (opcnt c) c1)) = Some (n, s', c')"
    using Cons.prems(3) by (cases "item x s c") auto
  have s: "(\<exists>ops. argoparray c1 = argoparray c @ ops) \<and> (if r then P s1 c1 else Q s1 (argoparray c))"
    using Cons.prems(1) [OF _ Cons.prems(2) x] by simp
  show ?case
  proof (cases r)
    case True
    have "Q s' (argoparray c') \<and> n \<le> Suc i + length xs \<and> (\<exists>ops. argoparray c' = argoparray c1 @ ops)"
      by (rule Cons.IH [of s1 c1 "Suc i"], rule Cons.prems(1)) (use rest s True in auto)
    then show ?thesis using s by auto
  next
    case False
    then show ?thesis using rest s by (auto simp: reset_opcnt_def opcnt_def)
  qed
qed (use assms(2) in auto)

definition well_typed :: "nfs_argop4 list \<Rightarrow> bool" where
  "well_typed ops \<longleftrightarrow> (\<exists>t. sent_type ops t)"

lemma well_typed_sound:
  assumes "well_typed ops" "k < length ops" "srv_run T (take k ops) srv_init = Some s" "srv_step T (ops ! k) s = None"
  shows "searches (ops ! k)"
proof -
  obtain slot seq hi xs t where o: "ops = OpSequence slot seq hi # xs" "ops_type xs (False, False) = Some t"
    using assms(1) by (auto simp: well_typed_def sent_type_def)
  then show ?thesis
    using assms(2-4) ops_type_sound [OF o(2), of srv_init "k - 1" T s] by (cases k) (auto simp: has_handles_def)
qed

lemma typed_at_sent: "typed_at c t \<Longrightarrow> well_typed (argoparray c)"
  by (auto simp: typed_at_def has_type_def well_typed_def)

lemma build_loop_goes:
  assumes "\<And>x s c. x \<in> set xs \<Longrightarrow> typed_at c (False, False) \<Longrightarrow> goes c (False, False) (no_state (item x s c))"
    and "typed_at c (False, False)" "build_loop item i xs s c = Some (n, s', c')"
  shows "well_typed (argoparray c') \<and> n \<le> i + length xs \<and> (\<exists>ops. argoparray c' = argoparray c @ ops)"
proof -
  have step: "(\<exists>ops. argoparray c' = argoparray c @ ops) \<and>
      (if r then typed_at c' (False, False) else well_typed (argoparray c))"
    if "x \<in> set xs" "typed_at c (False, False)" "item x s c = Some (r, s', c')" for x s c r s' c'
    using assms(1) [OF that(1,2), of s] that typed_at_sent by (auto simp: goes_def)
  show ?thesis
    by (rule build_loop_keeps [where P = "\<lambda>s c. typed_at c (False, False)" and Q = "\<lambda>s ops. well_typed ops", OF step typed_at_sent assms(2,3)])
qed

lemma build_plain_goes:
  assumes "\<And>x c. x \<in> set xs \<Longrightarrow> typed_at c (False, False) \<Longrightarrow> goes c t (item x c)"
    and "typed_at c (False, False)" "build_plain item xs a c = Some (n, a', c')"
  shows "well_typed (argoparray c') \<and> n \<le> length xs \<and> (\<exists>ops. argoparray c' = argoparray c @ ops)"
proof -
  have "goes c (False, False) (no_state (plain item x s c))" if "x \<in> set xs" "typed_at c (False, False)" for x s c
    using goes_weaken [OF assms(1) [OF that], of "(False, False)"]
    by (cases "item x c") (auto simp: plain_def goes_None)
  from build_loop_goes [of xs "plain item" c 0 "()" n _ c', OF this assms(2)] show ?thesis
    using assms(3) by (auto simp: build_plain_def)
qed

text \<open>Reading and writing: the last file is closed, and there is room for that.\<close>

definition rw_keeps :: "('s \<Rightarrow> vfile option) \<Rightarrow> ('i \<Rightarrow> 's \<Rightarrow> compound \<Rightarrow> (bool \<times> 's \<times> compound) option) \<Rightarrow> 'i \<Rightarrow> bool" where
  "rw_keeps file item x \<longleftrightarrow> (\<forall>s c r s' c'. rw_inv (file s) c \<longrightarrow> item x s c = Some (r, s', c') \<longrightarrow>
     (\<exists>ops. argoparray c' = argoparray c @ ops) \<and> (if r then rw_inv (file s') c' else file s' = file s))"

lemma read_write_keeps: "named (vi_file iov) \<Longrightarrow> rw_keeps snd (read_write_item E) iov"
  unfolding rw_keeps_def
proof (intro allI impI)
  fix s c r s' c'
  assume n: "named (vi_file iov)" and inv: "rw_inv (snd s) c" and i: "read_write_item E iov s c = Some (r, s', c')"
  note keeps = write_keeps [OF inv n] read_keeps [OF inv n]
  show "(\<exists>ops. argoparray c' = argoparray c @ ops) \<and> (if r then rw_inv (snd s') c' else snd s' = snd s)"
  proof (cases "vi_type iov = VECTOR_WRITE_OP \<or> vi_type iov = VECTOR_READ_OP")
    case True
    then obtain f where "(vi_type iov = VECTOR_WRITE_OP \<and> write_item E iov (snd s) c = Some (r, f, c') \<or>
        read_item E iov (snd s) c = Some (r, f, c')) \<and> snd s' = f"
      using i by (auto simp: read_write_item_def split: if_splits)
    then show ?thesis using keeps by metis
  next
    case False
    then show ?thesis using i inv by (auto simp: read_write_item_def split: if_splits)
  qed
qed

lemma rw_loop:
  assumes "\<And>x. x \<in> set xs \<Longrightarrow> rw_keeps file item x" "rw_inv (file s) c" "build_loop item 0 xs s c = Some (n, s', c')"
  shows "rw_sent (file s') (argoparray c') \<and> n \<le> length xs \<and> (\<exists>ops. argoparray c' = argoparray c @ ops)"
proof -
  have step: "(\<exists>ops. argoparray c' = argoparray c @ ops) \<and> (if r then rw_inv (file s') c' else rw_sent (file s') (argoparray c))"
    if "x \<in> set xs" "rw_inv (file s) c" "item x s c = Some (r, s', c')" for x s c r s' c'
    using assms(1) [OF that(1), unfolded rw_keeps_def, rule_format, OF that(2,3)] rw_inv_sent [OF that(2)]
    by (simp split: if_splits)
  show ?thesis
    using build_loop_keeps [where P = "\<lambda>s. rw_inv (file s)" and Q = "\<lambda>s. rw_sent (file s)" and xs = xs and item = item, OF step rw_inv_sent assms(2,3)]
    by simp
qed

lemma close_fits: "rw_sent f (argoparray c) \<Longrightarrow> \<exists>c'. close_last f c = Some c' \<and> well_typed (argoparray c') \<and> (\<exists>ops. argoparray c' = argoparray c @ ops)"
  by (fastforce simp: rw_sent_def close_last_def opcnt_def add_op_def well_typed_def sent_type_def ops_type_append split: option.splits)

lemma rw_build_typed:
  assumes "\<And>x. x \<in> set xs \<Longrightarrow> rw_keeps file item x" "rw_inv (file s) c" "rw_build item file s xs a c = Some (n, a', c')"
  shows "well_typed (argoparray c') \<and> n \<le> length xs \<and> (\<exists>ops. argoparray c' = argoparray c @ ops)"
proof -
  obtain s' c1 where b: "build_loop item 0 xs s c = Some (n, s', c1)" "close_last (file s') c1 = Some c'"
    using assms(3) by (auto simp: rw_build_def split: bind_splits)
  then show ?thesis using rw_loop [OF assms(1,2) b(1)] close_fits by fastforce
qed

section \<open>Every compound has a type\<close>

text \<open>
  What the vectorised operations build from the compound \<open>c\<close>: the number of their elements, how many of
  them the compound is for, and its operations.
\<close>

inductive prepared :: "handle_env \<Rightarrow> compound \<Rightarrow> nat \<Rightarrow> nat \<Rightarrow> nfs_argop4 list \<Rightarrow> bool" for E c where
  readv: "\<forall>v \<in> set iovs. named (vi_file v) \<Longrightarrow> rw_build (read_item E) (\<lambda>f. f) None iovs () c = Some (n, u, c')
    \<Longrightarrow> prepared E c (length iovs) n (argoparray c')"
| writev: "\<forall>v \<in> set iovs. named (vi_file v) \<Longrightarrow> rw_build (write_item E) (\<lambda>f. f) None iovs () c = Some (n, u, c')
    \<Longrightarrow> prepared E c (length iovs) n (argoparray c')"
| read_writev: "\<forall>v \<in> set iovs. named (vi_file v) \<Longrightarrow> rw_build (read_write_item E) snd (False, None) iovs () c = Some (n, u, c')
    \<Longrightarrow> prepared E c (length iovs) n (argoparray c')"
| openv: "\<forall>a \<in> set files. named (va_file (op_attrs a)) \<Longrightarrow> build_plain (open_item E) files () c = Some (n, u, c')
    \<Longrightarrow> prepared E c (length files) n (argoparray c')"
| closev: "close_build fh4s sids seqs c = Some (n, arrays, c') \<Longrightarrow> prepared E c (length fh4s) n (argoparray c')"
| lgetattrsv: "\<forall>a \<in> set attrs. named (va_file a) \<Longrightarrow> build_plain (lgetattrs_item E) attrs () c = Some (n, u, c')
    \<Longrightarrow> prepared E c (length attrs) n (argoparray c')"
| lsetattrsv: "\<forall>a \<in> set attrs. named (va_file a) \<Longrightarrow> build_plain (lsetattrs_item E) attrs () c = Some (n, u, c')
    \<Longrightarrow> prepared E c (length attrs) n (argoparray c')"
| mkdirv: "\<forall>a \<in> set dirs. named (va_file a) \<Longrightarrow> build_plain (mkdir_item E) dirs () c = Some (n, u, c')
    \<Longrightarrow> prepared E c (length dirs) n (argoparray c')"
| renamev: "\<forall>p \<in> set pairs. named (src_file p) \<and> named (dst_file p) \<Longrightarrow> build_plain (rename_item E) pairs () c = Some (n, u, c')
    \<Longrightarrow> prepared E c (length pairs) n (argoparray c')"
| removev: "\<forall>f \<in> set files. named f \<Longrightarrow> build_plain (remove_item E) files () c = Some (n, u, c')
    \<Longrightarrow> prepared E c (length files) n (argoparray c')"
| lcopyv: "lcopy_build E extents c = Some (n, extents', c') \<Longrightarrow> prepared E c (length extents) n (argoparray c')"
| hardlinkv: "build_plain (hardlink_item E) paths () c = Some (n, u, c') \<Longrightarrow> prepared E c (length paths) n (argoparray c')"
| symlinkv: "build_plain (symlink_item E) paths () c = Some (n, u, c') \<Longrightarrow> prepared E c (length paths) n (argoparray c')"
| readlinkv: "build_plain (readlink_item E) links () c = Some (n, u, c') \<Longrightarrow> prepared E c (length links) n (argoparray c')"

lemma fresh_typed: "argoparray c = [OpSequence slot seq hi] \<Longrightarrow> tc_saved_path c = [] \<Longrightarrow> typed_at c (False, False)"
  by (auto simp: typed_at_def has_type_def sent_type_def MAX_NUM_OPS_PER_COMPOUND_def)

lemma prepared_typed:
  assumes "prepared E c len n ops" "typed_at c (False, False)"
  shows "well_typed ops \<and> n \<le> len \<and> (\<exists>ops'. ops = argoparray c @ ops')"
proof -
  have rw: "rw_inv None c" using assms(2) by (simp add: rw_inv_def)
  from assms(1) show ?thesis
  proof cases
    case (readv iovs u c')
    have "rw_keeps (\<lambda>f. f) (read_item E) v" if "v \<in> set iovs" for v
      using readv(3) that read_keeps by (fastforce simp: rw_keeps_def)
    from rw_build_typed [OF this rw readv(4)] show ?thesis using readv by simp
  next
    case (writev iovs u c')
    have "rw_keeps (\<lambda>f. f) (write_item E) v" if "v \<in> set iovs" for v
      using writev(3) that write_keeps by (fastforce simp: rw_keeps_def)
    from rw_build_typed [OF this rw writev(4)] show ?thesis using writev by simp
  next
    case (read_writev iovs u c')
    have "rw_keeps snd (read_write_item E) v" if "v \<in> set iovs" for v
      using read_writev(3) that read_write_keeps by blast
    from rw_build_typed [OF this _ read_writev(4)] show ?thesis using read_writev rw by simp
  next
    case (closev fh4s sids seqs arrays c')
    then show ?thesis
      using build_loop_goes [of "enumerate 0 fh4s" "close_item sids" c 0 seqs, OF close_goes assms(2)]
      by (auto simp: close_build_def)
  next
    case (lcopyv extents extents' c')
    then show ?thesis
      using build_loop_goes [of extents "lcopy_item E" c 0 None, OF goes_weaken [OF lcopy_goes] assms(2)]
      by (auto simp: lcopy_build_def)
  next
    case (openv files u c')
    then show ?thesis using build_plain_goes [OF open_goes assms(2) openv(4)] by simp
  next
    case (lgetattrsv attrs u c')
    then show ?thesis using build_plain_goes [OF lgetattrs_goes assms(2) lgetattrsv(4)] by simp
  next
    case (lsetattrsv attrs u c')
    then show ?thesis using build_plain_goes [OF lsetattrs_goes assms(2) lsetattrsv(4)] by simp
  next
    case (mkdirv dirs u c')
    then show ?thesis using build_plain_goes [OF mkdir_goes assms(2) mkdirv(4)] by simp
  next
    case (renamev pairs u c')
    then show ?thesis using build_plain_goes [OF rename_goes assms(2) renamev(4)] by simp
  next
    case (removev files u c')
    then show ?thesis using build_plain_goes [OF remove_goes assms(2) removev(4)] by simp
  next
    case (hardlinkv paths u c')
    then show ?thesis using build_plain_goes [OF hardlink_goes assms(2) hardlinkv(3)] by simp
  next
    case (symlinkv paths u c')
    then show ?thesis using build_plain_goes [OF symlink_goes assms(2) symlinkv(3)] by simp
  next
    case (readlinkv links u c')
    then show ?thesis using build_plain_goes [OF readlink_goes assms(2) readlinkv(3)] by simp
  qed
qed

lemma vreset_fresh:
  assumes "vreset_compound True h = Some h1"
  obtains slot seq hi where "argoparray (h_cpd h1) = [OpSequence slot seq hi]" "tc_saved_path (h_cpd h1) = []"
  using assms by (auto simp: vreset_compound_def tc_cleanup_compound_def add_op_def Let_def split: bind_splits)


text \<open>A state after the start and an environment, for examples.\<close>

definition first_state :: "'w \<Rightarrow> 'w hstate" where
  "first_state w =
     \<lparr>h_cpd = \<lparr>argoparray = [], tc_saved_path = []\<rparr>, h_slots = the (new_session_slot_table True),
      slot_allocated = False, h_world = w\<rparr>"

definition some_env :: handle_env where
  "some_env =
     \<lparr>he_cwd = example_cwd,
      he_fds = (\<lambda>d. \<lparr>fr_fh4 = \<lparr>nfs_fh4_len = 1, nfs_fh4_val = Some ''d''\<rparr>, fr_stateid = zero_stateid, fr_cursor = 0\<rparr>),
      he_fattr = network_env, he_clientid = 7, he_pid = 42, he_fcnt = (\<lambda>n. of_nat n), he_uid = 0, he_gid = 0, he_euid = 0,
      he_egid = 0, he_tca = blank_attrs\<rparr>"

definition some_handle :: "char \<Rightarrow> vfile" where
  "some_handle x =
     \<lparr>vf_type = VFILE_HANDLE, vf_fd = 0,
      vf_ref = HandleRef \<lparr>handle_bytes = 1, handle_type = FILEID_NFS_FH_TYPE, f_handle = [x]\<rparr>\<rparr>"

lemma first_alloc: "\<exists>sst. alloc_session_slot (the (new_session_slot_table True)) = Some (0, 1, 0, sst)"
proof -
  have "alloc_session_slot (the (new_session_slot_table True)) =
      Some (0, 1, 0, snd (snd (snd (the (alloc_session_slot (the (new_session_slot_table True)))))))" by code_simp
  then show ?thesis by blast
qed

lemma vreset_first:
  "\<exists>h1. vreset_compound True (first_state w) = Some h1 \<and> h_cpd h1 = \<lparr>argoparray = [OpSequence 0 1 0], tc_saved_path = []\<rparr> \<and>
     h_world h1 = w"
proof -
  obtain sst where "alloc_session_slot (the (new_session_slot_table True)) = Some (0, 1, 0, sst)" using first_alloc by blast
  then have "vreset_compound True (first_state w) =
      Some \<lparr>h_cpd = \<lparr>argoparray = [OpSequence 0 1 0], tc_saved_path = []\<rparr>, h_slots = sst, slot_allocated = True, h_world = w\<rparr>"
    by (simp add: vreset_compound_def first_state_def tc_cleanup_compound_def add_op_def)
  then show ?thesis by (simp only: option.inject) simp
qed

definition handle_pair :: vfile_pair where
  "handle_pair = \<lparr>src_file = some_handle CHR ''a'', dst_file = some_handle CHR ''b''\<rparr>"

definition handle_pair_ops :: "nfs_argop4 list" where
  "handle_pair_ops =
     [OpSequence 0 1 0, OpPutfh \<lparr>nfs_fh4_len = 1, nfs_fh4_val = Some ''a''\<rparr>, OpSavefh,
      OpPutfh \<lparr>nfs_fh4_len = 1, nfs_fh4_val = Some ''b''\<rparr>, OpRename [] []]"

lemma handle_pair_built:
  "build_plain (rename_item E) [handle_pair] () \<lparr>argoparray = [OpSequence 0 1 0], tc_saved_path = []\<rparr> =
     Some (1, (), \<lparr>argoparray = handle_pair_ops, tc_saved_path = []\<rparr>)"
  by (simp add: build_plain_def plain_def rename_item_def with_name_def tc_set_saved_fh_def current_fh_def some_handle_def
      tc_set_current_fh_def tc_set_cfh_to_handle_def single_defs prepare_def tc_has_enough_ops_def MAX_NUM_OPS_PER_COMPOUND_def opcnt_def
      add_op_def tc_prepare_savefh_def tc_cfh_not_changed_since_savefh_def tc_cfh_not_changed_since_restorefh_def NFS4_CHANGE_CFH_def
      handle_pair_def handle_pair_ops_def)


end
