(* ===== verification/Compound_Results.thy ===== *)
theory Compound_Results
  imports Compound_Types
begin

text \<open>
  What the vectorised operations do and report.  A server goes through a compound operation by operation
  up to the first one that fails and answers each of them; given such answers, the index in
  the result tells how far the operation got, and the server has done exactly the work of the elements
  before it.  The slot of the session is given back whatever happens.
\<close>

section \<open>Answers\<close>

text \<open>
  The protocol: one result for each operation up to the first that failed, whose status is that of the
  compound; the result of SEQUENCE names the slot of the request and accepts as many slots as the request says
  are in use; every status has an error number.
\<close>

definition answered :: "nfs_argop4 list \<Rightarrow> clnt_reply \<Rightarrow> bool" where
  "answered ops rep \<longleftrightarrow> cr_rc rep = RPC_SUCCESS \<and> cr_res rep \<noteq> [] \<and> length (cr_res rep) \<le> length ops \<and>
     map resop (cr_res rep) = map argop (take (length (cr_res rep)) ops) \<and>
     (\<forall>r \<in> set (butlast (cr_res rep)). res_status r = NFS4_OK) \<and> res_status (last (cr_res rep)) = cr_status rep \<and>
     (cr_status rep = NFS4_OK \<longrightarrow> length (cr_res rep) = length ops) \<and> nfsstat4_to_errno (cr_status rep) \<noteq> None \<and>
     (\<forall>slot seq hi ops'. ops = OpSequence slot seq hi # ops' \<longrightarrow> res_status (hd (cr_res rep)) = NFS4_OK \<longrightarrow>
        (\<exists>h t. res_ok (hd (cr_res rep)) = ResSequence slot h t \<and> hi + 1 \<le> h + 1))"

text \<open>How many operations the server has done.\<close>

definition done_ops :: "clnt_reply \<Rightarrow> nat" where
  "done_ops rep = (if cr_status rep = NFS4_OK then length (cr_res rep) else length (cr_res rep) - 1)"

lemma op_status: "resop r = argop x \<Longrightarrow> get_nfs4_op_status r = res_status r"
  by (cases x) (simp_all add: get_nfs4_op_status_def)

lemma length_filter_map: "length (filter (\<lambda>x. f x = v) xs) = length (filter (\<lambda>y. y = v) (map f xs))"
  by (simp add: filter_map o_def)

text \<open>Counting the operations of one kind over the results that are good, and stopping at the one that is not.\<close>

lemma fill_results_good:
  assumes "\<forall>r \<in> set res. get_nfs4_op_status r = NFS4_OK"
  shows "fill_results (count_op opn k) fail (length res + n) (res @ rest) i a =
    fill_results (count_op opn k) fail n rest (i + length (filter (\<lambda>r. resop r = opn) res)) a"
  using assms by (induction res arbitrary: i) (auto simp: count_op_def)

lemma fill_results_count:
  assumes "answered ops rep"
  shows "fill_results (count_op opn k) no_mark (length ops) (cr_res rep) 0 a =
    Some (if cr_status rep = NFS4_OK then None
          else Some (length (filter (\<lambda>x. argop x = opn) (take (done_ops rep) ops)), cr_status rep), a)"
proof -
  let ?res = "cr_res rep"
  have st: "get_nfs4_op_status r = res_status r" if "r \<in> set ?res" for r
  proof -
    have "resop r \<in> set (map argop (take (length ?res) ops))"
      using assms that unfolding answered_def by (metis image_eqI list.set_map)
    then show ?thesis using op_status by auto
  qed
  have cnt: "length (filter (\<lambda>r. resop r = opn) (take m ?res)) = length (filter (\<lambda>x. argop x = opn) (take m ops))"
    if "m \<le> length ?res" for m
  proof -
    have "take m (map resop ?res) = take m (map argop (take (length ?res) ops))" using assms by (simp add: answered_def)
    then have "map resop (take m ?res) = map argop (take m ops)" using that by (simp add: take_map min_absorb1)
    then show ?thesis by (simp only: length_filter_map [of resop] length_filter_map [of argop])
  qed
  show ?thesis
  proof (cases "cr_status rep = NFS4_OK")
    case True
    then have "\<forall>r \<in> set ?res. res_status r = NFS4_OK" "length ?res = length ops"
      using assms by (auto simp: answered_def) (metis append_butlast_last_id insertE last_snoc list.set(2) set_append Un_iff empty_iff list.set(1))
    then show ?thesis using fill_results_good [of ?res opn k no_mark 0 "[]" 0 a] st True by simp
  next
    case False
    define pre where "pre = butlast ?res"
    have res: "?res = pre @ [last ?res]" "length ?res \<le> length ops" using assms by (auto simp: answered_def pre_def)
    then obtain m where m: "length ops = length pre + Suc m" by (metis add_Suc_right length_append_singleton le_Suc_ex add_Suc_shift)
    have good: "\<forall>r \<in> set pre. get_nfs4_op_status r = NFS4_OK"
      using assms st in_set_butlastD [of _ ?res] by (simp add: answered_def pre_def)
    have lst: "get_nfs4_op_status (last ?res) = cr_status rep" using assms st by (auto simp: answered_def)
    have "fill_results (count_op opn k) no_mark (length ops) ?res 0 a =
        fill_results (count_op opn k) no_mark (Suc m) [last ?res] (length (filter (\<lambda>r. resop r = opn) pre)) a"
      using fill_results_good [OF good, of opn k no_mark "Suc m" "[last ?res]" 0 a] res m by simp
    also have "\<dots> = Some (Some (length (filter (\<lambda>r. resop r = opn) pre), cr_status rep), a)"
      using lst False by (simp add: no_mark_def)
    finally show ?thesis using False cnt [of "length pre"] res by (simp add: done_ops_def pre_def butlast_conv_take)
  qed
qed

section \<open>The slot of a call\<close>

definition idle :: "'w hstate \<Rightarrow> bool" where
  "idle h \<longleftrightarrow> slots_inv (h_slots h) \<and> \<not> slot_allocated h"

text \<open>Resetting takes a slot that was free; its number is in the SEQUENCE, with the highest slot in use.\<close>

lemma vreset_idleE:
  assumes "idle h" "vreset_compound True h = Some h1"
  obtains i hi where "i < SESSION_SLOT_TABLE_CAPACITY" "\<not> used (h_slots h) i" "slots_inv (h_slots h1)"
    "\<And>j. used (h_slots h1) j \<longleftrightarrow> j = i \<or> used (h_slots h) j" "slots (h_slots h1) = slots (h_slots h)"
    "h_cpd h1 = \<lparr>argoparray = [OpSequence (of_nat i) (slots (h_slots h) ! i) hi], tc_saved_path = []\<rparr>" "h_world h1 = h_world h"
    "\<And>j. used (h_slots h1) j \<Longrightarrow> j < unat (hi + 1)" "target_highest_slotid (h_slots h1) = target_highest_slotid (h_slots h)"
proof -
  have inv: "slots_inv (h_slots h)" using assms(1) by (simp add: idle_def)
  obtain slotid seq hi sst where a: "alloc_session_slot (h_slots h) = Some (slotid, seq, hi, sst)"
    and h1: "h1 = h\<lparr>h_slots := sst, slot_allocated := True,
      h_cpd := \<lparr>argoparray = [OpSequence (word_of_int slotid) seq hi], tc_saved_path = []\<rparr>\<rparr>"
    using assms by (auto simp: vreset_compound_def idle_def tc_cleanup_compound_def add_op_def Let_def split: bind_splits)
  have inv': "slots_inv sst" by (rule alloc_session_slot_inv [OF inv a])
  show ?thesis
  proof (rule alloc_session_slot_SomeE [OF inv a])
    fix i assume i: "slotid = int i" "i < SESSION_SLOT_TABLE_CAPACITY" "bs_get (free_slots (h_slots h)) i"
      "seq = slots (h_slots h) ! i" "slots sst = slots (h_slots h)" "hi = highest_used_slotid_plus1 sst - 1"
      "target_highest_slotid sst = target_highest_slotid (h_slots h)"
    show thesis
    proof (rule that [of i hi])
      show "used (h_slots h1) j \<longleftrightarrow> j = i \<or> used (h_slots h) j" for j
        using used_alloc [OF inv, of i seq hi sst] a i(1) h1 by simp
      show "j < unat (hi + 1)" if "used (h_slots h1) j" for j
        using inv' that h1 i(6) by (simp add: slots_inv_def highest_ok_def)
    qed (use i h1 inv' in \<open>simp_all add: used_def\<close>)
  qed
qed

text \<open>What the answer to SEQUENCE does to the slot \<open>i\<close> that the thread holds.\<close>

lemma free_held:
  assumes inv: "slots_inv t" and u: "used t i" and lim: "sent \<Longrightarrow> \<forall>j. used t j \<longrightarrow> j < unat (sh + 1)"
  shows "\<exists>sig t'. free_session_slot t i sh th sent = Some (sig, t') \<and> slots_inv t' \<and>
    (\<forall>j. used t' j \<longleftrightarrow> j \<noteq> i \<and> used t j) \<and> target_highest_slotid t' = (if sent then th else target_highest_slotid t) \<and>
    (\<forall>j. get_slot_sequence t' j = (if sent \<and> j = i then get_slot_sequence t j + 1 else get_slot_sequence t j))"
proof -
  obtain sig t' where f: "free_session_slot t i sh th sent = Some (sig, t')"
    using free_session_slot_aborts [OF inv u, of sh th sent] lim by fastforce
  have "i < length (slots t)" using inv u by (simp add: slots_inv_def used_def)
  then have "\<forall>j. get_slot_sequence t' j = (if sent \<and> j = i then get_slot_sequence t j + 1 else get_slot_sequence t j)"
    "target_highest_slotid t' = (if sent then th else target_highest_slotid t)"
    using f by (auto simp: get_slot_sequence_def free_session_slot_def Let_def nth_list_update split: if_splits)
  then show ?thesis using f free_session_slot_inv [OF inv u f] used_free [OF inv u f] by blast
qed

lemma tc_update_sequence_slot:
  assumes inv: "slots_inv (h_slots h)" and u: "used (h_slots h) i" and lim: "\<And>j. used (h_slots h) j \<Longrightarrow> j < unat (hi + 1)"
    and res: "sent \<longrightarrow> res \<noteq> [] \<and> (res_status (hd res) = NFS4_OK \<longrightarrow> res_ok (hd res) = ResSequence (of_nat i) a b \<and> hi + 1 \<le> a + 1)"
  defines "acc \<equiv> sent \<and> res_status (hd res) = NFS4_OK"
  shows "\<exists>h'. tc_update_sequence (OpSequence (of_nat i) seq hi) res sent h = Some h' \<and> idle h' \<and> h_cpd h' = h_cpd h \<and>
    h_world h' = h_world h \<and> (\<forall>j. used (h_slots h') j \<longleftrightarrow> j \<noteq> i \<and> used (h_slots h) j) \<and>
    target_highest_slotid (h_slots h') = (if acc then b else target_highest_slotid (h_slots h)) \<and>
    (\<forall>j. get_slot_sequence (h_slots h') j =
       (if acc \<and> j = i then get_slot_sequence (h_slots h) j + 1 else get_slot_sequence (h_slots h) j))"
proof -
  have "i < SESSION_SLOT_TABLE_CAPACITY" using u by (simp add: used_def)
  then have w: "unat (of_nat i :: u32) = i" by (simp add: unat_slot)
  have le: "\<forall>j. used (h_slots h) j \<longrightarrow> j < unat (a + 1)" if acc
    using that res lim by (fastforce simp: acc_def word_le_nat_alt)
  have lim': "acc \<Longrightarrow> \<forall>j. used (h_slots h) j \<longrightarrow> j < unat ((if acc then a else hi) + 1)" using le by simp
  from free_held [OF inv u lim', where th = "if acc then b else hi"]
  obtain sig t where f: "free_session_slot (h_slots h) i (if acc then a else hi) (if acc then b else hi) acc = Some (sig, t)"
    and t: "slots_inv t" "\<forall>j. used t j \<longleftrightarrow> j \<noteq> i \<and> used (h_slots h) j"
      "target_highest_slotid t = (if acc then if acc then b else hi else target_highest_slotid (h_slots h))"
      "\<forall>j. get_slot_sequence t j = (if acc \<and> j = i then get_slot_sequence (h_slots h) j + 1 else get_slot_sequence (h_slots h) j)"
    by blast
  have "tc_update_sequence (OpSequence (of_nat i) seq hi) res sent h = Some (h\<lparr>h_slots := t, slot_allocated := False\<rparr>)"
    using f w res by (cases res) (auto simp: tc_update_sequence_def acc_def)
  then show ?thesis using t by (simp add: idle_def)
qed

text \<open>A server that answers, over a transport that may fail.\<close>

definition answers :: "'w rpc_env \<Rightarrow> bool" where
  "answers R \<longleftrightarrow> (\<forall>ops w rep w'. call_loop R ops w = Some (rep, w') \<longrightarrow> cr_rc rep = RPC_SUCCESS \<longrightarrow> answered ops rep)"

lemma answersD: "answers R \<Longrightarrow> call_loop R ops w = Some (rep, w') \<Longrightarrow> cr_rc rep = RPC_SUCCESS \<Longrightarrow> answered ops rep"
  unfolding answers_def by blast

definition same_slots :: "'w hstate \<Rightarrow> 'w hstate \<Rightarrow> bool" where
  "same_slots h h' \<longleftrightarrow> idle h' \<and> (\<forall>j. used (h_slots h') j = used (h_slots h) j)"

text \<open>What the server answers to the SEQUENCE of a compound, where it has accepted it.\<close>

definition accepted :: "clnt_reply \<Rightarrow> bool" where
  "accepted rep \<longleftrightarrow> cr_rc rep = RPC_SUCCESS \<and> res_status (hd (cr_res rep)) = NFS4_OK"

definition new_target :: "clnt_reply \<Rightarrow> u32" where
  "new_target rep = (case res_ok (hd (cr_res rep)) of ResSequence s hi target \<Rightarrow> target | _ \<Rightarrow> 0)"

lemma execute_slot:
  assumes a: "answers R" and h: "idle h" "vreset_compound True h = Some h1"
    and c: "argoparray c = argoparray (h_cpd h1) @ ops" and call: "call_loop R (argoparray c) (h_world h) = Some (rep, w)"
  shows "\<exists>h2 i hi. fs_compoundv4_execute R stat (h1\<lparr>h_cpd := c\<rparr>) =
      (let rc = (if cr_rc rep \<noteq> RPC_SUCCESS \<or> stat then cr_rc rep else cr_status rep)
       in Some (rc, if cr_rc rep = RPC_SUCCESS \<and> stat then the (nfsstat4_to_errno (cr_status rep)) else 0, cr_res rep, h2)) \<and>
    same_slots h h2 \<and> h_world h2 = w \<and>
    argoparray c = OpSequence (of_nat i) (get_slot_sequence (h_slots h) i) hi # ops \<and>
    i < SESSION_SLOT_TABLE_CAPACITY \<and> \<not> used (h_slots h) i \<and>
    target_highest_slotid (h_slots h2) =
      (if accepted rep \<and> (stat \<or> cr_status rep = NFS4_OK) then new_target rep else target_highest_slotid (h_slots h)) \<and>
    (\<forall>j. get_slot_sequence (h_slots h2) j =
      (if accepted rep \<and> (stat \<or> cr_status rep = NFS4_OK) \<and> j = i
       then get_slot_sequence (h_slots h) j + 1 else get_slot_sequence (h_slots h) j))"
proof -
  obtain i hi where i: "i < SESSION_SLOT_TABLE_CAPACITY" "\<not> used (h_slots h) i" "slots_inv (h_slots h1)"
    "\<And>j. used (h_slots h1) j \<longleftrightarrow> j = i \<or> used (h_slots h) j" "slots (h_slots h1) = slots (h_slots h)"
    and c1: "h_cpd h1 = \<lparr>argoparray = [OpSequence (of_nat i) (slots (h_slots h) ! i) hi], tc_saved_path = []\<rparr>" and w1: "h_world h1 = h_world h"
    and lim: "\<And>j. used (h_slots h1) j \<Longrightarrow> j < unat (hi + 1)" and tg: "target_highest_slotid (h_slots h1) = target_highest_slotid (h_slots h)"
    using vreset_idleE [OF h] by metis
  let ?seq = "OpSequence (of_nat i) (slots (h_slots h) ! i) hi"
  define sent where "sent \<longleftrightarrow> cr_rc rep = RPC_SUCCESS \<and> (stat \<or> cr_status rep = NFS4_OK)"
  have cs: "argoparray c = ?seq # ops" using c c1 by simp
  have ans: "cr_rc rep = RPC_SUCCESS \<Longrightarrow> answered (?seq # ops) rep" using a call cs by (auto simp: answers_def)
  let ?h = "h1\<lparr>h_cpd := c, h_world := w\<rparr>"
  obtain x y where xy: "sent \<longrightarrow> cr_res rep \<noteq> [] \<and> (res_status (hd (cr_res rep)) = NFS4_OK \<longrightarrow>
      res_ok (hd (cr_res rep)) = ResSequence (of_nat i) x y \<and> hi + 1 \<le> x + 1)"
    using ans by (fastforce simp: sent_def answered_def)
  obtain h2 where h2: "tc_update_sequence ?seq (cr_res rep) sent ?h = Some h2" "idle h2"
      "h_world h2 = w" "\<forall>j. used (h_slots h2) j \<longleftrightarrow> j \<noteq> i \<and> used (h_slots h1) j"
      "target_highest_slotid (h_slots h2) = (if sent \<and> res_status (hd (cr_res rep)) = NFS4_OK then y else target_highest_slotid (h_slots h1))"
      "\<forall>j. get_slot_sequence (h_slots h2) j = (if (sent \<and> res_status (hd (cr_res rep)) = NFS4_OK) \<and> j = i
         then get_slot_sequence (h_slots h1) j + 1 else get_slot_sequence (h_slots h1) j)"
    using tc_update_sequence_slot [of ?h i hi sent "cr_res rep" x y "slots (h_slots h) ! i"] i(3,4) lim xy by auto
  have "fs_compoundv4_execute R stat (h1\<lparr>h_cpd := c\<rparr>) =
      (let rc = (if cr_rc rep \<noteq> RPC_SUCCESS \<or> stat then cr_rc rep else cr_status rep)
       in Some (rc, if cr_rc rep = RPC_SUCCESS \<and> stat then the (nfsstat4_to_errno (cr_status rep)) else 0, cr_res rep, h2))"
    using call h2(1) ans w1 unfolding sent_def
    by (auto simp: fs_compoundv4_execute_def cs answered_def RPC_SUCCESS_def Let_def split: if_splits)
  moreover have "target_highest_slotid (h_slots h2) =
      (if accepted rep \<and> (stat \<or> cr_status rep = NFS4_OK) then new_target rep else target_highest_slotid (h_slots h))"
    using h2(5) xy tg by (auto simp: accepted_def sent_def new_target_def)
  ultimately show ?thesis using h2 i cs
    by (intro exI [of _ h2] exI [of _ i] exI [of _ hi]) (auto simp: same_slots_def sent_def accepted_def get_slot_sequence_def)
qed

section \<open>Calls\<close>

text \<open>The state after a call with the reply \<open>rep\<close>.\<close>

definition after :: "clnt_reply \<Rightarrow> 'w \<Rightarrow> 'w hstate \<Rightarrow> 'w hstate \<Rightarrow> bool" where
  "after rep w h h' \<longleftrightarrow> same_slots h h' \<and> h_world h' = w \<and>
     target_highest_slotid (h_slots h') = (if accepted rep then new_target rep else target_highest_slotid (h_slots h))"

lemma errno_ok: "nfsstat4_to_errno NFS4_OK = Some 0"
  by (simp add: nfsstat4_to_errno_def)

text \<open>A vectorised operation whose call goes through.\<close>

lemma vec_call_answered:
  assumes R: "answers R" and h: "idle h" "vreset_compound True h = Some h1"
    and b: "build (h_cpd h1) = Some (n, a, c)" "argoparray c = argoparray (h_cpd h1) @ ops"
    and call: "call_loop R (argoparray c) (h_world h) = Some (rep, w)" "cr_rc rep = RPC_SUCCESS"
    and f: "fill_results (step n) fail (opcnt c) (cr_res rep) 0 a = Some (f, a')"
  shows "\<exists>h'. vec_call R build step fail h =
      do { tcres \<leftarrow> (case f of None \<Rightarrow> Some \<lparr>vr_index = int n, vr_err_no = the (nfsstat4_to_errno (cr_status rep))\<rparr>
                        | Some (i, st) \<Rightarrow> map_option (vfailure (int i)) (nfsstat4_to_errno st));
           Some (tcres, a', h') } \<and> after rep w h h'"
proof -
  obtain h2 where e: "fs_compoundv4_execute R True (h1\<lparr>h_cpd := c\<rparr>) =
      Some (RPC_SUCCESS, the (nfsstat4_to_errno (cr_status rep)), cr_res rep, h2)" and s: "after rep w h h2"
    using execute_slot [OF R h b(2) call(1), of True] call(2) by (auto simp: Let_def after_def)
  show ?thesis using e s f by (intro exI [of _ h2]) (simp add: vec_call_def h b(1))
qed

text \<open>Where only the operations of one kind are counted, the index is their number among those done.\<close>

lemma vec_call_counted:
  assumes R: "answers R" and h: "idle h" "vreset_compound True h = Some h1"
    and b: "build (h_cpd h1) = Some (n, a, c)" "argoparray c = argoparray (h_cpd h1) @ ops"
    and call: "call_loop R (argoparray c) (h_world h) = Some (rep, w)" "cr_rc rep = RPC_SUCCESS"
  shows "\<exists>h'. vec_call R build (count_op opn) no_mark h =
      Some (if cr_status rep = NFS4_OK then \<lparr>vr_index = int n, vr_err_no = 0\<rparr>
            else vfailure (int (length (filter (\<lambda>x. argop x = opn) (take (done_ops rep) (argoparray c)))))
                   (the (nfsstat4_to_errno (cr_status rep))), a, h') \<and> after rep w h h'"
proof -
  have ans: "answered (argoparray c) rep" by (rule answersD [OF R call])
  then have e: "nfsstat4_to_errno (cr_status rep) \<noteq> None" by (simp add: answered_def)
  have f: "fill_results (count_op opn n) no_mark (opcnt c) (cr_res rep) 0 a =
    Some (if cr_status rep = NFS4_OK then None
          else Some (length (filter (\<lambda>x. argop x = opn) (take (done_ops rep) (argoparray c))), cr_status rep), a)"
    using fill_results_count [OF ans, of opn n a] by (simp add: opcnt_def)
  show ?thesis
    using vec_call_answered [where build = build and step = "count_op opn" and fail = no_mark, OF R h b call f] e errno_ok by (cases "cr_status rep = NFS4_OK") auto
qed

section \<open>What the server has done\<close>

text \<open>The operations that only move from file to file, and the log of the others.\<close>

definition quiet :: "nfs_argop4 \<Rightarrow> bool" where
  "quiet x \<longleftrightarrow> argop x \<in> {NFS4_OP_SEQUENCE, NFS4_OP_PUTFH, NFS4_OP_PUTROOTFH, NFS4_OP_LOOKUP, NFS4_OP_LOOKUPP,
     NFS4_OP_SAVEFH, NFS4_OP_RESTOREFH}"

lemma srv_step_log: "srv_step T x s = Some s' \<Longrightarrow> \<exists>e. s_log s' = s_log s @ (if quiet x then [] else [e])"
  by (cases x) (auto simp: quiet_def srv_both_def srv_enter_def srv_note_def split: bind_splits)

lemma srv_run_log:
  "srv_run T xs s = Some s' \<Longrightarrow> \<exists>es. s_log s' = s_log s @ es \<and> length es = length (filter (\<lambda>x. \<not> quiet x) xs)"
proof (induction xs arbitrary: s)
  case (Cons x xs)
  then obtain s1 where s1: "srv_step T x s = Some s1" "srv_run T xs s1 = Some s'" by (auto split: bind_splits)
  obtain e where "s_log s1 = s_log s @ (if quiet x then [] else [e])" using srv_step_log [OF s1(1)] by blast
  then show ?case using Cons.IH [OF s1(2)] by (cases "quiet x") auto
qed simp

text \<open>The log of the operations done is the beginning of the log of all of them.\<close>

lemma srv_run_prefix:
  assumes "srv_run T xs srv_init = Some s" "k \<le> length xs"
  shows "\<exists>s'. srv_run T (take k xs) srv_init = Some s' \<and> s_log s' = take (length (filter (\<lambda>x. \<not> quiet x) (take k xs))) (s_log s)"
proof -
  obtain s' where s': "srv_run T (take k xs) srv_init = Some s'" "srv_run T (drop k xs) s' = Some s"
    using assms(1) srv_run_append [of T "take k xs" "drop k xs" srv_init] by (auto split: bind_splits)
  show ?thesis using srv_run_log [OF s'(1)] srv_run_log [OF s'(2)] s'(1) by (auto simp: srv_init_def)
qed

lemma length_filter_take: "length (filter P (take k xs)) \<le> length (filter P xs)"
  by (metis append_take_drop_id filter_append le_add1 length_append)

text \<open>
  A result that tells the truth: the server has done the work of exactly the elements before the index, the error is
  that of the compound, and without an error the index is the number of elements the compound was for.
\<close>

definition reports ::
  "'n tree \<Rightarrow> ('a \<Rightarrow> nfs_argop4 \<times> 'n list) \<Rightarrow> 'a list \<Rightarrow> nat \<Rightarrow> nfs_argop4 list \<Rightarrow> clnt_reply \<Rightarrow> vres \<Rightarrow> bool" where
  "reports T work xs n ops rep v \<longleftrightarrow>
     (\<exists>s. srv_run T (take (done_ops rep) ops) srv_init = Some s \<and> s_log s = map work (take (nat (vr_index v)) xs)) \<and>
     0 \<le> vr_index v \<and> vr_index v \<le> int n \<and> vr_err_no v = the (nfsstat4_to_errno (cr_status rep)) \<and>
     (cr_status rep = NFS4_OK \<longrightarrow> vr_index v = int n)"

text \<open>
  Elements whose operations end with one that the server logs: \<open>good\<close> says which elements the server
  can follow, \<open>work\<close> what it does for them, \<open>need\<close> how many operations they take at most.
\<close>

locale logged_items =
  fixes T :: "'n tree" and item :: "'a \<Rightarrow> compound \<Rightarrow> (bool \<times> compound) option"
    and good :: "'a \<Rightarrow> bool" and work :: "'a \<Rightarrow> nfs_argop4 \<times> 'n list" and opn :: nfs_opnum4 and need :: "'a \<Rightarrow> nat"
  assumes total: "good x \<Longrightarrow> \<exists>r c'. item x c = Some (r, c')"
    and keeps: "good x \<Longrightarrow> item x c = Some (r, c') \<Longrightarrow> \<exists>ops. argoparray c' = argoparray c @ ops \<and> (\<forall>y \<in> set ops. quiet y \<longleftrightarrow> argop y \<noteq> opn)"
    and works: "good x \<Longrightarrow> built T c s \<Longrightarrow> item x c = Some (True, c') \<Longrightarrow> \<exists>s'. built T c' s' \<and> s_log s' = s_log s @ [work x]"
    and fits: "good x \<Longrightarrow> item x c = Some (r, c') \<Longrightarrow> opcnt c + need x \<le> MAX_NUM_OPS_PER_COMPOUND \<Longrightarrow> r"
begin

lemma built_loop:
  "\<forall>x \<in> set xs. good x \<Longrightarrow> built T c s \<Longrightarrow>
    \<exists>n c' s' ops. build_loop (plain item) i xs () c = Some (i + n, (), c') \<and> n \<le> length xs \<and> argoparray c' = argoparray c @ ops \<and>
      (\<forall>y \<in> set ops. quiet y \<longleftrightarrow> argop y \<noteq> opn) \<and> srv_run T (argoparray c') srv_init = Some s' \<and>
      s_log s' = s_log s @ map work (take n xs) \<and>
      (n < length xs \<longrightarrow> MAX_NUM_OPS_PER_COMPOUND < opcnt c' + need (xs ! n)) \<and> (n = 0 \<longrightarrow> ops = [])"
proof (induction xs arbitrary: i c s)
  case Nil
  then show ?case by (intro exI [of _ 0] exI [of _ c] exI [of _ s]) (simp add: built_def)
next
  case (Cons x xs)
  then have gx: "good x" by simp
  obtain r c1 where i: "item x c = Some (r, c1)" using total [OF gx] by blast
  obtain ops1 where o: "argoparray c1 = argoparray c @ ops1" "\<forall>y \<in> set ops1. quiet y \<longleftrightarrow> argop y \<noteq> opn"
    using keeps [OF gx i] by blast
  have p: "plain item x () c = Some (r, (), c1)" using i by (simp add: plain_def)
  show ?case
  proof (cases r)
    case True
    then obtain s1 where s1: "built T c1 s1" "s_log s1 = s_log s @ [work x]" using works [OF gx Cons.prems(2), of c1] i by auto
    obtain n c' s' ops where n: "build_loop (plain item) (Suc i) xs () c1 = Some (Suc i + n, (), c')" "n \<le> length xs"
      "argoparray c' = argoparray c1 @ ops" "\<forall>y \<in> set ops. quiet y \<longleftrightarrow> argop y \<noteq> opn"
      "srv_run T (argoparray c') srv_init = Some s'" "s_log s' = s_log s1 @ map work (take n xs)"
      "n < length xs \<longrightarrow> MAX_NUM_OPS_PER_COMPOUND < opcnt c' + need (xs ! n)"
      using Cons.IH [OF _ s1(1), of "Suc i"] Cons.prems(1) by auto
    show ?thesis using n s1(2) o p True
      by (intro exI [of _ "Suc n"] exI [of _ c'] exI [of _ s'] exI [of _ "ops1 @ ops"]) auto
  next
    case False
    then show ?thesis using p o(1) Cons.prems(2) fits [OF gx i]
      by (intro exI [of _ 0] exI [of _ "reset_opcnt (opcnt c) c1"] exI [of _ s] exI [of _ "[]"])
        (auto simp: reset_opcnt_def opcnt_def built_def not_le [symmetric])
  qed
qed

text \<open>The operation counts the elements that the server has finished.\<close>

lemma counted:
  assumes R: "answers R" and h: "idle h" "vreset_compound True h = Some h1" and g: "\<forall>x \<in> set xs. good x"
    and opn: "opn \<noteq> NFS4_OP_SEQUENCE"
  shows "\<exists>n c. build_plain item xs a (h_cpd h1) = Some (n, a, c) \<and> n \<le> length xs \<and>
    (n < length xs \<longrightarrow> MAX_NUM_OPS_PER_COMPOUND < opcnt c + need (xs ! n)) \<and> (n = 0 \<longrightarrow> opcnt c = 1) \<and>
    (\<forall>rep w. call_loop R (argoparray c) (h_world h) = Some (rep, w) \<longrightarrow> cr_rc rep = RPC_SUCCESS \<longrightarrow>
      (\<exists>v h'. vec_call R (build_plain item xs a) (count_op opn) no_mark h = Some (v, a, h') \<and> after rep w h h' \<and>
        reports T work xs n (argoparray c) rep v))"
proof -
  obtain slot seq hi where f: "argoparray (h_cpd h1) = [OpSequence slot seq hi]" "tc_saved_path (h_cpd h1) = []"
    by (rule vreset_fresh [OF h(2)])
  then have "built T (h_cpd h1) srv_init" by (simp add: built_def)
  from built_loop [OF g this, of 0] obtain n c s' ops where n: "build_loop (plain item) 0 xs () (h_cpd h1) = Some (n, (), c)"
      "n \<le> length xs" "n < length xs \<longrightarrow> MAX_NUM_OPS_PER_COMPOUND < opcnt c + need (xs ! n)" "n = 0 \<longrightarrow> ops = []"
    and o: "argoparray c = argoparray (h_cpd h1) @ ops" "\<forall>y \<in> set ops. quiet y \<longleftrightarrow> argop y \<noteq> opn"
    and s': "srv_run T (argoparray c) srv_init = Some s'" "s_log s' = map work (take n xs)"
    by (auto simp: srv_init_def)
  have b: "build_plain item xs a (h_cpd h1) = Some (n, a, c)" using n(1) by (simp add: build_plain_def)
  have q: "quiet y \<longleftrightarrow> argop y \<noteq> opn" if "y \<in> set (argoparray c)" for y
    using that o f opn by (auto simp: quiet_def)
  have "\<exists>v h'. vec_call R (build_plain item xs a) (count_op opn) no_mark h = Some (v, a, h') \<and> after rep w h h' \<and>
        reports T work xs n (argoparray c) rep v"
    if call: "call_loop R (argoparray c) (h_world h) = Some (rep, w)" "cr_rc rep = RPC_SUCCESS" for rep w
  proof -
    let ?k = "length (filter (\<lambda>x. argop x = opn) (take (done_ops rep) (argoparray c)))"
    have ans: "answered (argoparray c) rep" by (rule answersD [OF R call])
    have d: "done_ops rep \<le> length (argoparray c)" "cr_status rep = NFS4_OK \<Longrightarrow> done_ops rep = length (argoparray c)"
      using ans by (auto simp: answered_def done_ops_def)
    have eq: "filter (\<lambda>x. \<not> quiet x) (take m (argoparray c)) = filter (\<lambda>x. argop x = opn) (take m (argoparray c))" for m
      by (rule filter_cong [OF refl]) (use q in \<open>auto dest: in_set_takeD\<close>)
    obtain s where s: "srv_run T (take (done_ops rep) (argoparray c)) srv_init = Some s" "s_log s = take ?k (s_log s')"
      using srv_run_prefix [OF s'(1) d(1)] by (auto simp: eq)
    have full: "length (filter (\<lambda>x. argop x = opn) (argoparray c)) = n"
      using srv_run_log [OF s'(1)] s'(2) n(2) eq [of "length (argoparray c)"] by (auto simp: srv_init_def)
    then have k: "?k \<le> n" "cr_status rep = NFS4_OK \<Longrightarrow> ?k = n"
      using d(2) length_filter_take by (auto simp: take_all)
    obtain h' where "vec_call R (build_plain item xs a) (count_op opn) no_mark h =
        Some (if cr_status rep = NFS4_OK then \<lparr>vr_index = int n, vr_err_no = 0\<rparr>
              else vfailure (int ?k) (the (nfsstat4_to_errno (cr_status rep))), a, h')" "after rep w h h'"
      using vec_call_counted [where build = "build_plain item xs a" and opn = opn, OF R h b o(1) call] by blast
    then show ?thesis using s s'(2) k errno_ok
      by (intro exI [of _ "if cr_status rep = NFS4_OK then \<lparr>vr_index = int n, vr_err_no = 0\<rparr>
              else vfailure (int ?k) (the (nfsstat4_to_errno (cr_status rep)))"] exI [of _ h'])
        (auto simp: reports_def vfailure_def take_map min_absorb1)
  qed
  moreover have "n = 0 \<longrightarrow> opcnt c = 1" using n(4) o(1) f(1) by (simp add: opcnt_def)
  ultimately show ?thesis using b n(2,3) by blast
qed

end

section \<open>Leading to a file is quiet\<close>

definition quietly :: "compound \<Rightarrow> compound \<Rightarrow> bool" where
  "quietly c c' \<longleftrightarrow> (\<exists>ops. argoparray c' = argoparray c @ ops \<and> (\<forall>y \<in> set ops. quiet y))"

lemma quietly_refl [simp]: "quietly c c"
  by (simp add: quietly_def)

lemma quietly_saved [simp]: "quietly c (c'\<lparr>tc_saved_path := p\<rparr>) = quietly c c'"
  by (simp add: quietly_def)

lemma quietly_trans: "quietly c c' \<Longrightarrow> quietly c' c'' \<Longrightarrow> quietly c c''"
  unfolding quietly_def by (metis Un_iff append_assoc set_append)

lemma quietly_add: "quiet x \<Longrightarrow> quietly c (add_op x c)"
  by (simp add: quietly_def add_op_def)

lemma quietly_reset: "quietly c c' \<Longrightarrow> quietly c (reset_opcnt (opcnt c) c')"
  by (auto simp: quietly_def reset_opcnt_def opcnt_def)

lemma quietly_none:
  assumes "quietly c c'" "\<And>y. argop y = opn \<Longrightarrow> \<not> quiet y"
  shows "\<exists>ops. argoparray c' = argoparray c @ ops \<and> (\<forall>y \<in> set ops. quiet y \<longleftrightarrow> argop y \<noteq> opn)"
  using assms unfolding quietly_def by blast

lemma quietly_one:
  assumes "quietly c c2" "argop x = opn" "\<And>y. argop y = opn \<Longrightarrow> \<not> quiet y"
  shows "\<exists>ops. argoparray (add_op x c2) = argoparray c @ ops \<and> (\<forall>y \<in> set ops. quiet y \<longleftrightarrow> argop y \<noteq> opn)"
proof -
  obtain ops where "argoparray c2 = argoparray c @ ops" "\<forall>y \<in> set ops. quiet y \<longleftrightarrow> argop y \<noteq> opn"
    using quietly_none [OF assms(1,3)] by blast
  then show ?thesis using assms(2,3) by (intro exI [of _ "ops @ [x]"]) (auto simp: add_op_def)
qed

lemma lookups_loop_quietly: "quietly c (snd (lookups_loop ws c))"
proof (induction ws arbitrary: c)
  case (Cons w ws)
  have "quietly c (snd (lookups_loop ws (add_op x c)))" if "quiet x" for x
    by (rule quietly_trans [OF quietly_add [OF that] Cons.IH])
  then show ?case using Cons.IH [of c] by (simp add: quiet_def)
qed simp

lemma tc_prepare_lookups_quietly: "quietly c (snd (tc_prepare_lookups ws c))"
  using lookups_loop_quietly [of c ws] by (auto simp: tc_prepare_lookups_def quietly_reset split: prod.splits)

lemma start_quietly: "quiet x \<Longrightarrow> quietly c (snd (tc_prepare_lookups ws (add_op x c)))"
  by (rule quietly_trans [OF quietly_add tc_prepare_lookups_quietly])

lemma from_root_quietly: "quietly c (snd (tc_set_cfh_from_root ws c))"
  using start_quietly [of OpPutrootfh c "ws[0 := tl (ws ! 0)]"]
  by (auto simp: tc_set_cfh_from_root_def quiet_def quietly_reset split: prod.splits)

lemma from_cwd_quietly: "quietly c (snd (tc_set_cfh_from_cwd cwd ws c))"
  using start_quietly [of "OpPutfh (cwd_fh cwd)" c ws]
  by (auto simp: tc_set_cfh_from_cwd_def tc_prepare_putfh_def prepare_def quiet_def quietly_reset split: prod.splits)

lemma tc_prepare_savefh_quietly: "quietly c (snd (tc_prepare_savefh p c))"
  using quietly_add [of OpSavefh c] by (auto simp: tc_prepare_savefh_def tc_save_path_def quiet_def split: option.splits)

lemma tc_prepare_restorefh_quietly: "quietly c (snd (tc_prepare_restorefh c))"
  using quietly_add [of OpRestorefh c] by (auto simp: tc_prepare_restorefh_def quiet_def)

lemma tc_set_cfh_to_path_quietly:
  assumes "tc_set_cfh_to_path cwd path leaf save c = (r, name, c')"
  shows "quietly c c'"
proof -
  obtain p w where sp: "split_leaf path leaf = (p, w)" by (cases "split_leaf path leaf")
  obtain cmp comps ap where cp: "tc_compress_path cwd (tc_saved_path c) p = (cmp, comps, ap)"
    by (cases "tc_compress_path cwd (tc_saved_path c) p")
  define step where "step = (if cmp then and_then tc_prepare_restorefh (tc_prepare_lookups comps) c
       else if path \<noteq> [] \<and> hd path = SLASH then tc_set_cfh_from_root comps c else tc_set_cfh_from_cwd cwd comps c)"
  obtain r1 c1 where st: "step = (r1, c1)" by (cases step)
  have "quietly c (snd (and_then tc_prepare_restorefh (tc_prepare_lookups comps) c))"
    using tc_prepare_restorefh_quietly [of c] quietly_trans tc_prepare_lookups_quietly
    by (auto simp: and_then_def split: prod.splits)
  then have 1: "quietly c c1" using st from_root_quietly [of c comps] from_cwd_quietly [of c cwd comps] by (auto simp: step_def split: if_splits)
  obtain r2 c2 where f: "(if r1 \<and> save then tc_prepare_savefh (Some ap) c1 else (r1, c1)) = (r2, c2)"
    by (cases "if r1 \<and> save then tc_prepare_savefh (Some ap) c1 else (r1, c1)")
  have "quietly c c2" using quietly_trans [OF 1 tc_prepare_savefh_quietly [of c1 "Some ap"]] 1 f by (auto split: if_splits)
  then show ?thesis using assms sp cp st f
    by (auto simp: tc_set_cfh_to_path_def step_def [symmetric] quietly_reset split: if_splits)
qed

section \<open>Renaming\<close>

text \<open>The directory and the name that a path leads to, for paths the builder can handle.\<close>

definition dir_of :: "'n tree \<Rightarrow> tc_cwd_data \<Rightarrow> string \<Rightarrow> 'n option" where
  "dir_of T cwd path =
     (let d = fst (split_leaf path True)
      in if path_fits cwd d then case path_at T cwd d of Some n \<Rightarrow> if t_dir T n then Some n else None | None \<Rightarrow> None
         else None)"

definition leaf_of :: "string \<Rightarrow> string" where
  "leaf_of path = snd (split_leaf path True)"

lemma cfh_to_dir:
  assumes "tree_ok T" "cwd_ok T cwd" "built T c s" "dir_of T cwd path = Some n"
    and "tc_set_cfh_to_path cwd path True save c = (True, name, c')"
  shows "name = leaf_of path \<and> (\<exists>s'. built T c' s' \<and> s_cfh s' = Some n \<and> s_log s' = s_log s \<and>
    s_sfh s' = (if save then Some n else s_sfh s))"
proof -
  obtain d w where sp: "split_leaf path True = (d, w)" by (cases "split_leaf path True")
  then have d: "path_fits cwd d" "path_at T cwd d = Some n" "t_dir T n"
    using assms(4) by (auto simp: dir_of_def split: if_splits option.splits)
  show ?thesis
    using tc_set_cfh_to_path_leads [OF assms(1-3,5) sp d(1,2)] d(3) sp by (auto simp: leaf_of_def)
qed

lemma built_add:
  "built T c s \<Longrightarrow> srv_step T x s = Some s' \<Longrightarrow> argop x \<noteq> NFS4_OP_SAVEFH \<Longrightarrow> built T (add_op x c) s'"
  using srv_step_sfh [of T x s s'] by (auto simp: built_def add_op_def srv_run_append saved_leads_def)

definition path_pair :: "string \<Rightarrow> string \<Rightarrow> vfile_pair" where
  "path_pair src dst = \<lparr>src_file = vfile_from_path src, dst_file = vfile_from_path dst\<rparr>"

text \<open>A pair of paths into directories of the server, and the renaming it stands for.\<close>

definition rename_good :: "'n tree \<Rightarrow> handle_env \<Rightarrow> vfile_pair \<Rightarrow> bool" where
  "rename_good T E p \<longleftrightarrow> tree_ok T \<and> cwd_ok T (he_cwd E) \<and>
     (\<exists>src dst. p = path_pair src dst \<and> dir_of T (he_cwd E) src \<noteq> None \<and> dir_of T (he_cwd E) dst \<noteq> None)"

definition pair_path :: "vfile \<Rightarrow> string" where
  "pair_path f = (case vf_path f of Some p \<Rightarrow> p | None \<Rightarrow> [])"

definition rename_work :: "'n tree \<Rightarrow> handle_env \<Rightarrow> vfile_pair \<Rightarrow> nfs_argop4 \<times> 'n list" where
  "rename_work T E p =
     (let src = pair_path (src_file p); dst = pair_path (dst_file p)
      in (OpRename (leaf_of src) (leaf_of dst), [the (dir_of T (he_cwd E) src), the (dir_of T (he_cwd E) dst)]))"

lemma rename_item_eq:
  "rename_item E (path_pair src dst) c =
     (case tc_set_cfh_to_path (he_cwd E) src True True c of (r1, w, c1) \<Rightarrow>
        let c1 = (if r1 then c1 else reset_opcnt (opcnt c) c1)
        in if \<not> r1 then Some (False, c1)
           else case tc_set_cfh_to_path (he_cwd E) dst True False c1 of (r2, v, c2) \<Rightarrow>
             let c2 = (if r2 then c2 else reset_opcnt (opcnt c1) c2)
             in if \<not> r2 then Some (False, c2) else Some (prepare (OpRename w v) c2))"
  by (auto simp: rename_item_def path_pair_def vfile_from_path_def with_name_def tc_set_saved_fh_def current_fh_def
      tc_set_current_fh_def single_defs Let_def split: prod.splits)

definition dir_comps :: "string \<Rightarrow> nat" where
  "dir_comps path = length (path_comps (fst (split_leaf path True)))"

definition rename_need :: "vfile_pair \<Rightarrow> nat" where
  "rename_need p = 5 + dir_comps (pair_path (src_file p)) + dir_comps (pair_path (dst_file p))"

lemma cfh_fits:
  assumes "tc_set_cfh_to_path cwd path True save c = (r, name, c')"
  shows "opcnt c' \<le> opcnt c + (2 + dir_comps path)" "opcnt c + (2 + dir_comps path) \<le> MAX_NUM_OPS_PER_COMPOUND \<Longrightarrow> r"
proof -
  obtain d w where "split_leaf path True = (d, w)" by (cases "split_leaf path True")
  from tc_set_cfh_to_path_fills(1) [OF this assms] this
  have "fills (2 + dir_comps path) c (r, c')" by (simp add: dir_comps_def)
  then show "opcnt c' \<le> opcnt c + (2 + dir_comps path)" "opcnt c + (2 + dir_comps path) \<le> MAX_NUM_OPS_PER_COMPOUND \<Longrightarrow> r"
    using extends_opcnt [of "2 + dir_comps path" c c'] by (simp_all only: fills_def fst_conv snd_conv)
qed

interpretation renaming: logged_items T "rename_item E" "rename_good T E" "rename_work T E" NFS4_OP_RENAME rename_need for T E
proof unfold_locales
  fix x c
  assume "rename_good T E x"
  then obtain src dst where x: "x = path_pair src dst" by (auto simp: rename_good_def)
  obtain r1 w c1 where 1: "tc_set_cfh_to_path (he_cwd E) src True True c = (r1, w, c1)"
    by (cases "tc_set_cfh_to_path (he_cwd E) src True True c")
  obtain r2 v c2 where 2: "tc_set_cfh_to_path (he_cwd E) dst True False c1 = (r2, v, c2)"
    by (cases "tc_set_cfh_to_path (he_cwd E) dst True False c1")
  note q = tc_set_cfh_to_path_quietly [OF 1] quietly_trans [OF tc_set_cfh_to_path_quietly [OF 1] tc_set_cfh_to_path_quietly [OF 2]]
  show "\<exists>r c'. rename_item E x c = Some (r, c')"
    by (cases "prepare (OpRename w v) c2") (auto simp: x rename_item_eq 1 2 Let_def)
  fix r c'
  assume "rename_item E x c = Some (r, c')"
  then consider "quietly c c'" | "quietly c c2" "c' = add_op (OpRename w v) c2"
    using q quietly_reset [OF q(1)] quietly_trans [OF q(1) quietly_reset [OF tc_set_cfh_to_path_quietly [OF 2]]]
    by (auto simp: x rename_item_eq 1 2 prepare_def Let_def split: if_splits)
  then show "\<exists>ops. argoparray c' = argoparray c @ ops \<and> (\<forall>y \<in> set ops. quiet y \<longleftrightarrow> argop y \<noteq> NFS4_OP_RENAME)"
  proof cases
    case 1
    then show ?thesis by (rule quietly_none) (simp add: quiet_def)
  next
    case 2
    show ?thesis unfolding 2(2) by (rule quietly_one [OF 2(1)]) (simp_all add: quiet_def)
  qed
  assume f: "opcnt c + rename_need x \<le> MAX_NUM_OPS_PER_COMPOUND"
  then have r1: r1 using cfh_fits [OF 1] by (simp add: rename_need_def x path_pair_def pair_path_def vfile_from_path_def vf_path_def)
  moreover have r2 using cfh_fits [OF 1] cfh_fits [OF 2] f
    by (simp add: rename_need_def x path_pair_def pair_path_def vfile_from_path_def vf_path_def)
  moreover have "tc_has_enough_ops 1 c2" using cfh_fits(1) [OF 1] cfh_fits(1) [OF 2] f
    by (simp add: rename_need_def x path_pair_def pair_path_def vfile_from_path_def vf_path_def tc_has_enough_ops_def)
  ultimately show r using \<open>rename_item E x c = Some (r, c')\<close> by (auto simp: x rename_item_eq 1 2 prepare_def)
next
  fix x c s c'
  assume g: "rename_good T E x" and b: "built T c s" and i: "rename_item E x c = Some (True, c')"
  obtain src dst n m where x: "x = path_pair src dst" and T: "tree_ok T" "cwd_ok T (he_cwd E)"
    and n: "dir_of T (he_cwd E) src = Some n" "dir_of T (he_cwd E) dst = Some m" using g by (auto simp: rename_good_def)
  obtain w c1 v c2 where 1: "tc_set_cfh_to_path (he_cwd E) src True True c = (True, w, c1)"
    and 2: "tc_set_cfh_to_path (he_cwd E) dst True False c1 = (True, v, c2)" and c': "c' = add_op (OpRename w v) c2"
    using i by (auto simp: x rename_item_eq prepare_def Let_def split: prod.splits if_splits)
  obtain s1 where s1: "w = leaf_of src" "built T c1 s1" "s_log s1 = s_log s" "s_sfh s1 = Some n"
    using cfh_to_dir [OF T b n(1) 1] by auto
  obtain s2 where s2: "v = leaf_of dst" "built T c2 s2" "s_log s2 = s_log s" "s_sfh s2 = Some n" "s_cfh s2 = Some m"
    using cfh_to_dir [OF T s1(2) n(2) 2] s1 by auto
  have "srv_step T (OpRename w v) s2 = Some (srv_note (OpRename w v) [n, m] s2)" using s2 by (simp add: srv_both_def)
  from built_add [OF s2(2) this] show "\<exists>s'. built T c' s' \<and> s_log s' = s_log s @ [rename_work T E x]"
    using s1(1) s2 n by (intro exI [of _ "srv_note (OpRename w v) [n, m] s2"])
      (simp add: c' rename_work_def x path_pair_def pair_path_def vfile_from_path_def vf_path_def srv_note_def)
qed

section \<open>Symbolic links\<close>

definition link_attrs :: "handle_env \<Rightarrow> string \<Rightarrow> fattr4 option" where
  "link_attrs E name =
     vattrs_to_fattr4 (he_fattr E) (vset_up_creation (he_euid E) (he_egid E) (he_tca E) name 493) zero_fattr4"

text \<open>The tree holds the link that is made, under its name.\<close>

definition symlink_good :: "'n tree \<Rightarrow> handle_env \<Rightarrow> string \<times> string \<Rightarrow> bool" where
  "symlink_good T E p \<longleftrightarrow> tree_ok T \<and> cwd_ok T (he_cwd E) \<and> NUL \<notin> set (leaf_of (snd p)) \<and> link_attrs E (leaf_of (snd p)) \<noteq> None \<and>
     (\<exists>d. dir_of T (he_cwd E) (snd p) = Some d \<and> t_child T d (leaf_of (snd p)) \<noteq> None)"

definition symlink_work :: "'n tree \<Rightarrow> handle_env \<Rightarrow> string \<times> string \<Rightarrow> nfs_argop4 \<times> 'n list" where
  "symlink_work T E p =
     (OpCreate (NF4LNK (fst p)) (leaf_of (snd p)) (the (link_attrs E (leaf_of (snd p)))), [the (dir_of T (he_cwd E) (snd p))])"

definition symlink_need :: "string \<times> string \<Rightarrow> nat" where
  "symlink_need p = 3 + dir_comps (snd p)"

lemma cfh_leaf: "tc_set_cfh_to_path cwd path True save c = (r, name, c') \<Longrightarrow> name = leaf_of path"
  by (auto simp: tc_set_cfh_to_path_def leaf_of_def Let_def split: prod.splits)

lemma auto_str: "NUL \<notin> set w \<Longrightarrow> tc_new_auto_str w = w"
  by (auto simp: tc_new_auto_str_def takeWhile_eq_all_conv)

lemma symlink_item_eq:
  assumes "NUL \<notin> set (leaf_of (snd p))" "link_attrs E (leaf_of (snd p)) = Some a"
  shows "symlink_item E p c =
     (case tc_set_cfh_to_path (he_cwd E) (snd p) True True c of (r, w, c1) \<Rightarrow>
        if \<not> r then Some (False, c1) else Some (prepare (OpCreate (NF4LNK (fst p)) (leaf_of (snd p)) a) c1))"
  using assms cfh_leaf [of "he_cwd E" "snd p" True c]
  by (auto simp: symlink_item_def with_name_def cfh_to_path_def link_attrs_def single_defs auto_str split: prod.splits)

interpretation linking: logged_items T "symlink_item E" "symlink_good T E" "symlink_work T E" NFS4_OP_CREATE symlink_need for T E
proof unfold_locales
  fix x c
  assume g: "symlink_good T E x"
  obtain a where a: "link_attrs E (leaf_of (snd x)) = Some a" and nn: "NUL \<notin> set (leaf_of (snd x))"
    using g by (auto simp: symlink_good_def)
  obtain r1 w c1 where 1: "tc_set_cfh_to_path (he_cwd E) (snd x) True True c = (r1, w, c1)"
    by (cases "tc_set_cfh_to_path (he_cwd E) (snd x) True True c")
  note q = tc_set_cfh_to_path_quietly [OF 1] and eq = symlink_item_eq [OF nn a, of c, unfolded 1 prod.case]
  show "\<exists>r c'. symlink_item E x c = Some (r, c')"
    by (cases "prepare (OpCreate (NF4LNK (fst x)) (leaf_of (snd x)) a) c1") (auto simp: eq)
  fix r c'
  assume i: "symlink_item E x c = Some (r, c')"
  then consider "quietly c c'" | "c' = add_op (OpCreate (NF4LNK (fst x)) (leaf_of (snd x)) a) c1"
    using q by (auto simp: eq prepare_def split: if_splits)
  then show "\<exists>ops. argoparray c' = argoparray c @ ops \<and> (\<forall>y \<in> set ops. quiet y \<longleftrightarrow> argop y \<noteq> NFS4_OP_CREATE)"
  proof cases
    case 1
    then show ?thesis by (rule quietly_none) (simp add: quiet_def)
  next
    case 2
    show ?thesis unfolding 2 by (rule quietly_one [OF q]) (simp_all add: quiet_def)
  qed
  assume f: "opcnt c + symlink_need x \<le> MAX_NUM_OPS_PER_COMPOUND"
  then show r using i cfh_fits [OF 1] by (auto simp: eq prepare_def symlink_need_def tc_has_enough_ops_def split: if_splits)
next
  fix x c s c'
  assume g: "symlink_good T E x" and b: "built T c s" and i: "symlink_item E x c = Some (True, c')"
  obtain a d m where a: "link_attrs E (leaf_of (snd x)) = Some a" and nn: "NUL \<notin> set (leaf_of (snd x))"
    and T: "tree_ok T" "cwd_ok T (he_cwd E)" and d: "dir_of T (he_cwd E) (snd x) = Some d" "t_child T d (leaf_of (snd x)) = Some m"
    using g by (auto simp: symlink_good_def)
  let ?op = "OpCreate (NF4LNK (fst x)) (leaf_of (snd x)) a"
  obtain w c1 where 1: "tc_set_cfh_to_path (he_cwd E) (snd x) True True c = (True, w, c1)" and c': "c' = add_op ?op c1"
    using i by (auto simp: symlink_item_eq [OF nn a] prepare_def split: prod.splits if_splits)
  obtain s1 where s1: "built T c1 s1" "s_log s1 = s_log s" "s_cfh s1 = Some d" using cfh_to_dir [OF T b d(1) 1] by auto
  have "srv_step T ?op s1 = Some ((srv_note ?op [d] s1)\<lparr>s_cfh := Some m\<rparr>)" using s1 d by (simp add: srv_enter_def)
  from built_add [OF s1(1) this] show "\<exists>s'. built T c' s' \<and> s_log s' = s_log s @ [symlink_work T E x]"
    using s1 d a by (intro exI [of _ "(srv_note ?op [d] s1)\<lparr>s_cfh := Some m\<rparr>"]) (simp add: c' symlink_work_def srv_note_def)
qed

section \<open>A server for examples\<close>

text \<open>It does every operation of a compound.\<close>

definition ok_result :: "nfs_argop4 \<Rightarrow> nfs_resop4" where
  "ok_result x =
     \<lparr>resop = argop x, res_status = NFS4_OK,
      res_ok = (case x of OpSequence slot _ hi \<Rightarrow> ResSequence slot (max hi 127) 127 | _ \<Rightarrow> ResNone)\<rparr>"

definition ok_reply :: "nfs_argop4 list \<Rightarrow> clnt_reply" where
  "ok_reply ops = \<lparr>cr_rc = (if ops = [] then 1 else RPC_SUCCESS), cr_again = False, cr_status = NFS4_OK, cr_res = map ok_result ops\<rparr>"

definition ok_server :: "unit rpc_env" where
  "ok_server = \<lparr>fs_compoundv4_call = (\<lambda>ops w. (ok_reply ops, w)), fs_rpc_need_sock = (\<lambda>w. w)\<rparr>"

lemma call_ok_server: "call_loop ok_server ops w = Some (ok_reply ops, w)"
  by (subst call_loop.simps) (simp add: ok_server_def ok_reply_def RPC_SUCCESS_def RPC_CANTSEND_def RPC_CANTRECV_def)

lemma highest_up_to: "hi + 1 \<le> max hi 127 + 1" for hi :: u32
  by (cases "hi \<le> 127") (auto simp: max_def word_le_nat_alt unat_word_ariths)

lemma ok_server_answers: "answers ok_server"
proof -
  have "answered ops (ok_reply ops)" if "ops \<noteq> []" for ops
    using that highest_up_to by (auto simp: answered_def ok_reply_def ok_result_def RPC_SUCCESS_def errno_ok last_map hd_map o_def
        dest!: in_set_butlastD)
  then show ?thesis by (auto simp: answers_def call_ok_server ok_reply_def RPC_SUCCESS_def split: if_splits)
qed

lemma first_idle: "idle (first_state w)"
  using new_session_slot_table_inv [of True "the (new_session_slot_table True)"]
  by (simp add: idle_def first_state_def new_session_slot_table_def)

lemma dir_of_example: "dir_of (path_tree [] [''w'']) example_cwd ''/a/x'' = Some [''a'']"
proof -
  have "names ''/a'' = [''a'']" "split_leaf ''/a/x'' True = (''/a'', ''x'')" by code_simp+
  then show ?thesis by (simp add: dir_of_def path_fits_def is_abs_def PATH_MAX_def path_at_def path_tree_def)
qed

section \<open>Properties\<close>

text \<open>
  C10: renaming pairs of paths does what it reports.  On a server that answers by the protocol, the compound
  is for the first \<open>n\<close> pairs, and it ends only before a pair that does not fit; once the call has gone through, the
  operation returns, the server has done exactly the renamings of the pairs before the index of the
  result, in order and each in the directories the paths name, the error is that of the operation that stopped
  it, without an error all \<open>n\<close> pairs are done, and the slot is given back.
\<close>

theorem renamev_done:
  assumes "answers R" "idle h" "vreset_compound True h = Some h1" "\<forall>p \<in> set pairs. rename_good T E p"
  shows "\<exists>n c. build_plain (rename_item E) pairs () (h_cpd h1) = Some (n, (), c) \<and> n \<le> length pairs \<and>
    (n < length pairs \<longrightarrow> MAX_NUM_OPS_PER_COMPOUND < opcnt c + rename_need (pairs ! n)) \<and> (n = 0 \<longrightarrow> opcnt c = 1) \<and>
    (\<forall>rep w. call_loop R (argoparray c) (h_world h) = Some (rep, w) \<longrightarrow> cr_rc rep = RPC_SUCCESS \<longrightarrow>
      (\<exists>v h'. tc_nfs4_renamev R E pairs h = Some (v, h') \<and> same_slots h h' \<and> h_world h' = w \<and>
        reports T (rename_work T E) pairs n (argoparray c) rep v))"
proof -
  have eq: "tc_nfs4_renamev R E pairs h = Some (v, h')"
    if "vec_call R (build_plain (rename_item E) pairs ()) (count_op NFS4_OP_RENAME) no_mark h = Some (v, (), h')" for v h'
    by (simp add: tc_nfs4_renamev_def that)
  have "NFS4_OP_RENAME \<noteq> NFS4_OP_SEQUENCE" by simp
  from renaming.counted [OF assms this, of "()"] eq show ?thesis unfolding after_def by meson
qed

theorem renamev_done_witness:
  "\<exists>v h'. tc_nfs4_renamev ok_server some_env [path_pair ''/a/x'' ''/a/x''] (first_state ()) = Some (v, h') \<and>
     vr_index v = 1 \<and> vr_err_no v = 0 \<and> idle h'"
proof -
  let ?T = "path_tree [] [''w'']" and ?p = "path_pair ''/a/x'' ''/a/x''"
  obtain h1 where h1: "vreset_compound True (first_state ()) = Some h1"
    and s: "h_cpd h1 = \<lparr>argoparray = [OpSequence 0 1 0], tc_saved_path = []\<rparr>" using vreset_first [of "()"] by auto
  have g: "\<forall>p \<in> set [?p]. rename_good ?T some_env p"
    using path_tree_ok [of "[]" "[''w'']"] example_cwd_ok [of "[]"] dir_of_example by (auto simp: rename_good_def some_env_def)
  have need: "rename_need ?p = 7" by code_simp
  from renamev_done [OF ok_server_answers first_idle h1 g, unfolded call_ok_server]
  obtain n c v h' where n: "n < length [?p] \<longrightarrow> MAX_NUM_OPS_PER_COMPOUND < opcnt c + rename_need ([?p] ! n)" "n = 0 \<longrightarrow> opcnt c = 1"
      "n \<le> length [?p]" and c: "build_plain (rename_item some_env) [?p] () (h_cpd h1) = Some (n, (), c)"
    and v: "cr_rc (ok_reply (argoparray c)) = RPC_SUCCESS \<longrightarrow> tc_nfs4_renamev ok_server some_env [?p] (first_state ()) = Some (v, h') \<and>
        same_slots (first_state ()) h' \<and> reports ?T (rename_work ?T some_env) [?p] n (argoparray c) (ok_reply (argoparray c)) v"
    by blast
  have "n = 1" using n need by (cases n) (auto simp: MAX_NUM_OPS_PER_COMPOUND_def)
  moreover have "argoparray c \<noteq> []"
    using prepared_typed [OF prepared.renamev [OF _ c] fresh_typed] s by (auto simp: path_pair_def vfile_from_path_def)
  ultimately show ?thesis using v
    by (intro exI [of _ v] exI [of _ h']) (auto simp: ok_reply_def reports_def same_slots_def errno_ok)
qed

text \<open>Making symbolic links reports its work in the same way.\<close>

lemma symlinkv_done:
  assumes "answers R" "idle h" "vreset_compound True h = Some h1" "\<forall>p \<in> set pairs. symlink_good T E p"
  shows "\<exists>n c. build_plain (symlink_item E) pairs () (h_cpd h1) = Some (n, (), c) \<and> n \<le> length pairs \<and>
    (n < length pairs \<longrightarrow> MAX_NUM_OPS_PER_COMPOUND < opcnt c + symlink_need (pairs ! n)) \<and> (n = 0 \<longrightarrow> opcnt c = 1) \<and>
    (\<forall>rep w. call_loop R (argoparray c) (h_world h) = Some (rep, w) \<longrightarrow> cr_rc rep = RPC_SUCCESS \<longrightarrow>
      (\<exists>v h'. tc_nfs4_symlinkv R E pairs h = Some (v, h') \<and> same_slots h h' \<and> h_world h' = w \<and>
        reports T (symlink_work T E) pairs n (argoparray c) rep v))"
proof -
  have eq: "tc_nfs4_symlinkv R E pairs h = Some (v, h')"
    if "vec_call R (build_plain (symlink_item E) pairs ()) (count_op NFS4_OP_CREATE) no_mark h = Some (v, (), h')" for v h'
    by (simp add: tc_nfs4_symlinkv_def that)
  have "NFS4_OP_CREATE \<noteq> NFS4_OP_SEQUENCE" by simp
  from linking.counted [OF assms this, of "()"] eq show ?thesis unfolding after_def by meson
qed

text \<open>
  C11: every vectorised operation gives back the slot it took.  It takes a slot that no thread had, sends the
  compound it has built with the number of that slot and the slot's sequence number in its SEQUENCE, and however
  the call ends, in an error of the transport, in one of the server or well, afterwards the thread holds no
  slot and exactly the slots of other threads are in use; the sequence number of the slot taken has advanced by
  one if the server has accepted the SEQUENCE, and no other sequence number has changed.
\<close>

theorem vec_call_slot:
  assumes "answers R" "idle h"
    and "\<forall>h1 n a c. vreset_compound True h = Some h1 \<longrightarrow> build (h_cpd h1) = Some (n, a, c) \<longrightarrow> prepared E (h_cpd h1) len n (argoparray c)"
    and "vec_call R build step fail h = Some (v, a', h')"
  shows "same_slots h h' \<and>
    (\<exists>h1 n a c i hi ops rep. vreset_compound True h = Some h1 \<and> build (h_cpd h1) = Some (n, a, c) \<and>
      argoparray c = OpSequence (of_nat i) (get_slot_sequence (h_slots h) i) hi # ops \<and>
      i < SESSION_SLOT_TABLE_CAPACITY \<and> \<not> used (h_slots h) i \<and>
      call_loop R (argoparray c) (h_world h) = Some (rep, h_world h') \<and>
      (\<forall>j. get_slot_sequence (h_slots h') j =
        (if accepted rep \<and> j = i then get_slot_sequence (h_slots h) j + 1 else get_slot_sequence (h_slots h) j)))"
proof -
  obtain h1 n a c rc err res where h1: "vreset_compound True h = Some h1" and b: "build (h_cpd h1) = Some (n, a, c)"
    and e: "fs_compoundv4_execute R True (h1\<lparr>h_cpd := c\<rparr>) = Some (rc, err, res, h')"
    using assms(4) by (auto simp: vec_call_def split: bind_splits if_splits)
  obtain slot seq hi where f: "argoparray (h_cpd h1) = [OpSequence slot seq hi]" "tc_saved_path (h_cpd h1) = []"
    by (rule vreset_fresh [OF h1])
  have "prepared E (h_cpd h1) len n (argoparray c)" using assms(3) h1 b by blast
  then obtain ops where o: "argoparray c = argoparray (h_cpd h1) @ ops" using prepared_typed [OF _ fresh_typed [OF f]] by blast
  have "h_world h1 = h_world h" using vreset_idleE [OF assms(2) h1] by metis
  then obtain rep w where call: "call_loop R (argoparray c) (h_world h) = Some (rep, w)"
    using e f o by (auto simp: fs_compoundv4_execute_def split: bind_splits)
  from execute_slot [OF assms(1,2) h1 o call, of True] e obtain i hi where x: "same_slots h h'" "h_world h' = w"
    "argoparray c = OpSequence (of_nat i) (get_slot_sequence (h_slots h) i) hi # ops"
    "i < SESSION_SLOT_TABLE_CAPACITY" "\<not> used (h_slots h) i"
    "\<forall>j. get_slot_sequence (h_slots h') j =
      (if accepted rep \<and> j = i then get_slot_sequence (h_slots h) j + 1 else get_slot_sequence (h_slots h) j)"
    by (auto simp: Let_def)
  show ?thesis using x call h1 b
    by (intro conjI exI [of _ h1] exI [of _ n] exI [of _ a] exI [of _ c] exI [of _ i] exI [of _ hi] exI [of _ ops] exI [of _ rep]) simp_all
qed

theorem vec_call_slot_witness:
  "\<exists>v h'. vec_call ok_server (build_plain (rename_item some_env) [handle_pair] ()) (count_op NFS4_OP_RENAME) no_mark (first_state ()) = Some (v, (), h') \<and>
     same_slots (first_state ()) h' \<and>
     get_slot_sequence (h_slots h') 0 = get_slot_sequence (h_slots (first_state ())) 0 + 1"
proof -
  let ?b = "build_plain (rename_item some_env) [handle_pair] ()"
  obtain h1 where h1: "vreset_compound True (first_state ()) = Some h1"
    and s: "h_cpd h1 = \<lparr>argoparray = [OpSequence 0 1 0], tc_saved_path = []\<rparr>" using vreset_first [of "()"] by auto
  have b: "?b (h_cpd h1) = Some (1, (), \<lparr>argoparray = handle_pair_ops, tc_saved_path = []\<rparr>)" by (simp only: s handle_pair_built)
  have o: "argoparray \<lparr>argoparray = handle_pair_ops, tc_saved_path = []\<rparr> = argoparray (h_cpd h1) @ tl handle_pair_ops"
    by (simp add: s handle_pair_ops_def)
  have rc: "cr_rc (ok_reply handle_pair_ops) = RPC_SUCCESS" by (simp add: ok_reply_def handle_pair_ops_def)
  obtain v h' where v: "vec_call ok_server ?b (count_op NFS4_OP_RENAME) no_mark (first_state ()) = Some (v, (), h')"
    using vec_call_counted [where build = ?b and opn = NFS4_OP_RENAME, OF ok_server_answers first_idle h1 b o] rc
    by (auto simp: call_ok_server)
  have "prepared some_env (h_cpd h1) 1 1 handle_pair_ops"
    using prepared.renamev [OF _ b] by (simp add: handle_pair_def some_handle_def)
  then have "\<forall>h1 n a c. vreset_compound True (first_state ()) = Some h1 \<longrightarrow> ?b (h_cpd h1) = Some (n, a, c) \<longrightarrow>
      prepared some_env (h_cpd h1) 1 n (argoparray c)" using h1 b by auto
  from vec_call_slot [OF ok_server_answers first_idle this v] h1 b obtain i hi ops rep where x: "same_slots (first_state ()) h'"
    "handle_pair_ops = OpSequence (of_nat i) (get_slot_sequence (h_slots (first_state ())) i) hi # ops" "i < SESSION_SLOT_TABLE_CAPACITY"
    "call_loop ok_server handle_pair_ops () = Some (rep, ())"
    "\<forall>j. get_slot_sequence (h_slots h') j = (if accepted rep \<and> j = i
       then get_slot_sequence (h_slots (first_state ())) j + 1 else get_slot_sequence (h_slots (first_state ())) j)" by auto
  have "(of_nat i :: u32) = 0" using x(2) by (simp add: handle_pair_ops_def)
  then have "i = 0" using unat_slot [of i] x(3) by simp
  moreover have "accepted rep" using x(4) by (auto simp: call_ok_server accepted_def ok_reply_def ok_result_def handle_pair_ops_def)
  ultimately show ?thesis using v x(1,5) by auto
qed

end
