(* ===== verification/Compound_Faults.thy ===== *)
theory Compound_Faults
  imports Compound_Results
begin

text \<open>
  What the vectorised operations do where the code does not do what it means to: a write past the array of
  operations, a vector that is read from another file, a sequence number that is used twice, and links that
  cannot be made.
\<close>

section \<open>Setting attributes past the array\<close>

text \<open>An element on a descriptor takes three operations; the second one is appended without a check.\<close>

definition on_descriptor :: "vattrs \<Rightarrow> bool" where
  "on_descriptor a \<longleftrightarrow> vf_type (va_file a) = VFILE_DESCRIPTOR \<and> (\<exists>d. vf_ref (va_file a) = FdData d)"

lemma lsetattrs_descriptor:
  assumes "on_descriptor a" "vattrs_ok (he_fattr E) a"
  shows "opcnt c + 3 \<le> MAX_NUM_OPS_PER_COMPOUND \<Longrightarrow> \<exists>c'. lsetattrs_item E a c = Some (True, c') \<and> opcnt c' = opcnt c + 3"
    and "opcnt c + 1 = MAX_NUM_OPS_PER_COMPOUND \<Longrightarrow> lsetattrs_item E a c = None"
proof -
  obtain d where "vf_type (va_file a) = VFILE_DESCRIPTOR" "vf_ref (va_file a) = FdData d"
    using assms(1) by (auto simp: on_descriptor_def)
  moreover obtain f where "vattrs_to_fattr4 (he_fattr E) a zero_fattr4 = Some f"
    unfolding zero_fattr4_def by (rule vattrs_packed [OF assms(2)])
  ultimately show "opcnt c + 3 \<le> MAX_NUM_OPS_PER_COMPOUND \<Longrightarrow> \<exists>c'. lsetattrs_item E a c = Some (True, c') \<and> opcnt c' = opcnt c + 3"
    and "opcnt c + 1 = MAX_NUM_OPS_PER_COMPOUND \<Longrightarrow> lsetattrs_item E a c = None"
    by (simp_all add: lsetattrs_item_def with_name_def current_fh_def tc_set_current_fh_def single_defs prepare_def tc_has_enough_ops_def
        tc_prepare_lookups_def and_also_def tc_prepare_setattr_def add_op_def opcnt_def)
qed

lemma lsetattrs_loop_overrun:
  "\<forall>a \<in> set xs. on_descriptor a \<and> vattrs_ok (he_fattr E) a \<Longrightarrow> opcnt c + 3 * k + 1 = MAX_NUM_OPS_PER_COMPOUND \<Longrightarrow> k < length xs \<Longrightarrow>
    build_loop (plain (lsetattrs_item E)) i xs () c = None"
proof (induction k arbitrary: xs c i)
  case 0
  then obtain x ys where xs: "xs = x # ys" by (cases xs) auto
  have "lsetattrs_item E x c = None" by (rule lsetattrs_descriptor) (use 0 xs in auto)
  then have "plain (lsetattrs_item E) x () c = None" by (simp add: plain_def)
  then show ?case by (simp add: xs)
next
  case (Suc k)
  then obtain x ys where xs: "xs = x # ys" by (cases xs) auto
  obtain c' where c': "lsetattrs_item E x c = Some (True, c')" "opcnt c' = opcnt c + 3"
    using lsetattrs_descriptor(1) [of x E c] Suc.prems xs by auto
  have "plain (lsetattrs_item E) x () c = Some (True, (), c')" by (simp add: plain_def c')
  then show ?case using Suc.IH [of ys c' "Suc i"] Suc.prems c'(2) by (simp add: xs)
qed

text \<open>A file in the root directory is two operations away.\<close>

lemma root_file_ops:
  assumes "argoparray c = [OpSequence slot seq hi]" "tc_saved_path c = []"
  shows "current_fh E (vfile_from_path ''/f'') True c =
    Some (True, ''f'', c\<lparr>argoparray := [OpSequence slot seq hi, OpPutrootfh, OpSavefh], tc_saved_path := ''/''\<rparr>)"
proof -
  have sp: "split_leaf ''/f'' True = (''/'', ''f'')" "path_tokens ''/'' = [''/'']" by code_simp+
  show ?thesis using assms
    by (simp add: current_fh_def tc_set_current_fh_def vfile_from_path_def tc_set_cfh_to_path_def sp Let_def
        tc_compress_path_def tc_set_cfh_from_root_def compound_eval)
qed

lemma lsetattrs_root_file:
  assumes "va_file a = vfile_from_path ''/f''" "vattrs_ok (he_fattr E) a" "argoparray c = [OpSequence slot seq hi]" "tc_saved_path c = []"
  shows "\<exists>c'. lsetattrs_item E a c = Some (True, c') \<and> opcnt c' = 6"
proof -
  obtain f where f: "vattrs_to_fattr4 (he_fattr E) a zero_fattr4 = Some f"
    unfolding zero_fattr4_def by (rule vattrs_packed [OF assms(2)])
  show ?thesis using assms(3)
    by (simp add: lsetattrs_item_def f with_name_def assms(1) root_file_ops [OF assms(3,4)] and_also_def single_defs prepare_def
        tc_prepare_setattr_def compound_eval)
qed

section \<open>Reading another file\<close>

text \<open>What the server has read, and an example of a vector.\<close>

definition reads_of :: "(nfs_argop4 \<times> 'n list) list \<Rightarrow> (nfs_argop4 \<times> 'n list) list" where
  "reads_of = filter (\<lambda>e. argop (fst e) = NFS4_OP_READ)"

definition some_iov :: viovec where
  "some_iov =
     \<lparr>vi_file = vfile_from_path ''/f'', vi_offset = 0, vi_length = 10, vi_data = 0, vi_type = 0, vi_is_creation = False,
      vi_is_direct_io = False, vi_is_failure = False, vi_is_eof = False, vi_is_write_stable = False, vi_is_last_of_multiparts = False\<rparr>"

section \<open>A server that refuses\<close>

text \<open>It accepts the SEQUENCE and finds nothing after it.\<close>

definition refusal :: "nfs_argop4 list \<Rightarrow> clnt_reply" where
  "refusal ops =
     (case ops of
        x # y # _ \<Rightarrow>
          \<lparr>cr_rc = RPC_SUCCESS, cr_again = False, cr_status = NFS4ERR_NOENT,
           cr_res = [ok_result x, \<lparr>resop = argop y, res_status = NFS4ERR_NOENT, res_ok = ResNone\<rparr>]\<rparr>
      | _ \<Rightarrow> ok_reply ops)"

definition refusing_server :: "unit rpc_env" where
  "refusing_server = \<lparr>fs_compoundv4_call = (\<lambda>ops w. (refusal ops, w)), fs_rpc_need_sock = (\<lambda>w. w)\<rparr>"

lemma call_refusing_server: "call_loop refusing_server ops w = Some (refusal ops, w)"
  by (subst call_loop.simps)
    (simp add: refusing_server_def refusal_def ok_reply_def RPC_SUCCESS_def RPC_CANTSEND_def RPC_CANTRECV_def split: list.splits)

lemma refusing_server_answers: "answers refusing_server"
proof -
  have "answered (x # y # ops) (refusal (x # y # ops))" for x y ops
    using highest_up_to by (auto simp: answered_def refusal_def ok_result_def nfsstat4_to_errno_def)
  moreover have "answered ops rep" if "cr_rc (ok_reply ops) = RPC_SUCCESS" "rep = ok_reply ops" for ops rep
    using answersD [OF ok_server_answers call_ok_server, of ops] that by simp
  ultimately show ?thesis unfolding answers_def call_refusing_server by (auto simp: refusal_def split: list.splits)
qed

section \<open>Properties\<close>

text \<open>
  C39: setting attributes can write past the array of operations.  After one file of the root directory by its path,
  whose operations fill the compound to six, every descriptor takes three, and the compound of the
  84th is full before its SETATTR, which is appended without a check for room; the behaviour is then undefined,
  where the other operations stop at the last element that fits.
\<close>

theorem lsetattrsv_overrun:
  assumes "vreset_compound True h = Some h1" "va_file a = vfile_from_path ''/f''" "vattrs_ok (he_fattr E) a"
    and "\<forall>d \<in> set ds. on_descriptor d \<and> vattrs_ok (he_fattr E) d" "83 < length ds"
  shows "tc_nfs4_lsetattrsv R E (a # ds) h = None"
proof -
  obtain slot seq hi where f: "argoparray (h_cpd h1) = [OpSequence slot seq hi]" "tc_saved_path (h_cpd h1) = []"
    by (rule vreset_fresh [OF assms(1)])
  obtain c where c: "lsetattrs_item E a (h_cpd h1) = Some (True, c)" "opcnt c = 6"
    using lsetattrs_root_file [OF assms(2,3) f] by blast
  have "build_loop (plain (lsetattrs_item E)) 1 ds () c = None"
    by (rule lsetattrs_loop_overrun [OF assms(4) _ assms(5)]) (simp add: c(2) MAX_NUM_OPS_PER_COMPOUND_def)
  then have "build_plain (lsetattrs_item E) (a # ds) (a # ds) (h_cpd h1) = None"
    by (simp add: build_plain_def plain_def [of _ a] c(1))
  then show ?thesis by (simp add: tc_nfs4_lsetattrsv_def vec_call_def assms(1))
qed

theorem lsetattrsv_overrun_witness:
  "tc_nfs4_lsetattrsv ok_server some_env
     (some_vattrs\<lparr>va_file := vfile_from_path ''/f''\<rparr> #
      replicate 84 (some_vattrs\<lparr>va_file := \<lparr>vf_type = VFILE_DESCRIPTOR, vf_fd = 3, vf_ref = FdData 0\<rparr>\<rparr>)) (first_state ()) = None"
proof -
  obtain h1 where h1: "vreset_compound True (first_state ()) = Some h1" using vreset_first [of "()"] by auto
  have ok: "vattrs_ok (he_fattr some_env) (some_vattrs\<lparr>va_file := f\<rparr>)" for f
    using network_xdr_ok by (simp add: some_env_def vattrs_ok_def some_vattrs_def no_masks_def id_ok_def network_env_def)
  show ?thesis by (rule lsetattrsv_overrun [OF h1 _ ok]) (simp_all add: ok on_descriptor_def)
qed

text \<open>
  C40: a vector can be read from another file than the one it names.  Of three vectors, on a file by
  its path, on a descriptor, and on the path again, the third one is read from the
  descriptor's file: the PUTFH for the descriptor replaces the current file, and the path still counts as open.
  The final CLOSE is for the descriptor's file, too.
\<close>

theorem readv_other_file:
  assumes "t_child T (t_root T) ''f'' = Some n" "t_fh T (fr_fh4 (he_fds E d)) = Some m"
    and "vi_file u = vfile_from_path ''/f''" "vi_file v = \<lparr>vf_type = VFILE_DESCRIPTOR, vf_fd = k, vf_ref = FdData d\<rparr>"
    and "vi_file w = vfile_from_path ''/f''" "argoparray c = [OpSequence slot seq hi]" "tc_saved_path c = []"
  shows "\<exists>c' s. rw_build (read_item E) (\<lambda>f. f) None [u, v, w] () c = Some (3, (), c') \<and>
    srv_run T (argoparray c') srv_init = Some s \<and> map snd (reads_of (s_log s)) = [[n], [m], [m]] \<and>
    last (s_log s) = (OpClose 1 CURSID, [m])"
proof -
  have fl: "\<not> has_flag 0 O_CREAT" "\<not> has_flag 0 O_EXCL" by (simp_all add: has_flag_def)
  have ty: "vf_type (vfile_from_path ''/f'') = VFILE_PATH"
    and same: "tc_cmp_file (vfile_from_path ''/f'') (vfile_from_path ''/f'') = Some True"
    by (simp_all add: vfile_from_path_def tc_cmp_file_def vf_path_def)
  note defs = read_item_def rw_item_def sca_open_file_if_necessary_def with_name_def and_also_def single_defs prepare_def
    tc_prepare_open_def fl ty tc_prepare_rdwr_def compound_eval
  define o1 where "o1 = OpOpen \<lparr>oa_seqid = 0, oa_share_access = sca_open_flags_to_access 0, oa_share_deny = 0, oa_clientid = he_clientid E,
    oa_owner = tc_new_state_owner E 3, oa_openhow = OPEN4_NOCREATE, oa_file = ''f''\<rparr>"
  define r where "r i = OpRead CURSID (vi_offset i) (ucast (vi_length i))" for i :: viovec
  define r2 where "r2 = OpRead (fr_stateid (he_fds E d)) (if vi_offset v = TC_OFFSET_CUR then fr_cursor (he_fds E d) else vi_offset v) (ucast (vi_length v))"
  let ?g = "OpGetattr fs_bitmap_getattr" and ?p = "Some (vfile_from_path ''/f'')"
  let ?c1 = "c\<lparr>tc_saved_path := ''/'', argoparray := [OpSequence slot seq hi, OpPutrootfh, OpSavefh, o1, r u, ?g]\<rparr>"
  let ?c2 = "?c1\<lparr>argoparray := argoparray ?c1 @ [OpPutfh (fr_fh4 (he_fds E d)), r2, ?g]\<rparr>"
  let ?c3 = "?c2\<lparr>argoparray := argoparray ?c2 @ [r w, ?g]\<rparr>"
  have "read_item E u None c = Some (True, ?p, ?c1)" using assms(3) by (simp add: defs root_file_ops [OF assms(6,7)] o1_def r_def numeral_3_eq_3)
  moreover have "read_item E v ?p ?c1 = Some (True, ?p, ?c2)" using assms(4) by (simp add: defs r2_def)
  moreover have "read_item E w ?p ?c2 = Some (True, ?p, ?c3)" using assms(5) by (simp add: defs r_def same [simplified])
  moreover have "close_last ?p ?c3 = Some (?c3\<lparr>argoparray := argoparray ?c3 @ [OpClose 1 CURSID]\<rparr>)"
    by (simp add: close_last_def single_defs prepare_def compound_eval)
  ultimately have "rw_build (read_item E) (\<lambda>f. f) None [u, v, w] () c =
      Some (3, (), ?c3\<lparr>argoparray := argoparray ?c3 @ [OpClose 1 CURSID]\<rparr>)"
    by (simp add: rw_build_def)
  then show ?thesis using assms(1,2)
    by (auto simp: srv_init_def srv_enter_def srv_note_def o1_def r_def r2_def reads_of_def)
qed

theorem readv_other_file_witness:
  "\<exists>c' s. rw_build (read_item some_env) (\<lambda>f. f) None
       [viov2path some_iov ''/f'' 0 10 0, some_iov\<lparr>vi_file := \<lparr>vf_type = VFILE_DESCRIPTOR, vf_fd = 3, vf_ref = FdData 0\<rparr>\<rparr>,
        viov2path some_iov ''/f'' 10 10 0] ()
       \<lparr>argoparray = [OpSequence 0 1 0], tc_saved_path = []\<rparr> = Some (3, (), c') \<and>
     srv_run (path_tree [[''f'']] [''w'']) (argoparray c') srv_init = Some s \<and>
     map snd (reads_of (s_log s)) = [[[''f'']], [[''w'']], [[''w'']]] \<and> last (s_log s) = (OpClose 1 CURSID, [[''w'']])"
proof -
  let ?T = "path_tree [[''f'']] [''w'']"
  have n: "t_child ?T (t_root ?T) ''f'' = Some [''f'']" and m: "t_fh ?T (fr_fh4 (he_fds some_env 0)) = Some [''w'']"
    by (simp_all add: path_tree_def)
  show ?thesis by (rule readv_other_file [OF n m]) (simp_all add: viov2path_def viov2file_def)
qed

text \<open>
  C30: a change of directory that the server refuses uses a sequence number that the slot keeps.  Whatever operation of its
  compound fails, be it after a SEQUENCE that the server has accepted, the operation returns the error with no directory
  and gives back the slot, but no sequence number has changed: that of the slot is still the one this compound was sent with, so the
  next request in the slot has the number of this one, which by the protocol is a replay of it.
\<close>

theorem chdir_keeps_sequence:
  assumes "answers R" "idle h" "vreset_compound True h = Some h1"
    and "tc_prepare_getfh (snd (snd (tc_set_cfh_to_path (he_cwd E) path False True (h_cpd h1)))) = (ok, c)"
    and "call_loop R (argoparray c) (h_world h) = Some (rep, w)" "cr_rc rep = RPC_SUCCESS" "cr_status rep \<noteq> NFS4_OK"
  shows "\<exists>h'. tc_nfs4_chdir R E path h = Some (- cr_status rep, None, h') \<and> same_slots h h' \<and> h_world h' = w \<and>
    (\<forall>j. get_slot_sequence (h_slots h') j = get_slot_sequence (h_slots h) j) \<and>
    (\<exists>i hi ops. argoparray c = OpSequence (of_nat i) (get_slot_sequence (h_slots h') i) hi # ops \<and> \<not> used (h_slots h) i)"
proof -
  obtain r name c1 where c1: "tc_set_cfh_to_path (he_cwd E) path False True (h_cpd h1) = (r, name, c1)" by (metis prod_cases3)
  obtain slot seq hi where f: "argoparray (h_cpd h1) = [OpSequence slot seq hi]" "tc_saved_path (h_cpd h1) = []"
    by (rule vreset_fresh [OF assms(3)])
  obtain ops where o: "argoparray c = argoparray (h_cpd h1) @ ops"
    using tc_set_cfh_to_path_quietly [OF c1] assms(4) c1
    by (auto simp: quietly_def tc_prepare_getfh_def prepare_def add_op_def split: if_splits)
  obtain h2 where e: "fs_compoundv4_execute R False (h1\<lparr>h_cpd := c\<rparr>) = Some (cr_status rep, 0, cr_res rep, h2)" "same_slots h h2"
    "h_world h2 = w" "\<forall>j. get_slot_sequence (h_slots h2) j = get_slot_sequence (h_slots h) j"
    "\<exists>i hi ops. argoparray c = OpSequence (of_nat i) (get_slot_sequence (h_slots h) i) hi # ops \<and> \<not> used (h_slots h) i"
    using execute_slot [OF assms(1-3) o assms(5), of False] assms(6,7) by (auto simp: Let_def)
  then show ?thesis using assms(3,4,7) c1
    by (intro exI [of _ h2]) (simp add: tc_nfs4_chdir_def RPC_SUCCESS_def)
qed

theorem chdir_keeps_sequence_witness:
  "\<exists>h'. tc_nfs4_chdir refusing_server some_env ''/f'' (first_state ()) = Some (- NFS4ERR_NOENT, None, h') \<and> idle h' \<and>
     get_slot_sequence (h_slots h') 0 = get_slot_sequence (h_slots (first_state ())) 0"
proof -
  obtain h1 where h1: "vreset_compound True (first_state ()) = Some h1"
    and s: "h_cpd h1 = \<lparr>argoparray = [OpSequence 0 1 0], tc_saved_path = []\<rparr>" using vreset_first [of "()"] by auto
  have sp: "split_leaf ''/f'' False = (''/f'', [])" "path_tokens ''/f'' = [''/f'']" by code_simp+
  have c: "tc_prepare_getfh (snd (snd (tc_set_cfh_to_path (he_cwd some_env) ''/f'' False True (h_cpd h1)))) =
      (True, \<lparr>argoparray = [OpSequence 0 1 0, OpPutrootfh, OpLookup ''f'', OpSavefh, OpGetfh], tc_saved_path = ''/f''\<rparr>)"
    by (simp add: s tc_set_cfh_to_path_def sp Let_def tc_compress_path_def tc_set_cfh_from_root_def single_defs prepare_def compound_eval)
  show ?thesis
    using chdir_keeps_sequence [OF refusing_server_answers first_idle h1 c call_refusing_server]
    by (auto simp: refusal_def same_slots_def)
qed

text \<open>
  A link to a file in its own directory cannot be made from the third level on.  The path of the file is
  saved as if it were a directory, and the directory of the new name is reached from there by LOOKUPP, which
  no server does on a file.
\<close>

theorem hardlink_same_directory:
  assumes "tree_ok T" "walk T (t_root T) [''a'', ''b'', ''c'', ''f''] = Some n" "\<not> t_dir T n"
    and "argoparray c = [OpSequence slot seq hi]" "tc_saved_path c = []"
  shows "\<exists>c'. hardlink_item E (''/a/b/c/f'', ''/a/b/c/g'') c = Some (True, c') \<and> srv_run T (argoparray c') srv_init = None"
proof -
  have sp: "split_leaf ''/a/b/c/f'' False = (''/a/b/c/f'', [])" "split_leaf ''/a/b/c/g'' True = (''/a/b/c'', ''g'')"
    "path_tokens ''/a/b/c/f'' = [''/a'', ''b'', ''c'', ''f'']" "path_tokens ''/a/b/c'' = [''/a'', ''b'', ''c'']"
    "path_tokens ''..'' = [''..'']" "link_name ''/a/b/c/g'' = Some ''g''" by code_simp+
  have rb: "rebase_text ''/a/b/c/f'' ''/a/b/c'' = ''..''" by code_simp
  have r: "rebase_path ''/a/b/c/f'' ''/a/b/c'' = Some ''..''"
    using rebase_path_text [of "''/a/b/c/f''" "''/a/b/c''"] rb by (simp add: PATH_MAX_def)
  define ops where "ops = [OpSequence slot seq hi, OpPutrootfh, OpLookup ''a'', OpLookup ''b'', OpLookup ''c'', OpLookup ''f'', OpSavefh]"
  have f: "cfh_to_path E ''/a/b/c/f'' False True c = Some (True, [], c\<lparr>argoparray := ops, tc_saved_path := ''/a/b/c/f''\<rparr>)"
    using assms(4,5) by (simp add: cfh_to_path_def tc_set_cfh_to_path_def sp Let_def tc_compress_path_def
        tc_set_cfh_from_root_def compound_eval ops_def)
  have g: "cfh_to_path E ''/a/b/c/g'' True False (c\<lparr>argoparray := ops, tc_saved_path := ''/a/b/c/f''\<rparr>) =
      Some (True, ''g'', c\<lparr>argoparray := ops @ [OpLookupp], tc_saved_path := ''/a/b/c/f''\<rparr>)"
    by (simp add: cfh_to_path_def tc_set_cfh_to_path_def sp sp [simplified] Let_def tc_compress_path_def r [simplified] and_then_def
        tc_prepare_restorefh_def compound_eval ops_def)
  have "t_parent T n = None" using assms(1,3) by (simp add: tree_ok_def)
  then have "srv_run T (ops @ [OpLookupp] @ xs) srv_init = None" for xs
    using assms(2) by (auto simp: ops_def srv_init_def split: bind_splits)
  then have none: "srv_run T (argoparray (c\<lparr>argoparray := ops @ [OpLookupp, OpLink ''g''], tc_saved_path := x\<rparr>)) srv_init = None" for x
    by simp
  have len: "length ops = 7" by (simp add: ops_def)
  have "hardlink_item E (''/a/b/c/f'', ''/a/b/c/g'') c =
      Some (True, c\<lparr>argoparray := ops @ [OpLookupp, OpLink ''g''], tc_saved_path := ''/a/b/c/f''\<rparr>)"
    unfolding hardlink_item_def fst_conv snd_conv f g with_name_def sp
    by (simp add: g [simplified] single_defs prepare_def compound_eval len)
  with none show ?thesis by blast
qed

theorem hardlink_same_directory_witness:
  "\<exists>c'. hardlink_item some_env (''/a/b/c/f'', ''/a/b/c/g'') \<lparr>argoparray = [OpSequence 0 1 0], tc_saved_path = []\<rparr> = Some (True, c') \<and>
     srv_run (path_tree [[''a'', ''b'', ''c'', ''f'']] [''w'']) (argoparray c') srv_init = None"
proof -
  let ?T = "path_tree [[''a'', ''b'', ''c'', ''f'']] [''w'']"
  have "walk ?T (t_root ?T) [''a'', ''b'', ''c'', ''f''] = Some [''a'', ''b'', ''c'', ''f'']"
    "\<not> t_dir ?T [''a'', ''b'', ''c'', ''f'']" by (simp_all add: path_tree_def)
  from hardlink_same_directory [OF path_tree_ok this] show ?thesis by simp
qed

end
