(* ===== verification/Compound_Batches.thy ===== *)
theory Compound_Batches
  imports Compound_Results
begin

text \<open>
  From the client's interface to the server: the loops of \<^verbatim>\<open>nfs4/tc_impl_nfs4.c\<close> around the vectorised operations of
  \<^verbatim>\<open>nfs4/handle.c\<close>.  Where theory \<open>Nfs4_Backend\<close> has the operations as parameters, here they are those of theory
  \<open>Compound_Ops\<close>.
\<close>

section \<open>A server that keeps a log\<close>

text \<open>
  A server that answers by the protocol over a transport that does not fail, does not take away slots, and whose
  log, of the operations that do not just move from file to file, grows by those it has done.
\<close>

definition steady :: "'n tree \<Rightarrow> ('w \<Rightarrow> (nfs_argop4 \<times> 'n list) list) \<Rightarrow> 'w rpc_env \<Rightarrow> bool" where
  "steady T log R \<longleftrightarrow> answers R \<and>
     (\<forall>slot seq hi ops w. \<exists>rep w'. call_loop R (OpSequence slot seq hi # ops) w = Some (rep, w') \<and> cr_rc rep = RPC_SUCCESS \<and>
        (accepted rep \<longrightarrow> 127 \<le> new_target rep) \<and>
        (\<forall>s. srv_run T (take (done_ops rep) (OpSequence slot seq hi # ops)) srv_init = Some s \<longrightarrow> log w' = log w @ s_log s))"

text \<open>The error of a result is that of one of the server's replies.\<close>

definition told :: "'w rpc_env \<Rightarrow> vres \<Rightarrow> bool" where
  "told R v \<longleftrightarrow> (\<exists>ops w rep w'. call_loop R ops w = Some (rep, w') \<and> vr_err_no v = the (nfsstat4_to_errno (cr_status rep)))"

text \<open>A thread that can go on: it holds no slot, and there is one for it.\<close>

definition ready :: "'w hstate \<Rightarrow> bool" where
  "ready h \<longleftrightarrow> idle h \<and> 127 \<le> target_highest_slotid (h_slots h) \<and> (\<exists>i < SESSION_SLOT_TABLE_CAPACITY. \<not> used (h_slots h) i)"

lemma ready_vreset:
  assumes "ready h"
  shows "\<exists>h1. vreset_compound True h = Some h1"
proof -
  obtain i where i: "i < SESSION_SLOT_TABLE_CAPACITY" "\<not> used (h_slots h) i" and t: "127 \<le> target_highest_slotid (h_slots h)"
    and inv: "slots_inv (h_slots h)" "\<not> slot_allocated h" using assms by (auto simp: ready_def idle_def)
  have "(of_nat i :: u32) \<le> 127" using i(1) unat_slot [of i] by (simp add: word_le_nat_alt SESSION_SLOT_TABLE_CAPACITY_def)
  then have "of_nat i \<le> target_highest_slotid (h_slots h)" using t by (rule order_trans)
  then have "alloc_session_slot (h_slots h) \<noteq> None" using alloc_session_slot_blocks [OF inv(1)] i by blast
  then show ?thesis using inv(2) by (auto simp: vreset_compound_def Let_def)
qed

lemma ready_after:
  assumes "ready h" "after rep w h h'" "accepted rep \<longrightarrow> 127 \<le> new_target rep"
  shows "ready h'"
  using assms by (auto simp: ready_def after_def same_slots_def)

lemma errno_zero: "nfsstat4_to_errno n = Some 0 \<longleftrightarrow> n = NFS4_OK"
  by (simp add: nfsstat4_to_errno_def)

section \<open>The loop of the batches\<close>

lemma vec_loop_const:
  assumes "rest \<noteq> []" "op rest h = (v, h')"
  shows "vec_loop (const_arg op) tcres fin rest h =
    (if \<not> vokay v then Some (v\<lparr>vr_index := vr_index v + int (length fin)\<rparr>, fin @ rest, h')
     else if vr_index v < 0 then None
     else vec_loop (const_arg op) v (fin @ take (nat (vr_index v)) rest) (drop (nat (vr_index v)) rest) h')"
  using assms by (subst vec_loop.simps) (simp add: const_arg_def)

context logged_items
begin

lemma built_starts:
  assumes "vreset_compound True h = Some h1" "\<forall>x \<in> set xs. good x" "build_plain item xs a (h_cpd h1) = Some (n, a, c)"
  shows "\<exists>slot seq hi ops. argoparray c = OpSequence slot seq hi # ops"
proof -
  obtain slot seq hi where f: "argoparray (h_cpd h1) = [OpSequence slot seq hi]" "tc_saved_path (h_cpd h1) = []"
    by (rule vreset_fresh [OF assms(1)])
  then have "built T (h_cpd h1) srv_init" by (simp add: built_def)
  from built_loop [OF assms(2) this, of 0] obtain m c' ops where "build_loop (plain item) 0 xs () (h_cpd h1) = Some (m, (), c')"
    "argoparray c' = argoparray (h_cpd h1) @ ops" by auto
  then show ?thesis using assms(3) f by (auto simp: build_plain_def)
qed

text \<open>One call does the work of the elements before its index, and of at least one if there is no error.\<close>

lemma one_batch:
  assumes R: "steady T log R" and h: "ready h" and g: "\<forall>x \<in> set xs. good x \<and> need x < MAX_NUM_OPS_PER_COMPOUND"
    and opn: "opn \<noteq> NFS4_OP_SEQUENCE"
  shows "\<exists>v h'. vec_call R (build_plain item xs a) (count_op opn) no_mark h = Some (v, a, h') \<and> ready h' \<and>
    0 \<le> vr_index v \<and> nat (vr_index v) \<le> length xs \<and> (vokay v \<longrightarrow> xs \<noteq> [] \<longrightarrow> 0 < vr_index v) \<and> told R v \<and>
    log (h_world h') = log (h_world h) @ map work (take (nat (vr_index v)) xs)"
proof -
  obtain h1 where h1: "vreset_compound True h = Some h1" using ready_vreset [OF h] by blast
  have a: "answers R" "idle h" "\<forall>x \<in> set xs. good x" using R h g by (auto simp: steady_def ready_def)
  from counted [OF a(1,2) h1 a(3) opn, of a] obtain n c where n: "build_plain item xs a (h_cpd h1) = Some (n, a, c)" "n \<le> length xs"
      "n < length xs \<longrightarrow> MAX_NUM_OPS_PER_COMPOUND < opcnt c + need (xs ! n)" "n = 0 \<longrightarrow> opcnt c = 1"
    and call: "\<forall>rep w. call_loop R (argoparray c) (h_world h) = Some (rep, w) \<longrightarrow> cr_rc rep = RPC_SUCCESS \<longrightarrow>
      (\<exists>v h'. vec_call R (build_plain item xs a) (count_op opn) no_mark h = Some (v, a, h') \<and> after rep w h h' \<and>
        reports T work xs n (argoparray c) rep v)" by blast
  from built_starts [OF h1 a(3) n(1)] obtain slot seq hi ops where "argoparray c = OpSequence slot seq hi # ops" by blast
  then obtain rep w where r: "call_loop R (argoparray c) (h_world h) = Some (rep, w)" "cr_rc rep = RPC_SUCCESS"
      "accepted rep \<longrightarrow> 127 \<le> new_target rep"
      "\<forall>s. srv_run T (take (done_ops rep) (argoparray c)) srv_init = Some s \<longrightarrow> log w = log (h_world h) @ s_log s"
    using R unfolding steady_def by metis
  from call r(1,2) obtain v h' where v: "vec_call R (build_plain item xs a) (count_op opn) no_mark h = Some (v, a, h')"
    "after rep w h h'" "reports T work xs n (argoparray c) rep v" by blast
  have "nfsstat4_to_errno (cr_status rep) \<noteq> None" using answersD [OF a(1) r(1,2)] by (simp add: answered_def)
  then have "vokay v \<longrightarrow> cr_status rep = NFS4_OK" using v(3) errno_zero [of "cr_status rep"] by (auto simp: reports_def vokay_def)
  moreover have "0 < n" if "xs \<noteq> []"
  proof (rule ccontr)
    assume "\<not> 0 < n"
    then have "n = 0" by simp
    moreover have "need (xs ! 0) < MAX_NUM_OPS_PER_COMPOUND" using g that nth_mem [of 0 xs] by simp
    ultimately show False using that n(3,4) by simp
  qed
  ultimately have "vokay v \<longrightarrow> xs \<noteq> [] \<longrightarrow> 0 < vr_index v" using v(3) by (auto simp: reports_def)
  moreover have "told R v" using v(3) r(1) unfolding told_def reports_def by blast
  ultimately show ?thesis using v r(4) n(2) ready_after [OF h v(2) r(3)] by (auto simp: reports_def after_def)
qed

lemma batches:
  assumes R: "steady T log R" and opn: "opn \<noteq> NFS4_OP_SEQUENCE"
    and op: "\<And>xs h v h'. vec_call R (build_plain item xs ()) (count_op opn) no_mark h = Some (v, (), h') \<Longrightarrow> op xs h = (v, h')"
    and "ready h" "\<forall>x \<in> set rest. good x \<and> need x < MAX_NUM_OPS_PER_COMPOUND" "rest = [] \<longrightarrow> vokay tcres \<and> told R tcres"
  shows "\<exists>v h' k. vec_loop (const_arg op) tcres fin rest h = Some (v, fin @ rest, h') \<and> ready h' \<and> k \<le> length rest \<and>
    log (h_world h') = log (h_world h) @ map work (take k rest) \<and>
    (if vokay v then k = length rest else vr_index v = int (length fin + k)) \<and> told R v"
  using assms(4-)
proof (induction "length rest" arbitrary: rest h tcres fin rule: less_induct)
  case less
  show ?case
  proof (cases "rest = []")
    case True
    then show ?thesis using less.prems by (intro exI [of _ tcres] exI [of _ h] exI [of _ 0]) simp
  next
    case False
    from one_batch [OF R less.prems(1,2) opn, of "()"] obtain v h' where v:
      "vec_call R (build_plain item rest ()) (count_op opn) no_mark h = Some (v, (), h')" "ready h'" "0 \<le> vr_index v" "nat (vr_index v) \<le> length rest"
      "vokay v \<longrightarrow> 0 < vr_index v" "told R v" "log (h_world h') = log (h_world h) @ map work (take (nat (vr_index v)) rest)" using False by blast
    define k where "k = nat (vr_index v)"
    note loop = vec_loop_const [of rest op h v h' tcres fin, OF False op [OF v(1)], folded k_def]
    show ?thesis
    proof (cases "vokay v")
      case True
      then have "length (drop k rest) < length rest" using v(5) False by (simp add: k_def)
      moreover have "\<forall>x \<in> set (drop k rest). good x \<and> need x < MAX_NUM_OPS_PER_COMPOUND" using less.prems(2) by (auto dest: in_set_dropD)
      ultimately obtain v2 h2 m where m: "vec_loop (const_arg op) v (fin @ take k rest) (drop k rest) h' =
          Some (v2, (fin @ take k rest) @ drop k rest, h2)" "ready h2" "m \<le> length (drop k rest)"
        "log (h_world h2) = log (h_world h') @ map work (take m (drop k rest))"
        "if vokay v2 then m = length (drop k rest) else vr_index v2 = int (length (fin @ take k rest) + m)" "told R v2"
        using less.hyps [of "drop k rest" h' v "fin @ take k rest"] v(2,6) True by blast
      have "take (k + m) rest = take k rest @ take m (drop k rest)" by (rule take_add)
      then show ?thesis using m v(3,4,7) True loop
        by (intro exI [of _ v2] exI [of _ h2] exI [of _ "k + m"]) (auto simp: k_def split: if_splits)
    next
      case bad: False
      then show ?thesis using v loop
        by (intro exI [of _ "v\<lparr>vr_index := vr_index v + int (length fin)\<rparr>"] exI [of _ h'] exI [of _ k]) (simp add: k_def vokay_def told_def)
    qed
  qed
qed

end

section \<open>Renaming\<close>

text \<open>The operations of the environment are those of \<^verbatim>\<open>nfs4/handle.c\<close>.\<close>

definition renamev_op :: "'w rpc_env \<Rightarrow> handle_env \<Rightarrow> vfile_pair list \<Rightarrow> 'w hstate \<Rightarrow> vres \<times> 'w hstate" where
  "renamev_op R E pairs h = the (tc_nfs4_renamev R E pairs h)"

definition symlinkv_op :: "'w rpc_env \<Rightarrow> handle_env \<Rightarrow> (string \<times> string) list \<Rightarrow> 'w hstate \<Rightarrow> vres \<times> 'w hstate" where
  "symlinkv_op R E pairs h = the (tc_nfs4_symlinkv R E pairs h)"

lemma renamev_op_eq:
  "vec_call R (build_plain (rename_item E) xs ()) (count_op NFS4_OP_RENAME) no_mark h = Some (v, (), h') \<Longrightarrow> renamev_op R E xs h = (v, h')"
  by (simp add: renamev_op_def tc_nfs4_renamev_def)

lemma symlinkv_op_eq:
  "vec_call R (build_plain (symlink_item E) xs ()) (count_op NFS4_OP_CREATE) no_mark h = Some (v, (), h') \<Longrightarrow> symlinkv_op R E xs h = (v, h')"
  by (simp add: symlinkv_op_def tc_nfs4_symlinkv_def)

text \<open>Making symbolic links in batches.\<close>

lemma nfs4_symlinkv_done:
  assumes "steady T log R" "ready h" "pairs \<noteq> []" "\<forall>p \<in> set pairs. symlink_good T E p \<and> symlink_need p < MAX_NUM_OPS_PER_COMPOUND"
    "op_vec_symlink env = symlinkv_op R E"
  shows "\<exists>v h' k. nfs4_symlinkv env pairs h = Some (v, pairs, h') \<and> ready h' \<and> k \<le> length pairs \<and>
    log (h_world h') = log (h_world h) @ map (symlink_work T E) (take k pairs) \<and>
    (if vokay v then k = length pairs else vr_index v = int k) \<and> told R v"
  using linking.batches [where op = "symlinkv_op R E" and tcres = "junk env" and fin = "[]", OF assms(1) _ symlinkv_op_eq assms(2,4)] assms(3,5)
  by (simp add: nfs4_symlinkv_def cong: if_cong split del: if_split)

section \<open>What a call does to the vectors\<close>

text \<open>
  Whatever the server answers, reading and writing change nothing in a vector but its length and its marks.  This is
  the part of \<open>replied\<close>, which theory \<open>Nfs4_Backend\<close> demands of the calls for the parts, that does not depend on the server; the
  lengths and the end of the file are the server's.
\<close>

definition kept :: "viovec \<Rightarrow> viovec \<Rightarrow> bool" where
  "kept v v' \<longleftrightarrow> (\<exists>n e f s. v' = v\<lparr>vi_length := n, vi_is_eof := e, vi_is_failure := f, vi_is_write_stable := s\<rparr>)"

lemma kept_refl [simp]: "kept v v"
  unfolding kept_def by (intro exI [of _ "vi_length v"] exI [of _ "vi_is_eof v"] exI [of _ "vi_is_failure v"] exI [of _ "vi_is_write_stable v"]) simp

lemma kept_update:
  "kept v w \<Longrightarrow> kept v (w\<lparr>vi_length := n, vi_is_eof := e\<rparr>)"
  "kept v w \<Longrightarrow> kept v (w\<lparr>vi_length := n, vi_is_write_stable := s\<rparr>)"
  "kept v w \<Longrightarrow> kept v (w\<lparr>vi_is_failure := f\<rparr>)"
  unfolding kept_def by (cases v; cases w; fastforce)+

lemma kept_at:
  assumes "update_at i f ws = Some ws'" "list_all2 kept vs ws" "\<And>v w w'. kept v w \<Longrightarrow> f w = Some w' \<Longrightarrow> kept v w'"
  shows "list_all2 kept vs ws'"
  using assms(1,2) assms(3) [of "vs ! i" "ws ! i"] by (auto simp: update_at_def list_all2_conv_all_nth nth_list_update split: if_splits)

lemma kept_steps:
  "read_step E n r i a = Some (i', a') \<Longrightarrow> list_all2 kept vs (rw_iovs a) \<Longrightarrow> list_all2 kept vs (rw_iovs a')"
  "write_step E n r i a = Some (i', a') \<Longrightarrow> list_all2 kept vs (rw_iovs a) \<Longrightarrow> list_all2 kept vs (rw_iovs a')"
  "read_write_step E n r i a = Some (i', a') \<Longrightarrow> list_all2 kept vs (rw_iovs a) \<Longrightarrow> list_all2 kept vs (rw_iovs a')"
  "mark_failed i a = Some a' \<Longrightarrow> list_all2 kept vs (rw_iovs a) \<Longrightarrow> list_all2 kept vs (rw_iovs a')"
  by (auto simp: read_step_def write_step_def read_write_step_def mark_failed_def old_or_new_def got_read_def got_write_def Let_def kept_update
      elim!: kept_at split: nfs_opnum4.splits resok.splits if_splits)

lemma kept_fill:
  assumes "fill_results step mark_failed n res i a = Some (f, a')" "list_all2 kept vs (rw_iovs a)"
    "\<And>r i a i' a'. step r i a = Some (i', a') \<Longrightarrow> list_all2 kept vs (rw_iovs a) \<Longrightarrow> list_all2 kept vs (rw_iovs a')"
  shows "list_all2 kept vs (rw_iovs a')"
  using assms(1,2)
proof (induction n arbitrary: res i a)
  case (Suc n)
  then obtain r res' where r: "res = r # res'" by (cases res) auto
  show ?case
  proof (cases "get_nfs4_op_status r = NFS4_OK")
    case True
    then obtain i1 a1 where "step r i a = Some (i1, a1)" "fill_results step mark_failed n res' i1 a1 = Some (f, a')"
      using Suc.prems(1) by (auto simp: r Let_def split: bind_splits)
    then show ?thesis using Suc.IH assms(3) Suc.prems(2) by blast
  next
    case False
    then show ?thesis using Suc.prems kept_steps(4) [of i a a' vs] by (auto simp: r Let_def)
  qed
qed simp

lemma rw_call_keeps:
  assumes "vec_call R (rw_build item fl s0 iovs (rw_arrays_of iovs old new)) step mark_failed h = Some (v, a, h')"
    "\<And>n r i a i' a'. step n r i a = Some (i', a') \<Longrightarrow> list_all2 kept iovs (rw_iovs a) \<Longrightarrow> list_all2 kept iovs (rw_iovs a')"
  shows "list_all2 kept iovs (rw_iovs a)"
proof -
  have start: "list_all2 kept iovs (rw_iovs (rw_arrays_of iovs old new))" by (simp add: rw_arrays_of_def list_all2_same)
  consider "a = rw_arrays_of iovs old new"
    | n c res f where "fill_results (step n) mark_failed c res 0 (rw_arrays_of iovs old new) = Some (f, a)"
    using assms(1) by (auto simp: vec_call_def rw_build_def split: bind_splits if_splits)
  then show ?thesis
  proof cases
    case 1
    then show ?thesis using start by simp
  next
    case (2 n c res f)
    then show ?thesis using kept_fill [OF 2 start] assms(2) [of n] by blast
  qed
qed

lemma tc_nfs4_readv_keeps:
  "tc_nfs4_readv R E iovs attrs h = Some (v, a, h') \<Longrightarrow> list_all2 kept iovs (rw_iovs a)"
  unfolding tc_nfs4_readv_def by (erule rw_call_keeps) (rule kept_steps(1))

lemma tc_nfs4_writev_keeps:
  "tc_nfs4_writev R E iovs old new h = Some (v, a, h') \<Longrightarrow> list_all2 kept iovs (rw_iovs a)"
  unfolding tc_nfs4_writev_def by (erule rw_call_keeps) (rule kept_steps(2))

lemma tc_nfs4_read_writev_keeps:
  "tc_nfs4_read_writev R E iovs old new h = Some (v, a, h') \<Longrightarrow> list_all2 kept iovs (rw_iovs a)"
  unfolding tc_nfs4_read_writev_def by (erule rw_call_keeps) (rule kept_steps(3))

section \<open>A log for examples\<close>

definition logging_server :: "'n tree \<Rightarrow> (nfs_argop4 \<times> 'n list) list rpc_env" where
  "logging_server T =
     \<lparr>fs_compoundv4_call = (\<lambda>ops w. (ok_reply ops, w @ (case srv_run T ops srv_init of Some s \<Rightarrow> s_log s | None \<Rightarrow> []))),
      fs_rpc_need_sock = (\<lambda>w. w)\<rparr>"

lemma call_logging_server:
  "call_loop (logging_server T) ops w = Some (ok_reply ops, w @ (case srv_run T ops srv_init of Some s \<Rightarrow> s_log s | None \<Rightarrow> []))"
  by (subst call_loop.simps) (simp add: logging_server_def ok_reply_def RPC_SUCCESS_def RPC_CANTSEND_def RPC_CANTRECV_def)

lemma logging_server_steady: "steady T (\<lambda>w. w) (logging_server T)"
proof -
  have "answers (logging_server T)"
    using answersD [OF ok_server_answers call_ok_server] unfolding answers_def call_logging_server by auto
  moreover have "127 \<le> new_target (ok_reply (OpSequence slot seq hi # ops))" for slot seq hi ops
    by (simp add: new_target_def ok_reply_def ok_result_def)
  ultimately show ?thesis by (auto simp: steady_def call_logging_server ok_reply_def done_ops_def)
qed

lemma first_world: "h_world (first_state w) = w"
  by (simp add: first_state_def)

lemma first_ready: "ready (first_state w)"
  using first_idle [of w]
  by (auto simp: ready_def first_state_def new_session_slot_table_def used_def SESSION_SLOT_TABLE_CAPACITY_def
      bs_get_set_all new_bitset_def intro!: exI [of _ 0])

lemma example_dirs:
  "dir_of (path_tree [] [''w'']) example_cwd ''/a/x'' = Some [''a'']"
  "dir_of (path_tree [] [''w'']) example_cwd ''/a/y'' = Some [''a'']"
  "dir_of (path_tree [] [''w'']) example_cwd ''/a/z'' = Some [''a'']"
proof -
  have "names ''/a'' = [''a'']" "split_leaf ''/a/x'' True = (''/a'', ''x'')" "split_leaf ''/a/y'' True = (''/a'', ''y'')"
    "split_leaf ''/a/z'' True = (''/a'', ''z'')" by code_simp+
  then show "dir_of (path_tree [] [''w'']) example_cwd ''/a/x'' = Some [''a'']"
    "dir_of (path_tree [] [''w'']) example_cwd ''/a/y'' = Some [''a'']"
    "dir_of (path_tree [] [''w'']) example_cwd ''/a/z'' = Some [''a'']"
    by (simp_all add: dir_of_def path_fits_def is_abs_def PATH_MAX_def path_at_def path_tree_def)
qed

lemma example_leaves: "leaf_of ''/a/x'' = ''x''" "leaf_of ''/a/y'' = ''y''" "leaf_of ''/a/z'' = ''z''"
  by code_simp+

lemma example_needs:
  "rename_need (path_pair ''/a/x'' ''/a/y'') < MAX_NUM_OPS_PER_COMPOUND"
  "rename_need (path_pair ''/a/y'' ''/a/z'') < MAX_NUM_OPS_PER_COMPOUND"
  by code_simp+

section \<open>Properties\<close>

text \<open>
  C15: renaming any number of pairs of paths, from the client's interface down to the server.  With the
  vectorised operation of \<^verbatim>\<open>nfs4/handle.c\<close> in the loop of \<^verbatim>\<open>nfs4/tc_impl_nfs4.c\<close>, a server that answers by the protocol
  over a transport that does not fail, a free slot, and pairs of which each fits a compound of its own,
  the operation returns; the log of the server has grown by exactly the renamings of the first \<open>k\<close> pairs, in order and
  each in the directories the paths name in a tree that is not changed meanwhile; without an error these are all pairs, and with one the index of the
  result is \<open>k\<close> and the error that of a reply of the server.  The thread holds no slot afterwards.
\<close>

theorem nfs4_renamev_done:
  assumes "steady T log R" "ready h" "pairs \<noteq> []" "\<forall>p \<in> set pairs. rename_good T E p \<and> rename_need p < MAX_NUM_OPS_PER_COMPOUND"
    "op_vec_rename env = renamev_op R E"
  shows "\<exists>v h' k. nfs4_renamev env pairs h = Some (v, pairs, h') \<and> ready h' \<and> k \<le> length pairs \<and>
    log (h_world h') = log (h_world h) @ map (rename_work T E) (take k pairs) \<and>
    (if vokay v then k = length pairs else vr_index v = int k) \<and> told R v"
  using renaming.batches [where op = "renamev_op R E" and tcres = "junk env" and fin = "[]", OF assms(1) _ renamev_op_eq assms(2,4)] assms(3,5)
  by (simp add: nfs4_renamev_def cong: if_cong split del: if_split)

theorem nfs4_renamev_done_witness:
  "\<exists>env v h'. nfs4_renamev env [path_pair ''/a/x'' ''/a/y'', path_pair ''/a/y'' ''/a/z''] (first_state []) =
      Some (v, [path_pair ''/a/x'' ''/a/y'', path_pair ''/a/y'' ''/a/z''], h') \<and>
     h_world h' = [(OpRename ''x'' ''y'', [[''a''], [''a'']]), (OpRename ''y'' ''z'', [[''a''], [''a'']])]"
proof -
  let ?T = "path_tree [] [''w'']" and ?ps = "[path_pair ''/a/x'' ''/a/y'', path_pair ''/a/y'' ''/a/z'']"
  let ?R = "logging_server ?T"
  let ?env = "(undefined :: (nfs_argop4 \<times> string list list) list hstate nfs4_env)\<lparr>op_vec_rename := renamev_op ?R some_env\<rparr>"
  have g: "\<forall>p \<in> set ?ps. rename_good ?T some_env p \<and> rename_need p < MAX_NUM_OPS_PER_COMPOUND"
    using path_tree_ok [of "[]" "[''w'']"] example_cwd_ok [of "[]"] example_dirs example_needs
    by (auto simp: rename_good_def some_env_def)
  from nfs4_renamev_done [OF logging_server_steady first_ready [of "[]"] _ g, of ?env, unfolded first_world append_Nil]
  obtain v h' k where r: "nfs4_renamev ?env ?ps (first_state []) = Some (v, ?ps, h')"
      "h_world h' = map (rename_work ?T some_env) (take k ?ps)" "if vokay v then k = length ?ps else vr_index v = int k" "told ?R v"
    by auto
  have "vokay v" using r(4) by (auto simp: told_def call_logging_server ok_reply_def vokay_def errno_ok)
  then have "h_world h' = map (rename_work ?T some_env) ?ps" using r(2,3) by simp
  also have "\<dots> = [(OpRename ''x'' ''y'', [[''a''], [''a'']]), (OpRename ''y'' ''z'', [[''a''], [''a'']])]"
    by (simp add: rename_work_def pair_path_def path_pair_def vfile_from_path_def vf_path_def Let_def some_env_def example_dirs example_leaves)
  finally show ?thesis using r(1) by blast
qed

end
