(* ===== verification/Spec2Isabelle.thy ===== *)
theory Spec2Isabelle
  imports Path_Utils Session_Slots Tc_Api Iovec_Utils Error_Codes Lock_List Lock_Manager Fd_Table Nfs4_Backend Compound_Path
    Utf8_Names Attr_Convert Compound_Faults Compound_Batches
begin

text \<open>
  A verification of the vNFS client library: a C and C++ library that sends vectors of file operations
  to an NFSv4.1 server in few compound requests.  Paths below are relative to \<^verbatim>\<open>src/tc_client\<close>.

  \<^bold>\<open>The parts of the program and how they interact.\<close>  A program calls the client interface
  (\<^verbatim>\<open>include/tc_api.h\<close>) with arrays of files, I/O vectors and attributes.  The back end
  (\<^verbatim>\<open>nfs4/tc_impl_nfs4.c\<close>) keeps a table of open files (\<^verbatim>\<open>nfs4/nfs4_util.c\<close>), splits large vectors
  (\<^verbatim>\<open>util/iovec_utils.cpp\<close>) and passes the rest to \<^verbatim>\<open>nfs4/handle.c\<close>, which fills an array of protocol
  operations: it leads the server to each file (with the path routines of \<^verbatim>\<open>util/path_utils.cpp\<close> over the
  slices and buffers of \<^verbatim>\<open>include/common_types.h\<close>), adds the operation, packs attributes and
  sends the compound on a session slot (\<^verbatim>\<open>nfs4/session_slots.c\<close>).  The library contains parts of
  the server it was derived from: the attribute codec and the checks of names
  (\<^verbatim>\<open>Protocols/NFS/nfs_proto_tools.c\<close>), the lock manager (\<^verbatim>\<open>SAL/state_lock.c\<close>), and the status codes of the
  layers with their conversions.

  \<^bold>\<open>The theories.\<close>
  \<^item> \<open>Prelude\<close>: machine words, C conversions, a flat byte memory, the functions of the C library, and the
    collections of simplification rules.
  \<^item> \<open>Common_Types\<close>: slices, append buffers and bit sets (\<^verbatim>\<open>include/common_types.h\<close>); the locale \<open>bit_set\<close> is
    the interface of the bit sets.
  \<^item> \<open>Path_Spec\<close>, \<open>Path_Utils\<close>: the meaning of paths on lists of names, and the routines of
    \<^verbatim>\<open>util/path_utils.cpp\<close> on memory.  Normalising, joining and rebasing write what the specification
    says, stay inside their buffers and terminate their strings; the distance is a metric.
  \<^item> \<open>Session_Slots\<close>: the slot table under its mutex and the interleaving of threads as a step relation.  A slot has
    at most one holder, and sequence numbers count the requests sent on a slot; both assertions of the release are kept.
  \<^item> \<open>Tc_Api\<close>: files, vectors and attributes of the interface (\<^verbatim>\<open>include/tc_api.h\<close>,
    \<^verbatim>\<open>support/tc_helper.c\<close>); conversions of attributes are inverse.
  \<^item> \<open>Iovec_Utils\<close>: splitting vectors under a size limit and restoring the results.  The splitting loop has fuel; three
    rounds for each vector and one for each compound its data fills are proved to be enough where the limit leaves more than a page,
    and a smaller limit is proved to give an endless loop.
  \<^item> \<open>Error_Codes\<close>: the status enumerations and every conversion between them.
  \<^item> \<open>Lock_List\<close>, \<open>Lock_Manager\<close>: byte-range locks.  Merging and unlocking change exactly the bytes of the range; no
    sequence of operations lets two owners hold conflicting locks.  The merging loop restarts; its fuel is
    proved to be enough.
  \<^item> \<open>Fd_Table\<close>: the table of open files with its locks, refined to a partial function (locale \<open>descriptor_table\<close>).
  \<^item> \<open>Nfs4_Backend\<close>: \<^verbatim>\<open>nfs4/tc_impl_nfs4.c\<close> over the operations of \<^verbatim>\<open>nfs4/handle.c\<close> as parameters: descriptors, offsets, batches.
  \<^item> \<open>Bitmap4\<close>: attribute bitmaps and the loop over their attributes.
  \<^item> \<open>Compound\<close>, \<open>Compound_Path\<close>: the array of operations a thread fills, the operations that lead the server to a file,
    and a model of what a server does with them; the operations for a path lead to the file the path names.
  \<^item> \<open>Utf8_Names\<close>: which names the name filter accepts, and with which error it refuses the others.
  \<^item> \<open>Fattr_Codec\<close>, \<open>Fattr_Props\<close>: the encoders and decoders of all attributes, the table of attributes, packing, unpacking
    and comparing; locale \<open>attr_codec\<close> is the contract of an encoder with its decoder.
  \<^item> \<open>Attr_Convert\<close>: attributes between the interface and the wire (\<^verbatim>\<open>nfs4/handle.c\<close>).
  \<^item> \<open>Compound_Ops\<close>: the vectorised operations of \<^verbatim>\<open>nfs4/handle.c\<close>, from taking a slot over building and sending the
    compound to reading its results; the remote procedure call is a parameter.
  \<^item> \<open>Compound_Types\<close>: a type system for compounds, and that every compound the operations build is well-typed.
  \<^item> \<open>Compound_Results\<close>: what the operations have done and report, given a server that answers by the protocol.
  \<^item> \<open>Compound_Batches\<close>: the loops of \<open>Nfs4_Backend\<close> with the operations of \<open>Compound_Ops\<close> in place of the parameters: renaming
    and linking any number of pairs, down to the log of the server.
  \<^item> \<open>Compound_Faults\<close>: cases in which the operations overrun their array, read another file, or cannot do their work.

  \<^bold>\<open>How the model reads.\<close>  A C structure is a record, an enumeration a datatype, a word of \<open>w\<close> bits a \<open>w word\<close>.
  Code that changes state takes the state and returns the new one.  A result \<open>None\<close> stands for what
  the language does not define, a failed assertion or a call that never returns, as the
  theory says.  Loops are recursive functions with a termination proof, or take fuel where the
  loop may not end; then enough fuel is proved to give a result.  Code outside of the sources is
  a parameter: the external representation of integers, the mapping of names to identifiers, the
  file system below the lock manager, the server.  What is assumed of it is a named hypothesis,
  and a witness shows a concrete instance.

  \<^bold>\<open>What is not modelled.\<close>  Sockets, RPC, threads that only move bytes, the set-up of clients and
  sessions, configuration parsing, logging and allocation failure (unless a theory says otherwise); the
  generated XDR routines of \<^verbatim>\<open>include/nfsv41.h\<close>; the cache of \<^verbatim>\<open>tc_cache\<close> and the C++
  wrappers over it, which rest on the C++ containers and on a third-party cache; the inode cache, the
  recovery database, the state tables and the NFSv3 side of the server code that the client does not call; the
  programs that measure and test the library.
\<close>

end
